(* ===== verification/Iac_Prelude.thy ===== *)
theory Iac_Prelude
  imports
    Main
    "HOL-Library.List_Lexorder"
    "HOL-Library.Char_ord"
    "HOL-Library.Product_Lexorder"
    "HOL-Library.Multiset"
begin

text \<open>
  Shared vocabulary of the development: the result type of fallible Rust code and its
  \<open>?\<close> operator, the loop that stops at the first error, ordered association maps
  (\<open>BTreeMap\<close>), the JSON values the program inspects, the control plane's error type, and
  an interface for invariants of sequential state machines.

  Strings are lists of bytes and are compared bytewise (\<open>List_Lexorder\<close> over
  \<open>Char_ord\<close>), which is how Rust orders \<open>str\<close> and how both SQL backends order the text
  columns of the store. Pairs are ordered lexicographically, as Rust orders tuples.
\<close>

named_theorems result_simps \<open>evaluation of the result type and of early return\<close>
named_theorems row_simps \<open>what an update of a table row leaves alone\<close>

section \<open>Results and early return\<close>

type_synonym ('e, 'a) result = "'e + 'a"

text \<open>Rust's \<open>?\<close>: an error returns at once, a value is passed on.\<close>

definition bindE :: "('e, 'a) result \<Rightarrow> ('a \<Rightarrow> ('e, 'b) result) \<Rightarrow> ('e, 'b) result" where
  "bindE m f = (case m of Inl e \<Rightarrow> Inl e | Inr x \<Rightarrow> f x)"

lemma bindE_simps [simp, result_simps]:
  "bindE (Inl e) f = Inl e"
  "bindE (Inr x) f = f x"
  by (simp_all add: bindE_def)

lemma bindE_Inr_iff: "bindE m f = Inr y \<longleftrightarrow> (\<exists>x. m = Inr x \<and> f x = Inr y)"
  by (cases m) auto

lemma bindE_InrE:
  assumes "bindE m f = Inr y"
  obtains x where "m = Inr x" and "f x = Inr y"
  using assms by (auto simp: bindE_Inr_iff)

lemma bindE_Inl_iff:
  "bindE m f = Inl e \<longleftrightarrow> m = Inl e \<or> (\<exists>x. m = Inr x \<and> f x = Inl e)"
  by (cases m) auto

lemma bindE_split:
  "P (bindE m f) \<longleftrightarrow> (\<forall>e. m = Inl e \<longrightarrow> P (Inl e)) \<and> (\<forall>x. m = Inr x \<longrightarrow> P (f x))"
  by (cases m) auto

text \<open>\<open>Option::ok_or\<close>.\<close>

definition ok_or :: "'a option \<Rightarrow> 'e \<Rightarrow> ('e, 'a) result" where
  "ok_or x e = (case x of None \<Rightarrow> Inl e | Some v \<Rightarrow> Inr v)"

lemma ok_or_simps [simp, result_simps]:
  "ok_or None e = Inl e"
  "ok_or (Some v) e = Inr v"
  by (simp_all add: ok_or_def)

lemma ok_or_Inr_iff [simp]: "ok_or x e = Inr v \<longleftrightarrow> x = Some v"
  by (cases x) auto

text \<open>A loop whose body can fail with \<open>?\<close> and pushes one value per element.\<close>

primrec traverse :: "('a \<Rightarrow> ('e, 'b) result) \<Rightarrow> 'a list \<Rightarrow> ('e, 'b list) result" where
  "traverse f [] = Inr []"
| "traverse f (x # xs) = bindE (f x) (\<lambda>y. bindE (traverse f xs) (\<lambda>ys. Inr (y # ys)))"

lemma traverse_Inr_iff:
  "traverse f xs = Inr ys \<longleftrightarrow> list_all2 (\<lambda>x y. f x = Inr y) xs ys"
  by (induction xs arbitrary: ys) (auto simp: bindE_Inr_iff list_all2_Cons1)

lemma traverse_length: "traverse f xs = Inr ys \<Longrightarrow> length ys = length xs"
  by (auto simp: traverse_Inr_iff dest: list_all2_lengthD)

lemma traverse_nth:
  "traverse f xs = Inr ys \<Longrightarrow> i < length xs \<Longrightarrow> f (xs ! i) = Inr (ys ! i)"
  by (auto simp: traverse_Inr_iff list_all2_conv_all_nth)

lemma traverse_total: "(\<And>x. x \<in> set xs \<Longrightarrow> \<exists>y. f x = Inr y) \<Longrightarrow> \<exists>ys. traverse f xs = Inr ys"
proof (induction xs)
  case (Cons x xs)
  from Cons.prems obtain y where "f x = Inr y" by auto
  moreover from Cons obtain ys where "traverse f xs = Inr ys" by auto
  ultimately show ?case by simp
qed simp

section \<open>Decimal rendering\<close>

fun show_nat :: "nat \<Rightarrow> string" where
  "show_nat n =
     (if n < 10 then [char_of (48 + n)] else show_nat (n div 10) @ [char_of (48 + n mod 10)])"

declare show_nat.simps [simp del]

lemma show_nat_not_Nil [simp]: "show_nat n \<noteq> []"
  by (subst show_nat.simps) simp

section \<open>Ordered maps\<close>

text \<open>
  \<open>BTreeMap\<close> as an association list with strictly increasing keys. \<open>bt_insert\<close> is
  \<open>insert\<close> (a second insert of a key replaces the value), \<open>bt_push\<close> is
  \<open>entry(k).or_default().push(v)\<close>; iteration is the list itself.
\<close>

fun bt_insert :: "'k::linorder \<Rightarrow> 'v \<Rightarrow> ('k \<times> 'v) list \<Rightarrow> ('k \<times> 'v) list" where
  "bt_insert k v [] = [(k, v)]"
| "bt_insert k v ((a, b) # m) =
     (if k < a then (k, v) # (a, b) # m
      else if k = a then (k, v) # m
      else (a, b) # bt_insert k v m)"

fun bt_push :: "'k::linorder \<Rightarrow> 'v \<Rightarrow> ('k \<times> 'v list) list \<Rightarrow> ('k \<times> 'v list) list" where
  "bt_push k v [] = [(k, [v])]"
| "bt_push k v ((a, b) # m) =
     (if k < a then (k, [v]) # (a, b) # m
      else if k = a then (k, b @ [v]) # m
      else (a, b) # bt_push k v m)"

definition bt_wf :: "('k::linorder \<times> 'v) list \<Rightarrow> bool" where
  "bt_wf m \<longleftrightarrow> sorted_wrt (<) (map fst m)"

lemma bt_wf_Nil [simp]: "bt_wf []"
  by (simp add: bt_wf_def)

lemma bt_wf_Cons [simp]: "bt_wf ((k, v) # m) \<longleftrightarrow> (\<forall>x \<in> fst ` set m. k < x) \<and> bt_wf m"
  by (simp add: bt_wf_def)

lemma bt_wf_distinct: "bt_wf m \<Longrightarrow> distinct (map fst m)"
  by (simp add: bt_wf_def strict_sorted_iff)

lemma fst_bt_insert: "fst ` set (bt_insert k v m) = insert k (fst ` set m)"
  by (induction k v m rule: bt_insert.induct) auto

lemma fst_bt_push: "fst ` set (bt_push k v m) = insert k (fst ` set m)"
  by (induction k v m rule: bt_push.induct) auto

lemma bt_wf_insert: "bt_wf m \<Longrightarrow> bt_wf (bt_insert k v m)"
  by (induction k v m rule: bt_insert.induct)
     (fastforce simp: fst_bt_insert dest: less_trans)+

lemma bt_wf_push: "bt_wf m \<Longrightarrow> bt_wf (bt_push k v m)"
  by (induction k v m rule: bt_push.induct)
     (fastforce simp: fst_bt_push dest: less_trans)+

lemma map_of_bt_insert: "bt_wf m \<Longrightarrow> map_of (bt_insert k v m) = (map_of m)(k \<mapsto> v)"
proof (induction k v m rule: bt_insert.induct)
  case (2 k v a b m)
  then show ?case
    by (auto simp: fun_eq_iff)
qed simp

lemma map_of_bt_push:
  "bt_wf m \<Longrightarrow> map_of (bt_push k v m) =
     (map_of m)(k \<mapsto> (case map_of m k of None \<Rightarrow> [v] | Some vs \<Rightarrow> vs @ [v]))"
proof (induction k v m rule: bt_push.induct)
  case (2 k v a b m)
  have no: "k < a \<Longrightarrow> map_of m k = None"
    using 2(2) by (auto simp: map_of_eq_None_iff dest: less_trans)
  show ?case
    using 2 no by (auto simp: fun_eq_iff split: option.splits)
qed simp

text \<open>The contract of the ordered map, and what its clients derive from it once.\<close>

locale ordered_map =
  fixes wf :: "'m \<Rightarrow> bool"
    and empty :: 'm
    and look :: "'m \<Rightarrow> 'k \<Rightarrow> 'v option"
    and put :: "'k \<Rightarrow> 'v \<Rightarrow> 'm \<Rightarrow> 'm"
  assumes wf_empty: "wf empty"
    and look_empty: "look empty = Map.empty"
    and wf_put: "wf m \<Longrightarrow> wf (put k v m)"
    and look_put: "wf m \<Longrightarrow> look (put k v m) = (look m)(k \<mapsto> v)"
begin

lemma fold_put_wf: "wf m \<Longrightarrow> wf (fold (\<lambda>(k, v). put k v) kvs m)"
  by (induction kvs arbitrary: m) (auto intro: wf_put)

lemma look_fold_put:
  "wf m \<Longrightarrow> look (fold (\<lambda>(k, v). put k v) kvs m) = look m ++ map_of (rev kvs)"
proof (induction kvs arbitrary: m)
  case (Cons kv kvs)
  obtain k v where kv: "kv = (k, v)" by force
  from Cons have "look (fold (\<lambda>(k, v). put k v) kvs (put k v m)) =
      look (put k v m) ++ map_of (rev kvs)"
    by (auto intro: wf_put)
  then show ?case
    using Cons.prems by (auto simp: kv look_put map_add_def fun_eq_iff split: option.splits)
qed simp

end

interpretation bt: ordered_map bt_wf "[]" map_of bt_insert
  by unfold_locales (simp_all add: bt_wf_insert map_of_bt_insert)

section \<open>JSON values\<close>

text \<open>
  The six constructors of \<open>serde_json::Value\<close> the program matches on. A number is kept as
  its text. Parsing and printing are not code of this repository: they are the two fields of
  \<open>serde\<close>, and every definition that parses or prints takes them as an argument.
\<close>

datatype json =
    JNull
  | JBool bool
  | JNum string
  | JStr string
  | JArr "json list"
  | JObj "(string \<times> json) list"

record serde =
  from_str :: "string \<Rightarrow> json option"
  to_str :: "json \<Rightarrow> string"

text \<open>\<open>Value::get\<close>, \<open>as_str\<close>, \<open>as_array\<close>, \<open>as_object\<close>.\<close>

definition jget :: "json \<Rightarrow> string \<Rightarrow> json option" where
  "jget v k = (case v of JObj m \<Rightarrow> map_of m k | _ \<Rightarrow> None)"

definition as_str :: "json \<Rightarrow> string option" where
  "as_str v = (case v of JStr s \<Rightarrow> Some s | _ \<Rightarrow> None)"

definition as_array :: "json \<Rightarrow> json list option" where
  "as_array v = (case v of JArr a \<Rightarrow> Some a | _ \<Rightarrow> None)"

text \<open>A chain \<open>v.get(a).and_then(|m| m.get(b))...\<close>.\<close>

fun jpath :: "json \<Rightarrow> string list \<Rightarrow> json option" where
  "jpath v [] = Some v"
| "jpath v (k # ks) = Option.bind (jget v k) (\<lambda>w. jpath w ks)"

lemma jget_simps [simp]:
  "jget (JObj m) k = map_of m k" "jget JNull k = None" "jget (JBool b) k = None"
  "jget (JNum n) k = None" "jget (JStr s) k = None" "jget (JArr a) k = None"
  by (simp_all add: jget_def)

lemma as_str_simps [simp]:
  "as_str (JStr s) = Some s" "as_str JNull = None" "as_str (JBool b) = None"
  "as_str (JNum n) = None" "as_str (JArr a) = None" "as_str (JObj m) = None"
  by (simp_all add: as_str_def)

lemma as_array_simps [simp]:
  "as_array (JArr a) = Some a" "as_array JNull = None" "as_array (JBool b) = None"
  "as_array (JNum n) = None" "as_array (JStr s) = None" "as_array (JObj m) = None"
  by (simp_all add: as_array_def)

lemma as_str_Some_iff: "as_str v = Some s \<longleftrightarrow> v = JStr s"
  by (cases v) auto

section \<open>Control-plane errors\<close>

text \<open>
  \<open>ApiError\<close>. A message is kept as its format string and its arguments; rendering
  it is left out. \<open>Panic\<close> is the abnormal end of a request on an \<open>expect\<close>, an index out
  of range or a subtraction below zero; it is a constructor so that its absence can be proved.
\<close>

datatype err_msg = Msg string "string list"

datatype api_error =
    NotFound
  | Unauthorized
  | Forbidden
  | Conflict err_msg
  | BadRequest err_msg
  | PayloadTooLarge
  | TooManyRequests string string nat
  | ServiceUnavailable string nat
  | Internal err_msg
  | Sqlx string
  | JsonError
  | Panic

type_synonym 'a api_result = "(api_error, 'a) result"

section \<open>Invariants of sequential machines\<close>

text \<open>
  A component whose operations run one after another (a transaction per call) is a step
  function on its state; a run is any sequence of calls. A predicate that holds at the start
  and that no call breaks holds after every sequence, and one that some calls break in some states
  holds after every sequence without such a moment.
\<close>

primrec all_along :: "('e \<Rightarrow> 's \<Rightarrow> 's) \<Rightarrow> ('e \<Rightarrow> 's \<Rightarrow> bool) \<Rightarrow> 'e list \<Rightarrow> 's \<Rightarrow> bool" where
  "all_along step guard [] s \<longleftrightarrow> True"
| "all_along step guard (e # es) s \<longleftrightarrow> guard e s \<and> all_along step guard es (step e s)"

locale guarded_machine =
  fixes step :: "'e \<Rightarrow> 's \<Rightarrow> 's"
    and guard :: "'e \<Rightarrow> 's \<Rightarrow> bool"
    and inv :: "'s \<Rightarrow> bool"
  assumes guarded_step: "guard e s \<Longrightarrow> inv s \<Longrightarrow> inv (step e s)"
begin

lemma guarded_run: "all_along step guard es s \<Longrightarrow> inv s \<Longrightarrow> inv (fold step es s)"
  by (induction es arbitrary: s) (auto intro: guarded_step)

end

locale machine_invariant =
  fixes step :: "'e \<Rightarrow> 's \<Rightarrow> 's"
    and inv :: "'s \<Rightarrow> bool"
  assumes inv_step: "inv s \<Longrightarrow> inv (step e s)"

sublocale machine_invariant \<subseteq> guarded: guarded_machine step "\<lambda>_ _. True" inv
  by unfold_locales (rule inv_step)

context machine_invariant
begin

lemma inv_run: "inv s \<Longrightarrow> inv (fold step es s)"
  by (induction es arbitrary: s) (auto intro: inv_step)

end

section \<open>Lists\<close>

lemma list_update_upd_map:
  "i < length xs \<Longrightarrow> map f (xs[i := x]) = (map f xs)[i := f x]"
  by (simp add: map_update)

lemma sum_list_update_nat:
  "i < length xs \<Longrightarrow> sum_list (xs[i := (x::nat)]) + xs ! i = sum_list xs + x"
proof (induction xs arbitrary: i)
  case (Cons a xs)
  then show ?case by (cases i) auto
qed simp

lemma filter_map_id: "(\<And>x. x \<in> set xs \<Longrightarrow> P (f x) = P x) \<Longrightarrow> (\<And>x. x \<in> set xs \<Longrightarrow> P x \<Longrightarrow> f x = x)
    \<Longrightarrow> filter P (map f xs) = filter P xs"
  by (induction xs) auto

lemma mset_map_nth: "mset ns = mset [0..<length xs] \<Longrightarrow> mset (map ((!) xs) ns) = mset xs"
  by (metis map_nth mset_map)

section \<open>Text\<close>

text \<open>\<open>char::is_whitespace\<close>: the UTF-8 encodings of the Unicode white space characters.\<close>

definition white_space :: "string list" where
  "white_space = [[CHR '' ''], [CHR 0x09], [CHR 0x0A], [CHR 0x0B], [CHR 0x0C], [CHR 0x0D],
     [CHR 0xC2, CHR 0x85], [CHR 0xC2, CHR 0xA0], [CHR 0xE1, CHR 0x9A, CHR 0x80],
     [CHR 0xE2, CHR 0x80, CHR 0x80], [CHR 0xE2, CHR 0x80, CHR 0x81], [CHR 0xE2, CHR 0x80, CHR 0x82],
     [CHR 0xE2, CHR 0x80, CHR 0x83], [CHR 0xE2, CHR 0x80, CHR 0x84], [CHR 0xE2, CHR 0x80, CHR 0x85],
     [CHR 0xE2, CHR 0x80, CHR 0x86], [CHR 0xE2, CHR 0x80, CHR 0x87], [CHR 0xE2, CHR 0x80, CHR 0x88],
     [CHR 0xE2, CHR 0x80, CHR 0x89], [CHR 0xE2, CHR 0x80, CHR 0x8A], [CHR 0xE2, CHR 0x80, CHR 0xA8],
     [CHR 0xE2, CHR 0x80, CHR 0xA9], [CHR 0xE2, CHR 0x80, CHR 0xAF], [CHR 0xE2, CHR 0x81, CHR 0x9F],
     [CHR 0xE3, CHR 0x80, CHR 0x80]]"

fun is_prefix :: "string \<Rightarrow> string \<Rightarrow> bool" where
  "is_prefix [] s = True"
| "is_prefix (p # ps) [] = False"
| "is_prefix (p # ps) (c # cs) = (p = c \<and> is_prefix ps cs)"

lemma is_prefix_length: "is_prefix w s \<Longrightarrow> length w \<le> length s"
  by (induction w s rule: is_prefix.induct) auto

lemma is_prefix_append: "is_prefix w (w @ s)"
  by (induction w) auto

lemma is_prefix_hd: "is_prefix (p # ps) s \<Longrightarrow> s \<noteq> [] \<and> hd s = p"
  by (cases s) auto

function drop_leading :: "string list \<Rightarrow> string \<Rightarrow> string" where
  "drop_leading ws s =
     (case find (\<lambda>w. w \<noteq> [] \<and> is_prefix w s) ws of
        None \<Rightarrow> s
      | Some w \<Rightarrow> drop_leading ws (drop (length w) s))"
  by pat_completeness auto
termination
proof (relation "measure (\<lambda>(ws, s). length s)")
  fix ws :: "string list" and s w assume "find (\<lambda>w. w \<noteq> [] \<and> is_prefix w s) ws = Some w"
  then have "w \<noteq> []" "is_prefix w s" by (auto simp: find_Some_iff)
  with is_prefix_length [of w s] show "((ws, drop (length w) s), ws, s) \<in> measure (\<lambda>(ws, s). length s)"
    by (cases w) auto
qed simp

declare drop_leading.simps [simp del]

text \<open>\<open>str::trim\<close>.\<close>

definition trim :: "string \<Rightarrow> string" where
  "trim s = rev (drop_leading (map rev white_space) (rev (drop_leading white_space s)))"

text \<open>A string that neither begins nor ends with a byte of a white space character is left alone.\<close>

lemma drop_leading_id:
  assumes "s = [] \<or> (\<forall>w \<in> set ws. w = [] \<or> hd w \<noteq> hd s)"
  shows "drop_leading ws s = s"
proof -
  have "find (\<lambda>w. w \<noteq> [] \<and> is_prefix w s) ws = None"
    unfolding find_None_iff
  proof clarify
    fix w assume w: "w \<in> set ws" "w \<noteq> []" "is_prefix w s"
    from w(2) obtain p ps where "w = p # ps" by (meson neq_Nil_conv)
    with w is_prefix_hd [of p ps s] assms show False by auto
  qed
  then show ?thesis by (subst drop_leading.simps) simp
qed

definition plain_byte :: "char \<Rightarrow> bool" where
  "plain_byte c \<longleftrightarrow> c \<notin> hd ` set white_space \<and> c \<notin> last ` set white_space"

lemma trim_plain:
  assumes "s = [] \<or> plain_byte (hd s) \<and> plain_byte (last s)"
  shows "trim s = s"
proof -
  have ne: "\<forall>w \<in> set white_space. w \<noteq> []" by (simp add: white_space_def)
  have a: "drop_leading white_space s = s"
    by (rule drop_leading_id) (use assms in \<open>auto simp: plain_byte_def image_iff\<close>)
  have "drop_leading (map rev white_space) (rev s) = rev s"
    by (rule drop_leading_id) (use assms ne in \<open>auto simp: plain_byte_def hd_rev image_iff\<close>)
  with a show ?thesis by (simp add: trim_def)
qed

end
