(* ===== verification/Core_Resource.thy ===== *)
theory Core_Resource
  imports Iac_Prelude
begin

text \<open>
  Resource identity and shape (\<open>crates/iac-core/src/id.rs\<close>, \<open>resource.rs\<close>): the logical id
  \<open>kind/environment/name\<close>, its parser, its file-system key, and the validation of the four
  identifiers of a manifest. SHA-256 in hex is the parameter \<open>H\<close>.
\<close>

section \<open>Definitions\<close>

record resource_id =
  ri_kind :: string
  ri_environment :: string
  ri_name :: string

definition resource_id_to_string :: "resource_id \<Rightarrow> string" where
  "resource_id_to_string r = ri_kind r @ ''/'' @ ri_environment r @ ''/'' @ ri_name r"

text \<open>One step of \<open>splitn\<close>: the text before the first separator and the text after it, if any.\<close>

fun split_once :: "char \<Rightarrow> string \<Rightarrow> string \<times> string option" where
  "split_once sep [] = ([], None)"
| "split_once sep (c # cs) =
     (if c = sep then ([], Some cs) else (case split_once sep cs of (x, r) \<Rightarrow> (c # x, r)))"

definition parse_resource_id :: "string \<Rightarrow> resource_id option" where
  "parse_resource_id s =
     (case split_once (CHR ''/'') s of
        (k, None) \<Rightarrow> None
      | (k, Some rest) \<Rightarrow>
          (case split_once (CHR ''/'') rest of
             (e, None) \<Rightarrow> None
           | (e, Some n) \<Rightarrow>
               if k = [] \<or> e = [] \<or> n = [] then None
               else Some \<lparr>ri_kind = k, ri_environment = e, ri_name = n\<rparr>))"

definition ascii_alnum :: "char \<Rightarrow> bool" where
  "ascii_alnum c \<longleftrightarrow> (let n = (of_char c :: nat)
     in (48 \<le> n \<and> n \<le> 57) \<or> (65 \<le> n \<and> n \<le> 90) \<or> (97 \<le> n \<and> n \<le> 122))"

text \<open>\<open>sanitize\<close> works on characters; in UTF-8 every character has exactly one byte that is not a
  continuation byte, so continuation bytes (0x80 to 0xBF) vanish.\<close>

definition sanitize :: "string \<Rightarrow> string" where
  "sanitize s = concat (map (\<lambda>c.
     if ascii_alnum c \<or> c = CHR ''-'' \<or> c = CHR ''.'' then [c]
     else if 128 \<le> (of_char c :: nat) \<and> (of_char c :: nat) < 192 then []
     else ''_'') s)"

definition canonical_id :: "resource_id \<Rightarrow> string" where
  "canonical_id r = ri_kind r @ [CHR 0x00] @ ri_environment r @ [CHR 0x00] @ ri_name r"

definition fs_key :: "(string \<Rightarrow> string) \<Rightarrow> resource_id \<Rightarrow> string" where
  "fs_key H r = sanitize (ri_kind r) @ ''__'' @ sanitize (ri_environment r) @ ''__'' @ sanitize (ri_name r)
     @ ''__'' @ take 12 (H (canonical_id r))"

section \<open>Manifest shape\<close>

record metadata =
  md_name :: string
  md_environment :: string
  md_owner :: "string option"
  md_labels :: "(string \<times> string) list"
  md_annotations :: "(string \<times> string) list"

record resource =
  rs_api_version :: string
  rs_kind :: string
  rs_metadata :: metadata
  rs_spec :: json
  rs_policy :: json

text \<open>\<open>Error\<close> of \<open>error.rs\<close>. The list of a \<open>Command\<close> error holds the failures a rollback collects.\<close>

datatype core_error =
    IoError string string
  | YamlError string
  | CoreJsonError
  | ManifestError string err_msg
  | ValidationError string err_msg
  | UnknownKind string
  | ProviderError string err_msg
  | CheckpointError string err_msg
  | CommandError string "(string \<times> core_error) list"

definition resource_id_of :: "resource \<Rightarrow> resource_id" where
  "resource_id_of r = \<lparr>ri_kind = rs_kind r, ri_environment = md_environment (rs_metadata r), ri_name = md_name (rs_metadata r)\<rparr>"

text \<open>\<open>char::is_control\<close>: U+0000 to U+001F and U+007F to U+009F; the last 32 are two bytes in UTF-8.\<close>

fun has_control :: "string \<Rightarrow> bool" where
  "has_control [] = False"
| "has_control (c # cs) =
     ((of_char c :: nat) < 32 \<or> (of_char c :: nat) = 127
      \<or> (c = CHR 0xC2 \<and> (case cs of [] \<Rightarrow> False | e # _ \<Rightarrow> 128 \<le> (of_char e :: nat) \<and> (of_char e :: nat) < 160))
      \<or> has_control cs)"

definition validate_required_identifier :: "string \<Rightarrow> string \<Rightarrow> string \<Rightarrow> (core_error, unit) result" where
  "validate_required_identifier rid field val =
     (if val = [] then Inl (ValidationError rid (Msg ''{field} must not be empty'' [field]))
      else if trim val = [] then Inl (ValidationError rid (Msg ''{field} must not be whitespace-only (got {value:?})'' [field, val]))
      else if has_control val then Inl (ValidationError rid (Msg ''{field} contains control characters (got {value:?})'' [field, val]))
      else Inr ())"

definition validate_shape :: "resource \<Rightarrow> (core_error, unit) result" where
  "validate_shape r =
     (let rid = resource_id_to_string (resource_id_of r) in
      bindE (validate_required_identifier rid ''apiVersion'' (rs_api_version r)) (\<lambda>_.
      bindE (validate_required_identifier rid ''kind'' (rs_kind r)) (\<lambda>_.
      bindE (validate_required_identifier rid ''metadata.name'' (md_name (rs_metadata r))) (\<lambda>_.
      bindE (validate_required_identifier rid ''metadata.environment'' (md_environment (rs_metadata r))) (\<lambda>_.
        Inr ())))))"

section \<open>Round trip\<close>

lemma split_once_append:
  "c \<notin> set x \<Longrightarrow> split_once c (x @ c # y) = (x, Some y)"
  by (induction x) auto

lemma split_once_Some: "split_once c s = (x, Some y) \<Longrightarrow> s = x @ c # y \<and> c \<notin> set x"
  by (induction s arbitrary: x) (auto split: if_splits prod.splits)

definition id_wf :: "resource_id \<Rightarrow> bool" where
  "id_wf r \<longleftrightarrow> ri_kind r \<noteq> [] \<and> ri_environment r \<noteq> [] \<and> ri_name r \<noteq> []
     \<and> CHR ''/'' \<notin> set (ri_kind r) \<and> CHR ''/'' \<notin> set (ri_environment r)"

lemma parse_display: "id_wf r \<Longrightarrow> parse_resource_id (resource_id_to_string r) = Some r"
  by (simp add: id_wf_def parse_resource_id_def resource_id_to_string_def split_once_append)

lemma display_parse: "parse_resource_id s = Some r \<Longrightarrow> resource_id_to_string r = s \<and> id_wf r"
  by (auto simp: parse_resource_id_def resource_id_to_string_def id_wf_def dest!: split_once_Some
      split: prod.splits option.splits if_splits)

text \<open>
  Resource ids round-trip through their text form: parsing the printed form of an id whose kind
  and environment contain no slash gives the id back, whatever the name contains, and everything
  the parser accepts prints back to the same text.
\<close>

theorem resource_id_roundtrip:
  "(parse_resource_id (resource_id_to_string r) = Some r \<longleftrightarrow> id_wf r)
   \<and> (parse_resource_id s = Some q \<longrightarrow> resource_id_to_string q = s)"
  using parse_display display_parse by blast

theorem resource_id_roundtrip_witness:
  "resource_id_to_string \<lparr>ri_kind = ''file'', ri_environment = ''prod'', ri_name = ''etc/motd''\<rparr> = ''file/prod/etc/motd''"
proof -
  have "parse_resource_id ''file/prod/etc/motd'' = Some \<lparr>ri_kind = ''file'', ri_environment = ''prod'', ri_name = ''etc/motd''\<rparr>"
    by code_simp
  with resource_id_roundtrip [of undefined "''file/prod/etc/motd''"] show ?thesis by blast
qed

section \<open>File-system keys\<close>

definition path_safe :: "char \<Rightarrow> bool" where
  "path_safe c \<longleftrightarrow> ascii_alnum c \<or> c \<in> {CHR ''-'', CHR ''.'', CHR ''_''}"

lemma sanitize_safe: "c \<in> set (sanitize s) \<Longrightarrow> path_safe c"
  by (auto simp: sanitize_def path_safe_def split: if_splits)

lemma canonical_id_inj:
  assumes "canonical_id r = canonical_id s"
    and "CHR 0x00 \<notin> set (ri_kind r) \<union> set (ri_environment r) \<union> set (ri_kind s) \<union> set (ri_environment s)"
  shows "r = s"
proof -
  have z: "CHR 0x00 \<notin> set (ri_kind r)" "CHR 0x00 \<notin> set (ri_kind s)"
    "CHR 0x00 \<notin> set (ri_environment r)" "CHR 0x00 \<notin> set (ri_environment s)" using assms(2) by auto
  have e: "ri_kind r @ CHR 0x00 # ri_environment r @ CHR 0x00 # ri_name r
      = ri_kind s @ CHR 0x00 # ri_environment s @ CHR 0x00 # ri_name s" using assms(1) by (simp add: canonical_id_def)
  from arg_cong [OF e, of "split_once (CHR 0x00)"]
  have k: "ri_kind r = ri_kind s" and e2: "ri_environment r @ CHR 0x00 # ri_name r = ri_environment s @ CHR 0x00 # ri_name s"
    by (simp_all only: split_once_append [OF z(1)] split_once_append [OF z(2)] prod.inject option.inject)
  from arg_cong [OF e2, of "split_once (CHR 0x00)"]
  have "ri_environment r = ri_environment s" "ri_name r = ri_name s"
    by (simp_all only: split_once_append [OF z(3)] split_once_append [OF z(4)] prod.inject option.inject)
  with k show ?thesis by simp
qed

text \<open>
  File-system keys are safe and collision-resistant: with a hex digest a key contains only
  letters, digits, dot, dash and underscore (no slash, so it stays one path segment), and two
  validated resources share a key only if they are the same resource or the first twelve digits of
  the digests of their distinct canonical forms collide.
\<close>

theorem fs_key_safe_and_injective:
  assumes "\<And>x. length (H x) = 64 \<and> (\<forall>c \<in> set (H x). ascii_alnum c)"
    and "\<not> has_control (ri_kind r)" "\<not> has_control (ri_environment r)"
    and "\<not> has_control (ri_kind s)" "\<not> has_control (ri_environment s)"
  shows "(\<forall>c \<in> set (fs_key H r). path_safe c)
    \<and> (fs_key H r = fs_key H s \<longrightarrow>
         r = s \<or> canonical_id r \<noteq> canonical_id s \<and> take 12 (H (canonical_id r)) = take 12 (H (canonical_id s)))"
proof (intro conjI ballI impI)
  fix c assume "c \<in> set (fs_key H r)"
  then show "path_safe c"
    using assms(1) by (auto simp: fs_key_def path_safe_def dest: sanitize_safe in_set_takeD)
next
  assume eq: "fs_key H r = fs_key H s"
  have t: "take 12 (H x) = drop (length ys - 12) ys" if "ys = p @ take 12 (H x)" for ys p x
    using assms(1) [of x] that by simp
  have "take 12 (H (canonical_id r)) = drop (length (fs_key H r) - 12) (fs_key H r)"
    by (rule t [where p = "sanitize (ri_kind r) @ ''__'' @ sanitize (ri_environment r) @ ''__'' @ sanitize (ri_name r) @ ''__''"])
       (simp add: fs_key_def)
  also have "\<dots> = drop (length (fs_key H s) - 12) (fs_key H s)" by (simp only: eq)
  also have "\<dots> = take 12 (H (canonical_id s))"
    by (rule t [symmetric, where p = "sanitize (ri_kind s) @ ''__'' @ sanitize (ri_environment s) @ ''__'' @ sanitize (ri_name s) @ ''__''"])
       (simp add: fs_key_def)
  finally have d: "take 12 (H (canonical_id r)) = take 12 (H (canonical_id s))" .
  have "CHR 0x00 \<notin> set x" if "\<not> has_control x" for x
    using that by (induction x) auto
  with assms(2-) canonical_id_inj [of r s] d
  show "r = s \<or> canonical_id r \<noteq> canonical_id s \<and> take 12 (H (canonical_id r)) = take 12 (H (canonical_id s))" by auto
qed

theorem fs_key_witness:
  "list_all path_safe (fs_key (\<lambda>x. replicate 64 CHR ''0'') \<lparr>ri_kind = ''file'', ri_environment = ''prod'', ri_name = ''a/b''\<rparr>)"
  using fs_key_safe_and_injective [of "\<lambda>x. replicate 64 CHR ''0''"
      "\<lparr>ri_kind = ''file'', ri_environment = ''prod'', ri_name = ''a/b''\<rparr>"
      "\<lparr>ri_kind = ''file'', ri_environment = ''prod'', ri_name = ''a/b''\<rparr>"]
  by (simp add: ascii_alnum_def list_all_iff)

definition usable_identifier :: "string \<Rightarrow> bool" where
  "usable_identifier v \<longleftrightarrow> v \<noteq> [] \<and> trim v \<noteq> [] \<and> \<not> has_control v"

text \<open>
  A manifest passes the shape check exactly when its API version, kind, name and environment
  are each non-blank and free of control characters; what passes has a usable id.
\<close>

theorem validate_shape_iff:
  "validate_shape r = Inr () \<longleftrightarrow> usable_identifier (rs_api_version r) \<and> usable_identifier (rs_kind r)
     \<and> usable_identifier (md_name (rs_metadata r)) \<and> usable_identifier (md_environment (rs_metadata r))"
proof -
  have v: "validate_required_identifier rid f v = Inr () \<longleftrightarrow> usable_identifier v" for rid f v
    by (simp add: validate_required_identifier_def usable_identifier_def)
  show ?thesis unfolding validate_shape_def Let_def bindE_Inr_iff by (auto simp: v)
qed

end
