(* ===== verification/Core_Diff.thy ===== *)
theory Core_Diff
  imports Core_Resource
begin

text \<open>
  The \<open>Diff\<close> type of \<open>iac-core/src/diff.rs\<close> and its JSON form. Field values of a diff are YAML
  values, which are kept as JSON values.
\<close>

section \<open>Diffs\<close>

datatype diff_kind = NoChange | Create | Update | Delete

record field_change =
  fc_field :: string
  fc_from :: "json option"
  fc_to :: "json option"
  fc_sensitive :: bool

record diff =
  df_kind :: diff_kind
  df_changes :: "field_change list"
  df_reasons :: "string list"
  df_reversible :: bool

definition no_change :: diff where
  "no_change = \<lparr>df_kind = NoChange, df_changes = [], df_reasons = [], df_reversible = True\<rparr>"

definition is_change :: "diff \<Rightarrow> bool" where
  "is_change x \<longleftrightarrow> df_kind x \<noteq> NoChange"

fun diff_kind_text :: "diff_kind \<Rightarrow> string" where
  "diff_kind_text NoChange = ''no_change''"
| "diff_kind_text Create = ''create''"
| "diff_kind_text Update = ''update''"
| "diff_kind_text Delete = ''delete''"

definition diff_kind_of :: "json \<Rightarrow> diff_kind option" where
  "diff_kind_of v = find (\<lambda>k. v = JStr (diff_kind_text k)) [NoChange, Create, Update, Delete]"

definition jvalue :: "json option \<Rightarrow> json" where
  "jvalue v = (case v of None \<Rightarrow> JNull | Some x \<Rightarrow> x)"

text \<open>The derived serializers. An optional value that is missing or null reads as \<open>None\<close>, and the
  fields with a default may be missing.\<close>

definition opt_value :: "json option \<Rightarrow> json option" where
  "opt_value v = (case v of None \<Rightarrow> None | Some JNull \<Rightarrow> None | Some x \<Rightarrow> Some x)"

definition bool_or :: "bool \<Rightarrow> json option \<Rightarrow> bool option" where
  "bool_or dflt v = (case v of None \<Rightarrow> Some dflt | Some (JBool b) \<Rightarrow> Some b | Some _ \<Rightarrow> None)"

definition list_or_empty :: "(json \<Rightarrow> 'a option) \<Rightarrow> json option \<Rightarrow> 'a list option" where
  "list_or_empty f v = (case v of None \<Rightarrow> Some [] | Some (JArr xs) \<Rightarrow> those (map f xs) | Some _ \<Rightarrow> None)"

definition field_change_to_json :: "field_change \<Rightarrow> json" where
  "field_change_to_json c = JObj [(''field'', JStr (fc_field c)), (''from'', jvalue (fc_from c)),
     (''to'', jvalue (fc_to c)), (''sensitive'', JBool (fc_sensitive c))]"

definition field_change_of :: "json \<Rightarrow> field_change option" where
  "field_change_of v =
     Option.bind (Option.bind (jget v ''field'') as_str) (\<lambda>field.
     Option.bind (bool_or False (jget v ''sensitive'')) (\<lambda>sens.
       Some \<lparr>fc_field = field, fc_from = opt_value (jget v ''from''), fc_to = opt_value (jget v ''to''),
             fc_sensitive = sens\<rparr>))"

definition diff_to_json :: "diff \<Rightarrow> json" where
  "diff_to_json x = JObj [(''kind'', JStr (diff_kind_text (df_kind x))),
     (''changes'', JArr (map field_change_to_json (df_changes x))),
     (''reasons'', JArr (map JStr (df_reasons x))), (''reversible'', JBool (df_reversible x))]"

definition diff_of :: "json \<Rightarrow> diff option" where
  "diff_of v =
     Option.bind (Option.bind (jget v ''kind'') diff_kind_of) (\<lambda>kind.
     Option.bind (list_or_empty field_change_of (jget v ''changes'')) (\<lambda>changes.
     Option.bind (list_or_empty as_str (jget v ''reasons'')) (\<lambda>reasons.
     Option.bind (bool_or True (jget v ''reversible'')) (\<lambda>rev.
       Some \<lparr>df_kind = kind, df_changes = changes, df_reasons = reasons, df_reversible = rev\<rparr>))))"

end
