(* ===== verification/Actions.thy ===== *)
theory Actions
  imports Iac_Prelude
begin

text \<open>
  Fallible code with a state that survives its errors: an action on the world \<open>'w\<close> is a function from
  the world before to a result and the world after, so what it did before it failed is not lost. The
  executor acts on a file system, a request handler on the state of the server.
\<close>

type_synonym ('w, 'e, 'a) act = "'w \<Rightarrow> ('e, 'a) result \<times> 'w"

definition doing :: "'a \<Rightarrow> ('w, 'e, 'a) act" where
  "doing x = (\<lambda>w. (Inr x, w))"

definition failing :: "'e \<Rightarrow> ('w, 'e, 'a) act" where
  "failing e = (\<lambda>w. (Inl e, w))"

definition from_result :: "('e, 'a) result \<Rightarrow> ('w, 'e, 'a) act" where
  "from_result r = (\<lambda>w. (r, w))"

definition bindA :: "('w, 'e, 'a) act \<Rightarrow> ('a \<Rightarrow> ('w, 'e, 'b) act) \<Rightarrow> ('w, 'e, 'b) act" where
  "bindA m f = (\<lambda>w. case m w of (Inl e, w') \<Rightarrow> (Inl e, w') | (Inr x, w') \<Rightarrow> f x w')"

text \<open>Matching on the result instead of propagating the error, and \<open>map_err\<close>.\<close>

definition attempt :: "('w, 'e, 'a) act \<Rightarrow> ('w, 'f, ('e, 'a) result) act" where
  "attempt m = (\<lambda>w. case m w of (r, w') \<Rightarrow> (Inr r, w'))"

definition map_errA :: "('e \<Rightarrow> 'f) \<Rightarrow> ('w, 'e, 'a) act \<Rightarrow> ('w, 'f, 'a) act" where
  "map_errA f m = (\<lambda>w. case m w of (Inl e, w') \<Rightarrow> (Inl (f e), w') | (Inr x, w') \<Rightarrow> (Inr x, w'))"

lemma doing_apply [simp]: "doing x w = (Inr x, w)"
  by (simp add: doing_def)

lemma failing_apply [simp]: "failing e w = (Inl e, w)"
  by (simp add: failing_def)

lemma from_result_apply [simp]: "from_result r w = (r, w)"
  by (simp add: from_result_def)

lemma bindA_split:
  "P (bindA m f w) \<longleftrightarrow>
     (\<forall>e w'. m w = (Inl e, w') \<longrightarrow> P (Inl e, w')) \<and> (\<forall>x w'. m w = (Inr x, w') \<longrightarrow> P (f x w'))"
  by (simp add: bindA_def split: prod.splits sum.splits)

lemma bindA_Inr: "m w = (Inr x, w') \<Longrightarrow> bindA m f w = f x w'"
  by (simp add: bindA_def)

lemma bindA_Inl: "m w = (Inl e, w') \<Longrightarrow> bindA m f w = (Inl e, w')"
  by (simp add: bindA_def)

lemma bindA_cases [consumes 1]:
  assumes "bindA m f w = (r, w'')"
  obtains (fails) e where "m w = (Inl e, w'')" and "r = Inl e"
    | (passes) x w' where "m w = (Inr x, w')" and "f x w' = (r, w'')"
  using assms by (auto simp: bindA_def split: prod.splits sum.splits)

lemma attempt_eq [simp]: "attempt m w = (r, w') \<longleftrightarrow> (\<exists>x. m w = (x, w') \<and> r = Inr x)"
  by (auto simp: attempt_def split: prod.splits)

end
