(* ===== verification/Provider_Api.thy ===== *)
theory Provider_Api
  imports Core_Diff Actions
begin

text \<open>
  What the local executor and the providers share (\<open>iac-core/src/provider.rs\<close>, \<open>operation.rs\<close>,
  \<open>state.rs\<close>, \<open>registry.rs\<close>): operations, steps, step results and checkpoints, the provider
  interface as a record of functions, and the registry.
\<close>

section \<open>Actions of the executor\<close>

type_synonym ('w, 'a) io = "('w, core_error, 'a) act"

section \<open>Paths and system calls\<close>

text \<open>An absolute path is the list of its components. Which system calls fail, and with what message,
  is the environment's choice.\<close>

type_synonym path = "string list"

definition show_path :: "path \<Rightarrow> string" where
  "show_path p = (if p = [] then ''/'' else concat (map (\<lambda>c. ''/'' @ c) p))"

datatype syscall =
    SysStat | SysOpen | SysMkdir | SysCreate | SysWrite | SysChmod | SysChown | SysRename
  | SysRead | SysReadDir | SysCopy | SysUnlink | SysRemoveTree

type_synonym faults = "syscall \<Rightarrow> path \<Rightarrow> string option"

section \<open>Operations\<close>

type_synonym ulid = string

datatype step_status = SPending | SRunning | SSucceeded | SFailed | SSkipped | SRolledBack

text \<open>The texts of step results: what a provider reports, or the executor's wrapping of an error.\<close>

datatype report =
    Reported err_msg
  | PreApplyFailed core_error
  | ApplyFailed core_error

record step =
  st_id :: ulid
  st_action :: string
  st_description :: err_msg
  st_reversible :: bool
  st_payload :: json
  st_status :: step_status
  st_started_at :: "string option"
  st_finished_at :: "string option"

definition new_step :: "ulid \<Rightarrow> string \<Rightarrow> err_msg \<Rightarrow> json \<Rightarrow> step" where
  "new_step new_id action description payload = \<lparr>st_id = new_id, st_action = action, st_description = description,
     st_reversible = True, st_payload = payload, st_status = SPending, st_started_at = None, st_finished_at = None\<rparr>"

record step_result =
  sr_status :: step_status
  sr_message :: report
  sr_data :: json
  sr_error :: "report option"

definition result_ok :: "err_msg \<Rightarrow> step_result" where
  "result_ok m = \<lparr>sr_status = SSucceeded, sr_message = Reported m, sr_data = JNull, sr_error = None\<rparr>"

definition result_skipped :: "err_msg \<Rightarrow> step_result" where
  "result_skipped m = \<lparr>sr_status = SSkipped, sr_message = Reported m, sr_data = JNull, sr_error = None\<rparr>"

definition result_failed :: "report \<Rightarrow> step_result" where
  "result_failed err = \<lparr>sr_status = SFailed, sr_message = err, sr_data = JNull, sr_error = Some err\<rparr>"

datatype exec_status =
    ExPending | ExPlanning | ExWaitingApproval | ExRunning | ExPartiallyApplied | ExFailed
  | ExRollingBack | ExRolledBack | ExSucceeded | ExCancelled

record exec_operation =
  eo_id :: ulid
  eo_kind :: string
  eo_status :: exec_status
  eo_source_commit :: "string option"
  eo_requested_by :: string
  eo_created_at :: string
  eo_started_at :: "string option"
  eo_finished_at :: "string option"

definition new_operation :: "ulid \<Rightarrow> string \<Rightarrow> string \<Rightarrow> string \<Rightarrow> exec_operation" where
  "new_operation new_id now kind requested_by = \<lparr>eo_id = new_id, eo_kind = kind, eo_status = ExPending,
     eo_source_commit = None, eo_requested_by = requested_by, eo_created_at = now,
     eo_started_at = None, eo_finished_at = None\<rparr>"

record checkpoint =
  cp_id :: ulid
  cp_resource_id :: resource_id
  cp_operation_id :: ulid
  cp_created_at :: string
  cp_data :: json
  cp_resource_spec :: "json option"

definition checkpoint_with_spec ::
    "ulid \<Rightarrow> string \<Rightarrow> resource_id \<Rightarrow> ulid \<Rightarrow> json \<Rightarrow> json \<Rightarrow> checkpoint" where
  "checkpoint_with_spec new_id now rid oper data spec = \<lparr>cp_id = new_id, cp_resource_id = rid,
     cp_operation_id = oper, cp_created_at = now, cp_data = data, cp_resource_spec = Some spec\<rparr>"

record applied_state =
  ap_spec :: json
  ap_generation :: nat
  ap_operation_id :: "ulid option"
  ap_applied_at :: string

section \<open>Providers\<close>

record observed_state =
  ob_present :: bool
  ob_spec :: json
  ob_facts :: "(string \<times> json) list"
  ob_observed_at :: string

definition observed_absent :: "string \<Rightarrow> observed_state" where
  "observed_absent now = \<lparr>ob_present = False, ob_spec = JNull, ob_facts = [], ob_observed_at = now\<rparr>"

datatype verify_outcome = VMatch | VMismatch "field_change list"

record apply_context =
  ac_operation_id :: ulid
  ac_workspace :: path

text \<open>
  The trait \<open>Provider\<close>. \<open>pv_plan\<close> takes the supply of step ids it draws from. \<open>diff\<close> cannot change
  the world but may read it: the trait says it does no I/O, yet the file provider resolves user names there.
\<close>

record 'w provider =
  pv_kind :: string
  pv_observe :: "resource \<Rightarrow> ('w, observed_state) io"
  pv_diff :: "'w \<Rightarrow> resource \<Rightarrow> observed_state \<Rightarrow> (core_error, diff) result"
  pv_plan :: "(nat \<Rightarrow> ulid) \<Rightarrow> resource \<Rightarrow> diff \<Rightarrow> (core_error, step list) result"
  pv_pre_apply :: "resource \<Rightarrow> step \<Rightarrow> apply_context \<Rightarrow> ('w, json) io"
  pv_apply :: "resource \<Rightarrow> step \<Rightarrow> apply_context \<Rightarrow> ('w, step_result) io"
  pv_verify :: "resource \<Rightarrow> ('w, verify_outcome) io"
  pv_rollback :: "resource \<Rightarrow> checkpoint \<Rightarrow> path \<Rightarrow> ('w, unit) io"
  pv_capability_keys :: "resource \<Rightarrow> (core_error, string list) result"

type_synonym 'w registry = "string \<Rightarrow> 'w provider option"

definition register :: "'w provider \<Rightarrow> 'w registry \<Rightarrow> 'w registry" where
  "register P reg = reg(pv_kind P \<mapsto> P)"

definition require :: "'w registry \<Rightarrow> string \<Rightarrow> (core_error, 'w provider) result" where
  "require reg kind = ok_or (reg kind) (UnknownKind kind)"

end
