(* ===== verification/Executor.thy ===== *)
theory Executor
  imports Provider_Api
begin

text \<open>
  The local executor (\<open>iac-core/src/executor.rs\<close>): planning, applying a list of resources step by
  step with a checkpoint before every step, the records it leaves in its state directory, the
  pruning of old operation directories, and the rollback of an operation from its checkpoints.

  The host is the world of the providers together with the executor's own files, which are kept as
  the values they hold: \<open>applied/\<close> as a map from file-system keys, \<open>operations/\<close> as the list
  of its directories, each with its step directories in the order a listing yields them. Ids and
  the clock are drawn from the environment, which also says which system calls fail.
\<close>

section \<open>State\<close>

datatype item_status = ItemNoChange | ItemSucceeded | ItemFailed | ItemSkipped

record step_record =
  sc_step :: step
  sc_result :: step_result

record verify_summary =
  vs_matched :: bool
  vs_mismatch :: "field_change list option"

record apply_item =
  it_resource_id :: resource_id
  it_kind :: string
  it_status :: item_status
  it_steps :: "step_record list"
  it_verify :: "verify_summary option"
  it_error :: "report option"

record apply_result =
  rt_operation :: exec_operation
  rt_items :: "apply_item list"

record plan_item =
  pi_resource_id :: resource_id
  pi_kind :: string
  pi_diff :: diff
  pi_steps :: "step list"

record plan_result =
  pr_operation :: exec_operation
  pr_items :: "plan_item list"

datatype checkpoint_file = CpMissing | CpInvalid | CpFile checkpoint

record step_dir =
  sd_key :: string
  sd_step :: ulid
  sd_file :: checkpoint_file

record op_dir =
  od_id :: ulid
  od_operation :: "exec_operation option"
  od_result :: "apply_result option"
  od_steps :: "step_dir list"

record 'w host =
  hs_world :: 'w
  hs_applied :: "string \<rightharpoonup> applied_state"
  hs_ops :: "op_dir list"

record 'w exec_env =
  xe_state_dir :: path
  xe_actor :: string
  xe_digest :: "string \<Rightarrow> string"
  xe_now :: string
  xe_op_id :: ulid
  xe_step_id :: "nat \<Rightarrow> nat \<Rightarrow> ulid"
  xe_cp_id :: "nat \<Rightarrow> nat \<Rightarrow> ulid"
  xe_temp :: "path \<Rightarrow> path"
  xe_faults :: faults
  xe_remove_tree :: "path \<Rightarrow> 'w \<Rightarrow> 'w"

definition in_world :: "('w, 'a) io \<Rightarrow> ('w host, 'a) io" where
  "in_world m = (\<lambda>h. case m (hs_world h) of (r, w) \<Rightarrow> (r, h\<lparr>hs_world := w\<rparr>))"

section \<open>Files of the executor\<close>

definition operation_dir :: "'w exec_env \<Rightarrow> ulid \<Rightarrow> path" where
  "operation_dir E oper = xe_state_dir E @ [''operations'', oper]"

definition checkpoint_workspace :: "'w exec_env \<Rightarrow> ulid \<Rightarrow> string \<Rightarrow> ulid \<Rightarrow> path" where
  "checkpoint_workspace E oper key stp = operation_dir E oper @ [''checkpoints'', key, stp]"

definition sys :: "'w exec_env \<Rightarrow> syscall \<Rightarrow> path \<Rightarrow> ('w host \<Rightarrow> 'w host) \<Rightarrow> ('w host, unit) io" where
  "sys E c p f = (\<lambda>h. case xe_faults E c p of Some e \<Rightarrow> (Inl (IoError (show_path p) e), h) | None \<Rightarrow> (Inr (), f h))"

text \<open>\<open>write_json\<close>: the parent directory, the temporary file, the rename that publishes the value.\<close>

definition write_json :: "'w exec_env \<Rightarrow> path \<Rightarrow> ('w host \<Rightarrow> 'w host) \<Rightarrow> ('w host, unit) io" where
  "write_json E p f =
     bindA (sys E SysMkdir (butlast p) (\<lambda>h. h)) (\<lambda>_.
     bindA (sys E SysWrite (xe_temp E p) (\<lambda>h. h)) (\<lambda>_.
       sys E SysRename p f))"

definition update_op :: "ulid \<Rightarrow> (op_dir \<Rightarrow> op_dir) \<Rightarrow> 'w host \<Rightarrow> 'w host" where
  "update_op oper f h = h\<lparr>hs_ops := map (\<lambda>d. if od_id d = oper then f d else d) (hs_ops h)\<rparr>"

definition make_op_dir :: "ulid \<Rightarrow> 'w host \<Rightarrow> 'w host" where
  "make_op_dir oper h =
     (if oper \<in> od_id ` set (hs_ops h) then h
      else h\<lparr>hs_ops := hs_ops h @ [\<lparr>od_id = oper, od_operation = None, od_result = None, od_steps = []\<rparr>]\<rparr>)"

definition at_step :: "string \<Rightarrow> ulid \<Rightarrow> step_dir \<Rightarrow> bool" where
  "at_step key stp s \<longleftrightarrow> sd_key s = key \<and> sd_step s = stp"

definition make_step_dir :: "string \<Rightarrow> ulid \<Rightarrow> op_dir \<Rightarrow> op_dir" where
  "make_step_dir key stp d =
     (if list_ex (at_step key stp) (od_steps d) then d
      else d\<lparr>od_steps := od_steps d @ [\<lparr>sd_key = key, sd_step = stp, sd_file = CpMissing\<rparr>]\<rparr>)"

definition put_checkpoint :: "string \<Rightarrow> ulid \<Rightarrow> checkpoint \<Rightarrow> op_dir \<Rightarrow> op_dir" where
  "put_checkpoint key stp cp d =
     d\<lparr>od_steps := map (\<lambda>s. if at_step key stp s then s\<lparr>sd_file := CpFile cp\<rparr> else s) (od_steps d)\<rparr>"

definition write_applied :: "'w exec_env \<Rightarrow> resource \<Rightarrow> ulid \<Rightarrow> ('w host, unit) io" where
  "write_applied E r oper =
     (let key = fs_key (xe_digest E) (resource_id_of r) in
      bindA (sys E SysMkdir (xe_state_dir E @ [''applied'']) (\<lambda>h. h)) (\<lambda>_.
        write_json E (xe_state_dir E @ [''applied'', key @ ''.json''])
          (\<lambda>h. h\<lparr>hs_applied := (hs_applied h)(key \<mapsto>
             \<lparr>ap_spec = rs_spec r, ap_generation = 1, ap_operation_id = Some oper, ap_applied_at = xe_now E\<rparr>)\<rparr>)))"

text \<open>Deleting the oldest directories beyond \<open>keep\<close>; a directory whose removal fails stays.\<close>

definition gc_operation_dirs :: "'w exec_env \<Rightarrow> nat \<Rightarrow> 'w host \<Rightarrow> 'w host" where
  "gc_operation_dirs E keep h =
     (if xe_faults E SysReadDir (xe_state_dir E @ [''operations'']) \<noteq> None \<or> length (hs_ops h) \<le> keep then h
      else let old = take (length (hs_ops h) - keep) (sort_key od_id (hs_ops h));
               gone = filter (\<lambda>d. xe_faults E SysRemoveTree (operation_dir E (od_id d)) = None) old
           in h\<lparr>hs_ops := filter (\<lambda>d. od_id d \<notin> od_id ` set gone) (hs_ops h),
                hs_world := fold (\<lambda>d. xe_remove_tree E (operation_dir E (od_id d))) gone (hs_world h)\<rparr>)"

definition operations_keep :: nat where
  "operations_keep = 200"

section \<open>Planning\<close>

text \<open>A resource that carries substituted secrets has its whole diff redacted.\<close>

definition mark_secret_changes :: "resource \<Rightarrow> diff \<Rightarrow> diff" where
  "mark_secret_changes r d =
     (case map_of (md_annotations (rs_metadata r)) ''iac.dev/secret-fields'' of
        None \<Rightarrow> d
      | Some v \<Rightarrow> if v = [] then d
          else d\<lparr>df_changes := map (\<lambda>c. c\<lparr>fc_sensitive := True\<rparr>) (df_changes d)\<rparr>)"

definition diff_in :: "'w provider \<Rightarrow> resource \<Rightarrow> observed_state \<Rightarrow> ('w host, diff) io" where
  "diff_in P r obs = (\<lambda>h. (pv_diff P (hs_world h) r obs, h))"

definition plan_one :: "'w exec_env \<Rightarrow> 'w registry \<Rightarrow> nat \<Rightarrow> resource \<Rightarrow> ('w host, plan_item) io" where
  "plan_one E reg i r =
     bindA (from_result (require reg (rs_kind r))) (\<lambda>P.
     bindA (in_world (pv_observe P r)) (\<lambda>obs.
     bindA (diff_in P r obs) (\<lambda>d0.
       let d = mark_secret_changes r d0 in
       bindA (if is_change d then from_result (pv_plan P (xe_step_id E i) r d) else doing []) (\<lambda>steps.
         doing \<lparr>pi_resource_id = resource_id_of r, pi_kind = rs_kind r, pi_diff = d, pi_steps = steps\<rparr>))))"

fun plan_loop :: "'w exec_env \<Rightarrow> 'w registry \<Rightarrow> nat \<Rightarrow> resource list \<Rightarrow> ('w host, plan_item list) io" where
  "plan_loop E reg i [] = doing []"
| "plan_loop E reg i (r # rs) =
     bindA (plan_one E reg i r) (\<lambda>x. bindA (plan_loop E reg (Suc i) rs) (\<lambda>xs. doing (x # xs)))"

definition plan_resources :: "'w exec_env \<Rightarrow> 'w registry \<Rightarrow> resource list \<Rightarrow> ('w host, plan_result) io" where
  "plan_resources E reg resources =
     bindA (plan_loop E reg 0 resources) (\<lambda>items.
       doing \<lparr>pr_operation = (new_operation (xe_op_id E) (xe_now E) ''plan'' (xe_actor E))
                \<lparr>eo_status := ExSucceeded, eo_finished_at := Some (xe_now E)\<rparr>,
              pr_items = items\<rparr>)"

section \<open>Applying\<close>

text \<open>One step: its workspace, the provider's backup, the checkpoint, the change. The second component
  of the value is the text of a failure.\<close>

definition run_step :: "'w exec_env \<Rightarrow> 'w provider \<Rightarrow> resource \<Rightarrow> ulid \<Rightarrow> nat \<Rightarrow> nat \<Rightarrow> step
    \<Rightarrow> ('w host, step_record \<times> report option) io" where
  "run_step E P r oper i k stp =
     (let key = fs_key (xe_digest E) (resource_id_of r);
          workspace = checkpoint_workspace E oper key (st_id stp);
          ctx = \<lparr>ac_operation_id = oper, ac_workspace = workspace\<rparr>;
          s = stp\<lparr>st_started_at := Some (xe_now E), st_status := SRunning\<rparr>
      in bindA (sys E SysMkdir workspace (update_op oper (make_step_dir key (st_id stp)))) (\<lambda>_.
         bindA (attempt (in_world (pv_pre_apply P r s ctx))) (\<lambda>pre. case pre of
           Inl e \<Rightarrow>
             doing (\<lparr>sc_step = s\<lparr>st_status := SFailed, st_finished_at := Some (xe_now E)\<rparr>,
                     sc_result = result_failed (PreApplyFailed e)\<rparr>, Some (PreApplyFailed e))
         | Inr pre_data \<Rightarrow>
             let cp = checkpoint_with_spec (xe_cp_id E i k) (xe_now E) (resource_id_of r) oper pre_data (rs_spec r) in
             bindA (write_json E (workspace @ [''checkpoint.json'']) (update_op oper (put_checkpoint key (st_id stp) cp))) (\<lambda>_.
             bindA (attempt (in_world (pv_apply P r s ctx))) (\<lambda>res.
               let result = (case res of Inr x \<Rightarrow> x | Inl e \<Rightarrow> result_failed (ApplyFailed e)) in
               doing (\<lparr>sc_step = s\<lparr>st_status := sr_status result, st_finished_at := Some (xe_now E)\<rparr>,
                       sc_result = result\<rparr>,
                      if sr_status result = SFailed
                      then Some (case sr_error result of Some t \<Rightarrow> t | None \<Rightarrow> Reported (Msg [] [])) else None))))))"

text \<open>The loop over the steps of a resource; it ends at the first failure.\<close>

fun run_steps :: "'w exec_env \<Rightarrow> 'w provider \<Rightarrow> resource \<Rightarrow> ulid \<Rightarrow> nat \<Rightarrow> nat \<Rightarrow> step list
    \<Rightarrow> ('w host, step_record list \<times> report option) io" where
  "run_steps E P r oper i k [] = doing ([], None)"
| "run_steps E P r oper i k (stp # steps) =
     bindA (run_step E P r oper i k stp) (\<lambda>(rec, failed). case failed of
       Some e \<Rightarrow> doing ([rec], Some e)
     | None \<Rightarrow> bindA (run_steps E P r oper i (Suc k) steps) (\<lambda>(recs, err). doing (rec # recs, err)))"

definition verify_summary_of :: "verify_outcome \<Rightarrow> verify_summary" where
  "verify_summary_of v =
     (case v of VMatch \<Rightarrow> \<lparr>vs_matched = True, vs_mismatch = None\<rparr>
      | VMismatch c \<Rightarrow> \<lparr>vs_matched = False, vs_mismatch = Some c\<rparr>)"

definition apply_item_of ::
    "resource \<Rightarrow> item_status \<Rightarrow> step_record list \<Rightarrow> verify_summary option \<Rightarrow> report option \<Rightarrow> apply_item" where
  "apply_item_of r st recs v err = \<lparr>it_resource_id = resource_id_of r, it_kind = rs_kind r, it_status = st,
     it_steps = recs, it_verify = v, it_error = err\<rparr>"

definition apply_one :: "'w exec_env \<Rightarrow> 'w registry \<Rightarrow> ulid \<Rightarrow> nat \<Rightarrow> resource \<Rightarrow> ('w host, apply_item) io" where
  "apply_one E reg oper i r =
     bindA (from_result (require reg (rs_kind r))) (\<lambda>P.
     bindA (in_world (pv_observe P r)) (\<lambda>obs.
     bindA (diff_in P r obs) (\<lambda>d0.
       let d = mark_secret_changes r d0 in
       if df_kind d = NoChange
       then bindA (write_applied E r oper) (\<lambda>_. doing (apply_item_of r ItemNoChange [] None None))
       else bindA (from_result (pv_plan P (xe_step_id E i) r d)) (\<lambda>steps.
            bindA (run_steps E P r oper i 0 steps) (\<lambda>(recs, last_error).
              case last_error of
                Some e \<Rightarrow> doing (apply_item_of r ItemFailed recs None (Some e))
              | None \<Rightarrow>
                  bindA (in_world (pv_verify P r)) (\<lambda>v.
                    let summary = verify_summary_of v in
                    bindA (if vs_matched summary then write_applied E r oper else doing ()) (\<lambda>_.
                      doing (apply_item_of r (if vs_matched summary then ItemSucceeded else ItemFailed)
                               recs (Some summary) None))))))))"

fun apply_loop :: "'w exec_env \<Rightarrow> 'w registry \<Rightarrow> ulid \<Rightarrow> nat \<Rightarrow> resource list \<Rightarrow> ('w host, apply_item list) io" where
  "apply_loop E reg oper i [] = doing []"
| "apply_loop E reg oper i (r # rs) =
     bindA (apply_one E reg oper i r) (\<lambda>x. bindA (apply_loop E reg oper (Suc i) rs) (\<lambda>xs. doing (x # xs)))"

definition final_status :: "apply_item list \<Rightarrow> exec_status" where
  "final_status items =
     (let any_failed = list_ex (\<lambda>x. it_status x = ItemFailed) items;
          any_changed = list_ex (\<lambda>x. it_status x = ItemSucceeded) items
      in if any_failed then (if any_changed then ExPartiallyApplied else ExFailed) else ExSucceeded)"

definition apply_resources :: "'w exec_env \<Rightarrow> 'w registry \<Rightarrow> resource list \<Rightarrow> ('w host, apply_result) io" where
  "apply_resources E reg resources =
     (let oper = xe_op_id E;
          op = (new_operation oper (xe_now E) ''apply'' (xe_actor E))
                 \<lparr>eo_started_at := Some (xe_now E), eo_status := ExRunning\<rparr>
      in bindA (sys E SysMkdir (operation_dir E oper) (make_op_dir oper)) (\<lambda>_.
         bindA (apply_loop E reg oper 0 resources) (\<lambda>items.
           let op' = op\<lparr>eo_finished_at := Some (xe_now E), eo_status := final_status items\<rparr>;
               result = \<lparr>rt_operation = op', rt_items = items\<rparr>
           in bindA (write_json E (operation_dir E oper @ [''operation.json''])
                       (update_op oper (\<lambda>d. d\<lparr>od_operation := Some op'\<rparr>))) (\<lambda>_.
              bindA (write_json E (operation_dir E oper @ [''apply-result.json''])
                       (update_op oper (\<lambda>d. d\<lparr>od_result := Some result\<rparr>))) (\<lambda>_ h.
                (Inr result, gc_operation_dirs E operations_keep h))))))"

section \<open>Rolling back\<close>

definition synthesize_resource :: "checkpoint \<Rightarrow> resource" where
  "synthesize_resource cp =
     \<lparr>rs_api_version = ''iac.example/v1'', rs_kind = ri_kind (cp_resource_id cp),
      rs_metadata = \<lparr>md_name = ri_name (cp_resource_id cp), md_environment = ri_environment (cp_resource_id cp),
        md_owner = None, md_labels = [], md_annotations = []\<rparr>,
      rs_spec = (case cp_resource_spec cp of Some v \<Rightarrow> v | None \<Rightarrow> JNull), rs_policy = JNull\<rparr>"

definition fault :: "'w exec_env \<Rightarrow> syscall \<Rightarrow> path \<Rightarrow> (core_error, unit) result" where
  "fault E c p = (case xe_faults E c p of Some e \<Rightarrow> Inl (IoError (show_path p) e) | None \<Rightarrow> Inr ())"

fun read_checkpoints :: "'w exec_env \<Rightarrow> ulid \<Rightarrow> step_dir list \<Rightarrow> (core_error, (path \<times> checkpoint) list) result" where
  "read_checkpoints E oper [] = Inr []"
| "read_checkpoints E oper (s # ss) =
     (let dir = checkpoint_workspace E oper (sd_key s) (sd_step s) in
      bindE (fault E SysReadDir (butlast dir)) (\<lambda>_.
        case sd_file s of
          CpMissing \<Rightarrow> read_checkpoints E oper ss
        | CpInvalid \<Rightarrow> bindE (fault E SysRead (dir @ [''checkpoint.json''])) (\<lambda>_. Inl CoreJsonError)
        | CpFile cp \<Rightarrow>
            bindE (fault E SysRead (dir @ [''checkpoint.json''])) (\<lambda>_.
            bindE (read_checkpoints E oper ss) (\<lambda>rest. Inr ((dir, cp) # rest)))))"

text \<open>A stable sort with the highest id first.\<close>

definition newest_checkpoint_first :: "(path \<times> checkpoint) list \<Rightarrow> (path \<times> checkpoint) list" where
  "newest_checkpoint_first cps = rev (sort_key (\<lambda>(p, cp). cp_id cp) (rev cps))"

fun undo_all :: "'w registry \<Rightarrow> (path \<times> checkpoint) list \<Rightarrow> 'w \<Rightarrow> (string \<times> core_error) list \<times> 'w" where
  "undo_all reg [] w = ([], w)"
| "undo_all reg ((workspace, cp) # cps) w =
     (let r = synthesize_resource cp;
          rid = resource_id_to_string (resource_id_of r);
          (errs, w1) = (case require reg (rs_kind r) of
              Inl e \<Rightarrow> ([(rid, e)], w)
            | Inr P \<Rightarrow> (case pv_rollback P r cp workspace w of
                  (Inl e, w1) \<Rightarrow> ([(rid, e)], w1)
                | (Inr _, w1) \<Rightarrow> ([], w1)));
          (more, w2) = undo_all reg cps w1
      in (errs @ more, w2))"

definition rollback_operation :: "'w exec_env \<Rightarrow> 'w registry \<Rightarrow> ulid \<Rightarrow> ('w host, unit) io" where
  "rollback_operation E reg oper = (\<lambda>h.
     case find (\<lambda>d. od_id d = oper) (hs_ops h) of
       None \<Rightarrow> (Inl (CheckpointError (''operation '' @ oper)
                  (Msg ''operation directory {} does not exist'' [show_path (operation_dir E oper)])), h)
     | Some d \<Rightarrow>
         if od_steps d = [] then (Inr (), h)
         else (case bindE (fault E SysReadDir (operation_dir E oper @ [''checkpoints''])) (\<lambda>_.
                      read_checkpoints E oper (od_steps d)) of
                 Inl e \<Rightarrow> (Inl e, h)
               | Inr cps \<Rightarrow>
                   (case undo_all reg (newest_checkpoint_first cps) (hs_world h) of (errs, w) \<Rightarrow>
                      (if errs = [] then Inr ()
                       else Inl (CommandError ''rollback completed with {} checkpoint failure(s): {}'' errs),
                       h\<lparr>hs_world := w\<rparr>))))"

section \<open>Frames\<close>

text \<open>An action that leaves a projection of the host alone, whatever its result.\<close>

named_theorems action_frames \<open>actions that leave a projection alone\<close>

definition frame :: "('h \<Rightarrow> 'p) \<Rightarrow> ('h, 'e, 'a) act \<Rightarrow> bool" where
  "frame p m \<longleftrightarrow> (\<forall>h. p (snd (m h)) = p h)"

lemma frameD: "frame p m \<Longrightarrow> m h = (r, h') \<Longrightarrow> p h' = p h"
  by (metis frame_def snd_conv)

lemma frame_doing [action_frames]: "frame p (doing y)"
  and frame_from_result [action_frames]: "frame p (from_result x)"
  and frame_diff_in [action_frames]: "frame p (diff_in P r obs)"
  by (simp_all add: frame_def diff_in_def)

lemma frame_bindA [action_frames]: "frame p m \<Longrightarrow> (\<And>x. frame p (f x)) \<Longrightarrow> frame p (bindA m f)"
  by (auto simp: frame_def bindA_def split: prod.splits sum.splits) (metis snd_conv)+

lemma frame_attempt [action_frames]: "frame p m \<Longrightarrow> frame p (attempt m)"
  by (auto simp: frame_def attempt_def split: prod.splits) (metis snd_conv)

lemma frame_in_world [action_frames]: "(\<And>h w. p (h\<lparr>hs_world := w\<rparr>) = p h) \<Longrightarrow> frame p (in_world m)"
  by (simp add: frame_def in_world_def split: prod.splits)

lemma frame_sys [action_frames]: "(\<And>h. p (f h) = p h) \<Longrightarrow> frame p (sys E c q f)"
  by (simp add: frame_def sys_def split: option.splits)

lemma frame_write_json [action_frames]: "(\<And>h. p (f h) = p h) \<Longrightarrow> frame p (write_json E q f)"
  unfolding write_json_def by (intro action_frames) auto

lemma frame_write_applied [action_frames]: "(\<And>h a. p (h\<lparr>hs_applied := a\<rparr>) = p h) \<Longrightarrow> frame p (write_applied E r oper)"
  unfolding write_applied_def Let_def by (intro action_frames) auto

definition op_ids :: "'w host \<Rightarrow> ulid list" where
  "op_ids h = map od_id (hs_ops h)"

lemma op_ids_update [simp]: "(\<And>d. od_id (f d) = od_id d) \<Longrightarrow> op_ids (update_op oper f h) = op_ids h"
  by (simp add: op_ids_def update_op_def comp_def if_distrib [of od_id] cong: if_cong)

lemma op_ids_simps [simp]: "op_ids (h\<lparr>hs_world := w\<rparr>) = op_ids h" "op_ids (h\<lparr>hs_applied := a\<rparr>) = op_ids h"
  by (simp_all add: op_ids_def)

lemma make_step_dir_id [simp]: "od_id (make_step_dir key stp d) = od_id d"
  by (simp add: make_step_dir_def)

lemma put_checkpoint_id [simp]: "od_id (put_checkpoint key stp cp d) = od_id d"
  by (simp add: put_checkpoint_def)

lemma frame_run_step [action_frames]: "frame op_ids (run_step E P r oper i k stp)"
  unfolding run_step_def Let_def by (intro action_frames; (simp split: sum.split)?; intro conjI allI impI action_frames) auto

lemma frame_run_steps [action_frames]: "frame op_ids (run_steps E P r oper i k steps)"
proof (induction steps arbitrary: k)
  case (Cons stp steps)
  show ?case
    unfolding run_steps.simps
    by (intro action_frames) (auto split: prod.splits option.splits intro!: action_frames Cons.IH)
qed (simp add: action_frames)

lemma frame_apply_one [action_frames]: "frame op_ids (apply_one E reg oper i r)"
  unfolding apply_one_def Let_def
  by (intro action_frames) (auto split: prod.splits option.splits intro!: action_frames)

lemma frame_apply_loop [action_frames]: "frame op_ids (apply_loop E reg oper i rs)"
  by (induction rs arbitrary: i) (auto intro!: action_frames)

section \<open>Pruning\<close>

lemma sorted_split:
  assumes "sorted (map f xs)" "distinct (map f xs)" "x \<in> set (take n xs)" "y \<in> set (drop n xs)"
  shows "f x < (f y :: 'k :: linorder)"
proof -
  have "sorted (map f (take n xs) @ map f (drop n xs))" "distinct (map f (take n xs) @ map f (drop n xs))"
    using assms(1,2) by (simp_all flip: map_append)
  then have "f x \<le> f y" "f x \<noteq> f y" using assms(3,4) by (auto simp: sorted_append)
  then show ?thesis by simp
qed

text \<open>What is deleted is older than what is kept.\<close>

lemma gc_splits:
  assumes "distinct (op_ids h)"
  obtains old where "set old \<subseteq> set (hs_ops h)" "length old = length (hs_ops h) - keep"
    and "\<And>x y. x \<in> set old \<Longrightarrow> y \<in> set (hs_ops h) - set old \<Longrightarrow> od_id x < od_id y"
    and "hs_ops (gc_operation_dirs E keep h) =
      (if xe_faults E SysReadDir (xe_state_dir E @ [''operations'']) \<noteq> None then hs_ops h
       else filter (\<lambda>d. d \<notin> set old \<or> xe_faults E SysRemoveTree (operation_dir E (od_id d)) \<noteq> None) (hs_ops h))"
    and "distinct old"
proof -
  define sorted_ops where "sorted_ops = sort_key od_id (hs_ops h)"
  define old where "old = take (length (hs_ops h) - keep) sorted_ops"
  have s: "sorted (map od_id sorted_ops)" "set sorted_ops = set (hs_ops h)" "length sorted_ops = length (hs_ops h)"
    by (simp_all add: sorted_ops_def)
  have "mset (map od_id sorted_ops) = mset (op_ids h)" by (simp add: sorted_ops_def op_ids_def)
  then have d: "distinct (map od_id sorted_ops)" using assms mset_eq_imp_distinct_iff by blast
  have inj: "inj_on od_id (set (hs_ops h))" using assms by (simp add: op_ids_def distinct_map)
  have sub: "set old \<subseteq> set (hs_ops h)" using s(2) set_take_subset [of _ sorted_ops] by (simp add: old_def)
  show thesis
  proof (rule that [of old])
    show "set old \<subseteq> set (hs_ops h)" by (rule sub)
    show "length old = length (hs_ops h) - keep" by (simp add: old_def s(3))
    show "distinct old" using d by (simp add: old_def distinct_map)
    fix x y assume x: "x \<in> set old" and y: "y \<in> set (hs_ops h) - set old"
    then have "y \<in> set (drop (length (hs_ops h) - keep) sorted_ops)"
      using s(2) append_take_drop_id [of "length (hs_ops h) - keep" sorted_ops]
      by (metis Diff_iff Un_iff old_def set_append)
    with x show "od_id x < od_id y" unfolding old_def by (rule sorted_split [OF s(1) d])
  next
    have "(od_id d \<in> od_id ` set (filter (\<lambda>d. xe_faults E SysRemoveTree (operation_dir E (od_id d)) = None) old))
        = (d \<in> set old \<and> xe_faults E SysRemoveTree (operation_dir E (od_id d)) = None)" if "d \<in> set (hs_ops h)" for d
      using that sub inj by (auto simp: inj_on_def)
    then show "hs_ops (gc_operation_dirs E keep h) =
      (if xe_faults E SysReadDir (xe_state_dir E @ [''operations'']) \<noteq> None then hs_ops h
       else filter (\<lambda>d. d \<notin> set old \<or> xe_faults E SysRemoveTree (operation_dir E (od_id d)) \<noteq> None) (hs_ops h))"
      by (auto simp: gc_operation_dirs_def Let_def old_def [symmetric] sorted_ops_def [symmetric] intro!: filter_cong)
         (auto simp: old_def intro!: filter_True [symmetric])
  qed
qed

end
