(* ===== verification/Identity.thy ===== *)
theory Identity
  imports Iac_Prelude "HOL-Library.Word"
begin

text \<open>
  Roles and identities (\<open>crates/iac-controlplane/src/identity.rs\<close>) and the token comparison of
  \<open>auth.rs\<close>. The order of the roles is the inclusion lattice. The two functions that walk the
  bearer-token chain need the user table and are in \<open>Users\<close>.
\<close>

unbundle bit_operations_syntax

section \<open>Roles\<close>

datatype role = Viewer | Operator | Approver | Admin

text \<open>The derived \<open>Ord\<close> of the enum: the order of its variants.\<close>

fun role_rank :: "role \<Rightarrow> nat" where
  "role_rank Viewer = 0"
| "role_rank Operator = 1"
| "role_rank Approver = 2"
| "role_rank Admin = 3"

lemma role_rank_inj: "role_rank a = role_rank b \<Longrightarrow> a = b"
  by (cases a; cases b) auto

instantiation role :: linorder
begin

definition less_eq_role :: "role \<Rightarrow> role \<Rightarrow> bool" where
  "a \<le> b \<longleftrightarrow> role_rank a \<le> role_rank b"

definition less_role :: "role \<Rightarrow> role \<Rightarrow> bool" where
  "a < b \<longleftrightarrow> role_rank a < role_rank b"

instance
  by standard (auto simp: less_eq_role_def less_role_def intro: role_rank_inj)

end

definition role_includes :: "role \<Rightarrow> role \<Rightarrow> bool" where
  "role_includes self required \<longleftrightarrow> required \<le> self"

section \<open>Identities\<close>

datatype identity =
    LegacyAdmin
  | IdUser string string "role list"
  | IdAgent string string

fun audit_actor :: "identity \<Rightarrow> string" where
  "audit_actor LegacyAdmin = ''admin''"
| "audit_actor (IdUser uid username roles) = ''user:'' @ username"
| "audit_actor (IdAgent aid name) = ''agent:'' @ aid"

fun display_name :: "identity \<Rightarrow> string" where
  "display_name LegacyAdmin = ''admin''"
| "display_name (IdUser uid username roles) = username"
| "display_name (IdAgent aid name) = name"

fun has_role :: "identity \<Rightarrow> role \<Rightarrow> bool" where
  "has_role LegacyAdmin r = True"
| "has_role (IdUser uid username roles) r = list_ex (\<lambda>x. role_includes x r) roles"
| "has_role (IdAgent aid name) r = False"

record user_record =
  ur_id :: string
  ur_username :: string
  ur_roles :: "role list"

text \<open>Roles form a chain: whoever may act as \<open>r\<close> may act as anything below it.\<close>

lemma has_role_mono: "has_role i r \<Longrightarrow> s \<le> r \<Longrightarrow> has_role i s"
  by (cases i) (auto simp: list_ex_iff role_includes_def intro: order_trans)

lemma has_role_Admin_iff: "has_role (IdUser u n roles) Admin \<longleftrightarrow> Admin \<in> set roles"
proof -
  have "role_includes x Admin \<longleftrightarrow> x = Admin" for x
    by (cases x) (auto simp: role_includes_def less_eq_role_def)
  then show ?thesis by (auto simp: list_ex_iff)
qed

section \<open>Constant-time comparison\<close>

text \<open>\<open>ct_eq\<close>: the loop ORs the XOR of every byte pair into one byte.\<close>

definition byte_of :: "char \<Rightarrow> 8 word" where
  "byte_of c = word_of_nat (of_char c)"

fun ct_diff :: "8 word \<Rightarrow> (char \<times> char) list \<Rightarrow> 8 word" where
  "ct_diff diff [] = diff"
| "ct_diff diff ((x, y) # ps) = ct_diff (diff OR (byte_of x XOR byte_of y)) ps"

definition ct_eq :: "string \<Rightarrow> string \<Rightarrow> bool" where
  "ct_eq a b \<longleftrightarrow> (if length a \<noteq> length b then False else ct_diff 0 (zip a b) = 0)"

lemma byte_of_inj: "byte_of x = byte_of y \<longleftrightarrow> x = y"
proof
  assume "byte_of x = byte_of y"
  then have "unat (word_of_nat (of_char x) :: 8 word) = unat (word_of_nat (of_char y) :: 8 word)"
    by (simp add: byte_of_def)
  then have "(of_char x :: nat) = of_char y"
    by (simp add: unat_of_nat of_char_mod_256)
  then show "x = y" by simp
qed simp

lemma xor_eq_0_iff: "a XOR b = 0 \<longleftrightarrow> a = (b :: 8 word)"
proof
  assume h: "a XOR b = 0"
  have "a = a XOR (b XOR b)" by simp
  also have "\<dots> = (a XOR b) XOR b" by (simp only: xor.assoc)
  finally show "a = b" using h by simp
qed simp

lemma or_eq_0_iff: "a OR b = 0 \<longleftrightarrow> a = 0 \<and> b = (0 :: 8 word)"
  by (auto simp: bit_eq_iff bit_or_iff)

lemma ct_diff_zero_iff: "ct_diff d ps = 0 \<longleftrightarrow> d = 0 \<and> (\<forall>(x, y) \<in> set ps. x = y)"
  by (induction d ps rule: ct_diff.induct) (auto simp: or_eq_0_iff xor_eq_0_iff byte_of_inj)

text \<open>The accumulation of differences is zero exactly when the two strings are the same.\<close>

lemma ct_eq_iff [simp]: "ct_eq a b \<longleftrightarrow> a = b"
proof (cases "length a = length b")
  case True
  then have "(\<forall>(x, y) \<in> set (zip a b). x = y) \<longleftrightarrow> a = b"
    by (induction a b rule: list_induct2) auto
  with True show ?thesis by (simp add: ct_eq_def ct_diff_zero_iff)
qed (auto simp: ct_eq_def)

end
