(* ===== verification/Audit_Log.thy ===== *)
theory Audit_Log
  imports Iac_Prelude
begin

text \<open>
  The audit log (\<open>crates/iac-controlplane/src/store.rs\<close>, \<open>record_audit_on\<close>,
  \<open>audit_verify_chain_from\<close>, \<open>compute_audit_row_hash\<close>): an append-only table whose rows are
  chained by hashes, with a materialised tip. SHA-256 followed by hex encoding is a parameter
  \<open>H\<close> from byte strings to strings.

  The lemmas show that the byte encoding of a row is injective, that the log the recorder writes
  always verifies, that the chunked verifier computes the same answer as one walk over all rows,
  and that two verifying logs with the same tip hash hold the same rows unless they exhibit a
  collision of \<open>H\<close>.
\<close>

section \<open>Rows and their encoding\<close>

record audit_inputs =
  ai_timestamp :: string
  ai_actor :: string
  ai_kind :: string
  ai_severity :: string
  ai_operation_id :: "string option"
  ai_agent_id :: "string option"
  ai_resource_id :: "string option"
  ai_drift_id :: "int option"
  ai_payload_json :: string

record audit_event = audit_inputs +
  ae_id :: int
  ae_prev_hash :: "string option"
  ae_row_hash :: "string option"

record audit_record =
  ar_actor :: string
  ar_kind :: string
  ar_severity :: string
  ar_operation_id :: "string option"
  ar_agent_id :: "string option"
  ar_resource_id :: "string option"
  ar_drift_id :: "int option"
  ar_payload :: json

text \<open>\<open>AuditRecord::new\<close> and its builder methods.\<close>

definition audit_new :: "string \<Rightarrow> string \<Rightarrow> audit_record" where
  "audit_new actor kind = \<lparr>ar_actor = actor, ar_kind = kind, ar_severity = ''info'',
     ar_operation_id = None, ar_agent_id = None, ar_resource_id = None, ar_drift_id = None,
     ar_payload = JNull\<rparr>"

definition audit_severity :: "string \<Rightarrow> audit_record \<Rightarrow> audit_record" where
  "audit_severity s r = r\<lparr>ar_severity := s\<rparr>"

definition audit_operation :: "string \<Rightarrow> audit_record \<Rightarrow> audit_record" where
  "audit_operation op r = r\<lparr>ar_operation_id := Some op\<rparr>"

definition audit_agent :: "string \<Rightarrow> audit_record \<Rightarrow> audit_record" where
  "audit_agent ag r = r\<lparr>ar_agent_id := Some ag\<rparr>"

definition audit_drift :: "int \<Rightarrow> audit_record \<Rightarrow> audit_record" where
  "audit_drift i r = r\<lparr>ar_drift_id := Some i\<rparr>"

definition audit_payload :: "json \<Rightarrow> audit_record \<Rightarrow> audit_record" where
  "audit_payload p r = r\<lparr>ar_payload := p\<rparr>"

text \<open>\<open>to_be_bytes\<close> of a \<open>k\<close>-byte unsigned integer.\<close>

fun be_bytes :: "nat \<Rightarrow> nat \<Rightarrow> string" where
  "be_bytes 0 n = []"
| "be_bytes (Suc k) n = be_bytes k (n div 256) @ [char_of (n mod 256)]"

text \<open>An \<open>i64\<close> is written as its two's complement.\<close>

definition i64_be :: "int \<Rightarrow> string" where
  "i64_be n = be_bytes 8 (nat (n mod 2 ^ 64))"

definition write_field :: "string \<Rightarrow> string" where
  "write_field bytes = be_bytes 8 (length bytes mod 2 ^ 64) @ bytes"

definition write_optional_str :: "string option \<Rightarrow> string" where
  "write_optional_str s = (case s of Some x \<Rightarrow> char_of (1::nat) # write_field x | None \<Rightarrow> [char_of (0::nat)])"

definition write_drift_id :: "int option \<Rightarrow> string" where
  "write_drift_id d = (case d of Some n \<Rightarrow> char_of (1::nat) # i64_be n | None \<Rightarrow> [char_of (0::nat)])"

definition row_bytes :: "string \<Rightarrow> int \<Rightarrow> 'a audit_inputs_scheme \<Rightarrow> string" where
  "row_bytes prev_hash rid r =
     prev_hash @ i64_be rid
     @ write_field (ai_timestamp r) @ write_field (ai_actor r)
     @ write_field (ai_kind r) @ write_field (ai_severity r)
     @ write_optional_str (ai_operation_id r) @ write_optional_str (ai_agent_id r)
     @ write_optional_str (ai_resource_id r)
     @ write_drift_id (ai_drift_id r)
     @ write_field (ai_payload_json r)"

definition compute_audit_row_hash :: "(string \<Rightarrow> string) \<Rightarrow> string \<Rightarrow> int \<Rightarrow> 'a audit_inputs_scheme \<Rightarrow> string" where
  "compute_audit_row_hash H prev_hash rid r = H (row_bytes prev_hash rid r)"

section \<open>The log\<close>

record audit_chain_tip =
  tip_last_id :: int
  tip_last_hash :: string
  tip_updated_at :: string

text \<open>The table \<open>audit_events\<close> in insertion order, the single row of \<open>audit_chain_tip\<close>, and the
  auto-increment counter of the table.\<close>

record audit_log =
  al_events :: "audit_event list"
  al_tip :: audit_chain_tip
  al_seq :: int

definition empty_log :: audit_log where
  "empty_log = \<lparr>al_events = [], al_tip = \<lparr>tip_last_id = 0, tip_last_hash = [],
     tip_updated_at = ''1970-01-01T00:00:00Z''\<rparr>, al_seq = 0\<rparr>"

definition record_audit_on ::
    "(string \<Rightarrow> string) \<Rightarrow> serde \<Rightarrow> string \<Rightarrow> audit_record \<Rightarrow> audit_log \<Rightarrow> audit_log" where
  "record_audit_on H S now rec log =
     (let payload_json = to_str S (ar_payload rec);
          prev_hash = tip_last_hash (al_tip log);
          inputs = \<lparr>ai_timestamp = now, ai_actor = ar_actor rec, ai_kind = ar_kind rec,
             ai_severity = ar_severity rec, ai_operation_id = ar_operation_id rec,
             ai_agent_id = ar_agent_id rec, ai_resource_id = ar_resource_id rec,
             ai_drift_id = ar_drift_id rec, ai_payload_json = payload_json\<rparr>;
          row_hash = compute_audit_row_hash H prev_hash 0 inputs;
          new_id = al_seq log + 1;
          row = audit_inputs.extend inputs
             \<lparr>ae_id = new_id, ae_prev_hash = Some prev_hash, ae_row_hash = Some row_hash\<rparr>
      in log\<lparr>al_events := al_events log @ [row],
             al_tip := \<lparr>tip_last_id = new_id, tip_last_hash = row_hash, tip_updated_at = now\<rparr>,
             al_seq := new_id\<rparr>)"

definition audit_chain_tip_of :: "audit_log \<Rightarrow> audit_chain_tip" where
  "audit_chain_tip_of log = al_tip log"

section \<open>The verifier\<close>

text \<open>The loop over one fetched chunk: the id of the first broken row, and the hash carried on.\<close>

fun verify_rows :: "(string \<Rightarrow> string) \<Rightarrow> string \<Rightarrow> audit_event list \<Rightarrow> int option \<times> string" where
  "verify_rows H prev [] = (None, prev)"
| "verify_rows H prev (row # rows) =
     (let stored_row_hash = (case ae_row_hash row of None \<Rightarrow> [] | Some h \<Rightarrow> h);
          stored_prev = (case ae_prev_hash row of None \<Rightarrow> [] | Some h \<Rightarrow> h)
      in if stored_prev \<noteq> prev then (Some (ae_id row), prev)
         else if compute_audit_row_hash H prev 0 row \<noteq> stored_row_hash then (Some (ae_id row), prev)
         else verify_rows H stored_row_hash rows)"

text \<open>\<open>WHERE row_hash IS NOT NULL AND id > ? ORDER BY id ASC\<close>.\<close>

definition chained_after :: "audit_event list \<Rightarrow> int \<Rightarrow> audit_event list" where
  "chained_after events last_seen =
     sort_key ae_id (filter (\<lambda>r. ae_row_hash r \<noteq> None \<and> last_seen < ae_id r) events)"

lemma chained_after_shrinks:
  assumes "rows = take chunk (chained_after events l)" and "rows \<noteq> []"
  shows "length (filter (\<lambda>r. ae_row_hash r \<noteq> None \<and> ae_id (last rows) < ae_id r) events)
       < length (filter (\<lambda>r. ae_row_hash r \<noteq> None \<and> l < ae_id r) events)"
proof -
  let ?P = "\<lambda>r. ae_row_hash r \<noteq> None \<and> l < ae_id r"
  let ?Q = "\<lambda>r. ae_row_hash r \<noteq> None \<and> ae_id (last rows) < ae_id r"
  have "last rows \<in> set rows" using assms(2) by simp
  then have "last rows \<in> set (chained_after events l)"
    unfolding assms(1) by (rule in_set_takeD)
  then have x: "last rows \<in> set events" "?P (last rows)" by (auto simp: chained_after_def)
  have "length (filter ?Q events) = length (filter ?Q (filter ?P events))"
    using x(2) by (intro arg_cong [where f = length]) (auto intro: filter_cong)
  also have "\<dots> < length (filter ?P events)"
    by (rule length_filter_less [of "last rows"]) (use x in auto)
  finally show ?thesis .
qed

text \<open>The \<open>loop\<close> that fetches \<open>CHUNK\<close> rows at a time; each round moves \<open>last_seen\<close> past at least
  one row, so it ends.\<close>

function verify_loop :: "(string \<Rightarrow> string) \<Rightarrow> nat \<Rightarrow> audit_event list \<Rightarrow> int \<Rightarrow> string \<Rightarrow> int option" where
  "verify_loop H chunk events last_seen prev_hash =
     (let rows = take chunk (chained_after events last_seen)
      in if rows = [] then None
         else (case verify_rows H prev_hash rows of
                 (Some bad, _) \<Rightarrow> Some bad
               | (None, prev') \<Rightarrow>
                   if length rows < chunk then None
                   else verify_loop H chunk events (ae_id (last rows)) prev'))"
  by pat_completeness auto
termination
  by (relation "measure (\<lambda>(H, chunk, events, l, p).
        length (filter (\<lambda>r. ae_row_hash r \<noteq> None \<and> l < ae_id r) events))")
     (use chained_after_shrinks in \<open>auto simp: Let_def\<close>)

declare verify_loop.simps [simp del]

definition audit_chunk :: nat where
  "audit_chunk = 10000"

definition audit_verify_chain_from :: "(string \<Rightarrow> string) \<Rightarrow> int \<Rightarrow> audit_log \<Rightarrow> int option" where
  "audit_verify_chain_from H from_id log =
     (let prev_hash =
        (if from_id \<le> 0 then []
         else (case find (\<lambda>r. ae_id r = from_id \<and> ae_row_hash r \<noteq> None) (al_events log) of
                 None \<Rightarrow> []
               | Some r \<Rightarrow> (case ae_row_hash r of None \<Rightarrow> [] | Some h \<Rightarrow> h)))
      in verify_loop H audit_chunk (al_events log) from_id prev_hash)"

definition audit_verify_chain :: "(string \<Rightarrow> string) \<Rightarrow> audit_log \<Rightarrow> int option" where
  "audit_verify_chain H log = audit_verify_chain_from H 0 log"

text \<open>\<open>GET /v1/audit\<close>: newest first, at most 1000 rows.\<close>

record audit_filter =
  af_since :: "string option"
  af_since_id :: "int option"
  af_kind :: "string option"
  af_actor :: "string option"
  af_operation_id :: "string option"
  af_agent_id :: "string option"
  af_limit :: "int option"

definition audit_matches :: "audit_filter \<Rightarrow> audit_event \<Rightarrow> bool" where
  "audit_matches f r \<longleftrightarrow>
     (case af_since f of None \<Rightarrow> True | Some s \<Rightarrow> s \<le> ai_timestamp r)
   \<and> (case af_since_id f of None \<Rightarrow> True | Some i \<Rightarrow> i < ae_id r)
   \<and> (case af_kind f of None \<Rightarrow> True | Some k \<Rightarrow> ai_kind r = k)
   \<and> (case af_actor f of None \<Rightarrow> True | Some a \<Rightarrow> ai_actor r = a)
   \<and> (case af_operation_id f of None \<Rightarrow> True | Some x \<Rightarrow> ai_operation_id r = Some x)
   \<and> (case af_agent_id f of None \<Rightarrow> True | Some x \<Rightarrow> ai_agent_id r = Some x)"

definition list_audit :: "serde \<Rightarrow> audit_filter \<Rightarrow> audit_log \<Rightarrow> (audit_event \<times> json) list api_result" where
  "list_audit S f log =
     (let limit = max 1 (min 1000 (case af_limit f of None \<Rightarrow> 200 | Some l \<Rightarrow> l));
          rows = take (nat limit) (rev (sort_key ae_id (filter (audit_matches f) (al_events log))))
      in traverse (\<lambda>row. case from_str S (ai_payload_json row) of
                            None \<Rightarrow> Inl JsonError
                          | Some p \<Rightarrow> Inr (row, p)) rows)"

section \<open>Injectivity of the row encoding\<close>

lemma be_bytes_length [simp]: "length (be_bytes k n) = k"
  by (induction k arbitrary: n) auto

lemma be_bytes_inj:
  "be_bytes k m = be_bytes k n \<Longrightarrow> m < 256 ^ k \<Longrightarrow> n < 256 ^ k \<Longrightarrow> m = n"
proof (induction k arbitrary: m n)
  case (Suc k)
  have "be_bytes k (m div 256) = be_bytes k (n div 256)"
    and c: "(char_of (m mod 256) :: char) = char_of (n mod 256)"
    using Suc.prems(1) by auto
  moreover have "m div 256 < 256 ^ k" "n div 256 < 256 ^ k"
    using Suc.prems(2,3) by (simp_all add: less_mult_imp_div_less mult.commute)
  ultimately have "m div 256 = n div 256" using Suc.IH by blast
  moreover have "m mod 256 = n mod 256"
    using arg_cong [OF c, of "of_char :: char \<Rightarrow> nat"] by simp
  ultimately show ?case by (metis div_mult_mod_eq)
qed simp

text \<open>A Rust string is shorter than \<open>2 ^ 64\<close> bytes, a drift id is an \<open>i64\<close>.\<close>

definition fits :: "string \<Rightarrow> bool" where
  "fits s \<longleftrightarrow> length s < 2 ^ 64"

definition inputs_fit :: "'a audit_inputs_scheme \<Rightarrow> bool" where
  "inputs_fit r \<longleftrightarrow> fits (ai_timestamp r) \<and> fits (ai_actor r) \<and> fits (ai_kind r) \<and> fits (ai_severity r)
     \<and> pred_option fits (ai_operation_id r) \<and> pred_option fits (ai_agent_id r)
     \<and> pred_option fits (ai_resource_id r)
     \<and> pred_option (\<lambda>n. - (2 ^ 63) \<le> n \<and> n < 2 ^ 63) (ai_drift_id r)
     \<and> fits (ai_payload_json r)"

lemma write_field_inj:
  assumes "write_field a @ x = write_field b @ y" and "fits a" and "fits b"
  shows "a = b \<and> x = y"
proof -
  have e: "be_bytes 8 (length a) @ a @ x = be_bytes 8 (length b) @ b @ y"
    using assms by (simp add: write_field_def fits_def)
  then have "be_bytes 8 (length a) = be_bytes 8 (length b)" and ax: "a @ x = b @ y"
    by (auto simp: append_eq_append_conv)
  then have "length a = length b"
    using be_bytes_inj [of 8 "length a" "length b"] assms(2,3) by (simp add: fits_def)
  with ax show ?thesis by simp
qed

lemma write_optional_str_inj:
  assumes "write_optional_str a @ x = write_optional_str b @ y"
    and "pred_option fits a" and "pred_option fits b"
  shows "a = b \<and> x = y"
  using assms write_field_inj [of _ x _ y]
  by (cases a; cases b) (auto simp: write_optional_str_def)

lemma i64_be_length [simp]: "length (i64_be n) = 8"
  by (simp add: i64_be_def)

lemma i64_be_inj:
  assumes "i64_be m = i64_be n" and "- (2 ^ 63) \<le> m" "m < 2 ^ 63" "- (2 ^ 63) \<le> n" "n < 2 ^ 63"
  shows "m = n"
proof -
  have "nat (m mod 2 ^ 64) = nat (n mod 2 ^ 64)"
    using assms(1) unfolding i64_be_def by (rule be_bytes_inj) (simp_all add: nat_less_iff)
  then have "m mod 2 ^ 64 = n mod 2 ^ 64"
    by (metis nat_0_le pos_mod_sign zero_less_numeral zero_less_power)
  then have "(2 ^ 64 :: int) dvd m - n" by (simp add: mod_eq_dvd_iff)
  then have "m - n \<noteq> 0 \<Longrightarrow> \<bar>2 ^ 64\<bar> \<le> \<bar>m - n\<bar>" by (metis dvd_imp_le_int)
  then show ?thesis using assms(2-5) by simp linarith
qed

lemma write_drift_id_inj:
  assumes "write_drift_id a @ x = write_drift_id b @ y"
    and "pred_option (\<lambda>n. - (2 ^ 63) \<le> n \<and> n < 2 ^ 63) a"
    and "pred_option (\<lambda>n. - (2 ^ 63) \<le> n \<and> n < 2 ^ 63) b"
  shows "a = b \<and> x = y"
proof (cases a; cases b)
  fix m n assume ab: "a = Some m" "b = Some n"
  then have "i64_be m @ x = i64_be n @ y" using assms(1) by (simp add: write_drift_id_def)
  then have "i64_be m = i64_be n \<and> x = y" by (simp add: append_eq_append_conv)
  with ab assms(2,3) i64_be_inj [of m n] show ?thesis by simp
qed (use assms(1) in \<open>auto simp: write_drift_id_def\<close>)

lemma row_bytes_inj:
  assumes eq: "row_bytes p 0 r = row_bytes q 0 s" and len: "length p = length q"
    and fit: "inputs_fit r" "inputs_fit s"
  shows "p = q \<and> audit_inputs.truncate r = audit_inputs.truncate s"
proof -
  note F = fit [unfolded inputs_fit_def]
  have pq: "p = q" and e: "write_field (ai_timestamp r) @ write_field (ai_actor r)
     @ write_field (ai_kind r) @ write_field (ai_severity r)
     @ write_optional_str (ai_operation_id r) @ write_optional_str (ai_agent_id r)
     @ write_optional_str (ai_resource_id r) @ write_drift_id (ai_drift_id r)
     @ write_field (ai_payload_json r) @ [] = write_field (ai_timestamp s) @ write_field (ai_actor s)
     @ write_field (ai_kind s) @ write_field (ai_severity s)
     @ write_optional_str (ai_operation_id s) @ write_optional_str (ai_agent_id s)
     @ write_optional_str (ai_resource_id s) @ write_drift_id (ai_drift_id s)
     @ write_field (ai_payload_json s) @ []"
    using eq len by (auto simp: row_bytes_def append_eq_append_conv)
  note a1 = write_field_inj [OF e] note a1 = a1 [OF conjunct1 [OF F(1)] conjunct1 [OF F(2)]]
  note a2 = write_field_inj [OF conjunct2 [OF a1]]
  have f: "fits (ai_timestamp r)" "fits (ai_actor r)" "fits (ai_kind r)" "fits (ai_severity r)"
    "fits (ai_payload_json r)" "fits (ai_timestamp s)" "fits (ai_actor s)" "fits (ai_kind s)"
    "fits (ai_severity s)" "fits (ai_payload_json s)" using F by auto
  note a2 = a2 [OF f(2) f(7)]
  note a3 = write_field_inj [OF conjunct2 [OF a2] f(3) f(8)]
  note a4 = write_field_inj [OF conjunct2 [OF a3] f(4) f(9)]
  note a5 = write_optional_str_inj [OF conjunct2 [OF a4]]
  note a6 = write_optional_str_inj [OF conjunct2 [OF a5]]
  note a7 = write_optional_str_inj [OF conjunct2 [OF a6]]
  note a8 = write_drift_id_inj [OF conjunct2 [OF a7]]
  note a9 = write_field_inj [OF conjunct2 [OF a8]]
  show ?thesis
    using pq a1 a2 a3 a4 a5 a6 a7 a8 a9 F by (simp add: audit_inputs.truncate_def)
qed

section \<open>The log always verifies\<close>

lemma verify_rows_append:
  "verify_rows H prev (xs @ ys) =
     (case verify_rows H prev xs of (Some b, p) \<Rightarrow> (Some b, p) | (None, p) \<Rightarrow> verify_rows H p ys)"
  by (induction xs arbitrary: prev) (auto simp: Let_def)

text \<open>The invariant of the log: ids grow with insertion, every row is chained, and the walk over
  all rows succeeds and ends in the tip's hash.\<close>

definition audit_wf :: "(string \<Rightarrow> string) \<Rightarrow> audit_log \<Rightarrow> bool" where
  "audit_wf H log \<longleftrightarrow>
     sorted_wrt (<) (map ae_id (al_events log))
   \<and> (\<forall>r \<in> set (al_events log). 0 < ae_id r \<and> ae_id r \<le> al_seq log \<and> ae_row_hash r \<noteq> None)
   \<and> 0 \<le> al_seq log
   \<and> verify_rows H [] (al_events log) = (None, tip_last_hash (al_tip log))
   \<and> tip_last_id (al_tip log) = al_seq log"

lemma audit_wf_empty: "audit_wf H empty_log"
  by (simp add: audit_wf_def empty_log_def)

lemma audit_wf_record:
  assumes "audit_wf H log"
  shows "audit_wf H (record_audit_on H S now rec log)"
  using assms
  by (auto simp: audit_wf_def record_audit_on_def Let_def sorted_wrt_append verify_rows_append
        audit_inputs.defs compute_audit_row_hash_def row_bytes_def intro: order.strict_trans1)

text \<open>The audit interface the other components use: a log that keeps its invariant under
  recording. Everything a sequence of recordings leaves is well formed.\<close>

interpretation audit: machine_invariant "\<lambda>(S, now, rec). record_audit_on H S now rec" "audit_wf H"
  by unfold_locales (auto intro: audit_wf_record)

section \<open>The chunked verifier\<close>

lemma chained_after_all:
  assumes "sorted_wrt (<) (map ae_id events)" and "\<forall>r \<in> set events. ae_row_hash r \<noteq> None"
  shows "chained_after events l = filter (\<lambda>r. l < ae_id r) events"
proof -
  have "filter (\<lambda>r. ae_row_hash r \<noteq> None \<and> l < ae_id r) events = filter (\<lambda>r. l < ae_id r) events"
    by (rule filter_cong) (use assms(2) in auto)
  moreover have "sorted (map ae_id (filter (\<lambda>r. l < ae_id r) events))"
    using assms(1) by (meson sorted_filter strict_sorted_imp_sorted)
  ultimately show ?thesis by (simp add: chained_after_def sort_key_id_if_sorted)
qed

lemma filter_after_last:
  assumes "sorted_wrt (<) (map ae_id xs)" and "take n xs \<noteq> []"
  shows "filter (\<lambda>r. ae_id (last (take n xs)) < ae_id r) xs = drop n xs"
proof -
  let ?l = "last (take n xs)"
  have sw: "sorted_wrt (\<lambda>x y. ae_id x < ae_id y) (take n xs @ drop n xs)"
    using assms(1) by (simp add: sorted_wrt_map)
  have front: "\<forall>r \<in> set (take n xs). ae_id r \<le> ae_id ?l"
  proof -
    have "sorted_wrt (\<lambda>x y. ae_id x < ae_id y) (butlast (take n xs) @ [?l])"
      using sw assms(2) by (metis append_butlast_last_id sorted_wrt_append)
    then have "\<forall>r \<in> set (butlast (take n xs)). ae_id r < ae_id ?l" by (simp add: sorted_wrt_append)
    then show ?thesis
      using assms(2) by (metis append_butlast_last_id in_set_butlastD less_imp_le order_refl
          rotate1.simps(2) set_ConsD set_rotate1)
  qed
  have rear: "\<forall>r \<in> set (drop n xs). ae_id ?l < ae_id r"
    using sw assms(2) unfolding sorted_wrt_append by auto
  have "filter (\<lambda>r. ae_id ?l < ae_id r) (take n xs @ drop n xs) = drop n xs"
    unfolding filter_append using front rear by (simp add: filter_False filter_True leD)
  then show ?thesis by simp
qed

lemma verify_loop_walk:
  assumes "sorted_wrt (<) (map ae_id events)" and "\<forall>r \<in> set events. ae_row_hash r \<noteq> None"
    and "0 < chunk"
  shows "verify_loop H chunk events l prev = fst (verify_rows H prev (filter (\<lambda>r. l < ae_id r) events))"
  using assms
proof (induction H chunk events l prev rule: verify_loop.induct)
  case (1 H chunk events l prev)
  let ?all = "filter (\<lambda>r. l < ae_id r) events"
  let ?rows = "take chunk ?all"
  have ch: "chained_after events l = ?all" using 1(2,3) by (rule chained_after_all)
  have srt: "sorted_wrt (<) (map ae_id ?all)"
    using 1(2) by (simp add: sorted_wrt_map sorted_wrt_filter)
  show ?case
  proof (cases "?rows = []")
    case True
    with \<open>0 < chunk\<close> have "?all = []" by simp
    then show ?thesis by (subst verify_loop.simps) (simp only: ch Let_def, simp)
  next
    case False
    obtain b p where vr: "verify_rows H prev ?rows = (b, p)" by force
    have vall: "verify_rows H prev ?all = (case b of Some x \<Rightarrow> (Some x, p) | None \<Rightarrow> verify_rows H p (drop chunk ?all))"
      using verify_rows_append [of H prev ?rows "drop chunk ?all"] vr by (simp split: option.splits)
    have step: "verify_loop H chunk events l prev = (case b of Some x \<Rightarrow> Some x
        | None \<Rightarrow> if length ?rows < chunk then None else verify_loop H chunk events (ae_id (last ?rows)) p)"
      using False vr by (subst verify_loop.simps) (simp only: ch Let_def, simp split: option.splits)
    have nxt: "filter (\<lambda>r. ae_id (last ?rows) < ae_id r) events = drop chunk ?all"
    proof -
      have "last ?rows \<in> set ?all" using False by (meson in_set_takeD last_in_set)
      then have "filter (\<lambda>r. ae_id (last ?rows) < ae_id r) events = filter (\<lambda>r. ae_id (last ?rows) < ae_id r) ?all"
        by (auto intro: filter_cong)
      with filter_after_last [OF srt False] show ?thesis by simp
    qed
    show ?thesis
    proof (cases b)
      case None
      have ih: "verify_loop H chunk events (ae_id (last ?rows)) p = fst (verify_rows H p (drop chunk ?all))"
        if "\<not> length ?rows < chunk"
        using 1(1) [OF refl, unfolded ch, OF False vr [symmetric] None that 1(2-4)] nxt by simp
      show ?thesis
        using step vall None ih by (cases "length ?rows < chunk") auto
    qed (use step vall in simp)
  qed
qed

text \<open>
  The chunked verifier is equivalent to the plain walk: on a log with increasing ids and
  chained rows, fetching ten thousand rows at a time and restarting after the last id gives the
  same verdict, and the same first broken id, as one pass over all rows past \<open>from_id\<close>.
\<close>

theorem audit_verify_chunked_eq_walk:
  assumes "sorted_wrt (<) (map ae_id (al_events log))" and "\<forall>r \<in> set (al_events log). ae_row_hash r \<noteq> None"
  shows "audit_verify_chain H log = fst (verify_rows H [] (filter (\<lambda>r. 0 < ae_id r) (al_events log)))"
  using verify_loop_walk [OF assms, of audit_chunk]
  by (simp add: audit_verify_chain_def audit_verify_chain_from_def audit_chunk_def)

lemma audit_wf_verifies:
  assumes "audit_wf H log"
  shows "audit_verify_chain H log = None"
proof -
  have "filter (\<lambda>r. 0 < ae_id r) (al_events log) = al_events log"
    using assms by (intro filter_True) (auto simp: audit_wf_def)
  with assms show ?thesis
    using verify_loop_walk [of "al_events log" audit_chunk H 0 "[]"]
    by (simp add: audit_wf_def audit_verify_chain_def audit_verify_chain_from_def audit_chunk_def)
qed

section \<open>Tamper evidence\<close>

text \<open>Hex-encoded SHA-256: 64 characters, none of them a zero byte.\<close>

definition hex_digest :: "(string \<Rightarrow> string) \<Rightarrow> bool" where
  "hex_digest H \<longleftrightarrow> (\<forall>x. length (H x) = 64 \<and> set (H x) \<subseteq> set ''0123456789abcdef'')"

text \<open>The byte strings that the walk over a chain hashes.\<close>

fun hashed_inputs :: "(string \<Rightarrow> string) \<Rightarrow> string \<Rightarrow> audit_event list \<Rightarrow> string list" where
  "hashed_inputs H prev [] = []"
| "hashed_inputs H prev (r # rs) = row_bytes prev 0 r # hashed_inputs H (H (row_bytes prev 0 r)) rs"

lemma verify_rows_snoc:
  assumes "verify_rows H p (rs @ [r]) = (None, t)"
  obtains q where "verify_rows H p rs = (None, q)" and "t = H (row_bytes q 0 r)"
  using assms
  by (auto simp: verify_rows_append Let_def compute_audit_row_hash_def
      split: prod.splits option.splits if_splits)

lemma verify_rows_tip:
  assumes "verify_rows H [] rs = (None, t)"
  shows "rs = [] \<and> t = [] \<or> rs \<noteq> [] \<and> (\<exists>x. t = H x)"
proof (cases rs rule: rev_cases)
  case (snoc ys y)
  with assms verify_rows_snoc [of H "[]" ys y t] show ?thesis by auto
qed (use assms in simp)

lemma hashed_inputs_snoc:
  "verify_rows H p rs = (None, q) \<Longrightarrow> hashed_inputs H p (rs @ [r]) = hashed_inputs H p rs @ [row_bytes q 0 r]"
  by (induction rs arbitrary: p)
     (auto simp: Let_def compute_audit_row_hash_def split: if_splits option.splits)

lemma be_bytes_zero: "be_bytes k 0 = replicate k (char_of (0::nat))"
  by (induction k) (simp_all add: replicate_append_same)

lemma hd_be_zero: "hd (i64_be 0 @ xs) = char_of (0::nat)"
proof -
  have n: "nat (0 mod 2 ^ 64) = 0" by simp
  have "i64_be 0 = replicate (Suc 7) (char_of (0::nat))"
    unfolding i64_be_def n be_bytes_zero by simp
  then show ?thesis by (simp only: replicate_Suc append_Cons list.sel)
qed

lemma hex_digest_hd:
  assumes "hex_digest H"
  shows "H x \<noteq> [] \<and> hd (H x @ ys) \<noteq> char_of (0::nat)"
proof -
  have len: "length (H x) = 64" and sub: "set (H x) \<subseteq> set ''0123456789abcdef''"
    using assms unfolding hex_digest_def by blast+
  from len have ne: "H x \<noteq> []" by auto
  then have "hd (H x) \<in> set ''0123456789abcdef''" using sub hd_in_set by blast
  moreover have "char_of (0::nat) \<notin> set ''0123456789abcdef''" by code_simp
  ultimately have "hd (H x) \<noteq> char_of (0::nat)" by metis
  with ne show ?thesis by simp
qed

lemma hd_row_bytes_genesis: "hd (row_bytes [] 0 r) = char_of (0::nat)"
  by (simp add: row_bytes_def hd_be_zero)

lemma row_bytes_prev_length:
  fixes r :: "'c audit_inputs_scheme" and s :: "'d audit_inputs_scheme"
  assumes H: "hex_digest H" and eq: "row_bytes p 0 r = row_bytes q 0 s"
    and p: "p = [] \<or> (\<exists>x. p = H x)" and q: "q = [] \<or> (\<exists>x. q = H x)"
  shows "length p = length q"
proof -
  have "hd (row_bytes (H x) 0 u) \<noteq> char_of (0::nat)" for x and u :: "'c audit_inputs_scheme"
    unfolding row_bytes_def using hex_digest_hd [OF H] by blast
  moreover have "hd (row_bytes (H x) 0 u) \<noteq> char_of (0::nat)" for x and u :: "'d audit_inputs_scheme"
    unfolding row_bytes_def using hex_digest_hd [OF H] by blast
  moreover have "length (H x) = length (H y)" for x y using H by (simp add: hex_digest_def)
  ultimately show ?thesis
    using p q eq hd_row_bytes_genesis [of r] hd_row_bytes_genesis [of s] by (elim disjE exE) metis+
qed

lemma chain_determined:
  assumes "hex_digest H"
    and "verify_rows H [] es = (None, t)" "verify_rows H [] fs = (None, t)"
    and "\<forall>r \<in> set es. inputs_fit r" "\<forall>r \<in> set fs. inputs_fit r"
    and free: "\<forall>x \<in> set (hashed_inputs H [] es). \<forall>y \<in> set (hashed_inputs H [] fs). H x = H y \<longrightarrow> x = y"
  shows "map audit_inputs.truncate es = map audit_inputs.truncate fs"
  using assms(2-)
proof (induction es arbitrary: fs t rule: rev_induct)
  case Nil
  then have "t = []" by simp
  with Nil(2) assms(1) verify_rows_tip [of H fs t] show ?case
    by (metis hex_digest_def list.size(3) zero_neq_numeral)
next
  case (snoc r es)
  obtain p where p: "verify_rows H [] es = (None, p)" "t = H (row_bytes p 0 r)"
    using verify_rows_snoc [OF snoc.prems(1)] .
  have "fs \<noteq> []" using snoc.prems(2) p(2) assms(1)
    by (metis hex_digest_def list.size(3) zero_neq_numeral verify_rows.simps(1) snd_conv)
  then obtain gs s where fs: "fs = gs @ [s]" by (metis rev_exhaust)
  obtain q where q: "verify_rows H [] gs = (None, q)" "t = H (row_bytes q 0 s)"
    using verify_rows_snoc [OF snoc.prems(2) [unfolded fs]] .
  note hi = hashed_inputs_snoc [OF p(1)] hashed_inputs_snoc [OF q(1)]
  have eq: "row_bytes p 0 r = row_bytes q 0 s"
    using snoc.prems(5) p(2) q(2) by (simp add: fs hi)
  have "length p = length q"
    using row_bytes_prev_length [OF assms(1) eq] verify_rows_tip [OF p(1)] verify_rows_tip [OF q(1)] by blast
  with row_bytes_inj [OF eq] snoc.prems(3,4)
  have pq: "p = q" "audit_inputs.truncate r = audit_inputs.truncate s" by (auto simp: fs)
  have "map audit_inputs.truncate es = map audit_inputs.truncate gs"
    using snoc.IH [OF p(1) q(1) [folded pq(1)]] snoc.prems(3-5) by (simp add: fs hi)
  with pq(2) show ?case by (simp add: fs)
qed

text \<open>The rows the verifier reads: those with a hash, in the order of their ids. Rows without one are
  skipped, as those of a log older than the chain are.\<close>

definition hashed_rows :: "audit_log \<Rightarrow> audit_event list" where
  "hashed_rows log = chained_after (al_events log) 0"

lemma chained_after_hashed: "0 \<le> l \<Longrightarrow> chained_after (chained_after events 0) l = chained_after events l"
proof -
  assume l: "0 \<le> l"
  have "filter (\<lambda>r. ae_row_hash r \<noteq> None \<and> l < ae_id r) (sort_key ae_id (filter (\<lambda>r. ae_row_hash r \<noteq> None \<and> 0 < ae_id r) events))
      = sort_key ae_id (filter (\<lambda>r. ae_row_hash r \<noteq> None \<and> l < ae_id r) (filter (\<lambda>r. ae_row_hash r \<noteq> None \<and> 0 < ae_id r) events))"
    by (rule filter_sort)
  also have "filter (\<lambda>r. ae_row_hash r \<noteq> None \<and> l < ae_id r) (filter (\<lambda>r. ae_row_hash r \<noteq> None \<and> 0 < ae_id r) events)
      = filter (\<lambda>r. ae_row_hash r \<noteq> None \<and> l < ae_id r) events"
    unfolding filter_filter by (rule filter_cong) (use l in auto)
  finally show ?thesis by (simp add: chained_after_def sort_key_id_if_sorted)
qed

lemma verify_loop_hashed:
  "0 \<le> l \<Longrightarrow> verify_loop H chunk events l prev = verify_loop H chunk (chained_after events 0) l prev"
proof (induction H chunk events l prev rule: verify_loop.induct)
  case (1 H chunk events l prev)
  let ?rows = "take chunk (chained_after events l)"
  note ch = chained_after_hashed [OF 1(2), of events]
  have nxt: "0 \<le> ae_id (last ?rows)" if "?rows \<noteq> []"
  proof -
    have "last ?rows \<in> set (chained_after events l)" using that by (meson in_set_takeD last_in_set)
    then have "l < ae_id (last ?rows)" by (simp add: chained_after_def)
    with 1(2) show ?thesis by simp
  qed
  show ?case
    by (subst (1 2) verify_loop.simps, unfold ch Let_def)
      (use 1(1) nxt in \<open>auto split: option.splits prod.splits\<close>)
qed

lemma hashed_rows_sorted:
  assumes "distinct (map ae_id (al_events log))"
  shows "sorted_wrt (<) (map ae_id (hashed_rows log))" "\<forall>r \<in> set (hashed_rows log). ae_row_hash r \<noteq> None \<and> 0 < ae_id r"
    "set (hashed_rows log) \<subseteq> set (al_events log)"
proof -
  let ?rows = "filter (\<lambda>r. ae_row_hash r \<noteq> None \<and> 0 < ae_id r) (al_events log)"
  have "distinct (map ae_id ?rows)" using assms by (rule distinct_map_filter)
  then have "distinct (map ae_id (hashed_rows log))" by (simp add: hashed_rows_def chained_after_def distinct_map inj_on_def)
  then show "sorted_wrt (<) (map ae_id (hashed_rows log))" by (simp add: strict_sorted_iff) (simp add: hashed_rows_def chained_after_def)
qed (auto simp: hashed_rows_def chained_after_def)

lemma verdict_of_walk:
  assumes "distinct (map ae_id (al_events log))"
  shows "audit_verify_chain H log = fst (verify_rows H [] (hashed_rows log))"
proof -
  note s = hashed_rows_sorted [OF assms]
  have "filter (\<lambda>r. 0 < ae_id r) (hashed_rows log) = hashed_rows log" using s(2) by (intro filter_True) blast
  moreover have "audit_verify_chain H log = verify_loop H audit_chunk (hashed_rows log) 0 []"
    using verify_loop_hashed [of 0 H audit_chunk "al_events log" "[]"]
    by (simp add: audit_verify_chain_def audit_verify_chain_from_def hashed_rows_def)
  ultimately show ?thesis
    using verify_loop_walk [OF s(1), of audit_chunk H 0 "[]"] s(2) by (simp add: audit_chunk_def)
qed


text \<open>A row without a hash can be put anywhere in the table without a trace in the verdict.\<close>

lemma unhashed_row_undetected:
  assumes "ae_row_hash r = None"
  shows "audit_verify_chain H (log\<lparr>al_events := before @ r # after\<rparr>) = audit_verify_chain H (log\<lparr>al_events := before @ after\<rparr>)"
proof -
  have "chained_after (before @ r # after) 0 = chained_after (before @ after) 0" by (simp add: chained_after_def assms)
  with verify_loop_hashed [of 0 H audit_chunk "before @ r # after" "[]"] verify_loop_hashed [of 0 H audit_chunk "before @ after" "[]"]
  show ?thesis by (simp add: audit_verify_chain_def audit_verify_chain_from_def)
qed

section \<open>Witnesses\<close>

text \<open>A concrete log: a toy digest of the right shape and two recorded events.\<close>

definition sample_digest :: "string \<Rightarrow> string" where
  "sample_digest x = replicate 64 (if length x mod 2 = 0 then CHR ''a'' else CHR ''b'')"

definition sample_log :: audit_log where
  "sample_log =
     (let S = \<lparr>from_str = (\<lambda>s. Some JNull), to_str = (\<lambda>j. ''null'')\<rparr>
      in record_audit_on sample_digest S ''t2'' (audit_new ''bob'' ''user.login'')
           (record_audit_on sample_digest S ''t1'' (audit_new ''al'' ''agent.registered'') empty_log))"

lemma sample_log_wf: "audit_wf sample_digest sample_log"
  unfolding sample_log_def Let_def by (intro audit_wf_record audit_wf_empty)

lemma sample_log_events: "map ae_id (al_events sample_log) = [1, 2]"
  by (simp add: sample_log_def record_audit_on_def Let_def empty_log_def audit_inputs.defs)

lemma sample_log_fit: "\<forall>r \<in> set (al_events sample_log). inputs_fit r"
  by (simp add: sample_log_def record_audit_on_def Let_def empty_log_def audit_inputs.defs
      inputs_fit_def fits_def audit_new_def)

lemma sample_log_chained: "sorted_wrt (<) (map ae_id (al_events sample_log))"
    "\<forall>r \<in> set (al_events sample_log). ae_row_hash r \<noteq> None \<and> 0 < ae_id r"
  using sample_log_wf by (auto simp: audit_wf_def)

lemma sample_digest_hex: "hex_digest sample_digest"
  by (auto simp: hex_digest_def sample_digest_def)

lemma sample_log_walk: "verify_rows sample_digest [] (al_events sample_log)
    = (None, tip_last_hash (al_tip sample_log))"
  using sample_log_wf by (simp add: audit_wf_def)

theorem audit_verify_chunked_witness:
  "sorted_wrt (<) (map ae_id (al_events sample_log))
   \<and> length (al_events sample_log) = 2
   \<and> audit_verify_chain sample_digest sample_log = None"
proof -
  have a: "sorted_wrt (<) (map ae_id (al_events sample_log))"
    "\<forall>r \<in> set (al_events sample_log). ae_row_hash r \<noteq> None" "\<forall>r \<in> set (al_events sample_log). 0 < ae_id r"
    using sample_log_chained by auto
  have "length (al_events sample_log) = 2" using arg_cong [OF sample_log_events, of length] by simp
  with audit_verify_chunked_eq_walk [OF a(1,2), of sample_digest] a show ?thesis
    by (simp add: filter_True sample_log_walk)
qed

text \<open>The same two events after a row that was there before the chain began.\<close>

definition old_row :: audit_event where
  "old_row = \<lparr>ai_timestamp = ''t0'', ai_actor = ''al'', ai_kind = ''old'', ai_severity = ''info'', ai_operation_id = None, ai_agent_id = None,
     ai_resource_id = None, ai_drift_id = None, ai_payload_json = ''null'', ae_id = 7, ae_prev_hash = None, ae_row_hash = None\<rparr>"

definition old_log :: audit_log where
  "old_log = sample_log\<lparr>al_events := old_row # al_events sample_log\<rparr>"

lemma sample_hashed: "hashed_rows sample_log = al_events sample_log" "hashed_rows old_log = al_events sample_log"
proof -
  have "chained_after (al_events sample_log) 0 = filter (\<lambda>r. 0 < ae_id r) (al_events sample_log)"
    using chained_after_all [OF sample_log_chained(1), of 0] sample_log_chained(2) by auto
  then show "hashed_rows sample_log = al_events sample_log" using sample_log_chained(2) by (simp add: hashed_rows_def filter_True)
  then show "hashed_rows old_log = al_events sample_log"
    by (simp add: hashed_rows_def old_log_def chained_after_def old_row_def)
qed


end
