(* ===== verification/Text_Tools.thy ===== *)
theory Text_Tools
  imports Iac_Prelude
begin

text \<open>
  Text as the standard library reads and writes it: numbers in a radix, splitting at a separator,
  and the JSON numbers of \<open>serde_json\<close>, whose text is the decimal one.
\<close>

section \<open>Numbers as text\<close>

definition digit_value :: "nat \<Rightarrow> char \<Rightarrow> nat option" where
  "digit_value radix c = (let n = (of_char c :: nat) in if 48 \<le> n \<and> n < 48 + radix then Some (n - 48) else None)"

fun parse_digits :: "nat \<Rightarrow> nat \<Rightarrow> nat \<Rightarrow> string \<Rightarrow> nat option" where
  "parse_digits radix bound acc [] = Some acc"
| "parse_digits radix bound acc (c # cs) =
     (case digit_value radix c of
        None \<Rightarrow> None
      | Some d \<Rightarrow> let acc' = acc * radix + d in if acc' < bound then parse_digits radix bound acc' cs else None)"

text \<open>\<open>from_str_radix\<close> of an unsigned type: an optional plus sign, then digits, no overflow.\<close>

definition parse_unsigned :: "nat \<Rightarrow> nat \<Rightarrow> string \<Rightarrow> nat option" where
  "parse_unsigned radix bound s =
     (let t = (case s of c # cs \<Rightarrow> if c = CHR ''+'' then cs else s | [] \<Rightarrow> s)
      in if t = [] then None else parse_digits radix bound 0 t)"

fun show_radix :: "nat \<Rightarrow> nat \<Rightarrow> string" where
  "show_radix radix n =
     (if radix \<le> 1 \<or> n < radix then [char_of (48 + n)] else show_radix radix (n div radix) @ [char_of (48 + n mod radix)])"

declare show_radix.simps [simp del]

lemma digit_char: "d < 10 \<Longrightarrow> char_of (48 + d) = c \<longleftrightarrow> 48 + d = (of_char c :: nat)"
proof
  assume d: "d < 10" and c: "char_of (48 + d) = c"
  have "of_char (char_of (48 + d) :: char) = (48 + d :: nat)" using d by simp
  with c show "48 + d = (of_char c :: nat)" by simp
qed simp

lemma digit_value_char: "d < radix \<Longrightarrow> radix \<le> 10 \<Longrightarrow> digit_value radix (char_of (48 + d)) = Some d"
  by (simp add: digit_value_def Let_def)

lemma parse_digits_append:
  "parse_digits radix bound acc (s @ t) = Option.bind (parse_digits radix bound acc s) (\<lambda>a. parse_digits radix bound a t)"
  by (induction s arbitrary: acc) (auto simp: Let_def split: option.splits)

lemma parse_show_radix:
  assumes "2 \<le> radix" "radix \<le> 10" "n < bound"
  shows "parse_digits radix bound 0 (show_radix radix n) = Some n"
  using assms(3)
proof (induction n rule: less_induct)
  case (less n)
  show ?case
  proof (cases "n < radix")
    case True
    with less.prems assms show ?thesis
      by (subst show_radix.simps) (simp add: digit_value_char)
  next
    case False
    have "n div radix < n" using False assms(1) by (intro div_less_dividend) auto
    moreover have "n div radix < bound" using less.prems calculation by simp
    ultimately have "parse_digits radix bound 0 (show_radix radix (n div radix)) = Some (n div radix)" by (rule less.IH)
    moreover have "n mod radix < radix" using assms(1) by simp
    ultimately show ?thesis
      using False assms less.prems
      by (subst show_radix.simps) (simp add: parse_digits_append digit_value_char div_mult_mod_eq)
  qed
qed

lemma show_radix_hd:
  assumes "2 \<le> radix" "radix \<le> 10" "0 < n"
  shows "show_radix radix n \<noteq> [] \<and> hd (show_radix radix n) \<noteq> CHR ''0'' \<and> hd (show_radix radix n) \<noteq> CHR ''+''"
  using assms(3)
proof (induction n rule: less_induct)
  case (less n)
  show ?case
  proof (cases "n < radix")
    case True
    with less.prems assms show ?thesis
      by (subst (1 2 3) show_radix.simps) (simp add: digit_char)
  next
    case False
    have "n div radix < n" using False assms(1) by (intro div_less_dividend) auto
    moreover have "0 < n div radix" using False assms(1) by (simp add: div_greater_zero_iff)
    ultimately have "show_radix radix (n div radix) \<noteq> [] \<and> hd (show_radix radix (n div radix)) \<noteq> CHR ''0'' \<and> hd (show_radix radix (n div radix)) \<noteq> CHR ''+''"
      by (rule less.IH)
    with False assms(1) show ?thesis by (subst (1 2 3) show_radix.simps) (auto simp: hd_append)
  qed
qed

lemma show_radix_digits:
  "2 \<le> radix \<Longrightarrow> radix \<le> 10 \<Longrightarrow> c \<in> set (show_radix radix n) \<Longrightarrow> \<exists>d :: nat. d < 10 \<and> c = char_of (48 + d)"
proof (induction n rule: less_induct)
  case (less n)
  show ?case
  proof (cases "n < radix")
    case True
    with less.prems(3) have "c = char_of (48 + n)" by (subst (asm) show_radix.simps) simp
    with True less.prems(2) show ?thesis by (intro exI [of _ n]) simp
  next
    case False
    have less_n: "n div radix < n" using False less.prems(1) by (intro div_less_dividend) auto
    have "n mod radix < radix" using less.prems(1) by simp
    then have "n mod radix < 10" using less.prems(2) by simp
    moreover have "c \<in> set (show_radix radix (n div radix)) \<or> c = char_of (48 + n mod radix)"
    proof -
      have "show_radix radix n = show_radix radix (n div radix) @ [char_of (48 + n mod radix)]"
        by (subst show_radix.simps) (use False less.prems(1) in simp)
      with less.prems(3) show ?thesis by auto
    qed
    ultimately show ?thesis using less.IH [OF less_n less.prems(1,2)] by blast
  qed
qed

lemma digit_plain: "(d :: nat) < 10 \<Longrightarrow> plain_byte (char_of (48 + d))"
proof -
  have "\<forall>d \<in> set [0..<10]. plain_byte (char_of (48 + d))" by code_simp
  then show "d < 10 \<Longrightarrow> plain_byte (char_of (48 + d))" by simp
qed

lemma parse_digits_bound: "parse_digits radix bound acc s = Some n \<Longrightarrow> acc < bound \<Longrightarrow> n < bound"
  by (induction s arbitrary: acc) (auto simp: Let_def split: option.splits if_splits)

lemma parse_unsigned_bound: "parse_unsigned radix bound s = Some n \<Longrightarrow> 0 < bound \<Longrightarrow> n < bound"
  by (auto simp: parse_unsigned_def Let_def simp del: parse_digits.simps dest: parse_digits_bound split: if_splits list.splits)

lemma show_nat_radix: "show_nat n = show_radix 10 n"
proof (induction n rule: less_induct)
  case (less n)
  show ?case
  proof (cases "n < 10")
    case False
    then have "n div 10 < n" by simp
    then show ?thesis using False less [of "n div 10"] by (subst show_nat.simps, subst show_radix.simps) simp
  qed (subst show_nat.simps, subst show_radix.simps, simp)
qed

section \<open>Splitting\<close>

fun split_on :: "char \<Rightarrow> string \<Rightarrow> string list" where
  "split_on sep [] = [[]]"
| "split_on sep (c # cs) =
     (if c = sep then [] # split_on sep cs
      else (case split_on sep cs of x # xs \<Rightarrow> (c # x) # xs | [] \<Rightarrow> [[c]]))"

section \<open>Numbers in JSON\<close>

definition jnat :: "nat \<Rightarrow> json" where
  "jnat n = JNum (show_radix 10 n)"

text \<open>\<open>as_u64\<close>.\<close>

definition as_u64 :: "json \<Rightarrow> nat option" where
  "as_u64 v = (case v of JNum s \<Rightarrow> (if s = [] then None else parse_digits 10 (2 ^ 64) 0 s) | _ \<Rightarrow> None)"

lemma as_u64_jnat: "n < 2 ^ 64 \<Longrightarrow> as_u64 (jnat n) = Some n"
proof -
  assume n: "n < 2 ^ 64"
  have "show_radix 10 n \<noteq> []" by (subst show_radix.simps) simp
  then show ?thesis using n parse_show_radix [of 10 n "2 ^ 64"] by (simp add: as_u64_def jnat_def)
qed

section \<open>JSON objects\<close>

text \<open>\<open>serde_json::Map\<close> is a \<open>BTreeMap\<close>: \<open>jobject\<close> is a literal or a sequence of inserts,
  \<open>jset\<close> is one insert.\<close>

definition jobject :: "(string \<times> json) list \<Rightarrow> json" where
  "jobject kvs = JObj (fold (\<lambda>(k, v). bt_insert k v) kvs [])"

definition jset :: "string \<Rightarrow> json \<Rightarrow> (string \<times> json) list \<Rightarrow> (string \<times> json) list" where
  "jset k v m = bt_insert k v m"

definition as_object :: "json \<Rightarrow> (string \<times> json) list option" where
  "as_object v = (case v of JObj m \<Rightarrow> Some m | _ \<Rightarrow> None)"

lemma jget_jobject: "jget (jobject kvs) k = map_of (rev kvs) k"
  using bt.look_fold_put [of "[]" kvs] by (simp add: jobject_def)

text \<open>Values as the parser builds them: the keys of every object are strictly increasing.\<close>

fun json_wf :: "json \<Rightarrow> bool" where
  "json_wf (JObj m) = (bt_wf m \<and> list_all (\<lambda>kv. json_wf (snd kv)) m)"
| "json_wf (JArr xs) = (length xs < 2 ^ 64 \<and> list_all json_wf xs)"
| "json_wf v = True"

end
