(* ===== verification/Store_Db.thy ===== *)
theory Store_Db
  imports Identity Audit_Log Text_Tools
begin

text \<open>
  The database behind \<open>crates/iac-controlplane/src/store.rs\<close>. Every table is the list of its rows
  in insertion order, every row a record with the columns of the migrations. A call of the store
  is one transaction: it maps the database to a new database and a result, or to an error, in
  which case the transaction is rolled back and the old database stands. \<open>UPDATE ... WHERE\<close> is
  \<open>update_where\<close>; an \<open>INSERT\<close> fails when it violates a key, a \<open>UNIQUE\<close> constraint or a foreign
  key.

  Values the code obtains from outside the repository are parameters: the clock, SHA-256, the JSON
  reader and printer (all in \<open>call_env\<close>), fresh ULIDs and random tokens (arguments of the calls
  that draw them). Text columns whose values come from a fixed set of literals are datatypes, with
  the literals in \<open>assignment_status_text\<close> and \<open>operation_status_text\<close>; the two JSON columns that
  only the store itself writes and reads back (\<open>roles_json\<close>, \<open>matched_policies_json\<close>) hold their
  values.
\<close>

section \<open>Status columns\<close>

datatype assignment_status =
    APending | AFetched | APendingLayer | APendingCanary
  | ASucceeded | APartiallyApplied | AFailed | ACancelled

fun assignment_status_text :: "assignment_status \<Rightarrow> string" where
  "assignment_status_text APending = ''pending''"
| "assignment_status_text AFetched = ''fetched''"
| "assignment_status_text APendingLayer = ''pending_layer''"
| "assignment_status_text APendingCanary = ''pending_canary''"
| "assignment_status_text ASucceeded = ''succeeded''"
| "assignment_status_text APartiallyApplied = ''partially_applied''"
| "assignment_status_text AFailed = ''failed''"
| "assignment_status_text ACancelled = ''cancelled''"

datatype operation_status =
    OpPending | OpPendingApproval | OpRunning | OpPartiallyApplied | OpFailed | OpSucceeded | OpRejected

fun operation_status_text :: "operation_status \<Rightarrow> string" where
  "operation_status_text OpPending = ''pending''"
| "operation_status_text OpPendingApproval = ''pending_approval''"
| "operation_status_text OpRunning = ''running''"
| "operation_status_text OpPartiallyApplied = ''partially_applied''"
| "operation_status_text OpFailed = ''failed''"
| "operation_status_text OpSucceeded = ''succeeded''"
| "operation_status_text OpRejected = ''rejected''"

definition parse_operation_status :: "string \<Rightarrow> operation_status" where
  "parse_operation_status s =
     (if s = ''running'' then OpRunning
      else if s = ''partially_applied'' then OpPartiallyApplied
      else if s = ''failed'' then OpFailed
      else if s = ''succeeded'' then OpSucceeded
      else if s = ''pending_approval'' then OpPendingApproval
      else if s = ''rejected'' then OpRejected
      else OpPending)"

lemma parse_operation_status_text [simp]: "parse_operation_status (operation_status_text s) = s"
  by (cases s) (simp_all add: parse_operation_status_def)

section \<open>Rows\<close>

record agent_row =
  ag_id :: string
  ag_name :: string
  ag_environment :: string
  ag_token_hash :: string
  ag_registered_at :: string
  ag_last_heartbeat_at :: "string option"
  ag_last_observation_at :: "string option"
  ag_last_status :: string
  ag_last_managed :: int
  ag_last_open_drifts :: int
  ag_metadata_json :: string
  ag_token_expires_at :: "string option"
  ag_kind :: string

record operation_row =
  op_id :: string
  op_kind :: string
  op_environment :: string
  op_requested_by :: string
  op_status :: operation_status
  op_source_commit :: "string option"
  op_summary :: "string option"
  op_created_at :: string
  op_started_at :: "string option"
  op_finished_at :: "string option"
  op_requires_approval :: bool
  op_matched_policies :: "string list"
  op_approved_by :: "string option"
  op_approved_at :: "string option"
  op_approval_reason :: "string option"
  op_rejected_by :: "string option"
  op_rejected_at :: "string option"
  op_rejection_reason :: "string option"

record assignment_row =
  as_id :: string
  as_agent_id :: string
  as_operation_id :: string
  as_payload_json :: string
  as_created_at :: string
  as_expires_at :: "string option"
  as_fetched_at :: "string option"
  as_completed_at :: "string option"
  as_status :: assignment_status
  as_kind :: string
  as_layer :: int
  as_batch :: "nat option"
  as_result_json :: "string option"

record desired_row =
  ds_id :: int
  ds_operation_id :: string
  ds_resource_id :: string
  ds_kind :: string
  ds_environment :: string
  ds_spec_json :: string
  ds_metadata_json :: string

record observation_row =
  ob_id :: int
  ob_agent_id :: string
  ob_resource_id :: string
  ob_kind :: string
  ob_observed_at :: string
  ob_present :: bool
  ob_spec_json :: string
  ob_facts_json :: string
  ob_received_at :: string

record drift_row =
  dr_id :: int
  dr_agent_id :: string
  dr_resource_id :: string
  dr_kind :: string
  dr_severity :: string
  dr_diff_json :: string
  dr_detected_at :: string
  dr_received_at :: string
  dr_ignored_until :: "string option"
  dr_resolved_at :: "string option"
  dr_resolution :: "string option"

record user_row =
  us_id :: string
  us_username :: string
  us_password_hash :: string
  us_roles :: "role list"
  us_created_at :: string
  us_disabled_at :: "string option"

record token_row =
  ut_token_hash :: string
  ut_user_id :: string
  ut_issued_at :: string
  ut_expires_at :: string

text \<open>The tables, with the auto-increment counters of the three that have one.\<close>

record db =
  db_agents :: "agent_row list"
  db_operations :: "operation_row list"
  db_assignments :: "assignment_row list"
  db_desired :: "desired_row list"
  db_desired_seq :: int
  db_observations :: "observation_row list"
  db_observations_seq :: int
  db_drift :: "drift_row list"
  db_drift_seq :: int
  db_users :: "user_row list"
  db_tokens :: "token_row list"
  db_audit :: audit_log

text \<open>The database the migrations create.\<close>

definition empty_db :: db where
  "empty_db = \<lparr>db_agents = [], db_operations = [], db_assignments = [], db_desired = [],
     db_desired_seq = 0, db_observations = [], db_observations_seq = 0, db_drift = [],
     db_drift_seq = 0, db_users = [], db_tokens = [], db_audit = empty_log\<rparr>"

section \<open>The environment of a call\<close>

text \<open>\<open>ce_now\<close> is \<open>Timestamp::now().to_string()\<close>, \<open>ce_after n\<close> the text of that instant plus \<open>n\<close>
  seconds or \<open>None\<close> outside the range of the clock library, \<open>ce_audit_now\<close> the second reading the
  audit recorder takes, \<open>ce_lease\<close> the value of \<open>IAC_ASSIGNMENT_LEASE_SECS\<close> when it is set and
  parses. The database may refuse any statement. Inside a transaction that undoes the whole call, which
  then has the effect of a call that was not made; \<open>ce_fault\<close> says what the database answers to the
  statements that stand alone or whose failure the caller ignores.\<close>

datatype store_statement =
    WriteAudit | RevertRows
  | DeleteAudit | DeleteObservations | CapObservations nat | CapDesired nat | DeleteDrift | DeleteAssignments | DeleteTokens

record call_env =
  ce_hash :: "string \<Rightarrow> string"
  ce_serde :: serde
  ce_now :: string
  ce_after :: "int \<Rightarrow> string option"
  ce_audit_now :: string
  ce_lease :: "int option"
  ce_fault :: "store_statement \<Rightarrow> api_error option"

type_synonym 'a tx = "db \<Rightarrow> (db \<times> 'a) api_result"

definition audited :: "call_env \<Rightarrow> audit_record \<Rightarrow> db \<Rightarrow> db" where
  "audited E rec d = d\<lparr>db_audit := record_audit_on (ce_hash E) (ce_serde E) (ce_audit_now E) rec (db_audit d)\<rparr>"

lemma audited_frame [simp, row_simps]:
  "db_agents (audited E rec d) = db_agents d"
  "db_operations (audited E rec d) = db_operations d"
  "db_assignments (audited E rec d) = db_assignments d"
  "db_desired (audited E rec d) = db_desired d"
  "db_desired_seq (audited E rec d) = db_desired_seq d"
  "db_observations (audited E rec d) = db_observations d"
  "db_drift (audited E rec d) = db_drift d"
  "db_drift_seq (audited E rec d) = db_drift_seq d"
  "db_users (audited E rec d) = db_users d"
  "db_tokens (audited E rec d) = db_tokens d"
  by (simp_all add: audited_def)

text \<open>\<open>record_audit\<close>, the call a handler makes to log what it did, can fail; then nothing is logged.\<close>

definition record_audit :: "call_env \<Rightarrow> audit_record \<Rightarrow> unit tx" where
  "record_audit E rec d = (case ce_fault E WriteAudit of Some e \<Rightarrow> Inl e | None \<Rightarrow> Inr (audited E rec d, ()))"

text \<open>The state a call leaves: an error rolls the transaction back.\<close>

definition commit :: "'a tx \<Rightarrow> db \<Rightarrow> db" where
  "commit t d = (case t d of Inl e \<Rightarrow> d | Inr (d', r) \<Rightarrow> d')"

lemma commit_cases:
  obtains (rolled) e where "t d = Inl e" "commit t d = d"
  | (committed) d' r where "t d = Inr (d', r)" "commit t d = d'"
  by (cases "t d") (auto simp: commit_def)

lemma commit_inv: "I d \<Longrightarrow> (\<And>d' r. t d = Inr (d', r) \<Longrightarrow> I d') \<Longrightarrow> I (commit t d)"
  by (cases rule: commit_cases [of t d]) auto

section \<open>Row updates and keys\<close>

definition update_where :: "('r \<Rightarrow> bool) \<Rightarrow> ('r \<Rightarrow> 'r) \<Rightarrow> 'r list \<Rightarrow> 'r list" where
  "update_where P f rows = map (\<lambda>r. if P r then f r else r) rows"

definition rows_affected :: "('r \<Rightarrow> bool) \<Rightarrow> 'r list \<Rightarrow> nat" where
  "rows_affected P rows = length (filter P rows)"

lemma rows_affected_zero: "rows_affected P rows = 0 \<longleftrightarrow> (\<forall>r \<in> set rows. \<not> P r)"
  by (simp add: rows_affected_def filter_empty_conv)

lemma set_update_where: "set (update_where P f rows) = (\<lambda>r. if P r then f r else r) ` set rows"
  by (simp add: update_where_def)

lemma update_where_none: "\<forall>r \<in> set rows. \<not> P r \<Longrightarrow> update_where P f rows = rows"
  by (simp add: update_where_def map_idI)

lemma update_where_Nil [simp]: "update_where P f [] = []"
  by (simp add: update_where_def)

lemma filter_update_where:
  "(\<And>r. r \<in> set rows \<Longrightarrow> P r \<Longrightarrow> Q (f r) = Q r) \<Longrightarrow>
   filter Q (update_where P f rows) = update_where P f (filter Q rows)"
  by (induction rows) (auto simp: update_where_def)

lemma filter_update_where_other:
  "(\<And>r. r \<in> set rows \<Longrightarrow> P r \<Longrightarrow> \<not> Q r \<and> \<not> Q (f r)) \<Longrightarrow> filter Q (update_where P f rows) = filter Q rows"
  by (induction rows) (auto simp: update_where_def)

lemma find_distinct_key:
  "distinct (map key rows) \<Longrightarrow> r \<in> set rows \<Longrightarrow> find (\<lambda>x. key x = key r) rows = Some r"
  by (induction rows) (auto simp: rev_image_eqI)

text \<open>A table with a unique key, seen through its getter and its update function: updates that
  keep the key and inserts that test it preserve uniqueness, and a lookup by key finds the row.\<close>

locale keyed_table =
  fixes tget :: "'d \<Rightarrow> 'r list"
    and tupd :: "('r list \<Rightarrow> 'r list) \<Rightarrow> 'd \<Rightarrow> 'd"
    and key :: "'r \<Rightarrow> 'k"
  assumes get_upd: "tget (tupd f d) = f (tget d)"
begin

lemma distinct_update:
  assumes "distinct (map key (tget d))" and "\<And>r. key (f r) = key r"
  shows "distinct (map key (tget (tupd (update_where P f) d)))"
proof -
  have "map key (update_where P f (tget d)) = map key (tget d)"
    using assms(2) by (simp add: update_where_def)
  with assms(1) show ?thesis by (simp add: get_upd)
qed

lemma distinct_insert:
  "distinct (map key (tget d)) \<Longrightarrow> key r \<notin> key ` set (tget d) \<Longrightarrow>
   distinct (map key (tget (tupd (\<lambda>rows. rows @ [r]) d)))"
  by (simp add: get_upd)

lemma find_key:
  "distinct (map key (tget d)) \<Longrightarrow> r \<in> set (tget d) \<Longrightarrow> find (\<lambda>x. key x = key r) (tget d) = Some r"
  by (rule find_distinct_key)

lemma key_unique:
  "distinct (map key (tget d)) \<Longrightarrow> r \<in> set (tget d) \<Longrightarrow> s \<in> set (tget d) \<Longrightarrow> key r = key s \<Longrightarrow> r = s"
  by (metis distinct_map inj_onD)

end

interpretation agents_t: keyed_table db_agents db_agents_update ag_id
  by unfold_locales simp
interpretation agent_names_t: keyed_table db_agents db_agents_update ag_name
  by unfold_locales simp
interpretation operations_t: keyed_table db_operations db_operations_update op_id
  by unfold_locales simp
interpretation assignments_t: keyed_table db_assignments db_assignments_update as_id
  by unfold_locales simp
interpretation drift_t: keyed_table db_drift db_drift_update dr_id
  by unfold_locales simp
interpretation users_t: keyed_table db_users db_users_update us_id
  by unfold_locales simp
interpretation usernames_t: keyed_table db_users db_users_update us_username
  by unfold_locales simp
interpretation tokens_t: keyed_table db_tokens db_tokens_update ut_token_hash
  by unfold_locales simp

section \<open>JSON helpers\<close>

definition jopt :: "string option \<Rightarrow> json" where
  "jopt s = (case s of None \<Rightarrow> JNull | Some x \<Rightarrow> JStr x)"

definition jstrs :: "string list \<Rightarrow> json" where
  "jstrs xs = JArr (map JStr xs)"

section \<open>A sample database\<close>

text \<open>One registered agent; used by the witnesses of the other theories.\<close>

definition sample_agent :: agent_row where
  "sample_agent = \<lparr>ag_id = ''a1'', ag_name = ''vm1'', ag_environment = ''prod'', ag_token_hash = ''h1'',
     ag_registered_at = ''t0'', ag_last_heartbeat_at = None, ag_last_observation_at = None,
     ag_last_status = ''healthy'', ag_last_managed = 0, ag_last_open_drifts = 0, ag_metadata_json = ''{}'',
     ag_token_expires_at = None, ag_kind = ''pull''\<rparr>"

definition sample_fleet :: db where
  "sample_fleet = empty_db\<lparr>db_agents := [sample_agent]\<rparr>"

end
