(* ===== verification/Agents.thy ===== *)
theory Agents
  imports Store_Db Core_Resource
begin

text \<open>
  The agent table and the observation stream of the control plane (\<open>store.rs\<close>): registration,
  bearer-token authentication with expiry, token rotation, heartbeats, the fleet listing, SSH
  targets, and the batched observation insert.

  Random tokens and fresh ids are arguments of the calls that draw them. A token is stored as its
  digest, \<open>ce_hash\<close>. \<open>authenticate\<close> compares instants, not texts: the timestamp parser and the
  clock reading are parameters.
\<close>

section \<open>Requests and answers\<close>

record register_request =
  rq_name :: string
  rq_environment :: string
  rq_metadata :: json

record agent_credentials =
  cr_agent_id :: string
  cr_token :: string
  cr_expires_at :: "string option"

record agent_record =
  ar_id :: string
  ar_name :: string
  ar_environment :: string
  ar_token_hash :: string

datatype agent_health = Healthy | Degraded | Unhealthy

record heartbeat_request =
  hb_status :: agent_health
  hb_managed :: "32 word"
  hb_open_drifts :: "32 word"
  hb_last_observe_at :: "string option"

record observation_item =
  oi_resource_id :: resource_id
  oi_observed_at :: string
  oi_present :: bool
  oi_spec :: json
  oi_facts :: json

record agent_summary =
  sm_agent_id :: string
  sm_name :: string
  sm_environment :: string
  sm_registered_at :: string
  sm_last_heartbeat_at :: "string option"
  sm_last_observation_at :: "string option"
  sm_open_drifts :: int
  sm_managed :: int
  sm_status :: agent_health
  sm_kind :: string

section \<open>Registration and tokens\<close>

text \<open>The largest number of seconds a span of the time library holds; a larger one panics. The
  TTL is a \<open>u64\<close> read as an \<open>i64\<close>.\<close>

definition span_seconds_max :: int where
  "span_seconds_max = 631107417600"

definition agent_token_expiry :: "call_env \<Rightarrow> 64 word option \<Rightarrow> string option api_result" where
  "agent_token_expiry E ttl =
     (case ttl of
        None \<Rightarrow> Inr None
      | Some w \<Rightarrow>
          if span_seconds_max < \<bar>sint w\<bar> then Inl Panic
          else Inr (Some (case ce_after E (sint w) of Some t \<Rightarrow> t | None \<Rightarrow> ce_now E)))"

definition jttl :: "64 word option \<Rightarrow> json" where
  "jttl ttl = (case ttl of None \<Rightarrow> JNull | Some w \<Rightarrow> jnat (unat w))"

definition insert_agent :: "agent_row \<Rightarrow> db \<Rightarrow> db option" where
  "insert_agent row d =
     (if ag_id row \<in> ag_id ` set (db_agents d) \<or> ag_name row \<in> ag_name ` set (db_agents d) then None
      else Some (d\<lparr>db_agents := db_agents d @ [row]\<rparr>))"

definition new_agent_row :: "string \<Rightarrow> string \<Rightarrow> string \<Rightarrow> string \<Rightarrow> string \<Rightarrow> string \<Rightarrow> string option \<Rightarrow> string \<Rightarrow> agent_row" where
  "new_agent_row aid name environment token_hash now metadata expires kind =
     \<lparr>ag_id = aid, ag_name = name, ag_environment = environment, ag_token_hash = token_hash,
      ag_registered_at = now, ag_last_heartbeat_at = None, ag_last_observation_at = None,
      ag_last_status = ''healthy'', ag_last_managed = 0, ag_last_open_drifts = 0,
      ag_metadata_json = metadata, ag_token_expires_at = expires, ag_kind = kind\<rparr>"

definition register_agent ::
    "call_env \<Rightarrow> string \<Rightarrow> string \<Rightarrow> register_request \<Rightarrow> 64 word option \<Rightarrow> agent_credentials tx" where
  "register_agent E ulid token req ttl d =
     (if rq_name req = [] \<or> rq_environment req = []
      then Inl (BadRequest (Msg ''name and environment must be non-empty'' []))
      else
        bindE (agent_token_expiry E ttl) (\<lambda>expires_at.
          case insert_agent (new_agent_row ulid (rq_name req) (rq_environment req) (ce_hash E token) (ce_now E)
                 (to_str (ce_serde E) (rq_metadata req)) expires_at ''pull'') d of
            None \<Rightarrow> Inl (Conflict (Msg ''agent name {} already taken'' [rq_name req]))
          | Some d' \<Rightarrow>
              Inr (audited E (audit_payload (jobject [(''name'', JStr (rq_name req)),
                        (''environment'', JStr (rq_environment req)), (''token_ttl_secs'', jttl ttl)])
                      (audit_agent ulid (audit_new ''system'' ''agent.registered''))) d',
                   \<lparr>cr_agent_id = ulid, cr_token = token, cr_expires_at = expires_at\<rparr>)))"

definition rotate_agent_token :: "call_env \<Rightarrow> string \<Rightarrow> string \<Rightarrow> 64 word option \<Rightarrow> agent_credentials tx" where
  "rotate_agent_token E new_token agent_id ttl d =
     bindE (agent_token_expiry E ttl) (\<lambda>expires_at.
       if rows_affected (\<lambda>a. ag_id a = agent_id) (db_agents d) = 0 then Inl NotFound
       else Inr (audited E (audit_payload (jobject [(''token_ttl_secs'', jttl ttl), (''rotated_at'', JStr (ce_now E))])
                   (audit_agent agent_id (audit_new (''agent:'' @ agent_id) ''agent.token_rotated'')))
                 (d\<lparr>db_agents := update_where (\<lambda>a. ag_id a = agent_id)
                      (\<lambda>a. a\<lparr>ag_token_hash := ce_hash E new_token, ag_token_expires_at := expires_at\<rparr>) (db_agents d)\<rparr>),
               \<lparr>cr_agent_id = agent_id, cr_token = new_token, cr_expires_at = expires_at\<rparr>))"

text \<open>\<open>None\<close> never expires; a text that does not parse counts as expired.\<close>

definition token_live :: "(string \<Rightarrow> int option) \<Rightarrow> int \<Rightarrow> string option \<Rightarrow> bool" where
  "token_live parse_ts now expires =
     (case expires of
        None \<Rightarrow> True
      | Some text \<Rightarrow> (case parse_ts text of Some exp \<Rightarrow> now < exp | None \<Rightarrow> False))"

definition authenticate ::
    "(string \<Rightarrow> string) \<Rightarrow> (string \<Rightarrow> int option) \<Rightarrow> int \<Rightarrow> string \<Rightarrow> string \<Rightarrow> db \<Rightarrow> agent_record api_result" where
  "authenticate H parse_ts now agent_id token d =
     (case find (\<lambda>a. ag_id a = agent_id) (db_agents d) of
        None \<Rightarrow> Inl Unauthorized
      | Some a \<Rightarrow>
          if \<not> ct_eq (H token) (ag_token_hash a) then Inl Unauthorized
          else if \<not> token_live parse_ts now (ag_token_expires_at a) then Inl Unauthorized
          else Inr \<lparr>ar_id = ag_id a, ar_name = ag_name a, ar_environment = ag_environment a,
                    ar_token_hash = ag_token_hash a\<rparr>)"

section \<open>Heartbeats and the fleet\<close>

fun health_text :: "agent_health \<Rightarrow> string" where
  "health_text Healthy = ''healthy''"
| "health_text Degraded = ''degraded''"
| "health_text Unhealthy = ''unhealthy''"

definition parse_health :: "string \<Rightarrow> agent_health" where
  "parse_health s = (if s = ''degraded'' then Degraded else if s = ''unhealthy'' then Unhealthy else Healthy)"

definition record_heartbeat :: "call_env \<Rightarrow> string \<Rightarrow> heartbeat_request \<Rightarrow> unit tx" where
  "record_heartbeat E agent_id hb d =
     Inr (d\<lparr>db_agents := update_where (\<lambda>a. ag_id a = agent_id)
            (\<lambda>a. a\<lparr>ag_last_heartbeat_at := Some (ce_now E), ag_last_status := health_text (hb_status hb),
                   ag_last_managed := int (unat (hb_managed hb)),
                   ag_last_open_drifts := int (unat (hb_open_drifts hb))\<rparr>) (db_agents d)\<rparr>, ())"

definition agent_summary_of :: "agent_row \<Rightarrow> agent_summary" where
  "agent_summary_of a =
     \<lparr>sm_agent_id = ag_id a, sm_name = ag_name a, sm_environment = ag_environment a,
      sm_registered_at = ag_registered_at a, sm_last_heartbeat_at = ag_last_heartbeat_at a,
      sm_last_observation_at = ag_last_observation_at a, sm_open_drifts = ag_last_open_drifts a,
      sm_managed = ag_last_managed a, sm_status = parse_health (ag_last_status a), sm_kind = ag_kind a\<rparr>"

text \<open>\<open>ORDER BY registered_at DESC\<close>; rows of one instant keep the table's order reversed, which
  the statement leaves open.\<close>

definition list_agents :: "db \<Rightarrow> agent_summary list" where
  "list_agents d = map agent_summary_of (rev (sort_key ag_registered_at (db_agents d)))"

definition upsert_ssh_target :: "call_env \<Rightarrow> string \<Rightarrow> string \<Rightarrow> string \<Rightarrow> string tx" where
  "upsert_ssh_target E ulid name environment d =
     (case find (\<lambda>a. ag_name a = name \<and> ag_environment a = environment \<and> ag_kind a = ''ssh'') (db_agents d) of
        Some a \<Rightarrow> Inr (d, ag_id a)
      | None \<Rightarrow>
          (case insert_agent (new_agent_row ulid name environment [] (ce_now E) ''{}'' None ''ssh'') d of
             None \<Rightarrow> Inl (Sqlx ''UNIQUE constraint failed: agents.name'')
           | Some d' \<Rightarrow> Inr (d', ulid)))"

section \<open>Observations\<close>

definition batch_size :: nat where
  "batch_size = 100"

text \<open>\<open>slice::chunks\<close>.\<close>

function chunks :: "nat \<Rightarrow> 'a list \<Rightarrow> 'a list list" where
  "chunks n xs = (if xs = [] \<or> n = 0 then [] else take n xs # chunks n (drop n xs))"
  by pat_completeness auto
termination by (relation "measure (\<lambda>(n, xs). length xs)") auto

declare chunks.simps [simp del]

definition observation_of :: "call_env \<Rightarrow> string \<Rightarrow> int \<Rightarrow> observation_item \<Rightarrow> observation_row" where
  "observation_of E agent_id rowid item =
     \<lparr>ob_id = rowid, ob_agent_id = agent_id, ob_resource_id = resource_id_to_string (oi_resource_id item),
      ob_kind = ri_kind (oi_resource_id item), ob_observed_at = oi_observed_at item, ob_present = oi_present item,
      ob_spec_json = to_str (ce_serde E) (oi_spec item), ob_facts_json = to_str (ce_serde E) (oi_facts item),
      ob_received_at = ce_now E\<rparr>"

text \<open>One multi-row insert: the rows take consecutive ids, and the statement fails as a whole when
  the agent does not exist.\<close>

fun observation_rows :: "call_env \<Rightarrow> string \<Rightarrow> int \<Rightarrow> observation_item list \<Rightarrow> observation_row list" where
  "observation_rows E agent_id seq [] = []"
| "observation_rows E agent_id seq (item # items) =
     observation_of E agent_id (seq + 1) item # observation_rows E agent_id (seq + 1) items"

definition insert_observations :: "call_env \<Rightarrow> string \<Rightarrow> observation_item list \<Rightarrow> db \<Rightarrow> db api_result" where
  "insert_observations E agent_id items d =
     (if agent_id \<notin> ag_id ` set (db_agents d) then Inl (Sqlx ''FOREIGN KEY constraint failed'')
      else Inr (d\<lparr>db_observations := db_observations d @ observation_rows E agent_id (db_observations_seq d) items,
            db_observations_seq := db_observations_seq d + int (length items)\<rparr>))"

fun insert_chunks :: "call_env \<Rightarrow> string \<Rightarrow> observation_item list list \<Rightarrow> db \<Rightarrow> db api_result" where
  "insert_chunks E agent_id [] d = Inr d"
| "insert_chunks E agent_id (c # cs) d = bindE (insert_observations E agent_id c d) (insert_chunks E agent_id cs)"

definition record_observations :: "call_env \<Rightarrow> string \<Rightarrow> observation_item list \<Rightarrow> nat tx" where
  "record_observations E agent_id items d =
     (if items = [] then Inr (d, 0)
      else bindE (insert_chunks E agent_id (chunks batch_size items) d) (\<lambda>d1.
        Inr (d1\<lparr>db_agents := update_where (\<lambda>a. ag_id a = agent_id)
                (\<lambda>a. a\<lparr>ag_last_observation_at := Some (ce_now E)\<rparr>) (db_agents d1)\<rparr>,
             min (length items) (2 ^ 32 - 1))))"

section \<open>Authentication\<close>

text \<open>The keys of the agent table.\<close>

definition agents_inv :: "db \<Rightarrow> bool" where
  "agents_inv d \<longleftrightarrow> distinct (map ag_id (db_agents d)) \<and> distinct (map ag_name (db_agents d))"

lemma authenticate_cases:
  obtains (unknown) "agent \<notin> ag_id ` set (db_agents d)" "authenticate H p now agent t d = Inl Unauthorized"
  | (known) a where "a \<in> set (db_agents d)" "ag_id a = agent" "find (\<lambda>a. ag_id a = agent) (db_agents d) = Some a"
proof (cases "find (\<lambda>a. ag_id a = agent) (db_agents d)")
  case None
  then have "authenticate H p now agent t d = Inl Unauthorized" by (simp add: authenticate_def)
  with None show thesis by (intro unknown) (auto simp: find_None_iff)
next
  case (Some a)
  then show thesis by (intro known [of a]) (auto simp: find_Some_iff)
qed

lemma authenticate_found:
  "find (\<lambda>a. ag_id a = agent) (db_agents d) = Some a \<Longrightarrow> authenticate H p now agent t d =
     (if H t = ag_token_hash a \<and> token_live p now (ag_token_expires_at a)
      then Inr \<lparr>ar_id = ag_id a, ar_name = ag_name a, ar_environment = ag_environment a, ar_token_hash = ag_token_hash a\<rparr>
      else Inl Unauthorized)"
  by (simp add: authenticate_def)

lemma authenticate_cong:
  "find (\<lambda>a. ag_id a = agent) (db_agents d') = find (\<lambda>a. ag_id a = agent) (db_agents d)
     \<Longrightarrow> authenticate H p now agent t d' = authenticate H p now agent t d"
  by (simp add: authenticate_def)

lemma find_append: "find P (xs @ ys) = (case find P xs of None \<Rightarrow> find P ys | Some x \<Rightarrow> Some x)"
  by (induction xs) auto

lemma find_update_where_key:
  assumes "\<And>r. key (f r) = key r"
  shows "find (\<lambda>r. key r = k) (update_where (\<lambda>r. key r = m) f rows)
    = map_option (if k = m then f else (\<lambda>r. r)) (find (\<lambda>r. key r = k) rows)"
  using assms by (induction rows) (auto simp: update_where_def)

lemma insert_agent_Some:
  "insert_agent row d = Some d' \<longleftrightarrow> ag_id row \<notin> ag_id ` set (db_agents d) \<and> ag_name row \<notin> ag_name ` set (db_agents d)
     \<and> d' = d\<lparr>db_agents := db_agents d @ [row]\<rparr>"
  by (auto simp: insert_agent_def)

lemma register_result:
  assumes "register_agent E ulid token req ttl d = Inr (d', cr)"
  obtains row where "db_agents d' = db_agents d @ [row]" "row = new_agent_row ulid (rq_name req) (rq_environment req)
      (ce_hash E token) (ce_now E) (to_str (ce_serde E) (rq_metadata req)) (cr_expires_at cr) ''pull''"
    "ulid \<notin> ag_id ` set (db_agents d)" "rq_name req \<notin> ag_name ` set (db_agents d)"
    "cr_agent_id cr = ulid" "cr_token cr = token"
  using assms
  by (auto simp: register_agent_def insert_agent_Some new_agent_row_def split: if_splits option.splits elim!: bindE_InrE)

lemma rotate_result:
  assumes "rotate_agent_token E token agent ttl d = Inr (d', cr)"
  shows "db_agents d' = update_where (\<lambda>a. ag_id a = agent)
      (\<lambda>a. a\<lparr>ag_token_hash := ce_hash E token, ag_token_expires_at := cr_expires_at cr\<rparr>) (db_agents d)"
    and "agent \<in> ag_id ` set (db_agents d)"
    and "cr_token cr = token"
  using assms
  by (auto simp: rotate_agent_token_def rows_affected_zero split: if_splits elim!: bindE_InrE)


text \<open>
  Credentials round-trip. The token a registration returns authenticates its agent for as long
  as the returned expiry lies ahead, with the registered name and environment; a token with another
  digest does not; and no other agent's access changes.
\<close>

theorem register_authenticate:
  assumes "register_agent E ulid token req ttl d = Inr (d', cr)"
  shows "cr_agent_id cr = ulid \<and> cr_token cr = token
    \<and> authenticate (ce_hash E) p now ulid token d' =
        (if token_live p now (cr_expires_at cr)
         then Inr \<lparr>ar_id = ulid, ar_name = rq_name req, ar_environment = rq_environment req, ar_token_hash = ce_hash E token\<rparr>
         else Inl Unauthorized)
    \<and> (ce_hash E t \<noteq> ce_hash E token \<longrightarrow> authenticate (ce_hash E) p now ulid t d' = Inl Unauthorized)
    \<and> (agent \<noteq> ulid \<longrightarrow> authenticate H p now agent t d' = authenticate H p now agent t d)"
proof -
  obtain row where d': "db_agents d' = db_agents d @ [row]" and row: "row = new_agent_row ulid (rq_name req) (rq_environment req)
      (ce_hash E token) (ce_now E) (to_str (ce_serde E) (rq_metadata req)) (cr_expires_at cr) ''pull''"
    and new: "ulid \<notin> ag_id ` set (db_agents d)"
    and cr: "cr_agent_id cr = ulid" "cr_token cr = token"
    using assms by (rule register_result)
  have "find (\<lambda>a. ag_id a = ulid) (db_agents d) = None" using new by (auto simp: find_None_iff)
  then have f: "find (\<lambda>a. ag_id a = ulid) (db_agents d') = Some row"
    by (simp add: d' find_append row new_agent_row_def)
  have o: "find (\<lambda>a. ag_id a = agent) (db_agents d') = find (\<lambda>a. ag_id a = agent) (db_agents d)" if "agent \<noteq> ulid"
    using that by (simp add: d' find_append row new_agent_row_def split: option.splits)
  have fields: "ag_id row = ulid" "ag_name row = rq_name req" "ag_environment row = rq_environment req"
    "ag_token_hash row = ce_hash E token" "ag_token_expires_at row = cr_expires_at cr"
    by (simp_all add: row new_agent_row_def)
  show ?thesis
    by (intro conjI impI cr authenticate_cong o) (simp_all add: authenticate_found [OF f] fields)
qed

text \<open>
  Rotation replaces the credential. After an accepted rotation the new token authenticates the
  agent until the new expiry, every token with another digest, the old one included, is refused at
  once, and no other agent's access changes.
\<close>

theorem rotation_replaces:
  assumes "rotate_agent_token E token agent ttl d = Inr (d', cr)"
  shows "cr_token cr = token
    \<and> (authenticate (ce_hash E) p now agent token d' \<noteq> Inl Unauthorized \<longleftrightarrow> token_live p now (cr_expires_at cr))
    \<and> (ce_hash E t \<noteq> ce_hash E token \<longrightarrow> authenticate (ce_hash E) p now agent t d' = Inl Unauthorized)
    \<and> (other \<noteq> agent \<longrightarrow> authenticate H p now other t d' = authenticate H p now other t d)"
proof -
  note r = rotate_result [OF assms]
  have find: "find (\<lambda>a. ag_id a = k) (db_agents d') = map_option (if k = agent
      then (\<lambda>a. a\<lparr>ag_token_hash := ce_hash E token, ag_token_expires_at := cr_expires_at cr\<rparr>) else (\<lambda>a. a))
      (find (\<lambda>a. ag_id a = k) (db_agents d))" for k
    unfolding r(1) by (rule find_update_where_key) simp
  obtain a where a: "find (\<lambda>a. ag_id a = agent) (db_agents d) = Some a"
    using r(2) by (cases "find (\<lambda>a. ag_id a = agent) (db_agents d)") (auto simp: find_None_iff)
  have f: "find (\<lambda>a. ag_id a = agent) (db_agents d') = Some (a\<lparr>ag_token_hash := ce_hash E token, ag_token_expires_at := cr_expires_at cr\<rparr>)"
    by (simp add: find a)
  have o: "find (\<lambda>a. ag_id a = other) (db_agents d') = find (\<lambda>a. ag_id a = other) (db_agents d)" if "other \<noteq> agent"
    using that by (simp add: find option.map_ident)
  show ?thesis
    by (intro conjI impI r(3) authenticate_cong o) (simp_all add: authenticate_found [OF f])
qed

section \<open>The machine of agent calls\<close>

datatype agent_call =
    RegisterAgent call_env string string register_request "64 word option"
  | RotateAgentToken call_env string string "64 word option"
  | Heartbeat call_env string heartbeat_request
  | UpsertSshTarget call_env string string string
  | RecordObservations call_env string "observation_item list"

fun agent_step :: "agent_call \<Rightarrow> db \<Rightarrow> db" where
  "agent_step (RegisterAgent E ulid token req ttl) d = commit (register_agent E ulid token req ttl) d"
| "agent_step (RotateAgentToken E token agent ttl) d = commit (rotate_agent_token E token agent ttl) d"
| "agent_step (Heartbeat E agent hb) d = commit (record_heartbeat E agent hb) d"
| "agent_step (UpsertSshTarget E ulid name env) d = commit (upsert_ssh_target E ulid name env) d"
| "agent_step (RecordObservations E agent items) d = commit (record_observations E agent items) d"

lemma agents_inv_insert:
  "agents_inv d \<Longrightarrow> db_agents d' = db_agents d @ [row] \<Longrightarrow> ag_id row \<notin> ag_id ` set (db_agents d)
     \<Longrightarrow> ag_name row \<notin> ag_name ` set (db_agents d) \<Longrightarrow> agents_inv d'"
  by (simp add: agents_inv_def)

lemma agents_inv_update:
  "agents_inv d \<Longrightarrow> db_agents d' = update_where P f (db_agents d) \<Longrightarrow> (\<And>a. ag_id (f a) = ag_id a \<and> ag_name (f a) = ag_name a) \<Longrightarrow> agents_inv d'"
  using agents_t.distinct_update [of d f P] agent_names_t.distinct_update [of d f P] by (simp add: agents_inv_def)

lemma insert_chunks_agents: "insert_chunks E agent cs d = Inr d' \<Longrightarrow> db_agents d' = db_agents d"
  by (induction cs arbitrary: d) (auto simp: insert_observations_def split: if_splits elim!: bindE_InrE)

lemma agent_step_inv:
  assumes "agents_inv d"
  shows "agents_inv (agent_step c d)"
proof (cases c)
  case RegisterAgent
  show ?thesis unfolding RegisterAgent agent_step.simps
    by (rule commit_inv [where I = agents_inv, OF assms], erule register_result)
       (rule agents_inv_insert [OF assms], auto simp: new_agent_row_def)
next
  case RotateAgentToken
  show ?thesis unfolding RotateAgentToken agent_step.simps
    by (rule commit_inv [where I = agents_inv, OF assms], drule rotate_result(1)) (erule agents_inv_update [OF assms], simp)
next
  case Heartbeat
  show ?thesis unfolding Heartbeat agent_step.simps
    by (rule commit_inv [where I = agents_inv, OF assms])
       (auto simp: record_heartbeat_def intro!: agents_inv_update [OF assms])
next
  case UpsertSshTarget
  show ?thesis unfolding UpsertSshTarget agent_step.simps
    by (rule commit_inv [where I = agents_inv, OF assms])
       (auto simp: upsert_ssh_target_def insert_agent_Some new_agent_row_def assms split: option.splits intro: agents_inv_insert [OF assms])
next
  case RecordObservations
  show ?thesis unfolding RecordObservations agent_step.simps
    by (rule commit_inv [where I = agents_inv, OF assms])
       (auto simp: record_observations_def assms dest!: insert_chunks_agents split: if_splits elim!: bindE_InrE intro: agents_inv_update [OF assms])
qed

interpretation agents: machine_invariant agent_step agents_inv
  by unfold_locales (rule agent_step_inv)

section \<open>Observations\<close>

lemma concat_chunks: "0 < n \<Longrightarrow> concat (chunks n xs) = xs"
  by (induction n xs rule: chunks.induct) (subst chunks.simps, simp)

lemma chunks_bound: "c \<in> set (chunks n xs) \<Longrightarrow> c \<noteq> [] \<and> length c \<le> n"
  by (induction n xs rule: chunks.induct) (subst (asm) (2) chunks.simps, auto split: if_splits)

lemma observation_rows_append:
  "observation_rows E agent seq (xs @ ys) = observation_rows E agent seq xs @ observation_rows E agent (seq + int (length xs)) ys"
  by (induction xs arbitrary: seq) (simp_all add: ac_simps)

lemma insert_observations_append:
  "bindE (insert_observations E agent xs d) (insert_observations E agent ys) = insert_observations E agent (xs @ ys) d"
  by (simp add: insert_observations_def observation_rows_append)

lemma insert_chunks_concat:
  "agent \<in> ag_id ` set (db_agents d) \<Longrightarrow> insert_chunks E agent cs d = insert_observations E agent (concat cs) d"
proof (induction cs arbitrary: d)
  case (Cons c cs)
  then show ?case
    by (simp add: insert_observations_def observation_rows_append)
qed (simp add: insert_observations_def)

text \<open>
  Batching is invisible. Recording a non-empty batch of observations in statements of at most a
  hundred rows leaves the table one row-by-row insert of the whole batch would leave, in the order
  reported and with consecutive ids, stamps the agent, and answers the number of items, capped at
  the largest \<open>u32\<close>; for an unknown agent nothing is stored.
\<close>

theorem record_observations_sequential:
  assumes "items \<noteq> []"
  shows "record_observations E agent items d =
    (if agent \<notin> ag_id ` set (db_agents d) then Inl (Sqlx ''FOREIGN KEY constraint failed'')
     else Inr (d\<lparr>db_observations := db_observations d @ observation_rows E agent (db_observations_seq d) items,
                 db_observations_seq := db_observations_seq d + int (length items),
                 db_agents := update_where (\<lambda>a. ag_id a = agent) (\<lambda>a. a\<lparr>ag_last_observation_at := Some (ce_now E)\<rparr>) (db_agents d)\<rparr>,
               min (length items) 4294967295))
    \<and> (\<forall>c \<in> set (chunks batch_size items). c \<noteq> [] \<and> length c * 8 \<le> 999)"
proof -
  have c: "concat (chunks batch_size items) = items" by (rule concat_chunks) (simp add: batch_size_def)
  obtain x xs where ch: "chunks batch_size items = x # xs"
    using c assms by (cases "chunks batch_size items") auto
  have "record_observations E agent items d = (if agent \<notin> ag_id ` set (db_agents d) then Inl (Sqlx ''FOREIGN KEY constraint failed'')
     else Inr (d\<lparr>db_observations := db_observations d @ observation_rows E agent (db_observations_seq d) items,
                 db_observations_seq := db_observations_seq d + int (length items),
                 db_agents := update_where (\<lambda>a. ag_id a = agent) (\<lambda>a. a\<lparr>ag_last_observation_at := Some (ce_now E)\<rparr>) (db_agents d)\<rparr>,
               min (length items) 4294967295))"
  proof (cases "agent \<in> ag_id ` set (db_agents d)")
    case True
    then show ?thesis using assms by (simp add: record_observations_def insert_chunks_concat c) (simp add: insert_observations_def)
  next
    case False
    then show ?thesis using assms by (simp add: record_observations_def ch insert_observations_def)
  qed
  moreover have "length y * 8 \<le> 999" if "y \<in> set (chunks batch_size items)" for y
    using chunks_bound [OF that] by (simp add: batch_size_def)
  ultimately show ?thesis using chunks_bound by blast
qed

section \<open>Instances\<close>

definition agent_env :: call_env where
  "agent_env = \<lparr>ce_hash = (\<lambda>x. ''h'' @ x), ce_serde = \<lparr>from_str = (\<lambda>s. Some JNull), to_str = (\<lambda>j. ''null'')\<rparr>,
     ce_now = ''t5'', ce_after = (\<lambda>_. Some ''t9''), ce_audit_now = ''t5'', ce_lease = None,
     ce_fault = (\<lambda>_. None)\<rparr>"

definition sample_ts :: "string \<Rightarrow> int option" where
  "sample_ts t = (if t = ''t9'' then Some 9 else None)"

definition sample_request :: register_request where
  "sample_request = \<lparr>rq_name = ''vm2'', rq_environment = ''prod'', rq_metadata = JNull\<rparr>"


theorem register_authenticate_witness:
  "\<exists>d' cr. register_agent agent_env ''a2'' ''tok'' sample_request (Some 3) sample_fleet = Inr (d', cr)
     \<and> authenticate (ce_hash agent_env) sample_ts 5 ''a2'' ''tok'' d' =
         Inr \<lparr>ar_id = ''a2'', ar_name = ''vm2'', ar_environment = ''prod'', ar_token_hash = ''htok''\<rparr>
     \<and> authenticate (ce_hash agent_env) sample_ts 9 ''a2'' ''tok'' d' = Inl Unauthorized"
proof -
  have "map_sum id (\<lambda>(d, cr). cr_expires_at cr) (register_agent agent_env ''a2'' ''tok'' sample_request (Some 3) sample_fleet)
      = Inr (Some ''t9'')"
    by (simp add: register_agent_def agent_token_expiry_def span_seconds_max_def sample_request_def insert_agent_def
        new_agent_row_def sample_fleet_def sample_agent_def empty_db_def) (simp add: agent_env_def)
  then obtain d' cr where r: "register_agent agent_env ''a2'' ''tok'' sample_request (Some 3) sample_fleet = Inr (d', cr)"
    and e: "cr_expires_at cr = Some ''t9''"
    by (cases "register_agent agent_env ''a2'' ''tok'' sample_request (Some 3) sample_fleet") auto
  show ?thesis
    using r register_authenticate [OF r, of sample_ts 5 "''x''"] register_authenticate [OF r, of sample_ts 9 "''x''"]
    by (simp add: e token_live_def sample_ts_def sample_request_def agent_env_def)
qed

theorem rotation_replaces_witness:
  "\<exists>d' cr. rotate_agent_token agent_env ''new'' ''a1'' (Some 3) sample_fleet = Inr (d', cr)
     \<and> authenticate (ce_hash agent_env) sample_ts 5 ''a1'' ''1'' sample_fleet \<noteq> Inl Unauthorized
     \<and> authenticate (ce_hash agent_env) sample_ts 5 ''a1'' ''1'' d' = Inl Unauthorized"
proof -
  have "\<not> isl (rotate_agent_token agent_env ''new'' ''a1'' (Some 3) sample_fleet)"
    by (simp add: rotate_agent_token_def agent_token_expiry_def span_seconds_max_def rows_affected_def sample_fleet_def
        sample_agent_def)
  then obtain d' cr where r: "rotate_agent_token agent_env ''new'' ''a1'' (Some 3) sample_fleet = Inr (d', cr)"
    by (cases "rotate_agent_token agent_env ''new'' ''a1'' (Some 3) sample_fleet") auto
  have "\<not> isl (authenticate (ce_hash agent_env) sample_ts 5 ''a1'' ''1'' sample_fleet)" by code_simp
  then show ?thesis
    using r rotation_replaces [OF r, of sample_ts 5 "''1''"] by (force simp: agent_env_def)
qed

theorem record_observations_witness:
  "record_observations agent_env ''nobody''
     [\<lparr>oi_resource_id = \<lparr>ri_kind = ''file'', ri_environment = ''prod'', ri_name = ''x''\<rparr>, oi_observed_at = ''t4'',
       oi_present = True, oi_spec = JNull, oi_facts = JNull\<rparr>] sample_fleet = Inl (Sqlx ''FOREIGN KEY constraint failed'')"
  using record_observations_sequential
    [of "[\<lparr>oi_resource_id = \<lparr>ri_kind = ''file'', ri_environment = ''prod'', ri_name = ''x''\<rparr>, oi_observed_at = ''t4'',
       oi_present = True, oi_spec = JNull, oi_facts = JNull\<rparr>]" agent_env "''nobody''" sample_fleet]
  by (simp add: sample_fleet_def sample_agent_def empty_db_def)

end
