(* ===== verification/Users.thy ===== *)
theory Users
  imports Store_Db
begin

text \<open>
  Users, their tokens and the role check: the RBAC part of \<open>store.rs\<close> (\<open>create_user\<close> to
  \<open>ensure_active_admin_remains\<close>) and the token chain of \<open>identity.rs\<close> (\<open>resolve\<close>,
  \<open>require_role\<close>). Argon2 is a parameter: \<open>verify\<close> is \<open>verify_password\<close>, and a freshly salted
  hash (or its failure) is an argument of the calls that store one. Random tokens are arguments;
  what is stored is their SHA-256.

  The lemmas show that no sequence of calls removes the last active admin, that a session token
  identifies exactly the user it was issued for until it expires, is revoked or rotated, and that
  disabling a user or resetting a password ends all sessions.
\<close>

section \<open>Operations\<close>

definition insert_user :: "user_row \<Rightarrow> db \<Rightarrow> db option" where
  "insert_user row d =
     (if us_id row \<in> us_id ` set (db_users d) \<or> us_username row \<in> us_username ` set (db_users d) then None
      else Some (d\<lparr>db_users := db_users d @ [row]\<rparr>))"

definition create_user :: "call_env \<Rightarrow> string \<Rightarrow> string option \<Rightarrow> string \<Rightarrow> string \<Rightarrow> role list \<Rightarrow> string tx" where
  "create_user E uid phc username password roles d =
     (if username = [] \<or> password = []
      then Inl (BadRequest (Msg ''username and password must be non-empty'' []))
      else
        bindE (ok_or phc (Internal (Msg ''argon2 hash: {e}'' []))) (\<lambda>h.
          case insert_user \<lparr>us_id = uid, us_username = username, us_password_hash = h, us_roles = roles,
                            us_created_at = ce_now E, us_disabled_at = None\<rparr> d of
            Some d' \<Rightarrow> Inr (d', uid)
          | None \<Rightarrow> Inl (Conflict (Msg ''user {:?} already exists'' [username]))))"

definition insert_token :: "token_row \<Rightarrow> db \<Rightarrow> db api_result" where
  "insert_token row d =
     (if ut_token_hash row \<in> ut_token_hash ` set (db_tokens d)
      then Inl (Sqlx ''UNIQUE constraint failed: user_tokens.token_hash'')
      else Inr (d\<lparr>db_tokens := db_tokens d @ [row]\<rparr>))"

definition token_expiry :: "call_env \<Rightarrow> int \<Rightarrow> string api_result" where
  "token_expiry E ttl = ok_or (ce_after E ttl) (Internal (Msg ''ttl arithmetic: {e}'' []))"

definition user_record_of :: "user_row \<Rightarrow> user_record" where
  "user_record_of u = \<lparr>ur_id = us_id u, ur_username = us_username u, ur_roles = us_roles u\<rparr>"

text \<open>A login reads the user, checks the password and inserts the token. The \<open>SELECT\<close> and the \<open>INSERT\<close>
  are two statements without a transaction around them: \<open>login_check\<close> is the one, \<open>login_issue\<close> the
  other, and \<open>login\<close> both with no other call in between. \<open>verify\<close> is \<open>verify_password\<close>, which answers
  \<open>Ok(false)\<close> to a hash it cannot parse and never an error.\<close>

definition login_check :: "(string \<Rightarrow> string \<Rightarrow> bool) \<Rightarrow> string \<Rightarrow> string \<Rightarrow> db \<Rightarrow> user_row api_result" where
  "login_check verify username password d =
     (case find (\<lambda>u. us_username u = username) (db_users d) of
        None \<Rightarrow> Inl Unauthorized
      | Some u \<Rightarrow>
          if us_disabled_at u \<noteq> None then Inl Unauthorized
          else if \<not> verify password (us_password_hash u) then Inl Unauthorized
          else Inr u)"

definition login_issue :: "call_env \<Rightarrow> string \<Rightarrow> user_row \<Rightarrow> int \<Rightarrow> (string \<times> string \<times> user_record) tx" where
  "login_issue E new_token u ttl d =
     bindE (token_expiry E ttl) (\<lambda>expires.
     bindE (insert_token \<lparr>ut_token_hash = ce_hash E new_token, ut_user_id = us_id u,
                          ut_issued_at = ce_now E, ut_expires_at = expires\<rparr> d) (\<lambda>d'.
       Inr (d', (new_token, expires, user_record_of u))))"

definition login ::
    "call_env \<Rightarrow> (string \<Rightarrow> string \<Rightarrow> bool) \<Rightarrow> string \<Rightarrow> string \<Rightarrow> string \<Rightarrow> int \<Rightarrow> (string \<times> string \<times> user_record) tx" where
  "login E verify new_token username password ttl d =
     bindE (login_check verify username password d) (\<lambda>u. login_issue E new_token u ttl d)"

lemmas login_defs = login_def login_check_def login_issue_def

text \<open>\<open>FROM user_tokens t JOIN users u ON u.id = t.user_id WHERE t.token_hash = ? AND t.expires_at > ?\<close>.\<close>

definition live_token :: "string \<Rightarrow> string \<Rightarrow> db \<Rightarrow> user_row option" where
  "live_token token_hash now d =
     Option.bind (find (\<lambda>t. ut_token_hash t = token_hash \<and> now < ut_expires_at t) (db_tokens d))
       (\<lambda>t. find (\<lambda>u. us_id u = ut_user_id t) (db_users d))"

definition refresh_user_token :: "call_env \<Rightarrow> string \<Rightarrow> string \<Rightarrow> int \<Rightarrow> (string \<times> string \<times> user_record) tx" where
  "refresh_user_token E new_token token ttl d =
     (let old_hash = ce_hash E token in
      case live_token old_hash (ce_now E) d of
        None \<Rightarrow> Inl Unauthorized
      | Some u \<Rightarrow>
          if us_disabled_at u \<noteq> None then Inl Unauthorized
          else
            bindE (token_expiry E ttl) (\<lambda>expires.
              let d1 = d\<lparr>db_tokens := filter (\<lambda>t. ut_token_hash t \<noteq> old_hash) (db_tokens d)\<rparr>
              in if rows_affected (\<lambda>t. ut_token_hash t = old_hash) (db_tokens d) \<noteq> 1 then Inl Unauthorized
                 else bindE (insert_token \<lparr>ut_token_hash = ce_hash E new_token, ut_user_id = us_id u,
                                           ut_issued_at = ce_now E, ut_expires_at = expires\<rparr> d1) (\<lambda>d2.
                        Inr (d2, (new_token, expires, user_record_of u)))))"

definition find_user_by_token :: "call_env \<Rightarrow> string \<Rightarrow> db \<Rightarrow> user_record option" where
  "find_user_by_token E token d =
     (case live_token (ce_hash E token) (ce_now E) d of
        None \<Rightarrow> None
      | Some u \<Rightarrow> if us_disabled_at u \<noteq> None then None else Some (user_record_of u))"

definition revoke_user_token :: "call_env \<Rightarrow> string \<Rightarrow> unit tx" where
  "revoke_user_token E token d =
     Inr (d\<lparr>db_tokens := filter (\<lambda>t. ut_token_hash t \<noteq> ce_hash E token) (db_tokens d)\<rparr>, ())"

definition prune_expired_tokens :: "call_env \<Rightarrow> nat tx" where
  "prune_expired_tokens E d =
     Inr (d\<lparr>db_tokens := filter (\<lambda>t. \<not> ut_expires_at t \<le> ce_now E) (db_tokens d)\<rparr>,
          rows_affected (\<lambda>t. ut_expires_at t \<le> ce_now E) (db_tokens d))"

definition user_count :: "db \<Rightarrow> nat" where
  "user_count d = length (db_users d)"

record user_list_row =
  ul_id :: string
  ul_username :: string
  ul_roles :: "role list"
  ul_created_at :: string
  ul_disabled_at :: "string option"

definition list_users :: "db \<Rightarrow> user_list_row list" where
  "list_users d = map (\<lambda>u. \<lparr>ul_id = us_id u, ul_username = us_username u, ul_roles = us_roles u,
       ul_created_at = us_created_at u, ul_disabled_at = us_disabled_at u\<rparr>) (sort_key us_created_at (db_users d))"

section \<open>The admin guard\<close>

datatype proposed_change = Disable | SetRoles "role list"

definition active_admin :: "string option \<Rightarrow> role list \<Rightarrow> bool" where
  "active_admin disabled roles \<longleftrightarrow> disabled = None \<and> Admin \<in> set roles"

fun effective :: "proposed_change \<Rightarrow> user_row \<Rightarrow> bool \<times> role list" where
  "effective Disable u = (True, us_roles u)"
| "effective (SetRoles new_roles) u = (us_disabled_at u \<noteq> None, new_roles)"

fun count_admins :: "string \<Rightarrow> proposed_change \<Rightarrow> user_row list \<Rightarrow> nat \<times> nat \<Rightarrow> nat \<times> nat" where
  "count_admins target change [] acc = acc"
| "count_admins target change (u # us) (before, after) =
     (let currently_disabled = (us_disabled_at u \<noteq> None);
          before' = (if \<not> currently_disabled \<and> Admin \<in> set (us_roles u) then before + 1 else before);
          (eff_disabled, eff_roles) =
            (if us_id u = target then effective change u else (currently_disabled, us_roles u));
          after' = (if \<not> eff_disabled \<and> Admin \<in> set eff_roles then after + 1 else after)
      in count_admins target change us (before', after'))"

definition ensure_active_admin_remains :: "string \<Rightarrow> proposed_change \<Rightarrow> db \<Rightarrow> unit api_result" where
  "ensure_active_admin_remains target change d =
     (case count_admins target change (db_users d) (0, 0) of
        (before, after) \<Rightarrow>
          if before > 0 \<and> after = 0
          then Inl (Conflict (Msg ''refusing change: at least one active admin must remain'' []))
          else Inr ())"

definition update_user_roles :: "string \<Rightarrow> role list \<Rightarrow> unit tx" where
  "update_user_roles uid roles d =
     bindE (ensure_active_admin_remains uid (SetRoles roles) d) (\<lambda>_.
       if rows_affected (\<lambda>u. us_id u = uid) (db_users d) = 0 then Inl NotFound
       else Inr (d\<lparr>db_users := update_where (\<lambda>u. us_id u = uid) (\<lambda>u. u\<lparr>us_roles := roles\<rparr>) (db_users d)\<rparr>, ()))"

definition disable_user :: "call_env \<Rightarrow> string \<Rightarrow> unit tx" where
  "disable_user E uid d =
     bindE (ensure_active_admin_remains uid Disable d) (\<lambda>_.
       let hit = (\<lambda>u. us_id u = uid \<and> us_disabled_at u = None)
       in if rows_affected hit (db_users d) = 0 then Inl NotFound
          else Inr (d\<lparr>db_users := update_where hit (\<lambda>u. u\<lparr>us_disabled_at := Some (ce_now E)\<rparr>) (db_users d),
                      db_tokens := filter (\<lambda>t. ut_user_id t \<noteq> uid) (db_tokens d)\<rparr>, ()))"

definition enable_user :: "string \<Rightarrow> unit tx" where
  "enable_user uid d =
     (let hit = (\<lambda>u. us_id u = uid \<and> us_disabled_at u \<noteq> None)
      in if rows_affected hit (db_users d) = 0 then Inl NotFound
         else Inr (d\<lparr>db_users := update_where hit (\<lambda>u. u\<lparr>us_disabled_at := None\<rparr>) (db_users d)\<rparr>, ()))"

definition set_user_password :: "string option \<Rightarrow> string \<Rightarrow> string \<Rightarrow> unit tx" where
  "set_user_password phc uid new_password d =
     (if new_password = [] then Inl (BadRequest (Msg ''password must not be empty'' []))
      else bindE (ok_or phc (Internal (Msg ''argon2 hash: {e}'' []))) (\<lambda>h.
        if rows_affected (\<lambda>u. us_id u = uid) (db_users d) = 0 then Inl NotFound
        else Inr (d\<lparr>db_users := update_where (\<lambda>u. us_id u = uid) (\<lambda>u. u\<lparr>us_password_hash := h\<rparr>) (db_users d),
                    db_tokens := filter (\<lambda>t. ut_user_id t \<noteq> uid) (db_tokens d)\<rparr>, ())))"

section \<open>The token chain\<close>

definition resolve :: "call_env \<Rightarrow> string option \<Rightarrow> string \<Rightarrow> db \<Rightarrow> identity api_result" where
  "resolve E admin_token token d =
     (let user = (case find_user_by_token E token d of
                    Some u \<Rightarrow> Inr (IdUser (ur_id u) (ur_username u) (ur_roles u))
                  | None \<Rightarrow> Inl Unauthorized)
      in case admin_token of
           Some expected \<Rightarrow> if ct_eq (ce_hash E token) (ce_hash E expected) then Inr LegacyAdmin else user
         | None \<Rightarrow> user)"

definition require_role :: "call_env \<Rightarrow> string option \<Rightarrow> string \<Rightarrow> role \<Rightarrow> db \<Rightarrow> identity api_result" where
  "require_role E admin_token token required d =
     bindE (resolve E admin_token token d) (\<lambda>identity.
       if has_role identity required then Inr identity else Inl Forbidden)"

section \<open>No call removes the last admin\<close>

definition admin_row :: "user_row \<Rightarrow> bool" where
  "admin_row u \<longleftrightarrow> us_disabled_at u = None \<and> Admin \<in> set (us_roles u)"

definition has_active_admin :: "db \<Rightarrow> bool" where
  "has_active_admin d \<longleftrightarrow> (\<exists>u \<in> set (db_users d). admin_row u)"

definition changed :: "string \<Rightarrow> proposed_change \<Rightarrow> user_row \<Rightarrow> user_row" where
  "changed target change u =
     (if us_id u = target
      then (case change of Disable \<Rightarrow> u\<lparr>us_disabled_at := Some []\<rparr> | SetRoles rs \<Rightarrow> u\<lparr>us_roles := rs\<rparr>)
      else u)"

lemma count_admins_eq:
  "count_admins target change us (b, a) =
     (b + length (filter admin_row us), a + length (filter (\<lambda>u. admin_row (changed target change u)) us))"
  by (induction us arbitrary: a b; cases change)
     (auto simp: admin_row_def changed_def Let_def split: if_splits)

lemma guard_iff:
  "ensure_active_admin_remains target change d = Inr () \<longleftrightarrow>
     (has_active_admin d \<longrightarrow> (\<exists>u \<in> set (db_users d). admin_row (changed target change u)))"
  by (auto simp: ensure_active_admin_remains_def count_admins_eq has_active_admin_def filter_empty_conv)

lemma guard_refuses:
  "ensure_active_admin_remains target change d \<noteq> Inr () \<Longrightarrow> \<exists>m. ensure_active_admin_remains target change d = Inl (Conflict m)"
  by (auto simp: ensure_active_admin_remains_def split: prod.splits if_splits)

lemma update_roles_admin:
  assumes "has_active_admin d" "update_user_roles uid roles d = Inr (d', r)"
  shows "has_active_admin d'"
proof -
  from assms(2) have g: "ensure_active_admin_remains uid (SetRoles roles) d = Inr ()"
    and d': "d' = d\<lparr>db_users := update_where (\<lambda>u. us_id u = uid) (\<lambda>u. u\<lparr>us_roles := roles\<rparr>) (db_users d)\<rparr>"
    by (auto simp: update_user_roles_def bindE_Inr_iff split: if_splits)
  from g assms(1) obtain u where "u \<in> set (db_users d)" "admin_row (changed uid (SetRoles roles) u)"
    by (auto simp: guard_iff)
  then have "changed uid (SetRoles roles) u \<in> set (db_users d')"
    by (simp add: d' set_update_where changed_def)
  with \<open>admin_row (changed uid (SetRoles roles) u)\<close> show ?thesis unfolding has_active_admin_def by blast
qed

lemma disable_admin:
  assumes "has_active_admin d" "disable_user E uid d = Inr (d', r)"
  shows "has_active_admin d'"
proof -
  from assms(2) have g: "ensure_active_admin_remains uid Disable d = Inr ()"
    and d': "db_users d' = update_where (\<lambda>u. us_id u = uid \<and> us_disabled_at u = None)
      (\<lambda>u. u\<lparr>us_disabled_at := Some (ce_now E)\<rparr>) (db_users d)"
    by (auto simp: disable_user_def bindE_Inr_iff Let_def split: if_splits)
  from g assms(1) obtain u where u: "u \<in> set (db_users d)" "admin_row (changed uid Disable u)"
    by (auto simp: guard_iff)
  then have "us_id u \<noteq> uid" "admin_row u" by (auto simp: changed_def admin_row_def split: if_splits)
  with u(1) show ?thesis by (auto simp: has_active_admin_def d' set_update_where intro!: bexI [of _ u] image_eqI [of _ _ u])
qed

text \<open>What a call does to the user table: it leaves it alone, adds a row, or rewrites rows in place.\<close>

definition users_inv :: "db \<Rightarrow> bool" where
  "users_inv d \<longleftrightarrow> distinct (map us_id (db_users d)) \<and> distinct (map us_username (db_users d))
     \<and> distinct (map ut_token_hash (db_tokens d))
     \<and> (\<forall>t \<in> set (db_tokens d). \<exists>u \<in> set (db_users d). us_id u = ut_user_id t \<and> us_disabled_at u = None)"

lemma users_inv_rewrite:
  assumes inv: "users_inv d" and f: "\<And>u. us_id (f u) = us_id u \<and> us_username (f u) = us_username u"
    and tok: "distinct (map ut_token_hash ts)" "set ts \<subseteq> set (db_tokens d)"
    and live: "\<And>u t. u \<in> set (db_users d) \<Longrightarrow> t \<in> set ts \<Longrightarrow> us_id u = ut_user_id t \<Longrightarrow> P u
        \<Longrightarrow> us_disabled_at u = None \<Longrightarrow> us_disabled_at (f u) = None"
  shows "users_inv (d\<lparr>db_users := update_where P f (db_users d), db_tokens := ts\<rparr>)"
proof -
  have m: "map us_id (update_where P f (db_users d)) = map us_id (db_users d)"
    "map us_username (update_where P f (db_users d)) = map us_username (db_users d)"
    using f by (simp_all add: update_where_def)
  have "\<exists>u \<in> set (update_where P f (db_users d)). us_id u = ut_user_id t \<and> us_disabled_at u = None" if t: "t \<in> set ts" for t
  proof -
    obtain u where u: "u \<in> set (db_users d)" "us_id u = ut_user_id t" "us_disabled_at u = None"
      using inv tok(2) t unfolding users_inv_def by blast
    have "(if P u then f u else u) \<in> set (update_where P f (db_users d))" using u(1) by (simp add: set_update_where)
    moreover have "us_id (if P u then f u else u) = ut_user_id t" using f u(2) by simp
    moreover have "us_disabled_at (if P u then f u else u) = None" using live [OF u(1) t u(2)] u(3) by simp
    ultimately show ?thesis by blast
  qed
  with inv tok(1) show ?thesis by (simp add: users_inv_def m)
qed

lemma users_inv_tokens:
  assumes "users_inv d" "distinct (map ut_token_hash ts)" "set ts \<subseteq> set (db_tokens d)"
  shows "users_inv (d\<lparr>db_tokens := ts\<rparr>)"
  using assms unfolding users_inv_def by auto

lemma distinct_filter_hash: "users_inv d \<Longrightarrow> distinct (map ut_token_hash (filter P (db_tokens d)))"
  by (simp add: users_inv_def distinct_map_filter)

lemma insert_token_Inr:
  assumes "insert_token row d = Inr d'"
  shows "d' = d\<lparr>db_tokens := db_tokens d @ [row]\<rparr>" "ut_token_hash row \<notin> ut_token_hash ` set (db_tokens d)"
  using assms by (auto simp: insert_token_def split: if_splits)

lemma users_inv_login_token:
  assumes "users_inv d" "insert_token row d = Inr d'" "u \<in> set (db_users d)" "us_id u = ut_user_id row" "us_disabled_at u = None"
  shows "users_inv d'"
  using assms(1,3-) insert_token_Inr [OF assms(2)] by (auto simp: users_inv_def)

lemma login_result:
  assumes "login E verify tok name pw ttl d = Inr (d', tk, expires, rec)"
  obtains u where "u \<in> set (db_users d)" "us_username u = name" "us_disabled_at u = None" "verify pw (us_password_hash u)"
    and "insert_token \<lparr>ut_token_hash = ce_hash E tok, ut_user_id = us_id u, ut_issued_at = ce_now E, ut_expires_at = expires\<rparr> d = Inr d'"
    and "tk = tok" "rec = user_record_of u" "ce_after E ttl = Some expires"
proof -
  from assms obtain u where u: "login_check verify name pw d = Inr u" "login_issue E tok u ttl d = Inr (d', tk, expires, rec)"
    by (auto simp: login_def bindE_Inr_iff)
  from u(1) have "u \<in> set (db_users d)" "us_username u = name" "us_disabled_at u = None" "verify pw (us_password_hash u)"
    by (auto simp: login_check_def find_Some_iff split: option.splits if_splits dest: nth_mem)
  with u(2) show thesis
    by (intro that [of u]) (auto simp: login_issue_def token_expiry_def bindE_Inr_iff)
qed

lemma live_token_Some:
  assumes "live_token h now d = Some u"
  obtains t where "t \<in> set (db_tokens d)" "ut_token_hash t = h" "now < ut_expires_at t"
    "u \<in> set (db_users d)" "us_id u = ut_user_id t"
  using assms by (auto simp: live_token_def bind_eq_Some_conv find_Some_iff dest!: nth_mem)

lemma refresh_result:
  assumes "refresh_user_token E tok old ttl d = Inr (d', tk, expires, rec)"
  obtains u where "live_token (ce_hash E old) (ce_now E) d = Some u" "us_disabled_at u = None"
    and "insert_token \<lparr>ut_token_hash = ce_hash E tok, ut_user_id = us_id u, ut_issued_at = ce_now E, ut_expires_at = expires\<rparr>
       (d\<lparr>db_tokens := filter (\<lambda>t. ut_token_hash t \<noteq> ce_hash E old) (db_tokens d)\<rparr>) = Inr d'"
    and "tk = tok" "rec = user_record_of u" "ce_after E ttl = Some expires"
proof -
  note def = assms [unfolded refresh_user_token_def Let_def]
  from def obtain u where u: "live_token (ce_hash E old) (ce_now E) d = Some u"
    by (cases "live_token (ce_hash E old) (ce_now E) d") auto
  note def = def [unfolded u option.case]
  from def have dis: "us_disabled_at u = None" by (auto split: if_splits)
  then have "\<not> us_disabled_at u \<noteq> None" by simp
  note def = def [unfolded if_not_P [OF this]]
  from def obtain e where e: "token_expiry E ttl = Inr e" by (rule bindE_InrE)
  note def = def [unfolded e bindE_simps]
  from def have "\<not> rows_affected (\<lambda>t. ut_token_hash t = ce_hash E old) (db_tokens d) \<noteq> 1" by (auto split: if_splits)
  note def = def [unfolded if_not_P [OF this]]
  show thesis
    by (rule that [OF u dis]) (use def e in \<open>auto simp: bindE_Inr_iff token_expiry_def\<close>)
qed

lemma insert_token_users: "insert_token row d = Inr d' \<Longrightarrow> db_users d' = db_users d"
  by (auto simp: insert_token_def split: if_splits)

lemma login_users: "login E verify tok name pw ttl d = Inr (d', r) \<Longrightarrow> db_users d' = db_users d"
  by (cases r) (auto elim!: login_result dest: insert_token_users)

lemma refresh_users: "refresh_user_token E tok old ttl d = Inr (d', r) \<Longrightarrow> db_users d' = db_users d"
  by (cases r) (auto elim!: refresh_result dest!: insert_token_users)

datatype user_call =
    CreateUser call_env string "string option" string string "role list"
  | Login call_env "string \<Rightarrow> string \<Rightarrow> bool" string string string int
  | RefreshToken call_env string string int
  | RevokeToken call_env string
  | PruneTokens call_env
  | UpdateRoles string "role list"
  | DisableUser call_env string
  | EnableUser string
  | SetPassword "string option" string string

fun user_step :: "user_call \<Rightarrow> db \<Rightarrow> db" where
  "user_step (CreateUser E uid phc name pw roles) d = commit (create_user E uid phc name pw roles) d"
| "user_step (Login E verify tok name pw ttl) d = commit (login E verify tok name pw ttl) d"
| "user_step (RefreshToken E tok old ttl) d = commit (refresh_user_token E tok old ttl) d"
| "user_step (RevokeToken E tok) d = commit (revoke_user_token E tok) d"
| "user_step (PruneTokens E) d = commit (prune_expired_tokens E) d"
| "user_step (UpdateRoles uid roles) d = commit (update_user_roles uid roles) d"
| "user_step (DisableUser E uid) d = commit (disable_user E uid) d"
| "user_step (EnableUser uid) d = commit (enable_user uid) d"
| "user_step (SetPassword phc uid pw) d = commit (set_user_password phc uid pw) d"

lemma user_call_admin:
  assumes "has_active_admin d"
  shows "has_active_admin (user_step c d)"
proof -
  have same: "db_users d' = db_users d \<Longrightarrow> has_active_admin d'" for d'
    using assms by (simp add: has_active_admin_def)
  have rewrite: "(\<And>u. admin_row u \<Longrightarrow> admin_row (f u)) \<Longrightarrow> has_active_admin (d\<lparr>db_users := update_where P f (db_users d), db_tokens := ts\<rparr>)"
    for f P ts using assms by (auto simp: has_active_admin_def set_update_where)
  note ci = commit_inv [where I = has_active_admin, OF assms]
  show ?thesis
  proof (cases c)
    case CreateUser
    show ?thesis unfolding CreateUser user_step.simps
      by (rule ci) (use assms in \<open>auto simp: create_user_def insert_user_def has_active_admin_def bindE_Inr_iff split: if_splits\<close>)
  next
    case Login
    show ?thesis unfolding Login user_step.simps
      by (rule ci, rule same) (rule login_users)
  next
    case RefreshToken
    show ?thesis unfolding RefreshToken user_step.simps
      by (rule ci, rule same) (rule refresh_users)
  next
    case RevokeToken
    show ?thesis unfolding RevokeToken user_step.simps by (rule ci, rule same) (auto simp: revoke_user_token_def)
  next
    case PruneTokens
    show ?thesis unfolding PruneTokens user_step.simps by (rule ci, rule same) (auto simp: prune_expired_tokens_def)
  next
    case UpdateRoles
    show ?thesis unfolding UpdateRoles user_step.simps by (rule ci) (rule update_roles_admin [OF assms])
  next
    case DisableUser
    show ?thesis unfolding DisableUser user_step.simps by (rule ci) (rule disable_admin [OF assms])
  next
    case (EnableUser uid)
    have "has_active_admin (d\<lparr>db_users := update_where P (\<lambda>u. u\<lparr>us_disabled_at := None\<rparr>) (db_users d)\<rparr>)" for P
      using rewrite [where f = "\<lambda>u. u\<lparr>us_disabled_at := None\<rparr>" and P = P and ts = "db_tokens d"]
      by (simp add: admin_row_def has_active_admin_def)
    then show ?thesis unfolding EnableUser user_step.simps
      by (intro ci) (auto simp: enable_user_def Let_def split: if_splits)
  next
    case (SetPassword phc uid pw)
    have "has_active_admin (d\<lparr>db_users := update_where P (\<lambda>u. u\<lparr>us_password_hash := h\<rparr>) (db_users d), db_tokens := ts\<rparr>)" for P h ts
      by (rule rewrite) (simp add: admin_row_def)
    then show ?thesis unfolding SetPassword user_step.simps
      by (intro ci) (auto simp: set_user_password_def bindE_Inr_iff split: if_splits)
  qed
qed

interpretation admins: machine_invariant user_step has_active_admin
  by unfold_locales (rule user_call_admin)

lemma user_call_inv:
  assumes "users_inv d"
  shows "users_inv (user_step c d)"
proof -
  note ci = commit_inv [where I = users_inv, OF assms]
  have upd: "users_inv (d\<lparr>db_users := update_where P f (db_users d)\<rparr>)"
    if "\<And>u. us_id (f u) = us_id u \<and> us_username (f u) = us_username u"
      "\<And>u. us_disabled_at u = None \<Longrightarrow> us_disabled_at (f u) = None" for P f
    using users_inv_rewrite [OF assms, where f = f and P = P and ts = "db_tokens d"] that assms by (simp add: users_inv_def)
  show ?thesis
  proof (cases c)
    case CreateUser
    show ?thesis unfolding CreateUser user_step.simps
      by (rule ci) (use assms in \<open>auto simp: create_user_def insert_user_def users_inv_def bindE_Inr_iff split: if_splits\<close>)
  next
    case Login
    show ?thesis unfolding Login user_step.simps
      by (rule ci) (auto elim!: login_result intro: users_inv_login_token [OF assms] simp: split_paired_all)
  next
    case (RefreshToken E tok old ttl)
    have "users_inv d'" if r: "refresh_user_token E tok old ttl d = Inr (d', tk, expires, rec)" for d' tk expires rec
    proof -
      let ?d1 = "d\<lparr>db_tokens := filter (\<lambda>t. ut_token_hash t \<noteq> ce_hash E old) (db_tokens d)\<rparr>"
      obtain u where u: "live_token (ce_hash E old) (ce_now E) d = Some u" "us_disabled_at u = None"
        and i: "insert_token \<lparr>ut_token_hash = ce_hash E tok, ut_user_id = us_id u, ut_issued_at = ce_now E, ut_expires_at = expires\<rparr> ?d1 = Inr d'"
        by (rule refresh_result [OF r])
      have "users_inv ?d1" by (rule users_inv_tokens [OF assms distinct_filter_hash [OF assms]]) auto
      then show ?thesis by (rule users_inv_login_token [OF _ i]) (use u in \<open>auto elim: live_token_Some\<close>)
    qed
    then show ?thesis unfolding RefreshToken user_step.simps by (intro ci) (auto simp: split_paired_all)
  next
    case RevokeToken
    show ?thesis unfolding RevokeToken user_step.simps
      by (rule ci) (auto simp: revoke_user_token_def intro: users_inv_tokens [OF assms distinct_filter_hash [OF assms]])
  next
    case PruneTokens
    show ?thesis unfolding PruneTokens user_step.simps
      by (rule ci) (auto simp: prune_expired_tokens_def intro!: users_inv_tokens [OF assms] distinct_filter_hash [OF assms])
  next
    case UpdateRoles
    show ?thesis unfolding UpdateRoles user_step.simps
      by (rule ci) (auto simp: update_user_roles_def bindE_Inr_iff intro!: upd split: if_splits)
  next
    case DisableUser
    show ?thesis unfolding DisableUser user_step.simps
      by (rule ci) (auto simp: disable_user_def bindE_Inr_iff Let_def intro!: users_inv_rewrite [OF assms]
          distinct_filter_hash [OF assms] split: if_splits)
  next
    case EnableUser
    show ?thesis unfolding EnableUser user_step.simps
      by (rule ci) (auto simp: enable_user_def Let_def intro!: upd split: if_splits)
  next
    case SetPassword
    show ?thesis unfolding SetPassword user_step.simps
      by (rule ci) (auto simp: set_user_password_def bindE_Inr_iff intro!: users_inv_rewrite [OF assms]
          distinct_filter_hash [OF assms] split: if_splits)
  qed
qed

interpretation sessions: machine_invariant user_step users_inv
  by unfold_locales (rule user_call_inv)

section \<open>Properties\<close>

text \<open>
  The last active admin cannot be removed: after any sequence of user calls (creating, logging
  in, rotating, changing roles, disabling, enabling, resetting passwords, in any order and with any
  arguments) a store that had an active admin still has one.
\<close>

theorem last_admin_kept:
  "has_active_admin d \<Longrightarrow> has_active_admin (fold user_step calls d)"
  by (rule admins.inv_run)

definition sample_root :: user_row where
  "sample_root = \<lparr>us_id = ''u1'', us_username = ''root'', us_password_hash = ''phc'', us_roles = [Admin],
     us_created_at = ''t0'', us_disabled_at = None\<rparr>"

definition sample_users :: db where
  "sample_users = empty_db\<lparr>db_users := [sample_root]\<rparr>"

lemma sample_users_inv: "users_inv sample_users" "has_active_admin sample_users"
  by (simp_all add: users_inv_def has_active_admin_def admin_row_def sample_users_def sample_root_def empty_db_def)

definition user_env :: "string \<Rightarrow> call_env" where
  "user_env now = \<lparr>ce_hash = (\<lambda>s. ''h:'' @ s), ce_serde = \<lparr>from_str = (\<lambda>s. Some JNull), to_str = (\<lambda>j. ''null'')\<rparr>,
     ce_now = now, ce_after = (\<lambda>_. Some ''t9''), ce_audit_now = now, ce_lease = None,
     ce_fault = (\<lambda>_. None)\<rparr>"

theorem last_admin_kept_witness:
  "has_active_admin (fold user_step [DisableUser (user_env ''t1'') ''u1'', UpdateRoles ''u1'' [Viewer]] sample_users)"
  by (rule last_admin_kept [OF sample_users_inv(2)])

text \<open>
  The guard is exact: disabling a user or replacing their roles is refused with a conflict if,
  and only if, there is an active admin now and there would be none afterwards; otherwise an
  existing enabled user is changed as asked.
\<close>

theorem admin_guard_exact:
  assumes "users_inv d" and "u \<in> set (db_users d)" and "us_disabled_at u = None"
  shows "((\<exists>m. disable_user E (us_id u) d = Inl (Conflict m)) \<longleftrightarrow>
            has_active_admin d \<and> (\<forall>v \<in> set (db_users d). admin_row v \<longrightarrow> v = u))
       \<and> ((\<exists>m. update_user_roles (us_id u) roles d = Inl (Conflict m)) \<longleftrightarrow>
            has_active_admin d \<and> (\<forall>v \<in> set (db_users d). admin_row v \<longrightarrow> v = u) \<and> Admin \<notin> set roles)"
proof -
  have uq: "v = u" if "v \<in> set (db_users d)" "us_id v = us_id u" for v
    using users_t.key_unique [of d v u] assms that by (simp add: users_inv_def)
  have hit: "rows_affected (\<lambda>v. us_id v = us_id u) (db_users d) \<noteq> 0"
    "rows_affected (\<lambda>v. us_id v = us_id u \<and> us_disabled_at v = None) (db_users d) \<noteq> 0"
    using assms(2,3) by (auto simp: rows_affected_zero)
  have dis: "(\<exists>v \<in> set (db_users d). admin_row (changed (us_id u) Disable v)) \<longleftrightarrow> (\<exists>v \<in> set (db_users d). admin_row v \<and> v \<noteq> u)"
    using uq by (auto simp: changed_def admin_row_def split: if_splits)
  have rol: "(\<exists>v \<in> set (db_users d). admin_row (changed (us_id u) (SetRoles roles) v)) \<longleftrightarrow>
      (\<exists>v \<in> set (db_users d). admin_row v \<and> v \<noteq> u) \<or> Admin \<in> set roles"
  proof -
    have "admin_row (changed (us_id u) (SetRoles roles) u) \<longleftrightarrow> Admin \<in> set roles"
      using assms(3) by (simp add: changed_def admin_row_def)
    moreover have "v \<in> set (db_users d) \<Longrightarrow> v \<noteq> u \<Longrightarrow> changed (us_id u) (SetRoles roles) v = v" for v
      using uq by (auto simp: changed_def)
    ultimately show ?thesis using assms(2) by metis
  qed
  have d: "(\<exists>m. disable_user E (us_id u) d = Inl (Conflict m)) \<longleftrightarrow> ensure_active_admin_remains (us_id u) Disable d \<noteq> Inr ()"
    using guard_refuses [of "us_id u" Disable d] hit
    by (cases "ensure_active_admin_remains (us_id u) Disable d") (auto simp: disable_user_def Let_def)
  have r: "(\<exists>m. update_user_roles (us_id u) roles d = Inl (Conflict m)) \<longleftrightarrow>
      ensure_active_admin_remains (us_id u) (SetRoles roles) d \<noteq> Inr ()"
    using guard_refuses [of "us_id u" "SetRoles roles" d] hit
    by (cases "ensure_active_admin_remains (us_id u) (SetRoles roles) d") (auto simp: update_user_roles_def)
  show ?thesis unfolding d r guard_iff dis rol by blast
qed

theorem admin_guard_exact_witness:
  "\<exists>m. disable_user (user_env ''t1'') ''u1'' sample_users = Inl (Conflict m)"
proof -
  have "sample_root \<in> set (db_users sample_users)" "us_disabled_at sample_root = None"
    "\<forall>v \<in> set (db_users sample_users). admin_row v \<longrightarrow> v = sample_root" "us_id sample_root = ''u1''"
    by (simp_all add: sample_users_def sample_root_def)
  with admin_guard_exact [OF sample_users_inv(1), of sample_root "user_env ''t1''" "[]"] sample_users_inv(2)
  show ?thesis by simp
qed

lemma find_hash:
  assumes "users_inv d" "t \<in> set (db_tokens d)" "now < ut_expires_at t"
  shows "find (\<lambda>x. ut_token_hash x = ut_token_hash t \<and> now < ut_expires_at x) (db_tokens d) = Some t"
proof -
  obtain x where x: "find (\<lambda>x. ut_token_hash x = ut_token_hash t \<and> now < ut_expires_at x) (db_tokens d) = Some x"
    using assms(2,3) by (cases "find (\<lambda>x. ut_token_hash x = ut_token_hash t \<and> now < ut_expires_at x) (db_tokens d)")
      (auto simp: find_None_iff)
  then have "x \<in> set (db_tokens d)" "ut_token_hash x = ut_token_hash t" by (auto simp: find_Some_iff dest: nth_mem)
  with tokens_t.key_unique [of d x t] assms x show ?thesis by (simp add: users_inv_def)
qed

lemma token_identifies:
  assumes inv: "users_inv d" and t: "t \<in> set (db_tokens d)" "ut_token_hash t = ce_hash E tok" "ce_now E < ut_expires_at t"
    and u: "u \<in> set (db_users d)" "us_id u = ut_user_id t" "us_disabled_at u = None"
  shows "find_user_by_token E tok d = Some (user_record_of u)"
proof -
  have "find (\<lambda>x. us_id x = ut_user_id t) (db_users d) = Some u"
    using users_t.find_key [of d u] inv u by (simp add: users_inv_def)
  with find_hash [OF inv t(1,3)] t(2) u(3) show ?thesis by (simp add: find_user_by_token_def live_token_def)
qed

text \<open>
  C33. Login and token lookup round-trip. A successful login proves that the user exists under that
  name, is enabled and gave the right password; until the token's expiry every lookup of it
  returns that user, and from the expiry on it returns nobody.
\<close>

theorem login_roundtrip:
  assumes "users_inv d" and "login E verify tok name pw ttl d = Inr (d', tk, expires, rec)"
    and "ce_hash E2 = ce_hash E"
  shows "tk = tok \<and> ur_username rec = name
    \<and> (\<exists>u \<in> set (db_users d). us_username u = name \<and> us_disabled_at u = None \<and> verify pw (us_password_hash u))
    \<and> find_user_by_token E2 tok d' = (if ce_now E2 < expires then Some rec else None)"
proof -
  obtain u where u: "u \<in> set (db_users d)" "us_username u = name" "us_disabled_at u = None" "verify pw (us_password_hash u)"
    and i: "insert_token \<lparr>ut_token_hash = ce_hash E tok, ut_user_id = us_id u, ut_issued_at = ce_now E, ut_expires_at = expires\<rparr> d = Inr d'"
    and r: "tk = tok" "rec = user_record_of u" by (rule login_result [OF assms(2)])
  note d' = insert_token_Inr [OF i]
  have inv': "users_inv d'" using users_inv_login_token [OF assms(1) i u(1)] u(3) by simp
  let ?t = "\<lparr>ut_token_hash = ce_hash E tok, ut_user_id = us_id u, ut_issued_at = ce_now E, ut_expires_at = expires\<rparr>"
  have "find_user_by_token E2 tok d' = (if ce_now E2 < expires then Some rec else None)"
  proof (cases "ce_now E2 < expires")
    case True
    with token_identifies [OF inv', of ?t E2 tok u] d'(1) u r assms(3) show ?thesis by simp
  next
    case False
    have "find (\<lambda>x. ut_token_hash x = ce_hash E tok \<and> ce_now E2 < ut_expires_at x) (db_tokens d') = None"
      unfolding find_None_iff d'(1) using False d'(2) by (force simp: image_iff)
    with False assms(3) show ?thesis by (simp add: find_user_by_token_def live_token_def)
  qed
  with u r show ?thesis by (auto simp: user_record_of_def)
qed

lemma sample_login: "\<exists>d'. login (user_env ''t1'') (\<lambda>p h. p = ''pw'' \<and> h = ''phc'') ''tok'' ''root'' ''pw'' 60 sample_users
    = Inr (d', ''tok'', ''t9'', \<lparr>ur_id = ''u1'', ur_username = ''root'', ur_roles = [Admin]\<rparr>)"
  by (simp add: login_defs sample_users_def sample_root_def user_env_def token_expiry_def insert_token_def empty_db_def
      user_record_of_def)

theorem login_roundtrip_witness:
  "\<exists>d'. find_user_by_token (user_env ''t2'') ''tok'' d' = Some \<lparr>ur_id = ''u1'', ur_username = ''root'', ur_roles = [Admin]\<rparr>"
proof -
  obtain d' where l: "login (user_env ''t1'') (\<lambda>p h. p = ''pw'' \<and> h = ''phc'') ''tok'' ''root'' ''pw'' 60 sample_users
    = Inr (d', ''tok'', ''t9'', \<lparr>ur_id = ''u1'', ur_username = ''root'', ur_roles = [Admin]\<rparr>)"
    using sample_login by blast
  have "ce_hash (user_env ''t2'') = ce_hash (user_env ''t1'')" "ce_now (user_env ''t2'') = ''t2''" by (simp_all add: user_env_def)
  moreover have "''t2'' < ''t9''" by code_simp
  ultimately show ?thesis using login_roundtrip [OF sample_users_inv(1) l, of "user_env ''t2''"] by auto
qed

text \<open>
  Refreshing a session rotates it: the old token stops working at once and forever, the new
  one identifies the same user with the roles the user has now, until its own expiry.
\<close>

theorem refresh_rotates:
  assumes "users_inv d" and "refresh_user_token E new old ttl d = Inr (d', tk, expires, rec)"
    and "ce_hash E2 = ce_hash E" and "ce_hash E new \<noteq> ce_hash E old"
  shows "find_user_by_token E old d = Some rec \<and> find_user_by_token E2 old d' = None
    \<and> (ce_now E2 < expires \<longrightarrow> find_user_by_token E2 new d' = Some rec)"
proof -
  let ?d1 = "d\<lparr>db_tokens := filter (\<lambda>t. ut_token_hash t \<noteq> ce_hash E old) (db_tokens d)\<rparr>"
  obtain u where u: "live_token (ce_hash E old) (ce_now E) d = Some u" "us_disabled_at u = None"
    and i: "insert_token \<lparr>ut_token_hash = ce_hash E new, ut_user_id = us_id u, ut_issued_at = ce_now E, ut_expires_at = expires\<rparr> ?d1 = Inr d'"
    and r: "rec = user_record_of u" by (rule refresh_result [OF assms(2)])
  note d' = insert_token_Inr [OF i]
  have mem: "u \<in> set (db_users d)" using u(1) by (auto elim: live_token_Some)
  have "users_inv ?d1" by (rule users_inv_tokens [OF assms(1) distinct_filter_hash [OF assms(1)]]) auto
  then have inv': "users_inv d'" by (rule users_inv_login_token [OF _ i]) (use mem u in auto)
  let ?t = "\<lparr>ut_token_hash = ce_hash E new, ut_user_id = us_id u, ut_issued_at = ce_now E, ut_expires_at = expires\<rparr>"
  have "find (\<lambda>x. ut_token_hash x = ce_hash E old \<and> ce_now E2 < ut_expires_at x) (db_tokens d') = None"
    unfolding find_None_iff d'(1) using assms(4) by auto
  then have "find_user_by_token E2 old d' = None" using assms(3) by (simp add: find_user_by_token_def live_token_def)
  moreover have "find_user_by_token E2 new d' = Some rec" if "ce_now E2 < expires"
    using token_identifies [OF inv', of ?t E2 new u] d'(1) mem u r assms(3) that by simp
  moreover have "find_user_by_token E old d = Some rec" using u r by (simp add: find_user_by_token_def)
  ultimately show ?thesis by blast
qed

theorem refresh_rotates_witness:
  "\<exists>d d' rec. refresh_user_token (user_env ''t2'') ''tok2'' ''tok'' 60 d = Inr (d', ''tok2'', ''t9'', rec)
     \<and> find_user_by_token (user_env ''t3'') ''tok'' d' = None"
proof -
  let ?d = "sample_users\<lparr>db_tokens := [\<lparr>ut_token_hash = ''h:tok'', ut_user_id = ''u1'', ut_issued_at = ''t1'', ut_expires_at = ''t9''\<rparr>]\<rparr>"
  let ?rec = "user_record_of sample_root"
  have inv: "users_inv ?d" by (simp add: users_inv_def sample_users_def sample_root_def empty_db_def)
  have lt: "''t2'' < ''t9''" by code_simp
  obtain d' where r: "refresh_user_token (user_env ''t2'') ''tok2'' ''tok'' 60 ?d = Inr (d', ''tok2'', ''t9'', ?rec)"
    using lt by (simp add: refresh_user_token_def live_token_def user_env_def sample_users_def sample_root_def
        token_expiry_def insert_token_def rows_affected_def empty_db_def)
  have "ce_hash (user_env ''t3'') = ce_hash (user_env ''t2'')"
    "ce_hash (user_env ''t2'') ''tok2'' \<noteq> ce_hash (user_env ''t2'') ''tok''" by (simp_all add: user_env_def)
  from refresh_rotates [OF inv r this] r show ?thesis by blast
qed

text \<open>
  Locking a user out is immediate: after an account is disabled or its password is reset, no
  token issued before identifies that user any more, and a disabled user cannot log in.
\<close>

theorem lockout_immediate:
  assumes "users_inv d" and "disable_user E uid d = Inr (d', ()) \<or> set_user_password phc uid pw d = Inr (d', ())"
  shows "(\<forall>E2 tok u. find_user_by_token E2 tok d' = Some u \<longrightarrow> ur_id u \<noteq> uid)
    \<and> (disable_user E uid d = Inr (d', ()) \<longrightarrow>
         (\<forall>E2 verify tok pw2 ttl. \<forall>u \<in> set (db_users d). us_id u = uid \<longrightarrow>
            login E2 verify tok (us_username u) pw2 ttl d' = Inl Unauthorized))"
proof -
  have tok: "\<forall>t \<in> set (db_tokens d'). ut_user_id t \<noteq> uid"
    using assms(2) by (auto simp: disable_user_def set_user_password_def bindE_Inr_iff Let_def split: if_splits)
  have "ur_id u \<noteq> uid" if f: "find_user_by_token E2 tok d' = Some u" for E2 tok u
  proof -
    obtain w where w: "live_token (ce_hash E2 tok) (ce_now E2) d' = Some w" "u = user_record_of w"
      using f by (auto simp: find_user_by_token_def split: option.splits if_splits)
    from w(1) obtain t where "t \<in> set (db_tokens d')" "us_id w = ut_user_id t" by (rule live_token_Some)
    with tok w(2) show ?thesis by (auto simp: user_record_of_def)
  qed
  moreover have "login E2 verify tok (us_username u) pw2 ttl d' = Inl Unauthorized"
    if dis: "disable_user E uid d = Inr (d', ())" and u: "u \<in> set (db_users d)" "us_id u = uid"
    for E2 verify tok pw2 ttl u
  proof -
    let ?hit = "\<lambda>u. us_id u = uid \<and> us_disabled_at u = None"
    let ?f = "\<lambda>u. u\<lparr>us_disabled_at := Some (ce_now E)\<rparr>"
    have users: "db_users d' = update_where ?hit ?f (db_users d)"
      using dis by (auto simp: disable_user_def bindE_Inr_iff Let_def split: if_splits)
    have "users_inv d'" using user_call_inv [OF assms(1), of "DisableUser E uid"] dis by (simp add: commit_def)
    then have dist: "distinct (map us_username (db_users d'))" by (simp add: users_inv_def)
    let ?v = "if ?hit u then ?f u else u"
    have v: "?v \<in> set (db_users d')" "us_username ?v = us_username u" "us_disabled_at ?v \<noteq> None"
      using u by (auto simp: users set_update_where)
    have "find (\<lambda>x. us_username x = us_username u) (db_users d') = Some ?v"
      using usernames_t.find_key [OF dist v(1)] v(2) by simp
    with v(3) show ?thesis by (simp add: login_defs)
  qed
  ultimately show ?thesis by blast
qed

theorem lockout_immediate_witness:
  "\<exists>d'. set_user_password (Some ''phc2'') ''u1'' ''new'' sample_users = Inr (d', ())
     \<and> (\<forall>E2 tok u. find_user_by_token E2 tok d' = Some u \<longrightarrow> ur_id u \<noteq> ''u1'')"
proof -
  obtain d' where "set_user_password (Some ''phc2'') ''u1'' ''new'' sample_users = Inr (d', ())"
    by (simp add: set_user_password_def sample_users_def sample_root_def rows_affected_def)
  with lockout_immediate [OF sample_users_inv(1) disjI2 [OF this], of "user_env ''t1''"] show ?thesis by blast
qed

text \<open>The reset does not reach a login that has already read the old hash: when its \<open>INSERT\<close> comes after
  the reset has deleted the sessions, the old password has opened a session that lives to its expiry.\<close>

lemma login_outlives_reset:
  assumes "users_inv d" "login_check verify name pw d = Inr u" "set_user_password phc (us_id u) pw2 d = Inr (d1, ())"
    and "login_issue E tok u ttl d1 = Inr (d2, tk, expires, rec)" "ce_hash E2 = ce_hash E" "ce_now E2 < expires"
  shows "\<exists>rec2. find_user_by_token E2 tok d2 = Some rec2 \<and> ur_id rec2 = us_id u"
proof -
  from assms(2) have u: "u \<in> set (db_users d)" "us_disabled_at u = None"
    by (auto simp: login_check_def find_Some_iff split: option.splits if_splits dest: nth_mem)
  obtain P h where users: "db_users d1 = update_where P (\<lambda>x. x\<lparr>us_password_hash := h\<rparr>) (db_users d)"
    using assms(3) by (auto simp: set_user_password_def bindE_Inr_iff split: if_splits)
  obtain v where v: "v \<in> set (db_users d1)" "us_id v = us_id u" "us_disabled_at v = None"
    using u by (auto simp: users set_update_where intro!: that [of "if P u then u\<lparr>us_password_hash := h\<rparr> else u"])
  have inv1: "users_inv d1" using user_call_inv [OF assms(1), of "SetPassword phc (us_id u) pw2"] assms(3) by (simp add: commit_def)
  let ?t = "\<lparr>ut_token_hash = ce_hash E tok, ut_user_id = us_id u, ut_issued_at = ce_now E, ut_expires_at = expires\<rparr>"
  have i: "insert_token ?t d1 = Inr d2" using assms(4) by (auto simp: login_issue_def bindE_Inr_iff)
  have "users_inv d2" by (rule users_inv_login_token [OF inv1 i v(1)]) (use v in simp_all)
  from token_identifies [OF this, of ?t E2 tok v] insert_token_Inr [OF i] v assms(5,6) show ?thesis
    by (simp add: user_record_of_def)
qed

text \<open>
  The role check admits exactly the bearers it should: the configured admin token, or the live
  token of an enabled user one of whose roles includes the required one. A bearer that is nobody
  is unauthorized, a known one without the role is forbidden, and whoever passes for a role passes
  for every lower one.
\<close>

theorem require_role_correct:
  "(require_role E admin tok r d = Inr who \<longrightarrow>
      (who = LegacyAdmin \<and> (\<exists>x. admin = Some x \<and> ce_hash E tok = ce_hash E x)
       \<or> (\<exists>u. find_user_by_token E tok d = Some u \<and> who = IdUser (ur_id u) (ur_username u) (ur_roles u)
              \<and> (\<exists>x \<in> set (ur_roles u). r \<le> x))))
   \<and> (require_role E admin tok r d = Inl Forbidden \<longleftrightarrow>
       (\<exists>i. resolve E admin tok d = Inr i \<and> \<not> has_role i r))
   \<and> (require_role E admin tok r d = Inl Unauthorized \<longleftrightarrow>
       find_user_by_token E tok d = None \<and> (\<forall>x. admin = Some x \<longrightarrow> ce_hash E tok \<noteq> ce_hash E x))
   \<and> (require_role E admin tok r d = Inr who \<longrightarrow> s \<le> r \<longrightarrow> require_role E admin tok s d = Inr who)"
proof -
  have mono: "has_role i r \<Longrightarrow> s \<le> r \<Longrightarrow> has_role i s" for i by (rule has_role_mono)
  have res: "resolve E admin tok d =
      (if \<exists>x. admin = Some x \<and> ce_hash E tok = ce_hash E x then Inr LegacyAdmin
       else (case find_user_by_token E tok d of Some u \<Rightarrow> Inr (IdUser (ur_id u) (ur_username u) (ur_roles u))
                                              | None \<Rightarrow> Inl Unauthorized))"
    by (cases admin) (auto simp: resolve_def Let_def)
  show ?thesis
    unfolding require_role_def res using mono
    by (cases "find_user_by_token E tok d"; cases "\<exists>x. admin = Some x \<and> ce_hash E tok = ce_hash E x")
       (auto simp: list_ex_iff role_includes_def)
qed

theorem require_role_witness:
  "require_role (user_env ''t2'') (Some ''boot'') ''boot'' Approver sample_users = Inr LegacyAdmin
   \<and> require_role (user_env ''t2'') (Some ''boot'') ''boot'' Viewer sample_users = Inr LegacyAdmin"
proof -
  have a: "require_role (user_env ''t2'') (Some ''boot'') ''boot'' Approver sample_users = Inr LegacyAdmin"
    by (simp add: require_role_def resolve_def)
  have "Viewer \<le> Approver" by (simp add: less_eq_role_def)
  with a require_role_correct [of "user_env ''t2''" "Some ''boot''" "''boot''" Approver sample_users LegacyAdmin Viewer]
  show ?thesis by blast
qed

end
