(* ===== verification/Depsort.thy ===== *)
theory Depsort
  imports Iac_Prelude
begin

text \<open>
  Dependency ordering of the resources of one operation
  (\<open>crates/iac-controlplane/src/depsort.rs\<close>): reading \<open>metadata.dependsOn\<close>, the stable
  topological sort (Kahn's algorithm over an index queue), and the layer of every resource in
  the sorted list. The lemmas show that the sort never panics, that a list it accepts is a
  permutation in which every dependency comes first, that it accepts exactly the acyclic graphs,
  and that the layers it is followed by are the lengths of the longest dependency chains.
\<close>

section \<open>Routing entries\<close>

record resource_for_routing =
  rf_resource_id :: string
  rf_kind :: string
  rf_environment :: string
  rf_resource_json :: string
  rf_name :: string
  rf_host_selector :: "string option"

type_synonym routing = "resource_for_routing list"

section \<open>Reading the declared dependencies\<close>

fun collect_deps :: "string list \<Rightarrow> json list \<Rightarrow> string list api_result" where
  "collect_deps out [] = Inr out"
| "collect_deps out (item # rest) =
     (case as_str item of
        None \<Rightarrow> Inl (BadRequest (Msg ''metadata.dependsOn entries must be strings'' []))
      | Some s \<Rightarrow>
          if s \<in> set out
          then Inl (BadRequest (Msg ''metadata.dependsOn has duplicate entry {s:?}'' [s]))
          else collect_deps (out @ [s]) rest)"

definition read_depends_on :: "serde \<Rightarrow> string \<Rightarrow> string list api_result" where
  "read_depends_on S resource_json =
     (case from_str S resource_json of
        None \<Rightarrow> Inl (BadRequest (Msg ''malformed resource json: {e}'' []))
      | Some value \<Rightarrow>
          (case jpath value [''metadata'', ''dependsOn''] of
             None \<Rightarrow> Inr []
           | Some deps_value \<Rightarrow>
               (case as_array deps_value of
                  None \<Rightarrow> Inl (BadRequest
                    (Msg ''metadata.dependsOn must be an array of resource id strings'' []))
                | Some arr \<Rightarrow> collect_deps [] arr)))"

section \<open>The dependency graph\<close>

text \<open>\<open>id_to_idx\<close>: the index of a resource id; a repeated id keeps its last index.\<close>

fun build_index :: "nat \<Rightarrow> routing \<Rightarrow> (string \<rightharpoonup> nat) \<Rightarrow> (string \<rightharpoonup> nat)" where
  "build_index i [] m = m"
| "build_index i (r # rs) m = build_index (Suc i) rs (m(rf_resource_id r \<mapsto> i))"

definition id_to_idx :: "routing \<Rightarrow> (string \<rightharpoonup> nat)" where
  "id_to_idx rs = build_index 0 rs Map.empty"

text \<open>The inner loop over the dependencies of resource \<open>i\<close>; the state is
  \<open>(in_degree, adjacency)\<close>.\<close>

fun add_deps :: "(string \<rightharpoonup> nat) \<Rightarrow> resource_for_routing \<Rightarrow> nat \<Rightarrow> string list
    \<Rightarrow> nat list \<times> nat list list \<Rightarrow> (nat list \<times> nat list list) api_result" where
  "add_deps idx r i [] g = Inr g"
| "add_deps idx r i (dep_id # ds) (ind, adj) =
     (case idx dep_id of
        None \<Rightarrow> Inl (BadRequest (Msg ''{}: dependsOn references unknown resource {dep_id:?}''
                     [rf_resource_id r, dep_id]))
      | Some d \<Rightarrow>
          if d = i then Inl (BadRequest (Msg ''{}: dependsOn must not point at itself''
                     [rf_resource_id r]))
          else add_deps idx r i ds (ind[i := ind ! i + 1], adj[d := adj ! d @ [i]]))"

fun build_graph :: "serde \<Rightarrow> (string \<rightharpoonup> nat) \<Rightarrow> nat \<Rightarrow> routing
    \<Rightarrow> nat list \<times> nat list list \<Rightarrow> (nat list \<times> nat list list) api_result" where
  "build_graph S idx i [] g = Inr g"
| "build_graph S idx i (r # rs) g =
     bindE (read_depends_on S (rf_resource_json r)) (\<lambda>deps.
     bindE (add_deps idx r i deps g) (\<lambda>g'.
       build_graph S idx (Suc i) rs g'))"

section \<open>Kahn's algorithm\<close>

text \<open>
  \<open>for &next in &adjacency[idx]\<close>: each edge lowers one in-degree; a node that reaches zero is
  pushed on the queue. \<open>None\<close> is a panic (an index out of range, \<open>usize\<close> below zero).
\<close>

fun relax :: "nat list \<Rightarrow> nat list \<Rightarrow> nat list \<Rightarrow> (nat list \<times> nat list) option" where
  "relax [] ind q = Some (ind, q)"
| "relax (nx # ns) ind q =
     (if nx < length ind \<and> 0 < ind ! nx
      then let ind' = ind[nx := ind ! nx - 1]
           in relax ns ind' (if ind' ! nx = 0 then q @ [nx] else q)
      else None)"

lemma relax_sum:
  "relax ns ind q = Some (ind', q') \<Longrightarrow> sum_list ind' + length ns = sum_list ind"
proof (induction ns ind q arbitrary: ind' q' rule: relax.induct)
  case (2 nx ns ind q)
  then have nx: "nx < length ind" "0 < ind ! nx" by (auto split: if_splits)
  with 2 have "sum_list ind' + length ns = sum_list (ind[nx := ind ! nx - 1])"
    by (simp add: Let_def)
  with nx sum_list_update_nat [of nx ind "ind ! nx - 1"] show ?case by simp
qed simp

text \<open>
  \<open>while let Some(idx) = queue.pop_front()\<close>. Every iteration either removes an edge (the sum of
  the in-degrees drops) or shortens the queue, so the loop ends on every input.
\<close>

function kahn :: "nat list list \<Rightarrow> nat list \<Rightarrow> nat list \<Rightarrow> nat list
    \<Rightarrow> (nat list \<times> nat list) option" where
  "kahn adj [] ind order = Some (order, ind)"
| "kahn adj (idx # queue) ind order =
     (if idx < length adj
      then (case relax (adj ! idx) ind queue of
              None \<Rightarrow> None
            | Some (ind', queue') \<Rightarrow> kahn adj queue' ind' (order @ [idx]))
      else None)"
  by pat_completeness auto

termination
proof (relation "measures [\<lambda>(adj, q, ind, order). sum_list ind, \<lambda>(adj, q, ind, order). length q]")
  fix adj :: "nat list list" and idx queue ind order x ind' queue'
  assume "idx < length adj" and r: "relax (adj ! idx) ind queue = Some x" and "(ind', queue') = x"
  then have r': "relax (adj ! idx) ind queue = Some (ind', queue')" by simp
  show "((adj, queue', ind', order @ [idx]), adj, idx # queue, ind, order)
      \<in> measures [\<lambda>(adj, q, ind, order). sum_list ind, \<lambda>(adj, q, ind, order). length q]"
  proof (cases "adj ! idx")
    case Nil
    with r' show ?thesis by simp
  next
    case (Cons a list)
    with relax_sum [OF r'] show ?thesis by simp
  qed
qed simp

text \<open>The reordering through a vector of \<open>Option\<close> cells; taking a cell twice panics.\<close>

fun take_cells :: "'a option list \<Rightarrow> nat list \<Rightarrow> 'a list option" where
  "take_cells cells [] = Some []"
| "take_cells cells (i # is) =
     (if i < length cells then
        (case cells ! i of
           None \<Rightarrow> None
         | Some x \<Rightarrow> map_option ((#) x) (take_cells (cells[i := None]) is))
      else None)"

definition stuck_ids :: "routing \<Rightarrow> nat list \<Rightarrow> string list" where
  "stuck_ids rs ind =
     take 5 (map (\<lambda>(i, _). rf_resource_id (rs ! i))
                 (filter (\<lambda>(_, d). 0 < d) (zip [0..<length ind] ind)))"

definition topo_sort_by_depends_on :: "serde \<Rightarrow> routing \<Rightarrow> routing api_result" where
  "topo_sort_by_depends_on S rs =
     (if rs = [] then Inr [] else
      let n = length rs in
      bindE (build_graph S (id_to_idx rs) 0 rs (replicate n 0, replicate n [])) (\<lambda>(ind, adj).
        case kahn adj (filter (\<lambda>i. ind ! i = 0) [0..<n]) ind [] of
          None \<Rightarrow> Inl Panic
        | Some (order, ind') \<Rightarrow>
            if length order \<noteq> n
            then Inl (BadRequest (Msg ''dependsOn cycle detected (involves: {})'' (stuck_ids rs ind')))
            else (case take_cells (map Some rs) order of
                    None \<Rightarrow> Inl Panic
                  | Some out \<Rightarrow> Inr out)))"

section \<open>Layers\<close>

fun max_dep_layer :: "(string \<rightharpoonup> nat) \<Rightarrow> resource_for_routing \<Rightarrow> nat \<Rightarrow> int list \<Rightarrow> string list \<Rightarrow> int
    \<Rightarrow> int api_result" where
  "max_dep_layer idx r i layers [] m = Inr m"
| "max_dep_layer idx r i layers (dep_id # ds) m =
     (case idx dep_id of
        None \<Rightarrow> Inl (BadRequest (Msg ''{}: dependsOn references unknown resource {dep_id:?}''
                     [rf_resource_id r, dep_id]))
      | Some d \<Rightarrow>
          if i \<le> d
          then Inl (Internal (Msg ''compute_resource_layers: dep {dep_idx} of resource {i} not yet visited''
                     [show_nat d, show_nat i]))
          else max_dep_layer idx r i layers ds (max m (layers ! d)))"

fun layer_loop :: "serde \<Rightarrow> (string \<rightharpoonup> nat) \<Rightarrow> nat \<Rightarrow> routing \<Rightarrow> int list \<Rightarrow> int list api_result" where
  "layer_loop S idx i [] layers = Inr layers"
| "layer_loop S idx i (r # rs) layers =
     bindE (read_depends_on S (rf_resource_json r)) (\<lambda>deps.
     bindE (max_dep_layer idx r i layers deps (-1)) (\<lambda>m.
       layer_loop S idx (Suc i) rs (layers[i := m + 1])))"

definition compute_resource_layers :: "serde \<Rightarrow> routing \<Rightarrow> int list api_result" where
  "compute_resource_layers S rs =
     (if rs = [] then Inr []
      else layer_loop S (id_to_idx rs) 0 rs (replicate (length rs) 0))"

section \<open>The queue loop\<close>

lemma count_list_pos_iff: "0 < count_list xs x \<longleftrightarrow> x \<in> set xs"
  by (metis count_list_0_iff gr0I less_irrefl)

lemma relax_queue_prefix: "relax ns ind q = Some (ind', q') \<Longrightarrow> \<exists>new. q' = q @ new"
proof (induction ns arbitrary: ind q)
  case (Cons nx ns)
  define q1 where "q1 = (if ind ! nx - 1 = 0 then q @ [nx] else q)"
  have "relax ns (ind[nx := ind ! nx - 1]) q1 = Some (ind', q')"
    using Cons.prems by (simp add: q1_def Let_def split: if_split_asm)
  from Cons.IH [OF this] show ?case by (auto simp: q1_def split: if_splits)
qed simp

text \<open>One relaxation round, when every node has at least the in-degree its edges take away.\<close>

lemma relax_spec:
  assumes "\<forall>i \<in> set ns. i < length ind" and "\<forall>i. count_list ns i \<le> (if i < length ind then ind ! i else 0)"
  shows "\<exists>ind' new. relax ns ind q = Some (ind', q @ new) \<and> length ind' = length ind
    \<and> (\<forall>i < length ind. ind' ! i = ind ! i - count_list ns i)
    \<and> distinct new \<and> set new = {i \<in> set ns. ind ! i = count_list ns i}"
  using assms
proof (induction ns arbitrary: ind q)
  case Nil
  then show ?case by simp
next
  case (Cons nx ns)
  define ind1 where "ind1 = ind[nx := ind ! nx - 1]"
  have nx: "nx < length ind" "0 < ind ! nx"
    using Cons.prems(1) Cons.prems(2)[rule_format, of nx] by auto
  have le1: "\<forall>i. count_list ns i \<le> (if i < length ind1 then ind1 ! i else 0)"
    using Cons.prems(2) nx unfolding ind1_def
    by (auto simp: nth_list_update split: if_splits)
  obtain ind' new where r: "relax ns ind1 (if ind1 ! nx = 0 then q @ [nx] else q) =
        Some (ind', (if ind1 ! nx = 0 then q @ [nx] else q) @ new)"
      and len: "length ind' = length ind1"
      and nth: "\<forall>i < length ind1. ind' ! i = ind1 ! i - count_list ns i"
      and new: "distinct new" "set new = {i \<in> set ns. ind1 ! i = count_list ns i}"
    using Cons.IH [of ind1 "if ind1 ! nx = 0 then q @ [nx] else q"] Cons.prems(1) le1
    by (auto simp: ind1_def)
  have zero: "ind1 ! nx = 0 \<Longrightarrow> nx \<notin> set ns"
    using le1 [rule_format, of nx] nx count_list_pos_iff [of ns nx] by (auto simp: ind1_def)
  define new' where "new' = (if ind1 ! nx = 0 then nx # new else new)"
  have "relax (nx # ns) ind q = Some (ind', q @ new')"
    using r nx by (auto simp: ind1_def new'_def Let_def)
  moreover have "distinct new'"
    using new zero by (auto simp: new'_def)
  moreover have "set new' = {i \<in> set (nx # ns). ind ! i = count_list (nx # ns) i}"
  proof (rule set_eqI)
    fix i
    show "i \<in> set new' \<longleftrightarrow> i \<in> {i \<in> set (nx # ns). ind ! i = count_list (nx # ns) i}"
    proof (cases "i = nx")
      case True
      have "ind ! nx = count_list (nx # ns) nx \<longleftrightarrow> ind1 ! nx = count_list ns nx"
        using nx by (auto simp: ind1_def)
      moreover have "nx \<in> set new \<longleftrightarrow> nx \<in> set ns \<and> ind1 ! nx = count_list ns nx"
        using new(2) by blast
      moreover have "nx \<notin> set ns \<Longrightarrow> count_list ns nx = 0" by simp
      ultimately show ?thesis using True zero unfolding new'_def by force
    next
      case False
      then have "ind1 ! i = ind ! i" by (simp add: ind1_def)
      then show ?thesis using False new(2) unfolding new'_def by auto
    qed
  qed
  moreover have "\<forall>i < length ind. ind' ! i = ind ! i - count_list (nx # ns) i"
    using nth nx by (auto simp: ind1_def nth_list_update)
  ultimately show ?case
    using len by (auto simp: ind1_def)
qed

text \<open>\<open>pend adj A i\<close>: the edges into \<open>i\<close> whose source is in \<open>A\<close>.\<close>

definition pend :: "nat list list \<Rightarrow> nat set \<Rightarrow> nat \<Rightarrow> nat" where
  "pend adj A i = (\<Sum>d \<in> A. count_list (adj ! d) i)"

definition adj_ok :: "nat list list \<Rightarrow> bool" where
  "adj_ok adj \<longleftrightarrow> (\<forall>ns \<in> set adj. \<forall>i \<in> set ns. i < length adj)"

text \<open>The loop invariant of \<open>kahn\<close>.\<close>

definition kahn_inv :: "nat list list \<Rightarrow> nat list \<Rightarrow> nat list \<Rightarrow> nat list \<Rightarrow> bool" where
  "kahn_inv adj q ind order \<longleftrightarrow>
     length ind = length adj
   \<and> distinct (order @ q) \<and> set (order @ q) \<subseteq> {..<length adj}
   \<and> (\<forall>i < length adj. ind ! i = pend adj ({..<length adj} - set order) i)
   \<and> (\<forall>i < length adj. ind ! i = 0 \<longleftrightarrow> i \<in> set (order @ q))
   \<and> (\<forall>k < length order. \<forall>d < length adj. order ! k \<in> set (adj ! d) \<longrightarrow> d \<in> set (take k order))"

lemma pend_remove:
  "finite A \<Longrightarrow> d \<in> A \<Longrightarrow> pend adj A i = count_list (adj ! d) i + pend adj (A - {d}) i"
  unfolding pend_def by (subst sum.remove [of A d]) auto

lemma pend_zero_iff:
  "finite A \<Longrightarrow> pend adj A i = 0 \<longleftrightarrow> (\<forall>d \<in> A. i \<notin> set (adj ! d))"
  by (auto simp: pend_def count_list_0_iff)

lemma kahn_inv_step:
  assumes adj: "adj_ok adj" and inv: "kahn_inv adj (idx # q) ind order"
  shows "\<exists>ind' q'. relax (adj ! idx) ind q = Some (ind', q') \<and> kahn_inv adj q' ind' (order @ [idx])"
proof -
  let ?n = "length adj"
  let ?A = "{..<?n} - set order" and ?A' = "{..<?n} - set (order @ [idx])"
  have len: "length ind = ?n" and dist: "distinct (order @ idx # q)"
    and sub: "set (order @ idx # q) \<subseteq> {..<?n}"
    and pnd: "\<And>i. i < ?n \<Longrightarrow> ind ! i = pend adj ?A i"
    and zer: "\<And>i. i < ?n \<Longrightarrow> ind ! i = 0 \<longleftrightarrow> i \<in> set (order @ idx # q)"
    and ord: "\<forall>k < length order. \<forall>d < ?n. order ! k \<in> set (adj ! d) \<longrightarrow> d \<in> set (take k order)"
    using inv by (auto simp: kahn_inv_def)
  have idx: "idx < ?n" "idx \<in> ?A" using sub dist by auto
  have A': "?A' = ?A - {idx}" by auto
  have split: "i < ?n \<Longrightarrow> ind ! i = count_list (adj ! idx) i + pend adj ?A' i" for i
    using pnd [of i] pend_remove [of ?A idx adj i] idx(2) A' by simp
  have bound: "\<forall>i \<in> set (adj ! idx). i < length ind"
    using adj idx(1) len by (auto simp: adj_ok_def)
  have le: "\<forall>i. count_list (adj ! idx) i \<le> (if i < length ind then ind ! i else 0)"
    using split bound len by (auto simp: count_list_0_iff)
  obtain ind' new where r: "relax (adj ! idx) ind q = Some (ind', q @ new)"
    and len': "length ind' = length ind"
    and nth': "\<forall>i < length ind. ind' ! i = ind ! i - count_list (adj ! idx) i"
    and new: "distinct new" "set new = {i \<in> set (adj ! idx). ind ! i = count_list (adj ! idx) i}"
    using relax_spec [OF bound le, of q] by blast
  have ind': "i < ?n \<Longrightarrow> ind' ! i = pend adj ?A' i" for i
    using nth' split [of i] len by simp
  have new_iff: "i \<in> set new \<longleftrightarrow> i < ?n \<and> 0 < ind ! i \<and> ind' ! i = 0" for i
  proof (cases "i < ?n")
    case True
    then have "ind' ! i = ind ! i - count_list (adj ! idx) i" using nth' len by simp
    moreover have "count_list (adj ! idx) i \<le> ind ! i" using le [rule_format, of i] True len by simp
    moreover have "i \<in> set new \<longleftrightarrow> 0 < count_list (adj ! idx) i \<and> ind ! i = count_list (adj ! idx) i"
      by (simp only: new(2) count_list_pos_iff mem_Collect_eq)
    ultimately show ?thesis using True by (simp only:) arith
  qed (use bound len new(2) in auto)
  have zer': "ind' ! i = 0 \<longleftrightarrow> i \<in> set ((order @ [idx]) @ q @ new)" if "i < ?n" for i
  proof -
    have "ind ! i = 0 \<Longrightarrow> ind' ! i = 0" using nth' len that by simp
    then show ?thesis using zer [OF that] new_iff [of i] that by auto
  qed
  have disj: "x \<notin> set (order @ idx # q)" if "x \<in> set new" for x
    using that new_iff [of x] zer [of x] by (metis less_irrefl)
  have pre: "d < ?n \<Longrightarrow> idx \<in> set (adj ! d) \<Longrightarrow> d \<in> set order" for d
  proof -
    assume d: "d < ?n" "idx \<in> set (adj ! d)"
    have "ind ! idx = 0" using zer [OF idx(1)] by simp
    then have "pend adj ?A idx = 0" using pnd [OF idx(1)] by simp
    then show ?thesis using d by (auto simp: pend_zero_iff)
  qed
  have "kahn_inv adj (q @ new) ind' (order @ [idx])"
    unfolding kahn_inv_def
  proof (intro conjI)
    show "distinct ((order @ [idx]) @ q @ new)" using dist disj new(1) by fastforce
    show "set ((order @ [idx]) @ q @ new) \<subseteq> {..<?n}" using sub new_iff by auto
    show "\<forall>k < length (order @ [idx]). \<forall>d < ?n.
        (order @ [idx]) ! k \<in> set (adj ! d) \<longrightarrow> d \<in> set (take k (order @ [idx]))"
      using ord pre by (auto simp: nth_append less_Suc_eq)
  qed (use len len' ind' zer' in auto)
  with r show ?thesis by blast
qed

lemma kahn_total:
  assumes "adj_ok adj" and "kahn_inv adj q ind order"
  shows "\<exists>order' ind'. kahn adj q ind order = Some (order', ind') \<and> kahn_inv adj [] ind' order'
    \<and> (\<exists>suf. order' = order @ q @ suf)"
  using assms
proof (induction adj q ind order rule: kahn.induct)
  case (1 adj ind order)
  then show ?case by simp
next
  case (2 adj idx queue ind order)
  have idx: "idx < length adj" using 2(3) by (auto simp: kahn_inv_def)
  obtain ind' q' where r: "relax (adj ! idx) ind queue = Some (ind', q')"
      and inv: "kahn_inv adj q' ind' (order @ [idx])"
    using kahn_inv_step [OF 2(2,3)] by blast
  have pre: "\<exists>new. q' = queue @ new"
    using r by (rule relax_queue_prefix)
  show ?case
    using 2(1) [OF idx r refl 2(2) inv] r idx pre by auto
qed

section \<open>The graph that is built\<close>

lemma build_index_Some:
  "build_index i rs m k = Some j \<Longrightarrow>
     m k = Some j \<or> (i \<le> j \<and> j < i + length rs \<and> rf_resource_id (rs ! (j - i)) = k)"
proof (induction rs arbitrary: i m)
  case (Cons r rs)
  from Cons.prems have "build_index (Suc i) rs (m(rf_resource_id r \<mapsto> i)) k = Some j" by simp
  from Cons.IH [OF this] show ?case by (auto split: if_splits simp: nth_Cons')
qed simp

lemma build_index_None:
  "build_index i rs m k = None \<longleftrightarrow> m k = None \<and> k \<notin> rf_resource_id ` set rs"
  by (induction rs arbitrary: i m) auto

lemma id_to_idx_Some:
  "id_to_idx rs k = Some j \<Longrightarrow> j < length rs \<and> rf_resource_id (rs ! j) = k"
  using build_index_Some [of 0 rs Map.empty k j] by (simp add: id_to_idx_def)

lemma id_to_idx_None [simp]: "id_to_idx rs k = None \<longleftrightarrow> k \<notin> rf_resource_id ` set rs"
  by (simp add: id_to_idx_def build_index_None)

lemma id_to_idx_nth:
  assumes "distinct (map rf_resource_id rs)" and "j < length rs"
  shows "id_to_idx rs (rf_resource_id (rs ! j)) = Some j"
proof -
  have "id_to_idx rs (rf_resource_id (rs ! j)) \<noteq> None" using assms(2) by auto
  then obtain i where i: "id_to_idx rs (rf_resource_id (rs ! j)) = Some i" by blast
  then have "i < length rs" "rf_resource_id (rs ! i) = rf_resource_id (rs ! j)"
    by (auto dest: id_to_idx_Some)
  with assms have "i = j" by (auto simp: distinct_conv_nth)
  with i show ?thesis by simp
qed

text \<open>The dependencies of a resource, when they can be read.\<close>

definition deps_of :: "serde \<Rightarrow> resource_for_routing \<Rightarrow> string list" where
  "deps_of S r = (case read_depends_on S (rf_resource_json r) of Inl _ \<Rightarrow> [] | Inr ds \<Rightarrow> ds)"

lemma deps_of_Inr [simp]: "read_depends_on S (rf_resource_json r) = Inr ds \<Longrightarrow> deps_of S r = ds"
  by (simp add: deps_of_def)

lemma add_deps_Inr:
  assumes "add_deps idx r i ds (ind, adj) = Inr (ind', adj')" and "i < length ind"
    and "\<forall>d \<in> ran idx. d < length adj"
  shows "(\<forall>dep \<in> set ds. \<exists>d. idx dep = Some d \<and> d \<noteq> i)
    \<and> ind' = ind[i := ind ! i + length ds] \<and> length adj' = length adj
    \<and> (\<forall>d < length adj. adj' ! d = adj ! d @ replicate (length (filter (\<lambda>x. idx x = Some d) ds)) i)"
  using assms
proof (induction ds arbitrary: ind adj)
  case (Cons dep ds)
  from Cons.prems(1) obtain d where d: "idx dep = Some d" "d \<noteq> i"
    and rec: "add_deps idx r i ds (ind[i := ind ! i + 1], adj[d := adj ! d @ [i]]) = Inr (ind', adj')"
    by (auto split: option.splits if_splits)
  have "d < length adj" using Cons.prems(3) d(1) by (auto simp: ran_def)
  then show ?case
    using Cons.IH [OF rec] Cons.prems(2,3) d
    by (auto simp: nth_list_update replicate_append_same)
qed simp

lemma build_graph_Inr:
  assumes "build_graph S idx i rs (ind, adj) = Inr (ind', adj')" and "i + length rs \<le> length ind"
    and "\<forall>d \<in> ran idx. d < length adj"
  shows "(\<forall>k < length rs. \<exists>ds. read_depends_on S (rf_resource_json (rs ! k)) = Inr ds
            \<and> (\<forall>dep \<in> set ds. \<exists>d. idx dep = Some d \<and> d \<noteq> i + k))
    \<and> length ind' = length ind \<and> length adj' = length adj
    \<and> (\<forall>j < length ind. ind' ! j = ind ! j +
          (if i \<le> j \<and> j < i + length rs then length (deps_of S (rs ! (j - i))) else 0))
    \<and> (\<forall>d < length adj. \<forall>j. count_list (adj' ! d) j = count_list (adj ! d) j +
          (if i \<le> j \<and> j < i + length rs
           then length (filter (\<lambda>x. idx x = Some d) (deps_of S (rs ! (j - i)))) else 0))"
  using assms
proof (induction rs arbitrary: i ind adj)
  case (Cons r rs)
  from Cons.prems(1) obtain ds ind1 adj1
    where ds: "read_depends_on S (rf_resource_json r) = Inr ds"
      and a: "add_deps idx r i ds (ind, adj) = Inr (ind1, adj1)"
      and rec: "build_graph S idx (Suc i) rs (ind1, adj1) = Inr (ind', adj')"
    by (auto simp: bindE_Inr_iff)
  have i: "i < length ind" using Cons.prems(2) by simp
  note A = add_deps_Inr [OF a i Cons.prems(3)]
  have ih: "(\<forall>k < length rs. \<exists>ds. read_depends_on S (rf_resource_json (rs ! k)) = Inr ds
            \<and> (\<forall>dep \<in> set ds. \<exists>d. idx dep = Some d \<and> d \<noteq> Suc i + k))
    \<and> length ind' = length ind \<and> length adj' = length adj
    \<and> (\<forall>j < length ind. ind' ! j = ind1 ! j +
          (if Suc i \<le> j \<and> j < Suc i + length rs then length (deps_of S (rs ! (j - Suc i))) else 0))
    \<and> (\<forall>d < length adj. \<forall>j. count_list (adj' ! d) j = count_list (adj1 ! d) j +
          (if Suc i \<le> j \<and> j < Suc i + length rs
           then length (filter (\<lambda>x. idx x = Some d) (deps_of S (rs ! (j - Suc i)))) else 0))"
    using Cons.IH [OF rec] Cons.prems(2,3) A by simp
  have cnt: "count_list (replicate m i) j = (if i = j then m else 0)" for m j
    by (induction m) auto
  show ?case
  proof (intro conjI allI impI)
    fix k assume "k < length (r # rs)"
    then show "\<exists>ds. read_depends_on S (rf_resource_json ((r # rs) ! k)) = Inr ds
            \<and> (\<forall>dep \<in> set ds. \<exists>d. idx dep = Some d \<and> d \<noteq> i + k)"
      using ds A ih by (cases k) auto
  next
    fix j assume "j < length ind"
    then show "ind' ! j = ind ! j + (if i \<le> j \<and> j < i + length (r # rs)
        then length (deps_of S ((r # rs) ! (j - i))) else 0)"
      using ih A i ds by (auto simp: nth_list_update nth_Cons')
  next
    fix d j assume "d < length adj"
    then show "count_list (adj' ! d) j = count_list (adj ! d) j + (if i \<le> j \<and> j < i + length (r # rs)
        then length (filter (\<lambda>x. idx x = Some d) (deps_of S ((r # rs) ! (j - i)))) else 0)"
      using ih A ds by (auto simp: cnt nth_Cons')
  qed (use ih in auto)
qed auto

lemma build_graph_total:
  assumes "\<forall>k < length rs. \<exists>ds. read_depends_on S (rf_resource_json (rs ! k)) = Inr ds
            \<and> (\<forall>dep \<in> set ds. \<exists>d. idx dep = Some d \<and> d \<noteq> i + k)"
  shows "\<exists>g'. build_graph S idx i rs g = Inr g'"
  using assms
proof (induction rs arbitrary: i g)
  case (Cons r rs)
  from Cons.prems [rule_format, of 0] obtain ds
    where ds: "read_depends_on S (rf_resource_json r) = Inr ds"
      and ok: "\<forall>dep \<in> set ds. \<exists>d. idx dep = Some d \<and> d \<noteq> i" by auto
  have "\<exists>g'. add_deps idx r i ds g = Inr g'"
    using ok by (induction ds arbitrary: g) (fastforce split: option.splits)+
  then obtain g1 where g1: "add_deps idx r i ds g = Inr g1" by blast
  have "\<forall>k < length rs. \<exists>ds. read_depends_on S (rf_resource_json (rs ! k)) = Inr ds
            \<and> (\<forall>dep \<in> set ds. \<exists>d. idx dep = Some d \<and> d \<noteq> Suc i + k)"
    using Cons.prems by (metis Suc_less_eq add_Suc_shift length_Cons nth_Cons_Suc)
  from Cons.IH [OF this, of g1] show ?case by (simp add: ds g1)
qed simp

lemma sum_filter_index:
  fixes n :: nat
  assumes "\<forall>x \<in> set ds. \<exists>d < n. f x = Some d"
  shows "(\<Sum>d < n. length (filter (\<lambda>x. f x = Some d) ds)) = length ds"
  using assms
proof (induction ds)
  case (Cons x ds)
  then obtain d where d: "d < n" "f x = Some d" by auto
  have "(\<Sum>e < n. length (filter (\<lambda>x. f x = Some e) (x # ds))) =
      (\<Sum>e < n. (if e = d then 1 else 0) + length (filter (\<lambda>x. f x = Some e) ds))"
    by (rule sum.cong) (use d in auto)
  moreover have "(\<Sum>e < n. if e = d then 1 else 0) = (1::nat)"
    using d(1) by (subst sum.delta) auto
  ultimately show ?case using Cons by (simp only: sum.distrib) simp
qed simp

lemma replicate_graph:
  assumes "build_graph S (id_to_idx rs) 0 rs (replicate n 0, replicate n []) = Inr (ind, adj)"
    and n: "n = length rs"
  shows "length ind = n" and "length adj = n" and "adj_ok adj"
    and "\<And>i. i < n \<Longrightarrow> ind ! i = pend adj {..<n} i"
    and "\<And>d k. d < n \<Longrightarrow> k \<in> set (adj ! d) \<longleftrightarrow>
           k < n \<and> (\<exists>dep \<in> set (deps_of S (rs ! k)). id_to_idx rs dep = Some d)"
    and "\<And>k. k < n \<Longrightarrow> \<exists>ds. read_depends_on S (rf_resource_json (rs ! k)) = Inr ds
           \<and> (\<forall>dep \<in> set ds. \<exists>d. id_to_idx rs dep = Some d \<and> d \<noteq> k)"
proof -
  have idx: "\<forall>d \<in> ran (id_to_idx rs). d < n"
    by (auto simp: ran_def n dest: id_to_idx_Some)
  note G = build_graph_Inr [OF assms(1), simplified, folded n, simplified, OF idx]
  show l1: "length ind = n" and l2: "length adj = n" using G by auto
  have cnt: "d < n \<Longrightarrow> count_list (adj ! d) j =
      (if j < n then length (filter (\<lambda>x. id_to_idx rs x = Some d) (deps_of S (rs ! j))) else 0)" for d j
    using G by simp
  show mem: "k \<in> set (adj ! d) \<longleftrightarrow>
           k < n \<and> (\<exists>dep \<in> set (deps_of S (rs ! k)). id_to_idx rs dep = Some d)" if "d < n" for d k
    using cnt [OF that, of k] count_list_pos_iff [of "adj ! d" k]
    by (auto simp: filter_empty_conv split: if_splits)
  show "adj_ok adj"
    unfolding adj_ok_def using mem l2 by (auto simp: in_set_conv_nth [of _ adj])
  show ok: "\<exists>ds. read_depends_on S (rf_resource_json (rs ! k)) = Inr ds
           \<and> (\<forall>dep \<in> set ds. \<exists>d. id_to_idx rs dep = Some d \<and> d \<noteq> k)" if "k < n" for k
    using G that by blast
  show "ind ! i = pend adj {..<n} i" if i: "i < n" for i
  proof -
    have all: "\<forall>x \<in> set (deps_of S (rs ! i)). \<exists>d < n. id_to_idx rs x = Some d"
      using ok [OF i] by (fastforce simp: n dest: id_to_idx_Some)
    have "ind ! i = length (deps_of S (rs ! i))" using G i by simp
    then show ?thesis
      using sum_filter_index [OF all] cnt i by (simp add: pend_def)
  qed
qed

section \<open>What the sort guarantees\<close>

definition deps_wf :: "serde \<Rightarrow> routing \<Rightarrow> bool" where
  "deps_wf S rs \<longleftrightarrow> (\<forall>k < length rs. \<exists>ds. read_depends_on S (rf_resource_json (rs ! k)) = Inr ds
      \<and> (\<forall>dep \<in> set ds. \<exists>d. id_to_idx rs dep = Some d \<and> d \<noteq> k))"

definition dep_edges :: "serde \<Rightarrow> routing \<Rightarrow> (nat \<times> nat) set" where
  "dep_edges S rs = {(d, k). k < length rs \<and> (\<exists>dep \<in> set (deps_of S (rs ! k)). id_to_idx rs dep = Some d)}"

lemma take_cells_distinct:
  assumes "distinct is" and "\<forall>i \<in> set is. i < length cells \<and> cells ! i = Some (f i)"
  shows "take_cells cells is = Some (map f is)"
  using assms
proof (induction "is" arbitrary: cells)
  case (Cons i "is")
  have "take_cells (cells[i := None]) is = Some (map f is)"
    using Cons.prems by (intro Cons.IH) (auto simp: nth_list_update)
  with Cons.prems show ?case by simp
qed simp

text \<open>The whole run of the sort on a graph that was built.\<close>

lemma kahn_from_graph:
  assumes g: "build_graph S (id_to_idx rs) 0 rs (replicate n 0, replicate n []) = Inr (ind, adj)"
    and n: "n = length rs"
  shows "\<exists>order ind'. kahn adj (filter (\<lambda>i. ind ! i = 0) [0..<n]) ind [] = Some (order, ind')
    \<and> kahn_inv adj [] ind' order
    \<and> (\<exists>suf. order = filter (\<lambda>i. ind ! i = 0) [0..<n] @ suf)"
proof -
  note G = replicate_graph [OF g n]
  have "kahn_inv adj (filter (\<lambda>i. ind ! i = 0) [0..<n]) ind []"
    using G by (auto simp: kahn_inv_def)
  from kahn_total [OF G(3) this] show ?thesis by auto
qed

lemma topo_sort_cases:
  assumes "rs \<noteq> []"
  obtains (graph) e where "build_graph S (id_to_idx rs) 0 rs
        (replicate (length rs) 0, replicate (length rs) []) = Inl e"
      and "topo_sort_by_depends_on S rs = Inl e"
  | (cycle) ind adj order ind' where "build_graph S (id_to_idx rs) 0 rs
        (replicate (length rs) 0, replicate (length rs) []) = Inr (ind, adj)"
      and "kahn_inv adj [] ind' order" and "length order \<noteq> length rs"
      and "topo_sort_by_depends_on S rs =
        Inl (BadRequest (Msg ''dependsOn cycle detected (involves: {})'' (stuck_ids rs ind')))"
  | (sorted) ind adj order ind' where "build_graph S (id_to_idx rs) 0 rs
        (replicate (length rs) 0, replicate (length rs) []) = Inr (ind, adj)"
      and "kahn_inv adj [] ind' order" and "length order = length rs"
      and "\<exists>suf. order = filter (\<lambda>i. ind ! i = 0) [0..<length rs] @ suf"
      and "topo_sort_by_depends_on S rs = Inr (map ((!) rs) order)"
proof (cases "build_graph S (id_to_idx rs) 0 rs (replicate (length rs) 0, replicate (length rs) [])")
  case (Inl e)
  with assms graph show ?thesis by (simp add: topo_sort_by_depends_on_def)
next
  case (Inr g)
  obtain ind adj where g: "build_graph S (id_to_idx rs) 0 rs
      (replicate (length rs) 0, replicate (length rs) []) = Inr (ind, adj)"
    using Inr by (cases g) auto
  obtain order ind' where k: "kahn adj (filter (\<lambda>i. ind ! i = 0) [0..<length rs]) ind [] = Some (order, ind')"
    and inv: "kahn_inv adj [] ind' order"
    and pre: "\<exists>suf. order = filter (\<lambda>i. ind ! i = 0) [0..<length rs] @ suf"
    using kahn_from_graph [OF g refl] by blast
  have "take_cells (map Some rs) order = Some (map ((!) rs) order)"
    using inv replicate_graph(2) [OF g refl]
    by (intro take_cells_distinct) (auto simp: kahn_inv_def)
  then show ?thesis
    using assms g k inv pre cycle sorted
    by (cases "length order = length rs") (simp_all add: topo_sort_by_depends_on_def)
qed

lemma read_depends_on_no_panic: "read_depends_on S j \<noteq> Inl Panic"
proof -
  have "collect_deps out arr \<noteq> Inl Panic" for out arr
    by (induction out arr rule: collect_deps.induct) (auto split: option.splits)
  then show ?thesis
    by (auto simp: read_depends_on_def split: option.splits)
qed

lemma build_graph_no_panic: "build_graph S idx i rs g \<noteq> Inl Panic"
proof (induction rs arbitrary: i g)
  case (Cons r rs)
  have "add_deps idx r i ds g \<noteq> Inl Panic" for ds g
    by (induction ds arbitrary: g) (auto split: option.splits if_splits)
  with Cons read_depends_on_no_panic show ?case by (auto simp: bindE_Inl_iff)
qed simp

text \<open>A run that stops early leaves a non-empty set of nodes each of which waits for another.\<close>

lemma kahn_inv_stuck:
  assumes inv: "kahn_inv adj [] ind order" and len: "length order \<noteq> length adj"
    and e: "e = {(d, k). d < length adj \<and> k \<in> set (adj ! d) \<and> k < length adj}"
  shows "\<not> acyclic e"
proof
  assume "acyclic e"
  let ?R = "{..<length adj} - set order"
  have "finite e" by (rule finite_subset [of _ "{..<length adj} \<times> {..<length adj}"]) (auto simp: e)
  from this \<open>acyclic e\<close> have wf: "wf e" by (rule finite_acyclic_wf)
  have "card (set order) = length order" "set order \<subseteq> {..<length adj}"
    using inv by (auto simp: kahn_inv_def distinct_card)
  then have "?R \<noteq> {}" using len by (metis Diff_eq_empty_iff card_lessThan subset_antisym)
  with wf obtain z where z: "z \<in> ?R" "\<And>y. (y, z) \<in> e \<Longrightarrow> y \<notin> ?R"
    by (metis wf_eq_minimal ex_in_conv)
  have "ind ! z \<noteq> 0" using inv z(1) by (auto simp: kahn_inv_def)
  moreover have "ind ! z = pend adj ?R z" using inv z(1) by (auto simp: kahn_inv_def)
  ultimately obtain d where "d \<in> ?R" "z \<in> set (adj ! d)" by (auto simp: pend_zero_iff)
  with z show False by (auto simp: e)
qed

lemma dep_edges_graph:
  assumes "build_graph S (id_to_idx rs) 0 rs (replicate (length rs) 0, replicate (length rs) [])
      = Inr (ind, adj)"
  shows "dep_edges S rs = {(d, k). d < length adj \<and> k \<in> set (adj ! d) \<and> k < length adj}"
  using replicate_graph(2,5) [OF assms refl]
  by (auto simp: dep_edges_def dest: id_to_idx_Some)

lemma sorted_order_acyclic:
  assumes "\<forall>k < length order. \<forall>d. (d, order ! k) \<in> e \<longrightarrow> d \<in> set (take k order)"
    and "\<forall>(d, k) \<in> e. k \<in> set order"
  shows "acyclic e"
proof -
  define pos where "pos x = (LEAST k. k < length order \<and> order ! k = x)" for x
  have pos: "pos x < length order \<and> order ! (pos x) = x" if "x \<in> set order" for x
  proof -
    from that obtain k where "k < length order \<and> order ! k = x" by (auto simp: in_set_conv_nth)
    then show ?thesis unfolding pos_def by (rule LeastI)
  qed
  have "pos d < pos k" if "(d, k) \<in> e" for d k
  proof -
    have "k \<in> set order" using assms(2) that by auto
    with pos have k: "pos k < length order" "order ! pos k = k" by auto
    with assms(1) that have "d \<in> set (take (pos k) order)" by auto
    then obtain j where j: "j < pos k" "j < length order" "order ! j = d"
      by (auto simp: in_set_conv_nth)
    then have "pos d \<le> j" unfolding pos_def by (auto intro: Least_le)
    with j show ?thesis by simp
  qed
  then have "e \<subseteq> measure pos" by auto
  then show ?thesis by (meson wf_acyclic wf_measure wf_subset)
qed

lemma topo_sort_map:
  assumes "topo_sort_by_depends_on S rs = Inr out"
  shows "\<exists>order. out = map ((!) rs) order \<and> mset order = mset [0..<length rs]
    \<and> (\<forall>k < length order. order ! k < length rs
        \<and> (\<exists>ds. read_depends_on S (rf_resource_json (rs ! (order ! k))) = Inr ds
            \<and> (\<forall>dep \<in> set ds. \<exists>d \<in> set (take k order). id_to_idx rs dep = Some d)))"
proof (cases "rs = []")
  case True
  with assms show ?thesis by (simp add: topo_sort_by_depends_on_def)
next
  case False
  then show ?thesis
  proof (cases rule: topo_sort_cases [where S = S])
    case (sorted ind adj order ind')
    note G = replicate_graph [OF sorted(1) refl]
    have ord: "distinct order" "set order \<subseteq> {..<length rs}"
      and pre: "\<And>k d. k < length order \<Longrightarrow> d < length rs \<Longrightarrow> order ! k \<in> set (adj ! d)
        \<Longrightarrow> d \<in> set (take k order)"
      using sorted(2) G(2) by (auto simp: kahn_inv_def)
    have "set order = {..<length rs}"
      using ord sorted(3) by (metis card_lessThan card_subset_eq distinct_card finite_lessThan)
    then have "mset order = mset [0..<length rs]"
      using ord(1) by (metis atLeast_upt distinct_upt set_eq_iff_mset_eq_distinct)
    moreover have "order ! k < length rs
        \<and> (\<exists>ds. read_depends_on S (rf_resource_json (rs ! (order ! k))) = Inr ds
            \<and> (\<forall>dep \<in> set ds. \<exists>d \<in> set (take k order). id_to_idx rs dep = Some d))"
      if k: "k < length order" for k
    proof -
      have ok: "order ! k < length rs" using k ord(2) by (metis lessThan_iff nth_mem subsetD)
      from G(6) [OF this] obtain ds where ds: "read_depends_on S (rf_resource_json (rs ! (order ! k))) = Inr ds"
        and known: "\<And>dep. dep \<in> set ds \<Longrightarrow> \<exists>d. id_to_idx rs dep = Some d" by blast
      have "\<exists>d \<in> set (take k order). id_to_idx rs dep = Some d" if dep: "dep \<in> set ds" for dep
      proof -
        obtain d where d: "id_to_idx rs dep = Some d" using known [OF dep] by blast
        then have dn: "d < length rs" by (auto dest: id_to_idx_Some)
        have "order ! k \<in> set (adj ! d)" using G(5) [OF dn] ok ds dep d by auto
        with pre [OF k dn] d show ?thesis by blast
      qed
      with ok ds show ?thesis by blast
    qed
    ultimately show ?thesis using assms sorted(5) by (intro exI [of _ order]) auto
  qed (use assms in auto)
qed

lemma topo_sort_perm: "topo_sort_by_depends_on S rs = Inr out \<Longrightarrow> mset out = mset rs"
  by (metis mset_map_nth topo_sort_map)

lemma topo_sort_before:
  assumes "topo_sort_by_depends_on S rs = Inr out" and i: "i < length out"
  shows "\<exists>ds. read_depends_on S (rf_resource_json (out ! i)) = Inr ds
      \<and> (\<forall>dep \<in> set ds. \<exists>j < i. rf_resource_id (out ! j) = dep)"
proof -
  obtain order where o: "out = map ((!) rs) order"
    "\<And>k. k < length order \<Longrightarrow> \<exists>ds. read_depends_on S (rf_resource_json (rs ! (order ! k))) = Inr ds
            \<and> (\<forall>dep \<in> set ds. \<exists>d \<in> set (take k order). id_to_idx rs dep = Some d)"
    using topo_sort_map [OF assms(1)] by blast
  have pos: "\<exists>j < i. rf_resource_id (out ! j) = dep"
    if "d \<in> set (take i order)" "id_to_idx rs dep = Some d" for d dep
  proof -
    from that(1) obtain j where "j < i" "j < length order" "order ! j = d"
      by (auto simp: in_set_conv_nth)
    with that(2) show ?thesis by (intro exI [of _ j]) (auto simp: o(1) dest: id_to_idx_Some)
  qed
  from i o(2) [of i] o(1) pos show ?thesis by fastforce
qed

text \<open>
  C16. The topological sort is sound: whenever \<open>topo_sort_by_depends_on\<close> accepts a routing list,
  its result is a permutation of the list in which the dependencies of every resource can be read
  and each of them is the id of a resource at an earlier position.
\<close>

theorem topo_sort_sound:
  assumes "topo_sort_by_depends_on S rs = Inr out"
  shows "mset out = mset rs \<and> (\<forall>i < length out. \<exists>ds.
      read_depends_on S (rf_resource_json (out ! i)) = Inr ds
      \<and> (\<forall>dep \<in> set ds. \<exists>j < i. rf_resource_id (out ! j) = dep))"
  using topo_sort_perm [OF assms] topo_sort_before [OF assms] by blast

text \<open>
  C17. The sort accepts exactly the well-formed acyclic dependency graphs: it succeeds if and only
  if every dependency list can be read, names known resources other than the resource itself, and
  the dependency relation has no cycle.
\<close>

theorem topo_sort_accepts_iff_acyclic:
  "(\<exists>out. topo_sort_by_depends_on S rs = Inr out) \<longleftrightarrow> deps_wf S rs \<and> acyclic (dep_edges S rs)"
proof (cases "rs = []")
  case True
  then show ?thesis
    by (auto simp: topo_sort_by_depends_on_def deps_wf_def dep_edges_def acyclic_def)
next
  case False
  then show ?thesis
  proof (cases rule: topo_sort_cases [where S = S])
    case (graph e)
    have "\<not> deps_wf S rs"
    proof
      assume "deps_wf S rs"
      then have "\<exists>g'. build_graph S (id_to_idx rs) 0 rs
          (replicate (length rs) 0, replicate (length rs) []) = Inr g'"
        by (intro build_graph_total) (simp add: deps_wf_def)
      with graph show False by simp
    qed
    with graph show ?thesis by simp
  next
    case (cycle ind adj order ind')
    have "length order \<noteq> length adj" using cycle replicate_graph(2) [OF cycle(1) refl] by simp
    from kahn_inv_stuck [OF cycle(2) this dep_edges_graph [OF cycle(1)]]
    show ?thesis using cycle(4) by simp
  next
    case (sorted ind adj order ind')
    note G = replicate_graph [OF sorted(1) refl]
    have "deps_wf S rs" using G(6) by (simp add: deps_wf_def)
    moreover have "acyclic (dep_edges S rs)"
    proof (rule sorted_order_acyclic [of order])
      show "\<forall>k < length order. \<forall>d. (d, order ! k) \<in> dep_edges S rs \<longrightarrow> d \<in> set (take k order)"
        using sorted(2) unfolding dep_edges_graph [OF sorted(1)] by (auto simp: kahn_inv_def)
      have "set order = {..<length adj}"
        using sorted(2,3) G(2) unfolding kahn_inv_def
        by (metis append_Nil2 card_lessThan card_subset_eq distinct_card finite_lessThan)
      then show "\<forall>(d, k) \<in> dep_edges S rs. k \<in> set order"
        unfolding dep_edges_graph [OF sorted(1)] by auto
    qed
    ultimately show ?thesis using sorted(5) by simp
  qed
qed

text \<open>
  The sort never panics: no in-degree is decremented below zero, no index is out of range and
  no cell is taken twice, whatever the submitted list is.
\<close>

theorem topo_sort_no_panic: "topo_sort_by_depends_on S rs \<noteq> Inl Panic"
proof (cases "rs = []")
  case False
  then show ?thesis
    by (cases rule: topo_sort_cases [where S = S]) (use build_graph_no_panic in force)+
qed (simp add: topo_sort_by_depends_on_def)

text \<open>
  Stability: the resources that declare no dependency keep their submitted order and come
  first; in particular a list without dependencies is returned unchanged.
\<close>

theorem topo_sort_stable:
  assumes "topo_sort_by_depends_on S rs = Inr out"
  shows "\<exists>rest. out = filter (\<lambda>r. deps_of S r = []) rs @ rest"
proof (cases "rs = []")
  case True
  with assms show ?thesis by (simp add: topo_sort_by_depends_on_def)
next
  case False
  then show ?thesis
  proof (cases rule: topo_sort_cases [where S = S])
    case (sorted ind adj order ind')
    note G = replicate_graph [OF sorted(1) refl]
    have zero: "ind ! i = 0 \<longleftrightarrow> deps_of S (rs ! i) = []" if "i < length rs" for i
    proof -
      have known: "\<exists>d < length rs. id_to_idx rs dep = Some d" if "dep \<in> set (deps_of S (rs ! i))" for dep
        using G(6) [OF \<open>i < length rs\<close>] that by (fastforce dest: id_to_idx_Some)
      have "ind ! i = 0 \<longleftrightarrow> (\<forall>d < length rs. i \<notin> set (adj ! d))"
        using G(4) [OF that] by (auto simp: pend_zero_iff)
      also have "\<dots> \<longleftrightarrow> (\<forall>dep \<in> set (deps_of S (rs ! i)). \<forall>d < length rs. id_to_idx rs dep \<noteq> Some d)"
        using G(5) that by blast
      also have "\<dots> \<longleftrightarrow> deps_of S (rs ! i) = []"
        using known by (metis list.set_intros(1) neq_Nil_conv empty_iff empty_set)
      finally show ?thesis .
    qed
    obtain suf where "order = filter (\<lambda>i. ind ! i = 0) [0..<length rs] @ suf" using sorted(4) by blast
    moreover have "filter (\<lambda>i. ind ! i = 0) [0..<length rs] =
        filter (\<lambda>i. deps_of S (rs ! i) = []) [0..<length rs]"
      by (rule filter_cong) (auto simp: zero)
    moreover have "map ((!) rs) (filter (\<lambda>i. deps_of S (rs ! i) = []) [0..<length rs]) =
        filter (\<lambda>r. deps_of S r = []) rs"
      by (metis (no_types, lifting) comp_apply filter_cong filter_map map_nth)
    ultimately have "out = filter (\<lambda>r. deps_of S r = []) rs @ map ((!) rs) suf"
      using assms sorted(5) by simp
    then show ?thesis by blast
  qed (use assms in auto)
qed

section \<open>What the layers mean\<close>

lemma max_dep_layer_Inr:
  assumes "\<forall>dep \<in> set ds. \<exists>d < i. idx dep = Some d"
  shows "\<exists>m'. max_dep_layer idx r i layers ds m = Inr m' \<and> m \<le> m'
    \<and> (\<forall>dep \<in> set ds. layers ! the (idx dep) \<le> m')
    \<and> (m' = m \<or> (\<exists>dep \<in> set ds. layers ! the (idx dep) = m'))"
  using assms
proof (induction ds arbitrary: m)
  case (Cons dep ds)
  then obtain d where d: "d < i" "idx dep = Some d" by auto
  from Cons obtain m' where "max_dep_layer idx r i layers ds (max m (layers ! d)) = Inr m'"
    "max m (layers ! d) \<le> m'" "\<forall>dep \<in> set ds. layers ! the (idx dep) \<le> m'"
    "m' = max m (layers ! d) \<or> (\<exists>dep \<in> set ds. layers ! the (idx dep) = m')"
    by (metis list.set_intros(2))
  with d show ?case by (auto simp: max_def split: if_splits)
qed simp

text \<open>A list of layers fits a routing list when every layer is one more than the largest layer
  among the resource's dependencies (zero without dependencies).\<close>

definition layer_at :: "(string \<rightharpoonup> nat) \<Rightarrow> string list \<Rightarrow> int list \<Rightarrow> nat \<Rightarrow> bool" where
  "layer_at idx ds ls i \<longleftrightarrow> 0 \<le> ls ! i
     \<and> (\<forall>dep \<in> set ds. ls ! the (idx dep) < ls ! i)
     \<and> (0 < ls ! i \<longrightarrow> (\<exists>dep \<in> set ds. ls ! the (idx dep) + 1 = ls ! i))"

lemma layer_loop_Inr:
  assumes "\<forall>k < length rs. \<exists>ds. read_depends_on S (rf_resource_json (rs ! k)) = Inr ds
      \<and> (\<forall>dep \<in> set ds. \<exists>d < i + k. idx dep = Some d)"
    and "i + length rs = length layers"
  shows "\<exists>ls. layer_loop S idx i rs layers = Inr ls \<and> length ls = length layers
    \<and> (\<forall>j < i. ls ! j = layers ! j)
    \<and> (\<forall>k < length rs. layer_at idx (deps_of S (rs ! k)) ls (i + k))"
  using assms
proof (induction rs arbitrary: i layers)
  case (Cons r rs)
  from Cons.prems(1) [rule_format, of 0] obtain ds
    where ds: "read_depends_on S (rf_resource_json r) = Inr ds"
      and known: "\<forall>dep \<in> set ds. \<exists>d < i. idx dep = Some d" by auto
  obtain m where m: "max_dep_layer idx r i layers ds (-1) = Inr m" "-1 \<le> m"
    "\<forall>dep \<in> set ds. layers ! the (idx dep) \<le> m"
    "m = -1 \<or> (\<exists>dep \<in> set ds. layers ! the (idx dep) = m)"
    using max_dep_layer_Inr [OF known] by metis
  let ?ls = "layers[i := m + 1]"
  have "\<forall>k < length rs. \<exists>ds. read_depends_on S (rf_resource_json (rs ! k)) = Inr ds
      \<and> (\<forall>dep \<in> set ds. \<exists>d < Suc i + k. idx dep = Some d)"
    using Cons.prems(1) by (metis Suc_less_eq add_Suc_shift length_Cons nth_Cons_Suc)
  then obtain ls where ls: "layer_loop S idx (Suc i) rs ?ls = Inr ls" "length ls = length layers"
    "\<forall>j < Suc i. ls ! j = ?ls ! j"
    "\<forall>k < length rs. layer_at idx (deps_of S (rs ! k)) ls (Suc i + k)"
    using Cons.IH [of "Suc i" ?ls] Cons.prems(2) by auto
  have i: "ls ! i = m + 1" using ls(3) Cons.prems(2) by simp
  have low: "dep \<in> set ds \<Longrightarrow> ls ! the (idx dep) = layers ! the (idx dep)" for dep
    using known ls(3) by fastforce
  have "layer_at idx ds ls i"
    unfolding layer_at_def i
  proof (intro conjI ballI impI)
    show "ls ! the (idx dep) < m + 1" if "dep \<in> set ds" for dep
      using m(3) low [OF that] that by auto
    show "\<exists>dep \<in> set ds. ls ! the (idx dep) + 1 = m + 1" if "0 < m + 1"
      using m(4) low that by auto
  qed (use m(2) in simp)
  then have "\<forall>k < length (r # rs). layer_at idx (deps_of S ((r # rs) ! k)) ls (i + k)"
    using ls(4) ds by (auto simp: nth_Cons' dest: gr0_implies_Suc)
  moreover have "\<forall>j < i. ls ! j = layers ! j" using ls(3) by simp
  ultimately show ?case using ds m(1) ls(1,2) by auto
qed simp

text \<open>The contract between the sort and the layering: dependencies of a resource are at smaller
  positions of the list.\<close>

lemma sorted_known:
  assumes t: "topo_sort_by_depends_on S rs = Inr out" and d: "distinct (map rf_resource_id rs)"
    and i: "i < length out"
  shows "\<exists>ds. read_depends_on S (rf_resource_json (out ! i)) = Inr ds
    \<and> (\<forall>dep \<in> set ds. \<exists>j < i. id_to_idx out dep = Some j)"
proof -
  note T = topo_sort_perm [OF t] topo_sort_before [OF t i]
  have "mset (map rf_resource_id out) = mset (map rf_resource_id rs)" using T(1) by simp
  with d have do: "distinct (map rf_resource_id out)" using mset_eq_imp_distinct_iff by blast
  obtain ds where ds: "read_depends_on S (rf_resource_json (out ! i)) = Inr ds"
    "\<forall>dep \<in> set ds. \<exists>j < i. rf_resource_id (out ! j) = dep" using T(2) by blast
  have "\<exists>j < i. id_to_idx out dep = Some j" if "dep \<in> set ds" for dep
    using ds(2) that i id_to_idx_nth [OF do] by (metis less_trans)
  with ds(1) show ?thesis by blast
qed

text \<open>
  C18. Layers are longest dependency chains: on a sorted list with distinct resource ids the layer
  computation succeeds, every dependency of a resource lies in a strictly lower layer, and a
  resource in a layer above zero has a dependency exactly one layer below.
\<close>

theorem compute_resource_layers_correct:
  assumes "topo_sort_by_depends_on S rs = Inr out" and "distinct (map rf_resource_id rs)"
  shows "\<exists>ls. compute_resource_layers S out = Inr ls \<and> length ls = length out
    \<and> (\<forall>i < length out. 0 \<le> ls ! i
        \<and> (\<forall>dep \<in> set (deps_of S (out ! i)). \<exists>j < i. rf_resource_id (out ! j) = dep \<and> ls ! j < ls ! i)
        \<and> (0 < ls ! i \<longrightarrow> (\<exists>dep \<in> set (deps_of S (out ! i)). \<exists>j < i.
              rf_resource_id (out ! j) = dep \<and> ls ! j + 1 = ls ! i)))"
proof (cases "out = []")
  case True
  then show ?thesis by (simp add: compute_resource_layers_def)
next
  case False
  have known: "\<forall>k < length out. \<exists>ds. read_depends_on S (rf_resource_json (out ! k)) = Inr ds
      \<and> (\<forall>dep \<in> set ds. \<exists>d < 0 + k. id_to_idx out dep = Some d)"
    using sorted_known [OF assms] by simp
  obtain ls where ls: "layer_loop S (id_to_idx out) 0 out (replicate (length out) 0) = Inr ls"
      "length ls = length out"
      "\<forall>k < length out. layer_at (id_to_idx out) (deps_of S (out ! k)) ls k"
    using layer_loop_Inr [OF known, of "replicate (length out) 0"] by auto
  have idx: "\<exists>j < i. rf_resource_id (out ! j) = dep \<and> the (id_to_idx out dep) = j"
    if "i < length out" "dep \<in> set (deps_of S (out ! i))" for i dep
    using known [rule_format, OF that(1)] that(2) by (fastforce dest: id_to_idx_Some)
  have "0 \<le> ls ! i
        \<and> (\<forall>dep \<in> set (deps_of S (out ! i)). \<exists>j < i. rf_resource_id (out ! j) = dep \<and> ls ! j < ls ! i)
        \<and> (0 < ls ! i \<longrightarrow> (\<exists>dep \<in> set (deps_of S (out ! i)). \<exists>j < i.
              rf_resource_id (out ! j) = dep \<and> ls ! j + 1 = ls ! i))" if i: "i < length out" for i
  proof (intro conjI ballI impI)
    from i ls(3) have at: "layer_at (id_to_idx out) (deps_of S (out ! i)) ls i" by blast
    then show "0 \<le> ls ! i" by (simp add: layer_at_def)
    show "\<exists>j < i. rf_resource_id (out ! j) = dep \<and> ls ! j < ls ! i"
      if "dep \<in> set (deps_of S (out ! i))" for dep
      using at idx [OF i that] that by (auto simp: layer_at_def)
    show "\<exists>dep \<in> set (deps_of S (out ! i)). \<exists>j < i. rf_resource_id (out ! j) = dep \<and> ls ! j + 1 = ls ! i"
      if "0 < ls ! i"
      using at that idx [OF i] unfolding layer_at_def by blast
  qed
  moreover have "compute_resource_layers S out = Inr ls"
    using False ls(1) by (simp add: compute_resource_layers_def)
  ultimately show ?thesis using ls(2) by blast
qed

section \<open>Examples\<close>

text \<open>A two-resource operation: \<open>web\<close> depends on \<open>db\<close> and is submitted first.\<close>

definition sample_serde :: serde where
  "sample_serde = \<lparr>from_str = (\<lambda>s.
      if s = ''web'' then Some (JObj [(''metadata'', JObj [(''dependsOn'', JArr [JStr ''file/prod/db''])])])
      else Some (JObj [])), to_str = (\<lambda>_. [])\<rparr>"

definition sample_db :: resource_for_routing where
  "sample_db = \<lparr>rf_resource_id = ''file/prod/db'', rf_kind = ''file'', rf_environment = ''prod'',
     rf_resource_json = ''db'', rf_name = ''db'', rf_host_selector = None\<rparr>"

definition sample_web :: resource_for_routing where
  "sample_web = \<lparr>rf_resource_id = ''file/prod/web'', rf_kind = ''file'', rf_environment = ''prod'',
     rf_resource_json = ''web'', rf_name = ''web'', rf_host_selector = None\<rparr>"

lemma sample_sorted:
  "topo_sort_by_depends_on sample_serde [sample_web, sample_db] = Inr [sample_db, sample_web]"
  by code_simp

theorem topo_sort_sound_witness:
  "topo_sort_by_depends_on sample_serde [sample_web, sample_db] = Inr [sample_db, sample_web]
    \<and> (\<exists>j < Suc 0. rf_resource_id ([sample_db, sample_web] ! j) = ''file/prod/db'')"
proof -
  have d: "read_depends_on sample_serde (rf_resource_json sample_web) = Inr [''file/prod/db'']"
    by code_simp
  show ?thesis
    using topo_sort_sound [OF sample_sorted] sample_sorted d by (auto dest!: spec [of _ "Suc 0"])
qed

theorem topo_sort_stable_witness:
  "topo_sort_by_depends_on sample_serde [sample_web, sample_db] = Inr [sample_db, sample_web]
    \<and> (\<exists>rest. [sample_db, sample_web] =
        filter (\<lambda>r. deps_of sample_serde r = []) [sample_web, sample_db] @ rest)"
  using topo_sort_stable [OF sample_sorted] sample_sorted by simp

theorem compute_resource_layers_witness:
  "distinct (map rf_resource_id [sample_web, sample_db])
    \<and> (\<exists>ls. compute_resource_layers sample_serde [sample_db, sample_web] = Inr ls \<and> length ls = 2)"
proof -
  have d: "distinct (map rf_resource_id [sample_web, sample_db])" by code_simp
  show ?thesis using compute_resource_layers_correct [OF sample_sorted d] d by auto
qed

section \<open>Layers have no gaps\<close>

lemma max_dep_layer_range:
  "max_dep_layer idx r i layers ds m = Inr m' \<Longrightarrow> m \<le> m' \<and> (m' = m \<or> (\<exists>d < i. m' = layers ! d))"
proof (induction ds arbitrary: m)
  case (Cons dep ds)
  then obtain d where d: "idx dep = Some d" "\<not> i \<le> d"
    "max_dep_layer idx r i layers ds (max m (layers ! d)) = Inr m'"
    by (auto split: option.splits if_splits)
  have "max m (layers ! d) = m \<or> max m (layers ! d) = layers ! d" by (simp add: max_def)
  with Cons.IH [OF d(3)] d(2) show ?case by (metis leI le_max_iff_disj order_trans order_refl)
qed simp

lemma layer_loop_steps:
  assumes "layer_loop S idx i rs layers = Inr ls" and "i + length rs = length layers"
  shows "length ls = length layers \<and> (\<forall>j < i. ls ! j = layers ! j)
    \<and> (\<forall>j. i \<le> j \<and> j < length layers \<longrightarrow> 0 \<le> ls ! j \<and> (0 < ls ! j \<longrightarrow> (\<exists>k < j. ls ! k + 1 = ls ! j)))"
  using assms
proof (induction rs arbitrary: i layers)
  case (Cons r rs)
  from Cons.prems(1) obtain ds m where
    "read_depends_on S (rf_resource_json r) = Inr ds" and m: "max_dep_layer idx r i layers ds (-1) = Inr m"
    and rec: "layer_loop S idx (Suc i) rs (layers[i := m + 1]) = Inr ls"
    by (auto simp: bindE_Inr_iff)
  note IH = Cons.IH [OF rec]
  have len: "Suc i + length rs = length (layers[i := m + 1])" using Cons.prems(2) by simp
  note IH = IH [OF len]
  have at: "ls ! i = m + 1" using IH Cons.prems(2) by simp
  have low: "\<forall>j < i. ls ! j = layers ! j" using IH by simp
  have "0 \<le> ls ! i \<and> (0 < ls ! i \<longrightarrow> (\<exists>k < i. ls ! k + 1 = ls ! i))"
    using max_dep_layer_range [OF m] at low by auto
  moreover have "\<forall>j. Suc i \<le> j \<and> j < length layers \<longrightarrow> 0 \<le> ls ! j \<and> (0 < ls ! j \<longrightarrow> (\<exists>k < j. ls ! k + 1 = ls ! j))"
    using IH by simp
  ultimately have "\<forall>j. i \<le> j \<and> j < length layers \<longrightarrow> 0 \<le> ls ! j \<and> (0 < ls ! j \<longrightarrow> (\<exists>k < j. ls ! k + 1 = ls ! j))"
    by (metis le_antisym not_less_eq_eq)
  with low IH show ?case by simp
qed simp

lemma compute_layers_steps:
  assumes "compute_resource_layers S rs = Inr ls"
  shows "length ls = length rs"
    and "j < length ls \<Longrightarrow> 0 \<le> ls ! j"
    and "j < length ls \<Longrightarrow> 0 < ls ! j \<Longrightarrow> \<exists>k < j. ls ! k + 1 = ls ! j"
proof -
  have "length ls = length rs \<and> (\<forall>j < length ls. 0 \<le> ls ! j \<and> (0 < ls ! j \<longrightarrow> (\<exists>k < j. ls ! k + 1 = ls ! j)))"
  proof (cases "rs = []")
    case False
    then have "layer_loop S (id_to_idx rs) 0 rs (replicate (length rs) 0) = Inr ls"
      using assms by (simp add: compute_resource_layers_def)
    from layer_loop_steps [OF this] show ?thesis by simp
  qed (use assms in \<open>simp add: compute_resource_layers_def\<close>)
  then show "length ls = length rs" "j < length ls \<Longrightarrow> 0 \<le> ls ! j"
    "j < length ls \<Longrightarrow> 0 < ls ! j \<Longrightarrow> \<exists>k < j. ls ! k + 1 = ls ! j" by auto
qed

lemma compute_layers_nonneg: "compute_resource_layers S rs = Inr ls \<Longrightarrow> l \<in> set ls \<Longrightarrow> 0 \<le> l"
  using compute_layers_steps(2) by (metis in_set_conv_nth)

text \<open>The layers in use are an initial segment of the numbers.\<close>

lemma compute_layers_contiguous:
  assumes "compute_resource_layers S rs = Inr ls" and "x \<in> set ls" and "0 \<le> l" "l \<le> x"
  shows "l \<in> set ls"
proof -
  have "j < length ls \<Longrightarrow> l \<le> ls ! j \<Longrightarrow> l \<in> set ls" for j
  proof (induction j rule: less_induct)
    case (less j)
    show ?case
    proof (cases "l = ls ! j")
      case False
      with less.prems assms(3) have "0 < ls ! j" "l < ls ! j" by auto
      then obtain k where "k < j" "ls ! k + 1 = ls ! j" using compute_layers_steps(3) [OF assms(1)] less.prems by blast
      with less \<open>l < ls ! j\<close> show ?thesis by auto
    qed (use less.prems in simp)
  qed
  with assms(2,4) show ?thesis by (metis in_set_conv_nth)
qed

end
