(* ===== verification/Routing.thy ===== *)
theory Routing
  imports Depsort Store_Db
begin

text \<open>
  Which agent a resource goes to and how a rollout is cut into canary and baseline: the pure
  helpers of \<open>store.rs\<close> that \<open>create_operation\<close> and \<open>approve_operation\<close> use
  (\<open>route_resource\<close>, \<open>strip_routing_hints\<close>, \<open>bucket_agents_per_layer\<close>,
  \<open>compute_canary_split\<close>).
\<close>

section \<open>Routing\<close>

type_synonym agent_info = "string \<times> string \<times> string"  \<comment> \<open>id, name, environment\<close>

definition route_resource :: "resource_for_routing \<Rightarrow> string \<Rightarrow> agent_info list \<Rightarrow> (err_msg, string) result" where
  "route_resource r operation_env agents =
     (case rf_host_selector r of
        Some host \<Rightarrow>
          (case find (\<lambda>(i, name, env). name = host \<and> env = operation_env) agents of
             Some (i, _, _) \<Rightarrow> Inr i
           | None \<Rightarrow> Inl (Msg ''hostSelector.name={:?} but no agent registered in environment={:?}''
                            [host, operation_env]))
      | None \<Rightarrow>
          (case filter (\<lambda>(_, _, env). env = operation_env) agents of
             [] \<Rightarrow> Inl (Msg ''no agents registered in environment={:?}'' [operation_env])
           | [(i, _, _)] \<Rightarrow> Inr i
           | env_agents \<Rightarrow> Inl (Msg ''{} agents in environment={:?}; resource needs spec.hostSelector.name''
                                 [show_nat (length env_agents), operation_env])))"

definition strip_routing_hints :: "json \<Rightarrow> json" where
  "strip_routing_hints v =
     (case v of
        JObj m \<Rightarrow>
          (case map_of m ''spec'' of
             Some (JObj spec) \<Rightarrow>
               JObj (map (\<lambda>(k, x). if k = ''spec''
                                   then (k, JObj (filter (\<lambda>(f, _). f \<noteq> ''hostSelector'') spec))
                                   else (k, x)) m)
           | _ \<Rightarrow> v)
      | _ \<Rightarrow> v)"

text \<open>The snapshot \<open>SELECT id, name, environment FROM agents\<close>.\<close>

definition agent_snapshot :: "db \<Rightarrow> agent_info list" where
  "agent_snapshot d = map (\<lambda>a. (ag_id a, ag_name a, ag_environment a)) (db_agents d)"

lemma route_resource_Inr:
  assumes "route_resource r env agents = Inr a"
  shows "\<exists>name. (a, name, env) \<in> set agents \<and> (\<forall>host. rf_host_selector r = Some host \<longrightarrow> name = host)"
proof (cases "rf_host_selector r")
  case None
  then have "\<exists>n e. filter (\<lambda>(_, _, x). x = env) agents = [(a, n, e)]"
    using assms by (auto simp: route_resource_def split: list.splits prod.splits)
  then obtain n e where "filter (\<lambda>(_, _, x). x = env) agents = [(a, n, e)]" by blast
  then have "(a, n, e) \<in> set (filter (\<lambda>(_, _, x). x = env) agents)" by simp
  with None show ?thesis by auto
next
  case (Some host)
  then obtain n e where "find (\<lambda>(i, name, x). name = host \<and> x = env) agents = Some (a, n, e)"
    using assms by (auto simp: route_resource_def split: option.splits prod.splits)
  then have "(a, n, e) \<in> set agents \<and> n = host \<and> e = env"
    by (auto simp: find_Some_iff dest: nth_mem)
  with Some show ?thesis by auto
qed

text \<open>
  Routing is confined to the operation's environment: a routed resource goes to a registered
  agent of that environment, the named one when the resource names a host; without a host it is
  routed exactly when the environment has one agent.
\<close>

theorem route_resource_correct:
  "(route_resource r env (agent_snapshot d) = Inr a \<longrightarrow>
      (\<exists>g \<in> set (db_agents d). ag_id g = a \<and> ag_environment g = env
         \<and> (\<forall>host. rf_host_selector r = Some host \<longrightarrow> ag_name g = host)))
   \<and> (rf_host_selector r = None \<longrightarrow>
      ((\<exists>a. route_resource r env (agent_snapshot d) = Inr a) \<longleftrightarrow>
        length (filter (\<lambda>g. ag_environment g = env) (db_agents d)) = 1))"
proof (rule conjI; intro impI)
  assume "route_resource r env (agent_snapshot d) = Inr a"
  from route_resource_Inr [OF this] obtain n where "(a, n, env) \<in> set (agent_snapshot d)"
    "\<forall>host. rf_host_selector r = Some host \<longrightarrow> n = host" by blast
  then show "\<exists>g \<in> set (db_agents d). ag_id g = a \<and> ag_environment g = env
         \<and> (\<forall>host. rf_host_selector r = Some host \<longrightarrow> ag_name g = host)"
    by (auto simp: agent_snapshot_def)
next
  assume h: "rf_host_selector r = None"
  have len: "length (filter (\<lambda>g. ag_environment g = env) (db_agents d)) =
      length (filter (\<lambda>(_, _, x). x = env) (agent_snapshot d))"
    by (simp add: agent_snapshot_def filter_map o_def)
  show "(\<exists>a. route_resource r env (agent_snapshot d) = Inr a) \<longleftrightarrow>
        length (filter (\<lambda>g. ag_environment g = env) (db_agents d)) = 1"
    unfolding len route_resource_def h by (auto split: list.splits prod.splits)
qed

theorem route_resource_witness:
  "\<exists>g \<in> set (db_agents sample_fleet). ag_id g = ''a1'' \<and> ag_environment g = ''prod''"
proof -
  have "route_resource sample_db ''prod'' (agent_snapshot sample_fleet) = Inr ''a1''"
    by (simp add: route_resource_def sample_db_def agent_snapshot_def sample_fleet_def sample_agent_def)
  with route_resource_correct [of sample_db "''prod''" sample_fleet "''a1''"] show ?thesis by blast
qed

text \<open>
  The routing hint never reaches an agent, and nothing else is lost: in the stripped resource
  the field \<open>spec.hostSelector\<close> is absent, every other field of \<open>spec\<close> and every other top-level
  field is what it was, and stripping twice is stripping once.
\<close>

theorem strip_routing_hints_correct:
  "jpath (strip_routing_hints v) [''spec'', ''hostSelector''] = None
   \<and> (\<forall>k. k \<noteq> ''hostSelector'' \<longrightarrow> jpath (strip_routing_hints v) [''spec'', k] = jpath v [''spec'', k])
   \<and> (\<forall>k. k \<noteq> ''spec'' \<longrightarrow> jget (strip_routing_hints v) k = jget v k)
   \<and> strip_routing_hints (strip_routing_hints v) = strip_routing_hints v"
proof (cases "\<exists>m spec. v = JObj m \<and> map_of m ''spec'' = Some (JObj spec)")
  case True
  then obtain m spec where v: "v = JObj m" "map_of m ''spec'' = Some (JObj spec)" by blast
  let ?spec' = "filter (\<lambda>(f, _). f \<noteq> ''hostSelector'') spec"
  let ?m' = "map (\<lambda>(k, x). if k = ''spec'' then (k, JObj ?spec') else (k, x)) m"
  have s: "strip_routing_hints v = JObj ?m'" using v by (simp add: strip_routing_hints_def)
  have m': "map_of ?m' k = (if k = ''spec'' then map_option (\<lambda>_. JObj ?spec') (map_of m k) else map_of m k)" for k
    by (induction m) auto
  have spec': "map_of ?spec' k = (if k = ''hostSelector'' then None else map_of spec k)" for k
    by (induction spec) auto
  have ff: "filter (\<lambda>(f, _). f \<noteq> ''hostSelector'') ?spec' = ?spec'" by simp
  have "strip_routing_hints (JObj ?m') = JObj ?m'"
  proof -
    have "map_of ?m' ''spec'' = Some (JObj ?spec')" using v(2) by (simp add: m')
    then have "strip_routing_hints (JObj ?m') =
        JObj (map (\<lambda>(k, x). if k = ''spec'' then (k, JObj ?spec') else (k, x)) ?m')"
      by (simp only: strip_routing_hints_def json.case option.case ff)
    also have "map (\<lambda>(k, x). if k = ''spec'' then (k, JObj ?spec') else (k, x)) ?m' = ?m'"
      by (induction m) auto
    finally show ?thesis .
  qed
  with s show ?thesis using v by (simp add: m' spec')
next
  case False
  then have s: "strip_routing_hints v = v"
    by (auto simp: strip_routing_hints_def split: json.splits option.splits)
  have "jpath v [''spec'', ''hostSelector''] = None"
  proof (cases "jget v ''spec''")
    case (Some w)
    then obtain m where "v = JObj m" "map_of m ''spec'' = Some w" by (cases v) auto
    with False have "\<nexists>sp. w = JObj sp" by auto
    then have "jget w ''hostSelector'' = None" by (cases w) auto
    with Some show ?thesis by simp
  qed simp
  with s show ?thesis by simp
qed

theorem strip_routing_hints_witness:
  "jpath (strip_routing_hints (JObj [(''kind'', JStr ''file''),
       (''spec'', JObj [(''hostSelector'', JNull), (''path'', JStr ''/a'')])])) [''spec'', ''path''] = Some (JStr ''/a'')
   \<and> jget (strip_routing_hints (JObj [(''kind'', JStr ''file''),
       (''spec'', JObj [(''hostSelector'', JNull), (''path'', JStr ''/a'')])])) ''kind'' = Some (JStr ''file'')"
  using strip_routing_hints_correct [of "JObj [(''kind'', JStr ''file''),
       (''spec'', JObj [(''hostSelector'', JNull), (''path'', JStr ''/a'')])]"]
  by simp

section \<open>The canary split\<close>

record canary_spec =
  cs_pct :: nat                     \<comment> \<open>\<open>u8\<close>\<close>
  cs_min_count :: "nat option"      \<comment> \<open>\<open>Option<u32>\<close>\<close>

type_synonym 'r buckets = "((string \<times> int) \<times> 'r list) list"

definition bucket_agents_per_layer :: "'r buckets \<Rightarrow> (int \<times> string list) list" where
  "bucket_agents_per_layer buckets =
     map (\<lambda>(layer, v). (layer, sort v))
       (fold (\<lambda>((agent_id, layer), _) per_layer.
                let v = (case map_of per_layer layer of None \<Rightarrow> [] | Some v \<Rightarrow> v)
                in bt_insert layer (if agent_id \<in> set v then v else v @ [agent_id]) per_layer)
             buckets [])"

text \<open>\<open>u32\<close> arithmetic: \<open>saturating_mul\<close> stops at \<open>2 ^ 32 - 1\<close>.\<close>

definition saturating_mul_u32 :: "nat \<Rightarrow> nat \<Rightarrow> nat" where
  "saturating_mul_u32 a b = min (a * b) (2 ^ 32 - 1)"

definition div_ceil :: "nat \<Rightarrow> nat \<Rightarrow> nat" where
  "div_ceil a b = (a + b - 1) div b"

definition canary_count :: "canary_spec \<Rightarrow> nat \<Rightarrow> nat" where
  "canary_count spec n =
     (let pct = max 1 (min 99 (cs_pct spec));
          min_count = max 1 (case cs_min_count spec of None \<Rightarrow> 1 | Some m \<Rightarrow> m);
          from_pct = div_ceil (saturating_mul_u32 n pct) 100
      in min (max from_pct min_count) (n - 1))"

fun assign_batches :: "int \<Rightarrow> nat \<Rightarrow> nat \<Rightarrow> string list \<Rightarrow> (string \<times> int \<rightharpoonup> nat) \<Rightarrow> (string \<times> int \<rightharpoonup> nat)" where
  "assign_batches layer cnt i [] out = out"
| "assign_batches layer cnt i (agent # agents) out =
     assign_batches layer cnt (Suc i) agents (out((agent, layer) \<mapsto> (if i < cnt then 0 else 1)))"

definition split_layer :: "canary_spec \<Rightarrow> int \<Rightarrow> string list \<Rightarrow> (string \<times> int \<rightharpoonup> nat) \<Rightarrow> (string \<times> int \<rightharpoonup> nat)" where
  "split_layer spec layer agents out =
     (let n = length agents mod 2 ^ 32
      in if n \<le> 1 then out else assign_batches layer (canary_count spec n) 0 agents out)"

definition compute_canary_split ::
    "(int \<times> string list) list \<Rightarrow> canary_spec option \<Rightarrow> (string \<times> int \<rightharpoonup> nat)" where
  "compute_canary_split agents_per_layer canary =
     (case canary of
        None \<Rightarrow> Map.empty
      | Some spec \<Rightarrow> fold (\<lambda>(layer, agents). split_layer spec layer agents) agents_per_layer Map.empty)"

lemma canary_count_bounds:
  assumes "2 \<le> n"
  shows "1 \<le> canary_count spec n" and "canary_count spec n \<le> n - 1"
proof -
  show "canary_count spec n \<le> n - 1" unfolding canary_count_def Let_def by (rule min.cobounded2)
  have "1 \<le> max x (max 1 y)" for x y :: nat by simp
  moreover have "1 \<le> n - 1" using assms by simp
  ultimately show "1 \<le> canary_count spec n"
    unfolding canary_count_def Let_def by (intro min.boundedI)
qed

lemma assign_batches_add:
  "assign_batches layer c i agents out = out ++ assign_batches layer c i agents Map.empty"
proof (induction agents arbitrary: i out)
  case (Cons a agents)
  let ?b = "if i < c then 0 else 1 :: nat"
  have "out((a, layer) \<mapsto> ?b) ++ m = out ++ ([(a, layer) \<mapsto> ?b] ++ m)" for m
    by (metis map_add_assoc map_add_empty map_add_upd)
  then show ?case
    unfolding assign_batches.simps
    using Cons.IH [of "Suc i" "out((a, layer) \<mapsto> ?b)"] Cons.IH [of "Suc i" "[(a, layer) \<mapsto> ?b]"]
    by metis
qed simp

lemma assign_batches_dom:
  "dom (assign_batches layer c i agents Map.empty) = (\<lambda>a. (a, layer)) ` set agents"
proof (induction agents arbitrary: i)
  case (Cons a agents)
  show ?case
    by (simp only: assign_batches.simps assign_batches_add [of _ _ _ _ "Map.empty((a, layer) \<mapsto> _)"]
        dom_map_add Cons.IH) auto
qed simp

lemma assign_batches_nth:
  assumes "distinct agents" and "i < length agents"
  shows "assign_batches layer c k agents out (agents ! i, layer) = Some (if k + i < c then 0 else 1)"
  using assms
proof (induction agents arbitrary: k i out)
  case (Cons a agents)
  show ?case
  proof (cases i)
    case 0
    have "assign_batches layer c (Suc k) agents Map.empty (a, layer) = None"
    proof -
      have "(a, layer) \<notin> dom (assign_batches layer c (Suc k) agents Map.empty)"
        using Cons.prems(1) by (auto simp: assign_batches_dom)
      then show ?thesis by (simp only: domIff not_not)
    qed
    then show ?thesis
      by (simp add: 0 assign_batches_add [of _ _ _ _ "out((a, layer) \<mapsto> _)"] map_add_def)
  next
    case (Suc j)
    with Cons show ?thesis by simp
  qed
qed simp

lemma assign_batches_range: "assign_batches layer c i agents Map.empty x \<in> {None, Some 0, Some 1}"
proof (induction agents arbitrary: i)
  case (Cons a agents)
  from Cons [of "Suc i"] show ?case
    by (simp only: assign_batches.simps assign_batches_add [of _ _ _ _ "Map.empty((a, layer) \<mapsto> _)"])
       (auto simp: map_add_def split: option.splits)
qed simp

lemma split_layer_add: "split_layer spec layer agents out = out ++ split_layer spec layer agents Map.empty"
  unfolding split_layer_def Let_def
  using assign_batches_add [of layer "canary_count spec (length agents mod 2 ^ 32)" 0 agents out]
  by (auto simp del: assign_batches.simps)

lemma split_layer_dom: "dom (split_layer spec layer agents Map.empty) \<subseteq> UNIV \<times> {layer}"
  unfolding split_layer_def Let_def by (auto simp: assign_batches_dom)

lemma split_layer_range: "split_layer spec layer agents Map.empty x \<in> {None, Some 0, Some 1}"
  unfolding split_layer_def Let_def using assign_batches_range by auto

lemma split_layers_add:
  "fold (\<lambda>(layer, agents). split_layer spec layer agents) m out =
   out ++ fold (\<lambda>(layer, agents). split_layer spec layer agents) m Map.empty"
proof (induction m arbitrary: out)
  case (Cons p m)
  obtain l as where p: "p = (l, as)" by force
  show ?case
    using Cons [of "split_layer spec l as out"] Cons [of "split_layer spec l as Map.empty"]
      split_layer_add [of spec l as out] by (simp add: p map_add_assoc)
qed simp

lemma split_layers_other:
  "l \<notin> fst ` set m \<Longrightarrow> fold (\<lambda>(layer, agents). split_layer spec layer agents) m Map.empty (a, l) = None"
proof (induction m)
  case (Cons p m)
  obtain k as where p: "p = (k, as)" by force
  with Cons.prems split_layer_dom [of spec k as] have "split_layer spec k as Map.empty (a, l) = None" by auto
  with Cons p show ?case
    by (simp add: split_layers_add [of _ _ "split_layer _ _ _ _"] map_add_def)
qed simp

lemma canary_split_at:
  assumes "bt_wf m" and "(layer, agents) \<in> set m"
  shows "compute_canary_split m (Some spec) (a, layer) = split_layer spec layer agents Map.empty (a, layer)"
  using assms unfolding compute_canary_split_def option.case
proof (induction m)
  case (Cons p m)
  obtain l as where p: "p = (l, as)" by force
  show ?case
  proof (cases "l = layer")
    case True
    with Cons.prems p have "as = agents" and "layer \<notin> fst ` set m" by force+
    with True p show ?thesis
      by (simp add: split_layers_add [of _ _ "split_layer _ _ _ _"] map_add_def split_layers_other)
  next
    case False
    with split_layer_dom [of spec l as] have "split_layer spec l as Map.empty (a, layer) = None" by auto
    with False Cons p show ?thesis
      by (simp add: split_layers_add [of _ _ "split_layer _ _ _ _"] map_add_def split: option.splits)
  qed
qed simp

lemma canary_split_batch: "compute_canary_split m canary x \<in> {None, Some 0, Some 1}"
proof (cases canary)
  case (Some spec)
  have "fold (\<lambda>(layer, agents). split_layer spec layer agents) m Map.empty x \<in> {None, Some 0, Some 1}"
  proof (induction m)
    case (Cons p m)
    obtain l as where p: "p = (l, as)" by force
    from Cons split_layer_range [of spec l as x] show ?case
      by (auto simp: p split_layers_add [of _ _ "split_layer _ _ _ _"] map_add_def split: option.splits)
  qed simp
  with Some show ?thesis by (simp add: compute_canary_split_def)
qed (simp add: compute_canary_split_def)

text \<open>
  C19. The canary split has the documented size. In a layer of at least two agents (and fewer than
  \<open>2 ^ 25\<close> of them) the first batch are the first agents in the sorted order: the requested
  percentage of the layer rounded up, with percentages clamped to 1..99, or the requested minimum if that
  is more, but always one agent less than the layer at most; the second batch are all the others. A layer
  of one agent is not split.
\<close>

theorem canary_split_correct:
  fixes spec :: canary_spec
  assumes "bt_wf m" and "(layer, agents) \<in> set m" and "distinct agents" and "length agents < 2 ^ 25"
  defines "n \<equiv> length agents"
    and "pct \<equiv> max 1 (min 99 (cs_pct spec))"
    and "least \<equiv> (case cs_min_count spec of None \<Rightarrow> 1 | Some k \<Rightarrow> k)"
  shows "if n \<le> 1 then \<forall>a. compute_canary_split m (Some spec) (a, layer) = None
         else (\<exists>share c. n * pct \<le> 100 * share \<and> 100 * share < n * pct + 100
            \<and> c = min (max share least) (n - 1) \<and> 1 \<le> c \<and> c < n
            \<and> (\<forall>i < n. compute_canary_split m (Some spec) (agents ! i, layer) = Some (if i < c then 0 else 1)))"
proof (cases "n \<le> 1")
  case True
  then show ?thesis
    using canary_split_at [OF assms(1,2)] assms(4) by (simp add: split_layer_def n_def)
next
  case False
  define c where "c = canary_count spec (length agents)"
  have mod: "length agents mod 2 ^ 32 = length agents" using assms(4) by simp
  have at: "compute_canary_split m (Some spec) (agents ! i, layer) = Some (if i < c then 0 else 1)"
    if "i < n" for i
    using that False assign_batches_nth [OF assms(3), of i layer c 0 Map.empty]
    unfolding canary_split_at [OF assms(1,2)] split_layer_def Let_def mod by (simp add: n_def c_def)
  define share where "share = div_ceil (n * pct) 100"
  have sat: "saturating_mul_u32 n pct = n * pct"
  proof -
    have "n * pct \<le> 2 ^ 25 * 99"
      using assms(4) by (intro mult_mono) (auto simp: n_def pct_def)
    then show ?thesis by (simp add: saturating_mul_u32_def)
  qed
  have ceil: "n * pct \<le> 100 * share" "100 * share < n * pct + 100" by (simp_all add: share_def div_ceil_def)
  have "0 < share" using False ceil(1) by (cases share) (simp_all add: pct_def)
  then have "c = min (max share least) (n - 1)"
    unfolding c_def canary_count_def Let_def n_def [symmetric] pct_def [symmetric] sat share_def [symmetric] least_def
    by (simp split: option.splits)
  with False at ceil canary_count_bounds [of n spec] show ?thesis
    unfolding if_not_P [OF False] by (intro exI [of _ share] exI [of _ c]) (auto simp: c_def n_def)
qed

theorem canary_split_witness:
  "bt_wf [(0::int, [''a'', ''b'', ''c''])]
   \<and> compute_canary_split [(0, [''a'', ''b'', ''c''])] (Some \<lparr>cs_pct = 34, cs_min_count = None\<rparr>) (''a'', 0) = Some 0
   \<and> compute_canary_split [(0, [''a'', ''b'', ''c''])] (Some \<lparr>cs_pct = 34, cs_min_count = None\<rparr>) (''c'', 0) = Some 1"
proof -
  let ?m = "[(0::int, [''a'', ''b'', ''c''])]" and ?s = "\<lparr>cs_pct = 34, cs_min_count = None\<rparr>"
  have len: "length [''a'', ''b'', ''c''] = 3" by simp
  obtain share c where c: "102 \<le> 100 * share" "100 * share < 202" "c = min (max share 1) 2"
    "\<forall>i < 3. compute_canary_split ?m (Some ?s) ([''a'', ''b'', ''c''] ! i, 0) = Some (if i < c then 0 else 1)"
    using canary_split_correct [of ?m 0 "[''a'', ''b'', ''c'']" ?s] unfolding len by auto
  then have "c = 2" by simp
  with c(4) [rule_format, of 0] c(4) [rule_format, of 2] show ?thesis by simp
qed

section \<open>Agents per layer\<close>

definition bucket_step :: "(string \<times> int) \<times> 'r list \<Rightarrow> (int \<times> string list) list \<Rightarrow> (int \<times> string list) list" where
  "bucket_step b per_layer = (case b of ((agent_id, layer), _) \<Rightarrow>
     let v = (case map_of per_layer layer of None \<Rightarrow> [] | Some v \<Rightarrow> v)
     in bt_insert layer (if agent_id \<in> set v then v else v @ [agent_id]) per_layer)"

lemma bucket_step_wf: "bt_wf m \<Longrightarrow> bt_wf (bucket_step b m)"
  by (auto simp: bucket_step_def Let_def bt_wf_insert split: prod.splits)

definition layer_agents :: "(int \<times> string list) list \<Rightarrow> int \<Rightarrow> string list" where
  "layer_agents m l = (case map_of m l of None \<Rightarrow> [] | Some v \<Rightarrow> v)"

lemma bucket_step_at:
  assumes "bt_wf m"
  shows "set (layer_agents (bucket_step ((a, l), rs) m) k) =
           set (layer_agents m k) \<union> (if k = l then {a} else {})"
    and "distinct (layer_agents m k) \<Longrightarrow> distinct (layer_agents (bucket_step ((a, l), rs) m) k)"
    and "map_of (bucket_step ((a, l), rs) m) k = None \<longleftrightarrow> map_of m k = None \<and> k \<noteq> l"
  using assms by (auto simp: bucket_step_def layer_agents_def Let_def map_of_bt_insert split: option.splits)

lemma bucket_fold:
  assumes "bt_wf m" and "\<forall>k. distinct (layer_agents m k)"
  shows "bt_wf (fold bucket_step bs m) \<and> (\<forall>k. distinct (layer_agents (fold bucket_step bs m) k)
     \<and> set (layer_agents (fold bucket_step bs m) k) = set (layer_agents m k) \<union> {a. (a, k) \<in> fst ` set bs}
     \<and> (map_of (fold bucket_step bs m) k = None \<longleftrightarrow> map_of m k = None \<and> k \<notin> snd ` fst ` set bs))"
  using assms
proof (induction bs arbitrary: m)
  case (Cons b bs)
  obtain a l rs where b: "b = ((a, l), rs)" by (metis surj_pair)
  note s = bucket_step_at [OF Cons.prems(1), where a = a and l = l and rs = rs]
  have "bt_wf (bucket_step b m)" "\<forall>k. distinct (layer_agents (bucket_step b m) k)"
    using Cons.prems s(2) by (auto simp: b intro: bucket_step_wf)
  from Cons.IH [OF this] show ?case by (auto simp: b s(1,3))
qed simp

lemma bucket_agents_per_layer_spec:
  "bt_wf (bucket_agents_per_layer bs)"
  "(l, agents) \<in> set (bucket_agents_per_layer bs) \<Longrightarrow>
     distinct agents \<and> sorted agents \<and> set agents = {a. (a, l) \<in> fst ` set bs}"
  "(a, l) \<in> fst ` set bs \<Longrightarrow> \<exists>agents. (l, agents) \<in> set (bucket_agents_per_layer bs)"
proof -
  let ?m = "fold bucket_step bs []"
  have step: "(\<lambda>((agent_id, layer), _) per_layer.
      let v = (case map_of per_layer layer of None \<Rightarrow> [] | Some v \<Rightarrow> v)
      in bt_insert layer (if agent_id \<in> set v then v else v @ [agent_id]) per_layer) = bucket_step"
    by (auto simp: bucket_step_def fun_eq_iff)
  have m: "bucket_agents_per_layer bs = map (\<lambda>(layer, v). (layer, sort v)) ?m"
    unfolding bucket_agents_per_layer_def step ..
  have f: "bt_wf ?m \<and> (\<forall>k. distinct (layer_agents ?m k)
     \<and> set (layer_agents ?m k) = {a. (a, k) \<in> fst ` set bs}
     \<and> (map_of ?m k = None \<longleftrightarrow> k \<notin> snd ` fst ` set bs))"
    using bucket_fold [of "[]" bs] by (simp add: layer_agents_def)
  have keys: "map fst (map (\<lambda>(layer, v). (layer, sort v)) ?m) = map fst ?m" by (induction ?m) auto
  show "bt_wf (bucket_agents_per_layer bs)" using f unfolding m bt_wf_def keys by blast
  show "distinct agents \<and> sorted agents \<and> set agents = {a. (a, l) \<in> fst ` set bs}"
    if in1: "(l, agents) \<in> set (bucket_agents_per_layer bs)"
  proof -
    obtain v where v: "(l, v) \<in> set ?m" "agents = sort v" using in1 by (auto simp: m)
    then have "map_of ?m l = Some v" using f by (simp add: bt_wf_distinct)
    then have "layer_agents ?m l = v" by (simp add: layer_agents_def)
    with f v(2) show ?thesis by (metis distinct_sort set_sort sorted_sort)
  qed
  show "\<exists>agents. (l, agents) \<in> set (bucket_agents_per_layer bs)" if "(a, l) \<in> fst ` set bs"
  proof -
    have "map_of ?m l \<noteq> None" using f that by force
    then obtain v where "(l, v) \<in> set ?m" by (metis map_of_SomeD not_None_eq)
    then show ?thesis by (force simp: m)
  qed
qed

text \<open>Within a layer of the buckets either every agent has a batch or none has.\<close>

lemma canary_batches_uniform:
  assumes "(a, l) \<in> fst ` set bs" "(b, l) \<in> fst ` set bs"
    and "compute_canary_split (bucket_agents_per_layer bs) canary (a, l) \<noteq> None"
  shows "compute_canary_split (bucket_agents_per_layer bs) canary (b, l) \<noteq> None"
proof (cases canary)
  case (Some spec)
  obtain agents where ag: "(l, agents) \<in> set (bucket_agents_per_layer bs)"
    using bucket_agents_per_layer_spec(3) [OF assms(1)] by blast
  note sp = bucket_agents_per_layer_spec(2) [OF ag]
  note at = canary_split_at [OF bucket_agents_per_layer_spec(1) ag, of spec]
  have "split_layer spec l agents Map.empty (a, l) \<noteq> None" using assms(3) at Some by simp
  then have s: "split_layer spec l agents Map.empty =
      assign_batches l (canary_count spec (length agents mod 2 ^ 32)) 0 agents Map.empty"
    unfolding split_layer_def Let_def by (auto split: if_splits)
  have "(b, l) \<in> dom (split_layer spec l agents Map.empty)"
    unfolding s assign_batches_dom using sp assms(2) by auto
  then show ?thesis using at Some by auto
qed (use assms(3) in \<open>simp add: compute_canary_split_def\<close>)

text \<open>A layer with a baseline has a canary.\<close>

lemma canary_has_first:
  assumes "(a, l) \<in> fst ` set bs"
    and "compute_canary_split (bucket_agents_per_layer bs) canary (a, l) \<noteq> None"
  shows "\<exists>b. (b, l) \<in> fst ` set bs \<and> compute_canary_split (bucket_agents_per_layer bs) canary (b, l) = Some 0"
proof (cases canary)
  case (Some spec)
  obtain agents where ag: "(l, agents) \<in> set (bucket_agents_per_layer bs)"
    using bucket_agents_per_layer_spec(3) [OF assms(1)] by blast
  note sp = bucket_agents_per_layer_spec(2) [OF ag]
  note at = canary_split_at [OF bucket_agents_per_layer_spec(1) ag, of spec]
  let ?n = "length agents mod 2 ^ 32"
  have ne1: "split_layer spec l agents Map.empty (a, l) \<noteq> None" using assms(2) at Some by simp
  have n: "\<not> ?n \<le> 1"
  proof
    assume "?n \<le> 1"
    then have "split_layer spec l agents Map.empty = Map.empty"
      unfolding split_layer_def Let_def by (rule if_P)
    with ne1 show False by simp
  qed
  then have s: "split_layer spec l agents Map.empty = assign_batches l (canary_count spec ?n) 0 agents Map.empty"
    unfolding split_layer_def Let_def by simp
  have ne: "0 < length agents" using n by (cases agents) auto
  have "0 < canary_count spec ?n" using canary_count_bounds(1) [of ?n spec] n by linarith
  then have "split_layer spec l agents Map.empty (agents ! 0, l) = Some 0"
    unfolding s using assign_batches_nth [OF _ ne, of l "canary_count spec ?n" 0 Map.empty] sp by simp
  moreover have "(agents ! 0, l) \<in> fst ` set bs" using sp nth_mem [OF ne] by auto
  ultimately show ?thesis using at Some by metis
qed (use assms(2) in \<open>simp add: compute_canary_split_def\<close>)

end
