(* ===== verification/Phased.thy ===== *)
theory Phased
  imports Store_Db
begin

text \<open>
  The state machine that releases the assignments of one operation: \<open>advance_canary\<close>,
  \<open>advance_phased_apply\<close> and the counting part of \<open>roll_up_operation\<close> in \<open>store.rs\<close>. Each SQL
  statement is an update of the assignment table restricted to the rows it names.

  The lemmas establish the invariant \<open>phase_safe\<close> of an operation's rows (a row is released only
  when every row of a lower layer succeeded, a baseline row of layer 0 only when every canary row
  did, nothing waits once something was cancelled) and that \<open>advance_phased_apply\<close> keeps it,
  never leaves an unfinished operation without a row an agent can take, and is idempotent. All of
  this is for operations whose routed layers are contiguous from 0 (\<open>contiguous\<close>); the two
  counterexamples at the end show what happens otherwise.
\<close>

section \<open>Definitions\<close>

definition of_op :: "string \<Rightarrow> assignment_row \<Rightarrow> bool" where
  "of_op oper a \<longleftrightarrow> as_operation_id a = oper"

definition count_rows :: "(assignment_row \<Rightarrow> bool) \<Rightarrow> assignment_row list \<Rightarrow> nat" where
  "count_rows P rows = length (filter P rows)"

definition cancel_row :: "string \<Rightarrow> assignment_row \<Rightarrow> assignment_row" where
  "cancel_row now a = a\<lparr>as_status := ACancelled, as_completed_at := Some now\<rparr>"

definition promote_row :: "assignment_row \<Rightarrow> assignment_row" where
  "promote_row a = a\<lparr>as_status := APending\<rparr>"

text \<open>\<open>NOT (layer = ? AND batch = 0)\<close> under three-valued logic: with a \<open>NULL\<close> batch the condition
  is true for another layer and unknown, hence not selected, for the same layer.\<close>

definition not_canary_of :: "int \<Rightarrow> assignment_row \<Rightarrow> bool" where
  "not_canary_of layer a \<longleftrightarrow>
     as_layer a \<noteq> layer \<or> (case as_batch a of None \<Rightarrow> False | Some b \<Rightarrow> b \<noteq> 0)"

definition waiting_layers :: "string \<Rightarrow> assignment_row list \<Rightarrow> int list" where
  "waiting_layers oper rows =
     remdups (map as_layer (filter (\<lambda>a. of_op oper a \<and> as_status a = APendingCanary) rows))"

fun canary_loop :: "string \<Rightarrow> string \<Rightarrow> int list \<Rightarrow> assignment_row list \<Rightarrow> assignment_row list" where
  "canary_loop oper now [] rows = rows"
| "canary_loop oper now (layer # layers) rows =
     (let canary = (\<lambda>a. of_op oper a \<and> as_layer a = layer \<and> as_batch a = Some 0);
          still_running = count_rows (\<lambda>a. canary a \<and> as_status a \<in> {APending, AFetched}) rows;
          failed_count = count_rows (\<lambda>a. canary a \<and> as_status a \<in> {AFailed, APartiallyApplied}) rows
      in if failed_count > 0 then
           update_where (\<lambda>a. of_op oper a
               \<and> as_status a \<in> {APendingCanary, APendingLayer, APending, AFetched} \<and> not_canary_of layer a)
             (cancel_row now) rows
         else if still_running > 0 then canary_loop oper now layers rows
         else canary_loop oper now layers
           (update_where (\<lambda>a. of_op oper a \<and> as_layer a = layer \<and> as_status a = APendingCanary)
              promote_row rows))"

definition advance_canary :: "string \<Rightarrow> string \<Rightarrow> assignment_row list \<Rightarrow> assignment_row list" where
  "advance_canary oper now rows = canary_loop oper now (waiting_layers oper rows) rows"

definition next_layer :: "string \<Rightarrow> assignment_row list \<Rightarrow> int option" where
  "next_layer oper rows =
     (let ls = map as_layer (filter (\<lambda>a. of_op oper a \<and> as_status a = APendingLayer) rows)
      in if ls = [] then None else Some (Min (set ls)))"

definition release_layer :: "string \<Rightarrow> string \<Rightarrow> assignment_row list \<Rightarrow> assignment_row list" where
  "release_layer oper now rows =
     (case next_layer oper rows of
        None \<Rightarrow> rows
      | Some next \<Rightarrow>
          let prev = next - 1;
              at_prev = (\<lambda>a. of_op oper a \<and> as_layer a = prev);
              still_running = count_rows (\<lambda>a. at_prev a
                  \<and> as_status a \<in> {APending, AFetched, APendingLayer, APendingCanary}) rows;
              failed_count = count_rows (\<lambda>a. at_prev a \<and> as_status a \<in> {AFailed, APartiallyApplied}) rows
          in if still_running > 0 then rows
             else if failed_count > 0 then
               update_where (\<lambda>a. of_op oper a \<and> as_status a = APendingLayer) (cancel_row now) rows
             else update_where (\<lambda>a. of_op oper a \<and> as_layer a = next \<and> as_status a = APendingLayer)
               promote_row rows)"

definition advance_phased_apply :: "string \<Rightarrow> string \<Rightarrow> assignment_row list \<Rightarrow> assignment_row list" where
  "advance_phased_apply oper now rows = release_layer oper now (advance_canary oper now rows)"

text \<open>The status \<open>roll_up_operation\<close> writes, \<open>None\<close> while a row is unfinished.\<close>

definition rolled_up_status :: "string \<Rightarrow> assignment_row list \<Rightarrow> operation_status option" where
  "rolled_up_status oper rows =
     (let n = (\<lambda>s. count_rows (\<lambda>a. of_op oper a \<and> as_status a = s) rows)
      in if n APending + n AFetched + n APendingLayer + n APendingCanary > 0 then None
         else if n AFailed + n APartiallyApplied + n ACancelled > 0
              then (if n ASucceeded > 0 \<or> n APartiallyApplied > 0 then Some OpPartiallyApplied else Some OpFailed)
              else Some OpSucceeded)"

section \<open>Frame\<close>

lemma count_rows_pos: "count_rows P rows > 0 \<longleftrightarrow> (\<exists>a \<in> set rows. P a)"
  by (simp add: count_rows_def filter_empty_conv)

lemma row_frame [simp, row_simps]:
  "as_operation_id (cancel_row now a) = as_operation_id a" "as_layer (cancel_row now a) = as_layer a"
  "as_batch (cancel_row now a) = as_batch a" "as_status (cancel_row now a) = ACancelled"
  "as_id (cancel_row now a) = as_id a" "as_agent_id (cancel_row now a) = as_agent_id a"
  "as_operation_id (promote_row a) = as_operation_id a" "as_layer (promote_row a) = as_layer a"
  "as_batch (promote_row a) = as_batch a" "as_status (promote_row a) = APending"
  "as_id (promote_row a) = as_id a" "as_agent_id (promote_row a) = as_agent_id a"
  "of_op oper (cancel_row now a) = of_op oper a" "of_op oper (promote_row a) = of_op oper a"
  by (simp_all add: cancel_row_def promote_row_def of_op_def)

text \<open>An updater of rows: it changes only rows of the operation, and neither their identity nor
  their layer and batch.\<close>

definition row_ident :: "assignment_row \<Rightarrow> string \<times> string \<times> string \<times> int \<times> nat option" where
  "row_ident a = (as_id a, as_agent_id a, as_operation_id a, as_layer a, as_batch a)"

definition keeps_identity :: "(assignment_row list \<Rightarrow> assignment_row list) \<Rightarrow> bool" where
  "keeps_identity f \<longleftrightarrow> (\<forall>rows. map row_ident (f rows) = map row_ident rows)"

lemma keeps_update_where: "(\<And>a. row_ident (f a) = row_ident a) \<Longrightarrow> keeps_identity (update_where P f)"
  by (simp add: keeps_identity_def update_where_def)

lemma keeps_comp:
  assumes "keeps_identity f"
  shows "map (\<lambda>a. h (row_ident a)) (f rows) = map (\<lambda>a. h (row_ident a)) rows"
proof -
  have "map h (map row_ident (f rows)) = map h (map row_ident rows)"
    using assms by (simp only: keeps_identity_def)
  then show ?thesis by (simp add: o_def)
qed

lemma keeps_proj:
  assumes "keeps_identity f"
  shows "map as_id (f rows) = map as_id rows" "map as_agent_id (f rows) = map as_agent_id rows"
    "map as_operation_id (f rows) = map as_operation_id rows" "map as_layer (f rows) = map as_layer rows"
    "map as_batch (f rows) = map as_batch rows"
  using keeps_comp [OF assms, of "\<lambda>(i, a, p, l, b). i" rows] keeps_comp [OF assms, of "\<lambda>(i, a, p, l, b). a" rows]
    keeps_comp [OF assms, of "\<lambda>(i, a, p, l, b). p" rows] keeps_comp [OF assms, of "\<lambda>(i, a, p, l, b). l" rows]
    keeps_comp [OF assms, of "\<lambda>(i, a, p, l, b). b" rows]
  by (simp_all add: row_ident_def)

lemma keeps_id: "keeps_identity (\<lambda>rows. rows)"
  by (simp add: keeps_identity_def)

lemma keeps_canary_loop: "keeps_identity (canary_loop oper now ls)"
proof (induction ls)
  case (Cons l ls)
  have c: "keeps_identity (update_where P (cancel_row now))" "keeps_identity (update_where P promote_row)" for P
    by (rule keeps_update_where, simp add: row_ident_def)+
  show ?case
    unfolding keeps_identity_def canary_loop.simps Let_def
    using c [unfolded keeps_identity_def] Cons [unfolded keeps_identity_def] by simp
qed (simp add: keeps_identity_def)

lemma keeps_advance: "keeps_identity (advance_phased_apply oper now)"
proof -
  have c: "keeps_identity (update_where P (cancel_row now))" "keeps_identity (update_where P promote_row)" for P
    by (rule keeps_update_where, simp add: row_ident_def)+
  have "keeps_identity (release_layer oper now)"
    unfolding keeps_identity_def release_layer_def Let_def
    using c [unfolded keeps_identity_def] by (simp split: option.splits)
  with keeps_canary_loop [of oper now, unfolded keeps_identity_def] show ?thesis
    by (simp add: keeps_identity_def advance_phased_apply_def advance_canary_def)
qed

text \<open>The rows of an operation, and that the machine of one operation is a machine on its rows.\<close>

definition rows_of :: "string \<Rightarrow> assignment_row list \<Rightarrow> assignment_row list" where
  "rows_of oper rows = filter (of_op oper) rows"

lemma count_rows_of: "count_rows (\<lambda>a. of_op oper a \<and> P a) (rows_of oper rows) = count_rows (\<lambda>a. of_op oper a \<and> P a) rows"
proof -
  have "filter (\<lambda>a. of_op oper a \<and> P a) (rows_of oper rows) = filter (\<lambda>a. of_op oper a \<and> P a) rows"
    unfolding rows_of_def by (auto intro: filter_cong)
  then show ?thesis by (simp only: count_rows_def)
qed

lemma rows_of_update_own:
  "(\<And>a. of_op oper (f a) = of_op oper a) \<Longrightarrow>
   rows_of oper (update_where P f rows) = update_where P f (rows_of oper rows)"
  unfolding rows_of_def by (rule filter_update_where) auto

lemma rows_of_update_other:
  "oper' \<noteq> oper \<Longrightarrow> (\<And>a. of_op oper' (f a) = of_op oper' a) \<Longrightarrow>
   rows_of oper' (update_where (\<lambda>a. of_op oper a \<and> P a) f rows) = rows_of oper' rows"
  unfolding rows_of_def by (rule filter_update_where_other) (auto simp: of_op_def)

lemma canary_loop_own:
  "rows_of oper (canary_loop oper now ls rows) = canary_loop oper now ls (rows_of oper rows)"
proof (induction ls arbitrary: rows)
  case (Cons l ls)
  have c: "count_rows (\<lambda>a. (of_op oper a \<and> Q a) \<and> R a) (rows_of oper rows) = count_rows (\<lambda>a. (of_op oper a \<and> Q a) \<and> R a) rows"
    for Q R using count_rows_of [of oper "\<lambda>a. Q a \<and> R a"] by simp
  show ?case
    unfolding canary_loop.simps Let_def c by (simp add: Cons rows_of_update_own)
qed simp

lemma canary_loop_other:
  "oper' \<noteq> oper \<Longrightarrow> rows_of oper' (canary_loop oper now ls rows) = rows_of oper' rows"
  by (induction ls arbitrary: rows) (simp_all add: Let_def rows_of_update_other)

lemma waiting_layers_own: "waiting_layers oper (rows_of oper rows) = waiting_layers oper rows"
  unfolding waiting_layers_def rows_of_def
  by (intro arg_cong [where f = remdups] arg_cong [where f = "map as_layer"]) (auto intro: filter_cong)

lemma next_layer_own: "next_layer oper (rows_of oper rows) = next_layer oper rows"
proof -
  have "filter (\<lambda>a. of_op oper a \<and> as_status a = APendingLayer) (rows_of oper rows)
      = filter (\<lambda>a. of_op oper a \<and> as_status a = APendingLayer) rows"
    unfolding rows_of_def by (auto intro: filter_cong)
  then show ?thesis by (simp only: next_layer_def)
qed

lemma release_layer_own: "rows_of oper (release_layer oper now rows) = release_layer oper now (rows_of oper rows)"
proof -
  have c: "count_rows (\<lambda>a. (of_op oper a \<and> Q a) \<and> R a) (rows_of oper rows) = count_rows (\<lambda>a. (of_op oper a \<and> Q a) \<and> R a) rows"
    for Q R using count_rows_of [of oper "\<lambda>a. Q a \<and> R a"] by simp
  show ?thesis
    unfolding release_layer_def next_layer_own Let_def c
    by (simp add: rows_of_update_own split: option.splits)
qed

lemma release_layer_other: "oper' \<noteq> oper \<Longrightarrow> rows_of oper' (release_layer oper now rows) = rows_of oper' rows"
  unfolding release_layer_def Let_def by (simp add: rows_of_update_other split: option.splits)

lemma advance_own:
  "rows_of oper (advance_phased_apply oper now rows) = advance_phased_apply oper now (rows_of oper rows)"
  by (simp add: advance_phased_apply_def advance_canary_def release_layer_own canary_loop_own waiting_layers_own)

lemma advance_other:
  "oper' \<noteq> oper \<Longrightarrow> rows_of oper' (advance_phased_apply oper now rows) = rows_of oper' rows"
  by (simp add: advance_phased_apply_def advance_canary_def release_layer_other canary_loop_other)

section \<open>The invariant of an operation's rows\<close>

definition released :: "assignment_row \<Rightarrow> bool" where
  "released a \<longleftrightarrow> as_status a \<in> {APending, AFetched, ASucceeded, APartiallyApplied, AFailed}"

definition active :: "assignment_row \<Rightarrow> bool" where
  "active a \<longleftrightarrow> as_status a \<in> {APending, AFetched}"

definition unfinished :: "assignment_row \<Rightarrow> bool" where
  "unfinished a \<longleftrightarrow> as_status a \<in> {APending, AFetched, APendingLayer, APendingCanary}"

definition contiguous :: "assignment_row list \<Rightarrow> bool" where
  "contiguous rows \<longleftrightarrow> (\<forall>a \<in> set rows. \<forall>l \<in> {0..<as_layer a}. \<exists>b \<in> set rows. as_layer b = l)"

definition layers_gated :: "assignment_row list \<Rightarrow> bool" where
  "layers_gated rows \<longleftrightarrow>
     (\<forall>a \<in> set rows. \<forall>b \<in> set rows. released a \<and> as_layer b < as_layer a \<longrightarrow> as_status b = ASucceeded)"

definition canary_gated :: "assignment_row list \<Rightarrow> bool" where
  "canary_gated rows \<longleftrightarrow>
     (\<forall>a \<in> set rows. \<forall>b \<in> set rows. as_layer a = 0 \<and> as_layer b = 0 \<and> as_batch a = Some 1
        \<and> released a \<and> as_batch b = Some 0 \<longrightarrow> as_status b = ASucceeded)"

definition waits_ok :: "assignment_row list \<Rightarrow> bool" where
  "waits_ok rows \<longleftrightarrow>
     (\<forall>a \<in> set rows. 0 \<le> as_layer a
        \<and> (as_status a = APendingLayer \<longrightarrow> 0 < as_layer a)
        \<and> (as_status a = APendingCanary \<longrightarrow> as_layer a = 0 \<and> as_batch a = Some 1
             \<and> (\<forall>b \<in> set rows. as_layer b = 0 \<longrightarrow> as_batch b \<noteq> None)))"

definition cancel_final :: "assignment_row list \<Rightarrow> bool" where
  "cancel_final rows \<longleftrightarrow> ((\<exists>a \<in> set rows. as_status a = ACancelled) \<longrightarrow>
     (\<forall>a \<in> set rows. as_status a \<noteq> APendingLayer \<and> as_status a \<noteq> APendingCanary))"

definition phase_safe :: "assignment_row list \<Rightarrow> bool" where
  "phase_safe rows \<longleftrightarrow> layers_gated rows \<and> canary_gated rows \<and> waits_ok rows \<and> cancel_final rows"

definition progress :: "assignment_row list \<Rightarrow> bool" where
  "progress rows \<longleftrightarrow> ((\<exists>a \<in> set rows. unfinished a) \<longrightarrow> (\<exists>a \<in> set rows. active a))"

lemma gatedD:
  "layers_gated rows \<Longrightarrow> a \<in> set rows \<Longrightarrow> b \<in> set rows \<Longrightarrow> released a \<Longrightarrow> as_layer b < as_layer a
     \<Longrightarrow> as_status b = ASucceeded"
  unfolding layers_gated_def by blast

lemmas phase_defs = phase_safe_def layers_gated_def canary_gated_def waits_ok_def cancel_final_def
lemmas status_defs = released_def active_def unfinished_def

text \<open>Only the rows' layers, batches and statuses matter. A step that maps every row to a row with
  the same layer and batch keeps the four parts when it satisfies these conditions.\<close>

lemma phase_safe_map:
  assumes safe: "phase_safe rows"
    and frame: "\<And>a. a \<in> set rows \<Longrightarrow> as_layer (g a) = as_layer a \<and> as_batch (g a) = as_batch a"
    and gate: "\<And>a b. a \<in> set rows \<Longrightarrow> b \<in> set rows \<Longrightarrow> released (g a) \<Longrightarrow> as_layer b < as_layer a
        \<Longrightarrow> as_status (g b) = ASucceeded"
    and canary: "\<And>a b. a \<in> set rows \<Longrightarrow> b \<in> set rows \<Longrightarrow> as_layer a = 0 \<Longrightarrow> as_layer b = 0
        \<Longrightarrow> as_batch a = Some 1 \<Longrightarrow> released (g a) \<Longrightarrow> as_batch b = Some 0 \<Longrightarrow> as_status (g b) = ASucceeded"
    and wait: "\<And>a. a \<in> set rows \<Longrightarrow> as_status (g a) \<in> {APendingLayer, APendingCanary} \<Longrightarrow> as_status (g a) = as_status a"
    and final: "\<And>a b. a \<in> set rows \<Longrightarrow> b \<in> set rows \<Longrightarrow> as_status (g a) = ACancelled
        \<Longrightarrow> as_status (g b) \<notin> {APendingLayer, APendingCanary}"
  shows "phase_safe (map g rows)"
proof -
  have w: "waits_ok rows" using safe by (simp add: phase_safe_def)
  have "layers_gated (map g rows)" using gate frame by (auto simp: layers_gated_def)
  moreover have "canary_gated (map g rows)" using canary frame by (auto simp: canary_gated_def)
  moreover have "cancel_final (map g rows)" using final by (auto simp: cancel_final_def)
  moreover have "waits_ok (map g rows)"
    unfolding waits_ok_def
  proof (intro ballI conjI impI)
    fix x assume "x \<in> set (map g rows)"
    then obtain a where a: "a \<in> set rows" "x = g a" by auto
    note wa = w [unfolded waits_ok_def, rule_format, OF a(1)]
    show "0 \<le> as_layer x" using wa frame a by simp
    show "0 < as_layer x" if "as_status x = APendingLayer" using wa frame wait [OF a(1)] a that by simp
    show "as_layer x = 0" "as_batch x = Some 1" if "as_status x = APendingCanary"
      using wa frame wait [OF a(1)] a that by simp_all
    show "as_batch y \<noteq> None" if "as_status x = APendingCanary" "y \<in> set (map g rows)" "as_layer y = 0" for y
      using wa frame wait [OF a(1)] a that by auto
  qed
  ultimately show ?thesis by (simp add: phase_safe_def)
qed

lemma contiguous_map:
  "(\<And>a. a \<in> set rows \<Longrightarrow> as_layer (g a) = as_layer a) \<Longrightarrow> contiguous (map g rows) \<longleftrightarrow> contiguous rows"
  by (simp add: contiguous_def)

section \<open>The canary step\<close>

lemma remdups_singleton: "set xs \<subseteq> {x} \<Longrightarrow> remdups xs = (if xs = [] then [] else [x])"
proof (induction xs)
  case (Cons a xs)
  then show ?case by (cases xs) (auto split: if_splits)
qed simp

lemma waiting_layers_safe:
  assumes "waits_ok rows" and "\<forall>a \<in> set rows. of_op oper a"
  shows "waiting_layers oper rows = (if \<exists>a \<in> set rows. as_status a = APendingCanary then [0] else [])"
proof -
  let ?ls = "map as_layer (filter (\<lambda>a. of_op oper a \<and> as_status a = APendingCanary) rows)"
  have "set ?ls \<subseteq> {0}" using assms(1) by (auto simp: waits_ok_def)
  then have r: "remdups ?ls = (if ?ls = [] then [] else [0])"
    by (rule remdups_singleton)
  have "?ls = [] \<longleftrightarrow> \<not> (\<exists>a \<in> set rows. as_status a = APendingCanary)"
    using assms(2) by (auto simp: filter_empty_conv)
  with r show ?thesis by (simp add: waiting_layers_def)
qed

text \<open>What the canary step does to the rows of an operation that satisfies the invariant.\<close>

definition canary_abort :: "string \<Rightarrow> assignment_row \<Rightarrow> assignment_row" where
  "canary_abort now a = (if unfinished a \<and> not_canary_of 0 a then cancel_row now a else a)"

definition canary_release :: "assignment_row \<Rightarrow> assignment_row" where
  "canary_release a = (if as_status a = APendingCanary then promote_row a else a)"

lemma advance_canary_cases [consumes 2]:
  assumes own: "\<forall>a \<in> set rows. of_op oper a" and safe: "phase_safe rows"
  obtains
    (idle) "advance_canary oper now rows = rows" "\<forall>a \<in> set rows. as_status a \<noteq> APendingCanary"
  | (wait) "advance_canary oper now rows = rows"
      "\<exists>a \<in> set rows. active a \<and> as_layer a = 0 \<and> as_batch a = Some 0"
      "\<forall>a \<in> set rows. as_layer a = 0 \<and> as_batch a = Some 0 \<longrightarrow> as_status a \<notin> {AFailed, APartiallyApplied}"
  | (abort) "advance_canary oper now rows = map (canary_abort now) rows"
      "\<exists>a \<in> set rows. as_status a = APendingCanary"
      "\<exists>a \<in> set rows. as_layer a = 0 \<and> as_batch a = Some 0 \<and> as_status a \<in> {AFailed, APartiallyApplied}"
  | (promote) "advance_canary oper now rows = map canary_release rows"
      "\<exists>a \<in> set rows. as_status a = APendingCanary"
      "\<forall>a \<in> set rows. as_layer a = 0 \<and> as_batch a = Some 0 \<longrightarrow> as_status a = ASucceeded"
proof -
  have w: "waits_ok rows" and fin: "cancel_final rows" using safe by (simp_all add: phase_safe_def)
  note wl = waiting_layers_safe [OF w own]
  show thesis
  proof (cases "\<exists>a \<in> set rows. as_status a = APendingCanary")
    case False
    then have "advance_canary oper now rows = rows" by (simp add: advance_canary_def wl)
    with False show ?thesis by (intro idle) auto
  next
    case True
    let ?canary = "\<lambda>a. of_op oper a \<and> as_layer a = 0 \<and> as_batch a = Some 0"
    let ?failed = "\<exists>a \<in> set rows. ?canary a \<and> as_status a \<in> {AFailed, APartiallyApplied}"
    let ?running = "\<exists>a \<in> set rows. ?canary a \<and> as_status a \<in> {APending, AFetched}"
    have adv: "advance_canary oper now rows =
       (if ?failed then update_where (\<lambda>a. of_op oper a
               \<and> as_status a \<in> {APendingCanary, APendingLayer, APending, AFetched} \<and> not_canary_of 0 a)
             (cancel_row now) rows
        else if ?running then rows
        else update_where (\<lambda>a. of_op oper a \<and> as_layer a = 0 \<and> as_status a = APendingCanary) promote_row rows)"
      using True by (simp only: advance_canary_def wl canary_loop.simps Let_def count_rows_pos if_True)
    show ?thesis
    proof (cases ?failed)
      case f: True
      have "advance_canary oper now rows = map (canary_abort now) rows"
        unfolding adv if_P [OF f] update_where_def
        using own by (intro map_cong) (auto simp: canary_abort_def unfinished_def)
      with True f show ?thesis by (intro abort) auto
    next
      case nf: False
      show ?thesis
      proof (cases ?running)
        case r: True
        then have "advance_canary oper now rows = rows" using nf unfolding adv by (simp only: if_False if_True)
        moreover have "\<exists>a \<in> set rows. active a \<and> as_layer a = 0 \<and> as_batch a = Some 0" using r by (auto simp: active_def)
        ultimately show ?thesis using nf own by (intro wait) auto
      next
        case nr: False
        have "advance_canary oper now rows = map canary_release rows"
          using nf nr unfolding adv if_not_P [OF nf] if_not_P [OF nr] update_where_def
          using own w by (intro map_cong) (auto simp: canary_release_def waits_ok_def)
        moreover have "as_status a = ASucceeded" if a: "a \<in> set rows" "as_layer a = 0" "as_batch a = Some 0" for a
        proof -
          have "as_status a \<notin> {AFailed, APartiallyApplied}" "as_status a \<notin> {APending, AFetched}"
            using nf nr own a by auto
          moreover have "as_status a \<noteq> APendingLayer" "as_status a \<noteq> APendingCanary"
            using w a by (auto simp: waits_ok_def)
          moreover have "as_status a \<noteq> ACancelled" using fin True a by (auto simp: cancel_final_def)
          ultimately show ?thesis by (cases "as_status a") auto
        qed
        ultimately show ?thesis using True by (intro promote) auto
      qed
    qed
  qed
qed

text \<open>After the step the invariant holds, and a waiting baseline has a running canary.\<close>

lemma advance_canary_safe:
  assumes own: "\<forall>a \<in> set rows. of_op oper a" and safe: "phase_safe rows"
  shows "phase_safe (advance_canary oper now rows)"
    and "(\<exists>a \<in> set (advance_canary oper now rows). as_status a = APendingCanary) \<Longrightarrow>
         \<exists>a \<in> set (advance_canary oper now rows). active a"
proof -
  have lg: "layers_gated rows" and cg: "canary_gated rows" and w: "waits_ok rows" and fin: "cancel_final rows"
    using safe by (simp_all add: phase_safe_def)
  have "phase_safe (advance_canary oper now rows) \<and>
    ((\<exists>a \<in> set (advance_canary oper now rows). as_status a = APendingCanary) \<longrightarrow>
         (\<exists>a \<in> set (advance_canary oper now rows). active a))"
    using own safe
  proof (cases rule: advance_canary_cases [where now = now])
    case idle
    with safe show ?thesis by auto
  next
    case wait
    with safe show ?thesis by auto
  next
    case abort
    have none: "as_status (canary_abort now a) \<notin> {APendingLayer, APendingCanary}" if "a \<in> set rows" for a
    proof -
      have l: "as_status a = APendingLayer \<Longrightarrow> not_canary_of 0 a" "as_status a = APendingCanary \<Longrightarrow> not_canary_of 0 a"
        using w that by (auto simp: waits_ok_def not_canary_of_def)
      then show ?thesis by (auto simp: canary_abort_def unfinished_def)
    qed
    have fr: "as_layer (canary_abort now a) = as_layer a \<and> as_batch (canary_abort now a) = as_batch a" for a
      by (simp add: canary_abort_def)
    have rel: "released (canary_abort now a) \<Longrightarrow> released a" for a
      by (auto simp: canary_abort_def released_def split: if_splits)
    have suc: "as_status a = ASucceeded \<Longrightarrow> as_status (canary_abort now a) = ASucceeded" for a
      by (simp add: canary_abort_def unfinished_def)
    have "phase_safe (map (canary_abort now) rows)"
    proof (rule phase_safe_map [OF safe])
      fix a b assume ab: "a \<in> set rows" "b \<in> set rows"
      show "as_status (canary_abort now b) = ASucceeded" if "released (canary_abort now a)" "as_layer b < as_layer a"
        using lg ab that rel suc unfolding layers_gated_def by blast
      show "as_status (canary_abort now b) = ASucceeded"
        if "as_layer a = 0" "as_layer b = 0" "as_batch a = Some 1" "released (canary_abort now a)" "as_batch b = Some 0"
        using cg ab that rel suc unfolding canary_gated_def by blast
    qed (use none fr in auto)
    with none abort(1) show ?thesis by auto
  next
    case promote
    have fr: "as_layer (canary_release a) = as_layer a \<and> as_batch (canary_release a) = as_batch a" for a
      by (simp add: canary_release_def)
    have rel: "released (canary_release a) \<Longrightarrow> released a \<or> as_layer a = 0" if "a \<in> set rows" for a
      using w that by (auto simp: canary_release_def waits_ok_def split: if_splits)
    have suc: "as_status a = ASucceeded \<Longrightarrow> as_status (canary_release a) = ASucceeded" for a
      by (simp add: canary_release_def)
    have noc: "as_status (canary_release a) = ACancelled \<longleftrightarrow> as_status a = ACancelled" for a
      by (simp add: canary_release_def)
    have nop: "as_status (canary_release a) \<noteq> APendingCanary" for a
      by (simp add: canary_release_def)
    have "phase_safe (map canary_release rows)"
    proof (rule phase_safe_map [OF safe])
      fix a b assume ab: "a \<in> set rows" "b \<in> set rows"
      show "as_status (canary_release b) = ASucceeded" if "released (canary_release a)" "as_layer b < as_layer a"
      proof -
        have "0 \<le> as_layer b" using w ab by (auto simp: waits_ok_def)
        with rel [OF ab(1)] that have "released a" by auto
        with lg ab that suc show ?thesis unfolding layers_gated_def by blast
      qed
      show "as_status (canary_release b) = ASucceeded"
        if "as_layer a = 0" "as_layer b = 0" "as_batch a = Some 1" "released (canary_release a)" "as_batch b = Some 0"
        using promote(3) ab that suc by blast
      show "as_status (canary_release b) \<notin> {APendingLayer, APendingCanary}" if "as_status (canary_release a) = ACancelled"
        using fin ab that promote(2) by (auto simp: noc cancel_final_def)
    qed (use fr in \<open>auto simp: canary_release_def\<close>)
    with promote(1) nop show ?thesis by auto
  qed
  then show "phase_safe (advance_canary oper now rows)"
    "(\<exists>a \<in> set (advance_canary oper now rows). as_status a = APendingCanary) \<Longrightarrow>
         \<exists>a \<in> set (advance_canary oper now rows). active a" by blast+
qed

section \<open>The layer step\<close>

definition layer_abort :: "string \<Rightarrow> assignment_row \<Rightarrow> assignment_row" where
  "layer_abort now a = (if as_status a = APendingLayer then cancel_row now a else a)"

definition layer_promote :: "int \<Rightarrow> assignment_row \<Rightarrow> assignment_row" where
  "layer_promote l a = (if as_layer a = l \<and> as_status a = APendingLayer then promote_row a else a)"

lemma next_layer_None:
  "\<forall>a \<in> set rows. of_op oper a \<Longrightarrow> next_layer oper rows = None \<longleftrightarrow> (\<forall>a \<in> set rows. as_status a \<noteq> APendingLayer)"
  by (auto simp: next_layer_def Let_def filter_empty_conv)

lemma next_layer_Some:
  assumes own: "\<forall>a \<in> set rows. of_op oper a" and "next_layer oper rows = Some n"
  shows "\<exists>a \<in> set rows. as_layer a = n \<and> as_status a = APendingLayer"
    and "a \<in> set rows \<Longrightarrow> as_layer a < n \<Longrightarrow> as_status a \<noteq> APendingLayer"
proof -
  let ?L = "set (map as_layer (filter (\<lambda>a. of_op oper a \<and> as_status a = APendingLayer) rows))"
  have L: "finite ?L" "?L \<noteq> {}" "n = Min ?L"
    using assms(2) by (auto simp: next_layer_def Let_def filter_empty_conv split: if_splits)
  from Min_in [OF L(1,2)] L(3) show "\<exists>a \<in> set rows. as_layer a = n \<and> as_status a = APendingLayer" by auto
  show "as_status a \<noteq> APendingLayer" if "a \<in> set rows" "as_layer a < n"
  proof
    assume "as_status a = APendingLayer"
    with that(1) own have "as_layer a \<in> ?L" by auto
    from Min_le [OF L(1) this] L(3) that(2) show False by simp
  qed
qed

lemma release_layer_cases [consumes 3]:
  assumes own: "\<forall>a \<in> set rows. of_op oper a" and safe: "phase_safe rows" and contig: "contiguous rows"
  obtains
    (idle) "release_layer oper now rows = rows" "\<forall>a \<in> set rows. as_status a \<noteq> APendingLayer"
  | (wait) n b where "release_layer oper now rows = rows" "next_layer oper rows = Some n"
      "b \<in> set rows" "as_layer b = n - 1" "as_status b \<in> {APending, AFetched, APendingCanary}"
  | (abort) n b where "release_layer oper now rows = map (layer_abort now) rows"
      "\<forall>a \<in> set rows. as_status a \<noteq> APendingCanary"
      "b \<in> set rows" "as_status b \<in> {AFailed, APartiallyApplied}"
      "next_layer oper rows = Some n" "as_layer b = n - 1"
      "\<forall>a \<in> set rows. as_layer a = n - 1 \<longrightarrow> \<not> active a"
  | (promote) n where "release_layer oper now rows = map (layer_promote n) rows" "next_layer oper rows = Some n"
      "\<forall>a \<in> set rows. as_layer a < n \<longrightarrow> as_status a = ASucceeded"
proof -
  have lg: "layers_gated rows" and w: "waits_ok rows" and fin: "cancel_final rows"
    using safe by (simp_all add: phase_safe_def)
  show thesis
  proof (cases "next_layer oper rows")
    case None
    then have "\<forall>a \<in> set rows. as_status a \<noteq> APendingLayer" by (simp add: next_layer_None [OF own])
    with None show ?thesis by (intro idle) (simp_all add: release_layer_def)
  next
    case (Some n)
    note nl = next_layer_Some [OF own Some]
    let ?prev = "\<lambda>a. of_op oper a \<and> as_layer a = n - 1"
    let ?running = "\<exists>a \<in> set rows. ?prev a \<and> as_status a \<in> {APending, AFetched, APendingLayer, APendingCanary}"
    let ?failed = "\<exists>a \<in> set rows. ?prev a \<and> as_status a \<in> {AFailed, APartiallyApplied}"
    have rel: "release_layer oper now rows = (if ?running then rows
         else if ?failed then update_where (\<lambda>a. of_op oper a \<and> as_status a = APendingLayer) (cancel_row now) rows
         else update_where (\<lambda>a. of_op oper a \<and> as_layer a = n \<and> as_status a = APendingLayer) promote_row rows)"
      unfolding release_layer_def Some option.case Let_def count_rows_pos ..
    obtain p where p: "p \<in> set rows" "as_layer p = n" "as_status p = APendingLayer" using nl(1) by blast
    then have n: "0 < n" using w by (auto simp: waits_ok_def)
    show ?thesis
    proof (cases ?running)
      case True
      then obtain b where b: "b \<in> set rows" "as_layer b = n - 1"
        "as_status b \<in> {APending, AFetched, APendingLayer, APendingCanary}" by blast
      then have "as_status b \<noteq> APendingLayer" using nl(2) [of b] by simp
      with b True show ?thesis by (intro wait [OF _ Some b(1,2)]) (auto simp: rel)
    next
      case nr: False
      show ?thesis
      proof (cases ?failed)
        case f: True
        then obtain b where b: "b \<in> set rows" "as_layer b = n - 1" "as_status b \<in> {AFailed, APartiallyApplied}" by blast
        have noc: "as_status a \<noteq> APendingCanary" if a: "a \<in> set rows" for a
        proof
          assume s: "as_status a = APendingCanary"
          with w a have "as_layer a = 0" by (auto simp: waits_ok_def)
          moreover from nr own a s have "as_layer a \<noteq> n - 1" by auto
          ultimately have "as_layer a < as_layer b" using n b(2) by simp
          moreover have "released b" using b(3) by (auto simp: released_def)
          ultimately have "as_status a = ASucceeded" using gatedD [OF lg b(1) a] by blast
          with s show False by simp
        qed
        have "release_layer oper now rows = map (layer_abort now) rows"
          unfolding rel if_not_P [OF nr] if_P [OF f] update_where_def
          using own by (intro map_cong) (auto simp: layer_abort_def)
        moreover have "\<forall>a \<in> set rows. as_layer a = n - 1 \<longrightarrow> \<not> active a" using nr own by (auto simp: active_def)
        ultimately show ?thesis using b noc Some by (intro abort) auto
      next
        case nf: False
        have canc: "as_status a \<noteq> ACancelled" if "a \<in> set rows" for a
          using fin p that by (auto simp: cancel_final_def)
        have prev: "as_status a = ASucceeded" if a: "a \<in> set rows" "as_layer a = n - 1" for a
          using nr nf own a canc [OF a(1)] by (cases "as_status a") auto
        obtain q where q: "q \<in> set rows" "as_layer q = n - 1"
        proof -
          have "n - 1 \<in> {0..<as_layer p}" using p(2) n by simp
          with contig p(1) show thesis unfolding contiguous_def using that by blast
        qed
        have low: "as_status a = ASucceeded" if a: "a \<in> set rows" "as_layer a < n" for a
        proof (cases "as_layer a = n - 1")
          case False
          with a q have "as_layer a < as_layer q" by simp
          moreover have "released q" using prev [OF q] by (simp add: released_def)
          ultimately show ?thesis using gatedD [OF lg q(1) a(1)] by blast
        qed (use prev a in simp)
        have "release_layer oper now rows = map (layer_promote n) rows"
          unfolding rel if_not_P [OF nr] if_not_P [OF nf] update_where_def
          using own by (intro map_cong) (auto simp: layer_promote_def)
        with low show ?thesis by (intro promote [OF _ Some]) auto
      qed
    qed
  qed
qed

lemma layer_row_simps:
  "as_layer (layer_abort now a) = as_layer a" "as_batch (layer_abort now a) = as_batch a"
  "as_layer (layer_promote n a) = as_layer a" "as_batch (layer_promote n a) = as_batch a"
  "released (layer_abort now a) \<longleftrightarrow> released a"
  "released (layer_promote n a) \<longleftrightarrow> released a \<or> as_layer a = n \<and> as_status a = APendingLayer"
  "as_status a \<noteq> APendingLayer \<Longrightarrow> layer_abort now a = a"
  "as_status a \<noteq> APendingLayer \<Longrightarrow> layer_promote n a = a"
  "as_status (layer_abort now a) = (if as_status a = APendingLayer then ACancelled else as_status a)"
  "as_status (layer_promote n a) = (if as_layer a = n \<and> as_status a = APendingLayer then APending else as_status a)"
  by (auto simp: layer_abort_def layer_promote_def released_def)

lemma release_layer_safe:
  assumes own: "\<forall>a \<in> set rows. of_op oper a" and safe: "phase_safe rows" and contig: "contiguous rows"
  shows "phase_safe (release_layer oper now rows)"
  using own safe contig
proof (cases rule: release_layer_cases [where now = now])
  case (abort n b)
  note lg = safe [unfolded phase_safe_def layers_gated_def, THEN conjunct1, rule_format]
  note cg = safe [unfolded phase_safe_def canary_gated_def, THEN conjunct2, THEN conjunct1, rule_format]
  show ?thesis
    unfolding abort(1)
    by (rule phase_safe_map [OF safe]) (use abort(2) lg cg in \<open>auto simp: layer_row_simps split: if_splits\<close>)
next
  case (promote n)
  have lg: "layers_gated rows" and cg: "canary_gated rows" and w: "waits_ok rows" and fin: "cancel_final rows"
    using safe by (simp_all add: phase_safe_def)
  obtain p where p: "p \<in> set rows" "as_layer p = n" "as_status p = APendingLayer"
    using next_layer_Some(1) [OF own promote(2)] by blast
  have n: "0 < n" using w p by (auto simp: waits_ok_def)
  show ?thesis
    unfolding promote(1)
  proof (rule phase_safe_map [OF safe])
    fix a b assume ab: "a \<in> set rows" "b \<in> set rows"
    show "as_status (layer_promote n b) = ASucceeded" if r: "released (layer_promote n a)" "as_layer b < as_layer a"
    proof (cases "released a")
      case True
      then have "as_status b = ASucceeded" using gatedD [OF lg ab] r(2) by blast
      then show ?thesis by (simp add: layer_row_simps)
    next
      case False
      with r have "as_layer b < n" by (simp add: layer_row_simps)
      with promote(3) ab(2) show ?thesis by (simp add: layer_row_simps)
    qed
    show "as_status (layer_promote n b) = ASucceeded"
      if "as_layer a = 0" "as_layer b = 0" "as_batch a = Some 1" "released (layer_promote n a)" "as_batch b = Some 0"
      using cg ab that n by (auto simp: layer_row_simps canary_gated_def)
    show "as_status (layer_promote n b) \<notin> {APendingLayer, APendingCanary}" if "as_status (layer_promote n a) = ACancelled"
    proof -
      have "as_status a = ACancelled" using that by (simp add: layer_row_simps split: if_splits)
      with fin ab p show ?thesis by (auto simp: cancel_final_def)
    qed
  qed (auto simp: layer_row_simps split: if_splits)
qed (use safe in simp_all)

text \<open>The layer step leaves a row an agent can take, if the canary step did.\<close>

lemma release_layer_progress:
  assumes own: "\<forall>a \<in> set rows. of_op oper a" and safe: "phase_safe rows" and contig: "contiguous rows"
    and canary: "(\<exists>a \<in> set rows. as_status a = APendingCanary) \<longrightarrow> (\<exists>a \<in> set rows. active a)"
  shows "progress (release_layer oper now rows)"
  using own safe contig
proof (cases rule: release_layer_cases [where now = now])
  case idle
  with canary show ?thesis by (auto simp: progress_def status_defs)
next
  case (wait n b)
  then have "\<exists>a \<in> set rows. active a" using canary by (auto simp: active_def)
  with wait(1) show ?thesis by (simp add: progress_def)
next
  case (abort n b)
  have "active x" if "x \<in> set (map (layer_abort now) rows)" "unfinished x" for x
    using that abort(2) by (auto simp: layer_row_simps status_defs split: if_splits)
  with abort(1) show ?thesis by (auto simp: progress_def)
next
  case (promote n)
  obtain p where p: "p \<in> set rows" "as_layer p = n" "as_status p = APendingLayer"
    using next_layer_Some(1) [OF own promote(2)] by blast
  then have "active (layer_promote n p)" by (simp add: active_def layer_row_simps)
  with p(1) promote(1) show ?thesis by (auto simp: progress_def)
qed

section \<open>The whole step\<close>

lemma contiguous_layers: "contiguous rows \<longleftrightarrow> (\<forall>x \<in> set (map as_layer rows). {0..<x} \<subseteq> set (map as_layer rows))"
  unfolding contiguous_def by (simp add: subset_iff image_iff Ball_def eq_commute) blast

lemma keeps_contiguous: "keeps_identity f \<Longrightarrow> contiguous (f rows) \<longleftrightarrow> contiguous rows"
  unfolding contiguous_layers by (simp only: keeps_proj)

lemma own_ids: "(\<forall>a \<in> set rows. of_op oper a) \<longleftrightarrow> set (map as_operation_id rows) \<subseteq> {oper}"
  by (auto simp: of_op_def)

lemma keeps_own: "keeps_identity f \<Longrightarrow> \<forall>a \<in> set rows. of_op oper a \<Longrightarrow> \<forall>a \<in> set (f rows). of_op oper a"
  unfolding own_ids by (simp only: keeps_proj)

lemma keeps_advance_canary: "keeps_identity (advance_canary oper now)"
  using keeps_canary_loop [of oper now] by (simp add: keeps_identity_def advance_canary_def)

lemma advance_safe:
  assumes "\<forall>a \<in> set rows. of_op oper a" and "phase_safe rows" and "contiguous rows"
  shows "phase_safe (advance_phased_apply oper now rows)" and "progress (advance_phased_apply oper now rows)"
proof -
  note own = keeps_own [OF keeps_advance_canary assms(1), of oper now]
  note cont = keeps_contiguous [OF keeps_advance_canary, THEN iffD2, OF assms(3), of oper now]
  note c = advance_canary_safe [OF assms(1,2), of now]
  show "phase_safe (advance_phased_apply oper now rows)"
    unfolding advance_phased_apply_def by (rule release_layer_safe [OF own c(1) cont])
  show "progress (advance_phased_apply oper now rows)"
    unfolding advance_phased_apply_def by (rule release_layer_progress [OF own c(1) cont]) (use c(2) in blast)
qed

text \<open>The layer step does not touch layer 0.\<close>

lemma release_layer_zero:
  assumes own: "\<forall>a \<in> set rows. of_op oper a" and safe: "phase_safe rows" and contig: "contiguous rows"
    and l: "as_layer a = 0"
  shows "a \<in> set (release_layer oper now rows) \<longleftrightarrow> a \<in> set rows"
proof -
  have w: "waits_ok rows" using safe by (simp add: phase_safe_def)
  have nl: "as_status x \<noteq> APendingLayer" if "x \<in> set rows" "as_layer x = 0" for x
    using w that by (auto simp: waits_ok_def)
  show ?thesis
    using own safe contig
  proof (cases rule: release_layer_cases [where now = now])
    case abort
    show ?thesis unfolding abort(1) set_map
      using l nl by (auto simp: layer_row_simps intro: image_eqI [of _ _ a])
  next
    case promote
    show ?thesis unfolding promote(1) set_map
      using l nl by (auto simp: layer_row_simps intro: image_eqI [of _ _ a])
  qed (use l in auto)
qed

lemma canary_step_settled:
  assumes own: "\<forall>a \<in> set rows. of_op oper a" and safe: "phase_safe rows" and contig: "contiguous rows"
  shows "advance_canary oper now' (advance_phased_apply oper now rows) = advance_phased_apply oper now rows"
proof -
  let ?r1 = "advance_canary oper now rows" and ?r2 = "advance_phased_apply oper now rows"
  note own1 = keeps_own [OF keeps_advance_canary own, of oper now]
  note cont1 = keeps_contiguous [OF keeps_advance_canary, THEN iffD2, OF contig, of oper now]
  note c = advance_canary_safe [OF own safe, of now]
  note zero = release_layer_zero [OF own1 c(1) cont1, of _ now, folded advance_phased_apply_def]
  note own2 = keeps_own [OF keeps_advance own, of oper now]
  note safe2 = advance_safe(1) [OF own safe contig, of now]
  have pc: "b \<in> set ?r1" if "b \<in> set ?r2" "as_status b = APendingCanary" for b
    using zero [of b] safe2 that by (auto simp: phase_safe_def waits_ok_def)
  have stays: "(\<exists>a \<in> set ?r2. active a \<and> as_layer a = 0 \<and> as_batch a = Some 0)
      \<and> (\<forall>a \<in> set ?r2. as_layer a = 0 \<and> as_batch a = Some 0 \<longrightarrow> as_status a \<notin> {AFailed, APartiallyApplied})"
    if b: "b \<in> set ?r2" "as_status b = APendingCanary" for b
    using own safe
  proof (cases rule: advance_canary_cases [where now = now])
    case wait
    from wait(2) obtain a where a: "a \<in> set rows" "active a" "as_layer a = 0" "as_batch a = Some 0" by blast
    with zero [of a] wait(1) have "a \<in> set ?r2" by simp
    with a wait zero show ?thesis by auto
  next
    case abort
    have "as_status (canary_abort now x) \<noteq> APendingCanary" if "x \<in> set rows" for x
      using safe that by (auto simp: canary_abort_def unfinished_def not_canary_of_def phase_safe_def waits_ok_def)
    with pc [OF b] b(2) abort(1) show ?thesis by auto
  next
    case promote
    with pc [OF b] b(2) show ?thesis by (auto simp: canary_release_def split: if_splits)
  qed (use pc [OF b] b(2) in auto)
  show ?thesis
    using own2 safe2
  proof (cases rule: advance_canary_cases [where now = now'])
    case abort
    with stays show ?thesis by blast
  next
    case promote
    from promote(2) stays obtain a where "a \<in> set ?r2" "active a" "as_layer a = 0" "as_batch a = Some 0" by blast
    with promote(3) show ?thesis by (auto simp: active_def)
  qed auto
qed

lemma layer_step_settled:
  assumes own: "\<forall>a \<in> set rows. of_op oper a" and safe: "phase_safe rows" and contig: "contiguous rows"
  shows "release_layer oper now' (release_layer oper now rows) = release_layer oper now rows"
  using own safe contig
proof (cases rule: release_layer_cases [where now = now])
  case idle
  then have "next_layer oper rows = None" by (simp add: next_layer_None [OF own])
  then have "release_layer oper now' rows = rows" by (simp add: release_layer_def)
  then show ?thesis by (simp only: idle(1))
next
  case (wait n b)
  from own safe contig show ?thesis
  proof (cases rule: release_layer_cases [where now = now'])
    case (abort n' b')
    have "active b \<or> as_status b = APendingCanary" using wait(5) by (auto simp: active_def)
    with abort(2,5,7) wait(2-4) show ?thesis by auto
  next
    case (promote n')
    then have "as_status b = ASucceeded" using wait(2-4) by simp
    with wait(5) show ?thesis by simp
  qed (use wait(1) in simp_all)
next
  case (abort n b)
  have "next_layer oper (map (layer_abort now) rows) = None"
    by (subst next_layer_None) (use own in \<open>auto simp: layer_row_simps layer_abort_def split: if_splits\<close>)
  then have "release_layer oper now' (map (layer_abort now) rows) = map (layer_abort now) rows"
    by (simp add: release_layer_def)
  then show ?thesis by (simp only: abort(1))
next
  case (promote n)
  let ?r2 = "map (layer_promote n) rows"
  have own2: "\<forall>a \<in> set ?r2. of_op oper a" using own by (auto simp: layer_promote_def)
  have safe2: "phase_safe ?r2" using release_layer_safe [OF own safe contig, of now] promote(1) by simp
  have cont2: "contiguous ?r2" using contig by (simp add: contiguous_map layer_row_simps)
  obtain p where p: "p \<in> set rows" "as_layer p = n" "as_status p = APendingLayer"
    using next_layer_Some(1) [OF own promote(2)] by blast
  let ?p = "layer_promote n p"
  have p2: "?p \<in> set ?r2" "as_layer ?p = n" "as_status ?p = APending"
    using p by (simp_all add: layer_row_simps)
  have later: "n < n'" if nl: "next_layer oper ?r2 = Some n'" for n'
  proof -
    obtain q where q: "q \<in> set rows" "as_layer q = n'" "as_status (layer_promote n q) = APendingLayer"
      using next_layer_Some(1) [OF own2 nl] by (auto simp: layer_row_simps)
    then have "as_status q = APendingLayer" "n' \<noteq> n" by (auto simp: layer_row_simps split: if_splits)
    moreover have "\<not> as_layer q < n" using next_layer_Some(2) [OF own promote(2) q(1)] calculation(1) by blast
    ultimately show ?thesis using q(2) by simp
  qed
  have "release_layer oper now' ?r2 = ?r2"
    using own2 safe2 cont2
  proof (cases rule: release_layer_cases [where now = now'])
    case (abort n' b)
    have "\<not> as_layer ?p < as_layer b"
    proof
      assume lt: "as_layer ?p < as_layer b"
      have "released b" using abort(4) by (auto simp: released_def)
      from gatedD [OF _ abort(3) p2(1) this lt] safe2 p2(3) show False by (simp add: phase_safe_def)
    qed
    with later [OF abort(5)] abort(6) p2(2) have "as_layer ?p = n' - 1" by simp
    with abort(7) p2 show ?thesis by (auto simp: active_def)
  next
    case (promote n')
    from later [OF promote(2)] promote(3) p2 show ?thesis by auto
  qed simp_all
  with promote(1) show ?thesis by simp
qed

lemma advance_settled:
  assumes "\<forall>a \<in> set rows. of_op oper a" and "phase_safe rows" and "contiguous rows"
  shows "advance_phased_apply oper now' (advance_phased_apply oper now rows) = advance_phased_apply oper now rows"
proof -
  note own1 = keeps_own [OF keeps_advance_canary assms(1), of oper now]
  note cont1 = keeps_contiguous [OF keeps_advance_canary, THEN iffD2, OF assms(3), of oper now]
  note c = advance_canary_safe [OF assms(1,2), of now]
  show ?thesis
    unfolding advance_phased_apply_def [of oper now'] canary_step_settled [OF assms]
    unfolding advance_phased_apply_def by (rule layer_step_settled [OF own1 c(1) cont1])
qed

text \<open>
  Advancing is idempotent and local: on the rows of an operation that satisfy the rollout
  invariant with contiguous layers, a second advance with no completion in between changes
  nothing, and the rows of other operations are never touched.
\<close>

theorem advance_idempotent:
  assumes "phase_safe (rows_of oper rows)" and "contiguous (rows_of oper rows)" and "oper' \<noteq> oper"
  shows "rows_of oper (advance_phased_apply oper now' (advance_phased_apply oper now rows))
           = rows_of oper (advance_phased_apply oper now rows)
       \<and> rows_of oper' (advance_phased_apply oper now rows) = rows_of oper' rows"
proof -
  have "\<forall>a \<in> set (rows_of oper rows). of_op oper a" by (simp add: rows_of_def)
  from advance_settled [OF this assms(1,2)] advance_other [OF assms(3)] show ?thesis by (simp add: advance_own)
qed

section \<open>Sample rows and the limits of the gate\<close>

definition sample_row :: "string \<Rightarrow> int \<Rightarrow> nat option \<Rightarrow> assignment_status \<Rightarrow> assignment_row" where
  "sample_row i layer batch st = \<lparr>as_id = i, as_agent_id = ''a1'', as_operation_id = ''op1'', as_payload_json = ''{}'',
     as_created_at = ''t0'', as_expires_at = None, as_fetched_at = Some ''t1'', as_completed_at = None, as_status = st,
     as_kind = ''apply'', as_layer = layer, as_batch = batch, as_result_json = None\<rparr>"

lemma sample_row_simps [simp]:
  "as_operation_id (sample_row i l b st) = ''op1''" "as_layer (sample_row i l b st) = l"
  "as_batch (sample_row i l b st) = b" "as_status (sample_row i l b st) = st" "as_id (sample_row i l b st) = i"
  "of_op oper (sample_row i l b st) \<longleftrightarrow> oper = ''op1''"
  "promote_row (sample_row i l b st) = sample_row i l b APending"
  by (auto simp: sample_row_def of_op_def promote_row_def)

lemmas sample_eval = advance_phased_apply_def advance_canary_def waiting_layers_def release_layer_def next_layer_def
  count_rows_def update_where_def

lemma sample_two_layers:
  "advance_phased_apply ''op1'' ''t2'' [sample_row ''s1'' 0 None ASucceeded, sample_row ''s2'' 1 None APendingLayer]
   = [sample_row ''s1'' 0 None ASucceeded, sample_row ''s2'' 1 None APending]"
  by (simp add: sample_eval)

theorem advance_idempotent_witness:
  "advance_phased_apply ''op1'' ''t3''
     (advance_phased_apply ''op1'' ''t2'' [sample_row ''s1'' 0 None ASucceeded, sample_row ''s2'' 1 None APendingLayer])
   = [sample_row ''s1'' 0 None ASucceeded, sample_row ''s2'' 1 None APending]"
proof -
  let ?rows = "[sample_row ''s1'' 0 None ASucceeded, sample_row ''s2'' 1 None APendingLayer]"
  have r: "rows_of ''op1'' ?rows = ?rows"
    "rows_of ''op1'' [sample_row ''s1'' 0 None ASucceeded, sample_row ''s2'' 1 None APending]
       = [sample_row ''s1'' 0 None ASucceeded, sample_row ''s2'' 1 None APending]"
    by (simp_all add: rows_of_def)
  have safe: "phase_safe ?rows" by (auto simp: phase_defs status_defs)
  have cont: "contiguous ?rows" by (auto simp: contiguous_def)
  have "rows_of ''op1'' (advance_phased_apply ''op1'' ''t3'' (advance_phased_apply ''op1'' ''t2'' ?rows))
      = [sample_row ''s1'' 0 None ASucceeded, sample_row ''s2'' 1 None APending]"
    using advance_idempotent [of "''op1''" ?rows "''op2''" "''t3''" "''t2''"] safe cont
    by (simp only: r sample_two_layers) simp
  then show ?thesis by (simp add: advance_own r)
qed

text \<open>
  With a gap in the routed layers the gate looks at an empty layer and opens: the row of layer 2
  is released while layer 0 is still running, and a second advance releases layer 4.
\<close>

theorem layer_gap_not_gated:
  "advance_phased_apply ''op1'' ''t2''
     [sample_row ''s1'' 0 None AFetched, sample_row ''s2'' 2 None APendingLayer, sample_row ''s3'' 4 None APendingLayer]
   = [sample_row ''s1'' 0 None AFetched, sample_row ''s2'' 2 None APending, sample_row ''s3'' 4 None APendingLayer]
   \<and> advance_phased_apply ''op1'' ''t3''
     [sample_row ''s1'' 0 None AFetched, sample_row ''s2'' 2 None APending, sample_row ''s3'' 4 None APendingLayer]
   = [sample_row ''s1'' 0 None AFetched, sample_row ''s2'' 2 None APending, sample_row ''s3'' 4 None APending]"
  by (simp add: sample_eval)

text \<open>In a layer above 0 the canary batch is not ahead of the baseline: both are released at once.\<close>

theorem upper_layer_canary_not_gated:
  "advance_phased_apply ''op1'' ''t2''
     [sample_row ''s1'' 0 None ASucceeded, sample_row ''s2'' 1 (Some 0) APendingLayer, sample_row ''s3'' 1 (Some 1) APendingLayer]
   = [sample_row ''s1'' 0 None ASucceeded, sample_row ''s2'' 1 (Some 0) APending, sample_row ''s3'' 1 (Some 1) APending]"
  by (simp add: sample_eval)

text \<open>A failed canary leaves the rest of the canary batch running.\<close>

theorem failed_canary_keeps_batch:
  "map as_status (advance_phased_apply ''op1'' ''t2''
     [sample_row ''s1'' 0 (Some 0) AFailed, sample_row ''s2'' 0 (Some 0) AFetched, sample_row ''s3'' 0 (Some 1) APendingCanary])
   = [AFailed, AFetched, ACancelled]"
  by (simp add: sample_eval not_canary_of_def)

end
