(* ===== verification/Operations.thy ===== *)
theory Operations
  imports Routing Phased
begin

text \<open>
  The life of an operation in \<open>store.rs\<close>: \<open>create_operation\<close>, \<open>approve_operation\<close>,
  \<open>reject_operation\<close>, the two ways an agent claims work (\<open>fetch_pending_assignments\<close>,
  \<open>claim_ssh_pending\<close>), \<open>revert_assignment_claims\<close>, and the completion report
  \<open>complete_assignment_with_extra_audit\<close> with \<open>roll_up_operation\<close>.

  The lemmas show that every call keeps the invariant \<open>rollout_inv\<close> of the database: the phased
  rollout of every operation with contiguous layers is safe and makes progress, an operation
  waiting for approval has no assignments, and an operation's status is the roll-up of its rows.
\<close>

section \<open>Inserts\<close>

definition insert_operation :: "operation_row \<Rightarrow> db \<Rightarrow> db api_result" where
  "insert_operation row d =
     (if op_id row \<in> op_id ` set (db_operations d) then Inl (Sqlx ''UNIQUE constraint failed: operations.id'')
      else Inr (d\<lparr>db_operations := db_operations d @ [row]\<rparr>))"

definition insert_desired :: "string \<Rightarrow> resource_for_routing \<Rightarrow> db \<Rightarrow> db api_result" where
  "insert_desired oper r d =
     (if \<exists>x \<in> set (db_desired d). ds_operation_id x = oper \<and> ds_resource_id x = rf_resource_id r
      then Inl (Sqlx ''UNIQUE constraint failed: desired_states.operation_id, desired_states.resource_id'')
      else Inr (d\<lparr>db_desired := db_desired d @
             [\<lparr>ds_id = db_desired_seq d + 1, ds_operation_id = oper, ds_resource_id = rf_resource_id r,
               ds_kind = rf_kind r, ds_environment = rf_environment r, ds_spec_json = rf_resource_json r,
               ds_metadata_json = ''{}''\<rparr>],
             db_desired_seq := db_desired_seq d + 1\<rparr>))"

definition insert_assignment :: "assignment_row \<Rightarrow> db \<Rightarrow> db api_result" where
  "insert_assignment row d =
     (if as_id row \<in> as_id ` set (db_assignments d) then Inl (Sqlx ''UNIQUE constraint failed: assignments.id'')
      else if as_agent_id row \<notin> ag_id ` set (db_agents d) then Inl (Sqlx ''FOREIGN KEY constraint failed'')
      else Inr (d\<lparr>db_assignments := db_assignments d @ [row]\<rparr>))"

section \<open>Submission\<close>

record create_outcome =
  co_operation_id :: string
  co_assignment_count :: nat
  co_unrouted :: "(string \<times> err_msg) list"
  co_matched_policies :: "string list"
  co_requires_approval :: bool

definition parse_json :: "serde \<Rightarrow> string \<Rightarrow> json api_result" where
  "parse_json S s = (case from_str S s of None \<Rightarrow> Inl JsonError | Some v \<Rightarrow> Inr v)"

text \<open>The loop over the resources: store the desired state, route, fill the buckets.\<close>

fun submit_loop :: "string \<Rightarrow> string \<Rightarrow> agent_info list \<Rightarrow> (resource_for_routing \<times> int) list
    \<Rightarrow> db \<times> resource_for_routing buckets \<times> (string \<times> err_msg) list
    \<Rightarrow> (db \<times> resource_for_routing buckets \<times> (string \<times> err_msg) list) api_result" where
  "submit_loop oper env agents [] acc = Inr acc"
| "submit_loop oper env agents ((r, layer) # rs) (d, buckets, unrouted) =
     bindE (insert_desired oper r d) (\<lambda>d'.
       (case route_resource r env agents of
          Inr agent_id \<Rightarrow> submit_loop oper env agents rs (d', bt_push (agent_id, layer) r buckets, unrouted)
        | Inl reason \<Rightarrow> submit_loop oper env agents rs (d', buckets, unrouted @ [(rf_resource_id r, reason)])))"

definition bucket_payload :: "serde \<Rightarrow> resource_for_routing list \<Rightarrow> string api_result" where
  "bucket_payload S items =
     bindE (traverse (\<lambda>r. bindE (parse_json S (rf_resource_json r)) (\<lambda>v. Inr (strip_routing_hints v))) items)
       (\<lambda>resources. Inr (to_str S (JObj [(''resources'', JArr resources)])))"

definition initial_assignment_status :: "int \<Rightarrow> nat option \<Rightarrow> assignment_status" where
  "initial_assignment_status layer batch =
     (if layer = 0 \<and> batch = None then APending
      else if layer = 0 \<and> batch = Some 0 then APending
      else if layer = 0 \<and> batch = Some 1 then APendingCanary
      else APendingLayer)"

definition new_assignment :: "string \<Rightarrow> string \<Rightarrow> string \<Rightarrow> string \<Rightarrow> string \<Rightarrow> int \<Rightarrow> nat option \<Rightarrow> assignment_status
    \<Rightarrow> assignment_row" where
  "new_assignment aid agent oper payload now layer batch status =
     \<lparr>as_id = aid, as_agent_id = agent, as_operation_id = oper, as_payload_json = payload,
      as_created_at = now, as_expires_at = None, as_fetched_at = None, as_completed_at = None,
      as_status = status, as_kind = ''apply'', as_layer = layer, as_batch = batch, as_result_json = None\<rparr>"

fun insert_buckets :: "call_env \<Rightarrow> string \<Rightarrow> (nat \<Rightarrow> string) \<Rightarrow> (string \<times> int \<rightharpoonup> nat) \<Rightarrow> nat
    \<Rightarrow> resource_for_routing buckets \<Rightarrow> db \<Rightarrow> db api_result" where
  "insert_buckets E oper ulid split i [] d = Inr d"
| "insert_buckets E oper ulid split i (((agent_id, layer), items) # bs) d =
     bindE (bucket_payload (ce_serde E) items) (\<lambda>payload.
     bindE (insert_assignment (new_assignment (ulid i) agent_id oper payload (ce_now E) layer
              (split (agent_id, layer)) (initial_assignment_status layer (split (agent_id, layer)))) d)
       (insert_buckets E oper ulid split (Suc i) bs))"

text \<open>The assignment rows of an operation that needs no approval; with nothing routed it is done.\<close>

definition dispatch_buckets :: "call_env \<Rightarrow> string \<Rightarrow> (nat \<Rightarrow> string) \<Rightarrow> canary_spec option \<Rightarrow> bool
    \<Rightarrow> resource_for_routing buckets \<Rightarrow> db \<Rightarrow> (db \<times> nat) api_result" where
  "dispatch_buckets E oper ulid canary requires_approval buckets d =
     (if requires_approval then Inr (d, 0)
      else bindE (insert_buckets E oper ulid
                    (compute_canary_split (bucket_agents_per_layer buckets) canary) 0 buckets d) (\<lambda>d3.
        Inr (if buckets = []
             then d3\<lparr>db_operations := update_where (\<lambda>w. op_id w = oper)
                    (\<lambda>w. w\<lparr>op_status := OpSucceeded, op_started_at := Some (ce_now E),
                           op_finished_at := Some (ce_now E)\<rparr>) (db_operations d3)\<rparr>
             else d3, length buckets)))"

definition new_operation_row :: "call_env \<Rightarrow> string \<Rightarrow> string \<Rightarrow> string \<Rightarrow> string option \<Rightarrow> string option \<Rightarrow> string list
    \<Rightarrow> bool \<Rightarrow> operation_row" where
  "new_operation_row E oper environment requested_by source_commit summary matched_policies requires_approval =
     \<lparr>op_id = oper, op_kind = ''apply'', op_environment = environment, op_requested_by = requested_by,
      op_status = (if requires_approval then OpPendingApproval else OpPending),
      op_source_commit = source_commit, op_summary = summary, op_created_at = ce_now E,
      op_started_at = None, op_finished_at = None, op_requires_approval = requires_approval,
      op_matched_policies = matched_policies, op_approved_by = None, op_approved_at = None,
      op_approval_reason = None, op_rejected_by = None, op_rejected_at = None, op_rejection_reason = None\<rparr>"

definition create_operation ::
    "call_env \<Rightarrow> string \<Rightarrow> (nat \<Rightarrow> string) \<Rightarrow> string \<Rightarrow> string \<Rightarrow> string \<Rightarrow> string option \<Rightarrow> string option
     \<Rightarrow> resource_for_routing list \<Rightarrow> string list \<Rightarrow> bool \<Rightarrow> canary_spec option \<Rightarrow> create_outcome tx" where
  "create_operation E oper ulid environment requested_by actor source_commit summary resources
       matched_policies requires_approval canary d =
     bindE (insert_operation (new_operation_row E oper environment requested_by source_commit summary
              matched_policies requires_approval) d) (\<lambda>d1.
     bindE (compute_resource_layers (ce_serde E) resources) (\<lambda>layers.
     bindE (submit_loop oper environment (agent_snapshot d) (zip resources layers) (d1, [], [])) (\<lambda>(d2, buckets, unrouted).
     bindE (dispatch_buckets E oper ulid canary requires_approval buckets d2) (\<lambda>(d4, assignment_count).
       Inr (audited E (audit_payload (jobject [(''environment'', JStr environment),
                (''requested_by'', JStr requested_by), (''resource_count'', jnat (length resources)),
                (''assignment_count'', jnat assignment_count), (''unrouted_count'', jnat (length unrouted)),
                (''source_commit'', jopt source_commit), (''matched_policies'', jstrs matched_policies)])
              (audit_operation oper (audit_new actor
                 (if requires_approval then ''operation.pending_approval'' else ''operation.submitted'')))) d4,
            \<lparr>co_operation_id = oper, co_assignment_count = assignment_count, co_unrouted = unrouted,
             co_matched_policies = matched_policies, co_requires_approval = requires_approval\<rparr>)))))"

section \<open>Approval\<close>

definition host_selector_of :: "json \<Rightarrow> string option" where
  "host_selector_of v = Option.bind (jpath v [''spec'', ''hostSelector'', ''name'']) as_str"

definition metadata_name_of :: "json \<Rightarrow> string" where
  "metadata_name_of v = (case Option.bind (jpath v [''metadata'', ''name'']) as_str of None \<Rightarrow> [] | Some n \<Rightarrow> n)"

definition routing_of_desired :: "serde \<Rightarrow> desired_row \<Rightarrow> resource_for_routing api_result" where
  "routing_of_desired S r =
     bindE (parse_json S (ds_spec_json r)) (\<lambda>value.
       Inr \<lparr>rf_resource_id = ds_resource_id r, rf_kind = ds_kind r, rf_environment = ds_environment r,
            rf_resource_json = ds_spec_json r, rf_name = metadata_name_of value,
            rf_host_selector = host_selector_of value\<rparr>)"

text \<open>The second loop prints the stripped resource and the third parses it again, as the code does.\<close>

fun approve_loop :: "serde \<Rightarrow> string \<Rightarrow> agent_info list \<Rightarrow> (resource_for_routing \<times> int) list
    \<Rightarrow> string buckets \<Rightarrow> string buckets api_result" where
  "approve_loop S env agents [] buckets = Inr buckets"
| "approve_loop S env agents ((r, layer) # rs) buckets =
     (case route_resource r env agents of
        Inl _ \<Rightarrow> approve_loop S env agents rs buckets
      | Inr agent_id \<Rightarrow>
          bindE (parse_json S (rf_resource_json r)) (\<lambda>v.
            approve_loop S env agents rs (bt_push (agent_id, layer) (to_str S (strip_routing_hints v)) buckets)))"

fun insert_approved :: "call_env \<Rightarrow> string \<Rightarrow> (nat \<Rightarrow> string) \<Rightarrow> nat \<Rightarrow> string buckets \<Rightarrow> db \<Rightarrow> db api_result" where
  "insert_approved E oper ulid i [] d = Inr d"
| "insert_approved E oper ulid i (((agent_id, layer), items_json) # bs) d =
     bindE (traverse (parse_json (ce_serde E)) items_json) (\<lambda>resources.
     bindE (insert_assignment (new_assignment (ulid i) agent_id oper
              (to_str (ce_serde E) (JObj [(''resources'', JArr resources)])) (ce_now E) layer None
              (if layer = 0 then APending else APendingLayer)) d)
       (insert_approved E oper ulid (Suc i) bs))"

definition find_op :: "string \<Rightarrow> db \<Rightarrow> operation_row option" where
  "find_op oper d = find (\<lambda>w. op_id w = oper) (db_operations d)"

definition approve_operation ::
    "call_env \<Rightarrow> (nat \<Rightarrow> string) \<Rightarrow> string \<Rightarrow> string \<Rightarrow> string \<Rightarrow> string option \<Rightarrow> nat tx" where
  "approve_operation E ulid oper approver actor reason d =
     (let S = ce_serde E in
      bindE (ok_or (find_op oper d) NotFound) (\<lambda>row.
      if op_status row \<noteq> OpPendingApproval
      then Inl (Conflict (Msg ''operation is in status {status:?}, not pending_approval''
                 [operation_status_text (op_status row)]))
      else
      bindE (traverse (routing_of_desired S) (filter (\<lambda>x. ds_operation_id x = oper) (db_desired d))) (\<lambda>listed.
      bindE (topo_sort_by_depends_on S listed) (\<lambda>routing_list.
      bindE (compute_resource_layers S routing_list) (\<lambda>layers.
      bindE (approve_loop S (op_environment row) (agent_snapshot d) (zip routing_list layers) []) (\<lambda>buckets.
      bindE (insert_approved E oper ulid 0 buckets d) (\<lambda>d1.
        let n = length buckets;
            waiting = (\<lambda>w. op_id w = oper \<and> op_status w = OpPendingApproval)
        in if rows_affected waiting (db_operations d1) \<noteq> 1
           then Inl (Conflict (Msg ''operation {op_id} no longer in pending_approval'' [oper]))
           else Inr (audited E (audit_payload (jobject [(''approver'', JStr approver), (''reason'', jopt reason),
                          (''assignment_count'', jnat n)])
                        (audit_operation oper (audit_new actor ''operation.approved'')))
                  (d1\<lparr>db_operations := update_where waiting
                        (\<lambda>w. w\<lparr>op_status := (if n = 0 then OpSucceeded else OpPending),
                               op_approved_by := Some approver, op_approved_at := Some (ce_now E),
                               op_approval_reason := reason,
                               op_finished_at := (if n = 0 then Some (ce_now E) else op_finished_at w)\<rparr>)
                        (db_operations d1)\<rparr>), n))))))))"

definition reject_operation :: "call_env \<Rightarrow> string \<Rightarrow> string \<Rightarrow> string \<Rightarrow> string \<Rightarrow> unit tx" where
  "reject_operation E oper rejector actor reason d =
     (if trim reason = [] then Inl (BadRequest (Msg ''reason must not be empty'' []))
      else
        let waiting = (\<lambda>w. op_id w = oper \<and> op_status w = OpPendingApproval)
        in if rows_affected waiting (db_operations d) = 0
           then Inl (Conflict (Msg ''operation not found or not in pending_approval'' []))
           else Inr (audited E (audit_payload (jobject [(''rejector'', JStr rejector), (''reason'', JStr reason)])
                        (audit_operation oper (audit_severity ''warning'' (audit_new actor ''operation.rejected''))))
                  (d\<lparr>db_operations := update_where waiting
                        (\<lambda>w. w\<lparr>op_status := OpRejected, op_rejected_by := Some rejector,
                               op_rejected_at := Some (ce_now E), op_rejection_reason := Some reason,
                               op_finished_at := Some (ce_now E)\<rparr>) (db_operations d)\<rparr>), ()))"

section \<open>Claims\<close>

definition assignment_lease_secs :: "call_env \<Rightarrow> int" where
  "assignment_lease_secs E = (case ce_lease E of Some n \<Rightarrow> n | None \<Rightarrow> 60)"

definition lease_cutoff :: "call_env \<Rightarrow> string api_result" where
  "lease_cutoff E = ok_or (ce_after E (- assignment_lease_secs E)) Panic"

definition claimable :: "string \<Rightarrow> assignment_row \<Rightarrow> bool" where
  "claimable cutoff a \<longleftrightarrow> as_status a = APending
     \<or> (as_status a = AFetched \<and> (case as_fetched_at a of None \<Rightarrow> False | Some t \<Rightarrow> t < cutoff))"

definition claim_row :: "string \<Rightarrow> assignment_row \<Rightarrow> assignment_row" where
  "claim_row now a = a\<lparr>as_status := AFetched, as_fetched_at := Some now\<rparr>"

text \<open>\<open>UPDATE operations SET status = 'running' ... WHERE id = ? AND status = 'pending'\<close>.\<close>

definition mark_running :: "string \<Rightarrow> string \<Rightarrow> db \<Rightarrow> db" where
  "mark_running now oper d = d\<lparr>db_operations := update_where (\<lambda>w. op_id w = oper \<and> op_status w = OpPending)
     (\<lambda>w. w\<lparr>op_status := OpRunning,
            op_started_at := (case op_started_at w of None \<Rightarrow> Some now | Some t \<Rightarrow> Some t)\<rparr>) (db_operations d)\<rparr>"

record envelope =
  en_assignment_id :: string
  en_operation_id :: string
  en_kind :: string
  en_created_at :: string
  en_expires_at :: "string option"
  en_payload :: "json list"
  en_key_id :: string
  en_signature :: string

text \<open>\<open>serde_json::from_str::<AssignmentPayload>\<close>: an object whose field \<open>resources\<close> is an array.\<close>

definition parse_payload :: "serde \<Rightarrow> string \<Rightarrow> json list api_result" where
  "parse_payload S s = bindE (parse_json S s) (\<lambda>v. ok_or (Option.bind (jget v ''resources'') as_array) JsonError)"

definition envelope_of :: "serde \<Rightarrow> assignment_row \<Rightarrow> envelope api_result" where
  "envelope_of S a = bindE (parse_payload S (as_payload_json a)) (\<lambda>p.
     Inr \<lparr>en_assignment_id = as_id a, en_operation_id = as_operation_id a, en_kind = as_kind a,
          en_created_at = as_created_at a, en_expires_at = as_expires_at a, en_payload = p,
          en_key_id = [], en_signature = []\<rparr>)"

definition fetch_pending_assignments :: "call_env \<Rightarrow> string \<Rightarrow> envelope list tx" where
  "fetch_pending_assignments E agent_id d =
     bindE (lease_cutoff E) (\<lambda>cutoff.
       let mine = (\<lambda>a. as_agent_id a = agent_id \<and> claimable cutoff a);
           claimed = filter mine (db_assignments d);
           d1 = d\<lparr>db_assignments := update_where mine (claim_row (ce_now E)) (db_assignments d)\<rparr>
       in bindE (traverse (envelope_of (ce_serde E)) claimed) (\<lambda>out.
            Inr (fold (mark_running (ce_now E)) (remdups (map as_operation_id claimed)) d1,
                 sort_key en_created_at out)))"

text \<open>The sub-select of \<open>claim_ssh_pending\<close>: \<open>ORDER BY created_at LIMIT 1\<close>.\<close>

definition oldest :: "assignment_row list \<Rightarrow> assignment_row option" where
  "oldest rows = (case sort_key as_created_at rows of [] \<Rightarrow> None | a # _ \<Rightarrow> Some a)"

definition claim_ssh_pending :: "call_env \<Rightarrow> string list \<Rightarrow> (string \<times> string \<times> string) option tx" where
  "claim_ssh_pending E target_ids d =
     (if target_ids = [] then Inr (d, None)
      else bindE (lease_cutoff E) (\<lambda>cutoff.
        case oldest (filter (\<lambda>a. as_agent_id a \<in> set target_ids \<and> claimable cutoff a) (db_assignments d)) of
          None \<Rightarrow> Inr (d, None)
        | Some a \<Rightarrow>
            Inr (mark_running (ce_now E) (as_operation_id a)
                   (d\<lparr>db_assignments := update_where (\<lambda>x. as_id x = as_id a) (claim_row (ce_now E)) (db_assignments d)\<rparr>),
                 Some (as_id a, as_agent_id a, as_payload_json a))))"

definition revert_row :: "assignment_row \<Rightarrow> assignment_row" where
  "revert_row a = a\<lparr>as_status := APending, as_fetched_at := None\<rparr>"

definition revert_assignment_claims :: "call_env \<Rightarrow> string list \<Rightarrow> unit tx" where
  "revert_assignment_claims E ids d =
     (if ids = [] then Inr (d, ())
      else case ce_fault E RevertRows of Some e \<Rightarrow> Inl e | None \<Rightarrow>
        Inr (d\<lparr>db_assignments := fold (\<lambda>i. update_where (\<lambda>a. as_id a = i \<and> as_status a = AFetched) revert_row)
                    ids (db_assignments d)\<rparr>, ()))"

section \<open>Completion\<close>

datatype result_status = RSucceeded | RPartiallyApplied | RFailed

fun result_assignment_status :: "result_status \<Rightarrow> assignment_status" where
  "result_assignment_status RSucceeded = ASucceeded"
| "result_assignment_status RPartiallyApplied = APartiallyApplied"
| "result_assignment_status RFailed = AFailed"

record item_result =
  ir_resource_id :: string
  ir_status :: string
  ir_error :: "string option"

record result_request =
  rr_status :: result_status
  rr_summary :: "string option"
  rr_items :: "item_result list"

definition result_to_json :: "result_request \<Rightarrow> json" where
  "result_to_json r = JObj [(''status'', JStr (assignment_status_text (result_assignment_status (rr_status r)))),
     (''summary'', jopt (rr_summary r)),
     (''items'', JArr (map (\<lambda>i. JObj [(''resource_id'', JStr (ir_resource_id i)), (''status'', JStr (ir_status i)),
        (''error'', jopt (ir_error i))]) (rr_items r)))]"

definition roll_up_operation :: "string \<Rightarrow> string \<Rightarrow> db \<Rightarrow> db" where
  "roll_up_operation oper now d =
     (case rolled_up_status oper (db_assignments d) of
        None \<Rightarrow> d
      | Some st \<Rightarrow> d\<lparr>db_operations := update_where (\<lambda>w. op_id w = oper)
                      (\<lambda>w. w\<lparr>op_status := st, op_finished_at := Some now\<rparr>) (db_operations d)\<rparr>)"

definition complete_row :: "string \<Rightarrow> string \<Rightarrow> result_status \<Rightarrow> assignment_row \<Rightarrow> assignment_row" where
  "complete_row now result_json st a =
     a\<lparr>as_status := result_assignment_status st, as_completed_at := Some now, as_result_json := Some result_json\<rparr>"

definition complete_assignment_with_extra_audit ::
    "call_env \<Rightarrow> string \<Rightarrow> string \<Rightarrow> result_request \<Rightarrow> audit_record option \<Rightarrow> unit tx" where
  "complete_assignment_with_extra_audit E agent_id assignment_id result extra d =
     bindE (ok_or (find (\<lambda>a. as_id a = assignment_id \<and> as_agent_id a = agent_id
              \<and> as_status a \<in> {APending, AFetched}) (db_assignments d)) NotFound) (\<lambda>row.
       let oper = as_operation_id row;
           now = ce_now E;
           rows1 = update_where (\<lambda>a. as_id a = assignment_id)
                     (complete_row now (to_str (ce_serde E) (result_to_json result)) (rr_status result))
                     (db_assignments d);
           rows2 = advance_phased_apply oper now rows1;
           d1 = roll_up_operation oper now (d\<lparr>db_assignments := rows2\<rparr>);
           d2 = audited E (audit_payload (jobject [(''assignment_id'', JStr assignment_id),
                    (''status'', JStr (assignment_status_text (result_assignment_status (rr_status result)))),
                    (''item_count'', jnat (length (rr_items result))), (''summary'', jopt (rr_summary result))])
                  (audit_agent agent_id (audit_operation oper
                    (audit_severity (if rr_status result = RSucceeded then ''info'' else ''warning'')
                      (audit_new (''agent:'' @ agent_id) ''assignment.completed''))))) d1
       in Inr (case extra of None \<Rightarrow> d2 | Some rec \<Rightarrow> audited E rec d2, ()))"

definition complete_assignment :: "call_env \<Rightarrow> string \<Rightarrow> string \<Rightarrow> result_request \<Rightarrow> unit tx" where
  "complete_assignment E agent_id assignment_id result =
     complete_assignment_with_extra_audit E agent_id assignment_id result None"

section \<open>The invariant\<close>

definition live_status :: "operation_status \<Rightarrow> bool" where
  "live_status st \<longleftrightarrow> st \<noteq> OpPendingApproval \<and> st \<noteq> OpRejected"

definition status_agrees :: "assignment_row list \<Rightarrow> operation_row \<Rightarrow> bool" where
  "status_agrees rows w \<longleftrightarrow>
     (case rolled_up_status (op_id w) rows of
        None \<Rightarrow> op_status w \<in> {OpPending, OpRunning}
      | Some st \<Rightarrow> op_status w = st)"

definition rollout_ok :: "string set \<Rightarrow> assignment_row list \<Rightarrow> bool" where
  "rollout_ok K rows \<longleftrightarrow> (\<forall>oper \<in> K. contiguous (rows_of oper rows) \<longrightarrow>
     phase_safe (rows_of oper rows) \<and> progress (rows_of oper rows))"

definition rows_wf :: "assignment_row list \<Rightarrow> bool" where
  "rows_wf rows \<longleftrightarrow> distinct (map as_id rows)
     \<and> (\<forall>a \<in> set rows. as_status a = AFetched \<longrightarrow> as_fetched_at a \<noteq> None)"

text \<open>The pruning of old assignments can take rows away from an operation. What the rows of an operation
  say together is claimed of the operations in \<open>K\<close>, those that still have all their rows.\<close>

definition rollout_inv :: "string set \<Rightarrow> db \<Rightarrow> bool" where
  "rollout_inv K d \<longleftrightarrow>
     distinct (map op_id (db_operations d)) \<and> rows_wf (db_assignments d)
   \<and> (\<forall>a \<in> set (db_assignments d). \<exists>w \<in> set (db_operations d). op_id w = as_operation_id a \<and> live_status (op_status w))
   \<and> (\<forall>w \<in> set (db_operations d). op_id w \<in> K \<and> live_status (op_status w) \<longrightarrow> status_agrees (db_assignments d) w)
   \<and> rollout_ok K (db_assignments d)"

lemma rollout_inv_cong:
  "db_operations d' = db_operations d \<Longrightarrow> db_assignments d' = db_assignments d \<Longrightarrow> rollout_inv K d' = rollout_inv K d"
  by (simp add: rollout_inv_def)

lemma rolled_up_status_eq:
  "rolled_up_status oper rows =
     (let rs = set (rows_of oper rows)
      in if \<exists>a \<in> rs. unfinished a then None
         else if \<exists>a \<in> rs. as_status a \<in> {AFailed, APartiallyApplied, ACancelled}
              then (if \<exists>a \<in> rs. as_status a \<in> {ASucceeded, APartiallyApplied} then Some OpPartiallyApplied else Some OpFailed)
              else Some OpSucceeded)"
proof -
  have n: "count_rows (\<lambda>a. of_op oper a \<and> as_status a = s) rows > 0 \<longleftrightarrow> (\<exists>a \<in> set (rows_of oper rows). as_status a = s)" for s
    unfolding count_rows_pos rows_of_def by auto
  show ?thesis
    unfolding rolled_up_status_def Let_def add_gr_0 n
    by (simp add: unfinished_def bex_disj_distrib disj_ac cong: if_cong)
qed

lemma rolled_up_status_live: "rolled_up_status oper rows = Some st \<Longrightarrow> live_status st"
  by (auto simp: rolled_up_status_def live_status_def Let_def split: if_splits)

lemma rolled_up_rows_of: "rows_of oper rows = rows_of oper rows' \<Longrightarrow> rolled_up_status oper rows = rolled_up_status oper rows'"
  by (simp add: rolled_up_status_eq)

lemma of_op_own: "\<forall>a \<in> set (rows_of oper rows). of_op oper a"
  by (simp add: rows_of_def)

lemma rows_of_append: "rows_of oper (xs @ ys) = rows_of oper xs @ rows_of oper ys"
  by (simp add: rows_of_def)

section \<open>Claims keep the invariant\<close>

text \<open>A claim or its reversal moves rows between \<open>pending\<close> and \<open>fetched\<close> only.\<close>

definition claim_move :: "(assignment_row \<Rightarrow> assignment_row) \<Rightarrow> assignment_row list \<Rightarrow> bool" where
  "claim_move g rows \<longleftrightarrow> (\<forall>a \<in> set rows. row_ident (g a) = row_ident a
     \<and> (if active a then active (g a) else as_status (g a) = as_status a)
     \<and> (as_status (g a) = AFetched \<longrightarrow> as_fetched_at (g a) \<noteq> None))"

lemma row_ident_sel:
  "row_ident x = row_ident y \<Longrightarrow> as_id x = as_id y \<and> as_agent_id x = as_agent_id y
     \<and> as_operation_id x = as_operation_id y \<and> as_layer x = as_layer y \<and> as_batch x = as_batch y"
  by (simp add: row_ident_def)

lemma rows_of_map:
  assumes "\<And>a. a \<in> set rows \<Longrightarrow> row_ident (g a) = row_ident a"
  shows "rows_of oper (map g rows) = map g (rows_of oper rows)"
proof -
  have "\<And>a. a \<in> set rows \<Longrightarrow> of_op oper (g a) = of_op oper a"
    using assms row_ident_sel by (metis of_op_def)
  then show ?thesis by (induction rows) (auto simp: rows_of_def)
qed

lemma claim_move_status:
  assumes "claim_move g rows" "a \<in> set rows"
  shows "row_ident (g a) = row_ident a" "active (g a) = active a" "unfinished (g a) = unfinished a"
    "released (g a) = released a" "\<not> active a \<Longrightarrow> as_status (g a) = as_status a"
    "s \<notin> {APending, AFetched} \<Longrightarrow> as_status (g a) = s \<longleftrightarrow> as_status a = s"
  using assms by (auto simp: claim_move_def status_defs split: if_splits)

lemma claim_move_phase:
  assumes g: "claim_move g rows"
  shows "phase_safe rows \<Longrightarrow> phase_safe (map g rows)" and "progress rows \<Longrightarrow> progress (map g rows)"
    and "contiguous (map g rows) \<longleftrightarrow> contiguous rows"
proof -
  note st = claim_move_status [OF g]
  note fr = row_ident_sel [OF st(1)]
  show "contiguous (map g rows) \<longleftrightarrow> contiguous rows" by (rule contiguous_map) (use fr in blast)
  show "progress rows \<Longrightarrow> progress (map g rows)" using st(2,3) by (auto simp: progress_def)
  show "phase_safe (map g rows)" if safe: "phase_safe rows"
  proof (rule phase_safe_map [OF safe])
    fix a b assume ab: "a \<in> set rows" "b \<in> set rows"
    show "as_status (g b) = ASucceeded" if "released (g a)" "as_layer b < as_layer a"
      using gatedD [of rows a b] safe ab that st(4) [OF ab(1)] st(6) [OF ab(2)] by (simp add: phase_safe_def)
    show "as_status (g b) = ASucceeded" if "as_layer a = 0" "as_layer b = 0" "as_batch a = Some 1"
      "released (g a)" "as_batch b = Some 0"
      using safe ab that st(4) [OF ab(1)] st(6) [OF ab(2)] unfolding phase_safe_def canary_gated_def by simp
    show "as_status (g b) \<notin> {APendingLayer, APendingCanary}" if "as_status (g a) = ACancelled"
      using safe ab that st(6) [OF ab(1)] st(6) [OF ab(2)] unfolding phase_safe_def cancel_final_def by auto
  next
    fix a assume a: "a \<in> set rows"
    show "as_layer (g a) = as_layer a \<and> as_batch (g a) = as_batch a" using fr [OF a] by blast
    show "as_status (g a) = as_status a" if "as_status (g a) \<in> {APendingLayer, APendingCanary}"
      using that st(6) [OF a] by auto
  qed
qed

lemma claim_move_rows_of: "claim_move g rows \<Longrightarrow> claim_move g (rows_of oper rows)"
  by (simp add: claim_move_def rows_of_def)

lemma claim_move_rolled:
  assumes g: "claim_move g rows"
  shows "rolled_up_status oper (map g rows) = rolled_up_status oper rows"
proof -
  have m: "rows_of oper (map g rows) = map g (rows_of oper rows)"
    using claim_move_status(1) [OF g] by (rule rows_of_map)
  note st = claim_move_status [OF claim_move_rows_of [OF g, of oper]]
  have s: "(\<exists>a \<in> set (map g (rows_of oper rows)). as_status a \<in> A) \<longleftrightarrow> (\<exists>a \<in> set (rows_of oper rows). as_status a \<in> A)"
    if "A \<subseteq> - {APending, AFetched}" for A
    using st(6) that by fastforce
  have u: "(\<exists>a \<in> set (map g (rows_of oper rows)). unfinished a) \<longleftrightarrow> (\<exists>a \<in> set (rows_of oper rows). unfinished a)"
    using st(3) by auto
  show ?thesis
    unfolding rolled_up_status_eq m Let_def u by (subst s, simp)+ simp
qed

lemma claim_move_ok:
  assumes "claim_move g rows" and "rows_wf rows" and "rollout_ok K rows"
  shows "rows_wf (map g rows)" and "rollout_ok K (map g rows)"
proof -
  have "map as_id (map g rows) = map as_id rows"
    using claim_move_status(1) [OF assms(1)] by (auto dest: row_ident_sel)
  moreover have "\<forall>a \<in> set (map g rows). as_status a = AFetched \<longrightarrow> as_fetched_at a \<noteq> None"
    using assms(1) by (auto simp: claim_move_def)
  ultimately show "rows_wf (map g rows)" using assms(2) by (simp only: rows_wf_def)
  have m: "rows_of oper (map g rows) = map g (rows_of oper rows)" for oper
    using claim_move_status(1) [OF assms(1)] by (rule rows_of_map)
  show "rollout_ok K (map g rows)"
    unfolding rollout_ok_def m
    using assms(3) claim_move_phase [OF claim_move_rows_of [OF assms(1)]] by (simp add: rollout_ok_def)
qed

lemma rollout_inv_claim:
  assumes inv: "rollout_inv K d" and g: "claim_move g (db_assignments d)"
    and d': "db_assignments d' = map g (db_assignments d)" "db_operations d' = db_operations d"
  shows "rollout_inv K d'"
proof -
  have ag: "status_agrees (map g (db_assignments d)) w = status_agrees (db_assignments d) w" for w
    by (simp add: status_agrees_def claim_move_rolled [OF g])
  have ids: "as_operation_id (g a) = as_operation_id a" if "a \<in> set (db_assignments d)" for a
    using row_ident_sel [OF claim_move_status(1) [OF g that]] by blast
  show ?thesis
    using inv claim_move_ok [OF g, where K = K] unfolding rollout_inv_def d' by (simp add: ag ids)
qed

text \<open>Any update of an operation row that leaves its id alone and keeps its status in agreement.\<close>

lemma rollout_inv_ops:
  assumes inv: "rollout_inv K d"
    and d': "db_assignments d' = db_assignments d" "db_operations d' = update_where P f (db_operations d)"
    and f: "\<And>w. w \<in> set (db_operations d) \<Longrightarrow> P w \<Longrightarrow> op_id (f w) = op_id w
       \<and> (live_status (op_status w) \<longrightarrow> live_status (op_status (f w)))
       \<and> (op_id w \<in> K \<and> live_status (op_status (f w)) \<longrightarrow> status_agrees (db_assignments d) (f w))"
  shows "rollout_inv K d'"
proof -
  let ?h = "\<lambda>w. if P w then f w else w"
  have ids: "map op_id (db_operations d') = map op_id (db_operations d)"
    using f by (auto simp: d' update_where_def)
  have "\<exists>w \<in> set (db_operations d'). op_id w = as_operation_id a \<and> live_status (op_status w)"
    if a: "a \<in> set (db_assignments d)" for a
  proof -
    obtain w where w: "w \<in> set (db_operations d)" "op_id w = as_operation_id a" "live_status (op_status w)"
      using inv a unfolding rollout_inv_def by blast
    then have "?h w \<in> set (db_operations d')" by (simp add: d' set_update_where)
    moreover have "op_id (?h w) = as_operation_id a \<and> live_status (op_status (?h w))"
      using w f [OF w(1)] by auto
    ultimately show ?thesis by blast
  qed
  moreover have "status_agrees (db_assignments d) v" if v: "v \<in> set (db_operations d')" "op_id v \<in> K" "live_status (op_status v)" for v
  proof -
    obtain w where "w \<in> set (db_operations d)" "v = ?h w" using v(1) by (auto simp: d' set_update_where)
    with v(2,3) inv f show ?thesis by (auto simp: rollout_inv_def split: if_splits)
  qed
  ultimately show ?thesis using inv unfolding rollout_inv_def ids by (simp add: d'(1))
qed

lemma agrees_pending: "status_agrees rows w \<Longrightarrow> op_status w = OpPending \<Longrightarrow> rolled_up_status (op_id w) rows = None"
  by (auto simp: status_agrees_def rolled_up_status_eq Let_def split: option.splits if_splits)

lemma rollout_inv_mark_running:
  assumes "rollout_inv K d"
  shows "rollout_inv K (mark_running now oper d)"
proof (rule rollout_inv_ops [OF assms])
  fix w assume w: "w \<in> set (db_operations d)" "op_id w = oper \<and> op_status w = OpPending"
  then have "op_id w \<in> K \<longrightarrow> status_agrees (db_assignments d) w" using assms by (auto simp: rollout_inv_def live_status_def)
  then have "op_id w \<in> K \<longrightarrow> rolled_up_status oper (db_assignments d) = None"
    using agrees_pending [of "db_assignments d" w] w(2) by simp
  with w(2) show "op_id (w\<lparr>op_status := OpRunning, op_started_at := (case op_started_at w of None \<Rightarrow> Some now | Some t \<Rightarrow> Some t)\<rparr>) = op_id w
    \<and> (live_status (op_status w) \<longrightarrow> live_status (op_status (w\<lparr>op_status := OpRunning, op_started_at := (case op_started_at w of None \<Rightarrow> Some now | Some t \<Rightarrow> Some t)\<rparr>)))
    \<and> (op_id w \<in> K \<and> live_status (op_status (w\<lparr>op_status := OpRunning, op_started_at := (case op_started_at w of None \<Rightarrow> Some now | Some t \<Rightarrow> Some t)\<rparr>)) \<longrightarrow>
        status_agrees (db_assignments d) (w\<lparr>op_status := OpRunning, op_started_at := (case op_started_at w of None \<Rightarrow> Some now | Some t \<Rightarrow> Some t)\<rparr>))"
    by (simp add: live_status_def status_agrees_def)
qed (simp_all add: mark_running_def)

lemma rollout_inv_mark_all: "rollout_inv K d \<Longrightarrow> rollout_inv K (fold (mark_running now) opers d)"
  by (induction opers arbitrary: d) (auto intro: rollout_inv_mark_running)

lemma claim_row_frame [simp, row_simps]:
  "row_ident (claim_row now a) = row_ident a" "as_status (claim_row now a) = AFetched"
  "as_fetched_at (claim_row now a) = Some now" "row_ident (revert_row a) = row_ident a"
  "as_status (revert_row a) = APending" "as_id (revert_row a) = as_id a"
  "as_id (claim_row now a) = as_id a"
  by (simp_all add: claim_row_def revert_row_def row_ident_def)

lemma claimable_active: "claimable c a \<Longrightarrow> active a"
  by (auto simp: claimable_def active_def)

lemma claim_move_where:
  assumes "rows_wf rows" and "\<And>a. a \<in> set rows \<Longrightarrow> P a \<Longrightarrow> active a"
    and "f = claim_row now \<or> f = revert_row"
  shows "claim_move (\<lambda>a. if P a then f a else a) rows"
  using assms by (auto simp: claim_move_def rows_wf_def active_def)

lemma rollout_inv_update_claim:
  assumes "rollout_inv K d" and "\<And>a. a \<in> set (db_assignments d) \<Longrightarrow> P a \<Longrightarrow> active a"
    and "f = claim_row now \<or> f = revert_row"
  shows "rollout_inv K (d\<lparr>db_assignments := update_where P f (db_assignments d)\<rparr>)"
  by (rule rollout_inv_claim [OF assms(1) claim_move_where [where P = P and f = f]])
     (use assms in \<open>auto simp: rollout_inv_def update_where_def\<close>)

lemma fetch_inv:
  assumes "rollout_inv K d" and "fetch_pending_assignments E agent d = Inr (d', out)"
  shows "rollout_inv K d'"
proof -
  obtain cutoff where d': "d' = fold (mark_running (ce_now E))
      (remdups (map as_operation_id (filter (\<lambda>a. as_agent_id a = agent \<and> claimable cutoff a) (db_assignments d))))
      (d\<lparr>db_assignments := update_where (\<lambda>a. as_agent_id a = agent \<and> claimable cutoff a) (claim_row (ce_now E)) (db_assignments d)\<rparr>)"
    using assms(2) by (auto simp: fetch_pending_assignments_def bindE_Inr_iff Let_def)
  show ?thesis
    unfolding d' by (intro rollout_inv_mark_all rollout_inv_update_claim [OF assms(1)]) (auto dest: claimable_active)
qed

lemma oldest_in: "oldest rows = Some a \<Longrightarrow> a \<in> set rows"
  unfolding oldest_def by (metis list.case_eq_if list.set_sel(1) not_None_eq option.inject option.simps(3) set_sort)

lemma claim_ssh_inv:
  assumes inv: "rollout_inv K d" and "claim_ssh_pending E targets d = Inr (d', out)"
  shows "rollout_inv K d'"
proof -
  consider "d' = d" | cutoff a where
    "oldest (filter (\<lambda>a. as_agent_id a \<in> set targets \<and> claimable cutoff a) (db_assignments d)) = Some a"
    "d' = mark_running (ce_now E) (as_operation_id a)
       (d\<lparr>db_assignments := update_where (\<lambda>x. as_id x = as_id a) (claim_row (ce_now E)) (db_assignments d)\<rparr>)"
    using assms(2) by (auto simp: claim_ssh_pending_def bindE_Inr_iff split: if_splits option.splits)
  then show ?thesis
  proof cases
    case 2
    from oldest_in [OF 2(1)] have a: "a \<in> set (db_assignments d)" "active a" by (auto dest: claimable_active)
    have "distinct (map as_id (db_assignments d))" using inv by (simp add: rollout_inv_def rows_wf_def)
    then have "x \<in> set (db_assignments d) \<Longrightarrow> as_id x = as_id a \<Longrightarrow> active x" for x
      using assignments_t.key_unique [of d x a] a by blast
    with inv show ?thesis
      unfolding 2(2) by (intro rollout_inv_mark_running rollout_inv_update_claim) auto
  qed (use inv in simp)
qed

lemma revert_inv:
  assumes "rollout_inv K d" and "revert_assignment_claims E ids d = Inr (d', u)"
  shows "rollout_inv K d'"
proof -
  have "rollout_inv K (d\<lparr>db_assignments := fold (\<lambda>i. update_where (\<lambda>a. as_id a = i \<and> as_status a = AFetched) revert_row)
      is (db_assignments d)\<rparr>)" if "rollout_inv K d" for "is" d
    using that
  proof (induction "is" arbitrary: d)
    case (Cons i "is")
    have "rollout_inv K (d\<lparr>db_assignments := update_where (\<lambda>a. as_id a = i \<and> as_status a = AFetched) revert_row (db_assignments d)\<rparr>)"
      by (rule rollout_inv_update_claim [OF Cons.prems]) (auto simp: active_def)
    from Cons.IH [OF this] show ?case by simp
  qed simp
  with assms show ?thesis by (auto simp: revert_assignment_claims_def split: if_splits option.splits)
qed

end
