(* ===== verification/Drift.thy ===== *)
theory Drift
  imports Agents Core_Diff
begin

text \<open>
  Drift events of the control plane, the drift operations of \<open>store.rs\<close>: recording with
  de-duplication of open rows, the listing that hides ignored rows, accept and ignore (single and
  bulk), and the close of everything an agent no longer reports. \<open>parse_ts\<close> is the timestamp
  parser followed by the printer, which normalises the text an operator sends.
\<close>

section \<open>Recording\<close>

record drift_item =
  di_resource_id :: resource_id
  di_severity :: string
  di_detected_at :: string
  di_diff :: diff

abbreviation drift_open :: "drift_row \<Rightarrow> bool" where
  "drift_open r \<equiv> dr_resolved_at r = None"

definition drift_of :: "string \<Rightarrow> string \<Rightarrow> drift_row \<Rightarrow> bool" where
  "drift_of agent_id rid r \<longleftrightarrow> dr_agent_id r = agent_id \<and> dr_resource_id r = rid \<and> drift_open r"

text \<open>\<open>UNIQUE (agent_id, resource_id, detected_at)\<close>.\<close>

definition drift_key :: "drift_row \<Rightarrow> string \<times> string \<times> string" where
  "drift_key r = (dr_agent_id r, dr_resource_id r, dr_detected_at r)"

definition drift_unique :: "drift_row list \<Rightarrow> bool" where
  "drift_unique rows \<longleftrightarrow> distinct (map drift_key rows)"

definition refresh_row :: "call_env \<Rightarrow> drift_item \<Rightarrow> drift_row \<Rightarrow> drift_row" where
  "refresh_row E item r = r\<lparr>dr_kind := ri_kind (di_resource_id item), dr_severity := di_severity item,
     dr_diff_json := to_str (ce_serde E) (diff_to_json (di_diff item)), dr_detected_at := di_detected_at item,
     dr_received_at := ce_now E\<rparr>"

definition new_drift_row :: "call_env \<Rightarrow> string \<Rightarrow> int \<Rightarrow> drift_item \<Rightarrow> drift_row" where
  "new_drift_row E agent_id rowid item =
     \<lparr>dr_id = rowid, dr_agent_id = agent_id, dr_resource_id = resource_id_to_string (di_resource_id item),
      dr_kind = ri_kind (di_resource_id item), dr_severity = di_severity item,
      dr_diff_json = to_str (ce_serde E) (diff_to_json (di_diff item)), dr_detected_at = di_detected_at item,
      dr_received_at = ce_now E, dr_ignored_until = None, dr_resolved_at = None, dr_resolution = None\<rparr>"

definition record_drift_item :: "call_env \<Rightarrow> string \<Rightarrow> drift_item \<Rightarrow> db \<Rightarrow> db api_result" where
  "record_drift_item E agent_id item d =
     (let rid = resource_id_to_string (di_resource_id item);
          updated = update_where (drift_of agent_id rid) (refresh_row E item) (db_drift d);
          row = new_drift_row E agent_id (db_drift_seq d + 1) item
      in if rows_affected (drift_of agent_id rid) (db_drift d) \<noteq> 0
         then (if drift_unique updated then Inr (d\<lparr>db_drift := updated\<rparr>)
               else Inl (Sqlx ''UNIQUE constraint failed: drift_events''))
         else if agent_id \<notin> ag_id ` set (db_agents d) then Inl (Sqlx ''FOREIGN KEY constraint failed'')
         else if drift_unique (db_drift d @ [row])
              then Inr (d\<lparr>db_drift := db_drift d @ [row], db_drift_seq := db_drift_seq d + 1\<rparr>)
              else Inl (Sqlx ''UNIQUE constraint failed: drift_events''))"

fun record_drift_loop :: "call_env \<Rightarrow> string \<Rightarrow> drift_item list \<Rightarrow> nat \<Rightarrow> nat tx" where
  "record_drift_loop E agent_id [] n d = Inr (d, n)"
| "record_drift_loop E agent_id (item # items) n d =
     bindE (record_drift_item E agent_id item d) (record_drift_loop E agent_id items (n + 1))"

definition record_drift :: "call_env \<Rightarrow> string \<Rightarrow> drift_item list \<Rightarrow> nat tx" where
  "record_drift E agent_id items d = (if items = [] then Inr (d, 0) else record_drift_loop E agent_id items 0 d)"

definition close_row :: "string \<Rightarrow> drift_row \<Rightarrow> drift_row" where
  "close_row now r = r\<lparr>dr_resolved_at := Some now, dr_resolution := Some ''agent stopped reporting''\<rparr>"

definition close_drift_not_in :: "call_env \<Rightarrow> string \<Rightarrow> string list \<Rightarrow> nat tx" where
  "close_drift_not_in E agent_id current d =
     (let gone = (if current = [] then (\<lambda>r. dr_agent_id r = agent_id \<and> drift_open r)
                  else (\<lambda>r. dr_agent_id r = agent_id \<and> drift_open r \<and> dr_resource_id r \<notin> set current))
      in Inr (d\<lparr>db_drift := update_where gone (close_row (ce_now E)) (db_drift d)\<rparr>, rows_affected gone (db_drift d)))"

section \<open>Reading\<close>

record drift_summary =
  dv_id :: int
  dv_agent_id :: string
  dv_resource_id :: string
  dv_kind :: string
  dv_severity :: string
  dv_detected_at :: string
  dv_diff :: diff
  dv_ignored_until :: "string option"
  dv_resolved_at :: "string option"
  dv_resolution :: "string option"

definition row_to_drift_summary :: "serde \<Rightarrow> drift_row \<Rightarrow> drift_summary api_result" where
  "row_to_drift_summary S r =
     bindE (ok_or (Option.bind (from_str S (dr_diff_json r)) diff_of) JsonError) (\<lambda>x.
       Inr \<lparr>dv_id = dr_id r, dv_agent_id = dr_agent_id r, dv_resource_id = dr_resource_id r, dv_kind = dr_kind r,
            dv_severity = dr_severity r, dv_detected_at = dr_detected_at r, dv_diff = x,
            dv_ignored_until = dr_ignored_until r, dv_resolved_at = dr_resolved_at r, dv_resolution = dr_resolution r\<rparr>)"

definition drift_visible :: "string \<Rightarrow> string option \<Rightarrow> drift_row \<Rightarrow> bool" where
  "drift_visible now agent_id r \<longleftrightarrow> drift_open r
     \<and> (case dr_ignored_until r of None \<Rightarrow> True | Some t \<Rightarrow> t \<le> now)
     \<and> (case agent_id of None \<Rightarrow> True | Some a \<Rightarrow> dr_agent_id r = a)"

definition list_open_drift :: "call_env \<Rightarrow> string option \<Rightarrow> db \<Rightarrow> drift_summary list api_result" where
  "list_open_drift E agent_id d =
     traverse (row_to_drift_summary (ce_serde E))
       (rev (sort_key dr_detected_at (filter (drift_visible (ce_now E) agent_id) (db_drift d))))"

definition find_latest_resource_for_revert :: "string \<Rightarrow> db \<Rightarrow> (string \<times> string) option" where
  "find_latest_resource_for_revert rid d =
     (case rev (sort_key ds_id (filter (\<lambda>r. ds_resource_id r = rid) (db_desired d))) of
        [] \<Rightarrow> None
      | r # _ \<Rightarrow> Some (ds_environment r, ds_spec_json r))"

definition get_drift :: "call_env \<Rightarrow> int \<Rightarrow> db \<Rightarrow> drift_summary api_result" where
  "get_drift E drift_id d =
     bindE (ok_or (find (\<lambda>r. dr_id r = drift_id) (db_drift d)) NotFound) (row_to_drift_summary (ce_serde E))"

section \<open>Operator decisions\<close>

definition accept_row :: "string \<Rightarrow> string \<Rightarrow> drift_row \<Rightarrow> drift_row" where
  "accept_row now resolution r = r\<lparr>dr_resolved_at := Some now, dr_resolution := Some resolution, dr_ignored_until := None\<rparr>"

definition accept_drift :: "call_env \<Rightarrow> int \<Rightarrow> string \<Rightarrow> string \<Rightarrow> unit tx" where
  "accept_drift E drift_id actor reason d =
     (let P = (\<lambda>r. dr_id r = drift_id \<and> drift_open r)
      in if rows_affected P (db_drift d) = 0 then Inl NotFound
         else Inr (audited E (audit_payload (jobject [(''reason'', JStr reason)])
                     (audit_drift drift_id (audit_new actor ''drift.accepted'')))
                   (d\<lparr>db_drift := update_where P (accept_row (ce_now E) (''accepted: '' @ reason)) (db_drift d)\<rparr>), ()))"

record drift_bulk_filter =
  bf_agent_id :: "string option"
  bf_kind :: "string option"
  bf_severity :: "string option"

definition bulk_filter_is_empty :: "drift_bulk_filter \<Rightarrow> bool" where
  "bulk_filter_is_empty f \<longleftrightarrow> bf_agent_id f = None \<and> bf_kind f = None \<and> bf_severity f = None"

definition bulk_matches :: "drift_bulk_filter \<Rightarrow> drift_row \<Rightarrow> bool" where
  "bulk_matches f r \<longleftrightarrow> drift_open r
     \<and> (case bf_agent_id f of None \<Rightarrow> True | Some a \<Rightarrow> dr_agent_id r = a)
     \<and> (case bf_kind f of None \<Rightarrow> True | Some k \<Rightarrow> dr_kind r = k)
     \<and> (case bf_severity f of None \<Rightarrow> True | Some s \<Rightarrow> dr_severity r = s)"

definition bulk_filter_json :: "drift_bulk_filter \<Rightarrow> json" where
  "bulk_filter_json f = JObj [(''agent_id'', jopt (bf_agent_id f)), (''kind'', jopt (bf_kind f)), (''severity'', jopt (bf_severity f))]"

definition accept_drift_bulk :: "call_env \<Rightarrow> drift_bulk_filter \<Rightarrow> string \<Rightarrow> string \<Rightarrow> nat tx" where
  "accept_drift_bulk E f actor reason d =
     (let n = rows_affected (bulk_matches f) (db_drift d);
          d1 = d\<lparr>db_drift := update_where (bulk_matches f)
                  (accept_row (ce_now E) (''accepted (bulk): '' @ reason)) (db_drift d)\<rparr>
      in Inr (if 0 < n
              then audited E (audit_payload (jobject [(''reason'', JStr reason), (''matched'', jnat n), (''filter'', bulk_filter_json f)])
                     (audit_new actor ''drift.accepted_bulk'')) d1
              else d1, n))"

definition parse_until :: "(string \<Rightarrow> string option) \<Rightarrow> string \<Rightarrow> string api_result" where
  "parse_until parse_ts until = ok_or (parse_ts until) (BadRequest (Msg ''invalid `until`: {e}'' [until]))"

definition ignore_drift_bulk :: "call_env \<Rightarrow> (string \<Rightarrow> string option) \<Rightarrow> drift_bulk_filter \<Rightarrow> string \<Rightarrow> string \<Rightarrow> nat tx" where
  "ignore_drift_bulk E parse_ts f actor until d =
     bindE (parse_until parse_ts until) (\<lambda>ts.
       let n = rows_affected (bulk_matches f) (db_drift d);
           d1 = d\<lparr>db_drift := update_where (bulk_matches f) (\<lambda>r. r\<lparr>dr_ignored_until := Some ts\<rparr>) (db_drift d)\<rparr>
       in Inr (if 0 < n
               then audited E (audit_payload (jobject [(''until'', JStr until), (''matched'', jnat n), (''filter'', bulk_filter_json f)])
                      (audit_new actor ''drift.ignored_bulk'')) d1
               else d1, n))"

definition ignore_drift :: "call_env \<Rightarrow> (string \<Rightarrow> string option) \<Rightarrow> int \<Rightarrow> string \<Rightarrow> string \<Rightarrow> unit tx" where
  "ignore_drift E parse_ts drift_id actor until d =
     bindE (parse_until parse_ts until) (\<lambda>ts.
       let P = (\<lambda>r. dr_id r = drift_id \<and> drift_open r)
       in if rows_affected P (db_drift d) = 0 then Inl NotFound
          else Inr (audited E (audit_payload (jobject [(''until'', JStr ts)])
                      (audit_drift drift_id (audit_new actor ''drift.ignored'')))
                    (d\<lparr>db_drift := update_where P (\<lambda>r. r\<lparr>dr_ignored_until := Some ts\<rparr>) (db_drift d)\<rparr>), ()))"

section \<open>The JSON form of a diff\<close>

definition change_plain :: "field_change \<Rightarrow> bool" where
  "change_plain c \<longleftrightarrow> fc_from c \<noteq> Some JNull \<and> fc_to c \<noteq> Some JNull"

lemma field_change_roundtrip: "change_plain c \<Longrightarrow> field_change_of (field_change_to_json c) = Some c"
  by (cases c) (auto simp: change_plain_def field_change_of_def field_change_to_json_def jget_def as_str_def bool_or_def
      opt_value_def jvalue_def split: option.splits json.splits)

lemma those_map_Some: "(\<And>x. x \<in> set xs \<Longrightarrow> f x = Some (g x)) \<Longrightarrow> those (map f xs) = Some (map g xs)"
  by (induction xs) auto

lemma diff_kind_roundtrip: "diff_kind_of (JStr (diff_kind_text k)) = Some k"
  by (cases k) (simp_all add: diff_kind_of_def)

lemma diff_roundtrip:
  assumes "\<forall>c \<in> set (df_changes x). change_plain c"
  shows "diff_of (diff_to_json x) = Some x"
proof -
  have "those (map (field_change_of \<circ> field_change_to_json) (df_changes x)) = Some (map (\<lambda>c. c) (df_changes x))"
    using assms by (intro those_map_Some) (simp add: field_change_roundtrip)
  moreover have "those (map (as_str \<circ> JStr) (df_reasons x)) = Some (map (\<lambda>c. c) (df_reasons x))"
    by (intro those_map_Some) (simp add: as_str_def)
  ultimately show ?thesis
    by (simp add: diff_of_def diff_to_json_def jget_def diff_kind_roundtrip list_or_empty_def bool_or_def)
qed

section \<open>The invariant of the drift table\<close>

definition open_key :: "drift_row \<Rightarrow> string \<times> string" where
  "open_key r = (dr_agent_id r, dr_resource_id r)"

definition drift_inv :: "db \<Rightarrow> bool" where
  "drift_inv d \<longleftrightarrow> distinct (map dr_id (db_drift d)) \<and> (\<forall>r \<in> set (db_drift d). dr_id r \<le> db_drift_seq d)
     \<and> drift_unique (db_drift d) \<and> distinct (map open_key (filter drift_open (db_drift d)))"

lemma drift_inv_cong: "db_drift d' = db_drift d \<Longrightarrow> db_drift_seq d' = db_drift_seq d \<Longrightarrow> drift_inv d' = drift_inv d"
  by (simp add: drift_inv_def)

lemma distinct_filter_map:
  assumes "distinct (map k (filter Q xs))" and "\<And>x. k (g x) = k x" and "\<And>x. Q (g x) \<Longrightarrow> Q x"
  shows "distinct (map k (filter Q (map g xs)))"
proof -
  have s: "k ` {x \<in> g ` set ys. Q x} \<subseteq> k ` {x \<in> set ys. Q x}" for ys
    using assms(2,3) by force
  show ?thesis
    using assms(1)
  proof (induction xs)
    case (Cons x xs)
    show ?case
    proof (cases "Q (g x)")
      case True
      with Cons assms(2,3) s [of xs] show ?thesis by auto
    next
      case False
      with Cons show ?thesis by (auto split: if_splits)
    qed
  qed simp
qed

lemma open_key_unique:
  "distinct (map open_key (filter drift_open rows)) \<Longrightarrow> r \<in> set rows \<Longrightarrow> s \<in> set rows \<Longrightarrow> drift_of a rid r \<Longrightarrow> drift_of a rid s \<Longrightarrow> r = s"
  by (auto simp: distinct_map drift_of_def open_key_def inj_on_def)

text \<open>A decision keeps a row's identity and never opens a resolved row.\<close>

definition decides :: "(drift_row \<Rightarrow> drift_row) \<Rightarrow> bool" where
  "decides f \<longleftrightarrow> (\<forall>r. dr_id (f r) = dr_id r \<and> drift_key (f r) = drift_key r \<and> (drift_open (f r) \<longrightarrow> drift_open r))"

lemma drift_inv_decide:
  assumes "drift_inv d" and "decides f"
  shows "drift_inv (d\<lparr>db_drift := update_where P f (db_drift d)\<rparr>)"
proof -
  let ?g = "\<lambda>r. if P r then f r else r"
  have f: "dr_id (f r) = dr_id r" "drift_key (f r) = drift_key r" "drift_open (f r) \<Longrightarrow> drift_open r" for r
    using assms(2) by (auto simp: decides_def)
  then have g: "dr_id \<circ> ?g = dr_id" "drift_key \<circ> ?g = drift_key" by auto
  have k: "open_key (?g r) = open_key r" for r
    using f(2) [of r] by (auto simp: open_key_def drift_key_def)
  have "distinct (map open_key (filter drift_open (map ?g (db_drift d))))"
    using assms(1) by (intro distinct_filter_map k) (auto simp: drift_inv_def f(3) split: if_splits)
  moreover have "\<forall>r \<in> set (map ?g (db_drift d)). dr_id r \<le> db_drift_seq d"
    using assms(1) f(1) by (auto simp: drift_inv_def)
  moreover have "distinct (map dr_id (map ?g (db_drift d)))" "distinct (map drift_key (map ?g (db_drift d)))"
    using assms(1) by (simp_all add: g drift_inv_def drift_unique_def)
  ultimately show ?thesis by (simp add: drift_inv_def drift_unique_def update_where_def)
qed

lemma decides_rows [intro, simp]:
  "decides (accept_row now res)" "decides (close_row now)" "decides (\<lambda>r. r\<lparr>dr_ignored_until := t\<rparr>)"
  by (simp_all add: decides_def accept_row_def close_row_def drift_key_def)

lemma drift_inv_audited: "drift_inv d \<Longrightarrow> drift_inv (audited E rec d)"
  by (simp add: drift_inv_def)

lemma refresh_fields [simp]:
  "dr_id (refresh_row E i r) = dr_id r" "open_key (refresh_row E i r) = open_key r" "dr_resolved_at (refresh_row E i r) = dr_resolved_at r"
  "drift_of a rid (refresh_row E i r) = drift_of a rid r"
  by (simp_all add: refresh_row_def open_key_def drift_of_def)

lemma record_drift_item_cases [consumes 1]:
  assumes "record_drift_item E agent item d = Inr d'"
  obtains (refreshed) "d' = d\<lparr>db_drift := update_where (drift_of agent (resource_id_to_string (di_resource_id item))) (refresh_row E item) (db_drift d)\<rparr>"
      "drift_unique (db_drift d')" "\<exists>r \<in> set (db_drift d). drift_of agent (resource_id_to_string (di_resource_id item)) r"
  | (inserted) "d' = d\<lparr>db_drift := db_drift d @ [new_drift_row E agent (db_drift_seq d + 1) item], db_drift_seq := db_drift_seq d + 1\<rparr>"
      "drift_unique (db_drift d')" "\<forall>r \<in> set (db_drift d). \<not> drift_of agent (resource_id_to_string (di_resource_id item)) r"
  using assms by (auto simp: record_drift_item_def Let_def rows_affected_zero split: if_splits)

lemma record_drift_item_inv:
  assumes "drift_inv d" and "record_drift_item E agent item d = Inr d'"
  shows "drift_inv d'"
  using assms(2)
proof (cases rule: record_drift_item_cases)
  case refreshed
  let ?g = "\<lambda>r. if drift_of agent (resource_id_to_string (di_resource_id item)) r then refresh_row E item r else r"
  have i: "dr_id \<circ> ?g = dr_id" by auto
  have "distinct (map open_key (filter drift_open (map ?g (db_drift d))))"
    using assms(1) by (intro distinct_filter_map) (auto simp: drift_inv_def split: if_splits)
  then show ?thesis
    using assms(1) refreshed(1,2) by (auto simp: drift_inv_def update_where_def i)
next
  case inserted
  have k: "open_key (new_drift_row E agent n item) = (agent, resource_id_to_string (di_resource_id item))" "drift_open (new_drift_row E agent n item)"
    "dr_id (new_drift_row E agent n item) = n" for n
    by (simp_all add: open_key_def new_drift_row_def)
  have "(agent, resource_id_to_string (di_resource_id item)) \<notin> open_key ` set (filter drift_open (db_drift d))"
    using inserted(3) by (auto simp: drift_of_def open_key_def)
  then show ?thesis
    using assms(1) inserted(1,2) by (fastforce simp: drift_inv_def k)
qed

lemma record_drift_loop_inv: "drift_inv d \<Longrightarrow> record_drift_loop E agent items n d = Inr (d', m) \<Longrightarrow> drift_inv d'"
  by (induction items arbitrary: n d) (auto elim!: bindE_InrE dest: record_drift_item_inv)

datatype drift_call =
    RecordDrift call_env string "drift_item list"
  | CloseDriftNotIn call_env string "string list"
  | AcceptDrift call_env int string string
  | AcceptDriftBulk call_env drift_bulk_filter string string
  | IgnoreDrift call_env "string \<Rightarrow> string option" int string string
  | IgnoreDriftBulk call_env "string \<Rightarrow> string option" drift_bulk_filter string string

fun drift_step :: "drift_call \<Rightarrow> db \<Rightarrow> db" where
  "drift_step (RecordDrift E agent items) d = commit (record_drift E agent items) d"
| "drift_step (CloseDriftNotIn E agent current) d = commit (close_drift_not_in E agent current) d"
| "drift_step (AcceptDrift E i actor reason) d = commit (accept_drift E i actor reason) d"
| "drift_step (AcceptDriftBulk E f actor reason) d = commit (accept_drift_bulk E f actor reason) d"
| "drift_step (IgnoreDrift E p i actor until) d = commit (ignore_drift E p i actor until) d"
| "drift_step (IgnoreDriftBulk E p f actor until) d = commit (ignore_drift_bulk E p f actor until) d"

lemma drift_step_inv:
  assumes "drift_inv d"
  shows "drift_inv (drift_step c d)"
proof (cases c)
  case RecordDrift
  show ?thesis unfolding RecordDrift drift_step.simps
    by (rule commit_inv [where I = drift_inv, OF assms])
       (auto simp: record_drift_def assms split: if_splits intro: record_drift_loop_inv [OF assms])
next
  case CloseDriftNotIn
  show ?thesis unfolding CloseDriftNotIn drift_step.simps
    by (rule commit_inv [where I = drift_inv, OF assms]) (auto simp: close_drift_not_in_def Let_def intro: drift_inv_decide [OF assms])
next
  case AcceptDrift
  show ?thesis unfolding AcceptDrift drift_step.simps
    by (rule commit_inv [where I = drift_inv, OF assms])
       (auto simp: accept_drift_def Let_def split: if_splits intro!: drift_inv_audited drift_inv_decide [OF assms])
next
  case AcceptDriftBulk
  show ?thesis unfolding AcceptDriftBulk drift_step.simps
    by (rule commit_inv [where I = drift_inv, OF assms])
       (auto simp: accept_drift_bulk_def Let_def intro!: drift_inv_audited drift_inv_decide [OF assms])
next
  case IgnoreDrift
  show ?thesis unfolding IgnoreDrift drift_step.simps
    by (rule commit_inv [where I = drift_inv, OF assms])
       (auto simp: ignore_drift_def Let_def split: if_splits elim!: bindE_InrE intro!: drift_inv_audited drift_inv_decide [OF assms])
next
  case IgnoreDriftBulk
  show ?thesis unfolding IgnoreDriftBulk drift_step.simps
    by (rule commit_inv [where I = drift_inv, OF assms])
       (auto simp: ignore_drift_bulk_def Let_def elim!: bindE_InrE intro!: drift_inv_audited drift_inv_decide [OF assms])
qed

interpretation drifts: machine_invariant drift_step drift_inv
  by unfold_locales (rule drift_step_inv)

text \<open>
  The drift table stays free of duplicates. After any sequence of reports, closes, accepts and
  ignores on a fresh database, each agent and resource have at most one open row, row ids are unique,
  and no two rows report the same detection; operator decisions never reopen a row.
\<close>

theorem drift_single_open:
  assumes "d = fold drift_step calls (empty_db\<lparr>db_agents := agents\<rparr>)"
    and "r \<in> set (db_drift d)" "s \<in> set (db_drift d)" "r \<noteq> s"
  shows "dr_id r \<noteq> dr_id s \<and> drift_key r \<noteq> drift_key s
    \<and> (drift_open r \<and> drift_open s \<longrightarrow> dr_agent_id r \<noteq> dr_agent_id s \<or> dr_resource_id r \<noteq> dr_resource_id s)"
proof -
  have "drift_inv (empty_db\<lparr>db_agents := agents\<rparr>)" by (simp add: drift_inv_def drift_unique_def empty_db_def)
  then have inv: "drift_inv d" unfolding assms(1) by (rule drifts.inv_run)
  then have "distinct (map dr_id (db_drift d))" "distinct (map drift_key (db_drift d))"
    by (simp_all add: drift_inv_def drift_unique_def)
  then have "dr_id r \<noteq> dr_id s" "drift_key r \<noteq> drift_key s"
    using assms(2-) by (auto simp: distinct_map inj_on_def)
  moreover have "r = s" if "drift_open r" "drift_open s" "dr_agent_id r = dr_agent_id s" "dr_resource_id r = dr_resource_id s"
    using that inv assms(2,3) open_key_unique [of "db_drift d" r s "dr_agent_id r" "dr_resource_id r"]
    by (auto simp: drift_inv_def drift_of_def)
  ultimately show ?thesis using assms(4) by blast
qed

section \<open>What an agent's report means\<close>

text \<open>The abstract drift state of an agent: a map from its drifted resources to the report.\<close>

type_synonym drift_report = "string \<times> string \<times> string \<times> string"

definition report_of :: "call_env \<Rightarrow> drift_item \<Rightarrow> drift_report" where
  "report_of E i = (ri_kind (di_resource_id i), di_severity i, to_str (ce_serde E) (diff_to_json (di_diff i)), di_detected_at i)"

definition row_report :: "drift_row \<Rightarrow> drift_report" where
  "row_report r = (dr_kind r, dr_severity r, dr_diff_json r, dr_detected_at r)"

definition open_view :: "string \<Rightarrow> db \<Rightarrow> string \<rightharpoonup> drift_report" where
  "open_view agent d rid = map_option row_report (find (drift_of agent rid) (db_drift d))"

abbreviation item_rid :: "drift_item \<Rightarrow> string" where
  "item_rid i \<equiv> resource_id_to_string (di_resource_id i)"

lemma find_map_pred: "find Q (map g xs) = map_option g (find (\<lambda>x. Q (g x)) xs)"
  by (induction xs) auto

lemma find_SomeD: "find P xs = Some x \<Longrightarrow> P x"
  by (induction xs) (auto split: if_splits)

lemma find_cong_pred: "(\<And>x. x \<in> set xs \<Longrightarrow> P x = Q x) \<Longrightarrow> find P xs = find Q xs"
  by (induction xs) auto

lemma map_option_find_same:
  "(\<And>x. P x \<Longrightarrow> f x = g x) \<Longrightarrow> map_option f (find P xs) = map_option g (find P xs)"
  by (induction xs) auto

lemma open_view_item:
  assumes "record_drift_item E agent item d = Inr d'"
  shows "open_view a d' = (if a = agent then (open_view agent d)(item_rid item \<mapsto> report_of E item) else open_view a d)"
  using assms
proof (cases rule: record_drift_item_cases)
  case refreshed
  let ?P = "drift_of agent (item_rid item)"
  let ?g = "\<lambda>r. if ?P r then refresh_row E item r else r"
  have f: "find (drift_of a rid) (db_drift d') = map_option ?g (find (drift_of a rid) (db_drift d))" for a rid
    by (simp add: refreshed(1) update_where_def find_map_pred)
  obtain r where hit: "find ?P (db_drift d) = Some r" using refreshed(3) by (meson find_None_iff not_None_eq)
  have hit': "?P r" by (rule find_SomeD [OF hit])
  have rep: "row_report (refresh_row E item r) = report_of E item" for r
    by (simp add: row_report_def refresh_row_def report_of_def)
  have "open_view a d' rid = (if a = agent \<and> rid = item_rid item then Some (report_of E item) else open_view a d rid)" for rid
  proof (cases "a = agent \<and> rid = item_rid item")
    case True
    then show ?thesis using hit' by (simp add: open_view_def f hit rep)
  next
    case False
    then have "?g x = x" if "drift_of a rid x" for x using that by (auto simp: drift_of_def)
    with False show ?thesis by (auto simp: open_view_def f option.map_comp comp_def intro: map_option_find_same)
  qed
  then show ?thesis by auto
next
  case inserted
  let ?row = "new_drift_row E agent (db_drift_seq d + 1) item"
  have row: "drift_of a rid ?row \<longleftrightarrow> a = agent \<and> rid = item_rid item" "row_report ?row = report_of E item" for a rid
    by (auto simp: drift_of_def new_drift_row_def row_report_def report_of_def)
  have "find (drift_of agent (item_rid item)) (db_drift d) = None" using inserted(3) by (auto simp: find_None_iff)
  then show ?thesis
    by (auto simp: open_view_def inserted(1) find_append row fun_eq_iff split: option.splits)
qed

lemma open_view_loop:
  "record_drift_loop E agent items n d = Inr (d', m) \<Longrightarrow>
     m = n + length items
   \<and> open_view agent d' = open_view agent d ++ map_of (rev (map (\<lambda>i. (item_rid i, report_of E i)) items))
   \<and> (\<forall>a. a \<noteq> agent \<longrightarrow> open_view a d' = open_view a d)"
proof (induction items arbitrary: n d)
  case (Cons item items)
  then obtain d1 where 1: "record_drift_item E agent item d = Inr d1" and 2: "record_drift_loop E agent items (n + 1) d1 = Inr (d', m)"
    by (auto elim!: bindE_InrE)
  have v: "open_view agent d1 = (open_view agent d)(item_rid item \<mapsto> report_of E item)"
    "\<And>a. a \<noteq> agent \<Longrightarrow> open_view a d1 = open_view a d"
    by (simp_all only: open_view_item [OF 1] if_True if_False simp_thms)
  note IH = Cons.IH [OF 2, unfolded v(1)]
  have "open_view agent d' = (open_view agent d)(item_rid item \<mapsto> report_of E item) ++ map_of (rev (map (\<lambda>i. (item_rid i, report_of E i)) items))"
    using IH by (elim conjE)
  also have "\<dots> = open_view agent d ++ map_of (rev (map (\<lambda>i. (item_rid i, report_of E i)) (item # items)))"
    by simp
  finally show ?case using IH by (elim conjE, intro conjI) (simp_all add: v(2))
qed simp

lemma open_view_close:
  assumes "close_drift_not_in E agent current d = Inr (d', n)"
  shows "open_view a d' = (if a = agent then open_view agent d |` set current else open_view a d)"
proof -
  let ?gone = "\<lambda>r. dr_agent_id r = agent \<and> drift_open r \<and> dr_resource_id r \<notin> set current"
  let ?g = "\<lambda>r. if ?gone r then close_row (ce_now E) r else r"
  have d': "db_drift d' = map ?g (db_drift d)"
    using assms by (auto simp: close_drift_not_in_def Let_def update_where_def split: if_splits)
  have q: "drift_of a rid (?g r) \<longleftrightarrow> drift_of a rid r \<and> \<not> ?gone r" for rid r
    by (simp add: drift_of_def close_row_def)
  have "open_view a d' rid = (if a = agent \<and> rid \<notin> set current then None else open_view a d rid)" for rid
  proof (cases "a = agent \<and> rid \<notin> set current")
    case True
    then have "find (\<lambda>r. drift_of a rid (?g r)) (db_drift d) = None"
      unfolding q by (auto simp: find_None_iff drift_of_def)
    with True show ?thesis by (simp add: open_view_def d' find_map_pred)
  next
    case False
    have "find (\<lambda>r. drift_of a rid (?g r)) (db_drift d) = find (drift_of a rid) (db_drift d)"
      unfolding q using False by (intro find_cong_pred) (auto simp: drift_of_def)
    moreover have "?g x = x" if "drift_of a rid x" for x using that False by (auto simp: drift_of_def)
    ultimately show ?thesis using False
      by (auto simp: open_view_def d' find_map_pred option.map_comp comp_def intro: map_option_find_same)
  qed
  then show ?thesis by (auto simp: fun_eq_iff restrict_map_def)
qed

text \<open>
  C35. A drift push replaces the agent's drift state. Recording a batch and then closing what it does
  not mention leaves exactly the reported resources open for that agent, each with the last report the
  batch has for it, answers the number of items, and leaves every other agent's open drift as it was.
\<close>

theorem drift_push_refines:
  assumes "record_drift E agent items d = Inr (d1, n)"
    and "close_drift_not_in E' agent (map item_rid items) d1 = Inr (d2, m)"
  shows "n = length items
    \<and> open_view agent d2 = map_of (rev (map (\<lambda>i. (item_rid i, report_of E i)) items))
    \<and> (a \<noteq> agent \<longrightarrow> open_view a d2 = open_view a d)"
proof -
  let ?m = "map_of (rev (map (\<lambda>i. (item_rid i, report_of E i)) items))"
  have 1: "n = length items" "open_view agent d1 = open_view agent d ++ ?m" "a \<noteq> agent \<Longrightarrow> open_view a d1 = open_view a d"
    using assms(1) open_view_loop [of E agent items 0 d d1 n] by (auto simp: record_drift_def split: if_splits)
  have dom: "dom ?m = item_rid ` set items" by (simp add: dom_map_of_conv_image_fst image_image)
  have "(open_view agent d ++ ?m) |` (item_rid ` set items) = ?m"
  proof
    fix rid
    show "((open_view agent d ++ ?m) |` (item_rid ` set items)) rid = ?m rid"
    proof (cases "rid \<in> item_rid ` set items")
      case True
      then show ?thesis using dom by (simp add: map_add_dom_app_simps)
    next
      case False
      then have "rid \<notin> dom ?m" unfolding dom .
      then have "?m rid = None" unfolding domIff by (rule notnotD)
      with False show ?thesis by simp
    qed
  qed
  with 1 open_view_close [OF assms(2)] show ?thesis by simp
qed

section \<open>Instances\<close>

definition sample_item :: "string \<Rightarrow> string \<Rightarrow> drift_item" where
  "sample_item name at = \<lparr>di_resource_id = \<lparr>ri_kind = ''file'', ri_environment = ''prod'', ri_name = name\<rparr>,
     di_severity = ''warning'', di_detected_at = at, di_diff = no_change\<rparr>"

definition pushed :: "drift_item list \<Rightarrow> db \<Rightarrow> db" where
  "pushed items d = fold drift_step [RecordDrift agent_env ''a1'' items, CloseDriftNotIn agent_env ''a1'' (map item_rid items)] d"

lemmas drift_sample_simps = pushed_def commit_def record_drift_def record_drift_item_def close_drift_not_in_def accept_drift_def
  rows_affected_def drift_of_def update_where_def new_drift_row_def drift_unique_def drift_key_def accept_row_def sample_item_def
  sample_fleet_def sample_agent_def empty_db_def resource_id_to_string_def Let_def

text \<open>
  A report that repeats a detection the table already holds as resolved is refused by the unique
  constraint, and the whole batch with it: here an operator accepts an event and the agent, which
  has not observed the resource again, pushes the same detection.
\<close>

lemma accepted_detection_refused:
  "record_drift agent_env ''a1'' [sample_item ''x'' ''t1'', sample_item ''y'' ''t2'']
     (drift_step (AcceptDrift agent_env 1 ''al'' ''ok'') (pushed [sample_item ''x'' ''t1''] sample_fleet))
   = Inl (Sqlx ''UNIQUE constraint failed: drift_events'')"
  by (simp add: drift_sample_simps)

theorem drift_single_open_witness:
  "\<exists>r s. fold drift_step [RecordDrift agent_env ''a1'' [sample_item ''x'' ''t1'', sample_item ''y'' ''t1'']] (empty_db\<lparr>db_agents := [sample_agent]\<rparr>)
      = empty_db\<lparr>db_agents := [sample_agent], db_drift := [r, s], db_drift_seq := 2\<rparr> \<and> dr_id r \<noteq> dr_id s"
proof -
  let ?d = "fold drift_step [RecordDrift agent_env ''a1'' [sample_item ''x'' ''t1'', sample_item ''y'' ''t1'']] (empty_db\<lparr>db_agents := [sample_agent]\<rparr>)"
  define r where "r = new_drift_row agent_env ''a1'' 1 (sample_item ''x'' ''t1'')"
  define s where "s = new_drift_row agent_env ''a1'' 2 (sample_item ''y'' ''t1'')"
  have d: "?d = empty_db\<lparr>db_agents := [sample_agent], db_drift := [r, s], db_drift_seq := 2\<rparr>"
    by (simp add: drift_sample_simps r_def s_def)
  have ne: "r \<noteq> s" by (simp add: r_def s_def new_drift_row_def sample_item_def resource_id_to_string_def)
  have m: "r \<in> set (db_drift ?d)" "s \<in> set (db_drift ?d)" by (simp_all only: d) simp_all
  show ?thesis using d drift_single_open [OF refl m ne] by blast
qed

theorem drift_push_refines_witness:
  "open_view ''a1'' (pushed [sample_item ''y'' ''t3''] (pushed [sample_item ''x'' ''t1''] sample_fleet))
     = [''file/prod/y'' \<mapsto> report_of agent_env (sample_item ''y'' ''t3'')]"
proof -
  let ?items = "[sample_item ''y'' ''t3'']" and ?d = "pushed [sample_item ''x'' ''t1''] sample_fleet"
  have "\<not> isl (record_drift agent_env ''a1'' ?items ?d)" by (simp add: drift_sample_simps close_row_def)
  then obtain d1 n where 1: "record_drift agent_env ''a1'' ?items ?d = Inr (d1, n)"
    by (cases "record_drift agent_env ''a1'' ?items ?d") auto
  obtain d2 m where 2: "close_drift_not_in agent_env ''a1'' (map item_rid ?items) d1 = Inr (d2, m)"
    by (simp add: close_drift_not_in_def Let_def)
  have p: "pushed ?items ?d = d2" unfolding pushed_def [of ?items ?d] by (simp only: fold_simps drift_step.simps commit_def 1 2 sum.case prod.case comp_apply id_apply)
  show ?thesis unfolding p using drift_push_refines [OF 1 2] by (simp add: sample_item_def resource_id_to_string_def)
qed

end
