(* ===== verification/Retention.thy ===== *)
theory Retention
  imports Agents Users Operations Drift Actions
begin

text \<open>
  The periodic pruning of the database (\<open>retention.rs\<close>). A pass deletes old audit rows and
  observations, caps observations and desired states per resource, and deletes old resolved drift
  rows, finished assignments and expired tokens. Every statement commits on its own, so a pass whose third
  statement fails has done what the first two did. The caps are enforced in chunks of five thousand
  rows; the statement leaves open which candidates a chunk takes, and here they are the first in the order
  of the table. Writers that come between two statements of a pass are not modelled, and the clock is read
  once per pass.
\<close>

section \<open>Configuration\<close>

record retention_config =
  re_audit_days :: nat
  re_observation_days :: nat
  re_observation_max_per_resource :: nat
  re_drift_resolved_days :: nat
  re_assignment_terminal_days :: nat
  re_desired_state_max_per_resource :: nat

definition default_retention :: retention_config where
  "default_retention = \<lparr>re_audit_days = 90, re_observation_days = 30, re_observation_max_per_resource = 10,
     re_drift_resolved_days = 30, re_assignment_terminal_days = 30, re_desired_state_max_per_resource = 10\<rparr>"

record prune_stats =
  ps_audit :: nat
  ps_observations :: nat
  ps_drift_resolved :: nat
  ps_assignments_terminal :: nat
  ps_user_tokens_expired :: nat
  ps_observations_per_resource :: nat
  ps_desired_states_per_resource :: nat

text \<open>A span of hours has a largest value, \<open>span_seconds_max\<close> in seconds; beyond it, and when the
  difference is before the first instant of the clock library, the code falls back to the current time.\<close>

definition cutoff_string :: "call_env \<Rightarrow> nat \<Rightarrow> string" where
  "cutoff_string E days =
     (let secs = int days * 24 * 3600
      in if span_seconds_max < secs then ce_now E
         else (case ce_after E (- secs) of Some t \<Rightarrow> t | None \<Rightarrow> ce_now E))"

section \<open>Deleting\<close>

definition delete_where :: "('r \<Rightarrow> bool) \<Rightarrow> 'r list \<Rightarrow> 'r list \<times> nat" where
  "delete_where P rows = (filter (\<lambda>r. \<not> P r) rows, length (filter P rows))"

text \<open>\<open>ROW_NUMBER() OVER (PARTITION BY key ORDER BY ord DESC) > cap\<close>.\<close>

definition beyond_cap :: "('r \<Rightarrow> 'k) \<Rightarrow> ('r \<Rightarrow> 'o::linorder) \<Rightarrow> nat \<Rightarrow> 'r list \<Rightarrow> 'r \<Rightarrow> bool" where
  "beyond_cap key ord cap rows r \<longleftrightarrow> cap < 1 + length (filter (\<lambda>x. key x = key r \<and> ord r < ord x) rows)"

definition chunk_size :: nat where
  "chunk_size = 5000"

text \<open>One chunk: delete the first candidates by their ids.\<close>

definition cap_victims :: "('r \<Rightarrow> 'k) \<Rightarrow> ('r \<Rightarrow> 'o::linorder) \<Rightarrow> nat \<Rightarrow> nat \<Rightarrow> 'r list \<Rightarrow> 'r list" where
  "cap_victims key ord cap chunk rows = take chunk (filter (beyond_cap key ord cap rows) rows)"

function cap_loop :: "('r \<Rightarrow> int) \<Rightarrow> ('r \<Rightarrow> 'k) \<Rightarrow> ('r \<Rightarrow> 'o::linorder) \<Rightarrow> nat \<Rightarrow> nat \<Rightarrow> 'r list \<Rightarrow> nat \<Rightarrow> 'r list \<times> nat" where
  "cap_loop rid key ord cap chunk rows acc =
     (let victims = cap_victims key ord cap chunk rows;
          rest = filter (\<lambda>r. rid r \<notin> rid ` set victims) rows;
          n = length rows - length rest
      in if n < chunk \<or> chunk = 0 then (rest, acc + n) else cap_loop rid key ord cap chunk rest (acc + n))"
  by pat_completeness auto
termination
  by (relation "measure (\<lambda>(rid, key, ord, cap, chunk, rows, acc). length rows)") (auto simp: Let_def)

declare cap_loop.simps [simp del]

definition prune_observations_per_resource :: "nat \<Rightarrow> observation_row list \<Rightarrow> observation_row list \<times> nat" where
  "prune_observations_per_resource cap rows =
     cap_loop ob_id (\<lambda>r. (ob_agent_id r, ob_resource_id r)) (\<lambda>r. (ob_observed_at r, ob_id r)) cap chunk_size rows 0"

definition prune_desired_states_per_resource :: "nat \<Rightarrow> desired_row list \<Rightarrow> desired_row list \<times> nat" where
  "prune_desired_states_per_resource cap rows = cap_loop ds_id ds_resource_id ds_id cap chunk_size rows 0"

definition terminal_row :: "string \<Rightarrow> assignment_row \<Rightarrow> bool" where
  "terminal_row cutoff a \<longleftrightarrow> as_status a \<in> {ASucceeded, AFailed, APartiallyApplied}
     \<and> (case as_completed_at a of None \<Rightarrow> False | Some t \<Rightarrow> t < cutoff)"

definition resolved_row :: "string \<Rightarrow> drift_row \<Rightarrow> bool" where
  "resolved_row cutoff r \<longleftrightarrow> (case dr_resolved_at r of None \<Rightarrow> False | Some t \<Rightarrow> t < cutoff)"

text \<open>The statements of a pass on the database: a \<open>DELETE\<close>, and a loop of them whose chunks can fail one by
  one. A chunk that fails ends the loop with the deletions so far.\<close>

definition deleting :: "call_env \<Rightarrow> store_statement \<Rightarrow> (db \<Rightarrow> 'r list) \<Rightarrow> ('r list \<Rightarrow> db \<Rightarrow> db) \<Rightarrow> ('r \<Rightarrow> bool) \<Rightarrow> (db, api_error, nat) act" where
  "deleting E st get put P d =
     (case ce_fault E st of
        Some e \<Rightarrow> (Inl e, d)
      | None \<Rightarrow> (case delete_where P (get d) of (rows, n) \<Rightarrow> (Inr n, put rows d)))"

function cap_run :: "(nat \<Rightarrow> api_error option) \<Rightarrow> ('r \<Rightarrow> int) \<Rightarrow> ('r \<Rightarrow> 'k) \<Rightarrow> ('r \<Rightarrow> 'o::linorder) \<Rightarrow> nat \<Rightarrow> nat \<Rightarrow> nat \<Rightarrow> 'r list \<Rightarrow> nat
    \<Rightarrow> nat api_result \<times> 'r list" where
  "cap_run faults rid key ord cap chunk i rows acc =
     (case faults i of
        Some e \<Rightarrow> (Inl e, rows)
      | None \<Rightarrow>
          let victims = cap_victims key ord cap chunk rows;
              rest = filter (\<lambda>r. rid r \<notin> rid ` set victims) rows;
              n = length rows - length rest
          in if n < chunk \<or> chunk = 0 then (Inr (acc + n), rest) else cap_run faults rid key ord cap chunk (i + 1) rest (acc + n))"
  by pat_completeness auto
termination
  by (relation "measure (\<lambda>(faults, rid, key, ord, cap, chunk, i, rows, acc). length rows)") (auto simp: Let_def)

declare cap_run.simps [simp del]

definition capping :: "(db \<Rightarrow> 'r list) \<Rightarrow> ('r list \<Rightarrow> db \<Rightarrow> db) \<Rightarrow> ('r list \<Rightarrow> nat api_result \<times> 'r list) \<Rightarrow> (db, api_error, nat) act" where
  "capping get put run d = (case run (get d) of (r, rows) \<Rightarrow> (r, put rows d))"

definition cap_observations :: "call_env \<Rightarrow> nat \<Rightarrow> (db, api_error, nat) act" where
  "cap_observations E cap = capping db_observations (\<lambda>rows d. d\<lparr>db_observations := rows\<rparr>)
     (\<lambda>rows. cap_run (\<lambda>i. ce_fault E (CapObservations i)) ob_id (\<lambda>r. (ob_agent_id r, ob_resource_id r)) (\<lambda>r. (ob_observed_at r, ob_id r)) cap chunk_size 0 rows 0)"

definition cap_desired_states :: "call_env \<Rightarrow> nat \<Rightarrow> (db, api_error, nat) act" where
  "cap_desired_states E cap = capping db_desired (\<lambda>rows d. d\<lparr>db_desired := rows\<rparr>)
     (\<lambda>rows. cap_run (\<lambda>i. ce_fault E (CapDesired i)) ds_id ds_resource_id ds_id cap chunk_size 0 rows 0)"

definition expiring_tokens :: "call_env \<Rightarrow> (db, api_error, nat) act" where
  "expiring_tokens E d =
     (case ce_fault E DeleteTokens of
        Some e \<Rightarrow> (Inl e, d)
      | None \<Rightarrow> (case prune_expired_tokens E d of Inl e \<Rightarrow> (Inl e, d) | Inr (d', n) \<Rightarrow> (Inr n, d')))"

definition unless_zero :: "nat \<Rightarrow> (db, api_error, nat) act \<Rightarrow> (db, api_error, nat) act" where
  "unless_zero n m = (if 0 < n then m else doing 0)"

definition prune_once :: "call_env \<Rightarrow> retention_config \<Rightarrow> (db, api_error, prune_stats) act" where
  "prune_once E cfg =
     bindA (unless_zero (re_audit_days cfg) (deleting E DeleteAudit (\<lambda>d. al_events (db_audit d))
       (\<lambda>rows d. d\<lparr>db_audit := (db_audit d)\<lparr>al_events := rows\<rparr>\<rparr>) (\<lambda>r. ai_timestamp r < cutoff_string E (re_audit_days cfg)))) (\<lambda>n1.
     bindA (unless_zero (re_observation_days cfg) (deleting E DeleteObservations db_observations
       (\<lambda>rows d. d\<lparr>db_observations := rows\<rparr>) (\<lambda>r. ob_received_at r < cutoff_string E (re_observation_days cfg)))) (\<lambda>n2.
     bindA (unless_zero (re_observation_max_per_resource cfg) (cap_observations E (re_observation_max_per_resource cfg))) (\<lambda>n3.
     bindA (unless_zero (re_desired_state_max_per_resource cfg) (cap_desired_states E (re_desired_state_max_per_resource cfg))) (\<lambda>n4.
     bindA (unless_zero (re_drift_resolved_days cfg) (deleting E DeleteDrift db_drift
       (\<lambda>rows d. d\<lparr>db_drift := rows\<rparr>) (resolved_row (cutoff_string E (re_drift_resolved_days cfg))))) (\<lambda>n5.
     bindA (unless_zero (re_assignment_terminal_days cfg) (deleting E DeleteAssignments db_assignments
       (\<lambda>rows d. d\<lparr>db_assignments := rows\<rparr>) (terminal_row (cutoff_string E (re_assignment_terminal_days cfg))))) (\<lambda>n6.
     bindA (expiring_tokens E) (\<lambda>n7.
       doing \<lparr>ps_audit = n1, ps_observations = n2, ps_drift_resolved = n5, ps_assignments_terminal = n6,
              ps_user_tokens_expired = n7, ps_observations_per_resource = n3, ps_desired_states_per_resource = n4\<rparr>)))))))"

section \<open>The chunked cap\<close>

lemma length_filter_mono: "(\<And>y. y \<in> set ys \<Longrightarrow> P y \<Longrightarrow> Q y) \<Longrightarrow> length (filter P ys) \<le> length (filter Q ys)"
  by (induction ys) auto

text \<open>Removing rows beyond the cap changes the rank of no other row across the cap: the newest of the
  removed rows has enough newer rows, and none of them is removed.\<close>

lemma beyond_cap_stable:
  assumes "\<forall>v \<in> set rows. gone v \<longrightarrow> beyond_cap key ord cap rows v"
  shows "beyond_cap key ord cap (filter (\<lambda>r. \<not> gone r) rows) x \<longleftrightarrow> beyond_cap key ord cap rows x"
proof
  let ?newer = "\<lambda>r y. key y = key r \<and> ord r < ord y"
  let ?kept = "filter (\<lambda>r. \<not> gone r) rows"
  have "length (filter (?newer x) ?kept) \<le> length (filter (?newer x) rows)"
    unfolding filter_filter by (rule length_filter_mono) simp
  then show "beyond_cap key ord cap ?kept x \<Longrightarrow> beyond_cap key ord cap rows x" by (simp add: beyond_cap_def)
  assume b: "beyond_cap key ord cap rows x"
  show "beyond_cap key ord cap ?kept x"
  proof (cases "\<exists>v \<in> set rows. gone v \<and> ?newer x v")
    case False
    then have "filter (?newer x) ?kept = filter (?newer x) rows" unfolding filter_filter by (intro filter_cong) auto
    with b show ?thesis by (simp add: beyond_cap_def)
  next
    case True
    let ?V = "{v \<in> set rows. gone v \<and> ?newer x v}"
    have "finite (ord ` ?V)" "ord ` ?V \<noteq> {}" using True by auto
    from Max_in [OF this] obtain v where v: "v \<in> ?V" "ord v = Max (ord ` ?V)" by auto
    have top: "ord w \<le> ord v" if "w \<in> ?V" for w unfolding v(2) using that by (intro Max_ge) auto
    have "filter (?newer v) rows = filter (?newer v) ?kept"
      unfolding filter_filter using v(1) top by (intro filter_cong) (auto dest: leD order.strict_trans)
    moreover have "length (filter (?newer v) ?kept) \<le> length (filter (?newer x) ?kept)"
      using v(1) by (intro length_filter_mono) (auto dest: order.strict_trans)
    ultimately show ?thesis using assms v(1) by (force simp: beyond_cap_def)
  qed
qed

lemma victims_gone:
  assumes "distinct (map rid rows)" "v \<in> set rows"
  shows "rid v \<in> rid ` set (cap_victims key ord cap chunk rows) \<longleftrightarrow> v \<in> set (cap_victims key ord cap chunk rows)"
proof
  assume "rid v \<in> rid ` set (cap_victims key ord cap chunk rows)"
  then obtain w where w: "w \<in> set (cap_victims key ord cap chunk rows)" "rid w = rid v" by auto
  then have "w \<in> set rows" by (auto simp: cap_victims_def dest: in_set_takeD)
  with w assms have "w = v" by (metis distinct_map inj_onD)
  with w show "v \<in> set (cap_victims key ord cap chunk rows)" by simp
qed auto

lemma victims_beyond: "v \<in> set (cap_victims key ord cap chunk rows) \<Longrightarrow> beyond_cap key ord cap rows v"
  by (auto simp: cap_victims_def dest: in_set_takeD)

lemma victims_count:
  assumes "distinct (map rid rows)"
  shows "length rows - length (filter (\<lambda>r. rid r \<notin> rid ` set (cap_victims key ord cap chunk rows)) rows) = length (cap_victims key ord cap chunk rows)"
proof -
  let ?vs = "cap_victims key ord cap chunk rows"
  have d: "distinct rows" using assms by (simp add: distinct_map)
  then have dv: "distinct ?vs" by (simp add: cap_victims_def)
  have "filter (\<lambda>r. rid r \<in> rid ` set ?vs) rows = filter (\<lambda>r. r \<in> set ?vs) rows"
    by (intro filter_cong refl) (rule victims_gone [OF assms])
  moreover have "set (filter (\<lambda>r. r \<in> set ?vs) rows) = set ?vs" by (auto simp: cap_victims_def dest: in_set_takeD)
  ultimately have "length (filter (\<lambda>r. rid r \<in> rid ` set ?vs) rows) = length ?vs"
    using d dv by (metis distinct_card distinct_filter)
  with sum_length_filter_compl [of "\<lambda>r. rid r \<in> rid ` set ?vs" rows] show ?thesis by simp
qed

lemma cap_loop_exact:
  assumes "distinct (map rid rows)" "0 < chunk"
  shows "cap_loop rid key ord cap chunk rows acc =
    (filter (\<lambda>r. \<not> beyond_cap key ord cap rows r) rows, acc + length (filter (beyond_cap key ord cap rows) rows))"
  using assms
proof (induction rid key ord cap chunk rows acc rule: cap_loop.induct)
  case (1 rid key ord cap chunk rows acc)
  let ?B = "beyond_cap key ord cap rows"
  let ?vs = "cap_victims key ord cap chunk rows"
  let ?gone = "\<lambda>r. rid r \<in> rid ` set ?vs"
  let ?rest = "filter (\<lambda>r. \<not> ?gone r) rows"
  note count = victims_count [OF 1(2), of key ord cap chunk]
  have own: "?gone v \<longleftrightarrow> v \<in> set ?vs" if "v \<in> set rows" for v by (rule victims_gone [OF 1(2) that])
  have gone: "\<forall>v \<in> set rows. ?gone v \<longrightarrow> ?B v"
    unfolding Ball_def using own victims_beyond [of _ key ord cap chunk rows] by metis
  show ?case
  proof (cases "length ?vs < chunk")
    case True
    then have vs: "?vs = filter ?B rows" by (simp add: cap_victims_def)
    have "filter (\<lambda>r. \<not> ?gone r) rows = filter (\<lambda>r. \<not> ?B r) rows"
    proof (rule filter_cong [OF refl])
      fix r assume r: "r \<in> set rows"
      show "(\<not> ?gone r) = (\<not> ?B r)" unfolding own [OF r] unfolding vs using r by simp
    qed
    with True count vs show ?thesis by (subst cap_loop.simps) (simp add: Let_def)
  next
    case False
    have B: "beyond_cap key ord cap ?rest x = ?B x" for x by (rule beyond_cap_stable [OF gone])
    have "distinct (map rid ?rest)" using 1(2) by (rule distinct_map_filter)
    from 1(1) [OF refl refl refl _ this 1(3)] count False 1(3)
    have "cap_loop rid key ord cap chunk rows acc =
        (filter (\<lambda>r. \<not> ?B r) ?rest, acc + length ?vs + length (filter ?B ?rest))"
      by (subst cap_loop.simps) (simp add: Let_def B)
    moreover have same: "filter (\<lambda>r. \<not> ?B r) ?rest = filter (\<lambda>r. \<not> ?B r) rows"
      unfolding filter_filter using gone by (intro filter_cong) auto
    moreover have "length ?vs + length (filter ?B ?rest) = length (filter ?B rows)"
      using count arg_cong [OF same, of length] sum_length_filter_compl [of ?B ?rest] sum_length_filter_compl [of ?B rows] length_filter_le [of "\<lambda>r. \<not> ?gone r" rows]
      by linarith
    ultimately show ?thesis by simp
  qed
qed

lemma cap_bounds:
  assumes "distinct (map ord rows)"
  shows "length (filter (\<lambda>r. key r = k) (filter (\<lambda>r. \<not> beyond_cap key ord cap rows r) rows)) \<le> cap"
proof (cases "filter (\<lambda>r. key r = k) (filter (\<lambda>r. \<not> beyond_cap key ord cap rows r) rows) = []")
  case False
  let ?kept = "filter (\<lambda>r. key r = k) (filter (\<lambda>r. \<not> beyond_cap key ord cap rows r) rows)"
  have "ord ` set ?kept \<noteq> {}" using False unfolding image_is_empty set_empty .
  with finite_imageI [OF finite_set] have "finite (ord ` set ?kept)" "ord ` set ?kept \<noteq> {}" .
  from Min_in [OF this] obtain x where x: "x \<in> set ?kept" "ord x = Min (ord ` set ?kept)" by auto
  have inj: "inj_on ord (set rows)" and d: "distinct rows" using assms by (auto simp: distinct_map)
  have above: "ord x < ord y" if "y \<in> set ?kept" "y \<noteq> x" for y
  proof -
    have "ord x \<le> ord y" unfolding x(2) using that by (intro Min_le) auto
    moreover have "ord x \<noteq> ord y" using that x(1) inj by (auto dest: inj_onD)
    ultimately show ?thesis by simp
  qed
  have "set ?kept - {x} \<subseteq> set (filter (\<lambda>y. key y = key x \<and> ord x < ord y) rows)"
    using above x(1) by auto
  then have "card (set ?kept - {x}) \<le> card (set (filter (\<lambda>y. key y = key x \<and> ord x < ord y) rows))" by (intro card_mono) auto
  then have "length ?kept - 1 \<le> length (filter (\<lambda>y. key y = key x \<and> ord x < ord y) rows)"
    using d x(1) by (simp add: distinct_card [symmetric] card_Diff_singleton del: filter_filter)
  moreover have "\<not> beyond_cap key ord cap rows x" using x(1) by simp
  ultimately show ?thesis by (simp add: beyond_cap_def)
qed simp

text \<open>
  C39. The per-resource caps are exact. Deleting in chunks until a chunk is not full leaves, in their
  order, exactly the rows that are among the newest \<open>cap\<close> of their resource and agent (observations) or
  of their resource (desired states), never more than \<open>cap\<close> of each, and reports how many it deleted.
\<close>

theorem retention_caps_exact:
  assumes "distinct (map ob_id obs)" "distinct (map ds_id desired)"
    and "prune_observations_per_resource cap obs = (obs', n)" "prune_desired_states_per_resource cap desired = (desired', m)"
  shows "obs' = filter (\<lambda>r. length (filter (\<lambda>x. ob_agent_id x = ob_agent_id r \<and> ob_resource_id x = ob_resource_id r
            \<and> (ob_observed_at r, ob_id r) < (ob_observed_at x, ob_id x)) obs) < cap) obs
    \<and> n = length obs - length obs'
    \<and> length (filter (\<lambda>r. ob_agent_id r = agent \<and> ob_resource_id r = resource) obs') \<le> cap
    \<and> desired' = filter (\<lambda>r. length (filter (\<lambda>x. ds_resource_id x = ds_resource_id r \<and> ds_id r < ds_id x) desired) < cap) desired
    \<and> m = length desired - length desired'
    \<and> length (filter (\<lambda>r. ds_resource_id r = resource) desired') \<le> cap"
proof -
  let ?key = "\<lambda>r. (ob_agent_id r, ob_resource_id r)" and ?ord = "\<lambda>r. (ob_observed_at r, ob_id r)"
  have eq: "\<not> beyond_cap key ord cap rows r \<longleftrightarrow> length (filter (\<lambda>x. key x = key r \<and> ord r < ord x) rows) < cap"
    for key :: "'r \<Rightarrow> 'k" and ord :: "'r \<Rightarrow> 'o::linorder" and rows r by (auto simp: beyond_cap_def)
  have ords: "distinct (map ?ord obs)" using assms(1) by (auto simp: distinct_map inj_on_def)
  have "n = length obs - length obs'" "m = length desired - length desired'"
    and o: "obs' = filter (\<lambda>r. \<not> beyond_cap ?key ?ord cap obs r) obs"
    and s: "desired' = filter (\<lambda>r. \<not> beyond_cap ds_resource_id ds_id cap desired r) desired"
    using assms(3,4) cap_loop_exact [OF assms(1), of chunk_size ?key ?ord cap 0] cap_loop_exact [OF assms(2), of chunk_size ds_resource_id ds_id cap 0]
      sum_length_filter_compl [of "beyond_cap ?key ?ord cap obs" obs] sum_length_filter_compl [of "beyond_cap ds_resource_id ds_id cap desired" desired]
    by (auto simp: prune_observations_per_resource_def prune_desired_states_per_resource_def chunk_size_def)
  then show ?thesis
    using cap_bounds [OF ords, of ?key "(agent, resource)" cap] cap_bounds [OF assms(2), of ds_resource_id resource cap] unfolding eq by simp
qed

definition seen_twice :: "observation_row list" where
  "seen_twice = map (\<lambda>i. \<lparr>ob_id = i, ob_agent_id = ''a1'', ob_resource_id = ''r1'', ob_kind = ''file'', ob_observed_at = ''t1'',
     ob_present = True, ob_spec_json = [], ob_facts_json = [], ob_received_at = ''t2''\<rparr>) [1, 2]"

definition wanted_twice :: "desired_row list" where
  "wanted_twice = map (\<lambda>i. \<lparr>ds_id = i, ds_operation_id = ''op'', ds_resource_id = ''r1'', ds_kind = ''file'',
     ds_environment = ''prod'', ds_spec_json = [], ds_metadata_json = []\<rparr>) [7, 9]"

lemma two_row_ids: "distinct (map ob_id seen_twice)" "distinct (map ds_id wanted_twice)"
  by (simp_all add: seen_twice_def wanted_twice_def)

theorem retention_caps_exact_witness:
  "map ob_id (fst (prune_observations_per_resource 1 seen_twice)) = [2] \<and> snd (prune_observations_per_resource 1 seen_twice) = 1
    \<and> map ds_id (fst (prune_desired_states_per_resource 1 wanted_twice)) = [9]"
  using retention_caps_exact [OF two_row_ids, where cap = 1 and obs' = "fst (prune_observations_per_resource 1 seen_twice)" and n = "snd (prune_observations_per_resource 1 seen_twice)"
    and desired' = "fst (prune_desired_states_per_resource 1 wanted_twice)" and m = "snd (prune_desired_states_per_resource 1 wanted_twice)"]
  by (simp add: seen_twice_def wanted_twice_def)

section \<open>What a pass keeps\<close>

lemma cap_run_ok:
  assumes "\<And>i. faults i = None"
  shows "cap_run faults rid key ord cap chunk i rows acc = (case cap_loop rid key ord cap chunk rows acc of (rest, n) \<Rightarrow> (Inr n, rest))"
proof (induction rid key ord cap chunk rows acc arbitrary: i rule: cap_loop.induct)
  case (1 rid key ord cap chunk rows acc)
  let ?rest = "filter (\<lambda>r. rid r \<notin> rid ` set (cap_victims key ord cap chunk rows)) rows"
  show ?case
  proof (cases "length rows - length ?rest < chunk \<or> chunk = 0")
    case True
    then show ?thesis by (subst cap_run.simps, subst cap_loop.simps) (simp only: assms option.case Let_def if_P prod.case)
  next
    case False
    have "cap_run faults rid key ord cap chunk i rows acc = cap_run faults rid key ord cap chunk (i + 1) ?rest (acc + (length rows - length ?rest))"
      using False by (subst cap_run.simps) (simp only: assms option.case Let_def if_False)
    moreover have "cap_loop rid key ord cap chunk rows acc = cap_loop rid key ord cap chunk ?rest (acc + (length rows - length ?rest))"
      using False by (subst cap_loop.simps) (simp only: Let_def if_False)
    ultimately show ?thesis using 1 [OF refl refl refl False, of "i + 1"] by (simp only:)
  qed
qed

text \<open>What the loop takes, even when it fails half way, is beyond the cap of the table it started with.\<close>

definition thinned :: "('r \<Rightarrow> bool) \<Rightarrow> 'r list \<Rightarrow> 'r list \<Rightarrow> bool" where
  "thinned due rows rows' \<longleftrightarrow> (\<exists>gone. (\<forall>v \<in> set rows. gone v \<longrightarrow> due v) \<and> rows' = filter (\<lambda>r. \<not> gone r) rows)"

lemma thinned_refl: "thinned due rows rows"
  unfolding thinned_def by (rule exI [of _ "\<lambda>_. False"]) simp

lemma thinned_delete: "thinned due rows (filter (\<lambda>r. \<not> due r) rows)"
  unfolding thinned_def by blast

lemma thinned_filter:
  assumes "thinned due rows rows'" "\<And>v. v \<in> set rows' \<Longrightarrow> gone v \<Longrightarrow> due v"
  shows "thinned due rows (filter (\<lambda>r. \<not> gone r) rows')"
proof -
  obtain g where g: "\<forall>v \<in> set rows. g v \<longrightarrow> due v" "rows' = filter (\<lambda>r. \<not> g r) rows" using assms(1) by (auto simp: thinned_def)
  then show ?thesis unfolding thinned_def using assms(2) by (intro exI [of _ "\<lambda>r. g r \<or> gone r"]) auto
qed

lemma thinned_facts:
  assumes "thinned due rows rows'"
  shows "set rows' \<subseteq> set rows" "x \<in> set rows \<Longrightarrow> \<not> due x \<Longrightarrow> x \<in> set rows'" "filter (\<lambda>r. \<not> due r) rows' = filter (\<lambda>r. \<not> due r) rows"
    "distinct (map f rows) \<Longrightarrow> distinct (map f rows')"
proof -
  obtain gone where g: "\<forall>v \<in> set rows. gone v \<longrightarrow> due v" "rows' = filter (\<lambda>r. \<not> gone r) rows" using assms by (auto simp: thinned_def)
  then show "set rows' \<subseteq> set rows" "x \<in> set rows \<Longrightarrow> \<not> due x \<Longrightarrow> x \<in> set rows'" by auto
  show "filter (\<lambda>r. \<not> due r) rows' = filter (\<lambda>r. \<not> due r) rows" unfolding g(2) filter_filter using g(1) by (intro filter_cong) auto
  show "distinct (map f rows) \<Longrightarrow> distinct (map f rows')" unfolding g(2) by (rule distinct_map_filter)
qed

lemma cap_run_thinned:
  assumes "distinct (map rid rows0)" "thinned (beyond_cap key ord cap rows0) rows0 rows"
  shows "thinned (beyond_cap key ord cap rows0) rows0 (snd (cap_run faults rid key ord cap chunk i rows acc))"
  using assms(2)
proof (induction faults rid\<equiv>rid key\<equiv>key ord\<equiv>ord cap\<equiv>cap chunk\<equiv>chunk i rows acc rule: cap_run.induct)
  case (1 faults i rows acc)
  let ?vs = "cap_victims key ord cap chunk rows"
  let ?rest = "filter (\<lambda>r. rid r \<notin> rid ` set ?vs) rows"
  obtain g where g: "\<forall>v \<in> set rows0. g v \<longrightarrow> beyond_cap key ord cap rows0 v" "rows = filter (\<lambda>r. \<not> g r) rows0"
    using 1(2) by (auto simp: thinned_def)
  have same: "beyond_cap key ord cap rows x \<longleftrightarrow> beyond_cap key ord cap rows0 x" for x unfolding g(2) by (rule beyond_cap_stable [OF g(1)])
  have dist: "distinct (map rid rows)" using thinned_facts(4) [OF 1(2) assms(1)] .
  have rest: "thinned (beyond_cap key ord cap rows0) rows0 ?rest"
    by (rule thinned_filter [OF 1(2)]) (use victims_gone [OF dist] victims_beyond [of _ key ord cap chunk rows] same in blast)
  show ?case
  proof (cases "faults i")
    case (Some e)
    with 1(2) show ?thesis by (simp add: cap_run.simps)
  next
    case None
    show ?thesis
    proof (cases "length rows - length ?rest < chunk \<or> chunk = 0")
      case True
      with None rest show ?thesis by (subst cap_run.simps) (simp only: option.case Let_def if_P snd_conv)
    next
      case False
      then have "cap_run faults rid key ord cap chunk i rows acc = cap_run faults rid key ord cap chunk (i + 1) ?rest (acc + (length rows - length ?rest))"
        by (subst cap_run.simps) (simp only: None option.case Let_def if_False)
      with 1(1) [OF None refl refl refl False rest] show ?thesis by (simp only:)
    qed
  qed
qed

text \<open>Where a pass can lead from the database \<open>d0\<close>, whether it ends or fails: every table is a thinned one.\<close>

definition pruned_from :: "call_env \<Rightarrow> retention_config \<Rightarrow> db \<Rightarrow> db \<Rightarrow> bool" where
  "pruned_from E cfg d0 d \<longleftrightarrow>
     db_agents d = db_agents d0 \<and> db_operations d = db_operations d0 \<and> db_users d = db_users d0
   \<and> db_drift_seq d = db_drift_seq d0 \<and> db_desired_seq d = db_desired_seq d0 \<and> db_observations_seq d = db_observations_seq d0
   \<and> al_tip (db_audit d) = al_tip (db_audit d0) \<and> al_seq (db_audit d) = al_seq (db_audit d0)
   \<and> thinned (\<lambda>r. 0 < re_audit_days cfg \<and> ai_timestamp r < cutoff_string E (re_audit_days cfg)) (al_events (db_audit d0)) (al_events (db_audit d))
   \<and> set (db_observations d) \<subseteq> set (db_observations d0)
   \<and> (distinct (map ds_id (db_desired d0)) \<longrightarrow> thinned (\<lambda>r. 0 < re_desired_state_max_per_resource cfg
         \<and> beyond_cap ds_resource_id ds_id (re_desired_state_max_per_resource cfg) (db_desired d0) r) (db_desired d0) (db_desired d))
   \<and> thinned (\<lambda>r. 0 < re_drift_resolved_days cfg \<and> resolved_row (cutoff_string E (re_drift_resolved_days cfg)) r) (db_drift d0) (db_drift d)
   \<and> thinned (\<lambda>a. 0 < re_assignment_terminal_days cfg \<and> terminal_row (cutoff_string E (re_assignment_terminal_days cfg)) a)
       (db_assignments d0) (db_assignments d)
   \<and> thinned (\<lambda>t. ut_expires_at t \<le> ce_now E) (db_tokens d0) (db_tokens d)"

definition act_keeps :: "('w \<Rightarrow> bool) \<Rightarrow> ('w, 'e, 'a) act \<Rightarrow> bool" where
  "act_keeps P m \<longleftrightarrow> (\<forall>w r w'. P w \<longrightarrow> m w = (r, w') \<longrightarrow> P w')"

lemma act_keepsD: "act_keeps P m \<Longrightarrow> P w \<Longrightarrow> m w = (r, w') \<Longrightarrow> P w'"
  by (auto simp: act_keeps_def)

lemma act_keeps_bind:
  assumes "act_keeps P m" "\<And>x. act_keeps P (f x)"
  shows "act_keeps P (bindA m f)"
  unfolding act_keeps_def
proof (intro allI impI)
  fix w r w' assume "P w" "bindA m f w = (r, w')"
  from this(2) show "P w'" by (cases rule: bindA_cases) (use assms \<open>P w\<close> act_keepsD in \<open>metis+\<close>)
qed

lemma act_keeps_doing: "act_keeps P (doing x)"
  by (simp add: act_keeps_def)

lemma act_keeps_unless: "(0 < n \<Longrightarrow> act_keeps P m) \<Longrightarrow> act_keeps P (unless_zero n m)"
  by (simp add: unless_zero_def act_keeps_doing)

lemma act_keeps_deleting:
  assumes "\<And>d. P d \<Longrightarrow> P (put (filter (\<lambda>r. \<not> Q r) (get d)) d)"
  shows "act_keeps P (deleting E st get put Q)"
  using assms by (auto simp: act_keeps_def deleting_def delete_where_def split: option.splits)

lemma act_keeps_capping:
  assumes "\<And>d. P d \<Longrightarrow> P (put (snd (run (get d))) d)"
  shows "act_keeps P (capping get put run)"
  unfolding act_keeps_def capping_def using assms by (auto split: prod.splits) (metis snd_conv)

lemma cap_run_subset: "set (snd (cap_run faults rid key ord cap chunk i rows acc)) \<subseteq> set rows"
proof (induction faults rid key ord cap chunk i rows acc rule: cap_run.induct)
  case (1 faults rid key ord cap chunk i rows acc)
  let ?rest = "filter (\<lambda>r. rid r \<notin> rid ` set (cap_victims key ord cap chunk rows)) rows"
  show ?case
  proof (cases "faults i = None \<and> \<not> (length rows - length ?rest < chunk \<or> chunk = 0)")
    case True
    then have f: "faults i = None" and more: "\<not> (length rows - length ?rest < chunk \<or> chunk = 0)" by auto
    have "cap_run faults rid key ord cap chunk i rows acc = cap_run faults rid key ord cap chunk (i + 1) ?rest (acc + (length rows - length ?rest))"
      using more by (subst cap_run.simps) (simp only: f option.case Let_def if_False)
    then show ?thesis using subset_trans [OF 1 [OF f refl refl refl more] filter_is_subset] by (simp only:)
  next
    case False
    then show ?thesis by (subst cap_run.simps) (auto simp: Let_def split: option.splits)
  qed
qed

lemma prune_once_within: "act_keeps (pruned_from E cfg d0) (prune_once E cfg)"
proof -
  have obs: "act_keeps (pruned_from E cfg d0) (cap_observations E n)" for n
    unfolding cap_observations_def
    by (rule act_keeps_capping) (auto simp: pruned_from_def dest: subsetD [OF cap_run_subset])
  have des: "act_keeps (pruned_from E cfg d0) (cap_desired_states E (re_desired_state_max_per_resource cfg))"
    if "0 < re_desired_state_max_per_resource cfg"
    unfolding cap_desired_states_def
    by (rule act_keeps_capping) (use that cap_run_thinned in \<open>auto simp: pruned_from_def\<close>)
  have tok: "act_keeps (pruned_from E cfg d0) (expiring_tokens E)"
    by (auto simp: act_keeps_def expiring_tokens_def prune_expired_tokens_def pruned_from_def intro!: thinned_filter split: option.splits)
  show ?thesis
    unfolding prune_once_def
    by (intro act_keeps_bind act_keeps_unless act_keeps_doing obs des tok act_keeps_deleting)
       (auto simp: pruned_from_def intro!: thinned_filter)
qed

lemma pruned_from_refl: "pruned_from E cfg d d"
  by (simp add: pruned_from_def thinned_refl)

lemma prune_once_from: "prune_once E cfg d = (r, d') \<Longrightarrow> pruned_from E cfg d d'"
  using prune_once_within pruned_from_refl act_keepsD by metis

text \<open>
  A pass takes no live row, whether it ends or fails half way. Agents, operations and users are not touched;
  every open drift row, every assignment that is not finished, every token that has not expired, and the
  newest desired state of every resource is still there, in the old order; and no row is invented.
\<close>

lemma retention_keeps_live:
  assumes "prune_once E cfg d = (r, d')"
  shows "db_agents d' = db_agents d \<and> db_operations d' = db_operations d \<and> db_users d' = db_users d
    \<and> filter drift_open (db_drift d') = filter drift_open (db_drift d)
    \<and> filter (\<lambda>t. ce_now E < ut_expires_at t) (db_tokens d') = filter (\<lambda>t. ce_now E < ut_expires_at t) (db_tokens d)
    \<and> set (filter (\<lambda>a. as_completed_at a = None \<or> as_status a \<notin> {ASucceeded, AFailed, APartiallyApplied}) (db_assignments d)) \<subseteq> set (db_assignments d')
    \<and> set (db_assignments d') \<subseteq> set (db_assignments d)"
proof -
  note p = prune_once_from [OF assms, unfolded pruned_from_def]
  have "thinned (\<lambda>r. 0 < re_drift_resolved_days cfg \<and> resolved_row (cutoff_string E (re_drift_resolved_days cfg)) r) (db_drift d) (db_drift d')"
    using p by blast
  then obtain g where g: "\<forall>v \<in> set (db_drift d). g v \<longrightarrow> resolved_row (cutoff_string E (re_drift_resolved_days cfg)) v"
    "db_drift d' = filter (\<lambda>r. \<not> g r) (db_drift d)" by (auto simp: thinned_def)
  have "filter drift_open (db_drift d') = filter drift_open (db_drift d)"
    unfolding g(2) filter_filter using g(1) by (intro filter_cong) (auto simp: resolved_row_def)
  moreover have "thinned (\<lambda>t. ut_expires_at t \<le> ce_now E) (db_tokens d) (db_tokens d')" using p by blast
  from thinned_facts(3) [OF this] have "filter (\<lambda>t. ce_now E < ut_expires_at t) (db_tokens d') = filter (\<lambda>t. ce_now E < ut_expires_at t) (db_tokens d)"
    by (simp add: not_le)
  moreover have t: "thinned (\<lambda>a. 0 < re_assignment_terminal_days cfg \<and> terminal_row (cutoff_string E (re_assignment_terminal_days cfg)) a)
       (db_assignments d) (db_assignments d')" using p by blast
  have "set (filter (\<lambda>a. as_completed_at a = None \<or> as_status a \<notin> {ASucceeded, AFailed, APartiallyApplied}) (db_assignments d)) \<subseteq> set (db_assignments d')"
    using thinned_facts(2) [OF t] by (auto simp: terminal_row_def)
  ultimately show ?thesis using p thinned_facts(1) [OF t] by blast
qed

text \<open>A pass none of whose statements fails takes everything that is due.\<close>

lemma prune_once_complete:
  assumes "\<And>st. ce_fault E st = None"
  shows "\<exists>stats d'. prune_once E cfg d = (Inr stats, d')
    \<and> al_events (db_audit d') = filter (\<lambda>r. \<not> (0 < re_audit_days cfg \<and> ai_timestamp r < cutoff_string E (re_audit_days cfg))) (al_events (db_audit d))
    \<and> db_drift d' = filter (\<lambda>r. \<not> (0 < re_drift_resolved_days cfg \<and> resolved_row (cutoff_string E (re_drift_resolved_days cfg)) r)) (db_drift d)
    \<and> db_assignments d' = filter (\<lambda>a. \<not> (0 < re_assignment_terminal_days cfg \<and> terminal_row (cutoff_string E (re_assignment_terminal_days cfg)) a)) (db_assignments d)
    \<and> db_tokens d' = filter (\<lambda>t. ce_now E < ut_expires_at t) (db_tokens d)
    \<and> db_desired d' = (if 0 < re_desired_state_max_per_resource cfg
         then fst (prune_desired_states_per_resource (re_desired_state_max_per_resource cfg) (db_desired d)) else db_desired d)"
  by (simp add: prune_once_def bindA_def unless_zero_def deleting_def delete_where_def cap_observations_def cap_desired_states_def capping_def
      expiring_tokens_def prune_expired_tokens_def assms cap_run_ok prune_desired_states_per_resource_def not_le split: prod.splits)

section \<open>Where the pruning goes wrong\<close>

text \<open>The audit chain is anchored at its first row. Once the pass has deleted a prefix of the log, the
  verification of the untampered rest reports its first row as broken.\<close>

lemma verified_prefix_hash:
  assumes "hex_digest H" "verify_rows H prev rows = (None, p)" "rows \<noteq> []"
  shows "p \<noteq> []"
  using assms(2,3)
proof (induction rows arbitrary: prev)
  case (Cons r rows)
  have ne: "compute_audit_row_hash H q 0 r \<noteq> []" for q using hex_digest_hd [OF assms(1)] by (simp add: compute_audit_row_hash_def)
  show ?case
  proof (cases "rows = []")
    case True
    with Cons.prems ne show ?thesis by (auto simp: Let_def split: if_splits)
  qed (use Cons in \<open>auto simp: Let_def split: if_splits\<close>)
qed simp

lemma pruned_log_alarms:
  assumes "hex_digest H" "audit_wf H log" "al_events log = dropped @ kept" "dropped \<noteq> []" "kept \<noteq> []"
  shows "audit_verify_chain H (log\<lparr>al_events := kept\<rparr>) = Some (ae_id (hd kept))"
proof -
  obtain r rs where kept: "kept = r # rs" using assms(5) by (meson neq_Nil_conv)
  have wf: "sorted_wrt (<) (map ae_id kept)" "\<forall>r \<in> set kept. ae_row_hash r \<noteq> None" "filter (\<lambda>r. 0 < ae_id r) kept = kept"
    using assms(2,3) by (auto simp: audit_wf_def sorted_wrt_append intro: filter_True)
  obtain p where p: "verify_rows H [] dropped = (None, p)" "fst (verify_rows H p kept) = None"
    using assms(2,3) verify_rows_append [of H "[]" dropped kept] by (auto simp: audit_wf_def split: prod.splits option.splits)
  have "p \<noteq> []" by (rule verified_prefix_hash [OF assms(1) p(1) assms(4)])
  then have "fst (verify_rows H [] kept) = Some (ae_id r)" using p(2) by (auto simp: kept Let_def split: if_splits)
  with wf show ?thesis
    using verify_loop_walk [OF wf(1,2), of audit_chunk H 0 "[]"]
    by (simp add: audit_verify_chain_def audit_verify_chain_from_def audit_chunk_def kept)
qed

text \<open>A pass deletes finished rows of operations that are still running. When the last row of such an
  operation succeeds, the roll-up no longer sees the rows that failed and reports a success.\<close>

lemma pruned_failure_forgotten:
  assumes "\<forall>a \<in> set rows. as_operation_id a = oper \<and> as_id a \<noteq> aid \<longrightarrow> as_status a = ASucceeded \<or> terminal_row cutoff a"
  shows "rolled_up_status oper (update_where (\<lambda>a. as_id a = aid) (complete_row now js RSucceeded)
     (filter (\<lambda>a. \<not> terminal_row cutoff a) rows)) = Some OpSucceeded"
proof -
  have "as_status a = ASucceeded" if "a \<in> set (rows_of oper (update_where (\<lambda>a. as_id a = aid) (complete_row now js RSucceeded)
     (filter (\<lambda>a. \<not> terminal_row cutoff a) rows)))" for a
    using that assms by (auto simp: rows_of_def of_op_def set_update_where complete_row_def split: if_splits)
  then show ?thesis unfolding rolled_up_status_eq by (auto simp: unfinished_def Let_def)
qed

text \<open>A number of days meant as forever deletes everything older than now.\<close>

lemma forever_is_now: "7304484 < days \<Longrightarrow> cutoff_string E days = ce_now E"
  by (simp add: cutoff_string_def span_seconds_max_def)

end
