(* ===== verification/Local_Store.thy ===== *)
theory Local_Store
  imports Executor Retention
begin

text \<open>
  The agent's SQLite store (\<open>iac-agent/src/store.rs\<close>): the assignments already processed, the recent
  observations, the drift events and the runs. JSON columns are kept as the values they hold. Which
  statements fail is the environment's choice. Where a query leaves the order of equal rows open, the
  first of them in the order of the table is taken.
\<close>

section \<open>Tables\<close>

record processed_row =
  pc_assignment_id :: string
  pc_processed_at :: string
  pc_status :: string

record local_observation =
  lo_id :: int
  lo_resource_id :: string
  lo_kind :: string
  lo_observed_at :: string
  lo_present :: bool
  lo_spec :: json
  lo_facts :: "(string \<times> json) list"

record local_drift =
  ld_id :: int
  ld_resource_id :: string
  ld_kind :: string
  ld_severity :: string
  ld_diff :: diff
  ld_detected_at :: string
  ld_resolved_at :: "string option"
  ld_resolution :: "string option"

record agent_run =
  ru_id :: int
  ru_started_at :: string
  ru_finished_at :: "string option"
  ru_resources_observed :: nat
  ru_drift_detected :: nat
  ru_error :: "string option"

record local_store =
  sq_processed :: "processed_row list"
  sq_observations :: "local_observation list"
  sq_observations_seq :: int
  sq_drift :: "local_drift list"
  sq_drift_seq :: int
  sq_runs :: "agent_run list"
  sq_runs_seq :: int

definition empty_store :: local_store where
  "empty_store = \<lparr>sq_processed = [], sq_observations = [], sq_observations_seq = 0, sq_drift = [], sq_drift_seq = 0,
     sq_runs = [], sq_runs_seq = 0\<rparr>"

section \<open>Statements\<close>

datatype statement =
    SelectProcessed string | InsertProcessed string | DeleteProcessed
  | InsertObservation string | TrimObservations string
  | SelectDrift string | UpdateDrift string | InsertDrift string | ResolveDrift int | CloseDrift string
  | CountDrift | InsertRun

record sqlite =
  sl_fault :: "statement \<Rightarrow> string option"
  sl_now :: string
  sl_ago :: "int \<Rightarrow> string option"

type_synonym 'a stored = "(local_store, string, 'a) act"

definition query :: "sqlite \<Rightarrow> statement \<Rightarrow> (local_store \<Rightarrow> 'a) \<Rightarrow> 'a stored" where
  "query Q st f = (\<lambda>s. case sl_fault Q st of Some e \<Rightarrow> (Inl e, s) | None \<Rightarrow> (Inr (f s), s))"

definition execute :: "sqlite \<Rightarrow> statement \<Rightarrow> (local_store \<Rightarrow> local_store) \<Rightarrow> unit stored" where
  "execute Q st f = (\<lambda>s. case sl_fault Q st of Some e \<Rightarrow> (Inl e, s) | None \<Rightarrow> (Inr (), f s))"

section \<open>Replay protection\<close>

definition assignment_already_processed :: "sqlite \<Rightarrow> string \<Rightarrow> string option stored" where
  "assignment_already_processed Q aid = query Q (SelectProcessed aid) (\<lambda>s.
     map_option pc_status (find (\<lambda>r. pc_assignment_id r = aid) (sq_processed s)))"

definition mark_assignment_processed :: "sqlite \<Rightarrow> string \<Rightarrow> string \<Rightarrow> unit stored" where
  "mark_assignment_processed Q aid status = execute Q (InsertProcessed aid) (\<lambda>s.
     if aid \<in> pc_assignment_id ` set (sq_processed s) then s
     else s\<lparr>sq_processed := sq_processed s @ [\<lparr>pc_assignment_id = aid, pc_processed_at = sl_now Q, pc_status = status\<rparr>]\<rparr>)"

text \<open>The only caller passes seven days.\<close>

definition vacuum_replay :: "sqlite \<Rightarrow> int \<Rightarrow> nat stored" where
  "vacuum_replay Q retain_days =
     (let cutoff = (case sl_ago Q (retain_days * 86400) of Some t \<Rightarrow> t | None \<Rightarrow> sl_now Q)
      in bindA (query Q DeleteProcessed (\<lambda>s. length (filter (\<lambda>r. pc_processed_at r < cutoff) (sq_processed s)))) (\<lambda>n.
         bindA (execute Q DeleteProcessed (\<lambda>s. s\<lparr>sq_processed := filter (\<lambda>r. \<not> pc_processed_at r < cutoff) (sq_processed s)\<rparr>)) (\<lambda>_.
           doing n)))"

section \<open>Observations\<close>

definition agent_observation_history_cap :: nat where
  "agent_observation_history_cap = 10"

definition trim_history :: "string \<Rightarrow> local_observation list \<Rightarrow> local_observation list" where
  "trim_history rid rows = filter (\<lambda>r. \<not> (lo_resource_id r = rid
     \<and> beyond_cap lo_resource_id (\<lambda>r. (lo_observed_at r, lo_id r)) agent_observation_history_cap rows r)) rows"

definition record_observation :: "sqlite \<Rightarrow> resource_id \<Rightarrow> observed_state \<Rightarrow> unit stored" where
  "record_observation Q r obs =
     (let rid = resource_id_to_string r in
      bindA (execute Q (InsertObservation rid) (\<lambda>s.
        s\<lparr>sq_observations := sq_observations s @ [\<lparr>lo_id = sq_observations_seq s + 1, lo_resource_id = rid, lo_kind = ri_kind r,
             lo_observed_at = observed_state.ob_observed_at obs, lo_present = observed_state.ob_present obs,
             lo_spec = ob_spec obs, lo_facts = ob_facts obs\<rparr>],
          sq_observations_seq := sq_observations_seq s + 1\<rparr>)) (\<lambda>_.
        execute Q (TrimObservations rid) (\<lambda>s. s\<lparr>sq_observations := trim_history rid (sq_observations s)\<rparr>)))"

section \<open>Drift\<close>

definition ld_open :: "local_drift \<Rightarrow> bool" where
  "ld_open r \<longleftrightarrow> ld_resolved_at r = None"

definition newest_open :: "string \<Rightarrow> local_drift list \<Rightarrow> local_drift option" where
  "newest_open rid rows =
     (let xs = filter (\<lambda>r. ld_resource_id r = rid \<and> ld_open r) rows
      in find (\<lambda>r. list_all (\<lambda>x. ld_detected_at x \<le> ld_detected_at r) xs) xs)"

definition open_drift_event :: "sqlite \<Rightarrow> resource_id \<Rightarrow> string \<Rightarrow> diff \<Rightarrow> int stored" where
  "open_drift_event Q r severity d =
     (let rid = resource_id_to_string r in
      bindA (query Q (SelectDrift rid) (\<lambda>s. map_option ld_id (newest_open rid (sq_drift s)))) (\<lambda>existing.
        case existing of
          Some i \<Rightarrow>
            bindA (execute Q (UpdateDrift rid) (\<lambda>s. s\<lparr>sq_drift := map (\<lambda>x. if ld_id x = i
              then x\<lparr>ld_diff := d, ld_severity := severity, ld_detected_at := sl_now Q\<rparr> else x) (sq_drift s)\<rparr>)) (\<lambda>_. doing i)
        | None \<Rightarrow>
            bindA (execute Q (InsertDrift rid) (\<lambda>s. s\<lparr>sq_drift := sq_drift s @ [\<lparr>ld_id = sq_drift_seq s + 1, ld_resource_id = rid,
              ld_kind = ri_kind r, ld_severity = severity, ld_diff = d, ld_detected_at = sl_now Q, ld_resolved_at = None, ld_resolution = None\<rparr>],
              sq_drift_seq := sq_drift_seq s + 1\<rparr>)) (\<lambda>_ s. (Inr (sq_drift_seq s), s))))"

definition resolve_where :: "sqlite \<Rightarrow> statement \<Rightarrow> (local_drift \<Rightarrow> bool) \<Rightarrow> string \<Rightarrow> nat stored" where
  "resolve_where Q st P resolution =
     bindA (query Q st (\<lambda>s. length (filter (\<lambda>x. P x \<and> ld_open x) (sq_drift s)))) (\<lambda>n.
     bindA (execute Q st (\<lambda>s. s\<lparr>sq_drift := map (\<lambda>x. if P x \<and> ld_open x
       then x\<lparr>ld_resolved_at := Some (sl_now Q), ld_resolution := Some resolution\<rparr> else x) (sq_drift s)\<rparr>)) (\<lambda>_. doing n))"

definition resolve_drift :: "sqlite \<Rightarrow> int \<Rightarrow> string \<Rightarrow> nat stored" where
  "resolve_drift Q i resolution = resolve_where Q (ResolveDrift i) (\<lambda>x. ld_id x = i) resolution"

definition close_open_drift_for :: "sqlite \<Rightarrow> resource_id \<Rightarrow> string \<Rightarrow> nat stored" where
  "close_open_drift_for Q r resolution =
     resolve_where Q (CloseDrift (resource_id_to_string r)) (\<lambda>x. ld_resource_id x = resource_id_to_string r) resolution"

definition list_open_drifts :: "local_store \<Rightarrow> local_drift list" where
  "list_open_drifts s = rev (sort_key ld_detected_at (rev (filter ld_open (sq_drift s))))"

definition open_drift_count :: "sqlite \<Rightarrow> nat stored" where
  "open_drift_count Q = query Q CountDrift (\<lambda>s. length (filter ld_open (sq_drift s)))"

section \<open>Runs\<close>

definition record_run :: "sqlite \<Rightarrow> string \<Rightarrow> string option \<Rightarrow> nat \<Rightarrow> nat \<Rightarrow> string option \<Rightarrow> int stored" where
  "record_run Q started finished observed drift err =
     bindA (execute Q InsertRun (\<lambda>s. s\<lparr>sq_runs := sq_runs s @ [\<lparr>ru_id = sq_runs_seq s + 1, ru_started_at = started, ru_finished_at = finished,
       ru_resources_observed = observed, ru_drift_detected = drift, ru_error = err\<rparr>], sq_runs_seq := sq_runs_seq s + 1\<rparr>))
       (\<lambda>_ s. (Inr (sq_runs_seq s), s))"

definition recent_runs :: "nat \<Rightarrow> local_store \<Rightarrow> agent_run list" where
  "recent_runs limit s = take limit (rev (sort_key ru_id (sq_runs s)))"

section \<open>Invariant\<close>

text \<open>Ids are below the sequence and not repeated, an assignment is recorded once, and a resource has at
  most one open drift event.\<close>

definition store_inv :: "local_store \<Rightarrow> bool" where
  "store_inv s \<longleftrightarrow>
     distinct (map pc_assignment_id (sq_processed s))
     \<and> distinct (map lo_id (sq_observations s)) \<and> (\<forall>r \<in> set (sq_observations s). lo_id r \<le> sq_observations_seq s)
     \<and> distinct (map ld_id (sq_drift s)) \<and> (\<forall>r \<in> set (sq_drift s). ld_id r \<le> sq_drift_seq s)
     \<and> distinct (map ld_resource_id (filter ld_open (sq_drift s)))"

definition keeps :: "'a stored \<Rightarrow> bool" where
  "keeps m \<longleftrightarrow> (\<forall>s. store_inv s \<longrightarrow> store_inv (snd (m s)))"

named_theorems store_keeps \<open>store operations that keep the invariant\<close>

lemma keeps_doing [store_keeps]: "keeps (doing x)"
  by (simp add: keeps_def)

lemma keeps_read [store_keeps]: "keeps (\<lambda>s. (f s, s))"
  by (simp add: keeps_def)

lemma keeps_query [store_keeps]: "keeps (query Q st f)"
  by (simp add: keeps_def query_def split: option.splits)

lemma keeps_execute: "(\<And>s. store_inv s \<Longrightarrow> store_inv (f s)) \<Longrightarrow> keeps (execute Q st f)"
  by (simp add: keeps_def execute_def split: option.splits)

lemma keeps_bind [store_keeps]: "keeps m \<Longrightarrow> (\<And>x. keeps (f x)) \<Longrightarrow> keeps (bindA m f)"
  unfolding keeps_def bindA_def by (fastforce split: prod.splits sum.splits)

lemma keeps_processed [store_keeps]: "keeps (assignment_already_processed Q aid)"
  by (simp add: assignment_already_processed_def store_keeps)

lemma keeps_mark [store_keeps]: "keeps (mark_assignment_processed Q aid status)"
  unfolding mark_assignment_processed_def by (rule keeps_execute) (auto simp: store_inv_def)

lemma keeps_vacuum [store_keeps]: "keeps (vacuum_replay Q days)"
  unfolding vacuum_replay_def Let_def
  by (intro store_keeps keeps_execute) (auto simp: store_inv_def intro: distinct_map_filter)

lemma keeps_record_observation [store_keeps]: "keeps (record_observation Q r obs)"
  unfolding record_observation_def Let_def
  by (intro store_keeps keeps_execute) (auto simp: store_inv_def trim_history_def intro: distinct_map_filter)

lemma filter_map_same: "(\<And>x. P (f x) = P x) \<Longrightarrow> (\<And>x. g (f x) = g x) \<Longrightarrow> map g (filter P (map f xs)) = map g (filter P xs)"
  by (induction xs) auto

lemma newest_open_Some:
  assumes "newest_open rid rows = Some r"
  shows "r \<in> set rows \<and> ld_resource_id r = rid \<and> ld_open r"
  using assms by (auto simp: newest_open_def Let_def find_Some_iff in_set_conv_nth dest!: nth_mem)

lemma max_exists: "xs \<noteq> [] \<Longrightarrow> \<exists>m \<in> set xs. \<forall>x \<in> set xs. (f x :: 'k::linorder) \<le> f m"
proof -
  assume "xs \<noteq> []"
  then have "Max (f ` set xs) \<in> f ` set xs" by (intro Max_in) auto
  then obtain m where "m \<in> set xs" "f m = Max (f ` set xs)" by auto
  then show ?thesis by (intro bexI [of _ m]) auto
qed

lemma newest_open_None: "newest_open rid rows = None \<Longrightarrow> \<forall>r \<in> set rows. ld_resource_id r = rid \<longrightarrow> \<not> ld_open r"
proof (rule ccontr)
  assume none: "newest_open rid rows = None" and "\<not> (\<forall>r \<in> set rows. ld_resource_id r = rid \<longrightarrow> \<not> ld_open r)"
  then have "filter (\<lambda>r. ld_resource_id r = rid \<and> ld_open r) rows \<noteq> []" by (auto simp: filter_empty_conv)
  from max_exists [OF this, of ld_detected_at] none show False
    by (auto simp: newest_open_def Let_def find_None_iff list_all_iff)
qed

lemma keeps_open_drift [store_keeps]: "keeps (open_drift_event Q r severity d)"
  unfolding keeps_def
proof (intro allI impI)
  fix s assume inv: "store_inv s"
  let ?rid = "resource_id_to_string r"
  have upd: "store_inv (s\<lparr>sq_drift := map (\<lambda>x. if ld_id x = i then x\<lparr>ld_diff := d, ld_severity := severity, ld_detected_at := sl_now Q\<rparr> else x) (sq_drift s)\<rparr>)" for i
  proof -
    let ?f = "\<lambda>x. if ld_id x = i then x\<lparr>ld_diff := d, ld_severity := severity, ld_detected_at := sl_now Q\<rparr> else x"
    have "map ld_resource_id (filter ld_open (map ?f (sq_drift s))) = map ld_resource_id (filter ld_open (sq_drift s))"
      by (rule filter_map_same) (simp_all add: ld_open_def)
    moreover have "(ld_id :: local_drift \<Rightarrow> int) \<circ> ?f = ld_id" by auto
    ultimately show ?thesis using inv unfolding store_inv_def by auto
  qed
  show "store_inv (snd (open_drift_event Q r severity d s))"
  proof (cases "newest_open ?rid (sq_drift s)")
    case (Some x)
    then show ?thesis using inv upd
      by (auto simp: open_drift_event_def Let_def bindA_def query_def execute_def split: option.splits)
  next
    case None
    from newest_open_None [OF this] None inv show ?thesis
      by (auto simp: open_drift_event_def Let_def bindA_def query_def execute_def store_inv_def ld_open_def split: option.splits)
  qed
qed

lemma resolve_distinct: "distinct (map ld_resource_id (filter ld_open xs)) \<Longrightarrow>
  distinct (map ld_resource_id (filter ld_open (map (\<lambda>x. if P x \<and> ld_open x then x\<lparr>ld_resolved_at := Some t, ld_resolution := y\<rparr> else x) xs)))"
  by (induction xs) (auto simp: ld_open_def)

lemma keeps_resolve [store_keeps]: "keeps (resolve_where Q st P resolution)"
proof -
  have "store_inv (s\<lparr>sq_drift := map (\<lambda>x. if P x \<and> ld_open x then x\<lparr>ld_resolved_at := Some t, ld_resolution := y\<rparr> else x) (sq_drift s)\<rparr>)"
    if "store_inv s" for s t y
  proof -
    let ?f = "\<lambda>x. if P x \<and> ld_open x then x\<lparr>ld_resolved_at := Some t, ld_resolution := y\<rparr> else x"
    have "ld_id \<circ> ?f = ld_id" by auto
    with that resolve_distinct [where xs = "sq_drift s" and P = P and t = t and y = y] show ?thesis unfolding store_inv_def by auto
  qed
  then show ?thesis unfolding resolve_where_def by (intro store_keeps keeps_execute)
qed

lemma keeps_close [store_keeps]: "keeps (close_open_drift_for Q r resolution)" "keeps (resolve_drift Q i resolution)"
  by (simp_all add: close_open_drift_for_def resolve_drift_def store_keeps)

lemma keeps_count [store_keeps]: "keeps (open_drift_count Q)"
  by (simp add: open_drift_count_def store_keeps)

lemma keeps_run [store_keeps]: "keeps (record_run Q started finished observed drift err)"
  unfolding record_run_def by (intro store_keeps keeps_execute) (auto simp: store_inv_def)

section \<open>The store as a machine\<close>

datatype store_call =
    MarkProcessed sqlite string string
  | VacuumReplay sqlite int
  | RecordObservation sqlite resource_id observed_state
  | OpenDriftEvent sqlite resource_id string diff
  | ResolveDriftEvent sqlite int string
  | CloseDriftFor sqlite resource_id string
  | RecordRun sqlite string "string option" nat nat "string option"

fun store_step :: "store_call \<Rightarrow> local_store \<Rightarrow> local_store" where
  "store_step (MarkProcessed Q aid st) s = snd (mark_assignment_processed Q aid st s)"
| "store_step (VacuumReplay Q days) s = snd (vacuum_replay Q days s)"
| "store_step (RecordObservation Q r obs) s = snd (record_observation Q r obs s)"
| "store_step (OpenDriftEvent Q r sev d) s = snd (open_drift_event Q r sev d s)"
| "store_step (ResolveDriftEvent Q i why) s = snd (resolve_drift Q i why s)"
| "store_step (CloseDriftFor Q r why) s = snd (close_open_drift_for Q r why s)"
| "store_step (RecordRun Q a b m n e) s = snd (record_run Q a b m n e s)"

lemma store_step_inv: "store_inv s \<Longrightarrow> store_inv (store_step c s)"
  using store_keeps by (cases c) (simp_all add: keeps_def)

interpretation local_store_m: machine_invariant store_step store_inv
  by unfold_locales (rule store_step_inv)

lemma empty_store_inv: "store_inv empty_store"
  by (simp add: store_inv_def empty_store_def)

text \<open>
  The agent's store stays consistent whatever statements fail, in any order of calls from an empty
  database: an assignment is recorded as processed once, row ids are unique, and a resource never
  has two open drift events; and as soon as an observation has been recorded without an error, the resource has
  at most ten of them.
\<close>

theorem local_store_consistent:
  assumes "record_observation Q r obs (fold store_step calls empty_store) = (Inr (), s)"
  shows "store_inv (fold store_step calls empty_store) \<and> store_inv s
    \<and> length (filter (\<lambda>x. lo_resource_id x = resource_id_to_string r) (sq_observations s)) \<le> agent_observation_history_cap"
proof -
  let ?rid = "resource_id_to_string r" and ?ord = "\<lambda>x. (lo_observed_at x, lo_id x)" and ?s = "fold store_step calls empty_store"
  have inv: "store_inv ?s" by (rule local_store_m.inv_run [OF empty_store_inv])
  have inv': "store_inv s" using keeps_record_observation [of Q r obs] inv assms unfolding keeps_def by (metis snd_conv)
  obtain x where rows: "sq_observations s = trim_history ?rid (sq_observations ?s @ [x])" "lo_id x = sq_observations_seq ?s + 1"
    using assms by (auto simp: record_observation_def Let_def bindA_def execute_def split: option.splits)
  have new: "distinct (map lo_id (sq_observations ?s @ [x]))" using inv rows(2) by (force simp: store_inv_def)
  have "distinct (map ?ord (sq_observations ?s @ [x]))" using new by (auto simp: distinct_map inj_on_def)
  from cap_bounds [OF this, of lo_resource_id ?rid agent_observation_history_cap]
  have "length (filter (\<lambda>x. lo_resource_id x = ?rid) (sq_observations s)) \<le> agent_observation_history_cap"
    unfolding rows(1) trim_history_def filter_filter by (elim order_trans [rotated]) (rule length_filter_mono, auto)
  with inv inv' show ?thesis by blast
qed

definition quiet :: sqlite where
  "quiet = \<lparr>sl_fault = (\<lambda>_. None), sl_now = ''t5'', sl_ago = (\<lambda>_. Some ''t4'')\<rparr>"

definition watched :: resource_id where
  "watched = \<lparr>ri_kind = ''file'', ri_environment = ''prod'', ri_name = ''motd''\<rparr>"

theorem local_store_consistent_witness:
  "store_inv (snd (record_observation quiet watched (observed_absent ''t1'')
     (fold store_step [OpenDriftEvent quiet watched ''warning'' no_change, OpenDriftEvent quiet watched ''critical'' no_change] empty_store)))"
proof -
  let ?s = "fold store_step [OpenDriftEvent quiet watched ''warning'' no_change, OpenDriftEvent quiet watched ''critical'' no_change] empty_store"
  have "record_observation quiet watched (observed_absent ''t1'') ?s = (Inr (), snd (record_observation quiet watched (observed_absent ''t1'') ?s))"
    by (simp add: record_observation_def Let_def bindA_def execute_def quiet_def)
  from local_store_consistent [OF this] show ?thesis by blast
qed

end
