(* ===== verification/Capabilities.thy ===== *)
theory Capabilities
  imports Provider_Api
begin

text \<open>
  The agent's capability rules (\<open>iac-agent/src/capabilities.rs\<close>) and the watcher that reloads them
  (\<open>capabilities_watcher_loop\<close> of \<open>agent.rs\<close>). Glob patterns are compiled by a library, given here as a
  function from a pattern to its matcher; a set of globs matches what one of its members matches. The
  YAML parser is given too.
\<close>

section \<open>Rules\<close>

datatype default_kind_policy = AllowKind | DenyKind

type_synonym glob_set = "string \<Rightarrow> bool"

record path_rules =
  pa_allow :: "glob_set option"
  pa_deny :: "glob_set option"

record name_rules =
  na_allow :: "glob_set option"

record capabilities =
  cb_default_kind_policy :: default_kind_policy
  cb_files :: path_rules
  cb_nginx_vhost :: path_rules
  cb_systemd :: name_rules
  cb_docker :: name_rules
  cb_packages :: name_rules
  cb_cron :: name_rules

datatype deny_cause = Cause string | KeyError core_error

record deny_reason =
  dn_resource_id :: string
  dn_kind :: string
  dn_identifier :: string
  dn_reason :: deny_cause

definition check_path :: "path_rules \<Rightarrow> string \<Rightarrow> string \<Rightarrow> string \<Rightarrow> (deny_reason, unit) result" where
  "check_path R rid kind p =
     (if (case pa_deny R of Some deny \<Rightarrow> deny p | None \<Rightarrow> False)
      then Inl \<lparr>dn_resource_id = rid, dn_kind = kind, dn_identifier = p, dn_reason = Cause ''matched deny pattern''\<rparr>
      else case pa_allow R of
        Some allow \<Rightarrow> if allow p then Inr ()
          else Inl \<lparr>dn_resource_id = rid, dn_kind = kind, dn_identifier = p, dn_reason = Cause ''no allow pattern matched''\<rparr>
      | None \<Rightarrow> Inr ())"

definition check_name :: "name_rules \<Rightarrow> string \<Rightarrow> string \<Rightarrow> string \<Rightarrow> (deny_reason, unit) result" where
  "check_name R rid kind n =
     (case na_allow R of
        Some allow \<Rightarrow> if allow n then Inr ()
          else Inl \<lparr>dn_resource_id = rid, dn_kind = kind, dn_identifier = n, dn_reason = Cause ''no allow pattern matched''\<rparr>
      | None \<Rightarrow> Inr ())"

definition check_key :: "capabilities \<Rightarrow> string \<Rightarrow> string \<Rightarrow> string \<Rightarrow> (deny_reason, unit) result" where
  "check_key C rid kind key =
     (if kind = ''file'' then check_path (cb_files C) rid ''file'' key
      else if kind = ''nginx.vhost'' then check_path (cb_nginx_vhost C) rid ''nginx.vhost'' key
      else if kind = ''systemd.unit'' then check_name (cb_systemd C) rid ''systemd.unit'' key
      else if kind = ''docker.container'' then check_name (cb_docker C) rid ''docker.container'' key
      else if kind = ''package'' then check_name (cb_packages C) rid ''package'' key
      else if kind = ''cron.job'' then check_name (cb_cron C) rid ''cron.job'' key
      else case cb_default_kind_policy C of
        AllowKind \<Rightarrow> Inr ()
      | DenyKind \<Rightarrow> Inl \<lparr>dn_resource_id = rid, dn_kind = kind, dn_identifier = key,
          dn_reason = Cause ''default_kind_policy=deny and no rules block declared for this kind''\<rparr>)"

definition check_capabilities :: "capabilities \<Rightarrow> 'w registry \<Rightarrow> resource \<Rightarrow> (deny_reason, unit) result" where
  "check_capabilities C reg r =
     (let rid = resource_id_to_string (resource_id_of r) in
      case reg (rs_kind r) of
        None \<Rightarrow> (case cb_default_kind_policy C of
            AllowKind \<Rightarrow> Inr ()
          | DenyKind \<Rightarrow> Inl \<lparr>dn_resource_id = rid, dn_kind = rs_kind r, dn_identifier = ''<unknown-kind>'',
              dn_reason = Cause ''default_kind_policy=deny and no provider registered for this kind''\<rparr>)
      | Some P \<Rightarrow> (case pv_capability_keys P r of
            Inl e \<Rightarrow> Inl \<lparr>dn_resource_id = rid, dn_kind = rs_kind r, dn_identifier = ''<spec-error>'', dn_reason = KeyError e\<rparr>
          | Inr keys \<Rightarrow> if keys = [] then Inr ()
              else bindE (traverse (check_key C rid (rs_kind r)) keys) (\<lambda>_. Inr ())))"

section \<open>The file\<close>

record raw_path_rules =
  rp_allow :: "string list"
  rp_deny :: "string list"

record raw_name_rules =
  rn_allow :: "string list"

record raw_capabilities =
  rc_default_kind_policy :: default_kind_policy
  rc_files :: raw_path_rules
  rc_nginx_vhost :: raw_path_rules
  rc_systemd :: raw_name_rules
  rc_docker :: raw_name_rules
  rc_packages :: raw_name_rules
  rc_cron :: raw_name_rules

datatype capability_error =
    InvalidGlob string string
  | BuildingGlobset string
  | ReadingCapabilities string
  | ParsingCapabilities

record globs =
  gl_new :: "string \<Rightarrow> (string \<Rightarrow> bool) option"
  gl_build :: "string list \<Rightarrow> bool"

definition build_set :: "globs \<Rightarrow> string list \<Rightarrow> string \<Rightarrow> (capability_error, glob_set option) result" where
  "build_set G patterns section =
     (if patterns = [] then Inr None
      else bindE (traverse (\<lambda>p. ok_or (gl_new G p) (InvalidGlob section p)) patterns) (\<lambda>matchers.
        if gl_build G patterns then Inr (Some (\<lambda>x. list_ex (\<lambda>m. m x) matchers)) else Inl (BuildingGlobset section)))"

definition compile_paths :: "globs \<Rightarrow> raw_path_rules \<Rightarrow> string \<Rightarrow> (capability_error, path_rules) result" where
  "compile_paths G R section =
     bindE (build_set G (rp_allow R) (section @ ''.allow'')) (\<lambda>allow.
     bindE (build_set G (rp_deny R) (section @ ''.deny'')) (\<lambda>deny.
       Inr \<lparr>pa_allow = allow, pa_deny = deny\<rparr>))"

definition compile_names :: "globs \<Rightarrow> raw_name_rules \<Rightarrow> string \<Rightarrow> (capability_error, name_rules) result" where
  "compile_names G R section =
     bindE (build_set G (rn_allow R) (section @ ''.allow'')) (\<lambda>allow. Inr \<lparr>na_allow = allow\<rparr>)"

definition compile_capabilities :: "globs \<Rightarrow> raw_capabilities \<Rightarrow> (capability_error, capabilities) result" where
  "compile_capabilities G raw =
     bindE (compile_paths G (rc_files raw) ''files'') (\<lambda>files.
     bindE (compile_paths G (rc_nginx_vhost raw) ''nginx_vhost'') (\<lambda>nginx.
     bindE (compile_names G (rc_systemd raw) ''systemd'') (\<lambda>systemd.
     bindE (compile_names G (rc_docker raw) ''docker'') (\<lambda>docker.
     bindE (compile_names G (rc_packages raw) ''packages'') (\<lambda>packages.
     bindE (compile_names G (rc_cron raw) ''cron'') (\<lambda>cron.
       Inr \<lparr>cb_default_kind_policy = rc_default_kind_policy raw, cb_files = files, cb_nginx_vhost = nginx,
            cb_systemd = systemd, cb_docker = docker, cb_packages = packages, cb_cron = cron\<rparr>))))))"

text \<open>What the path holds: \<open>Path::exists\<close> is false, reading fails, or a text.\<close>

datatype capabilities_file = NoFile | Unreadable string | FileText string

definition load_capabilities :: "globs \<Rightarrow> (string \<Rightarrow> raw_capabilities option) \<Rightarrow> capabilities_file
    \<Rightarrow> (capability_error, capabilities option) result" where
  "load_capabilities G parse file =
     (case file of
        NoFile \<Rightarrow> Inr None
      | Unreadable e \<Rightarrow> Inl (ReadingCapabilities e)
      | FileText t \<Rightarrow>
          bindE (ok_or (parse t) ParsingCapabilities) (\<lambda>raw.
          bindE (compile_capabilities G raw) (\<lambda>C. Inr (Some C))))"

section \<open>The watcher\<close>

record watcher =
  wt_last_seen_mtime :: "nat option"
  wt_capabilities :: "capabilities option"

definition capabilities_watcher_tick :: "globs \<Rightarrow> (string \<Rightarrow> raw_capabilities option) \<Rightarrow> nat option \<times> capabilities_file \<Rightarrow> watcher \<Rightarrow> watcher" where
  "capabilities_watcher_tick G parse seen w =
     (if fst seen = wt_last_seen_mtime w then w
      else w\<lparr>wt_last_seen_mtime := fst seen,
             wt_capabilities := (case load_capabilities G parse (snd seen) of Inr (Some C) \<Rightarrow> Some C | _ \<Rightarrow> wt_capabilities w)\<rparr>)"

section \<open>What the rules permit\<close>

definition matches_some :: "globs \<Rightarrow> string list \<Rightarrow> string \<Rightarrow> bool" where
  "matches_some G patterns x \<longleftrightarrow> list_ex (\<lambda>p. case gl_new G p of Some m \<Rightarrow> m x | None \<Rightarrow> False) patterns"

definition path_permitted :: "globs \<Rightarrow> raw_path_rules \<Rightarrow> string \<Rightarrow> bool" where
  "path_permitted G R x \<longleftrightarrow> \<not> matches_some G (rp_deny R) x \<and> (rp_allow R = [] \<or> matches_some G (rp_allow R) x)"

definition name_permitted :: "globs \<Rightarrow> raw_name_rules \<Rightarrow> string \<Rightarrow> bool" where
  "name_permitted G R x \<longleftrightarrow> rn_allow R = [] \<or> matches_some G (rn_allow R) x"

definition rules_of :: "globs \<Rightarrow> raw_capabilities \<Rightarrow> (string \<times> (string \<Rightarrow> bool)) list" where
  "rules_of G raw =
     [(''file'', path_permitted G (rc_files raw)), (''nginx.vhost'', path_permitted G (rc_nginx_vhost raw)),
      (''systemd.unit'', name_permitted G (rc_systemd raw)), (''docker.container'', name_permitted G (rc_docker raw)),
      (''package'', name_permitted G (rc_packages raw)), (''cron.job'', name_permitted G (rc_cron raw))]"

definition permitted :: "globs \<Rightarrow> raw_capabilities \<Rightarrow> string \<Rightarrow> string \<Rightarrow> bool" where
  "permitted G raw kind key =
     (case map_of (rules_of G raw) kind of Some p \<Rightarrow> p key | None \<Rightarrow> rc_default_kind_policy raw = AllowKind)"

lemma build_set_matches:
  assumes "build_set G patterns section = Inr s"
  shows "case s of None \<Rightarrow> patterns = [] | Some f \<Rightarrow> patterns \<noteq> [] \<and> (\<forall>x. f x \<longleftrightarrow> matches_some G patterns x)"
proof (cases "patterns = []")
  case False
  with assms obtain ms where ms: "list_all2 (\<lambda>p m. ok_or (gl_new G p) (InvalidGlob section p) = Inr m) patterns ms"
      and s: "s = Some (\<lambda>x. list_ex (\<lambda>m. m x) ms)"
    by (auto simp: build_set_def traverse_Inr_iff split: if_splits elim!: bindE_InrE)
  have "list_ex (\<lambda>m. m x) ms \<longleftrightarrow> matches_some G patterns x" for x
    using ms by (induction rule: list_all2_induct) (auto simp: matches_some_def ok_or_def split: option.splits)
  with False s show ?thesis by simp
qed (use assms in \<open>simp add: build_set_def\<close>)

lemma check_path_exact:
  assumes "compile_paths G R section = Inr S"
  shows "check_path S rid kind p = Inr () \<longleftrightarrow> path_permitted G R p"
proof -
  obtain a d where "build_set G (rp_allow R) (section @ ''.allow'') = Inr a" "build_set G (rp_deny R) (section @ ''.deny'') = Inr d"
    and S: "S = \<lparr>pa_allow = a, pa_deny = d\<rparr>"
    using assms by (auto simp: compile_paths_def elim!: bindE_InrE)
  from this(1,2) [THEN build_set_matches] show ?thesis
    by (cases a; cases d) (simp_all add: S check_path_def path_permitted_def matches_some_def)
qed

lemma check_name_exact:
  assumes "compile_names G R section = Inr S"
  shows "check_name S rid kind n = Inr () \<longleftrightarrow> name_permitted G R n"
proof -
  obtain a where "build_set G (rn_allow R) (section @ ''.allow'') = Inr a" and S: "S = \<lparr>na_allow = a\<rparr>"
    using assms by (auto simp: compile_names_def elim!: bindE_InrE)
  from this(1) [THEN build_set_matches] show ?thesis
    by (cases a) (simp_all add: S check_name_def name_permitted_def)
qed

lemma check_key_exact:
  assumes "compile_capabilities G raw = Inr C"
  shows "check_key C rid kind key = Inr () \<longleftrightarrow> permitted G raw kind key"
proof -
  obtain f n s d p c where c: "compile_paths G (rc_files raw) ''files'' = Inr f" "compile_paths G (rc_nginx_vhost raw) ''nginx_vhost'' = Inr n"
      "compile_names G (rc_systemd raw) ''systemd'' = Inr s" "compile_names G (rc_docker raw) ''docker'' = Inr d"
      "compile_names G (rc_packages raw) ''packages'' = Inr p" "compile_names G (rc_cron raw) ''cron'' = Inr c"
    and C: "C = \<lparr>cb_default_kind_policy = rc_default_kind_policy raw, cb_files = f, cb_nginx_vhost = n,
            cb_systemd = s, cb_docker = d, cb_packages = p, cb_cron = c\<rparr>"
    using assms by (auto simp: compile_capabilities_def elim!: bindE_InrE)
  show ?thesis
    unfolding check_key_def permitted_def rules_of_def C
    by (simp add: check_path_exact [OF c(1)] check_path_exact [OF c(2)] check_name_exact [OF c(3)] check_name_exact [OF c(4)]
        check_name_exact [OF c(5)] check_name_exact [OF c(6)] split: default_kind_policy.splits)
qed

lemma traverse_units: "bindE (traverse f xs) (\<lambda>_. Inr ()) = Inr () \<longleftrightarrow> (\<forall>x \<in> set xs. f x = Inr ())"
  by (induction xs) (auto simp: bindE_def split: sum.splits)

text \<open>
  C15. The capability check decides exactly what the operator's rules say. With a rule file that
  compiles, a resource for which its provider, if there is one, names at least one key or fails to name
  keys passes if, and only if, every key is permitted: no deny pattern of its kind matches, and an allow
  pattern does, unless none is declared; kinds without rules, and kinds no provider serves, follow the
  default policy; a resource whose keys cannot be derived is refused. A provider that names no key is
  outside the claim: what the code does then and what the provider interface documents differ.
\<close>

theorem capability_gate_exact:
  assumes "compile_capabilities G raw = Inr C"
    and keyed: "\<And>P. reg (rs_kind r) = Some P \<Longrightarrow> pv_capability_keys P r \<noteq> Inr []"
  shows "check_capabilities C reg r = Inr () \<longleftrightarrow>
    (case reg (rs_kind r) of
       None \<Rightarrow> rc_default_kind_policy raw = AllowKind
     | Some P \<Rightarrow> (case pv_capability_keys P r of Inl _ \<Rightarrow> False
         | Inr keys \<Rightarrow> \<forall>key \<in> set keys. permitted G raw (rs_kind r) key))"
proof -
  have "cb_default_kind_policy C = rc_default_kind_policy raw"
    using assms(1) by (auto simp: compile_capabilities_def elim!: bindE_InrE)
  then show ?thesis
    using keyed traverse_units [of "check_key C (resource_id_to_string (resource_id_of r)) (rs_kind r)"]
    by (auto simp: check_capabilities_def Let_def check_key_exact [OF assms(1)] split: option.splits sum.splits default_kind_policy.splits)
qed

text \<open>A resource whose provider names no key passes whatever the default policy is.\<close>

lemma keyless_unrestricted:
  assumes "reg (rs_kind r) = Some P" "pv_capability_keys P r = Inr []"
  shows "check_capabilities C reg r = Inr ()"
  using assms by (simp add: check_capabilities_def)

text \<open>
  Reloading fails closed. Once rules are in force, no sequence of edits, deletions and unreadable or
  malformed versions of the file lifts them: the rules in force are the first ones or those of a
  version the watcher loaded completely.
\<close>

theorem reload_fails_closed:
  assumes "wt_capabilities w = Some C"
  shows "\<exists>D. wt_capabilities (fold (capabilities_watcher_tick G parse) ticks w) = Some D
    \<and> (D = C \<or> (\<exists>seen \<in> set ticks. load_capabilities G parse (snd seen) = Inr (Some D)))"
  using assms
proof (induction ticks arbitrary: w C)
  case (Cons seen ticks)
  let ?w = "capabilities_watcher_tick G parse seen w"
  have "\<exists>B. wt_capabilities ?w = Some B \<and> (B = C \<or> load_capabilities G parse (snd seen) = Inr (Some B))"
    using Cons.prems by (auto simp: capabilities_watcher_tick_def split: sum.splits option.splits)
  then obtain B where B: "wt_capabilities ?w = Some B" "B = C \<or> load_capabilities G parse (snd seen) = Inr (Some B)" by blast
  from Cons.IH [OF B(1)] B(2) show ?case by auto
qed simp

section \<open>Samples\<close>

definition literal_globs :: globs where
  "literal_globs = \<lparr>gl_new = (\<lambda>p. if p = ''['' then None else Some (\<lambda>x. x = p)), gl_build = (\<lambda>_. True)\<rparr>"

definition sample_raw :: raw_capabilities where
  "sample_raw = \<lparr>rc_default_kind_policy = DenyKind, rc_files = \<lparr>rp_allow = [''/a'', ''/b''], rp_deny = [''/b'']\<rparr>,
     rc_nginx_vhost = \<lparr>rp_allow = [], rp_deny = []\<rparr>, rc_systemd = \<lparr>rn_allow = []\<rparr>, rc_docker = \<lparr>rn_allow = []\<rparr>,
     rc_packages = \<lparr>rn_allow = []\<rparr>, rc_cron = \<lparr>rn_allow = []\<rparr>\<rparr>"

lemma sample_compiles: "\<exists>C. compile_capabilities literal_globs sample_raw = Inr C"
  by (simp add: compile_capabilities_def compile_paths_def compile_names_def build_set_def literal_globs_def sample_raw_def ok_or_def)

definition keyed_provider :: "unit provider" where
  "keyed_provider = \<lparr>pv_kind = ''file'', pv_observe = (\<lambda>r. doing (observed_absent [])), pv_diff = (\<lambda>w r obs. Inr no_change),
     pv_plan = (\<lambda>ids r d. Inr []), pv_pre_apply = (\<lambda>r s ctx. doing JNull), pv_apply = (\<lambda>r s ctx. doing (result_ok (Msg [] []))),
     pv_verify = (\<lambda>r. doing VMatch), pv_rollback = (\<lambda>r cp p. doing ()),
     pv_capability_keys = (\<lambda>r. Inr [md_name (rs_metadata r)])\<rparr>"

definition keyed_resource :: "string \<Rightarrow> resource" where
  "keyed_resource n = \<lparr>rs_api_version = ''iac.example/v1'', rs_kind = ''file'',
     rs_metadata = \<lparr>md_name = n, md_environment = ''prod'', md_owner = None, md_labels = [], md_annotations = []\<rparr>,
     rs_spec = JNull, rs_policy = JNull\<rparr>"

theorem capability_gate_exact_witness:
  "\<exists>C. compile_capabilities literal_globs sample_raw = Inr C
     \<and> check_capabilities C (register keyed_provider Map.empty) (keyed_resource ''/a'') = Inr ()
     \<and> check_capabilities C (register keyed_provider Map.empty) (keyed_resource ''/b'') \<noteq> Inr ()"
proof -
  obtain C where C: "compile_capabilities literal_globs sample_raw = Inr C" using sample_compiles by blast
  have keyed: "\<And>P. register keyed_provider Map.empty (rs_kind r) = Some P \<Longrightarrow> pv_capability_keys P r \<noteq> Inr []" for r
    by (auto simp: register_def keyed_provider_def split: if_splits)
  show ?thesis
    using C capability_gate_exact [OF C, of "register keyed_provider Map.empty" "keyed_resource ''/a''", OF keyed]
      capability_gate_exact [OF C, of "register keyed_provider Map.empty" "keyed_resource ''/b''", OF keyed]
    by (auto simp: register_def keyed_provider_def keyed_resource_def permitted_def rules_of_def path_permitted_def matches_some_def
        literal_globs_def sample_raw_def)
qed

theorem reload_fails_closed_witness:
  "\<exists>C D. compile_capabilities literal_globs sample_raw = Inr C
     \<and> wt_capabilities (fold (capabilities_watcher_tick literal_globs (\<lambda>t. None)) [(None, NoFile), (Some 2, FileText ''{'')]
         \<lparr>wt_last_seen_mtime = Some 1, wt_capabilities = Some C\<rparr>) = Some D"
proof -
  obtain C where "compile_capabilities literal_globs sample_raw = Inr C" using sample_compiles by blast
  with reload_fails_closed [of "\<lparr>wt_last_seen_mtime = Some 1, wt_capabilities = Some C\<rparr>" C literal_globs "\<lambda>t. None"
      "[(None, NoFile), (Some 2, FileText ''{'')]"]
  show ?thesis by (auto simp del: fold_simps)
qed

end
