(* ===== verification/Rate_Limit.thy ===== *)
theory Rate_Limit
  imports Iac_Prelude "HOL-Library.Word"
begin

text \<open>
  The in-process rate limiter (\<open>rate_limit.rs\<close>): one queue of admission instants per bucket, a
  sixty-second sliding window, caps that are reloaded without touching the queues, and the atomic
  two-phase check over a batch of policies. Instants are nanoseconds; a call takes its own reading
  of the clock. The calls change the queues and the counters even when they refuse, so each returns
  the new limiter beside its result.
\<close>

section \<open>Configuration and state\<close>

record rate_limit_config =
  rc_operations_per_minute :: "nat option"
  rc_agent_requests_per_minute :: "nat option"
  rc_login_per_minute_per_user :: "nat option"
  rc_login_per_minute_per_ip :: "nat option"
  rc_register_per_minute_per_ip :: "nat option"

record rate_limiter =
  rl_max_per_minute :: nat
  rl_agent_max :: nat
  rl_login_user_max :: nat
  rl_login_ip_max :: nat
  rl_register_ip_max :: nat
  rl_state :: "string \<rightharpoonup> nat list"
  rl_checks :: "64 word"
  rl_rejected :: "64 word"

definition norm_cap :: "nat option \<Rightarrow> nat" where
  "norm_cap cap = (case cap of Some n \<Rightarrow> if 0 < n then n else 0 | None \<Rightarrow> 0)"

definition from_config :: "rate_limit_config \<Rightarrow> rate_limiter" where
  "from_config cfg =
     \<lparr>rl_max_per_minute = norm_cap (rc_operations_per_minute cfg),
      rl_agent_max = norm_cap (rc_agent_requests_per_minute cfg),
      rl_login_user_max = norm_cap (rc_login_per_minute_per_user cfg),
      rl_login_ip_max = norm_cap (rc_login_per_minute_per_ip cfg),
      rl_register_ip_max = norm_cap (rc_register_per_minute_per_ip cfg),
      rl_state = Map.empty, rl_checks = 0, rl_rejected = 0\<rparr>"

definition apply_config :: "rate_limit_config \<Rightarrow> rate_limiter \<Rightarrow> rate_limiter" where
  "apply_config cfg L = L\<lparr>rl_max_per_minute := norm_cap (rc_operations_per_minute cfg),
      rl_agent_max := norm_cap (rc_agent_requests_per_minute cfg),
      rl_login_user_max := norm_cap (rc_login_per_minute_per_user cfg),
      rl_login_ip_max := norm_cap (rc_login_per_minute_per_ip cfg),
      rl_register_ip_max := norm_cap (rc_register_per_minute_per_ip cfg)\<rparr>"

section \<open>Buckets\<close>

record rate_limit_bucket =
  bk_type :: string
  bk_name :: string

definition bucket_env :: "string \<Rightarrow> rate_limit_bucket" where
  "bucket_env name = \<lparr>bk_type = ''env'', bk_name = name\<rparr>"

definition bucket_policy :: "string \<Rightarrow> rate_limit_bucket" where
  "bucket_policy name = \<lparr>bk_type = ''policy'', bk_name = name\<rparr>"

definition bucket_agent :: "string \<Rightarrow> rate_limit_bucket" where
  "bucket_agent name = \<lparr>bk_type = ''agent'', bk_name = name\<rparr>"

definition bucket_login_user :: "string \<Rightarrow> rate_limit_bucket" where
  "bucket_login_user name = \<lparr>bk_type = ''login_user'', bk_name = name\<rparr>"

definition bucket_client :: "string \<Rightarrow> rate_limit_bucket" where
  "bucket_client name = \<lparr>bk_type = ''client'', bk_name = name\<rparr>"

definition bucket_register_ip :: "string \<Rightarrow> rate_limit_bucket" where
  "bucket_register_ip name = \<lparr>bk_type = ''register_ip'', bk_name = name\<rparr>"

definition bucket_key :: "rate_limit_bucket \<Rightarrow> string" where
  "bucket_key b = bk_type b @ '':'' @ bk_name b"

section \<open>The sliding window\<close>

definition window :: nat where
  "window = 60000000000"

definition checked_sub_window :: "nat \<Rightarrow> nat option" where
  "checked_sub_window now = (if window \<le> now then Some (now - window) else None)"

text \<open>\<open>while let Some(&t) = q.front() { if t < cutoff { pop } else { break } }\<close>\<close>

fun pop_expired :: "nat \<Rightarrow> nat list \<Rightarrow> nat list" where
  "pop_expired cutoff [] = []"
| "pop_expired cutoff (t # q) = (if t < cutoff then pop_expired cutoff q else t # q)"

definition prune :: "nat \<Rightarrow> nat list \<Rightarrow> nat list" where
  "prune now q = (case checked_sub_window now of None \<Rightarrow> q | Some cutoff \<Rightarrow> pop_expired cutoff q)"

definition retry_secs :: "nat \<Rightarrow> nat list \<Rightarrow> nat" where
  "retry_secs now q = max 1 (case q of [] \<Rightarrow> 60 | t # _ \<Rightarrow> 60 - (now - t) div 1000000000)"

definition queue_of :: "rate_limiter \<Rightarrow> string \<Rightarrow> nat list" where
  "queue_of L key = (case rl_state L key of None \<Rightarrow> [] | Some q \<Rightarrow> q)"

definition too_many :: "rate_limit_bucket \<Rightarrow> nat \<Rightarrow> nat list \<Rightarrow> api_error" where
  "too_many b now q = TooManyRequests (bk_type b) (bk_name b) (retry_secs now q)"

definition check_and_record_keyed_at ::
    "rate_limit_bucket \<Rightarrow> nat \<Rightarrow> nat \<Rightarrow> rate_limiter \<Rightarrow> rate_limiter \<times> unit api_result" where
  "check_and_record_keyed_at b cap now L =
     (let key = bucket_key b;
          q = prune now (queue_of L key);
          L1 = L\<lparr>rl_checks := rl_checks L + 1\<rparr>
      in if cap \<le> length q
         then (L1\<lparr>rl_state := (rl_state L)(key \<mapsto> q), rl_rejected := rl_rejected L + 1\<rparr>, Inl (too_many b now q))
         else (L1\<lparr>rl_state := (rl_state L)(key \<mapsto> q @ [now])\<rparr>, Inr ()))"

section \<open>The callers\<close>

definition check_and_record :: "string \<Rightarrow> nat \<Rightarrow> rate_limiter \<Rightarrow> rate_limiter \<times> unit api_result" where
  "check_and_record environment now L =
     (if rl_max_per_minute L = 0 then (L, Inr ())
      else check_and_record_keyed_at (bucket_env environment) (rl_max_per_minute L) now L)"

definition check_and_record_agent :: "string \<Rightarrow> nat \<Rightarrow> rate_limiter \<Rightarrow> rate_limiter \<times> unit api_result" where
  "check_and_record_agent agent_id now L =
     (if rl_agent_max L = 0 then (L, Inr ())
      else check_and_record_keyed_at (bucket_agent agent_id) (rl_agent_max L) now L)"

definition check_and_record_register :: "string \<Rightarrow> nat \<Rightarrow> rate_limiter \<Rightarrow> rate_limiter \<times> unit api_result" where
  "check_and_record_register client_ip now L =
     (if rl_register_ip_max L = 0 then (L, Inr ())
      else check_and_record_keyed_at (bucket_register_ip (if trim client_ip = [] then ''unknown'' else client_ip))
             (rl_register_ip_max L) now L)"

definition check_and_record_login :: "string \<Rightarrow> string \<Rightarrow> nat \<Rightarrow> nat \<Rightarrow> rate_limiter \<Rightarrow> rate_limiter \<times> unit api_result" where
  "check_and_record_login username client_ip now1 now2 L =
     (let (L1, r1) = (if 0 < rl_login_user_max L
                      then check_and_record_keyed_at (bucket_login_user username) (rl_login_user_max L) now1 L
                      else (L, Inr ()))
      in case r1 of
           Inl e \<Rightarrow> (L1, Inl e)
         | Inr _ \<Rightarrow> if 0 < rl_login_ip_max L1
                   then check_and_record_keyed_at (bucket_client client_ip) (rl_login_ip_max L1) now2 L1
                   else (L1, Inr ()))"

text \<open>The policy batch: every bucket is tested before any is charged.\<close>

fun test_policies :: "nat \<Rightarrow> (rate_limit_bucket \<times> nat) list \<Rightarrow> rate_limiter \<Rightarrow> rate_limiter \<times> unit api_result" where
  "test_policies now [] L = (L, Inr ())"
| "test_policies now ((b, cap) # rest) L =
     (let key = bucket_key b;
          q = prune now (queue_of L key);
          L1 = L\<lparr>rl_checks := rl_checks L + 1, rl_state := (rl_state L)(key \<mapsto> q)\<rparr>
      in if cap \<le> length q
         then (L1\<lparr>rl_rejected := rl_rejected L1 + 1\<rparr>, Inl (too_many b now q))
         else test_policies now rest L1)"

definition charge :: "nat \<Rightarrow> rate_limit_bucket \<Rightarrow> rate_limiter \<Rightarrow> rate_limiter" where
  "charge now b L = L\<lparr>rl_state := (rl_state L)(bucket_key b \<mapsto> queue_of L (bucket_key b) @ [now])\<rparr>"

definition active_policies :: "(string \<times> nat) list \<Rightarrow> (rate_limit_bucket \<times> nat) list" where
  "active_policies policies = map (\<lambda>(name, cap). (bucket_policy name, cap)) (filter (\<lambda>(name, cap). 0 < cap) policies)"

definition check_and_record_policies :: "(string \<times> nat) list \<Rightarrow> nat \<Rightarrow> rate_limiter \<Rightarrow> rate_limiter \<times> unit api_result" where
  "check_and_record_policies policies now L =
     (let active = active_policies policies
      in if active = [] then (L, Inr ())
         else case test_policies now active L of
             (L1, Inl e) \<Rightarrow> (L1, Inl e)
           | (L1, Inr _) \<Rightarrow> (fold (\<lambda>(b, cap). charge now b) active L1, Inr ()))"

section \<open>The reference limiter\<close>

text \<open>
  The reference keeps the whole admission history of every bucket and counts the admissions of the
  last sixty seconds, the instant sixty seconds ago included.
\<close>

type_synonym history = "string \<Rightarrow> nat list"

definition in_window :: "nat \<Rightarrow> nat list \<Rightarrow> nat list" where
  "in_window now h = filter (\<lambda>t. now \<le> t + window) h"

definition spec_single :: "rate_limit_bucket \<Rightarrow> nat \<Rightarrow> nat \<Rightarrow> history \<Rightarrow> history \<times> unit api_result" where
  "spec_single b cap now h =
     (let w = in_window now (h (bucket_key b))
      in if cap \<le> length w then (h, Inl (too_many b now w)) else (h(bucket_key b := h (bucket_key b) @ [now]), Inr ()))"

definition spec_policies :: "(string \<times> nat) list \<Rightarrow> nat \<Rightarrow> history \<Rightarrow> history \<times> unit api_result" where
  "spec_policies policies now h =
     (case find (\<lambda>(b, cap). cap \<le> length (in_window now (h (bucket_key b)))) (active_policies policies) of
        Some (b, cap) \<Rightarrow> (h, Inl (too_many b now (in_window now (h (bucket_key b)))))
      | None \<Rightarrow> (fold (\<lambda>(b, cap) h. h(bucket_key b := h (bucket_key b) @ [now])) (active_policies policies) h, Inr ()))"

datatype limit_call = Single rate_limit_bucket nat nat | Policies "(string \<times> nat) list" nat

fun call_time :: "limit_call \<Rightarrow> nat" where
  "call_time (Single b cap now) = now"
| "call_time (Policies ps now) = now"

fun limiter_step :: "limit_call \<Rightarrow> rate_limiter \<Rightarrow> rate_limiter \<times> unit api_result" where
  "limiter_step (Single b cap now) L = check_and_record_keyed_at b cap now L"
| "limiter_step (Policies ps now) L = check_and_record_policies ps now L"

fun spec_call :: "limit_call \<Rightarrow> history \<Rightarrow> history \<times> unit api_result" where
  "spec_call (Single b cap now) h = spec_single b cap now h"
| "spec_call (Policies ps now) h = spec_policies ps now h"

fun run_calls :: "('c \<Rightarrow> 's \<Rightarrow> 's \<times> 'r) \<Rightarrow> 'c list \<Rightarrow> 's \<Rightarrow> 's \<times> 'r list" where
  "run_calls f [] s = (s, [])"
| "run_calls f (c # cs) s = (let (s1, r) = f c s; (s2, rs) = run_calls f cs s1 in (s2, r # rs))"

section \<open>Simulation\<close>

text \<open>Two machines that answer alike on every call, as long as the calls come in time order, answer
  alike on every sequence.\<close>

locale timed_simulation =
  fixes cstep :: "'c \<Rightarrow> 's \<Rightarrow> 's \<times> 'r"
    and astep :: "'c \<Rightarrow> 'a \<Rightarrow> 'a \<times> 'r"
    and rel :: "nat \<Rightarrow> 's \<Rightarrow> 'a \<Rightarrow> bool"
    and time :: "'c \<Rightarrow> nat"
  assumes answer: "rel t s a \<Longrightarrow> t \<le> time c \<Longrightarrow> snd (cstep c s) = snd (astep c a)"
    and related: "rel t s a \<Longrightarrow> t \<le> time c \<Longrightarrow> rel (time c) (fst (cstep c s)) (fst (astep c a))"
begin

lemma runs_agree: "rel t s a \<Longrightarrow> sorted (t # map time cs) \<Longrightarrow> snd (run_calls cstep cs s) = snd (run_calls astep cs a)"
proof (induction cs arbitrary: t s a)
  case (Cons c cs)
  have le: "t \<le> time c" and sorted: "sorted (time c # map time cs)" using Cons.prems(2) by auto
  show ?case
    using Cons.IH [OF related [OF Cons.prems(1) le] sorted] answer [OF Cons.prems(1) le]
    by (simp add: case_prod_beta Let_def)
qed simp

end

definition keeps_window :: "nat \<Rightarrow> rate_limiter \<Rightarrow> history \<Rightarrow> bool" where
  "keeps_window now L h \<longleftrightarrow> (\<forall>key. sorted (h key) \<and> (\<forall>t \<in> set (h key). t \<le> now)
     \<and> (\<exists>c \<le> now - window. queue_of L key = filter (\<lambda>t. c \<le> t) (h key)))"

lemma pop_expired_filter: "sorted q \<Longrightarrow> pop_expired c q = filter (\<lambda>t. c \<le> t) q"
proof (induction q)
  case (Cons t q)
  show ?case
  proof (cases "t < c")
    case False
    with Cons.prems have "\<forall>x \<in> set q. c \<le> x" by auto
    with False show ?thesis by simp
  qed (use Cons in simp)
qed simp

lemma prune_sorted: "sorted q \<Longrightarrow> prune now q = in_window now q"
  by (auto simp: prune_def checked_sub_window_def in_window_def pop_expired_filter intro!: filter_cong)

lemma in_window_eq: "in_window now h = filter (\<lambda>t. now - window \<le> t) h"
  by (auto simp: in_window_def intro!: filter_cong)

lemma prune_window:
  assumes "keeps_window t L h" "t \<le> now"
  shows "prune now (queue_of L key) = in_window now (h key)"
proof -
  obtain c where "sorted (h key)" "c \<le> t - window" "queue_of L key = filter (\<lambda>t. c \<le> t) (h key)"
    using assms(1) unfolding keeps_window_def by blast
  moreover have "sorted (filter (\<lambda>t. c \<le> t) (h key))" using \<open>sorted (h key)\<close> by (simp add: sorted_wrt_filter)
  ultimately show ?thesis
    using assms(2) by (auto simp: prune_sorted in_window_eq intro!: filter_cong)
qed

lemma keeps_window_mono:
  assumes "keeps_window t L h" "t \<le> now"
  shows "keeps_window now L h"
  unfolding keeps_window_def
proof
  fix key
  obtain c where "sorted (h key)" "\<forall>x \<in> set (h key). x \<le> t" "c \<le> t - window" "queue_of L key = filter (\<lambda>t. c \<le> t) (h key)"
    using assms(1) unfolding keeps_window_def by blast
  then show "sorted (h key) \<and> (\<forall>x \<in> set (h key). x \<le> now) \<and> (\<exists>c \<le> now - window. queue_of L key = filter (\<lambda>t. c \<le> t) (h key))"
    using assms(2) by (intro conjI exI [of _ c]) auto
qed

lemma keeps_window_cong: "rl_state L' = rl_state L \<Longrightarrow> keeps_window now L' h = keeps_window now L h"
  by (simp add: keeps_window_def queue_of_def)

lemma keeps_window_prune:
  assumes "keeps_window now L h"
  shows "keeps_window now (L\<lparr>rl_state := (rl_state L)(key \<mapsto> in_window now (h key))\<rparr>) h"
  using assms unfolding keeps_window_def in_window_eq by (auto simp: queue_of_def)

lemma keeps_window_push:
  assumes "keeps_window now L h"
  shows "keeps_window now (L\<lparr>rl_state := (rl_state L)(key \<mapsto> queue_of L key @ [now])\<rparr>) (h(key := h key @ [now]))"
proof -
  have "sorted (h key @ [now]) \<and> (\<forall>t \<in> set (h key @ [now]). t \<le> now) \<and> (\<exists>c \<le> now - window. queue_of L key @ [now] = filter (\<lambda>t. c \<le> t) (h key @ [now]))"
    using assms unfolding keeps_window_def by (auto simp: sorted_append dest!: spec [of _ key])
  with assms show ?thesis unfolding keeps_window_def by (simp add: queue_of_def)
qed

lemma single_simulates:
  assumes "keeps_window t L h" "t \<le> now"
  shows "snd (check_and_record_keyed_at b cap now L) = snd (spec_single b cap now h)
    \<and> keeps_window now (fst (check_and_record_keyed_at b cap now L)) (fst (spec_single b cap now h))"
proof -
  let ?k = "bucket_key b"
  have k: "keeps_window now L h" by (rule keeps_window_mono [OF assms])
  define L1 where "L1 = L\<lparr>rl_state := (rl_state L)(?k \<mapsto> in_window now (h ?k))\<rparr>"
  have k1: "keeps_window now L1 h" unfolding L1_def by (rule keeps_window_prune [OF k])
  have q1: "queue_of L1 ?k = in_window now (h ?k)" by (simp add: L1_def queue_of_def)
  have k2: "keeps_window now (L1\<lparr>rl_state := (rl_state L1)(?k \<mapsto> in_window now (h ?k) @ [now])\<rparr>) (h(?k := h ?k @ [now]))"
    using keeps_window_push [OF k1, of ?k] by (simp only: q1)
  show ?thesis
    using k1 k2 unfolding check_and_record_keyed_at_def spec_single_def prune_window [OF assms] Let_def L1_def
    by (auto simp: keeps_window_def queue_of_def)
qed

lemma test_simulates:
  assumes "keeps_window t L h" "t \<le> now"
  shows "keeps_window now (fst (test_policies now ps L)) h
    \<and> snd (test_policies now ps L) = (case find (\<lambda>(b, cap). cap \<le> length (in_window now (h (bucket_key b)))) ps of
        None \<Rightarrow> Inr () | Some (b, cap) \<Rightarrow> Inl (too_many b now (in_window now (h (bucket_key b)))))"
  using assms
proof (induction ps arbitrary: t L)
  case Nil
  then show ?case by (simp add: keeps_window_mono)
next
  case (Cons p ps)
  obtain b cap where p: "p = (b, cap)" by fastforce
  let ?k = "bucket_key b" and ?w = "in_window now (h (bucket_key b))"
  define L1 where "L1 = L\<lparr>rl_checks := rl_checks L + 1, rl_state := (rl_state L)(?k \<mapsto> ?w)\<rparr>"
  have "keeps_window now (L\<lparr>rl_state := (rl_state L)(?k \<mapsto> ?w)\<rparr>) h"
    by (rule keeps_window_prune [OF keeps_window_mono [OF Cons.prems]])
  then have k1: "keeps_window now L1 h" "keeps_window now (L1\<lparr>rl_rejected := n\<rparr>) h" for n
    by (simp_all add: L1_def keeps_window_def queue_of_def)
  have step: "test_policies now (p # ps) L = (if cap \<le> length ?w
      then (L1\<lparr>rl_rejected := rl_rejected L1 + 1\<rparr>, Inl (too_many b now ?w)) else test_policies now ps L1)"
    by (simp add: p prune_window [OF Cons.prems] L1_def Let_def)
  show ?case unfolding step using Cons.IH [OF k1(1)] k1(2) by (simp add: p)
qed

lemma charge_simulates:
  "keeps_window now L h \<Longrightarrow> keeps_window now (fold (\<lambda>(b, cap). charge now b) ps L)
     (fold (\<lambda>(b, cap) h. h(bucket_key b := h (bucket_key b) @ [now])) ps h)"
proof (induction ps arbitrary: L h)
  case (Cons p ps)
  obtain b cap where p: "p = (b, cap)" by fastforce
  show ?case using Cons.IH [OF keeps_window_push [OF Cons.prems, of "bucket_key b"]] by (simp add: p charge_def)
qed simp

lemma policies_simulate:
  assumes "keeps_window t L h" "t \<le> now"
  shows "snd (check_and_record_policies ps now L) = snd (spec_policies ps now h)
    \<and> keeps_window now (fst (check_and_record_policies ps now L)) (fst (spec_policies ps now h))"
proof (cases "active_policies ps = []")
  case True
  then show ?thesis
    using keeps_window_mono [OF assms] by (simp add: check_and_record_policies_def spec_policies_def)
next
  case False
  obtain L1 r where t: "test_policies now (active_policies ps) L = (L1, r)" by fastforce
  note s = test_simulates [OF assms, of "active_policies ps", unfolded t fst_conv snd_conv]
  show ?thesis
  proof (cases "find (\<lambda>(b, cap). cap \<le> length (in_window now (h (bucket_key b)))) (active_policies ps)")
    case None
    then have r: "r = Inr ()" using s by simp
    show ?thesis using False s None
      by (simp add: check_and_record_policies_def t r spec_policies_def charge_simulates)
  next
    case (Some bc)
    then show ?thesis using False s
      by (simp add: check_and_record_policies_def t spec_policies_def case_prod_beta)
  qed
qed

interpretation limiter: timed_simulation limiter_step spec_call keeps_window call_time
proof
  fix t L h c
  assume "keeps_window t L h" "t \<le> call_time c"
  then have "snd (limiter_step c L) = snd (spec_call c h) \<and> keeps_window (call_time c) (fst (limiter_step c L)) (fst (spec_call c h))"
    by (cases c) (simp_all add: single_simulates policies_simulate)
  then show "snd (limiter_step c L) = snd (spec_call c h)" "keeps_window (call_time c) (fst (limiter_step c L)) (fst (spec_call c h))"
    by blast+
qed

lemma rate_limit_sliding:
  assumes "sorted (map call_time calls)"
  shows "snd (run_calls limiter_step calls (from_config cfg)) = snd (run_calls spec_call calls (\<lambda>_. []))"
proof -
  have "keeps_window 0 (from_config cfg) (\<lambda>_. [])" by (simp add: keeps_window_def from_config_def queue_of_def)
  then show ?thesis by (rule limiter.runs_agree) (use assms in simp)
qed

text \<open>
  C38. The limiter is a sliding window. On a fresh limiter, for any calls in time order, on any
  buckets, single or policy batches, and with caps that change between calls, every answer,
  the retry hint included, is the one of the reference that remembers every admission and counts
  those of the last sixty seconds.
\<close>

theorem rate_limit_is_sliding_window:
  assumes "sorted (map call_time calls)"
  shows "snd (run_calls limiter_step calls (from_config cfg)) = snd (run_calls spec_call calls (\<lambda>_. []))"
  by (rule rate_limit_sliding [OF assms])

section \<open>The cap\<close>

text \<open>The instants at which requests on a key were admitted.\<close>

definition admissions :: "string \<Rightarrow> (rate_limit_bucket \<times> nat) list \<Rightarrow> unit api_result list \<Rightarrow> nat list" where
  "admissions key reqs rs = map (\<lambda>((b, t), r). t) (filter (\<lambda>((b, t), r). bucket_key b = key \<and> r = Inr ()) (zip reqs rs))"

definition requests :: "nat \<Rightarrow> (rate_limit_bucket \<times> nat) list \<Rightarrow> limit_call list" where
  "requests cap reqs = map (\<lambda>(b, t). Single b cap t) reqs"

definition within :: "nat \<Rightarrow> nat list \<Rightarrow> nat" where
  "within w ts = length (filter (\<lambda>t. w \<le> t \<and> t \<le> w + window) ts)"

lemma within_push:
  assumes "\<forall>w. within w h \<le> cap" "length (in_window now h) < cap"
  shows "\<forall>w. within w (h @ [now]) \<le> cap"
proof
  fix w
  show "within w (h @ [now]) \<le> cap"
  proof (cases "w \<le> now \<and> now \<le> w + window")
    case True
    have "length (filter (\<lambda>t. w \<le> t \<and> t \<le> w + window) h) = length (filter (\<lambda>t. w \<le> t \<and> t \<le> w + window) (in_window now h))"
      using True by (auto simp: in_window_def intro!: arg_cong [of _ _ length] filter_cong)
    also have "\<dots> \<le> length (in_window now h)" by (rule length_filter_le)
    finally show ?thesis using assms(2) True by (simp add: within_def)
  next
    case False
    then have "within w (h @ [now]) = within w h" by (auto simp: within_def)
    with assms(1) show ?thesis by simp
  qed
qed

lemma spec_run_cap:
  "\<forall>w. within w (h key) \<le> cap \<Longrightarrow> \<forall>w. within w (h key @ admissions key reqs (snd (run_calls spec_call (requests cap reqs) h))) \<le> cap"
proof (induction reqs arbitrary: h)
  case Nil
  then show ?case by (simp add: admissions_def)
next
  case (Cons req reqs)
  obtain b t where req: "req = (b, t)" by fastforce
  obtain h1 r where one: "spec_single b cap t h = (h1, r)" by fastforce
  obtain h2 rs where rest: "run_calls spec_call (requests cap reqs) h1 = (h2, rs)" by fastforce
  have h1: "h1 key = h key @ (if bucket_key b = key \<and> r = Inr () then [t] else [])"
    and ok: "r = Inr () \<Longrightarrow> length (in_window t (h (bucket_key b))) < cap"
    using one by (auto simp: spec_single_def Let_def split: if_splits)
  have "\<forall>w. within w (h1 key) \<le> cap"
    using Cons.prems within_push [of "h key" cap t] ok by (auto simp: h1)
  from Cons.IH [of h1, OF this]
  show ?case by (auto simp: req requests_def one rest [unfolded requests_def] h1 admissions_def split: if_splits)
qed

lemma spec_single_answer:
  "snd (spec_single b cap t h) = Inr () \<or> (\<exists>ty name secs. snd (spec_single b cap t h) = Inl (TooManyRequests ty name secs) \<and> 1 \<le> secs \<and> secs \<le> 60)"
  by (auto simp: spec_single_def Let_def too_many_def retry_secs_def split: list.splits)

lemma spec_run_answers:
  "\<forall>r \<in> set (snd (run_calls spec_call (requests cap reqs) h)).
      r = Inr () \<or> (\<exists>ty name secs. r = Inl (TooManyRequests ty name secs) \<and> 1 \<le> secs \<and> secs \<le> 60)"
proof (induction reqs arbitrary: h)
  case (Cons req reqs)
  obtain b t where req: "req = (b, t)" by fastforce
  obtain h1 r where one: "spec_single b cap t h = (h1, r)" by fastforce
  show ?case
    using Cons.IH [of h1] spec_single_answer [of b cap t h] by (simp add: req requests_def one case_prod_beta)
qed (simp add: requests_def)

text \<open>
  The cap holds in every window. For requests in time order on any buckets, with one cap, no
  closed interval of sixty seconds holds more admissions of a bucket than the cap; a refusal is
  always a \<open>TooManyRequests\<close> whose retry hint is between one and sixty seconds.
\<close>

theorem rate_limit_cap:
  assumes "sorted (map snd reqs)" and "snd (run_calls limiter_step (requests cap reqs) (from_config cfg)) = rs"
  shows "length (filter (\<lambda>t. w \<le> t \<and> t \<le> w + window) (admissions key reqs rs)) \<le> cap
    \<and> (\<forall>r \<in> set rs. r = Inr () \<or> (\<exists>ty name secs. r = Inl (TooManyRequests ty name secs) \<and> 1 \<le> secs \<and> secs \<le> 60))"
proof -
  have "map call_time (requests cap reqs) = map snd reqs" by (simp add: requests_def case_prod_beta)
  then have rs: "rs = snd (run_calls spec_call (requests cap reqs) (\<lambda>_. []))"
    using rate_limit_sliding [of "requests cap reqs" cfg] assms by simp
  have "within w ([] @ admissions key reqs rs) \<le> cap"
    unfolding rs by (rule spec_run_cap [of "\<lambda>_. []" key cap reqs, THEN spec]) (simp add: within_def)
  then show ?thesis using spec_run_answers [of cap reqs "\<lambda>_. []"] unfolding rs within_def by simp
qed

section \<open>Instances\<close>

definition sample_limits :: rate_limit_config where
  "sample_limits = \<lparr>rc_operations_per_minute = Some 2, rc_agent_requests_per_minute = None, rc_login_per_minute_per_user = None,
     rc_login_per_minute_per_ip = None, rc_register_per_minute_per_ip = Some 0\<rparr>"

theorem rate_limit_sliding_witness:
  "snd (run_calls limiter_step [Single (bucket_env ''prod'') 1 5, Policies [(''p'', 1)] 6, Single (bucket_env ''prod'') 1 7]
      (from_config sample_limits)) = [Inr (), Inr (), Inl (TooManyRequests ''env'' ''prod'' 60)]"
  using rate_limit_is_sliding_window [of "[Single (bucket_env ''prod'') 1 5, Policies [(''p'', 1)] 6, Single (bucket_env ''prod'') 1 7]" sample_limits]
  by (simp add: spec_single_def spec_policies_def active_policies_def bucket_env_def bucket_policy_def bucket_key_def
      in_window_def window_def too_many_def retry_secs_def)

theorem rate_limit_cap_witness:
  "length (filter (\<lambda>t. 3 \<le> t \<and> t \<le> 3 + window) (admissions ''env:prod'' [(bucket_env ''prod'', 5), (bucket_env ''prod'', 7)]
      (snd (run_calls limiter_step (requests 1 [(bucket_env ''prod'', 5), (bucket_env ''prod'', 7)]) (from_config sample_limits))))) \<le> 1"
  using rate_limit_cap [of "[(bucket_env ''prod'', 5), (bucket_env ''prod'', 7)]" 1 sample_limits _ 3 "''env:prod''"] by simp

end
