(* ===== verification/Maintenance.thy ===== *)
theory Maintenance
  imports Text_Tools Core_Resource "HOL-Library.Word" "HOL-Library.Code_Target_Numeral"
begin

text \<open>
  Maintenance windows (\<open>maintenance.rs\<close>): absolute intervals and weekly recurring ones, the check at
  submission with its retry hint, the counters, and the report of entries that do not parse. The clock
  library is given: how it reads a timestamp (nanoseconds) and how a time zone breaks an instant into
  civil time.
\<close>

section \<open>The clock library\<close>

datatype weekday = Monday | Tuesday | Wednesday | Thursday | Friday | Saturday | Sunday

record civil =
  cv_weekday :: weekday
  cv_hour :: nat
  cv_minute :: nat
  cv_second :: nat

type_synonym time_zone = "int \<Rightarrow> civil"

record calendar =
  ca_parse :: "string \<Rightarrow> (string, int) result"
  ca_utc :: time_zone
  ca_zone :: "string \<Rightarrow> (string, time_zone) result"

definition seconds :: int where
  "seconds = 1000000000"

section \<open>Windows\<close>

datatype window_kind = Absolute | Recurring

record maintenance_window =
  mw_name :: string
  mw_environment :: string
  mw_start :: string
  mw_end :: string

definition parse_window :: "calendar \<Rightarrow> maintenance_window \<Rightarrow> (int \<times> int) api_result" where
  "parse_window C w =
     bindE (case ca_parse C (mw_start w) of Inr t \<Rightarrow> Inr t
            | Inl e \<Rightarrow> Inl (Internal (Msg ''maintenance_window {}: bad start: {e}'' [mw_name w, e]))) (\<lambda>start.
     bindE (case ca_parse C (mw_end w) of Inr t \<Rightarrow> Inr t
            | Inl e \<Rightarrow> Inl (Internal (Msg ''maintenance_window {}: bad end: {e}'' [mw_name w, e]))) (\<lambda>stop.
       if stop \<le> start then Inl (Internal (Msg ''maintenance_window {}: end must be > start'' [mw_name w]))
       else Inr (start, stop)))"

record recurring_window =
  rw_name :: string
  rw_environment :: string
  rw_weekdays :: "string list"
  rw_start_hhmm :: string
  rw_end_hhmm :: string
  rw_timezone :: "string option"

definition parse_hhmm :: "string \<Rightarrow> (err_msg, nat) result" where
  "parse_hhmm s =
     (case split_once CHR '':'' s of
        (_, None) \<Rightarrow> Inl (Msg ''expected HH:MM, got {s:?}'' [s])
      | (h, Some m) \<Rightarrow>
          bindE (ok_or (parse_unsigned 10 (2 ^ 32) h) (Msg ''bad hour {h:?}'' [h])) (\<lambda>hh.
          bindE (ok_or (parse_unsigned 10 (2 ^ 32) m) (Msg ''bad minute {m:?}'' [m])) (\<lambda>mm.
            if 24 \<le> hh \<or> 60 \<le> mm then Inl (Msg ''HH:MM out of range: {s:?}'' [s]) else Inr (hh * 60 + mm))))"

text \<open>\<open>to_lowercase\<close> on ASCII: no other character has a lower case among the letters of the names.\<close>

definition ascii_lower :: "char \<Rightarrow> char" where
  "ascii_lower c = (let n = (of_char c :: nat) in if 65 \<le> n \<and> n \<le> 90 then char_of (n + 32) else c)"

definition parse_weekday :: "string \<Rightarrow> weekday option" where
  "parse_weekday s =
     map_of [(''mon'', Monday), (''tue'', Tuesday), (''wed'', Wednesday), (''thu'', Thursday), (''fri'', Friday),
       (''sat'', Saturday), (''sun'', Sunday)] (map ascii_lower s)"

record recurring_parsed =
  rp_start_min :: nat
  rp_end_min :: nat
  rp_days :: "weekday list"
  rp_tz :: time_zone

definition named :: "string \<Rightarrow> recurring_window \<Rightarrow> err_msg \<Rightarrow> api_error" where
  "named what w m = (case m of Msg t args \<Rightarrow> Internal (Msg (''recurring_maintenance_window {}: '' @ what @ t) (rw_name w # args)))"

fun parse_days :: "recurring_window \<Rightarrow> string list \<Rightarrow> weekday list api_result" where
  "parse_days w [] = Inr []"
| "parse_days w (d # ds) =
     (case parse_weekday d of
        None \<Rightarrow> Inl (named [] w (Msg ''unknown weekday {d:?}'' [d]))
      | Some wd \<Rightarrow> bindE (parse_days w ds) (\<lambda>wds. Inr (wd # wds)))"

definition window_minute :: "string \<Rightarrow> recurring_window \<Rightarrow> string \<Rightarrow> nat api_result" where
  "window_minute what w s = (case parse_hhmm s of Inr n \<Rightarrow> Inr n | Inl e \<Rightarrow> Inl (named what w e))"

definition window_zone :: "calendar \<Rightarrow> recurring_window \<Rightarrow> time_zone api_result" where
  "window_zone C w =
     (case rw_timezone w of
        None \<Rightarrow> Inr (ca_utc C)
      | Some name \<Rightarrow>
          if name = [] then Inr (ca_utc C)
          else (case ca_zone C name of Inr z \<Rightarrow> Inr z
                | Inl e \<Rightarrow> Inl (named [] w (Msg ''unknown timezone {name:?}: {e}'' [name, e]))))"

definition parse_recurring :: "calendar \<Rightarrow> recurring_window \<Rightarrow> recurring_parsed api_result" where
  "parse_recurring C w =
     bindE (window_minute ''bad start_hhmm: '' w (rw_start_hhmm w)) (\<lambda>start_min.
     bindE (window_minute ''bad end_hhmm: '' w (rw_end_hhmm w)) (\<lambda>end_min.
       if end_min \<le> start_min
       then Inl (named [] w (Msg ''end_hhmm must be > start_hhmm (split overnight windows into two entries)'' []))
       else
         bindE (parse_days w (rw_weekdays w)) (\<lambda>days.
         bindE (window_zone C w) (\<lambda>tz.
           Inr \<lparr>rp_start_min = start_min, rp_end_min = end_min, rp_days = days, rp_tz = tz\<rparr>))))"

section \<open>Counters\<close>

record maintenance_metrics =
  mm_checks :: "64 word"
  mm_blocked_absolute :: "64 word"
  mm_blocked_recurring :: "64 word"
  mm_bypassed :: "64 word"
  mm_misconfigured :: "64 word"
  mm_windows :: "(window_kind \<times> string) \<rightharpoonup> 64 word"

definition is_ok :: "('e, 'a) result \<Rightarrow> bool" where
  "is_ok r = (case r of Inl _ \<Rightarrow> False | Inr _ \<Rightarrow> True)"

definition misconfigured_count :: "calendar \<Rightarrow> maintenance_window list \<Rightarrow> recurring_window list \<Rightarrow> nat" where
  "misconfigured_count C absolute recurring =
     length (filter (\<lambda>w. \<not> is_ok (parse_window C w)) absolute) + length (filter (\<lambda>w. \<not> is_ok (parse_recurring C w)) recurring)"

definition record_misconfigured_count ::
    "calendar \<Rightarrow> maintenance_window list \<Rightarrow> recurring_window list \<Rightarrow> maintenance_metrics \<Rightarrow> maintenance_metrics" where
  "record_misconfigured_count C absolute recurring m = m\<lparr>mm_misconfigured := of_nat (misconfigured_count C absolute recurring)\<rparr>"

definition register_window :: "window_kind \<Rightarrow> string \<Rightarrow> (window_kind \<times> string \<rightharpoonup> 64 word) \<Rightarrow> (window_kind \<times> string \<rightharpoonup> 64 word)" where
  "register_window kind name per = (if per (kind, name) = None then per((kind, name) \<mapsto> 0) else per)"

definition metrics_from_config :: "calendar \<Rightarrow> maintenance_window list \<Rightarrow> recurring_window list \<Rightarrow> maintenance_metrics" where
  "metrics_from_config C absolute recurring =
     (let per1 = fold (\<lambda>w per. if is_ok (parse_window C w) then register_window Absolute (mw_name w) per else per) absolute Map.empty;
          per2 = fold (\<lambda>w per. if is_ok (parse_recurring C w) then register_window Recurring (rw_name w) per else per) recurring per1
      in record_misconfigured_count C absolute recurring
           \<lparr>mm_checks = 0, mm_blocked_absolute = 0, mm_blocked_recurring = 0, mm_bypassed = 0, mm_misconfigured = 0, mm_windows = per2\<rparr>)"

definition record_window_block :: "window_kind \<Rightarrow> string \<Rightarrow> maintenance_metrics \<Rightarrow> maintenance_metrics" where
  "record_window_block kind name m =
     (case mm_windows m (kind, name) of None \<Rightarrow> m | Some c \<Rightarrow> m\<lparr>mm_windows := (mm_windows m)((kind, name) \<mapsto> c + 1)\<rparr>)"

record config_issue =
  ci_kind :: string
  ci_name :: string
  ci_error :: api_error

definition collect_config_issues :: "calendar \<Rightarrow> maintenance_window list \<Rightarrow> recurring_window list \<Rightarrow> config_issue list" where
  "collect_config_issues C absolute recurring =
     concat (map (\<lambda>w. case parse_window C w of Inr _ \<Rightarrow> []
        | Inl e \<Rightarrow> [\<lparr>ci_kind = ''maintenance_window'', ci_name = mw_name w, ci_error = e\<rparr>]) absolute)
   @ concat (map (\<lambda>w. case parse_recurring C w of Inr _ \<Rightarrow> []
        | Inl e \<Rightarrow> [\<lparr>ci_kind = ''recurring_maintenance_window'', ci_name = rw_name w, ci_error = e\<rparr>]) recurring)"

section \<open>The checks\<close>

text \<open>Each returns the counters beside its answer; the reason text carries the name and the end.\<close>

fun check_windows :: "calendar \<Rightarrow> maintenance_window list \<Rightarrow> string \<Rightarrow> int \<Rightarrow> maintenance_metrics
    \<Rightarrow> maintenance_metrics \<times> unit api_result" where
  "check_windows C [] environment now m = (m, Inr ())"
| "check_windows C (w # ws) environment now m =
     (if mw_environment w \<noteq> ''*'' \<and> mw_environment w \<noteq> environment then check_windows C ws environment now m
      else case parse_window C w of
             Inl _ \<Rightarrow> check_windows C ws environment now m
           | Inr (start, stop) \<Rightarrow>
               if start \<le> now \<and> now < stop
               then (record_window_block Absolute (mw_name w) m,
                     Inl (ServiceUnavailable (''maintenance window '' @ mw_name w @ '' is active until '' @ mw_end w)
                       (nat (max 1 (min (24 * 60 * 60) ((stop - now) div seconds))))))
               else check_windows C ws environment now m)"

definition minute_of :: "civil \<Rightarrow> nat" where
  "minute_of z = cv_hour z * 60 + cv_minute z"

fun check_recurring :: "calendar \<Rightarrow> recurring_window list \<Rightarrow> string \<Rightarrow> int \<Rightarrow> maintenance_metrics
    \<Rightarrow> maintenance_metrics \<times> unit api_result" where
  "check_recurring C [] environment now m = (m, Inr ())"
| "check_recurring C (w # ws) environment now m =
     (if rw_environment w \<noteq> ''*'' \<and> rw_environment w \<noteq> environment then check_recurring C ws environment now m
      else case parse_recurring C w of
             Inl _ \<Rightarrow> check_recurring C ws environment now m
           | Inr p \<Rightarrow>
               let z = rp_tz p now in
               if rp_days p \<noteq> [] \<and> cv_weekday z \<notin> set (rp_days p) then check_recurring C ws environment now m
               else if rp_start_min p \<le> minute_of z \<and> minute_of z < rp_end_min p
               then (record_window_block Recurring (rw_name w) m,
                     Inl (ServiceUnavailable (''recurring maintenance window '' @ rw_name w @ '' is active until '' @ rw_end_hhmm w
                           @ '' '' @ (case rw_timezone w of Some z \<Rightarrow> z | None \<Rightarrow> ''UTC''))
                       (max 1 ((rp_end_min p - minute_of z) * 60 + (60 - cv_second z)))))
               else check_recurring C ws environment now m)"

section \<open>What a check decides\<close>

definition fences :: "calendar \<Rightarrow> string \<Rightarrow> int \<Rightarrow> maintenance_window \<Rightarrow> bool" where
  "fences C environment now w \<longleftrightarrow> mw_environment w \<in> {''*'', environment}
     \<and> (\<exists>start stop. parse_window C w = Inr (start, stop) \<and> start \<le> now \<and> now < stop)"

definition recurs :: "calendar \<Rightarrow> string \<Rightarrow> int \<Rightarrow> recurring_window \<Rightarrow> bool" where
  "recurs C environment now w \<longleftrightarrow> rw_environment w \<in> {''*'', environment}
     \<and> (\<exists>p. parse_recurring C w = Inr p \<and> (rp_days p = [] \<or> cv_weekday (rp_tz p now) \<in> set (rp_days p))
          \<and> minute_of (rp_tz p now) \<in> {rp_start_min p ..< rp_end_min p})"

lemma check_windows_open: "snd (check_windows C ws environment now m) = Inr () \<longleftrightarrow> (\<forall>w \<in> set ws. \<not> fences C environment now w)"
  by (induction ws) (auto simp: fences_def split: sum.split)

lemma check_windows_closed:
  "snd (check_windows C ws environment now m) = Inl e \<Longrightarrow> \<exists>w \<in> set ws. \<exists>start stop reason. fences C environment now w
     \<and> parse_window C w = Inr (start, stop) \<and> e = ServiceUnavailable reason (nat (max 1 (min 86400 ((stop - now) div seconds))))"
  by (induction ws) (auto simp: fences_def split: if_splits sum.splits)

lemma check_recurring_open: "snd (check_recurring C ws environment now m) = Inr () \<longleftrightarrow> (\<forall>w \<in> set ws. \<not> recurs C environment now w)"
  by (induction ws) (auto simp: recurs_def Let_def split: sum.split)

lemma check_recurring_closed:
  "snd (check_recurring C ws environment now m) = Inl e \<Longrightarrow> \<exists>w \<in> set ws. \<exists>p reason. recurs C environment now w
     \<and> parse_recurring C w = Inr p \<and> e = ServiceUnavailable reason (max 1 ((rp_end_min p - minute_of (rp_tz p now)) * 60 + (60 - cv_second (rp_tz p now))))"
  by (induction ws) (auto simp: recurs_def Let_def split: if_splits sum.splits)

lemma parse_window_ordered: "parse_window C w = Inr (start, stop) \<Longrightarrow> start < stop"
  by (auto simp: parse_window_def bindE_Inr_iff split: if_splits)

lemma parse_hhmm_range: "parse_hhmm s = Inr n \<Longrightarrow> n < 24 * 60"
  unfolding parse_hhmm_def by (auto elim!: bindE_InrE split: if_splits prod.splits option.splits)

lemma window_minute_range: "window_minute what w s = Inr n \<Longrightarrow> n < 24 * 60"
  by (auto simp: window_minute_def dest: parse_hhmm_range split: sum.splits)

lemma parse_recurring_parts:
  assumes "parse_recurring C w = Inr p"
  shows "window_minute ''bad end_hhmm: '' w (rw_end_hhmm w) = Inr (rp_end_min p)" and "rp_start_min p < rp_end_min p"
    and "window_zone C w = Inr (rp_tz p)"
proof -
  from assms obtain a where a: "bindE (window_minute ''bad end_hhmm: '' w (rw_end_hhmm w)) (\<lambda>end_min.
       if end_min \<le> a then Inl (named [] w (Msg ''end_hhmm must be > start_hhmm (split overnight windows into two entries)'' []))
       else bindE (parse_days w (rw_weekdays w)) (\<lambda>days. bindE (window_zone C w) (\<lambda>tz.
         Inr \<lparr>rp_start_min = a, rp_end_min = end_min, rp_days = days, rp_tz = tz\<rparr>))) = Inr p"
    unfolding parse_recurring_def by (rule bindE_InrE)
  then obtain b where b: "window_minute ''bad end_hhmm: '' w (rw_end_hhmm w) = Inr b" "\<not> b \<le> a"
    "bindE (parse_days w (rw_weekdays w)) (\<lambda>days. bindE (window_zone C w) (\<lambda>tz.
         Inr \<lparr>rp_start_min = a, rp_end_min = b, rp_days = days, rp_tz = tz\<rparr>)) = Inr p"
    by (rule bindE_InrE) (simp split: if_splits)
  from b(3) obtain days tz where "window_zone C w = Inr tz" "p = \<lparr>rp_start_min = a, rp_end_min = b, rp_days = days, rp_tz = tz\<rparr>"
    by (elim bindE_InrE) auto
  with b(1,2) show "window_minute ''bad end_hhmm: '' w (rw_end_hhmm w) = Inr (rp_end_min p)" "rp_start_min p < rp_end_min p"
    "window_zone C w = Inr (rp_tz p)" by simp_all
qed

lemma parse_recurring_range: "parse_recurring C w = Inr p \<Longrightarrow> rp_start_min p < rp_end_min p \<and> rp_end_min p < 24 * 60"
  using parse_recurring_parts window_minute_range by blast

lemma clamp_bounds: "n = nat (max 1 (min 86400 d)) \<Longrightarrow> 1 \<le> n \<and> n \<le> 86400 \<and> (n = 1 \<or> int n \<le> d)" for d :: int
  by (cases "d \<le> 1"; cases "d \<le> 86400") auto

lemma retry_before_end:
  assumes "now < stop" and "n = nat (max 1 (min 86400 ((stop - now) div seconds)))"
  shows "1 \<le> n \<and> n \<le> 86400 \<and> (n = 1 \<or> now + int n * seconds \<le> stop) \<and> (n = 86400 \<or> stop < now + (int n + 1) * seconds)"
proof -
  let ?d = "(stop - now) div seconds"
  note c = clamp_bounds [OF assms(2)]
  have "0 < seconds" by (simp add: seconds_def)
  then have "?d * seconds \<le> stop - now" by (simp add: div_mult_mod_eq minus_mod_eq_div_mult [symmetric])
  moreover have "int n * seconds \<le> ?d * seconds" if "n \<noteq> 1"
    using c that \<open>0 < seconds\<close> by (intro mult_right_mono) simp_all
  ultimately have "n \<noteq> 1 \<Longrightarrow> now + int n * seconds \<le> stop" by linarith
  moreover have "stop < now + (int n + 1) * seconds" if "n \<noteq> 86400"
  proof -
    have "?d \<le> int n" using that assms(2) by (auto simp: max_def min_def split: if_splits)
    then have "(?d + 1) * seconds \<le> (int n + 1) * seconds" using \<open>0 < seconds\<close> by (intro mult_right_mono) simp_all
    moreover have "stop - now < (?d + 1) * seconds"
    proof -
      have "(?d + 1) * seconds = ?d * seconds + seconds" by (simp add: distrib_right)
      then show ?thesis
        using pos_mod_bound [OF \<open>0 < seconds\<close>, of "stop - now"] div_mult_mod_eq [of "stop - now" seconds] by linarith
    qed
    ultimately show ?thesis by linarith
  qed
  ultimately show ?thesis using c by blast
qed

lemma retry_after_end:
  fixes a b s :: nat
  assumes "a < b" "s < 60"
  shows "int (max 1 ((b - a) * 60 + (60 - s))) = (int b - int a) * 60 - int s + 60"
proof -
  have "max 1 ((b - a) * 60 + (60 - s)) = (b - a) * 60 + (60 - s)" using assms by (intro max_absorb2) linarith
  moreover have "int (b - a) = int b - int a" "int (60 - s) = 60 - int s" using assms by simp_all
  ultimately show ?thesis by simp
qed

text \<open>Civil seconds stay below sixty in every zone the library knows.\<close>

definition calendar_wf :: "calendar \<Rightarrow> bool" where
  "calendar_wf C \<longleftrightarrow> (\<forall>t. cv_second (ca_utc C t) < 60) \<and> (\<forall>name z t. ca_zone C name = Inr z \<longrightarrow> cv_second (z t) < 60)"

lemma parse_recurring_second: "calendar_wf C \<Longrightarrow> parse_recurring C w = Inr p \<Longrightarrow> cv_second (rp_tz p t) < 60"
  by (drule parse_recurring_parts(3)) (auto simp: calendar_wf_def window_zone_def split: if_splits sum.splits option.splits)

definition retry_hint :: "api_error \<Rightarrow> nat option" where
  "retry_hint e = (case e of ServiceUnavailable _ n \<Rightarrow> Some n | _ \<Rightarrow> None)"

text \<open>
  C29. Maintenance windows. A submission passes the two checks exactly when no window that is for its
  environment and parses is open: an absolute one between its start and its end, a recurring one on its
  weekdays and between its minutes in its own time zone. A refusal is a 503 with a retry hint of at least
  a second: for an absolute window the whole seconds left, at most a day; for a recurring window a time
  that reaches its end and overshoots it by a minute at most.
\<close>

theorem maintenance_checks_exact:
  assumes "calendar_wf C"
  shows "(snd (check_windows C ws environment now m) = Inr () \<longleftrightarrow> (\<forall>w \<in> set ws. \<not> fences C environment now w))
    \<and> (\<forall>e. snd (check_windows C ws environment now m) = Inl e \<longrightarrow>
         (\<exists>w \<in> set ws. \<exists>start stop n. fences C environment now w \<and> parse_window C w = Inr (start, stop)
            \<and> retry_hint e = Some n \<and> 1 \<le> n \<and> n \<le> 86400
            \<and> (n = 1 \<or> now + int n * seconds \<le> stop) \<and> (n = 86400 \<or> stop < now + (int n + 1) * seconds)))
    \<and> (snd (check_recurring C rs environment now m) = Inr () \<longleftrightarrow> (\<forall>w \<in> set rs. \<not> recurs C environment now w))
    \<and> (\<forall>e. snd (check_recurring C rs environment now m) = Inl e \<longrightarrow>
         (\<exists>w \<in> set rs. \<exists>p n. recurs C environment now w \<and> parse_recurring C w = Inr p \<and> retry_hint e = Some n
            \<and> 1 \<le> n
            \<and> (let left = (int (rp_end_min p) - int (minute_of (rp_tz p now))) * 60 - int (cv_second (rp_tz p now))
               in left \<le> int n \<and> int n \<le> left + 60)))"
proof (intro conjI allI impI)
  fix e assume "snd (check_windows C ws environment now m) = Inl e"
  from check_windows_closed [OF this] obtain w start stop reason where w: "w \<in> set ws" "fences C environment now w"
    "parse_window C w = Inr (start, stop)" "e = ServiceUnavailable reason (nat (max 1 (min 86400 ((stop - now) div seconds))))"
    by blast
  then have "now < stop" by (auto simp: fences_def)
  note n = retry_before_end [OF this refl]
  show "\<exists>w \<in> set ws. \<exists>start stop n. fences C environment now w \<and> parse_window C w = Inr (start, stop)
      \<and> retry_hint e = Some n \<and> 1 \<le> n \<and> n \<le> 86400
            \<and> (n = 1 \<or> now + int n * seconds \<le> stop) \<and> (n = 86400 \<or> stop < now + (int n + 1) * seconds)"
    using n by (intro bexI [OF _ w(1)] exI conjI) (rule w(2), rule w(3), simp add: w(4) retry_hint_def, blast+)
next
  fix e assume "snd (check_recurring C rs environment now m) = Inl e"
  from check_recurring_closed [OF this] obtain w p reason where w: "w \<in> set rs" "recurs C environment now w" "parse_recurring C w = Inr p"
    "e = ServiceUnavailable reason (max 1 ((rp_end_min p - minute_of (rp_tz p now)) * 60 + (60 - cv_second (rp_tz p now))))"
    by blast
  then have "minute_of (rp_tz p now) < rp_end_min p" by (auto simp: recurs_def)
  note n = retry_after_end [OF this parse_recurring_second [OF assms w(3)]]
  show "\<exists>w \<in> set rs. \<exists>p n. recurs C environment now w \<and> parse_recurring C w = Inr p \<and> retry_hint e = Some n
      \<and> 1 \<le> n
            \<and> (let left = (int (rp_end_min p) - int (minute_of (rp_tz p now))) * 60 - int (cv_second (rp_tz p now))
               in left \<le> int n \<and> int n \<le> left + 60)"
    by (intro bexI [OF _ w(1)] exI conjI) (rule w(2), rule w(3), simp only: w(4) retry_hint_def api_error.case, simp, unfold Let_def n, simp)
qed (rule check_windows_open, rule check_recurring_open)

text \<open>The gauge of entries that do not parse counts the reported issues.\<close>

lemma misconfigured_issues: "misconfigured_count C absolute recurring = length (collect_config_issues C absolute recurring)"
proof -
  have len: "length (filter (\<lambda>w. \<not> is_ok (f w)) ws) = length (concat (map (\<lambda>w. case f w of Inr _ \<Rightarrow> [] | Inl e \<Rightarrow> [g w e]) ws))"
    for f :: "'w \<Rightarrow> 'x api_result" and g :: "'w \<Rightarrow> api_error \<Rightarrow> config_issue" and ws
    by (induction ws) (auto simp: is_ok_def split: sum.split)
  show ?thesis unfolding misconfigured_count_def collect_config_issues_def length_append
    by (intro arg_cong2 [where f = "(+)"]) (rule len)+
qed

text \<open>An overnight window split the way the field's comment advises leaves the last minute of the day open.\<close>

lemma last_minute_open:
  assumes "minute_of (rp_tz p now) = 23 * 60 + 59" "parse_recurring C w = Inr p"
  shows "\<not> recurs C environment now w"
  using assms parse_recurring_range [OF assms(2)] by (auto simp: recurs_def)

section \<open>Sample\<close>

definition sample_calendar :: calendar where
  "sample_calendar = \<lparr>ca_parse = (\<lambda>s. if s = ''start'' then Inr 0 else Inr (100 * seconds)),
     ca_utc = (\<lambda>_. \<lparr>cv_weekday = Tuesday, cv_hour = 2, cv_minute = 30, cv_second = 15\<rparr>), ca_zone = (\<lambda>_. Inl [])\<rparr>"

definition sample_freeze :: maintenance_window where
  "sample_freeze = \<lparr>mw_name = ''freeze'', mw_environment = ''*'', mw_start = ''start'', mw_end = ''end''\<rparr>"

definition sample_nightly :: recurring_window where
  "sample_nightly = \<lparr>rw_name = ''nightly'', rw_environment = ''prod'', rw_weekdays = [''Tue''], rw_start_hhmm = ''02:00'',
     rw_end_hhmm = ''04:00'', rw_timezone = None\<rparr>"

lemma sample_calendar_wf: "calendar_wf sample_calendar"
  by (simp add: calendar_wf_def sample_calendar_def)

theorem maintenance_checks_exact_witness:
  "fences sample_calendar ''prod'' (40 * seconds) sample_freeze \<and> \<not> fences sample_calendar ''prod'' (100 * seconds) sample_freeze
   \<and> recurs sample_calendar ''prod'' 0 sample_nightly \<and> \<not> recurs sample_calendar ''dev'' 0 sample_nightly"
proof -
  let ?m = "metrics_from_config sample_calendar [sample_freeze] [sample_nightly]"
  have "case_sum (\<lambda>_. True) (\<lambda>_. False) (snd (check_windows sample_calendar [sample_freeze] ''prod'' (40 * seconds) ?m))"
    "case_sum (\<lambda>_. False) (\<lambda>_. True) (snd (check_windows sample_calendar [sample_freeze] ''prod'' (100 * seconds) ?m))"
    "case_sum (\<lambda>_. True) (\<lambda>_. False) (snd (check_recurring sample_calendar [sample_nightly] ''prod'' 0 ?m))"
    "case_sum (\<lambda>_. False) (\<lambda>_. True) (snd (check_recurring sample_calendar [sample_nightly] ''dev'' 0 ?m))" by code_simp+
  then show ?thesis
    using maintenance_checks_exact [OF sample_calendar_wf, of "[sample_freeze]" "''prod''" "40 * seconds" ?m "[]"]
      maintenance_checks_exact [OF sample_calendar_wf, of "[sample_freeze]" "''prod''" "100 * seconds" ?m "[]"]
      maintenance_checks_exact [OF sample_calendar_wf, of "[]" "''prod''" 0 ?m "[sample_nightly]"]
      maintenance_checks_exact [OF sample_calendar_wf, of "[]" "''dev''" 0 ?m "[sample_nightly]"]
    by (auto split: sum.splits)
qed

end
