(* ===== verification/Secrets.thy ===== *)
theory Secrets
  imports Text_Tools Core_Resource
begin

text \<open>
  Secret references (\<open>iac-controlplane/src/secrets.rs\<close>): the token syntax, the scan of a text, the
  three resolvers, and the substitution in a JSON value, which the code does pointer by pointer. What
  lies outside, environment variables, the answers of Vault and of the \<open>sops\<close> program and the
  resolution of file names, is given by the environment.
\<close>

section \<open>References\<close>

record secret_ref =
  sf_resolver :: string
  sf_path :: string
  sf_field :: "string option"

definition ref_open :: string where
  "ref_open = ''${secret://''"

definition strip_prefix :: "string \<Rightarrow> string \<Rightarrow> string option" where
  "strip_prefix w s = (if is_prefix w s then Some (drop (length w) s) else None)"

definition strip_suffix_char :: "char \<Rightarrow> string \<Rightarrow> string option" where
  "strip_suffix_char c s = (if s \<noteq> [] \<and> last s = c then Some (butlast s) else None)"

definition parse_secret_ref :: "string \<Rightarrow> secret_ref option" where
  "parse_secret_ref token =
     Option.bind (Option.bind (strip_prefix ref_open token) (strip_suffix_char CHR ''}'')) (\<lambda>inner.
       if inner = [] then None
       else
         let (path_part, field) = (case split_once CHR ''#'' inner of
                (a, Some b) \<Rightarrow> if b \<noteq> [] then (a, Some b) else (inner, None)
              | (a, None) \<Rightarrow> (inner, None))
         in case split_once CHR ''/'' path_part of
              (resolver, Some path) \<Rightarrow>
                if resolver = [] \<or> path = [] then None
                else Some \<lparr>sf_resolver = resolver, sf_path = path, sf_field = field\<rparr>
            | (_, None) \<Rightarrow> None)"

text \<open>\<open>str::find\<close> of a character: the number of bytes before it.\<close>

fun find_char :: "char \<Rightarrow> string \<Rightarrow> nat option" where
  "find_char c [] = None"
| "find_char c (x # xs) = (if x = c then Some 0 else map_option Suc (find_char c xs))"

lemma find_char_length: "find_char c s = Some n \<Longrightarrow> n < length s"
  by (induction s arbitrary: n) (auto split: if_splits)

text \<open>A token at the head of a text: its length and what it refers to.\<close>

definition token_here :: "string \<Rightarrow> (nat \<times> secret_ref) option" where
  "token_here s =
     (if is_prefix ref_open s then
        Option.bind (find_char CHR ''}'' (drop 11 s)) (\<lambda>end_off.
        Option.bind (parse_secret_ref (take (11 + end_off + 1) s)) (\<lambda>sref. Some (11 + end_off + 1, sref)))
      else None)"

lemma token_here_length: "token_here s = Some (n, r) \<Longrightarrow> 12 \<le> n \<and> n \<le> length s"
  by (auto simp: token_here_def Option.bind_eq_Some_conv dest!: find_char_length split: if_splits)

text \<open>The scan, at offset \<open>i\<close> of a text whose rest is \<open>s\<close>.\<close>

function find_refs :: "nat \<Rightarrow> string \<Rightarrow> (nat \<times> nat \<times> secret_ref) list" where
  "find_refs i s =
     (if length s < 11 then []
      else case token_here s of
        Some (n, sref) \<Rightarrow> (i, i + n, sref) # find_refs (i + n) (drop n s)
      | None \<Rightarrow> find_refs (Suc i) (tl s))"
  by pat_completeness auto
termination
  by (relation "measure (\<lambda>(i, s). length s)") (auto dest!: token_here_length)

declare find_refs.simps [simp del]

definition find_refs_in_string :: "string \<Rightarrow> (nat \<times> nat \<times> secret_ref) list" where
  "find_refs_in_string s = find_refs 0 s"

section \<open>Resolvers\<close>

text \<open>The outcome of an HTTP request or of a program that was started: what the code inspects of it.\<close>

datatype http_outcome = HttpFailed string | HttpStatus nat string | HttpOk "json option"

datatype run_outcome = RunTimeout | RunNotStarted string | RunFailed string | RunOk "string option"

record secret_host =
  sh_env :: "string \<Rightarrow> string option"
  sh_vault :: "string \<Rightarrow> string \<Rightarrow> http_outcome"
  sh_canonical :: "string \<Rightarrow> (string, string list) result"
  sh_sops :: "string \<Rightarrow> string list \<Rightarrow> run_outcome"

datatype resolver =
    EnvResolver
  | VaultResolver (va_addr: string) (va_token: string)
  | SopsResolver (so_base: "string list") (so_binary: string)

fun resolver_name :: "resolver \<Rightarrow> string" where
  "resolver_name EnvResolver = ''env''"
| "resolver_name (VaultResolver _ _) = ''vault''"
| "resolver_name (SopsResolver _ _) = ''sops''"

definition env_resolve :: "secret_host \<Rightarrow> string \<Rightarrow> string option \<Rightarrow> string api_result" where
  "env_resolve H path field =
     (if field \<noteq> None then Inl (BadRequest (Msg ''env resolver does not support `#field`; env vars are flat strings'' []))
      else ok_or (sh_env H path) (BadRequest (Msg ''env var {path:?} not set'' [path])))"

text \<open>\<open>trim_end_matches\<close> of a slash, and the constructor that refuses plain HTTP.\<close>

definition trim_slashes :: "string \<Rightarrow> string" where
  "trim_slashes s = rev (dropWhile (\<lambda>c. c = CHR ''/'') (rev s))"

definition vault_new :: "string \<Rightarrow> string \<Rightarrow> bool \<Rightarrow> resolver api_result" where
  "vault_new addr token allow_insecure =
     (let addr' = trim_slashes addr in
      if \<not> allow_insecure \<and> \<not> is_prefix ''https://'' addr'
      then Inl (BadRequest (Msg ''vault addr {addr:?} must use https://'' [addr']))
      else Inr (VaultResolver addr' token))"

definition vault_resolve :: "secret_host \<Rightarrow> string \<Rightarrow> string \<Rightarrow> string \<Rightarrow> string option \<Rightarrow> string api_result" where
  "vault_resolve H addr token path field =
     (case field of
        None \<Rightarrow> Inl (BadRequest (Msg ''vault resolver requires `#field`; KV v2 returns a JSON object'' []))
      | Some fld \<Rightarrow>
          (case sh_vault H (addr @ ''/v1/'' @ path) token of
             HttpFailed e \<Rightarrow> Inl (Internal (Msg ''vault GET {url} failed: {e}'' [path, e]))
           | HttpStatus n body \<Rightarrow> Inl (BadRequest (Msg ''vault GET {path}: HTTP {status}: {body}'' [path, show_nat n, body]))
           | HttpOk None \<Rightarrow> Inl (Internal (Msg ''vault parse JSON: {e}'' []))
           | HttpOk (Some body) \<Rightarrow>
               (case jpath body [''data'', ''data'', fld] of
                  None \<Rightarrow> Inl (BadRequest (Msg ''vault {path}: field {field:?} not present at .data.data'' [path, fld]))
                | Some (JStr s) \<Rightarrow> Inr s
                | Some _ \<Rightarrow> Inl (BadRequest (Msg ''vault {path}#{field}: expected string'' [path, fld])))))"

text \<open>\<open>sops\<close>: the file must lie inside the base directory after its name has been resolved.\<close>

fun comps_prefix :: "string list \<Rightarrow> string list \<Rightarrow> bool" where
  "comps_prefix [] q = True"
| "comps_prefix (a # p) [] = False"
| "comps_prefix (a # p) (b # q) = (a = b \<and> comps_prefix p q)"

definition join_path :: "string list \<Rightarrow> string" where
  "join_path p = concat (map (\<lambda>c. CHR ''/'' # c) p)"

definition sops_sandboxed :: "secret_host \<Rightarrow> string list \<Rightarrow> string \<Rightarrow> string list api_result" where
  "sops_sandboxed H base path =
     (if CHR 0x00 \<in> set path then Inl (BadRequest (Msg ''sops path contains NUL byte'' []))
      else if path \<noteq> [] \<and> hd path = CHR ''/'' then Inl (BadRequest (Msg ''sops path {path:?} must be relative to base_dir, not absolute'' [path]))
      else case sh_canonical H (join_path base @ ''/'' @ path) of
             Inl e \<Rightarrow> Inl (BadRequest (Msg ''sops file {path:?}: cannot resolve'' [path, e]))
           | Inr canonical \<Rightarrow>
               if comps_prefix base canonical then Inr canonical
               else Inl (BadRequest (Msg ''sops path {path:?} escapes base_dir'' [path, join_path base, join_path canonical])))"

definition escape_quotes :: "string \<Rightarrow> string" where
  "escape_quotes s = concat (map (\<lambda>c. if c = CHR 0x22 then [CHR 0x5C, CHR 0x22] else [c]) s)"

definition sops_args :: "string option \<Rightarrow> string list \<Rightarrow> string list" where
  "sops_args field full =
     [''--decrypt''] @ (case field of None \<Rightarrow> []
        | Some f \<Rightarrow> [''--extract'', [CHR ''['', CHR 0x22] @ escape_quotes f @ [CHR 0x22, CHR '']'']]) @ [join_path full]"

definition pop_newline :: "string \<Rightarrow> string" where
  "pop_newline s = (if s \<noteq> [] \<and> last s = CHR 0x0A then butlast s else s)"

definition sops_resolve :: "secret_host \<Rightarrow> string list \<Rightarrow> string \<Rightarrow> string \<Rightarrow> string option \<Rightarrow> string api_result" where
  "sops_resolve H base binary path field =
     bindE (sops_sandboxed H base path) (\<lambda>full.
       case sh_sops H binary (sops_args field full) of
         RunTimeout \<Rightarrow> Inl (Internal (Msg ''sops {path}: timed out after 10s'' [path]))
       | RunNotStarted e \<Rightarrow> Inl (Internal (Msg ''sops {path}: failed to spawn'' [path, binary, e]))
       | RunFailed stderr \<Rightarrow> Inl (BadRequest (Msg ''sops {path}: exit'' [path, trim stderr]))
       | RunOk None \<Rightarrow> Inl (BadRequest (Msg ''sops {path}: decrypted output is not valid UTF-8'' [path]))
       | RunOk (Some s) \<Rightarrow> Inr (pop_newline s))"

fun resolver_resolve :: "secret_host \<Rightarrow> resolver \<Rightarrow> string \<Rightarrow> string option \<Rightarrow> string api_result" where
  "resolver_resolve H EnvResolver path field = env_resolve H path field"
| "resolver_resolve H (VaultResolver addr token) path field = vault_resolve H addr token path field"
| "resolver_resolve H (SopsResolver base binary) path field = sops_resolve H base binary path field"

section \<open>Registry\<close>

type_synonym secret_registry = "(string \<times> resolver) list"

definition register_resolver :: "resolver \<Rightarrow> secret_registry \<Rightarrow> secret_registry" where
  "register_resolver r reg = bt_insert (resolver_name r) r reg"

definition resolve_secret :: "secret_host \<Rightarrow> secret_registry \<Rightarrow> secret_ref \<Rightarrow> string api_result" where
  "resolve_secret H reg sref =
     bindE (ok_or (map_of reg (sf_resolver sref))
              (BadRequest (Msg ''unknown secret resolver'' (sf_resolver sref # map fst reg)))) (\<lambda>backend.
       resolver_resolve H backend (sf_path sref) (sf_field sref))"

section \<open>JSON pointers\<close>

text \<open>\<open>str::replace\<close> of a single character and of a two-byte pattern.\<close>

definition replace_char :: "char \<Rightarrow> string \<Rightarrow> string \<Rightarrow> string" where
  "replace_char c w s = concat (map (\<lambda>x. if x = c then w else [x]) s)"

fun replace_pair :: "char \<Rightarrow> char \<Rightarrow> char \<Rightarrow> string \<Rightarrow> string" where
  "replace_pair a b w (x # y # s) = (if x = a \<and> y = b then w # replace_pair a b w s else x # replace_pair a b w (y # s))"
| "replace_pair a b w s = s"

definition escape_token :: "string \<Rightarrow> string" where
  "escape_token k = replace_char CHR ''/'' ''~1'' (replace_char CHR ''~'' ''~0'' k)"

definition unescape_token :: "string \<Rightarrow> string" where
  "unescape_token s = replace_pair CHR ''~'' CHR ''0'' CHR ''~'' (replace_pair CHR ''~'' CHR ''1'' CHR ''/'' s)"

text \<open>The pointers of every string in a value, in the order of the walk.\<close>

fun walk_pointers :: "json \<Rightarrow> string \<Rightarrow> string list"
  and walk_members :: "(string \<times> json) list \<Rightarrow> string \<Rightarrow> string list"
  and walk_items :: "nat \<Rightarrow> json list \<Rightarrow> string \<Rightarrow> string list" where
  "walk_pointers (JStr s) prefix = [prefix]"
| "walk_pointers (JObj m) prefix = walk_members m prefix"
| "walk_pointers (JArr xs) prefix = walk_items 0 xs prefix"
| "walk_pointers JNull prefix = []"
| "walk_pointers (JBool b) prefix = []"
| "walk_pointers (JNum n) prefix = []"
| "walk_members [] prefix = []"
| "walk_members ((k, v) # m) prefix = walk_pointers v (prefix @ ''/'' @ escape_token k) @ walk_members m prefix"
| "walk_items i [] prefix = []"
| "walk_items i (v # vs) prefix = walk_pointers v (prefix @ ''/'' @ show_nat i) @ walk_items (Suc i) vs prefix"

definition collect_string_pointers :: "json \<Rightarrow> string list" where
  "collect_string_pointers v = walk_pointers v []"

text \<open>\<open>Value::pointer\<close>: a leading slash, then one token per level; an index has no sign and no leading zero.\<close>

definition parse_index :: "string \<Rightarrow> nat option" where
  "parse_index s = (if is_prefix ''+'' s \<or> is_prefix ''0'' s \<and> length s \<noteq> 1 then None else parse_unsigned 10 (2 ^ 64) s)"

fun descend :: "json \<Rightarrow> string list \<Rightarrow> json option" where
  "descend v [] = Some v"
| "descend (JObj m) (t # ts) = Option.bind (map_of m t) (\<lambda>w. descend w ts)"
| "descend (JArr xs) (t # ts) = Option.bind (parse_index t) (\<lambda>i. if i < length xs then descend (xs ! i) ts else None)"
| "descend v (t # ts) = None"

definition pointer_tokens :: "string \<Rightarrow> string list option" where
  "pointer_tokens ptr = (if ptr = [] then Some [] else if hd ptr \<noteq> CHR ''/'' then None
     else Some (map unescape_token (tl (split_on CHR ''/'' ptr))))"

definition pointer :: "json \<Rightarrow> string \<Rightarrow> json option" where
  "pointer v ptr = Option.bind (pointer_tokens ptr) (descend v)"

text \<open>Assigning through \<open>pointer_mut\<close>.\<close>

fun replace_at :: "json \<Rightarrow> string list \<Rightarrow> json \<Rightarrow> json" where
  "replace_at v [] w = w"
| "replace_at (JObj m) (t # ts) w = JObj (map (\<lambda>kv. if fst kv = t then (fst kv, replace_at (snd kv) ts w) else kv) m)"
| "replace_at (JArr xs) (t # ts) w =
     (case parse_index t of Some i \<Rightarrow> if i < length xs then JArr (xs[i := replace_at (xs ! i) ts w]) else JArr xs | None \<Rightarrow> JArr xs)"
| "replace_at v (t # ts) w = v"

definition set_pointer :: "json \<Rightarrow> string \<Rightarrow> json \<Rightarrow> json" where
  "set_pointer v ptr w =
     (case pointer_tokens ptr of
        None \<Rightarrow> v
      | Some ts \<Rightarrow> (case descend v ts of None \<Rightarrow> v | Some _ \<Rightarrow> replace_at v ts w))"

section \<open>Substitution\<close>

text \<open>The text with every reference replaced, from \<open>cursor\<close> on, and how many there were.\<close>

fun splice :: "(secret_ref \<Rightarrow> string api_result) \<Rightarrow> string \<Rightarrow> nat \<Rightarrow> (nat \<times> nat \<times> secret_ref) list \<Rightarrow> string api_result" where
  "splice res original cursor [] = Inr (drop cursor original)"
| "splice res original cursor ((start, stop, sref) # refs) =
     bindE (res sref) (\<lambda>resolved.
     bindE (splice res original stop refs) (\<lambda>rest.
       Inr (drop cursor (take start original) @ resolved @ rest)))"

fun substitute_loop :: "(secret_ref \<Rightarrow> string api_result) \<Rightarrow> string list \<Rightarrow> json \<Rightarrow> (json \<times> nat \<times> string list) api_result" where
  "substitute_loop res [] v = Inr (v, 0, [])"
| "substitute_loop res (ptr # ptrs) v =
     (case pointer v ptr of
        Some (JStr original) \<Rightarrow>
          let refs = find_refs_in_string original in
          if refs = [] then substitute_loop res ptrs v
          else bindE (splice res original 0 refs) (\<lambda>out.
               bindE (substitute_loop res ptrs (set_pointer v ptr (JStr out))) (\<lambda>(v', n, secret_ptrs).
                 Inr (v', length refs + n, ptr # secret_ptrs)))
      | _ \<Rightarrow> substitute_loop res ptrs v)"

definition substitute_with_pointers :: "secret_host \<Rightarrow> secret_registry \<Rightarrow> json \<Rightarrow> (json \<times> nat \<times> string list) api_result" where
  "substitute_with_pointers H reg v = substitute_loop (resolve_secret H reg) (collect_string_pointers v) v"

definition substitute_in_value :: "secret_host \<Rightarrow> secret_registry \<Rightarrow> json \<Rightarrow> (json \<times> nat) api_result" where
  "substitute_in_value H reg v = bindE (substitute_with_pointers H reg v) (\<lambda>(v', n, _). Inr (v', n))"

section \<open>Pointers reach what the walk saw\<close>

definition render_pointer :: "string list \<Rightarrow> string" where
  "render_pointer ts = concat (map (\<lambda>t. CHR ''/'' # escape_token t) ts)"

lemma render_pointer_snoc [simp]: "render_pointer (ts @ [t]) = render_pointer ts @ CHR ''/'' # escape_token t"
  by (simp add: render_pointer_def)

lemma replace_char_Nil [simp]: "replace_char c w [] = []"
  and replace_char_Cons: "replace_char c w (x # s) = (if x = c then w else [x]) @ replace_char c w s"
  and replace_char_append: "replace_char c w (s @ s') = replace_char c w s @ replace_char c w s'"
  by (simp_all add: replace_char_def)

lemma escape_token_Cons: "escape_token (x # s) =
    (if x = CHR ''~'' then ''~0'' else if x = CHR ''/'' then ''~1'' else [x]) @ escape_token s"
  by (simp add: escape_token_def replace_char_append replace_char_Cons)

lemma escape_token_Nil [simp]: "escape_token [] = []"
  by (simp add: escape_token_def)

lemma escape_no_slash: "CHR ''/'' \<notin> set (escape_token t)"
  by (induction t) (simp_all add: escape_token_Cons)

lemma replace_pair_other: "x \<noteq> a \<Longrightarrow> replace_pair a b w (x # s) = x # replace_pair a b w s"
  by (cases s) auto

text \<open>Undoing the second replacement first leaves the text after the first one.\<close>

lemma unescape_slash: "replace_pair CHR ''~'' CHR ''1'' CHR ''/'' (escape_token t) = replace_char CHR ''~'' ''~0'' t"
proof (induction t)
  case (Cons x t)
  consider "x = CHR ''~''" | "x = CHR ''/''" | "x \<noteq> CHR ''~''" "x \<noteq> CHR ''/''" by blast
  then show ?case
    by cases (use Cons in \<open>simp_all add: escape_token_Cons replace_char_Cons replace_pair_other\<close>)
qed simp

lemma unescape_tilde: "replace_pair CHR ''~'' CHR ''0'' CHR ''~'' (replace_char CHR ''~'' ''~0'' t) = t"
proof (induction t)
  case (Cons x t)
  then show ?case by (cases "x = CHR ''~''") (simp_all add: replace_char_Cons replace_pair_other)
qed simp

lemma unescape_escape [simp]: "unescape_token (escape_token t) = t"
  by (simp add: unescape_token_def unescape_slash unescape_tilde)

lemma split_on_none: "sep \<notin> set s \<Longrightarrow> split_on sep s = [s]"
  by (induction s) auto

lemma split_on_sep: "sep \<notin> set s \<Longrightarrow> split_on sep (s @ sep # s') = s # split_on sep s'"
  by (induction s) auto

lemma split_render: "split_on CHR ''/'' (render_pointer ts) = [] # map escape_token ts"
proof -
  have "split_on CHR ''/'' (escape_token t @ render_pointer ts) = escape_token t # map escape_token ts" for t ts
  proof (induction ts arbitrary: t)
    case Nil
    then show ?case using split_on_none [OF escape_no_slash] by (simp add: render_pointer_def)
  next
    case (Cons u ts)
    have "render_pointer (u # ts) = CHR ''/'' # escape_token u @ render_pointer ts" by (simp add: render_pointer_def)
    then show ?case using Cons split_on_sep [OF escape_no_slash] by simp
  qed
  then show ?thesis by (cases ts) (simp_all add: render_pointer_def)
qed

lemma tokens_render [simp]: "pointer_tokens (render_pointer ts) = Some ts"
proof (cases ts)
  case (Cons t us)
  then have "render_pointer ts \<noteq> [] \<and> hd (render_pointer ts) = CHR ''/''" by (simp add: render_pointer_def)
  then show ?thesis by (simp add: pointer_tokens_def split_render comp_def)
qed (simp add: pointer_tokens_def render_pointer_def)

lemma show_nat_plain: "c \<in> set (show_nat n) \<Longrightarrow> c \<noteq> CHR ''~'' \<and> c \<noteq> CHR ''/''"
proof -
  assume "c \<in> set (show_nat n)"
  then obtain d :: nat where d: "d < 10" "c = char_of (48 + d)"
    using show_radix_digits [of 10 c n] by (auto simp: show_nat_radix)
  then show ?thesis by (auto simp: digit_char)
qed

lemma escape_show_nat [simp]: "escape_token (show_nat n) = show_nat n"
proof -
  have "\<forall>c \<in> set s. c \<noteq> CHR ''~'' \<and> c \<noteq> CHR ''/'' \<Longrightarrow> escape_token s = s" for s
    by (induction s) (auto simp: escape_token_Cons)
  then show ?thesis using show_nat_plain by blast
qed

lemma parse_index_show: "i < 2 ^ 64 \<Longrightarrow> parse_index (show_nat i) = Some i"
proof (cases "i = 0")
  case True
  have "show_nat 0 = ''0''" by code_simp
  with True show ?thesis by (simp add: parse_index_def parse_unsigned_def digit_value_def)
next
  case False
  assume i: "i < 2 ^ 64"
  note hd = show_radix_hd [of 10 i]
  then obtain c s where s: "show_radix 10 i = c # s" "c \<noteq> CHR ''0''" "c \<noteq> CHR ''+''"
    using False by (cases "show_radix 10 i") auto
  then show ?thesis using parse_show_radix [OF _ _ i, of 10]
    by (simp add: parse_index_def show_nat_radix parse_unsigned_def Let_def del: parse_digits.simps)
qed

section \<open>What substitution computes\<close>

text \<open>The same on the structure of the value: every string is rewritten from left to right, and the
  pointers of those that had a reference are listed.\<close>

function subst_text :: "(secret_ref \<Rightarrow> string api_result) \<Rightarrow> string \<Rightarrow> (nat \<times> string) api_result" where
  "subst_text res s =
     (case token_here s of
        Some (n, sref) \<Rightarrow> bindE (res sref) (\<lambda>x. bindE (subst_text res (drop n s)) (\<lambda>(k, t). Inr (Suc k, x @ t)))
      | None \<Rightarrow> (case s of [] \<Rightarrow> Inr (0, []) | c # cs \<Rightarrow> bindE (subst_text res cs) (\<lambda>(k, t). Inr (k, c # t))))"
  by pat_completeness auto
termination
  by (relation "measure (\<lambda>(res, s). length s)") (auto dest!: token_here_length)

declare subst_text.simps [simp del]

fun subst_json :: "(secret_ref \<Rightarrow> string api_result) \<Rightarrow> string list \<Rightarrow> json \<Rightarrow> (json \<times> nat \<times> string list) api_result"
  and subst_members :: "(secret_ref \<Rightarrow> string api_result) \<Rightarrow> string list \<Rightarrow> (string \<times> json) list
      \<Rightarrow> ((string \<times> json) list \<times> nat \<times> string list) api_result"
  and subst_items :: "(secret_ref \<Rightarrow> string api_result) \<Rightarrow> string list \<Rightarrow> nat \<Rightarrow> json list
      \<Rightarrow> (json list \<times> nat \<times> string list) api_result" where
  "subst_json res at (JStr s) = bindE (subst_text res s) (\<lambda>(k, t). Inr (JStr t, k, if k = 0 then [] else [render_pointer at]))"
| "subst_json res at (JObj m) = bindE (subst_members res at m) (\<lambda>(m', k, ps). Inr (JObj m', k, ps))"
| "subst_json res at (JArr xs) = bindE (subst_items res at 0 xs) (\<lambda>(xs', k, ps). Inr (JArr xs', k, ps))"
| "subst_json res at JNull = Inr (JNull, 0, [])"
| "subst_json res at (JBool b) = Inr (JBool b, 0, [])"
| "subst_json res at (JNum n) = Inr (JNum n, 0, [])"
| "subst_members res at [] = Inr ([], 0, [])"
| "subst_members res at ((key, v) # m) =
     bindE (subst_json res (at @ [key]) v) (\<lambda>(v', k, ps).
     bindE (subst_members res at m) (\<lambda>(m', k', ps'). Inr ((key, v') # m', k + k', ps @ ps')))"
| "subst_items res at i [] = Inr ([], 0, [])"
| "subst_items res at i (v # vs) =
     bindE (subst_json res (at @ [show_nat i]) v) (\<lambda>(v', k, ps).
     bindE (subst_items res at (Suc i) vs) (\<lambda>(vs', k', ps'). Inr (v' # vs', k + k', ps @ ps')))"

lemma bindE_assoc: "bindE (bindE m f) g = bindE m (\<lambda>x. bindE (f x) g)"
  by (cases m) simp_all

lemma bindE_eta: "bindE m Inr = m"
  by (cases m) simp_all

lemma token_here_short: "length s < 11 \<Longrightarrow> token_here s = None"
  using token_here_length by (cases "token_here s") fastforce+

lemma subst_text_short: "length s < 11 \<Longrightarrow> subst_text res s = Inr (0, s)"
proof (induction s)
  case (Cons c s)
  then show ?case by (subst subst_text.simps) (simp add: token_here_short)
qed (simp add: subst_text.simps token_here_short)

lemma splice_finds:
  "cursor \<le> length pre \<Longrightarrow>
    splice res (pre @ s) cursor (find_refs (length pre) s) = bindE (subst_text res s) (\<lambda>(k, t). Inr (drop cursor pre @ t))
    \<and> (\<forall>k t. subst_text res s = Inr (k, t) \<longrightarrow> k = length (find_refs (length pre) s))"
proof (induction "length s" arbitrary: pre s cursor rule: less_induct)
  case less
  show ?case
  proof (cases "length s < 11")
    case True
    then show ?thesis using less.prems by (subst (1 2) find_refs.simps) (simp add: subst_text_short)
  next
    case False
    show ?thesis
    proof (cases "token_here s")
      case None
      from False obtain c cs where s: "s = c # cs" by (cases s) auto
      have ih: "splice res ((pre @ [c]) @ cs) cursor (find_refs (length (pre @ [c])) cs)
          = bindE (subst_text res cs) (\<lambda>(k, t). Inr (drop cursor (pre @ [c]) @ t))
        \<and> (\<forall>k t. subst_text res cs = Inr (k, t) \<longrightarrow> k = length (find_refs (length (pre @ [c])) cs))"
        by (rule less.hyps) (use less.prems in \<open>simp_all add: s\<close>)
      have "find_refs (length pre) s = find_refs (length (pre @ [c])) cs"
        by (subst find_refs.simps) (use False None in \<open>simp add: s\<close>)
      moreover have "subst_text res s = bindE (subst_text res cs) (\<lambda>(k, t). Inr (k, c # t))"
        by (subst subst_text.simps) (use None in \<open>simp add: s\<close>)
      ultimately show ?thesis
        using ih less.prems by (auto simp: s bindE_assoc split_def bindE_Inr_iff)
    next
      case (Some nr)
      then obtain n r where nr: "token_here s = Some (n, r)" by (cases nr) auto
      note n = token_here_length [OF nr]
      let ?pre = "pre @ take n s"
      have ih: "splice res (?pre @ drop n s) (length ?pre) (find_refs (length ?pre) (drop n s))
          = bindE (subst_text res (drop n s)) (\<lambda>(k, t). Inr (drop (length ?pre) ?pre @ t))
        \<and> (\<forall>k t. subst_text res (drop n s) = Inr (k, t) \<longrightarrow> k = length (find_refs (length ?pre) (drop n s)))"
        by (rule less.hyps) (use n in auto)
      have len: "length ?pre = length pre + n" using n by simp
      have "find_refs (length pre) s = (length pre, length pre + n, r) # find_refs (length ?pre) (drop n s)"
        unfolding len by (subst find_refs.simps) (use False nr in simp)
      moreover have "subst_text res s = bindE (res r) (\<lambda>x. bindE (subst_text res (drop n s)) (\<lambda>(k, t). Inr (Suc k, x @ t)))"
        by (subst subst_text.simps) (use nr in simp)
      ultimately show ?thesis
        using ih less.prems by (auto simp: len bindE_assoc split_def bindE_Inr_iff simp del: length_append)
    qed
  qed
qed

lemma splice_subst:
  "splice res s 0 (find_refs_in_string s) = bindE (subst_text res s) (\<lambda>(k, t). Inr t)"
  "subst_text res s = Inr (k, t) \<Longrightarrow> k = length (find_refs_in_string s)"
  using splice_finds [of 0 "[]" res s] by (auto simp: find_refs_in_string_def)

text \<open>A place in a larger value: what pointers below it read and write is what happens there.\<close>

definition place :: "(json \<Rightarrow> json) \<Rightarrow> string list \<Rightarrow> bool" where
  "place C at \<longleftrightarrow> (\<forall>w ts x. descend (C w) (at @ ts) = descend w ts \<and> replace_at (C w) (at @ ts) x = C (replace_at w ts x))"

lemma placeD: "place C at \<Longrightarrow> descend (C w) (at @ ts) = descend w ts"
  "place C at \<Longrightarrow> replace_at (C w) (at @ ts) x = C (replace_at w ts x)"
  by (simp_all add: place_def)

lemma place_here: "place C at \<Longrightarrow> pointer (C w) (render_pointer at) = Some w"
  "place C at \<Longrightarrow> set_pointer (C w) (render_pointer at) x = C x"
  using placeD [of C at w "[]"] by (simp_all add: pointer_def set_pointer_def)

lemma place_member:
  assumes C: "place C at" and k: "k \<notin> fst ` set m1" "k \<notin> fst ` set m2"
  shows "place (\<lambda>w. C (JObj (m1 @ (k, w) # m2))) (at @ [k])"
proof -
  have same: "map (\<lambda>kv. if fst kv = k then (fst kv, replace_at (snd kv) ts x) else kv) m = m" if "k \<notin> fst ` set m" for m ts x
    using that by (intro map_idI) force
  have "map_of m1 k = None" using k(1) by (simp add: map_of_eq_None_iff)
  then show ?thesis
    unfolding place_def using placeD [OF C] by (simp add: map_add_def same [OF k(1)] same [OF k(2)])
qed

lemma place_item:
  assumes C: "place C at" and i: "i = length xs" "length xs < 2 ^ 64"
  shows "place (\<lambda>w. C (JArr (xs @ w # ys))) (at @ [show_nat i])"
  unfolding place_def using placeD [OF C] parse_index_show [of "length xs"] i by simp

lemma substitute_loop_append:
  "substitute_loop res (ps @ qs) v = bindE (substitute_loop res ps v) (\<lambda>(v1, n, s).
     bindE (substitute_loop res qs v1) (\<lambda>(v2, n', s'). Inr (v2, n + n', s @ s')))"
proof (induction ps arbitrary: v)
  case Nil
  then show ?case by (simp add: split_def bindE_eta)
next
  case (Cons p ps)
  then show ?case
    by (simp add: Let_def bindE_assoc split_def add.assoc split: option.split json.split)
qed

lemma loop_is_structural:
  "place C at \<Longrightarrow> json_wf v \<Longrightarrow>
     substitute_loop res (walk_pointers v (render_pointer at)) (C v)
       = bindE (subst_json res at v) (\<lambda>(v', n, ps). Inr (C v', n, ps))"
  "place C at \<Longrightarrow> distinct (map fst (m0 @ m)) \<Longrightarrow> list_all (\<lambda>kv. json_wf (snd kv)) m \<Longrightarrow>
     substitute_loop res (walk_members m (render_pointer at)) (C (JObj (m0 @ m)))
       = bindE (subst_members res at m) (\<lambda>(m', n, ps). Inr (C (JObj (m0 @ m')), n, ps))"
  "place C at \<Longrightarrow> i = length xs \<Longrightarrow> length (xs @ vs) < 2 ^ 64 \<Longrightarrow> list_all json_wf vs \<Longrightarrow>
     substitute_loop res (walk_items i vs (render_pointer at)) (C (JArr (xs @ vs)))
       = bindE (subst_items res at i vs) (\<lambda>(vs', n, ps). Inr (C (JArr (xs @ vs')), n, ps))"
proof (induction res at v and res at m and res at i vs arbitrary: C and C m0 and C xs
    rule: subst_json_subst_members_subst_items.induct)
  case (1 res at s)
  note here = place_here [OF 1(1)]
  show ?case
  proof (cases "find_refs_in_string s = []")
    case True
    with splice_subst(1) [of res s] obtain k where "subst_text res s = Inr (k, s)"
      by (cases "subst_text res s") auto
    with splice_subst(2) [of res s k s] True show ?thesis by (simp add: here)
  next
    case False
    then show ?thesis
      using splice_subst(1) [of res s] splice_subst(2) [of res s]
      by (cases "subst_text res s") (auto simp: here Let_def)
  qed
next
  case (2 res at m)
  then have "distinct (map fst ([] @ m))" by (simp add: bt_wf_distinct)
  from 2(1) [OF 2(2) this] 2(3) show ?case by (simp add: bindE_assoc split_def)
next
  case (3 res at xs)
  from 3(1) [OF 3(2), of "[]"] 3(3) show ?case by (simp add: bindE_assoc split_def)
next
  case (8 res at k v m)
  have pl: "place (\<lambda>w. C (JObj (m0 @ (k, w) # m))) (at @ [k])"
    using 8(4) by (intro place_member [OF 8(3)]) auto
  have v: "substitute_loop res (walk_pointers v (render_pointer (at @ [k]))) (C (JObj (m0 @ (k, v) # m)))
      = bindE (subst_json res (at @ [k]) v) (\<lambda>(v', n, ps). Inr (C (JObj (m0 @ (k, v') # m)), n, ps))"
    using 8(1) [OF pl] 8(5) by (simp add: split_def)
  have m: "substitute_loop res (walk_members m (render_pointer at)) (C (JObj (m0 @ (k, v') # m)))
      = bindE (subst_members res at m) (\<lambda>(m', n, ps). Inr (C (JObj (m0 @ (k, v') # m')), n, ps))" for v'
    using 8(2) [OF 8(3), of "m0 @ [(k, v')]"] 8(4,5) by (simp add: split_def)
  show ?case
    by (cases "subst_json res (at @ [k]) v") (use v m in \<open>auto simp: substitute_loop_append bindE_assoc split_def\<close>)
next
  case (10 res at i v vs)
  have pl: "place (\<lambda>w. C (JArr (xs @ w # vs))) (at @ [show_nat i])"
    using 10(4,5) by (intro place_item [OF 10(3)]) auto
  have v: "substitute_loop res (walk_pointers v (render_pointer (at @ [show_nat i]))) (C (JArr (xs @ v # vs)))
      = bindE (subst_json res (at @ [show_nat i]) v) (\<lambda>(v', n, ps). Inr (C (JArr (xs @ v' # vs)), n, ps))"
    using 10(1) [OF pl] 10(6) by (simp add: split_def)
  have m: "substitute_loop res (walk_items (Suc i) vs (render_pointer at)) (C (JArr (xs @ v' # vs)))
      = bindE (subst_items res at (Suc i) vs) (\<lambda>(vs', n, ps). Inr (C (JArr (xs @ v' # vs')), n, ps))" for v'
    using 10(2) [OF 10(3), of "xs @ [v']"] 10(4-6) by (simp add: split_def)
  show ?case
    by (cases "subst_json res (at @ [show_nat i]) v") (use v m in \<open>auto simp: substitute_loop_append bindE_assoc split_def\<close>)
qed simp_all

text \<open>
  C27. Secret substitution. Resolving a value pointer by pointer, as the code does, is rewriting every
  string of the value in place from left to right: nothing but the strings changes, the count is the
  number of references, the pointers reported are exactly those of the strings that had one, and the
  first reference that cannot be resolved is the error.
\<close>

theorem substitute_is_structural:
  assumes "json_wf v"
  shows "substitute_with_pointers H reg v = subst_json (resolve_secret H reg) [] v"
proof -
  have "place (\<lambda>w. w) []" by (simp add: place_def)
  from loop_is_structural(1) [OF this assms] show ?thesis
    by (simp add: substitute_with_pointers_def collect_string_pointers_def render_pointer_def split_def bindE_eta)
qed

section \<open>Texts as pieces\<close>

definition print_ref :: "secret_ref \<Rightarrow> string" where
  "print_ref r = ref_open @ sf_resolver r @ CHR ''/'' # sf_path r
     @ (case sf_field r of None \<Rightarrow> [] | Some f \<Rightarrow> CHR ''#'' # f) @ ''}''"

definition ref_wf :: "secret_ref \<Rightarrow> bool" where
  "ref_wf r \<longleftrightarrow> sf_resolver r \<noteq> [] \<and> sf_path r \<noteq> []
     \<and> {CHR ''/'', CHR ''#'', CHR ''}''} \<inter> set (sf_resolver r) = {} \<and> {CHR ''#'', CHR ''}''} \<inter> set (sf_path r) = {}
     \<and> (case sf_field r of None \<Rightarrow> True | Some f \<Rightarrow> f \<noteq> [] \<and> CHR ''}'' \<notin> set f)"

datatype secret_piece = Plain string | Secret secret_ref

fun piece_ok :: "secret_piece \<Rightarrow> bool" where
  "piece_ok (Plain s) = (CHR ''$'' \<notin> set s)"
| "piece_ok (Secret r) = ref_wf r"

fun print_secret_piece :: "secret_piece \<Rightarrow> string" where
  "print_secret_piece (Plain s) = s"
| "print_secret_piece (Secret r) = print_ref r"

fun eval_secret_piece :: "(secret_ref \<Rightarrow> string api_result) \<Rightarrow> secret_piece \<Rightarrow> string api_result" where
  "eval_secret_piece res (Plain s) = Inr s"
| "eval_secret_piece res (Secret r) = res r"

definition is_secret :: "secret_piece \<Rightarrow> bool" where
  "is_secret p \<longleftrightarrow> (case p of Secret _ \<Rightarrow> True | Plain _ \<Rightarrow> False)"

lemma find_char_append: "c \<notin> set s \<Longrightarrow> find_char c (s @ c # s') = Some (length s)"
  by (induction s) auto

lemma split_once_none: "c \<notin> set x \<Longrightarrow> split_once c x = (x, None)"
  by (induction x) auto

lemma strip_braces: "Option.bind (strip_prefix ref_open (ref_open @ s @ [c])) (strip_suffix_char c) = Some s"
proof -
  have "drop (length ref_open) (ref_open @ s @ [c]) = s @ [c]" by simp
  then show ?thesis by (simp add: strip_prefix_def is_prefix_append strip_suffix_char_def)
qed

lemma parse_print_ref:
  assumes "ref_wf r"
  shows "parse_secret_ref (print_ref r) = Some r"
proof -
  obtain a p f where r: "r = \<lparr>sf_resolver = a, sf_path = p, sf_field = f\<rparr>" by (cases r) auto
  let ?inner = "a @ CHR ''/'' # p @ (case f of None \<Rightarrow> [] | Some x \<Rightarrow> CHR ''#'' # x)"
  have "print_ref r = ref_open @ ?inner @ ''}''" by (simp add: print_ref_def r)
  then have "Option.bind (strip_prefix ref_open (print_ref r)) (strip_suffix_char CHR ''}'') = Some ?inner"
    using strip_braces [of ?inner] by simp
  moreover have "split_once CHR ''/'' (a @ CHR ''/'' # p) = (a, Some p)"
    using assms by (intro split_once_append) (auto simp: ref_wf_def r)
  moreover have "split_once CHR ''#'' ((a @ CHR ''/'' # p) @ CHR ''#'' # x) = (a @ CHR ''/'' # p, Some x)" for x
    using assms by (intro split_once_append) (auto simp: ref_wf_def r)
  moreover have "split_once CHR ''#'' (a @ CHR ''/'' # p) = (a @ CHR ''/'' # p, None)"
    using assms by (intro split_once_none) (auto simp: ref_wf_def r)
  ultimately show ?thesis
    using assms by (cases f) (simp_all add: parse_secret_ref_def ref_wf_def r Let_def)
qed

lemma token_here_print: "ref_wf r \<Longrightarrow> token_here (print_ref r @ s) = Some (length (print_ref r), r)"
proof -
  assume r: "ref_wf r"
  let ?inner = "sf_resolver r @ CHR ''/'' # sf_path r @ (case sf_field r of None \<Rightarrow> [] | Some f \<Rightarrow> CHR ''#'' # f)"
  have p: "print_ref r = ref_open @ ?inner @ ''}''" by (simp add: print_ref_def)
  have "CHR ''}'' \<notin> set ?inner" using r by (auto simp: ref_wf_def split: option.splits)
  then have "find_char CHR ''}'' (drop 11 (print_ref r @ s)) = Some (length ?inner)"
    using find_char_append [of "CHR ''}''" ?inner s] by (simp add: p ref_open_def)
  moreover have l: "length (print_ref r) = 11 + length ?inner + 1" by (simp add: p ref_open_def)
  ultimately show ?thesis
    using parse_print_ref [OF r] by (simp add: token_here_def p is_prefix_append) 
qed

lemma token_here_dollar: "c \<noteq> CHR ''$'' \<Longrightarrow> token_here (c # s) = None"
  by (simp add: token_here_def ref_open_def)

lemma subst_text_plain: "CHR ''$'' \<notin> set s \<Longrightarrow>
    subst_text res (s @ s') = bindE (subst_text res s') (\<lambda>(k, t). Inr (k, s @ t))"
proof (induction s)
  case (Cons c s)
  then show ?case
    by (subst subst_text.simps) (auto simp: token_here_dollar bindE_assoc split_def)
qed (simp add: split_def bindE_eta)

text \<open>
  The token syntax. In a text made of literals without a dollar sign and printed references, the
  references are found, each parses back to what was printed, and each is replaced by what its resolver
  returns; the literals are kept.
\<close>

theorem secret_text_substituted:
  assumes "list_all piece_ok ps"
  shows "subst_text res (concat (map print_secret_piece ps)) =
    bindE (traverse (eval_secret_piece res) ps) (\<lambda>ts. Inr (length (filter is_secret ps), concat ts))"
  using assms
proof (induction ps)
  case Nil
  show ?case by (simp add: subst_text_short)
next
  case (Cons p ps)
  show ?case
  proof (cases p)
    case (Plain s)
    then show ?thesis using Cons by (simp add: subst_text_plain bindE_assoc is_secret_def)
  next
    case (Secret r)
    have "subst_text res (print_ref r @ concat (map print_secret_piece ps)) =
        bindE (res r) (\<lambda>x. bindE (subst_text res (concat (map print_secret_piece ps))) (\<lambda>(k, t). Inr (Suc k, x @ t)))"
      by (subst subst_text.simps) (use Cons.prems Secret in \<open>simp add: token_here_print\<close>)
    then show ?thesis using Cons Secret by (simp add: bindE_assoc is_secret_def)
  qed
qed

section \<open>The sandbox of sops\<close>

text \<open>Only files below the base directory are ever handed to the program: two hosts on which it behaves
  alike there resolve alike.\<close>

lemma sops_confined:
  assumes "\<And>fld file. comps_prefix base file \<Longrightarrow> run (sops_args fld file) = sh_sops H binary (sops_args fld file)"
  shows "sops_resolve (H\<lparr>sh_sops := (\<lambda>_. run)\<rparr>) base binary path field = sops_resolve H base binary path field"
proof -
  have "sops_sandboxed (H\<lparr>sh_sops := (\<lambda>_. run)\<rparr>) base path = sops_sandboxed H base path" by (simp add: sops_sandboxed_def)
  moreover have "comps_prefix base full" if "sops_sandboxed H base path = Inr full" for full
    using that by (auto simp: sops_sandboxed_def split: if_splits sum.splits)
  ultimately show ?thesis
    by (cases "sops_sandboxed H base path") (simp_all add: sops_resolve_def assms)
qed

section \<open>Sample\<close>

definition sample_secret_host :: secret_host where
  "sample_secret_host = \<lparr>sh_env = (\<lambda>v. if v = ''DB'' then Some ''pw'' else None), sh_vault = (\<lambda>_ _. HttpFailed []),
     sh_canonical = (\<lambda>_. Inl []), sh_sops = (\<lambda>_ _. RunTimeout)\<rparr>"

definition sample_registry :: secret_registry where
  "sample_registry = register_resolver EnvResolver []"

theorem substitute_is_structural_witness:
  "substitute_with_pointers sample_secret_host sample_registry
     (JObj [(''a/b'', JStr ''x${secret://env/DB}y''), (''c'', JArr [JNull, JStr ''z''])])
   = Inr (JObj [(''a/b'', JStr ''xpwy''), (''c'', JArr [JNull, JStr ''z''])], 1, [''/a~1b''])"
proof -
  let ?v = "JObj [(''a/b'', JStr ''x${secret://env/DB}y''), (''c'', JArr [JNull, JStr ''z''])]"
  have wf: "json_wf ?v" by (simp add: bt_wf_def)
  have "subst_json (resolve_secret sample_secret_host sample_registry) [] ?v
      = Inr (JObj [(''a/b'', JStr ''xpwy''), (''c'', JArr [JNull, JStr ''z''])], 1, [''/a~1b''])" by code_simp
  then show ?thesis by (simp only: substitute_is_structural [OF wf])
qed

theorem secret_text_substituted_witness:
  "subst_text (resolve_secret sample_secret_host sample_registry) ''user:${secret://env/DB}'' = Inr (1, ''user:pw'')"
proof -
  let ?ps = "[Plain ''user:'', Secret \<lparr>sf_resolver = ''env'', sf_path = ''DB'', sf_field = None\<rparr>]"
  have ok: "list_all piece_ok ?ps" by (simp add: ref_wf_def)
  have "concat (map print_secret_piece ?ps) = ''user:${secret://env/DB}''" by code_simp
  moreover have "bindE (traverse (eval_secret_piece (resolve_secret sample_secret_host sample_registry)) ?ps)
      (\<lambda>ts. Inr (length (filter is_secret ?ps), concat ts)) = Inr (1, ''user:pw'')" by code_simp
  ultimately show ?thesis using secret_text_substituted [OF ok] by (simp only:)
qed

end
