(* ===== verification/Template.thy ===== *)
theory Template
  imports Iac_Prelude
begin

text \<open>
  The template renderer of \<open>crates/iac-core/src/template.rs\<close>: \<open>render\<close>, which scans for
  \<open>{{ key }}\<close>, and the lookup over the scalars of a JSON object. The abstract view of a template is
  a list of pieces, literal text and variables; the main theorem says the scanner computes the
  meaning of the pieces from their printed form.
\<close>

datatype template_error = Unterminated | MissingKey string | NotScalar string

text \<open>\<open>str::find\<close> of a two-byte pattern, returning the text before the match and after it.\<close>

fun split_at_pair :: "char \<Rightarrow> string \<Rightarrow> (string \<times> string) option" where
  "split_at_pair c (a # b # s) =
     (if a = c \<and> b = c then Some ([], s)
      else map_option (\<lambda>(x, y). (a # x, y)) (split_at_pair c (b # s)))"
| "split_at_pair c s = None"

lemma split_at_pair_length: "split_at_pair c s = Some (x, y) \<Longrightarrow> length x + length y + 2 = length s"
  by (induction c s arbitrary: x y rule: split_at_pair.induct) (auto split: if_splits)

type_synonym lookup = "string \<Rightarrow> (template_error, string option) result"

text \<open>The loop, with the output built so far as accumulator.\<close>

function render_loop :: "lookup \<Rightarrow> string \<Rightarrow> string \<Rightarrow> (template_error, string) result" where
  "render_loop look out rest =
     (case split_at_pair (CHR ''{'') rest of
        None \<Rightarrow> Inr (out @ rest)
      | Some (before, after) \<Rightarrow>
          (case split_at_pair (CHR ''}'') after of
             None \<Rightarrow> Inl Unterminated
           | Some (inner, rest') \<Rightarrow>
               let key = trim inner in
               (case look key of
                  Inl e \<Rightarrow> Inl e
                | Inr None \<Rightarrow> Inl (NotScalar key)
                | Inr (Some s) \<Rightarrow> render_loop look (out @ before @ s) rest')))"
  by pat_completeness auto
termination
  by (relation "measure (\<lambda>(look, out, rest). length rest)") (auto dest!: split_at_pair_length)

declare render_loop.simps [simp del]

definition render :: "string \<Rightarrow> lookup \<Rightarrow> (template_error, string) result" where
  "render template look = render_loop look [] template"

definition json_scalar :: "(string \<times> json) list \<Rightarrow> lookup" where
  "json_scalar vars key =
     (case map_of vars key of
        None \<Rightarrow> Inl (MissingKey key)
      | Some (JStr s) \<Rightarrow> Inr (Some s)
      | Some (JNum n) \<Rightarrow> Inr (Some n)
      | Some (JBool b) \<Rightarrow> Inr (Some (if b then ''true'' else ''false''))
      | Some JNull \<Rightarrow> Inr (Some [])
      | Some _ \<Rightarrow> Inr None)"

definition render_json_top_scalars :: "string \<Rightarrow> (string \<times> json) list \<Rightarrow> (template_error, string) result" where
  "render_json_top_scalars template vars = render template (json_scalar vars)"

section \<open>Templates as pieces\<close>

datatype piece = Lit string | Var string

fun print_piece :: "piece \<Rightarrow> string" where
  "print_piece (Lit s) = s"
| "print_piece (Var k) = ''{{ '' @ k @ '' }}''"

definition print_template :: "piece list \<Rightarrow> string" where
  "print_template ps = concat (map print_piece ps)"

fun eval_piece :: "lookup \<Rightarrow> piece \<Rightarrow> (template_error, string) result" where
  "eval_piece look (Lit s) = Inr s"
| "eval_piece look (Var k) =
     (case look k of Inl e \<Rightarrow> Inl e | Inr None \<Rightarrow> Inl (NotScalar k) | Inr (Some s) \<Rightarrow> Inr s)"

definition eval_template :: "lookup \<Rightarrow> piece list \<Rightarrow> (template_error, string) result" where
  "eval_template look ps = bindE (traverse (eval_piece look) ps) (\<lambda>ss. Inr (concat ss))"

text \<open>Literals without an opening brace, keys that are trimmed and contain no closing brace.\<close>

fun piece_wf :: "piece \<Rightarrow> bool" where
  "piece_wf (Lit s) = (CHR ''{'' \<notin> set s)"
| "piece_wf (Var k) = (k \<noteq> [] \<and> CHR ''}'' \<notin> set k \<and> trim ('' '' @ k @ '' '') = k)"

lemma split_at_pair_hit: "c \<notin> set x \<Longrightarrow> split_at_pair c (x @ c # c # y) = Some (x, y)"
proof (induction x)
  case (Cons a x)
  then show ?case by (cases x) auto
qed simp

lemma split_at_pair_miss: "c \<notin> set x \<Longrightarrow> split_at_pair c x = None"
  by (induction c x rule: split_at_pair.induct) auto

lemma render_loop_lit: "CHR ''{'' \<notin> set s \<Longrightarrow> render_loop look out (s @ rest) = render_loop look (out @ s) rest"
proof (induction s arbitrary: out)
  case (Cons a s)
  have ne: "a \<noteq> CHR ''{''" using Cons.prems by auto
  have "split_at_pair (CHR ''{'') (a # s @ rest) = map_option (\<lambda>(x, y). (a # x, y)) (split_at_pair (CHR ''{'') (s @ rest))"
    using ne by (cases "s @ rest") auto
  then have "render_loop look out (a # s @ rest) = render_loop look (out @ [a]) (s @ rest)"
    by (subst (1 2) render_loop.simps) (auto simp: Let_def split: option.splits sum.splits)
  with Cons show ?case by simp
qed simp

lemma render_loop_var:
  assumes "piece_wf (Var k)"
  shows "render_loop look out (print_piece (Var k) @ rest) =
     (case eval_piece look (Var k) of Inl e \<Rightarrow> Inl e | Inr s \<Rightarrow> render_loop look (out @ s) rest)"
proof -
  have c: "CHR ''}'' \<notin> set ('' '' @ k @ '' '')" using assms by simp
  have 1: "split_at_pair (CHR ''{'') (print_piece (Var k) @ rest) = Some ([], '' '' @ k @ '' '' @ ''}}'' @ rest)" by simp
  have 2: "split_at_pair (CHR ''}'') ('' '' @ k @ '' '' @ ''}}'' @ rest) = Some ('' '' @ k @ '' '', rest)"
    using split_at_pair_hit [OF c, of rest] by simp
  have t: "trim ('' '' @ k @ '' '') = k" using assms by simp
  show ?thesis
    by (subst render_loop.simps) (simp only: 1 2 t option.case prod.case Let_def,
        auto split: sum.splits option.splits)
qed

lemma render_pieces:
  assumes "\<forall>p \<in> set ps. piece_wf p"
  shows "render_loop look out (print_template ps) = bindE (eval_template look ps) (\<lambda>s. Inr (out @ s))"
  using assms
proof (induction ps arbitrary: out)
  case Nil
  show ?case by (subst render_loop.simps) (simp add: print_template_def eval_template_def)
next
  case (Cons p ps)
  have pr: "print_template (x # ps) = print_piece x @ print_template ps" for x by (simp add: print_template_def)
  have ev: "eval_template look (p # ps) =
      (case eval_piece look p of Inl e \<Rightarrow> Inl e | Inr s \<Rightarrow> bindE (eval_template look ps) (\<lambda>t. Inr (s @ t)))"
    by (cases "traverse (eval_piece look) ps") (auto simp: eval_template_def split: sum.splits)
  have IH: "render_loop look (out @ s) (print_template ps) = bindE (eval_template look ps) (\<lambda>t. Inr ((out @ s) @ t))" for s
    using Cons.IH Cons.prems by simp
  show ?case
  proof (cases p)
    case (Lit s)
    then have "render_loop look out (print_template (p # ps)) = render_loop look (out @ s) (print_template ps)"
      using render_loop_lit Cons.prems by (simp add: pr)
    then show ?thesis using IH ev Lit by (cases "eval_template look ps") simp_all
  next
    case (Var k)
    have "render_loop look out (print_template (p # ps)) =
       (case eval_piece look p of Inl e \<Rightarrow> Inl e | Inr s \<Rightarrow> render_loop look (out @ s) (print_template ps))"
      unfolding pr using render_loop_var [of k look out "print_template ps"] Cons.prems Var by simp
    then show ?thesis using IH ev by (cases "eval_template look ps") (auto split: sum.splits)
  qed
qed

text \<open>
  Rendering is substitution. For every template built from literal text and variables, the
  scanner returns the literals with each variable replaced by its looked-up value, in order; the
  first variable that is missing or not scalar makes it fail with exactly that error, and nothing
  after it is looked up.
\<close>

theorem render_substitutes:
  assumes "\<forall>p \<in> set ps. piece_wf p"
  shows "render (print_template ps) look = eval_template look ps"
  using render_pieces [OF assms, of look "[]"] by (cases "eval_template look ps") (simp_all add: render_def)

lemma sample_piece: "piece_wf (Var ''name'')"
  by code_simp

theorem render_substitutes_witness:
  "render_json_top_scalars ''hello {{ name }}!'' [(''name'', JStr ''web'')] = Inr ''hello web!''"
proof -
  let ?ps = "[Lit ''hello '', Var ''name'', Lit ''!'']"
  have "\<forall>p \<in> set ?ps. piece_wf p" using sample_piece by simp
  from render_substitutes [OF this, of "json_scalar [(''name'', JStr ''web'')]"] show ?thesis
    by (simp add: render_json_top_scalars_def print_template_def eval_template_def json_scalar_def)
qed

text \<open>Text without an opening pair is returned as it is; an opening pair without a closing one is an error.\<close>

lemma render_plain: "split_at_pair (CHR ''{'') s = None \<Longrightarrow> render s look = Inr s"
  by (simp add: render_def render_loop.simps)

end
