(* ===== verification/Modules.thy ===== *)
theory Modules
  imports Template Text_Tools
begin

text \<open>
  Operator-defined composites (\<open>modules.rs\<close>): the declaration of a module, its validation when the
  configuration is loaded, and the expansion of one resource through its template. The YAML parser is
  given, and so is which characters outside ASCII count as alphanumeric.
\<close>

section \<open>Declarations\<close>

record module_parameter =
  mp_name :: string
  mp_type :: string
  mp_required :: bool
  mp_default :: "json option"
  mp_description :: string

record module_def =
  mo_name :: string
  mo_description :: string
  mo_emits :: "string list"
  mo_parameters :: "module_parameter list"
  mo_template :: string

text \<open>What the YAML parser returns; an item of a sequence that JSON cannot express is \<open>None\<close>.\<close>

datatype yaml =
    YNull
  | YBool bool
  | YNumber string
  | YString string
  | YSequence "json option list"
  | YMapping "(string \<times> json) list"
  | YTagged string

type_synonym yaml_parser = "string \<Rightarrow> yaml option"

definition reserved_vars :: "string list" where
  "reserved_vars = [''name'', ''environment'']"

section \<open>Validation\<close>

text \<open>\<open>str::chars\<close>, each character as its UTF-8 bytes.\<close>

fun utf8_chars :: "string \<Rightarrow> string list" where
  "utf8_chars [] = []"
| "utf8_chars (c # cs) =
     (let lead = [c] @ takeWhile (\<lambda>b. 128 \<le> (of_char b :: nat) \<and> (of_char b :: nat) < 192) cs
      in lead # utf8_chars (drop (length lead - 1) cs))"

type_synonym alphabet = "string \<Rightarrow> bool"  \<comment> \<open>the alphanumeric characters outside ASCII\<close>

definition alphanumeric :: "alphabet \<Rightarrow> string \<Rightarrow> bool" where
  "alphanumeric U ch = (case ch of [c] \<Rightarrow>
       (let n = (of_char c :: nat) in 48 \<le> n \<and> n \<le> 57 \<or> 65 \<le> n \<and> n \<le> 90 \<or> 97 \<le> n \<and> n \<le> 122)
     | _ \<Rightarrow> U ch)"

text \<open>The scan for a closing pair and for the variables of a template.\<close>

function template_variables :: "string \<Rightarrow> string list" where
  "template_variables s =
     (case s of
        a # b # rest \<Rightarrow>
          if a = CHR ''{'' \<and> b = CHR ''{'' then
            (case split_at_pair (CHR ''}'') rest of
               None \<Rightarrow> []
             | Some (inner, rest') \<Rightarrow>
                 (if trim inner \<noteq> [] then trim inner # template_variables rest' else template_variables rest'))
          else template_variables (b # rest)
      | _ \<Rightarrow> [])"
  by pat_completeness auto
termination
  by (relation "measure length") (auto dest!: split_at_pair_length)

declare template_variables.simps [simp del]

fun check_parameters :: "alphabet \<Rightarrow> string list \<Rightarrow> module_parameter list \<Rightarrow> (err_msg, unit) result" where
  "check_parameters U seen [] = Inr ()"
| "check_parameters U seen (p # ps) =
     (if \<not> list_all (\<lambda>c. alphanumeric U c \<or> c = ''_'') (utf8_chars (mp_name p))
        then Inl (Msg ''parameter {:?} name must be alphanumeric/underscore'' [mp_name p])
      else if mp_name p \<in> set reserved_vars
        then Inl (Msg ''parameter {:?} collides with reserved metadata var'' [mp_name p])
      else if mp_name p \<in> set seen then Inl (Msg ''parameter {:?} declared twice'' [mp_name p])
      else check_parameters U (mp_name p # seen) ps)"

definition check_variables :: "module_parameter list \<Rightarrow> string list \<Rightarrow> (err_msg, unit) result" where
  "check_variables ps vars =
     (case find (\<lambda>v. v \<notin> set reserved_vars \<and> \<not> list_ex (\<lambda>p. mp_name p = v) ps) vars of
        None \<Rightarrow> Inr ()
      | Some v \<Rightarrow> Inl (Msg ''template references undeclared variable {{{{ {var} }}}}'' [v]))"

definition built_in_kinds :: "string list" where
  "built_in_kinds = [''service'', ''cron-job-bundle'', ''web-with-monitoring'']"

definition validate_module :: "alphabet \<Rightarrow> module_def \<Rightarrow> (err_msg, unit) result" where
  "validate_module U m =
     (if trim (mo_name m) = [] then Inl (Msg ''module name must not be empty'' [])
      else if \<not> list_all (\<lambda>c. alphanumeric U c \<or> c = ''-'' \<or> c = ''_'') (utf8_chars (mo_name m))
        then Inl (Msg ''module name {:?} must be alphanumeric'' [mo_name m])
      else if mo_name m \<in> set built_in_kinds
        then Inl (Msg ''module name {:?} collides with a built-in composite'' [mo_name m])
      else bindE (check_parameters U [] (mo_parameters m)) (\<lambda>_.
           check_variables (mo_parameters m) (template_variables (mo_template m))))"

section \<open>Expansion\<close>

definition bad :: "string \<Rightarrow> string list \<Rightarrow> 'a api_result" where
  "bad t args = Inl (BadRequest (Msg t args))"

text \<open>The name and the environment a composite passes on to its children.\<close>

definition composite_metadata :: "string \<Rightarrow> json \<Rightarrow> (string \<times> string) api_result" where
  "composite_metadata label raw =
     (case Option.bind (jget raw ''metadata'') as_object of
        None \<Rightarrow> bad ''{}: metadata required'' [label]
      | Some m \<Rightarrow>
          (case Option.bind (map_of m ''name'') as_str of
             None \<Rightarrow> bad ''{}: metadata.name required'' [label]
           | Some name \<Rightarrow>
               Inr (name, case Option.bind (map_of m ''environment'') as_str of None \<Rightarrow> ''default'' | Some e \<Rightarrow> e)))"

definition parameter_value :: "module_def \<Rightarrow> (string \<times> json) list \<Rightarrow> module_parameter \<Rightarrow> json api_result" where
  "parameter_value m spec p =
     (case map_of spec (mp_name p) of
        Some v \<Rightarrow> Inr v
      | None \<Rightarrow>
          (case mp_default p of
             Some d \<Rightarrow> Inr d
           | None \<Rightarrow> if mp_required p then bad ''{}: spec.{} is required ({})'' [mo_name m, mp_name p, mp_description p]
                     else Inr JNull))"

fun bind_parameters :: "module_def \<Rightarrow> (string \<times> json) list \<Rightarrow> module_parameter list \<Rightarrow> (string \<times> json) list
    \<Rightarrow> (string \<times> json) list api_result" where
  "bind_parameters m spec [] vars = Inr vars"
| "bind_parameters m spec (p # ps) vars =
     bindE (parameter_value m spec p) (\<lambda>v. bind_parameters m spec ps (jset (mp_name p) v vars))"

definition module_spec :: "json \<Rightarrow> (string \<times> json) list" where
  "module_spec raw = (case Option.bind (jget raw ''spec'') as_object of None \<Rightarrow> [] | Some m \<Rightarrow> m)"

definition module_vars :: "module_def \<Rightarrow> json \<Rightarrow> (string \<times> json) list api_result" where
  "module_vars m raw =
     bindE (composite_metadata (mo_name m) raw) (\<lambda>(name, environment).
     bindE (bind_parameters m (module_spec raw) (mo_parameters m)
              (jset ''environment'' (JStr environment) (jset ''name'' (JStr name) []))) (\<lambda>vars.
       (case find (\<lambda>k. k \<notin> set (map mp_name (mo_parameters m))) (map fst (module_spec raw)) of
          Some got \<Rightarrow> bad ''{}: spec.{} is not a known parameter for module {}'' [mo_name m, got, mo_name m]
        | None \<Rightarrow> Inr vars)))"

text \<open>\<open>TemplateError::to_string\<close>.\<close>

definition template_error_text :: "template_error \<Rightarrow> string" where
  "template_error_text e = (case e of
       Unterminated \<Rightarrow> ''unterminated `{{` in template''
     | MissingKey k \<Rightarrow> ''template variable {{ '' @ k @ '' }} not found''
     | NotScalar k \<Rightarrow> ''template variable {{ '' @ k @ '' }} is array/object; only scalar substitution is supported'')"

definition yaml_kind :: "yaml \<Rightarrow> string" where
  "yaml_kind v = (case v of YNull \<Rightarrow> ''null'' | YBool _ \<Rightarrow> ''bool'' | YNumber _ \<Rightarrow> ''number'' | YString _ \<Rightarrow> ''string''
     | YSequence _ \<Rightarrow> ''sequence'' | YMapping _ \<Rightarrow> ''mapping'' | YTagged _ \<Rightarrow> ''tagged'')"

definition origin_key :: string where
  "origin_key = ''iac.example/composite-of''"

text \<open>\<open>entry(k).or_insert_with(empty object)\<close>, then a change of the member if it is an object.\<close>

definition in_member :: "string \<Rightarrow> ((string \<times> json) list \<Rightarrow> (string \<times> json) list) \<Rightarrow> (string \<times> json) list \<Rightarrow> (string \<times> json) list" where
  "in_member k f m =
     (case map_of m k of
        None \<Rightarrow> jset k (JObj (f [])) m
      | Some (JObj sub) \<Rightarrow> jset k (JObj (f sub)) m
      | Some _ \<Rightarrow> m)"

definition annotate_origin :: "string \<Rightarrow> json \<Rightarrow> json" where
  "annotate_origin origin v =
     (case v of
        JObj m \<Rightarrow> JObj (in_member ''metadata'' (in_member ''annotations'' (jset origin_key (JStr origin))) m)
      | _ \<Rightarrow> v)"

definition module_item :: "module_def \<Rightarrow> nat \<times> json option \<Rightarrow> json api_result" where
  "module_item m = (\<lambda>(i, item). case item of
       None \<Rightarrow> bad ''{}: template item {i} not JSON-compatible: {e}'' [mo_name m, show_nat i]
     | Some v \<Rightarrow> Inr (annotate_origin (mo_name m) v))"

definition expand_module :: "yaml_parser \<Rightarrow> module_def \<Rightarrow> json \<Rightarrow> json list api_result" where
  "expand_module Y m raw =
     bindE (module_vars m raw) (\<lambda>vars.
       (case render_json_top_scalars (mo_template m) vars of
          Inl e \<Rightarrow> bad ''{}: template render: {e}'' [mo_name m, template_error_text e]
        | Inr text \<Rightarrow>
            (case Y text of
               None \<Rightarrow> bad ''{}: template YAML: {e}'' [mo_name m]
             | Some (YSequence items) \<Rightarrow> traverse (module_item m) (enumerate 0 items)
             | Some y \<Rightarrow> bad ''{}: template must produce a YAML sequence (array of resources), got {:?}''
                           [mo_name m, yaml_kind y])))"

section \<open>Validated templates\<close>

text \<open>The scan of the validation finds what the renderer looks up.\<close>

lemma template_variables_split:
  "template_variables s =
     (case split_at_pair (CHR ''{'') s of
        None \<Rightarrow> []
      | Some (before, after) \<Rightarrow>
          (case split_at_pair (CHR ''}'') after of
             None \<Rightarrow> []
           | Some (inner, rest') \<Rightarrow>
               (if trim inner \<noteq> [] then trim inner # template_variables rest' else template_variables rest')))"
proof (induction "CHR ''{''" s rule: split_at_pair.induct)
  case (1 a b s)
  then show ?case by (subst template_variables.simps) (auto split: option.splits)
qed (simp_all add: template_variables.simps)

lemma render_missing:
  "render_loop (json_scalar vars) out s = Inl e \<Longrightarrow>
     e = Unterminated \<or> (\<exists>k. (k = [] \<or> k \<in> set (template_variables s))
       \<and> (e = MissingKey k \<and> map_of vars k = None \<or> e = NotScalar k \<and> map_of vars k \<noteq> None))"
proof (induction "json_scalar vars" out s rule: render_loop.induct)
  case (1 out s)
  show ?case
  proof (cases "split_at_pair (CHR ''{'') s")
    case None
    with "1.prems" show ?thesis by (simp add: render_loop.simps)
  next
    case (Some p)
    obtain before after where p: "p = (before, after)" by force
    show ?thesis
    proof (cases "split_at_pair (CHR ''}'') after")
      case None
      with "1.prems" Some p show ?thesis by (simp add: render_loop.simps)
    next
      case q: (Some q)
      obtain inner rest where qq: "q = (inner, rest)" by force
      have tv: "set (template_variables s) = (if trim inner \<noteq> [] then {trim inner} else {}) \<union> set (template_variables rest)"
        by (subst template_variables_split) (simp add: Some p q qq)
      have key: "trim inner = [] \<or> trim inner \<in> set (template_variables s)" by (simp add: tv)
      show ?thesis
      proof (cases "json_scalar vars (trim inner)")
        case (Inl e')
        then have "e' = MissingKey (trim inner) \<and> map_of vars (trim inner) = None"
          by (auto simp: json_scalar_def split: option.splits json.splits)
        moreover have "e = e'" using "1.prems" Some p q qq Inl by (simp add: render_loop.simps)
        ultimately show ?thesis using key by auto
      next
        case (Inr r)
        show ?thesis
        proof (cases r)
          case None
          then have "map_of vars (trim inner) \<noteq> None" using Inr by (auto simp: json_scalar_def split: option.splits)
          moreover have "e = NotScalar (trim inner)" using "1.prems" Some p q qq Inr None by (simp add: render_loop.simps)
          ultimately show ?thesis using key by auto
        next
          case sx: (Some x)
          have "render_loop (json_scalar vars) (out @ before @ x) rest = Inl e"
            using "1.prems" Some p q qq Inr sx by (simp add: render_loop.simps [of "json_scalar vars" out s])
          then show ?thesis
            using "1.hyps" [OF Some p [symmetric] q qq [symmetric] refl Inr sx] tv by (auto split: if_splits)
        qed
      qed
    qed
  qed
qed

lemma fst_jset: "fst ` set (jset k v m) = insert k (fst ` set m)"
  by (simp add: jset_def fst_bt_insert)

lemma bind_parameters_dom:
  "bind_parameters m spec ps vars = Inr vars' \<Longrightarrow> fst ` set vars' = mp_name ` set ps \<union> fst ` set vars"
proof (induction ps arbitrary: vars)
  case (Cons p ps)
  from Cons.prems obtain v where "bind_parameters m spec ps (jset (mp_name p) v vars) = Inr vars'"
    by (auto simp: bindE_Inr_iff)
  from Cons.IH [OF this] show ?case by (auto simp: fst_jset)
qed simp

lemma module_vars_dom:
  assumes "module_vars m raw = Inr vars"
  shows "fst ` set vars = mp_name ` set (mo_parameters m) \<union> set reserved_vars"
proof -
  from assms obtain name environment where
    "bind_parameters m (module_spec raw) (mo_parameters m)
       (jset ''environment'' (JStr environment) (jset ''name'' (JStr name) [])) = Inr vars"
    unfolding module_vars_def by (auto split: option.splits prod.splits simp: bad_def elim!: bindE_InrE)
  from bind_parameters_dom [OF this] show ?thesis by (auto simp: fst_jset reserved_vars_def)
qed

lemma validated_variables:
  assumes "validate_module U m = Inr ()" "v \<in> set (template_variables (mo_template m))"
  shows "v \<in> set (map mp_name (mo_parameters m)) \<union> set reserved_vars"
proof -
  have "check_variables (mo_parameters m) (template_variables (mo_template m)) = Inr ()"
    using assms(1) by (auto simp: validate_module_def bindE_Inr_iff split: if_splits)
  then have "find (\<lambda>v. v \<notin> set reserved_vars \<and> \<not> list_ex (\<lambda>p. mp_name p = v) (mo_parameters m)) (template_variables (mo_template m)) = None"
    by (simp add: check_variables_def split: option.splits)
  with assms(2) show ?thesis by (auto simp: find_None_iff list_ex_iff)
qed

text \<open>
  A module accepted at configuration load never fails at expansion for want of a variable. Once
  the parameters of a resource are bound, its template can fail to render only because a pair of
  braces is not closed, because a variable holds an array or an object, or because of a variable
  with an empty name, which the validation does not look at.
\<close>

theorem validated_module_renders:
  assumes "validate_module U m = Inr ()" "module_vars m raw = Inr vars"
    and "render_json_top_scalars (mo_template m) vars = Inl e"
  shows "e = Unterminated \<or> e = MissingKey [] \<or> (\<exists>k. e = NotScalar k \<and> map_of vars k \<noteq> None)"
proof -
  have "render_loop (json_scalar vars) [] (mo_template m) = Inl e"
    using assms(3) by (simp add: render_json_top_scalars_def render_def)
  from render_missing [OF this] show ?thesis
    using validated_variables [OF assms(1)] module_vars_dom [OF assms(2)] by (auto simp: map_of_eq_None_iff)
qed

definition sample_module :: module_def where
  "sample_module = \<lparr>mo_name = ''db'', mo_description = ''database'', mo_emits = [''file''],
     mo_parameters = [\<lparr>mp_name = ''size'', mp_type = ''number'', mp_required = True, mp_default = None, mp_description = []\<rparr>],
     mo_template = ''- {{ name }}: {{ size }}''\<rparr>"

definition sample_composite :: "json \<Rightarrow> json" where
  "sample_composite sz = jobject [(''kind'', JStr ''db''), (''metadata'', jobject [(''name'', JStr ''main'')]),
     (''spec'', jobject [(''size'', sz)])]"

theorem validated_module_renders_witness:
  "\<exists>vars e. module_vars sample_module (sample_composite (JArr [])) = Inr vars
     \<and> render_json_top_scalars (mo_template sample_module) vars = Inl e \<and> e \<noteq> MissingKey ''size''"
proof -
  have v: "validate_module (\<lambda>_. False) sample_module = Inr ()" by code_simp
  have b: "module_vars sample_module (sample_composite (JArr [])) =
      Inr [(''environment'', JStr ''default''), (''name'', JStr ''main''), (''size'', JArr [])]" by code_simp
  have r: "render_json_top_scalars (mo_template sample_module)
      [(''environment'', JStr ''default''), (''name'', JStr ''main''), (''size'', JArr [])] = Inl (NotScalar ''size'')" by code_simp
  from validated_module_renders [OF v b r] show ?thesis using b r by auto
qed

text \<open>A variable with an empty name passes the validation and fails whenever the module is used.\<close>

lemma empty_variable_unchecked:
  "validate_module U (sample_module\<lparr>mo_parameters := [], mo_template := ''{{ }}''\<rparr>) = Inr ()"
  "render_json_top_scalars ''{{ }}'' vars = Inl (MissingKey []) \<or> map_of vars [] \<noteq> None"
proof -
  have "template_variables ''{{ }}'' = []" "trim '' '' = []" by code_simp+
  then show "validate_module U (sample_module\<lparr>mo_parameters := [], mo_template := ''{{ }}''\<rparr>) = Inr ()"
    and "render_json_top_scalars ''{{ }}'' vars = Inl (MissingKey []) \<or> map_of vars [] \<noteq> None"
    by (auto simp: validate_module_def sample_module_def check_variables_def alphanumeric_def built_in_kinds_def trim_plain plain_byte_def
        white_space_def render_json_top_scalars_def render_def render_loop.simps json_scalar_def)
qed

end
