(* ===== verification/Expansion.thy ===== *)
theory Expansion
  imports Modules "HOL-Library.Code_Target_Numeral"
begin

text \<open>
  Composite resources (\<open>expansion.rs\<close>): the catalogue of the built-in composites, the expansion of
  each into primitive resources, and the passes that expand until nothing composite is left.
\<close>

section \<open>The catalogue\<close>

record spec_field =
  sf_name :: string
  sf_type :: string
  sf_required :: bool
  sf_description :: string

record expander_descriptor =
  xd_kind :: string
  xd_description :: string
  xd_emits :: "string list"
  xd_spec_fields :: "spec_field list"

definition f_req :: "string \<Rightarrow> string \<Rightarrow> string \<Rightarrow> spec_field" where
  "f_req name ty description = \<lparr>sf_name = name, sf_type = ty, sf_required = True, sf_description = description\<rparr>"

definition f_opt :: "string \<Rightarrow> string \<Rightarrow> string \<Rightarrow> spec_field" where
  "f_opt name ty description = \<lparr>sf_name = name, sf_type = ty, sf_required = False, sf_description = description\<rparr>"

definition selector_field :: spec_field where
  "selector_field = f_opt ''hostSelector'' ''object'' ''{ name: <agent-name> } pinning the resources to a specific agent''"

definition list_expanders :: "expander_descriptor list" where
  "list_expanders =
    [\<lparr>xd_kind = ''service'',
      xd_description = ''docker.container + nginx.vhost '' @ [CHR 0xE2, CHR 0x80, CHR 0x94] @ '' a web service behind a reverse proxy'',
      xd_emits = [''docker.container'', ''nginx.vhost''],
      xd_spec_fields = [
        f_req ''image'' ''string'' ''Container image reference (e.g. nginx:1.27-alpine)'',
        f_req ''port'' ''number'' ''Published host port (1..=65535)'',
        f_req ''domain'' ''string'' ''Public domain wired into the nginx vhost'',
        f_opt ''internal_port'' ''number'' (''Container'' @ [CHR 0x27] @ ''s listen port; default 80''),
        f_opt ''env'' ''map<string,string>'' ''Container env vars (KEY=VALUE)'',
        f_opt ''restart_policy'' ''string'' (''Docker restart policy; default '' @ [CHR 0x22] @ ''unless-stopped'' @ [CHR 0x22]),
        f_opt ''nginx_config_path'' ''string'' ''Override the nginx config path; default /etc/nginx/conf.d/<name>.conf'',
        selector_field]\<rparr>,
     \<lparr>xd_kind = ''cron-job-bundle'',
      xd_description = ''file (script body) + cron.job (schedule) tied together so the cron command points at the script path'',
      xd_emits = [''cron.job'', ''file''],
      xd_spec_fields = [
        f_req ''schedule'' ''string'' ''5-field crontab schedule (min hour dom mon dow)'',
        f_req ''script'' ''string'' ''Verbatim script body written to scriptPath'',
        f_opt ''scriptPath'' ''string'' ''Override script location; default /usr/local/bin/<name>'',
        f_opt ''user'' ''string'' ''Cron user; default root'',
        f_opt ''mode'' ''string'' ''File mode (octal string); default 0755'',
        f_opt ''env'' ''map<string,string>'' ''Cron env-var lines emitted at the top of the cron file'',
        selector_field]\<rparr>,
     \<lparr>xd_kind = ''web-with-monitoring'',
      xd_description = ''service + healthcheck (file + cron.job that curls the upstream'' @ [CHR 0x27] @ ''s health path and logs to syslog)'',
      xd_emits = [''cron.job'', ''docker.container'', ''file'', ''nginx.vhost''],
      xd_spec_fields = [
        f_req ''image'' ''string'' ''Container image reference'',
        f_req ''port'' ''number'' ''Published host port'',
        f_req ''domain'' ''string'' ''Public domain'',
        f_opt ''health_path'' ''string'' ''Path probed by the healthcheck; default /healthz'',
        f_opt ''check_interval_minutes'' ''number'' ''Probe cadence in minutes (1..=60); default 5'',
        f_opt ''internal_port'' ''number'' (''Container'' @ [CHR 0x27] @ ''s listen port; default 80''),
        f_opt ''env'' ''map<string,string>'' ''Container env vars'',
        f_opt ''restart_policy'' ''string'' (''Docker restart policy; default '' @ [CHR 0x22] @ ''unless-stopped'' @ [CHR 0x22]),
        selector_field]\<rparr>]"

definition list_all_expanders :: "module_def list \<Rightarrow> expander_descriptor list" where
  "list_all_expanders M = list_expanders @ map (\<lambda>m.
     \<lparr>xd_kind = mo_name m, xd_description = mo_description m, xd_emits = mo_emits m,
      xd_spec_fields = map (\<lambda>p. \<lparr>sf_name = mp_name p, sf_type = mp_type p, sf_required = mp_required p,
        sf_description = mp_description p\<rparr>) (mo_parameters m)\<rparr>) M"

section \<open>Derived deserializers\<close>

text \<open>A struct with \<open>deny_unknown_fields\<close> is read from an object, or from an array in field order.\<close>

definition struct_fields :: "string list \<Rightarrow> json \<Rightarrow> (string \<times> json) list option" where
  "struct_fields names v =
     (case v of
        JObj m \<Rightarrow> if set (map fst m) \<subseteq> set names then Some m else None
      | JArr xs \<Rightarrow> if length xs \<le> length names then Some (zip names xs) else None
      | _ \<Rightarrow> None)"

definition required_field :: "(json \<Rightarrow> 'a option) \<Rightarrow> (string \<times> json) list \<Rightarrow> string \<Rightarrow> 'a option" where
  "required_field f m k = Option.bind (map_of m k) f"

definition default_field :: "(json \<Rightarrow> 'a option) \<Rightarrow> 'a \<Rightarrow> (string \<times> json) list \<Rightarrow> string \<Rightarrow> 'a option" where
  "default_field f d m k = (case map_of m k of None \<Rightarrow> Some d | Some v \<Rightarrow> f v)"

definition as_option :: "(json \<Rightarrow> 'a option) \<Rightarrow> json \<Rightarrow> 'a option option" where
  "as_option f v = (if v = JNull then Some None else map_option Some (f v))"

definition as_uint :: "nat \<Rightarrow> json \<Rightarrow> nat option" where
  "as_uint bound v = (case v of JNum s \<Rightarrow> (if s = [] then None else parse_digits 10 bound 0 s) | _ \<Rightarrow> None)"

definition as_string_map :: "json \<Rightarrow> (string \<times> string) list option" where
  "as_string_map v =
     (case v of JObj m \<Rightarrow> those (map (\<lambda>(k, x). map_option (Pair k) (as_str x)) m) | _ \<Rightarrow> None)"

definition as_host_selector :: "json \<Rightarrow> string option" where
  "as_host_selector v = Option.bind (struct_fields [''name''] v) (\<lambda>m. required_field as_str m ''name'')"

section \<open>What an expander emits\<close>

definition emitted :: "string \<Rightarrow> string \<Rightarrow> string \<Rightarrow> string \<Rightarrow> (string \<times> json) list \<Rightarrow> json" where
  "emitted kind origin name environment spec =
     jobject [(''apiVersion'', JStr ''iac.example/v1''), (''kind'', JStr kind),
       (''metadata'', jobject [(''name'', JStr name), (''environment'', JStr environment),
          (''annotations'', jobject [(origin_key, JStr origin)])]),
       (''spec'', jobject spec)]"

definition env_entry :: "(string \<times> string) list \<Rightarrow> (string \<times> json) list" where
  "env_entry env = (if env = [] then [] else [(''env'', jobject (map (\<lambda>(k, v). (k, JStr v)) env))])"

definition host_entry :: "string option \<Rightarrow> (string \<times> json) list" where
  "host_entry hs = (case hs of None \<Rightarrow> [] | Some h \<Rightarrow> [(''hostSelector'', jobject [(''name'', JStr h)])])"

definition docker_entries :: "string \<Rightarrow> string \<Rightarrow> string \<Rightarrow> nat \<Rightarrow> nat \<Rightarrow> (string \<times> string) list \<Rightarrow> string option
    \<Rightarrow> (string \<times> json) list" where
  "docker_entries name img restart port internal env hs =
     [(''name'', JStr name), (''image'', JStr img), (''state'', JStr ''present''), (''restart_policy'', JStr restart),
      (''ports'', JArr [JStr (show_nat port @ '':'' @ show_nat internal)])] @ env_entry env @ host_entry hs"

definition nginx_entries :: "string \<Rightarrow> string \<Rightarrow> nat \<Rightarrow> string option \<Rightarrow> (string \<times> json) list" where
  "nginx_entries path domain port hs =
     [(''config_path'', JStr path), (''server_names'', JArr [JStr domain]),
      (''upstream'', JStr (''http://127.0.0.1:'' @ show_nat port))] @ host_entry hs"

definition file_entries :: "string \<Rightarrow> string \<Rightarrow> string \<Rightarrow> string option \<Rightarrow> (string \<times> json) list" where
  "file_entries path mode content hs =
     [(''path'', JStr path), (''state'', JStr ''present''), (''mode'', JStr mode), (''content'', JStr content)] @ host_entry hs"

definition cron_entries :: "string \<Rightarrow> string \<Rightarrow> string \<Rightarrow> string \<Rightarrow> (string \<times> string) list \<Rightarrow> string option
    \<Rightarrow> (string \<times> json) list" where
  "cron_entries name schedule command user env hs =
     [(''name'', JStr name), (''state'', JStr ''present''), (''schedule'', JStr schedule), (''command'', JStr command),
      (''user'', JStr user)] @ env_entry env @ host_entry hs"

section \<open>service\<close>

record service_spec =
  sv_image :: string
  sv_port :: nat
  sv_domain :: string
  sv_internal_port :: nat
  sv_env :: "(string \<times> string) list"
  sv_restart_policy :: string
  sv_nginx_config_path :: "string option"
  sv_host_selector :: "string option"

definition service_fields :: "string list" where
  "service_fields = [''image'', ''port'', ''domain'', ''internal_port'', ''env'', ''restart_policy'', ''nginx_config_path'', ''hostSelector'']"

definition deserialize_service :: "json \<Rightarrow> service_spec option" where
  "deserialize_service v =
     Option.bind (struct_fields service_fields v) (\<lambda>m.
     Option.bind (required_field as_str m ''image'') (\<lambda>img.
     Option.bind (required_field (as_uint (2 ^ 16)) m ''port'') (\<lambda>port.
     Option.bind (required_field as_str m ''domain'') (\<lambda>domain.
     Option.bind (default_field (as_uint (2 ^ 16)) 80 m ''internal_port'') (\<lambda>internal.
     Option.bind (default_field as_string_map [] m ''env'') (\<lambda>env.
     Option.bind (default_field as_str ''unless-stopped'' m ''restart_policy'') (\<lambda>restart.
     Option.bind (default_field (as_option as_str) None m ''nginx_config_path'') (\<lambda>path.
     Option.bind (default_field (as_option as_host_selector) None m ''hostSelector'') (\<lambda>hs.
       Some \<lparr>sv_image = img, sv_port = port, sv_domain = domain, sv_internal_port = internal, sv_env = env,
         sv_restart_policy = restart, sv_nginx_config_path = path, sv_host_selector = hs\<rparr>)))))))))"

text \<open>Name, environment and specification of a composite: what every expander reads first.\<close>

definition composite_spec :: "string \<Rightarrow> (json \<Rightarrow> 'a option) \<Rightarrow> json \<Rightarrow> (string \<times> string \<times> 'a) api_result" where
  "composite_spec label deserialize raw =
     bindE (composite_metadata label raw) (\<lambda>(name, environment).
       (case jget raw ''spec'' of
          None \<Rightarrow> bad ''{}: spec required'' [label]
        | Some v \<Rightarrow>
            (case deserialize v of
               None \<Rightarrow> bad ''{} spec: {e}'' [label]
             | Some spec \<Rightarrow> Inr (name, environment, spec))))"

definition or_else :: "'a option \<Rightarrow> 'a \<Rightarrow> 'a" where
  "or_else x d = (case x of None \<Rightarrow> d | Some v \<Rightarrow> v)"

definition expand_service :: "json \<Rightarrow> json list api_result" where
  "expand_service raw =
     bindE (composite_spec ''service'' deserialize_service raw) (\<lambda>(name, environment, spec).
       let path = or_else (sv_nginx_config_path spec) (''/etc/nginx/conf.d/'' @ name @ ''.conf'');
           hs = sv_host_selector spec in
       Inr [emitted ''docker.container'' ''service'' name environment
              (docker_entries name (sv_image spec) (sv_restart_policy spec) (sv_port spec) (sv_internal_port spec) (sv_env spec) hs),
            emitted ''nginx.vhost'' ''service'' name environment (nginx_entries path (sv_domain spec) (sv_port spec) hs)])"

section \<open>cron-job-bundle\<close>

record bundle_spec =
  cb_schedule :: string
  cb_script :: string
  cb_script_path :: "string option"
  cb_user :: string
  cb_mode :: string
  cb_env :: "(string \<times> string) list"
  cb_host_selector :: "string option"

definition bundle_fields :: "string list" where
  "bundle_fields = [''schedule'', ''script'', ''scriptPath'', ''user'', ''mode'', ''env'', ''hostSelector'']"

definition deserialize_bundle :: "json \<Rightarrow> bundle_spec option" where
  "deserialize_bundle v =
     Option.bind (struct_fields bundle_fields v) (\<lambda>m.
     Option.bind (required_field as_str m ''schedule'') (\<lambda>schedule.
     Option.bind (required_field as_str m ''script'') (\<lambda>script.
     Option.bind (default_field (as_option as_str) None m ''scriptPath'') (\<lambda>path.
     Option.bind (default_field as_str ''root'' m ''user'') (\<lambda>user.
     Option.bind (default_field as_str ''0755'' m ''mode'') (\<lambda>mode.
     Option.bind (default_field as_string_map [] m ''env'') (\<lambda>env.
     Option.bind (default_field (as_option as_host_selector) None m ''hostSelector'') (\<lambda>hs.
       Some \<lparr>cb_schedule = schedule, cb_script = script, cb_script_path = path, cb_user = user, cb_mode = mode,
         cb_env = env, cb_host_selector = hs\<rparr>))))))))"

definition expand_cron_job_bundle :: "json \<Rightarrow> json list api_result" where
  "expand_cron_job_bundle raw =
     bindE (composite_spec ''cron-job-bundle'' deserialize_bundle raw) (\<lambda>(name, environment, spec).
       let path = or_else (cb_script_path spec) (''/usr/local/bin/'' @ name);
           hs = cb_host_selector spec in
       Inr [emitted ''file'' ''cron-job-bundle'' (name @ ''-script'') environment
              (file_entries path (cb_mode spec) (cb_script spec) hs),
            emitted ''cron.job'' ''cron-job-bundle'' name environment
              (cron_entries name (cb_schedule spec) path (cb_user spec) (cb_env spec) hs)])"

section \<open>web-with-monitoring\<close>

record web_spec =
  wm_image :: string
  wm_port :: nat
  wm_domain :: string
  wm_health_path :: string
  wm_check_interval_minutes :: nat
  wm_internal_port :: nat
  wm_env :: "(string \<times> string) list"
  wm_restart_policy :: string
  wm_host_selector :: "string option"

definition web_fields :: "string list" where
  "web_fields = [''image'', ''port'', ''domain'', ''health_path'', ''check_interval_minutes'', ''internal_port'', ''env'',
     ''restart_policy'', ''hostSelector'']"

definition deserialize_web :: "json \<Rightarrow> web_spec option" where
  "deserialize_web v =
     Option.bind (struct_fields web_fields v) (\<lambda>m.
     Option.bind (required_field as_str m ''image'') (\<lambda>img.
     Option.bind (required_field (as_uint (2 ^ 16)) m ''port'') (\<lambda>port.
     Option.bind (required_field as_str m ''domain'') (\<lambda>domain.
     Option.bind (default_field as_str ''/healthz'' m ''health_path'') (\<lambda>health.
     Option.bind (default_field (as_uint (2 ^ 32)) 5 m ''check_interval_minutes'') (\<lambda>minutes.
     Option.bind (default_field (as_uint (2 ^ 16)) 80 m ''internal_port'') (\<lambda>internal.
     Option.bind (default_field as_string_map [] m ''env'') (\<lambda>env.
     Option.bind (default_field as_str ''unless-stopped'' m ''restart_policy'') (\<lambda>restart.
     Option.bind (default_field (as_option as_host_selector) None m ''hostSelector'') (\<lambda>hs.
       Some \<lparr>wm_image = img, wm_port = port, wm_domain = domain, wm_health_path = health,
         wm_check_interval_minutes = minutes, wm_internal_port = internal, wm_env = env,
         wm_restart_policy = restart, wm_host_selector = hs\<rparr>))))))))))"

definition healthcheck_script :: "string \<Rightarrow> string \<Rightarrow> string" where
  "healthcheck_script name url =
     ''#!/bin/sh'' @ [CHR 0x0A] @ ''set -e'' @ [CHR 0x0A] @
     ''curl --max-time 5 --silent --show-error --fail '' @ url @ '' > /dev/null && logger -t '' @ name
     @ ''-healthcheck OK || logger -t '' @ name @ ''-healthcheck FAIL'' @ [CHR 0x0A]"

definition expand_web_with_monitoring :: "json \<Rightarrow> json list api_result" where
  "expand_web_with_monitoring raw =
     bindE (composite_spec ''web-with-monitoring'' deserialize_web raw) (\<lambda>(name, environment, spec).
       if \<not> (1 \<le> wm_check_interval_minutes spec \<and> wm_check_interval_minutes spec \<le> 60)
       then bad ''web-with-monitoring: check_interval_minutes must be 1..=60'' []
       else
         let child = (\<lambda>kind nm entries. emitted kind ''web-with-monitoring'' nm environment entries);
             hs = wm_host_selector spec;
             script_path = ''/usr/local/bin/'' @ name @ ''-healthcheck'';
             url = ''http://127.0.0.1:'' @ show_nat (wm_port spec) @ wm_health_path spec;
             schedule = (if wm_check_interval_minutes spec = 1 then ''* * * * *''
                         else ''*/'' @ show_nat (wm_check_interval_minutes spec) @ '' * * * *'') in
         Inr [child ''docker.container'' name
                (docker_entries name (wm_image spec) (wm_restart_policy spec) (wm_port spec) (wm_internal_port spec) (wm_env spec) hs),
              child ''nginx.vhost'' name (nginx_entries (''/etc/nginx/conf.d/'' @ name @ ''.conf'') (wm_domain spec) (wm_port spec) hs),
              child ''file'' (name @ ''-healthcheck-script'') (file_entries script_path ''0755'' (healthcheck_script name url) hs),
              child ''cron.job'' (name @ ''-healthcheck'')
                (cron_entries (name @ ''-healthcheck'') schedule script_path ''root'' [] hs)])"

section \<open>The passes\<close>

definition max_expansion_depth :: nat where
  "max_expansion_depth = 8"

definition is_composite_kind :: "module_def list \<Rightarrow> string \<Rightarrow> bool" where
  "is_composite_kind M kind \<longleftrightarrow> kind \<in> set built_in_kinds \<or> list_ex (\<lambda>m. mo_name m = kind) M"

text \<open>One resource of a pass: its replacement, and whether it was a composite.\<close>

definition expand_one :: "yaml_parser \<Rightarrow> module_def list \<Rightarrow> json \<Rightarrow> (json list \<times> bool) api_result" where
  "expand_one Y M raw =
     (case Option.bind (jget raw ''kind'') as_str of
        None \<Rightarrow> bad (''resource missing '' @ [CHR 0x27] @ ''kind'' @ [CHR 0x27]) []
      | Some kind \<Rightarrow>
          if kind = ''service'' then bindE (expand_service raw) (\<lambda>cs. Inr (cs, True))
          else if kind = ''cron-job-bundle'' then bindE (expand_cron_job_bundle raw) (\<lambda>cs. Inr (cs, True))
          else if kind = ''web-with-monitoring'' then bindE (expand_web_with_monitoring raw) (\<lambda>cs. Inr (cs, True))
          else (case find (\<lambda>m. mo_name m = kind) M of
                  Some m \<Rightarrow> bindE (expand_module Y m raw) (\<lambda>cs. Inr (cs, True))
                | None \<Rightarrow> Inr ([raw], False)))"

fun expand_pass :: "yaml_parser \<Rightarrow> module_def list \<Rightarrow> json list \<Rightarrow> json list \<Rightarrow> bool \<Rightarrow> (json list \<times> bool) api_result" where
  "expand_pass Y M [] out changed = Inr (out, changed)"
| "expand_pass Y M (raw # rs) out changed =
     bindE (expand_one Y M raw) (\<lambda>(cs, c). expand_pass Y M rs (out @ cs) (changed \<or> c))"

definition expand_resources_one_pass :: "yaml_parser \<Rightarrow> module_def list \<Rightarrow> json list \<Rightarrow> (json list \<times> bool) api_result" where
  "expand_resources_one_pass Y M rs = expand_pass Y M rs [] False"

text \<open>The kinds still composite, as the ordered set of the message.\<close>

definition cyclic_kinds :: "module_def list \<Rightarrow> json list \<Rightarrow> string list" where
  "cyclic_kinds M rs = sort (remdups (filter (is_composite_kind M) (List.map_filter (\<lambda>r. Option.bind (jget r ''kind'') as_str) rs)))"

text \<open>\<open>n\<close> counts down from the maximal depth.\<close>

fun expand_loop :: "yaml_parser \<Rightarrow> module_def list \<Rightarrow> nat \<Rightarrow> json list \<Rightarrow> json list api_result" where
  "expand_loop Y M n current =
     bindE (expand_resources_one_pass Y M current) (\<lambda>(next_rs, changed).
       if \<not> changed then Inr next_rs
       else (case n of
               0 \<Rightarrow> bad ''expansion exceeded MAX_EXPANSION_DEPTH ({MAX_EXPANSION_DEPTH}); Composite kinds remaining after final pass: {cyclic:?}''
                      (show_nat max_expansion_depth # cyclic_kinds M next_rs)
             | Suc n' \<Rightarrow> expand_loop Y M n' next_rs))"

declare expand_loop.simps [simp del]

definition expand_resources :: "yaml_parser \<Rightarrow> module_def list \<Rightarrow> json list \<Rightarrow> json list api_result" where
  "expand_resources Y M rs = expand_loop Y M max_expansion_depth rs"

section \<open>Depth-first expansion\<close>

text \<open>The abstract view: each resource is the root of a tree of replacements of bounded depth, and the
  result is the list of the leaves.\<close>

primrec gather :: "('a \<Rightarrow> 'b list option) \<Rightarrow> 'a list \<Rightarrow> 'b list option" where
  "gather f [] = Some []"
| "gather f (x # xs) = Option.bind (f x) (\<lambda>a. Option.bind (gather f xs) (\<lambda>b. Some (a @ b)))"

definition grow :: "(json \<Rightarrow> json list option) option \<Rightarrow> (json list \<times> bool) api_result \<Rightarrow> json list option" where
  "grow deeper r =
     (case r of
        Inl _ \<Rightarrow> None
      | Inr (cs, composite) \<Rightarrow>
          if \<not> composite then Some cs else (case deeper of None \<Rightarrow> None | Some f \<Rightarrow> gather f cs))"

primrec expand_tree :: "yaml_parser \<Rightarrow> module_def list \<Rightarrow> nat \<Rightarrow> json \<Rightarrow> json list option" where
  "expand_tree Y M 0 raw = grow None (expand_one Y M raw)"
| "expand_tree Y M (Suc n) raw = grow (Some (expand_tree Y M n)) (expand_one Y M raw)"

lemma gather_append:
  "gather f (xs @ ys) = Option.bind (gather f xs) (\<lambda>a. Option.bind (gather f ys) (\<lambda>b. Some (a @ b)))"
  by (induction xs) (auto simp: bind_eq_None_conv split: Option.bind_split)

lemma expand_pass_traverse:
  "expand_pass Y M rs out ch =
     bindE (traverse (expand_one Y M) rs) (\<lambda>ps. Inr (out @ concat (map fst ps), ch \<or> list_ex snd ps))"
  by (induction rs arbitrary: out ch) (auto simp: bindE_def split: sum.splits)

lemma expand_one_False: "expand_one Y M raw = Inr (cs, False) \<Longrightarrow> cs = [raw]"
  by (auto simp: expand_one_def bad_def split: option.splits if_splits elim!: bindE_InrE)

lemma tree_primitive: "expand_one Y M raw = Inr (cs, False) \<Longrightarrow> expand_tree Y M n raw = Some [raw]"
  by (cases n) (auto simp: grow_def dest: expand_one_False)

lemma tree_fails: "expand_one Y M raw = Inl e \<Longrightarrow> expand_tree Y M n raw = None"
  by (cases n) (auto simp: grow_def)

lemma gather_fails: "traverse (expand_one Y M) rs = Inl e \<Longrightarrow> gather (expand_tree Y M n) rs = None"
  by (induction rs arbitrary: e) (auto simp: bindE_Inl_iff tree_fails bind_eq_None_conv)

lemma gather_unchanged:
  "traverse (expand_one Y M) rs = Inr ps \<Longrightarrow> \<not> list_ex snd ps
     \<Longrightarrow> concat (map fst ps) = rs \<and> gather (expand_tree Y M n) rs = Some rs"
proof (induction rs arbitrary: ps)
  case (Cons r rs)
  then obtain cs qs where "ps = (cs, False) # qs" "expand_one Y M r = Inr (cs, False)" "traverse (expand_one Y M) rs = Inr qs"
    "\<not> list_ex snd qs" by (auto simp: bindE_Inr_iff)
  with Cons.IH [of qs] expand_one_False [of Y M r cs] show ?case by (simp add: tree_primitive)
qed simp

lemma gather_step:
  "traverse (expand_one Y M) rs = Inr ps
     \<Longrightarrow> gather (expand_tree Y M (Suc n)) rs = gather (expand_tree Y M n) (concat (map fst ps))"
proof (induction rs arbitrary: ps)
  case (Cons r rs)
  then obtain cs c qs where ps: "ps = (cs, c) # qs" and one: "expand_one Y M r = Inr (cs, c)"
    and qs: "traverse (expand_one Y M) rs = Inr qs" by (auto simp: bindE_Inr_iff)
  have "expand_tree Y M (Suc n) r = gather (expand_tree Y M n) cs"
  proof (cases c)
    case False
    with one have "cs = [r]" "expand_tree Y M n r = Some [r]" by (auto dest: expand_one_False intro: tree_primitive)
    with one False show ?thesis by (simp add: grow_def)
  qed (simp add: one grow_def)
  with Cons.IH [OF qs] show ?case by (simp add: ps gather_append)
qed simp

lemma gather_too_deep:
  "traverse (expand_one Y M) rs = Inr ps \<Longrightarrow> list_ex snd ps \<Longrightarrow> gather (expand_tree Y M 0) rs = None"
  by (induction rs arbitrary: ps) (auto simp: bindE_Inr_iff grow_def bind_eq_None_conv)

lemma loop_is_gather: "expand_loop Y M n rs = Inr out \<longleftrightarrow> gather (expand_tree Y M n) rs = Some out"
proof (induction n arbitrary: rs)
  case 0
  show ?case
  proof (cases "traverse (expand_one Y M) rs")
    case (Inr ps)
    then show ?thesis
      using gather_unchanged [OF Inr] gather_too_deep [OF Inr]
      by (subst expand_loop.simps) (auto simp: expand_resources_one_pass_def expand_pass_traverse bad_def)
  qed (use gather_fails in \<open>auto simp: expand_loop.simps expand_resources_one_pass_def expand_pass_traverse simp del: expand_tree.simps\<close>)
next
  case (Suc n)
  show ?case
  proof (cases "traverse (expand_one Y M) rs")
    case (Inr ps)
    then show ?thesis
      using gather_unchanged [OF Inr] gather_step [OF Inr, of n] Suc.IH
      by (subst expand_loop.simps) (auto simp: expand_resources_one_pass_def expand_pass_traverse simp del: expand_tree.simps)
  qed (use gather_fails in \<open>auto simp: expand_loop.simps expand_resources_one_pass_def expand_pass_traverse simp del: expand_tree.simps\<close>)
qed

text \<open>
  C26. The passes compute the leaves of the replacement trees. A request expands successfully exactly
  when the tree of every resource in it is at most eight levels deep and every composite in it
  expands, and then the result is the leaves of the trees in the order of the request: a child takes
  the place of its composite and no resource influences what another one becomes.
\<close>

theorem expansion_is_depth_first:
  "expand_resources Y M rs = Inr out \<longleftrightarrow> gather (expand_tree Y M 8) rs = Some out"
  unfolding expand_resources_def max_expansion_depth_def by (rule loop_is_gather)

section \<open>Nothing composite is left\<close>

lemma expand_one_primitive:
  "expand_one Y M raw = Inr ([raw], False) \<longleftrightarrow> (\<exists>kind. jget raw ''kind'' = Some (JStr kind) \<and> \<not> is_composite_kind M kind)"
proof (cases "Option.bind (jget raw ''kind'') as_str")
  case None
  then show ?thesis by (auto simp: expand_one_def bad_def)
next
  case (Some kind)
  then have k: "jget raw ''kind'' = Some (JStr kind)" by (auto simp: bind_eq_Some_conv as_str_Some_iff)
  have f: "find (\<lambda>m. mo_name m = kind) M = None \<longleftrightarrow> \<not> list_ex (\<lambda>m. mo_name m = kind) M"
    by (auto simp: find_None_iff list_ex_iff)
  show ?thesis
    using f by (auto simp: expand_one_def Some k is_composite_kind_def built_in_kinds_def bindE_Inr_iff split: option.splits)
qed

lemma loop_leaves:
  "expand_loop Y M n rs = Inr out \<Longrightarrow> \<forall>r \<in> set out. expand_one Y M r = Inr ([r], False)"
proof (induction n arbitrary: rs)
  have fix_point: "\<forall>r \<in> set qs. expand_one Y M r = Inr ([r], False)"
    if "traverse (expand_one Y M) qs = Inr ps" "\<not> list_ex snd ps" for qs ps
    using that by (induction qs arbitrary: ps) (auto simp: bindE_Inr_iff dest: expand_one_False)
  {
    case 0
    then show ?case using fix_point gather_unchanged
      by (subst (asm) expand_loop.simps)
         (fastforce simp: expand_resources_one_pass_def expand_pass_traverse bad_def elim!: bindE_InrE split: if_splits)
  next
    case (Suc n)
    then show ?case using fix_point gather_unchanged
      by (subst (asm) expand_loop.simps)
         (fastforce simp: expand_resources_one_pass_def expand_pass_traverse elim!: bindE_InrE split: if_splits)
  }
qed

lemma gather_primitive:
  "\<forall>r \<in> set rs. expand_one Y M r = Inr ([r], False) \<Longrightarrow> gather (expand_tree Y M n) rs = Some rs"
  by (induction rs) (auto simp: tree_primitive)

text \<open>
  What leaves the expansion is primitive. Every resource of a successful expansion has a kind, and
  it is neither a built-in composite nor the name of a module; expanding the result again changes
  nothing.
\<close>

theorem expansion_reaches_primitives:
  assumes "expand_resources Y M rs = Inr out"
  shows "(\<forall>r \<in> set out. \<exists>kind. jget r ''kind'' = Some (JStr kind) \<and> \<not> is_composite_kind M kind)
    \<and> expand_resources Y M out = Inr out"
  using loop_leaves [OF assms [unfolded expand_resources_def]] gather_primitive [of out Y M max_expansion_depth]
  by (auto simp: expand_one_primitive expand_resources_def loop_is_gather)

section \<open>Children agree with each other and with the catalogue\<close>

definition child_kind :: "json \<Rightarrow> string" where
  "child_kind c = (case jget c ''kind'' of Some (JStr k) \<Rightarrow> k | _ \<Rightarrow> [])"

definition expand_built_in :: "string \<Rightarrow> json \<Rightarrow> json list api_result" where
  "expand_built_in kind raw =
     (if kind = ''service'' then expand_service raw
      else if kind = ''cron-job-bundle'' then expand_cron_job_bundle raw
      else if kind = ''web-with-monitoring'' then expand_web_with_monitoring raw
      else bad ''not a composite'' [])"

lemma entry_lookup [simp]:
  "map_of (rev (env_entry env)) k = (if k = ''env'' \<and> env \<noteq> [] then Some (jobject (map (\<lambda>(k, v). (k, JStr v)) env)) else None)"
  "map_of (rev (host_entry hs)) k = (if k = ''hostSelector'' then map_option (\<lambda>h. jobject [(''name'', JStr h)]) hs else None)"
  by (auto simp: env_entry_def host_entry_def split: option.splits)

lemma jget_emitted [simp]:
  "jget (emitted kind origin name environment spec) ''kind'' = Some (JStr kind)"
  "jpath (emitted kind origin name environment spec) [''metadata'', ''environment''] = Some (JStr environment)"
  "jpath (emitted kind origin name environment spec) [''metadata'', ''annotations'', origin_key] = Some (JStr origin)"
  "jpath (emitted kind origin name environment spec) [''spec'', k] = map_of (rev spec) k"
  by (simp_all add: emitted_def jget_jobject)

declare jpath.simps [simp del]

lemma child_kind_emitted [simp]: "child_kind (emitted kind origin name environment spec) = kind"
  by (simp add: child_kind_def)

lemmas entries_defs = docker_entries_def nginx_entries_def file_entries_def cron_entries_def

text \<open>The origin, the environment and the host of a child.\<close>

definition placement :: "json \<Rightarrow> json option \<times> json option \<times> json option" where
  "placement c = (jpath c [''metadata'', ''annotations'', origin_key], jpath c [''metadata'', ''environment''],
     jpath c [''spec'', ''hostSelector''])"

lemma placement_emitted:
  "placement (emitted kind origin name environment (docker_entries a b r p i env hs)) =
     (Some (JStr origin), Some (JStr environment), map_option (\<lambda>h. jobject [(''name'', JStr h)]) hs)"
  "placement (emitted kind origin name environment (nginx_entries c d p hs)) =
     (Some (JStr origin), Some (JStr environment), map_option (\<lambda>h. jobject [(''name'', JStr h)]) hs)"
  "placement (emitted kind origin name environment (file_entries c m t hs)) =
     (Some (JStr origin), Some (JStr environment), map_option (\<lambda>h. jobject [(''name'', JStr h)]) hs)"
  "placement (emitted kind origin name environment (cron_entries a s c u env hs)) =
     (Some (JStr origin), Some (JStr environment), map_option (\<lambda>h. jobject [(''name'', JStr h)]) hs)"
  by (cases hs; simp add: placement_def entries_defs map_add_def)+

text \<open>What the composites promise between their children: the proxy points at the published port, and
  the schedule runs the script that is written.\<close>

definition wired :: "json list \<Rightarrow> bool" where
  "wired cs \<longleftrightarrow>
     (\<forall>c \<in> set cs. \<forall>d \<in> set cs.
        (child_kind c = ''docker.container'' \<and> child_kind d = ''nginx.vhost'' \<longrightarrow>
           (\<exists>p i. jpath c [''spec'', ''ports''] = Some (JArr [JStr (show_nat p @ '':'' @ i)])
              \<and> jpath d [''spec'', ''upstream''] = Some (JStr (''http://127.0.0.1:'' @ show_nat p))))
        \<and> (child_kind c = ''file'' \<and> child_kind d = ''cron.job'' \<longrightarrow>
           jpath c [''spec'', ''path''] = jpath d [''spec'', ''command''] \<and> jpath c [''spec'', ''path''] \<noteq> None))"

lemma entry_values:
  "map_of (rev (docker_entries a b r p i env hs)) ''ports'' = Some (JArr [JStr (show_nat p @ '':'' @ show_nat i)])"
  "map_of (rev (nginx_entries c d p hs)) ''upstream'' = Some (JStr (''http://127.0.0.1:'' @ show_nat p))"
  "map_of (rev (file_entries c m t hs)) ''path'' = Some (JStr c)"
  "map_of (rev (cron_entries a s c u env hs)) ''command'' = Some (JStr c)"
  by (simp_all add: entries_defs map_add_def)

text \<open>
  The children of a built-in composite belong together. They carry the composite's name as origin,
  all have the environment of the composite and the same host selector, the proxy forwards to the
  port the container publishes, the schedule runs the script that is written, and their kinds are
  exactly those the catalogue announces.
\<close>

theorem built_in_children:
  assumes "expand_built_in kind raw = Inr cs"
  shows "wired cs \<and> (\<exists>env host. \<forall>c \<in> set cs. placement c = (Some (JStr kind), Some (JStr env), host)
      \<and> (\<forall>m e. jget raw ''metadata'' = Some (JObj m) \<and> map_of m ''environment'' = Some (JStr e) \<longrightarrow> env = e))
    \<and> (\<exists>d \<in> set list_expanders. xd_kind d = kind \<and> xd_emits d = sort (remdups (map child_kind cs)))"
proof -
  have meta: "env = e"
    if "composite_spec l f raw = Inr (name, env, spec)" "jget raw ''metadata'' = Some (JObj m)" "map_of m ''environment'' = Some (JStr e)"
    for l f name env e m and spec :: 'x
    using that by (auto simp: composite_spec_def composite_metadata_def as_object_def bad_def bindE_Inr_iff split: option.splits)
  consider "kind = ''service''" "expand_service raw = Inr cs" | "kind = ''cron-job-bundle''" "expand_cron_job_bundle raw = Inr cs"
    | "kind = ''web-with-monitoring''" "expand_web_with_monitoring raw = Inr cs"
    using assms by (auto simp: expand_built_in_def bad_def split: if_splits)
  then show ?thesis
  proof cases
    case 1
    then obtain name env spec where s: "composite_spec ''service'' deserialize_service raw = Inr (name, env, spec)"
      by (auto simp: expand_service_def elim!: bindE_InrE)
    with 1 show ?thesis
      by (auto simp: expand_service_def Let_def wired_def placement_emitted entry_values list_expanders_def meta) blast
  next
    case 2
    then obtain name env spec where s: "composite_spec ''cron-job-bundle'' deserialize_bundle raw = Inr (name, env, spec)"
      by (auto simp: expand_cron_job_bundle_def elim!: bindE_InrE)
    with 2 show ?thesis
      by (auto simp: expand_cron_job_bundle_def Let_def wired_def placement_emitted entry_values list_expanders_def meta)
  next
    case 3
    then obtain name env spec where s: "composite_spec ''web-with-monitoring'' deserialize_web raw = Inr (name, env, spec)"
      by (auto simp: expand_web_with_monitoring_def elim!: bindE_InrE)
    with 3 show ?thesis
      by (auto simp: expand_web_with_monitoring_def Let_def wired_def placement_emitted entry_values list_expanders_def meta bad_def
          split: if_splits) blast+
  qed
qed

section \<open>The catalogue and the deserializers\<close>

lemma required_field_key: "required_field f m k = Some x \<Longrightarrow> k \<in> fst ` set m"
  by (force simp: required_field_def bind_eq_Some_conv dest: map_of_SomeD)

lemma struct_fields_object: "struct_fields names (JObj m) = Some m' \<longleftrightarrow> m' = m \<and> fst ` set m \<subseteq> set names"
  by (auto simp: struct_fields_def)

lemma composite_spec_value:
  "composite_spec l f raw = Inr (name, env, spec) \<Longrightarrow> jget raw ''spec'' = Some v \<Longrightarrow> f v = Some spec"
  by (auto simp: composite_spec_def bad_def bindE_Inr_iff split: option.splits)

lemma deserializer_keys:
  "deserialize_service (JObj m) = Some a \<Longrightarrow> {''image'', ''port'', ''domain''} \<subseteq> fst ` set m \<and> fst ` set m \<subseteq> set service_fields"
  "deserialize_bundle (JObj m) = Some b \<Longrightarrow> {''schedule'', ''script''} \<subseteq> fst ` set m \<and> fst ` set m \<subseteq> set bundle_fields"
  "deserialize_web (JObj m) = Some c \<Longrightarrow> {''image'', ''port'', ''domain''} \<subseteq> fst ` set m \<and> fst ` set m \<subseteq> set web_fields"
  by (auto simp: deserialize_service_def deserialize_bundle_def deserialize_web_def bind_eq_Some_conv struct_fields_object
      dest!: required_field_key)

definition field_names :: "(spec_field \<Rightarrow> bool) \<Rightarrow> expander_descriptor \<Rightarrow> string list" where
  "field_names P d = map sf_name (filter P (xd_spec_fields d))"

lemma catalogue_kinds: "map xd_kind list_expanders = [''service'', ''cron-job-bundle'', ''web-with-monitoring'']"
  by (simp add: list_expanders_def)

lemma catalogue_fields:
  "map (field_names sf_required) list_expanders =
     [[''image'', ''port'', ''domain''], [''schedule'', ''script''], [''image'', ''port'', ''domain'']]"
  "map (field_names (\<lambda>_. True)) list_expanders = [service_fields, bundle_fields, web_fields]"
  by (simp_all add: list_expanders_def field_names_def f_req_def f_opt_def selector_field_def service_fields_def bundle_fields_def
      web_fields_def)

lemma catalogue_names:
  assumes "d \<in> set list_expanders"
  shows "xd_kind d = ''service'' \<Longrightarrow> field_names sf_required d = [''image'', ''port'', ''domain''] \<and> field_names (\<lambda>_. True) d = service_fields"
    and "xd_kind d = ''cron-job-bundle'' \<Longrightarrow> field_names sf_required d = [''schedule'', ''script''] \<and> field_names (\<lambda>_. True) d = bundle_fields"
    and "xd_kind d = ''web-with-monitoring'' \<Longrightarrow> field_names sf_required d = [''image'', ''port'', ''domain''] \<and> field_names (\<lambda>_. True) d = web_fields"
proof -
  obtain a b c where l: "list_expanders = [a, b, c]" by (simp add: list_expanders_def)
  have "xd_kind a = ''service''" "xd_kind b = ''cron-job-bundle''" "xd_kind c = ''web-with-monitoring''"
    using catalogue_kinds by (simp_all add: l)
  moreover have "d = a \<or> d = b \<or> d = c" using assms by (simp add: l)
  moreover note catalogue_fields [unfolded l list.map, simplified list.inject]
  ultimately show "xd_kind d = ''service'' \<Longrightarrow> field_names sf_required d = [''image'', ''port'', ''domain''] \<and> field_names (\<lambda>_. True) d = service_fields"
    and "xd_kind d = ''cron-job-bundle'' \<Longrightarrow> field_names sf_required d = [''schedule'', ''script''] \<and> field_names (\<lambda>_. True) d = bundle_fields"
    and "xd_kind d = ''web-with-monitoring'' \<Longrightarrow> field_names sf_required d = [''image'', ''port'', ''domain''] \<and> field_names (\<lambda>_. True) d = web_fields"
    by (elim disjE; simp)+
qed

text \<open>
  The catalogue of \<open>/v1/expanders\<close> tells the truth about the built-in composites. A specification
  that expands sets every field the catalogue calls required and no field it does not list.
\<close>

theorem catalogue_mirrors_specs:
  assumes "expand_built_in kind raw = Inr cs" "jget raw ''spec'' = Some (JObj m)"
    and "d \<in> set list_expanders" "xd_kind d = kind"
  shows "set (field_names sf_required d) \<subseteq> fst ` set m \<and> fst ` set m \<subseteq> set (field_names (\<lambda>_. True) d)"
proof -
  consider "kind = ''service''" "expand_service raw = Inr cs" | "kind = ''cron-job-bundle''" "expand_cron_job_bundle raw = Inr cs"
    | "kind = ''web-with-monitoring''" "expand_web_with_monitoring raw = Inr cs"
    using assms(1) by (auto simp: expand_built_in_def bad_def split: if_splits)
  then show ?thesis
  proof cases
    case 1
    then obtain name env spec where "composite_spec ''service'' deserialize_service raw = Inr (name, env, spec)"
      by (auto simp: expand_service_def elim!: bindE_InrE)
    from deserializer_keys(1) [OF composite_spec_value [OF this assms(2)]] catalogue_names(1) [OF assms(3)] 1 assms(4)
    show ?thesis by simp
  next
    case 2
    then obtain name env spec where "composite_spec ''cron-job-bundle'' deserialize_bundle raw = Inr (name, env, spec)"
      by (auto simp: expand_cron_job_bundle_def elim!: bindE_InrE)
    from deserializer_keys(2) [OF composite_spec_value [OF this assms(2)]] catalogue_names(2) [OF assms(3)] 2 assms(4)
    show ?thesis by simp
  next
    case 3
    then obtain name env spec where "composite_spec ''web-with-monitoring'' deserialize_web raw = Inr (name, env, spec)"
      by (auto simp: expand_web_with_monitoring_def elim!: bindE_InrE)
    from deserializer_keys(3) [OF composite_spec_value [OF this assms(2)]] catalogue_names(3) [OF assms(3)] 3 assms(4)
    show ?thesis by simp
  qed
qed

section \<open>Sample\<close>

definition sample_service :: json where
  "sample_service = jobject [(''kind'', JStr ''service''), (''metadata'', jobject [(''name'', JStr ''web''), (''environment'', JStr ''prod'')]),
     (''spec'', jobject [(''image'', JStr ''nginx''), (''port'', JNum ''8080''), (''domain'', JStr ''x.example'')])]"

definition sample_children :: "json list" where
  "sample_children =
     [emitted ''docker.container'' ''service'' ''web'' ''prod'' (docker_entries ''web'' ''nginx'' ''unless-stopped'' 8080 80 [] None),
      emitted ''nginx.vhost'' ''service'' ''web'' ''prod'' (nginx_entries ''/etc/nginx/conf.d/web.conf'' ''x.example'' 8080 None)]"

lemma sample_expansion:
  "expand_built_in ''service'' sample_service = Inr sample_children"
  "expand_resources (\<lambda>_. None) [] [sample_service] = Inr sample_children"
  by code_simp+

theorem expansion_reaches_primitives_witness:
  "expand_resources (\<lambda>_. None) [] sample_children = Inr sample_children"
  using expansion_reaches_primitives [OF sample_expansion(2)] by simp

theorem built_in_children_witness:
  "wired sample_children \<and> (\<exists>host. \<forall>c \<in> set sample_children. placement c = (Some (JStr ''service''), Some (JStr ''prod''), host))"
proof -
  have "\<exists>m. jget sample_service ''metadata'' = Some (JObj m) \<and> map_of m ''environment'' = Some (JStr ''prod'')"
    by (simp add: sample_service_def jobject_def)
  with built_in_children [OF sample_expansion(1)] show ?thesis by (auto simp: sample_children_def)
qed

theorem catalogue_mirrors_specs_witness:
  "\<exists>m. jget sample_service ''spec'' = Some (JObj m) \<and> ''port'' \<in> fst ` set m"
proof -
  obtain m where m: "jget sample_service ''spec'' = Some (JObj m)" by (simp add: sample_service_def jobject_def)
  have "hd list_expanders \<in> set list_expanders" "xd_kind (hd list_expanders) = ''service''" by (simp_all add: list_expanders_def)
  from catalogue_mirrors_specs [OF sample_expansion(1) m this] m show ?thesis
    by (auto simp: field_names_def list_expanders_def f_req_def)
qed

end
