(* ===== verification/Policy.thy ===== *)
theory Policy
  imports Iac_Prelude
begin

text \<open>
  The approval policies (\<open>policy.rs\<close>): which policies an operation trips.
\<close>

record policy_match =
  pm_environment :: "string option"
  pm_kind :: "string option"
  pm_resource_count_min :: "nat option"

record policy =
  po_name :: string
  po_match :: policy_match
  po_requires_approval :: bool
  po_approvers :: "string list"
  po_rate_limit_per_minute :: "nat option"

record operation_facts =
  fa_environment :: string
  fa_resources :: "string list"

definition policy_matches :: "policy \<Rightarrow> operation_facts \<Rightarrow> bool" where
  "policy_matches p facts =
     (let m = po_match p in
      if (case pm_environment m of Some env \<Rightarrow> env \<noteq> ''*'' \<and> env \<noteq> fa_environment facts | None \<Rightarrow> False) then False
      else if (case pm_resource_count_min m of Some n \<Rightarrow> length (fa_resources facts) < n | None \<Rightarrow> False) then False
      else if (case pm_kind m of Some k \<Rightarrow> \<not> list_ex (\<lambda>x. x = k) (fa_resources facts) | None \<Rightarrow> False) then False
      else if pm_environment m = None \<and> pm_resource_count_min m = None \<and> pm_kind m = None then False
      else True)"

definition evaluate :: "policy list \<Rightarrow> operation_facts \<Rightarrow> policy list" where
  "evaluate policies facts = filter (\<lambda>p. policy_matches p facts) policies"

text \<open>The matchers are conjunctive, an absent one does not restrict, and no matcher at all matches nothing.\<close>

lemma policy_matches_iff:
  "policy_matches p facts \<longleftrightarrow>
     po_match p \<noteq> \<lparr>pm_environment = None, pm_kind = None, pm_resource_count_min = None\<rparr>
   \<and> (\<forall>env. pm_environment (po_match p) = Some env \<longrightarrow> env \<in> {''*'', fa_environment facts})
   \<and> (\<forall>k. pm_kind (po_match p) = Some k \<longrightarrow> k \<in> set (fa_resources facts))
   \<and> (\<forall>n. pm_resource_count_min (po_match p) = Some n \<longrightarrow> n \<le> length (fa_resources facts))"
  by (cases "po_match p") (auto simp: policy_matches_def list_ex_iff split: option.split)

text \<open>More resources never trip fewer policies.\<close>

lemma evaluate_mono:
  assumes "set ks \<subseteq> set ks'" "length ks \<le> length ks'"
  shows "set (evaluate ps \<lparr>fa_environment = env, fa_resources = ks\<rparr>) \<subseteq> set (evaluate ps \<lparr>fa_environment = env, fa_resources = ks'\<rparr>)"
  using assms by (force simp: evaluate_def policy_matches_iff)

end
