(* ===== verification/App_State.thy ===== *)
theory App_State
  imports Actions Users Rate_Limit Maintenance Secrets Expansion Policy
begin

text \<open>
  What a request handler of the control plane works on (\<open>AppState\<close> of \<open>server.rs\<close>): the database,
  the rate limiter and the maintenance counters, which change, and the surroundings of one request,
  which do not: the configuration snapshots, the secret registry, the YAML parser and the clocks. A
  store call is a transaction; what the limiter and the counters recorded stays when a later step of
  the handler fails.
\<close>

section \<open>State and surroundings\<close>

record app =
  app_db :: db
  app_limiter :: rate_limiter
  app_metrics :: maintenance_metrics

type_synonym 'a handler = "(app, api_error, 'a) act"

record config =
  cf_modules :: "module_def list"
  cf_policies :: "policy list"
  cf_maintenance_windows :: "maintenance_window list"
  cf_recurring_maintenance_windows :: "recurring_window list"
  cf_agent_enrollment_token :: "string option"
  cf_agent_token_ttl_secs :: "64 word option"
  cf_trusted_proxies :: "string list"

text \<open>A handler that reads the configuration twice can see two snapshots: \<open>se_config\<close> is the one the
  maintenance check takes, \<open>se_config'\<close> the later one. A handler reads a clock once per step:
  \<open>se_instant\<close> and \<open>se_instant'\<close> are the two readings of the rate limiter, \<open>se_clock\<close> that of the
  windows and of the tokens, \<open>se_parse_ip\<close> the parser of IP addresses of the standard library, which
  gives an address in its canonical text, \<open>se_call\<close> and \<open>se_call'\<close> the surroundings of its two store calls.\<close>

record surroundings =
  se_admin_token :: "string option"
  se_config :: config
  se_config' :: config
  se_calendar :: calendar
  se_clock :: int
  se_parse_ip :: "string \<Rightarrow> string option"
  se_instant :: nat
  se_instant' :: nat
  se_yaml :: yaml_parser
  se_registry :: "secret_registry option"
  se_secrets :: secret_host
  se_call :: call_env
  se_call' :: call_env

section \<open>The parts of a handler\<close>

definition on_db :: "'a tx \<Rightarrow> 'a handler" where
  "on_db t s = (case t (app_db s) of Inl e \<Rightarrow> (Inl e, s) | Inr (d, x) \<Rightarrow> (Inr x, s\<lparr>app_db := d\<rparr>))"

definition reading :: "(db \<Rightarrow> 'a api_result) \<Rightarrow> 'a handler" where
  "reading q s = (q (app_db s), s)"

definition limited :: "(rate_limiter \<Rightarrow> rate_limiter \<times> 'a api_result) \<Rightarrow> 'a handler" where
  "limited f s = (case f (app_limiter s) of (l, r) \<Rightarrow> (r, s\<lparr>app_limiter := l\<rparr>))"

definition metered :: "(maintenance_metrics \<Rightarrow> maintenance_metrics \<times> 'a api_result) \<Rightarrow> 'a handler" where
  "metered f s = (case f (app_metrics s) of (m, r) \<Rightarrow> (r, s\<lparr>app_metrics := m\<rparr>))"

definition counted :: "(maintenance_metrics \<Rightarrow> maintenance_metrics) \<Rightarrow> unit handler" where
  "counted f s = (Inr (), s\<lparr>app_metrics := f (app_metrics s)\<rparr>)"

definition recorded :: "call_env \<Rightarrow> audit_record \<Rightarrow> unit handler" where
  "recorded E rec = on_db (record_audit E rec)"

definition authorize :: "surroundings \<Rightarrow> string \<Rightarrow> role \<Rightarrow> identity handler" where
  "authorize S token required = reading (require_role (se_call S) (se_admin_token S) token required)"

lemma reading_apply [simp]: "reading q s = (q (app_db s), s)"
  by (simp add: reading_def)

lemma counted_apply [simp]: "counted f s = (Inr (), s\<lparr>app_metrics := f (app_metrics s)\<rparr>)"
  by (simp add: counted_def)

lemma recorded_apply:
  "recorded E rec s = (case ce_fault E WriteAudit of Some e \<Rightarrow> (Inl e, s) | None \<Rightarrow> (Inr (), s\<lparr>app_db := audited E rec (app_db s)\<rparr>))"
  by (simp add: recorded_def on_db_def record_audit_def split: option.splits)

lemma recorded_fine [simp]: "ce_fault E WriteAudit = None \<Longrightarrow> recorded E rec s = (Inr (), s\<lparr>app_db := audited E rec (app_db s)\<rparr>)"
  by (simp add: recorded_apply)

lemma recorded_cases:
  assumes "recorded E rec s = (r, s')"
  obtains e where "ce_fault E WriteAudit = Some e" "r = Inl e" "s' = s"
  | "ce_fault E WriteAudit = None" "r = Inr ()" "s' = s\<lparr>app_db := audited E rec (app_db s)\<rparr>"
  using assms by (auto simp: recorded_apply split: option.splits)

lemma limited_db: "limited f s = (r, s') \<Longrightarrow> app_db s' = app_db s \<and> app_metrics s' = app_metrics s"
  by (auto simp: limited_def split: prod.splits)

lemma metered_db: "metered f s = (r, s') \<Longrightarrow> app_db s' = app_db s \<and> app_limiter s' = app_limiter s"
  by (auto simp: metered_def split: prod.splits)

lemma on_db_Inr: "on_db t s = (Inr x, s') \<longleftrightarrow> (\<exists>d. t (app_db s) = Inr (d, x) \<and> s' = s\<lparr>app_db := d\<rparr>)"
  by (auto simp: on_db_def split: sum.splits prod.splits)

lemma on_db_Inl: "on_db t s = (Inl e, s') \<longleftrightarrow> t (app_db s) = Inl e \<and> s' = s"
  by (auto simp: on_db_def split: sum.splits prod.splits)

text \<open>A step that leaves the database alone, and handlers made of such steps.\<close>

definition db_idle :: "'a handler \<Rightarrow> bool" where
  "db_idle h \<longleftrightarrow> (\<forall>s r s'. h s = (r, s') \<longrightarrow> app_db s' = app_db s)"

lemma db_idleD: "db_idle h \<Longrightarrow> h s = (r, s') \<Longrightarrow> app_db s' = app_db s"
  by (auto simp: db_idle_def)

lemma db_idle_reading [intro]: "db_idle (reading q)"
  by (simp add: db_idle_def)

lemma db_idle_limited [intro]: "db_idle (limited f)"
  by (auto simp: db_idle_def dest: limited_db)

lemma db_idle_metered [intro]: "db_idle (metered f)"
  by (auto simp: db_idle_def dest: metered_db)

lemma db_idle_pure [intro]: "db_idle (counted k)" "db_idle (doing x)" "db_idle (failing e)" "db_idle (from_result r)"
  by (simp_all add: db_idle_def)

lemma db_idle_authorize [intro]: "db_idle (authorize S token role)"
  unfolding authorize_def by (rule db_idle_reading)

lemma db_idle_bind [intro]:
  assumes "db_idle m" "\<And>x. db_idle (f x)"
  shows "db_idle (bindA m f)"
  unfolding db_idle_def
proof clarify
  fix s r s' assume "bindA m f s = (r, s')"
  then show "app_db s' = app_db s"
    by (cases rule: bindA_cases) (use assms db_idleD in \<open>metis+\<close>)
qed

lemma db_idle_if [intro]: "db_idle a \<Longrightarrow> db_idle b \<Longrightarrow> db_idle (if c then a else b)"
  by simp

section \<open>Sample surroundings\<close>

definition sample_config :: config where
  "sample_config = \<lparr>cf_modules = [], cf_policies = [], cf_maintenance_windows = [], cf_recurring_maintenance_windows = [],
     cf_agent_enrollment_token = None, cf_agent_token_ttl_secs = None, cf_trusted_proxies = []\<rparr>"

end
