(* ===== verification/Rollout.thy ===== *)
theory Rollout
  imports Operations
begin

text \<open>
  The rollout invariant under the remaining calls (completion, submission, approval, rejection),
  the machine of all rollout calls, and the properties of the rollout.
\<close>

section \<open>Completion\<close>

lemma complete_row_frame [simp, row_simps]:
  "row_ident (complete_row now js st a) = row_ident a"
  "as_status (complete_row now js st a) = result_assignment_status st"
  "as_layer (complete_row now js st a) = as_layer a" "as_batch (complete_row now js st a) = as_batch a"
  by (simp_all add: complete_row_def row_ident_def)

lemma result_status_range: "result_assignment_status st \<in> {ASucceeded, APartiallyApplied, AFailed}"
  by (cases st) auto

lemma result_status_neq [simp]:
  "result_assignment_status st \<noteq> APending" "result_assignment_status st \<noteq> AFetched"
  "result_assignment_status st \<noteq> APendingLayer" "result_assignment_status st \<noteq> APendingCanary"
  "result_assignment_status st \<noteq> ACancelled"
  by (cases st; simp)+

text \<open>Completing an active row keeps the safety part of the invariant: nothing above it was
  released while it was active.\<close>

lemma complete_row_safe:
  assumes safe: "phase_safe rows" and act: "\<And>a. a \<in> set rows \<Longrightarrow> P a \<Longrightarrow> active a"
  shows "phase_safe (update_where P (complete_row now js st) rows)"
proof -
  let ?g = "\<lambda>a. if P a then complete_row now js st a else a"
  have rel: "released (?g a) \<longleftrightarrow> released a" if "a \<in> set rows" for a
    using act [OF that] result_status_range [of st] by (auto simp: status_defs)
  have suc: "as_status a = ASucceeded \<Longrightarrow> ?g a = a" if "a \<in> set rows" for a
    using act [OF that] by (auto simp: active_def)
  show ?thesis
    unfolding update_where_def
  proof (rule phase_safe_map [OF safe])
    fix a b assume ab: "a \<in> set rows" "b \<in> set rows"
    show "as_status (?g b) = ASucceeded" if "released (?g a)" "as_layer b < as_layer a"
      using gatedD [of rows a b] safe ab that rel [OF ab(1)] suc [OF ab(2)] by (simp add: phase_safe_def)
    show "as_status (?g b) = ASucceeded" if "as_layer a = 0" "as_layer b = 0" "as_batch a = Some 1"
      "released (?g a)" "as_batch b = Some 0"
    proof -
      have "as_status b = ASucceeded"
        using safe ab that rel [OF ab(1)] unfolding phase_safe_def canary_gated_def by blast
      with suc [OF ab(2)] show ?thesis by simp
    qed
    show "as_status (?g b) \<notin> {APendingLayer, APendingCanary}" if "as_status (?g a) = ACancelled"
    proof -
      have "as_status a = ACancelled" using that by (auto split: if_splits)
      then have "as_status b \<notin> {APendingLayer, APendingCanary}"
        using safe ab unfolding phase_safe_def cancel_final_def by blast
      then show ?thesis by simp
    qed
  qed (auto split: if_splits)
qed

text \<open>The advance step never makes a row \<open>fetched\<close>.\<close>

lemma fetched_update:
  "x \<in> set (update_where P f rows) \<Longrightarrow> as_status x = AFetched \<Longrightarrow> (\<And>a. as_status (f a) \<noteq> AFetched) \<Longrightarrow> x \<in> set rows"
  by (auto simp: set_update_where split: if_splits)

lemma fetched_moves:
  "x \<in> set (update_where P (cancel_row now) rows) \<Longrightarrow> as_status x = AFetched \<Longrightarrow> x \<in> set rows"
  "x \<in> set (update_where P promote_row rows) \<Longrightarrow> as_status x = AFetched \<Longrightarrow> x \<in> set rows"
  by (auto simp: set_update_where split: if_splits)

lemma fetched_canary_loop:
  "x \<in> set (canary_loop oper now ls rows) \<Longrightarrow> as_status x = AFetched \<Longrightarrow> x \<in> set rows"
proof (induction ls arbitrary: rows)
  case (Cons l ls)
  let ?canary = "\<lambda>a. of_op oper a \<and> as_layer a = l \<and> as_batch a = Some 0"
  let ?F = "count_rows (\<lambda>a. ?canary a \<and> as_status a \<in> {AFailed, APartiallyApplied}) rows > 0"
  let ?R = "count_rows (\<lambda>a. ?canary a \<and> as_status a \<in> {APending, AFetched}) rows > 0"
  note p = Cons.prems(1) [unfolded canary_loop.simps Let_def]
  consider "?F" | "\<not> ?F" "?R" | "\<not> ?F" "\<not> ?R" by blast
  then show ?case
  proof cases
    case 1
    from p [unfolded if_P [OF 1]] Cons.prems(2) show ?thesis by (rule fetched_moves)
  next
    case 2
    from p [unfolded if_not_P [OF 2(1)] if_P [OF 2(2)]] Cons.prems(2) show ?thesis by (rule Cons.IH)
  next
    case 3
    from Cons.IH [OF p [unfolded if_not_P [OF 3(1)] if_not_P [OF 3(2)]] Cons.prems(2)] Cons.prems(2)
    show ?thesis by (rule fetched_moves)
  qed
qed simp

lemma fetched_advance:
  assumes "x \<in> set (advance_phased_apply oper now rows)" "as_status x = AFetched"
  shows "x \<in> set rows"
proof -
  have "\<exists>P Q. release_layer oper now rs \<in> {rs, update_where P (cancel_row now) rs, update_where Q promote_row rs}" for rs
    unfolding release_layer_def Let_def by (cases "next_layer oper rs") auto
  then have "x \<in> set (release_layer oper now rs) \<Longrightarrow> x \<in> set rs" for rs
    using fetched_moves [OF _ assms(2)] by (metis empty_iff insert_iff)
  with assms(1) have "x \<in> set (advance_canary oper now rows)" by (simp add: advance_phased_apply_def)
  from fetched_canary_loop [OF this [unfolded advance_canary_def] assms(2)] show ?thesis .
qed

definition completed_rows :: "string \<Rightarrow> string \<Rightarrow> string \<Rightarrow> string \<Rightarrow> result_status \<Rightarrow> assignment_row list \<Rightarrow> assignment_row list" where
  "completed_rows oper aid now js st rows =
     advance_phased_apply oper now (update_where (\<lambda>a. as_id a = aid) (complete_row now js st) rows)"

lemma keeps_completed: "keeps_identity (completed_rows oper aid now js st)"
  using keeps_advance [of oper now] keeps_update_where [of "complete_row now js st" "\<lambda>a. as_id a = aid"]
  by (simp add: keeps_identity_def completed_rows_def)

lemma completed_other:
  assumes "oper' \<noteq> oper" and "\<And>a. a \<in> set rows \<Longrightarrow> as_id a = aid \<Longrightarrow> as_operation_id a = oper"
  shows "rows_of oper' (completed_rows oper aid now js st rows) = rows_of oper' rows"
proof -
  have "rows_of oper' (update_where (\<lambda>a. as_id a = aid) (complete_row now js st) rows) = rows_of oper' rows"
    unfolding rows_of_def
  proof (rule filter_update_where_other)
    fix a assume "a \<in> set rows" "as_id a = aid"
    then have "as_operation_id a = oper" by (rule assms(2))
    moreover have "as_operation_id (complete_row now js st a) = as_operation_id a"
      by (simp add: complete_row_def)
    ultimately show "\<not> of_op oper' a \<and> \<not> of_op oper' (complete_row now js st a)"
      using assms(1) by (simp add: of_op_def)
  qed
  then show ?thesis by (simp add: completed_rows_def advance_other [OF assms(1)])
qed

lemma completed_own:
  "rows_of oper (completed_rows oper aid now js st rows) =
   advance_phased_apply oper now (update_where (\<lambda>a. as_id a = aid) (complete_row now js st) (rows_of oper rows))"
  unfolding completed_rows_def advance_own
  by (subst rows_of_update_own) (simp_all add: of_op_def complete_row_def)

lemma completed_ok:
  assumes wf: "rows_wf rows" and ok: "rollout_ok K rows"
    and x: "x \<in> set rows" "as_id x = aid" "as_operation_id x = oper" "active x"
  shows "rows_wf (completed_rows oper aid now js st rows)" and "rollout_ok K (completed_rows oper aid now js st rows)"
proof -
  have uniq: "a = x" if "a \<in> set rows" "as_id a = aid" for a
    using wf x that unfolding rows_wf_def by (metis distinct_map inj_onD)
  have "as_fetched_at a \<noteq> None" if "a \<in> set (completed_rows oper aid now js st rows)" "as_status a = AFetched" for a
  proof -
    have "a \<in> set (update_where (\<lambda>a. as_id a = aid) (complete_row now js st) rows)"
      using fetched_advance that unfolding completed_rows_def by blast
    then have "a \<in> set rows" by (rule fetched_update) (use that in simp_all)
    with wf that(2) show ?thesis by (simp add: rows_wf_def)
  qed
  then show "rows_wf (completed_rows oper aid now js st rows)"
    using wf keeps_proj(1) [OF keeps_completed] by (simp add: rows_wf_def)
  show "rollout_ok K (completed_rows oper aid now js st rows)"
    unfolding rollout_ok_def
  proof (intro ballI impI)
    fix oper' assume whole: "oper' \<in> K"
    assume c: "contiguous (rows_of oper' (completed_rows oper aid now js st rows))"
    show "phase_safe (rows_of oper' (completed_rows oper aid now js st rows))
      \<and> progress (rows_of oper' (completed_rows oper aid now js st rows))"
    proof (cases "oper' = oper")
      case False
      have "rows_of oper' (completed_rows oper aid now js st rows) = rows_of oper' rows"
        by (rule completed_other [OF False]) (use uniq x in auto)
      with c whole ok show ?thesis by (simp add: rollout_ok_def)
    next
      case True
      let ?r1 = "update_where (\<lambda>a. as_id a = aid) (complete_row now js st) (rows_of oper rows)"
      have k: "keeps_identity (update_where (\<lambda>a. as_id a = aid) (complete_row now js st))"
        by (rule keeps_update_where) simp
      have c1: "contiguous ?r1" using c keeps_contiguous [OF keeps_advance] by (simp add: True completed_own)
      then have "contiguous (rows_of oper rows)" by (simp add: keeps_contiguous [OF k])
      with ok whole True have "phase_safe (rows_of oper rows)" by (simp add: rollout_ok_def)
      then have s1: "phase_safe ?r1"
      proof (rule complete_row_safe)
        fix a assume "a \<in> set (rows_of oper rows)" "as_id a = aid"
        then have "a = x" by (intro uniq) (simp_all add: rows_of_def)
        with x(4) show "active a" by simp
      qed
      have "\<forall>a \<in> set ?r1. of_op oper a" by (rule keeps_own [OF k]) (rule of_op_own)
      from advance_safe [OF this s1 c1] show ?thesis unfolding True completed_own by blast
    qed
  qed
qed

lemma complete_result:
  assumes "complete_assignment_with_extra_audit E agent aid result extra d = Inr (d', u)"
  obtains x js where "x \<in> set (db_assignments d)" "as_id x = aid" "as_agent_id x = agent" "active x"
    and "db_assignments d' = completed_rows (as_operation_id x) aid (ce_now E) js (rr_status result) (db_assignments d)"
    and "db_operations d' = db_operations (roll_up_operation (as_operation_id x) (ce_now E) (d\<lparr>db_assignments := db_assignments d'\<rparr>))"
proof -
  from assms obtain x where f: "find (\<lambda>a. as_id a = aid \<and> as_agent_id a = agent \<and> as_status a \<in> {APending, AFetched})
      (db_assignments d) = Some x"
    by (auto simp: complete_assignment_with_extra_audit_def bindE_Inr_iff)
  then have x: "x \<in> set (db_assignments d)" "as_id x = aid" "as_agent_id x = agent" "active x"
    by (auto simp: find_Some_iff active_def dest: nth_mem)
  show thesis
    by (rule that [OF x, where js = "to_str (ce_serde E) (result_to_json result)"])
       (use assms f in \<open>auto simp: complete_assignment_with_extra_audit_def Let_def completed_rows_def
          roll_up_operation_def split: option.splits\<close>)
qed

lemma complete_inv:
  assumes inv: "rollout_inv K d" and c: "complete_assignment_with_extra_audit E agent aid result extra d = Inr (d', u)"
  shows "rollout_inv K d'"
proof -
  obtain x js where x: "x \<in> set (db_assignments d)" "as_id x = aid" "as_agent_id x = agent" "active x"
    and rows: "db_assignments d' = completed_rows (as_operation_id x) aid (ce_now E) js (rr_status result) (db_assignments d)"
    and ops: "db_operations d' = db_operations (roll_up_operation (as_operation_id x) (ce_now E) (d\<lparr>db_assignments := db_assignments d'\<rparr>))"
    by (rule complete_result [OF c])
  let ?oper = "as_operation_id x" and ?rows = "db_assignments d'"
  have wf: "rows_wf (db_assignments d)" and ok: "rollout_ok K (db_assignments d)" using inv by (simp_all add: rollout_inv_def)
  have uniq: "a = x" if "a \<in> set (db_assignments d)" "as_id a = aid" for a
    using wf x that unfolding rows_wf_def by (metis distinct_map inj_onD)
  note new = completed_ok [OF wf ok x(1,2) refl x(4), of "ce_now E" js "rr_status result", folded rows]
  have other: "rolled_up_status oper ?rows = rolled_up_status oper (db_assignments d)" if "oper \<noteq> ?oper" for oper
    unfolding rows by (rule rolled_up_rows_of, rule completed_other [OF that]) (use uniq in blast)
  have was: "rolled_up_status ?oper (db_assignments d) = None"
    using x by (auto simp: rolled_up_status_eq Let_def rows_of_def of_op_def status_defs)
  define st where "st = rolled_up_status ?oper ?rows"
  let ?h = "\<lambda>w. if op_id w = ?oper \<and> st \<noteq> None then w\<lparr>op_status := the st, op_finished_at := Some (ce_now E)\<rparr> else w"
  have ops': "db_operations d' = map ?h (db_operations d)"
    unfolding ops by (cases st) (auto simp: roll_up_operation_def st_def update_where_def)
  have live: "live_status (op_status w) \<Longrightarrow> live_status (op_status (?h w))" for w
    using rolled_up_status_live by (auto simp: st_def)
  have ag: "status_agrees ?rows (?h w)" if w: "w \<in> set (db_operations d)" "live_status (op_status (?h w))" "op_id w \<in> K" for w
  proof (cases "op_id w = ?oper")
    case True
    have "op_status w \<in> {OpPending, OpRunning}" if "st = None"
    proof -
      have "live_status (op_status w)" using w(2) that by simp
      with inv w(1,3) have "status_agrees (db_assignments d) w" by (simp add: rollout_inv_def)
      with was True show ?thesis by (simp add: status_agrees_def)
    qed
    with True show ?thesis by (cases st) (auto simp: status_agrees_def st_def)
  next
    case False
    with inv w have "status_agrees (db_assignments d) w" by (simp add: rollout_inv_def)
    with False other show ?thesis by (simp add: status_agrees_def)
  qed
  have refs: "\<exists>w \<in> set (db_operations d'). op_id w = as_operation_id a \<and> live_status (op_status w)"
    if a: "a \<in> set ?rows" for a
  proof -
    have "as_operation_id a \<in> set (map as_operation_id (db_assignments d))"
      using a keeps_proj(3) [OF keeps_completed] unfolding rows by (metis image_eqI list.set_map)
    then obtain w where w: "w \<in> set (db_operations d)" "op_id w = as_operation_id a" "live_status (op_status w)"
      using inv unfolding rollout_inv_def by auto
    have "?h w \<in> set (db_operations d')" using w(1) by (simp add: ops')
    moreover have "op_id (?h w) = as_operation_id a" using w(2) by simp
    ultimately show ?thesis using live [OF w(3)] by blast
  qed
  have "map op_id (db_operations d') = map op_id (db_operations d)" by (simp add: ops')
  then have "distinct (map op_id (db_operations d'))" using inv by (simp add: rollout_inv_def)
  moreover have "op_id (?h w) = op_id w" for w by simp
  then have "\<forall>w \<in> set (db_operations d'). op_id w \<in> K \<and> live_status (op_status w) \<longrightarrow> status_agrees ?rows w"
    unfolding ops' set_map ball_simps using ag by metis
  ultimately show ?thesis using new refs by (simp add: rollout_inv_def)
qed

lemma reject_inv:
  assumes "rollout_inv K d" and "reject_operation E oper rejector actor reason d = Inr (d', u)"
  shows "rollout_inv K d'"
proof (rule rollout_inv_ops [OF assms(1)])
  show "db_assignments d' = db_assignments d"
    using assms(2) by (auto simp: reject_operation_def Let_def split: if_splits)
  show "db_operations d' = update_where (\<lambda>w. op_id w = oper \<and> op_status w = OpPendingApproval)
      (\<lambda>w. w\<lparr>op_status := OpRejected, op_rejected_by := Some rejector, op_rejected_at := Some (ce_now E),
             op_rejection_reason := Some reason, op_finished_at := Some (ce_now E)\<rparr>) (db_operations d)"
    using assms(2) by (auto simp: reject_operation_def Let_def split: if_splits)
qed (simp add: live_status_def)

section \<open>New operations\<close>

text \<open>What the insertion loops of submission and approval add: one row per bucket.\<close>

definition new_rows :: "string \<Rightarrow> (string \<times> int \<rightharpoonup> nat) \<Rightarrow> (string \<times> int) list \<Rightarrow> assignment_row list \<Rightarrow> bool" where
  "new_rows oper split keys rows \<longleftrightarrow> list_all2 (\<lambda>k a. as_agent_id a = fst k \<and> as_layer a = snd k
     \<and> as_operation_id a = oper \<and> as_batch a = split k
     \<and> as_status a = initial_assignment_status (snd k) (split k)) keys rows"

lemma insert_assignment_Inr:
  assumes "insert_assignment row d = Inr d'"
  shows "d' = d\<lparr>db_assignments := db_assignments d @ [row]\<rparr>" "as_id row \<notin> as_id ` set (db_assignments d)"
    "as_agent_id row \<in> ag_id ` set (db_agents d)"
  using assms by (auto simp: insert_assignment_def split: if_splits)

lemma initial_status_range: "initial_assignment_status l b \<in> {APending, APendingCanary, APendingLayer}"
  by (simp add: initial_assignment_status_def)

lemma new_assignment_simps [simp]:
  "as_id (new_assignment i a p j n l b s) = i" "as_agent_id (new_assignment i a p j n l b s) = a"
  "as_operation_id (new_assignment i a p j n l b s) = p" "as_layer (new_assignment i a p j n l b s) = l"
  "as_batch (new_assignment i a p j n l b s) = b" "as_status (new_assignment i a p j n l b s) = s"
  "as_payload_json (new_assignment i a p j n l b s) = j" "as_kind (new_assignment i a p j n l b s) = ''apply''"
  by (simp_all add: new_assignment_def)

lemma insert_buckets_Inr:
  assumes "insert_buckets E oper ulid split i bs d = Inr d'"
  shows "\<exists>rows. d' = d\<lparr>db_assignments := db_assignments d @ rows\<rparr> \<and> new_rows oper split (map fst bs) rows
     \<and> (distinct (map as_id (db_assignments d)) \<longrightarrow> distinct (map as_id (db_assignments d @ rows)))"
  using assms
proof (induction bs arbitrary: i d)
  case (Cons b bs)
  obtain agent layer items where b: "b = ((agent, layer), items)" by (metis surj_pair)
  from Cons.prems obtain payload d1 where
    ins: "insert_assignment (new_assignment (ulid i) agent oper payload (ce_now E) layer
              (split (agent, layer)) (initial_assignment_status layer (split (agent, layer)))) d = Inr d1"
    and rec: "insert_buckets E oper ulid split (Suc i) bs d1 = Inr d'"
    by (auto simp: b bindE_Inr_iff)
  note d1 = insert_assignment_Inr [OF ins]
  from Cons.IH [OF rec] obtain rows where r: "d' = d1\<lparr>db_assignments := db_assignments d1 @ rows\<rparr>"
    "new_rows oper split (map fst bs) rows"
    "distinct (map as_id (db_assignments d1)) \<longrightarrow> distinct (map as_id (db_assignments d1 @ rows))" by blast
  let ?row = "new_assignment (ulid i) agent oper payload (ce_now E) layer
              (split (agent, layer)) (initial_assignment_status layer (split (agent, layer)))"
  have "d' = d\<lparr>db_assignments := db_assignments d @ ?row # rows\<rparr>" using r(1) d1(1) by simp
  moreover have "new_rows oper split (map fst (b # bs)) (?row # rows)" using r(2) by (simp add: new_rows_def b)
  moreover have "distinct (map as_id (db_assignments d)) \<longrightarrow> distinct (map as_id (db_assignments d @ ?row # rows))"
    using r(3) d1(1,2) by simp
  ultimately show ?case by blast
qed (simp add: new_rows_def)

lemma insert_approved_Inr:
  assumes "insert_approved E oper ulid i bs d = Inr d'"
  shows "\<exists>rows. d' = d\<lparr>db_assignments := db_assignments d @ rows\<rparr> \<and> new_rows oper Map.empty (map fst bs) rows
     \<and> (distinct (map as_id (db_assignments d)) \<longrightarrow> distinct (map as_id (db_assignments d @ rows)))"
  using assms
proof (induction bs arbitrary: i d)
  case (Cons b bs)
  obtain agent layer items where b: "b = ((agent, layer), items)" by (metis surj_pair)
  from Cons.prems obtain payload d1 where
    ins: "insert_assignment (new_assignment (ulid i) agent oper payload (ce_now E) layer None
              (if layer = 0 then APending else APendingLayer)) d = Inr d1"
    and rec: "insert_approved E oper ulid (Suc i) bs d1 = Inr d'"
    by (auto simp: b bindE_Inr_iff)
  note d1 = insert_assignment_Inr [OF ins]
  from Cons.IH [OF rec] obtain rows where r: "d' = d1\<lparr>db_assignments := db_assignments d1 @ rows\<rparr>"
    "new_rows oper Map.empty (map fst bs) rows"
    "distinct (map as_id (db_assignments d1)) \<longrightarrow> distinct (map as_id (db_assignments d1 @ rows))" by blast
  let ?row = "new_assignment (ulid i) agent oper payload (ce_now E) layer None
              (if layer = 0 then APending else APendingLayer)"
  have "d' = d\<lparr>db_assignments := db_assignments d @ ?row # rows\<rparr>" using r(1) d1(1) by simp
  moreover have "new_rows oper Map.empty (map fst (b # bs)) (?row # rows)"
    using r(2) by (simp add: new_rows_def b initial_assignment_status_def)
  moreover have "distinct (map as_id (db_assignments d)) \<longrightarrow> distinct (map as_id (db_assignments d @ ?row # rows))"
    using r(3) d1(1,2) by simp
  ultimately show ?case by blast
qed (simp add: new_rows_def)

text \<open>The batches a split may assign.\<close>

definition split_ok :: "(string \<times> int \<rightharpoonup> nat) \<Rightarrow> (string \<times> int) list \<Rightarrow> bool" where
  "split_ok split keys \<longleftrightarrow> (\<forall>k \<in> set keys. split k \<in> {None, Some 0, Some 1})
     \<and> (\<forall>a b l. (a, l) \<in> set keys \<longrightarrow> (b, l) \<in> set keys \<longrightarrow> split (a, l) \<noteq> None \<longrightarrow> split (b, l) \<noteq> None)
     \<and> (\<forall>a l. (a, l) \<in> set keys \<longrightarrow> split (a, l) \<noteq> None \<longrightarrow> (\<exists>b. (b, l) \<in> set keys \<and> split (b, l) = Some 0))"

lemma split_ok_canary: "split_ok (compute_canary_split (bucket_agents_per_layer bs) canary) (map fst bs)"
  unfolding split_ok_def set_map
proof (intro conjI)
  show "\<forall>k \<in> fst ` set bs. compute_canary_split (bucket_agents_per_layer bs) canary k \<in> {None, Some 0, Some 1}"
    by (rule ballI) (rule canary_split_batch)
qed (use canary_batches_uniform canary_has_first in blast)+

lemma split_ok_empty: "split_ok Map.empty keys"
  by (simp add: split_ok_def)

lemma new_rows_mem:
  assumes "new_rows oper split keys rows" "a \<in> set rows"
  obtains k where "k \<in> set keys" "as_layer a = snd k" "as_operation_id a = oper" "as_batch a = split k"
    "as_status a = initial_assignment_status (snd k) (split k)"
proof -
  obtain i where i: "i < length rows" "a = rows ! i" using assms(2) by (auto simp: in_set_conv_nth)
  then have "i < length keys" using assms(1) by (simp add: new_rows_def list_all2_lengthD)
  with list_all2_nthD2 [OF assms(1) [unfolded new_rows_def] i(1)] i show thesis
    by (intro that [of "keys ! i"]) auto
qed

lemma new_rows_key:
  assumes "new_rows oper split keys rows" "k \<in> set keys"
  obtains a where "a \<in> set rows" "as_layer a = snd k" "as_batch a = split k"
    "as_status a = initial_assignment_status (snd k) (split k)" "as_agent_id a = fst k"
proof -
  obtain i where i: "i < length keys" "k = keys ! i" using assms(2) by (auto simp: in_set_conv_nth)
  then have "i < length rows" using assms(1) by (simp add: new_rows_def list_all2_lengthD)
  with list_all2_nthD [OF assms(1) [unfolded new_rows_def] i(1)] i show thesis
    by (intro that [of "rows ! i"]) auto
qed

lemma new_rows_safe:
  assumes n: "new_rows oper split keys rows" and ok: "split_ok split keys" and pos: "\<forall>k \<in> set keys. 0 \<le> snd k"
  shows "phase_safe rows" and "contiguous rows \<Longrightarrow> progress rows"
proof -
  have st: "as_status a \<in> {APending, APendingCanary, APendingLayer} \<and> 0 \<le> as_layer a
      \<and> (as_status a = APending \<longrightarrow> as_layer a = 0 \<and> as_batch a \<noteq> Some 1)
      \<and> (as_status a = APendingLayer \<longrightarrow> 0 < as_layer a)
      \<and> (as_status a = APendingCanary \<longrightarrow> as_layer a = 0 \<and> as_batch a = Some 1)" if a: "a \<in> set rows" for a
  proof -
    obtain k where k: "k \<in> set keys" "as_layer a = snd k" "as_batch a = split k"
      "as_status a = initial_assignment_status (snd k) (split k)" by (rule new_rows_mem [OF n a])
    have "split k \<in> {None, Some 0, Some 1}" "0 \<le> snd k" using ok pos k(1) by (auto simp: split_ok_def)
    with k show ?thesis by (auto simp: initial_assignment_status_def split: if_splits)
  qed
  have uniform: "as_batch b \<noteq> None" if h: "a \<in> set rows" "b \<in> set rows" "as_batch a \<noteq> None" "as_layer a = 0" "as_layer b = 0" for a b
  proof -
    obtain k where "k \<in> set keys" "as_layer a = snd k" "as_batch a = split k" by (rule new_rows_mem [OF n h(1)])
    moreover obtain j where "j \<in> set keys" "as_layer b = snd j" "as_batch b = split j" by (rule new_rows_mem [OF n h(2)])
    ultimately show ?thesis using ok h(3-5) unfolding split_ok_def by (metis prod.collapse)
  qed
  have w: "waits_ok rows"
    unfolding waits_ok_def
  proof (intro ballI conjI impI)
    fix a assume a: "a \<in> set rows"
    show "0 \<le> as_layer a" using st [OF a] by blast
    show "0 < as_layer a" if "as_status a = APendingLayer" using st [OF a] that by blast
    show "as_layer a = 0" "as_batch a = Some 1" if "as_status a = APendingCanary" using st [OF a] that by blast+
    show "as_batch b \<noteq> None" if "as_status a = APendingCanary" "b \<in> set rows" "as_layer b = 0" for b
      using uniform [OF a that(2)] st [OF a] that by simp
  qed
  have "\<not> as_layer b < as_layer a" if "a \<in> set rows" "b \<in> set rows" "released a" for a b
    using st [OF that(1)] st [OF that(2)] that(3) by (auto simp: released_def)
  then have "layers_gated rows" by (auto simp: layers_gated_def)
  moreover have "canary_gated rows" unfolding canary_gated_def
  proof (intro ballI impI, elim conjE)
    fix a b assume "a \<in> set rows" "as_batch a = Some 1" "released a"
    with st show "as_status b = ASucceeded" by (fastforce simp: released_def)
  qed
  moreover have "cancel_final rows" using st by (fastforce simp: cancel_final_def)
  ultimately show "phase_safe rows" using w by (simp add: phase_safe_def)
  show "progress rows" if "contiguous rows"
    unfolding progress_def
  proof (intro impI)
    assume "\<exists>a \<in> set rows. unfinished a"
    then obtain a where a: "a \<in> set rows" by blast
    obtain z where z: "z \<in> set rows" "as_layer z = 0"
    proof (cases "as_layer a = 0")
      case False
      with st [OF a] have "0 \<in> {0..<as_layer a}" by auto
      with \<open>contiguous rows\<close> a show thesis unfolding contiguous_def using that by blast
    qed (use a that in blast)
    obtain k where k: "k \<in> set keys" "as_layer z = snd k" "as_batch z = split k"
      "as_status z = initial_assignment_status (snd k) (split k)" by (rule new_rows_mem [OF n z(1)])
    show "\<exists>a \<in> set rows. active a"
    proof (cases "split k")
      case None
      with k z have "active z" by (simp add: active_def initial_assignment_status_def)
      with z show ?thesis by blast
    next
      case (Some _)
      then obtain b where "(b, snd k) \<in> set keys" "split (b, snd k) = Some 0"
        using ok k(1) unfolding split_ok_def by (metis option.distinct(1) prod.collapse)
      with new_rows_key [OF n, of "(b, snd k)"] k(2) z(2) show ?thesis
        by (metis active_def initial_assignment_status_def insertCI snd_conv)
    qed
  qed
qed

lemma rollout_inv_add:
  assumes inv: "rollout_inv K d" and n: "new_rows oper split keys rows" "split_ok split keys" "\<forall>k \<in> set keys. 0 \<le> snd k"
    and ids: "distinct (map as_id (db_assignments d @ rows))"
    and fresh: "\<forall>a \<in> set (db_assignments d). as_operation_id a \<noteq> oper"
    and d': "db_assignments d' = db_assignments d @ rows"
    and ops: "distinct (map op_id (db_operations d'))"
      "\<And>w. op_id w \<noteq> oper \<Longrightarrow> w \<in> set (db_operations d') \<longleftrightarrow> w \<in> set (db_operations d)"
      "\<exists>w \<in> set (db_operations d'). op_id w = oper"
      "\<And>w. w \<in> set (db_operations d') \<Longrightarrow> op_id w = oper \<Longrightarrow>
         op_status w = (if rows = [] then OpSucceeded else OpPending) \<or> rows = [] \<and> \<not> live_status (op_status w)"
  shows "rollout_inv K d'"
proof -
  have own: "as_operation_id a = oper" if "a \<in> set rows" for a by (rule new_rows_mem [OF n(1) that])
  have st: "as_status a \<in> {APending, APendingCanary, APendingLayer}" if a: "a \<in> set rows" for a
  proof -
    obtain k where "as_status a = initial_assignment_status (snd k) (split k)" by (rule new_rows_mem [OF n(1) a])
    then show ?thesis using initial_status_range by metis
  qed
  have mine: "rows_of oper (db_assignments d') = rows"
    unfolding d' rows_of_append using fresh own by (simp add: rows_of_def of_op_def filter_empty_conv filter_True)
  have other: "rows_of p (db_assignments d') = rows_of p (db_assignments d)" if "p \<noteq> oper" for p
    unfolding d' rows_of_append using own that by (auto simp: rows_of_def of_op_def filter_empty_conv)
  have wf: "rows_wf (db_assignments d')"
    using inv ids st unfolding rollout_inv_def rows_wf_def d' by fastforce
  have ok: "rollout_ok K (db_assignments d')"
    unfolding rollout_ok_def
  proof (intro ballI impI)
    fix p assume k: "p \<in> K" and c: "contiguous (rows_of p (db_assignments d'))"
    show "phase_safe (rows_of p (db_assignments d')) \<and> progress (rows_of p (db_assignments d'))"
    proof (cases "p = oper")
      case True
      with c new_rows_safe [OF n] mine show ?thesis by simp
    next
      case False
      with c k inv other show ?thesis by (simp add: rollout_inv_def rollout_ok_def)
    qed
  qed
  have rolled: "rolled_up_status oper (db_assignments d') = (if rows = [] then Some OpSucceeded else None)"
  proof (cases rows)
    case (Cons a as)
    then have "unfinished a" using st by (auto simp: unfinished_def)
    with Cons show ?thesis unfolding rolled_up_status_eq mine Let_def by auto
  qed (simp add: rolled_up_status_eq mine)
  have ag: "status_agrees (db_assignments d') w" if w: "w \<in> set (db_operations d')" "op_id w \<in> K" "live_status (op_status w)" for w
  proof (cases "op_id w = oper")
    case True
    with ops(4) [OF w(1)] w(3) rolled show ?thesis by (auto simp: status_agrees_def)
  next
    case False
    with w ops(2) inv have "status_agrees (db_assignments d) w" by (simp add: rollout_inv_def)
    with rolled_up_rows_of [OF other [OF False]] show ?thesis by (simp add: status_agrees_def)
  qed
  have refs: "\<exists>w \<in> set (db_operations d'). op_id w = as_operation_id a \<and> live_status (op_status w)"
    if a: "a \<in> set (db_assignments d')" for a
  proof (cases "a \<in> set rows")
    case True
    obtain w where w: "w \<in> set (db_operations d')" "op_id w = oper" using ops(3) by blast
    from True have "rows \<noteq> []" by auto
    with ops(4) [OF w] have "live_status (op_status w)" by (simp add: live_status_def)
    with w own [OF True] show ?thesis by auto
  next
    case False
    with a have a': "a \<in> set (db_assignments d)" by (simp add: d')
    then obtain w where w: "w \<in> set (db_operations d)" "op_id w = as_operation_id a" "live_status (op_status w)"
      using inv unfolding rollout_inv_def by blast
    with fresh a' ops(2) [of w] show ?thesis by auto
  qed
  show ?thesis unfolding rollout_inv_def using ops(1) wf refs ag ok by blast
qed

text \<open>What the submission loop does to the tables and to the buckets.\<close>

lemma insert_desired_Inr:
  assumes "insert_desired oper r d = Inr d'"
  shows "db_operations d' = db_operations d" "db_assignments d' = db_assignments d" "db_agents d' = db_agents d"
    "db_audit d' = db_audit d" "db_users d' = db_users d" "db_tokens d' = db_tokens d" "db_drift d' = db_drift d"
    "db_drift_seq d' = db_drift_seq d"
  using assms by (auto simp: insert_desired_def split: if_splits)

lemma submit_loop_Inr:
  assumes "submit_loop oper env agents rs (d, b, u) = Inr (d', b', u')"
  shows "db_operations d' = db_operations d \<and> db_assignments d' = db_assignments d \<and> db_agents d' = db_agents d
    \<and> (bt_wf b \<longrightarrow> bt_wf b')
    \<and> fst ` set b \<subseteq> fst ` set b'
    \<and> (\<forall>k \<in> fst ` set b'. k \<in> fst ` set b \<or> snd k \<in> snd ` set rs)
    \<and> (\<exists>u1. u' = u @ u1)
    \<and> (u' = [] \<longrightarrow> (\<forall>l \<in> snd ` set rs. \<exists>a. (a, l) \<in> fst ` set b'))"
  using assms
proof (induction rs arbitrary: d b u)
  case (Cons p rs)
  obtain r layer where p: "p = (r, layer)" by force
  from Cons.prems p obtain d1 where d1: "insert_desired oper r d = Inr d1"
    and rec: "(case route_resource r env agents of
          Inr agent_id \<Rightarrow> submit_loop oper env agents rs (d1, bt_push (agent_id, layer) r b, u)
        | Inl reason \<Rightarrow> submit_loop oper env agents rs (d1, b, u @ [(rf_resource_id r, reason)])) = Inr (d', b', u')"
    by (auto simp: bindE_Inr_iff)
  note fr = insert_desired_Inr [OF d1]
  show ?case
  proof (cases "route_resource r env agents")
    case (Inl x)
    then have "submit_loop oper env agents rs (d1, b, u @ [(rf_resource_id r, x)]) = Inr (d', b', u')"
      using rec by simp
    from Cons.IH [OF this] show ?thesis by (auto simp: fr p)
  next
    case (Inr agent)
    then have "submit_loop oper env agents rs (d1, bt_push (agent, layer) r b, u) = Inr (d', b', u')"
      using rec by simp
    note IH = Cons.IH [OF this, unfolded fst_bt_push]
    have "(agent, layer) \<in> fst ` set b'" using IH by blast
    then have "\<exists>a. (a, layer) \<in> fst ` set b'" by blast
    moreover have "\<forall>k \<in> fst ` set b'. k \<in> fst ` set b \<or> snd k \<in> snd ` set (p # rs)" using IH by (auto simp: p)
    ultimately show ?thesis using IH bt_wf_push [of b "(agent, layer)" r] by (auto simp: fr p)
  qed
qed auto

lemma submit_loop_keys:
  assumes "submit_loop oper env agents (zip resources layers) (d, [], []) = Inr (d', b, u)"
    and layers: "compute_resource_layers S resources = Inr layers"
  shows "\<forall>k \<in> set (map fst b). 0 \<le> snd k"
    and "u = [] \<Longrightarrow> snd ` set (map fst b) = set layers"
proof -
  have zs: "snd ` set (zip resources layers) = set layers"
    using compute_layers_steps(1) [OF layers] by (metis list.set_map map_snd_zip)
  note f = submit_loop_Inr [OF assms(1), unfolded zs]
  show "\<forall>k \<in> set (map fst b). 0 \<le> snd k" using f compute_layers_nonneg [OF layers] by auto
  show "snd ` set (map fst b) = set layers" if "u = []" using f that by force
qed

text \<open>When every resource is routed the layers of the new rows have no gap.\<close>

lemma new_rows_contiguous:
  assumes n: "new_rows oper split keys rows" and keys: "snd ` set keys = set layers"
    and layers: "compute_resource_layers S resources = Inr layers"
  shows "contiguous rows"
  unfolding contiguous_def
proof (intro ballI)
  fix a l assume a: "a \<in> set rows" and l: "l \<in> {0..<as_layer a}"
  obtain k where "k \<in> set keys" "as_layer a = snd k" by (rule new_rows_mem [OF n a])
  then have "as_layer a \<in> set layers" using keys by (metis image_eqI)
  from compute_layers_contiguous [OF layers this] l have "l \<in> set layers" by simp
  with keys obtain j where "j \<in> set keys" "l = snd j" by (metis imageE)
  with new_rows_key [OF n] show "\<exists>b \<in> set rows. as_layer b = l" by metis
qed

lemma create_steps:
  assumes "create_operation E oper ulid env requested_by actor src summary resources pol req canary d = Inr (d', out)"
  obtains d1 layers d2 buckets unrouted d4 n rec where
    "insert_operation (new_operation_row E oper env requested_by src summary pol req) d = Inr d1"
    "compute_resource_layers (ce_serde E) resources = Inr layers"
    "submit_loop oper env (agent_snapshot d) (zip resources layers) (d1, [], []) = Inr (d2, buckets, unrouted)"
    "dispatch_buckets E oper ulid canary req buckets d2 = Inr (d4, n)"
    "d' = audited E rec d4" "co_unrouted out = unrouted" "co_assignment_count out = n"
    "co_operation_id out = oper"
proof -
  note def = assms [unfolded create_operation_def]
  from def obtain d1 where 1: "insert_operation (new_operation_row E oper env requested_by src summary pol req) d = Inr d1"
    by (rule bindE_InrE)
  from def [unfolded 1 bindE_simps] obtain layers where 2: "compute_resource_layers (ce_serde E) resources = Inr layers"
    by (rule bindE_InrE)
  from def [unfolded 1 2 bindE_simps] obtain p where
    "submit_loop oper env (agent_snapshot d) (zip resources layers) (d1, [], []) = Inr p"
    by (rule bindE_InrE)
  then obtain d2 buckets unrouted where
    3: "submit_loop oper env (agent_snapshot d) (zip resources layers) (d1, [], []) = Inr (d2, buckets, unrouted)"
    by (metis surj_pair)
  from def [unfolded 1 2 3 bindE_simps prod.case] obtain q where
    "dispatch_buckets E oper ulid canary req buckets d2 = Inr q" by (rule bindE_InrE)
  then obtain d4 n where 4: "dispatch_buckets E oper ulid canary req buckets d2 = Inr (d4, n)" by (metis surj_pair)
  from def [unfolded 1 2 3 4 bindE_simps prod.case]
  show thesis by (intro that [OF 1 2 3 4]) auto
qed

lemma create_result:
  assumes "create_operation E oper ulid env requested_by actor src summary resources pol req canary d = Inr (d', out)"
  obtains layers keys rows split where
    "compute_resource_layers (ce_serde E) resources = Inr layers"
    "if req then rows = [] else new_rows oper split keys rows"
    "split_ok split keys" "\<forall>k \<in> set keys. 0 \<le> snd k"
    "co_unrouted out = [] \<longrightarrow> snd ` set keys = set layers"
    "co_assignment_count out = length rows"
    "distinct (map as_id (db_assignments d)) \<longrightarrow> distinct (map as_id (db_assignments d @ rows))"
    "db_assignments d' = db_assignments d @ rows"
    "oper \<notin> op_id ` set (db_operations d)"
    "\<exists>row. db_operations d' = db_operations d @ [row] \<and> op_id row = oper
       \<and> op_status row = (if req then OpPendingApproval else if rows = [] then OpSucceeded else OpPending)"
proof -
  obtain d1 layers d2 buckets unrouted d4 n rec where s:
    "insert_operation (new_operation_row E oper env requested_by src summary pol req) d = Inr d1"
    "compute_resource_layers (ce_serde E) resources = Inr layers"
    "submit_loop oper env (agent_snapshot d) (zip resources layers) (d1, [], []) = Inr (d2, buckets, unrouted)"
    and fin: "dispatch_buckets E oper ulid canary req buckets d2 = Inr (d4, n)"
    and d': "d' = audited E rec d4" and out: "co_unrouted out = unrouted" "co_assignment_count out = n"
    by (rule create_steps [OF assms])
  let ?row = "new_operation_row E oper env requested_by src summary pol req"
  have fresh: "oper \<notin> op_id ` set (db_operations d)" and d1: "d1 = d\<lparr>db_operations := db_operations d @ [?row]\<rparr>"
    using s(1) by (auto simp: insert_operation_def new_operation_row_def split: if_splits)
  have sel: "op_id ?row = oper" "op_status ?row = (if req then OpPendingApproval else OpPending)"
    by (simp_all add: new_operation_row_def)
  note sub = submit_loop_Inr [OF s(3)] note keys = submit_loop_keys [OF s(3,2)]
  have d2: "db_operations d2 = db_operations d @ [?row]" "db_assignments d2 = db_assignments d" using sub d1 by simp_all
  let ?split = "compute_canary_split (bucket_agents_per_layer buckets) canary"
  have unr: "co_unrouted out = [] \<Longrightarrow> snd ` set (map fst buckets) = set layers" using keys(2) out by simp
  show thesis
  proof (cases req)
    case True
    then have "d4 = d2" "n = 0" using fin by (simp_all add: dispatch_buckets_def)
    then show thesis
      by (intro that [of layers "[]" ?split "map fst buckets"])
         (use True s(2) split_ok_canary keys(1) unr out d' d2 fresh in \<open>auto simp: new_operation_row_def\<close>)
  next
    case False
    then obtain d3 where d3: "insert_buckets E oper ulid ?split 0 buckets d2 = Inr d3" and n: "n = length buckets"
      and d4: "d4 = (if buckets = [] then d3\<lparr>db_operations := update_where (\<lambda>w. op_id w = oper)
                     (\<lambda>w. w\<lparr>op_status := OpSucceeded, op_started_at := Some (ce_now E),
                            op_finished_at := Some (ce_now E)\<rparr>) (db_operations d3)\<rparr> else d3)"
      using fin by (auto simp: dispatch_buckets_def bindE_Inr_iff)
    from insert_buckets_Inr [OF d3] obtain rows where r: "d3 = d2\<lparr>db_assignments := db_assignments d2 @ rows\<rparr>"
      "new_rows oper ?split (map fst buckets) rows"
      "distinct (map as_id (db_assignments d2)) \<longrightarrow> distinct (map as_id (db_assignments d2 @ rows))" by blast
    have len: "length rows = length buckets" using r(2) by (auto simp: new_rows_def dest: list_all2_lengthD)
    then have e: "buckets = [] \<longleftrightarrow> rows = []" by auto
    have upd: "update_where (\<lambda>w. op_id w = oper) f (db_operations d @ [?row]) = db_operations d @ [f ?row]" for f
    proof -
      have "\<forall>w \<in> set (db_operations d). op_id w \<noteq> oper" using fresh by auto
      then show ?thesis
        using update_where_none [of "db_operations d" "\<lambda>w. op_id w = oper" f]
        by (simp add: update_where_def new_operation_row_def)
    qed
    have "\<exists>row. db_operations d' = db_operations d @ [row] \<and> op_id row = oper
       \<and> op_status row = (if req then OpPendingApproval else if rows = [] then OpSucceeded else OpPending)"
      using False d4 r(1) d' d2 e sel
        upd [of "\<lambda>w. w\<lparr>op_status := OpSucceeded, op_started_at := Some (ce_now E), op_finished_at := Some (ce_now E)\<rparr>"]
      by (cases "rows = []") simp_all
    moreover have "db_assignments d' = db_assignments d @ rows" using d' d4 r(1) d2 by simp
    ultimately show thesis
      by (intro that [of layers rows ?split "map fst buckets"])
         (use False s(2) r(2,3) split_ok_canary keys(1) unr out n len d2 fresh in simp_all)
  qed
qed

lemma create_inv:
  assumes inv: "rollout_inv K d"
    and c: "create_operation E oper ulid env requested_by actor src summary resources pol req canary d = Inr (d', out)"
  shows "rollout_inv K d'"
proof -
  obtain keys0 rows split where r:
    "if req then rows = [] else new_rows oper split keys0 rows"
    "split_ok split keys0" "\<forall>k \<in> set keys0. 0 \<le> snd k"
    and ids: "distinct (map as_id (db_assignments d)) \<longrightarrow> distinct (map as_id (db_assignments d @ rows))"
    and d': "db_assignments d' = db_assignments d @ rows"
    and fresh: "oper \<notin> op_id ` set (db_operations d)"
    and ops: "\<exists>row. db_operations d' = db_operations d @ [row] \<and> op_id row = oper
       \<and> op_status row = (if req then OpPendingApproval else if rows = [] then OpSucceeded else OpPending)"
    by (rule create_result [OF c]) blast
  obtain keys where n: "new_rows oper split keys rows" "split_ok split keys" "\<forall>k \<in> set keys. 0 \<le> snd k"
  proof (cases req)
    case True
    with r(1) show thesis by (intro that [of "[]"]) (simp_all add: new_rows_def split_ok_def)
  qed (use r that in auto)
  obtain row where row: "db_operations d' = db_operations d @ [row]" "op_id row = oper"
    "op_status row = (if req then OpPendingApproval else if rows = [] then OpSucceeded else OpPending)"
    using ops by blast
  have old: "distinct (map op_id (db_operations d))" "distinct (map as_id (db_assignments d))"
    "\<forall>a \<in> set (db_assignments d). as_operation_id a \<in> op_id ` set (db_operations d)"
    using inv by (auto simp: rollout_inv_def rows_wf_def) (metis image_eqI)
  show ?thesis
  proof (rule rollout_inv_add [OF inv n _ _ d'])
    show "distinct (map as_id (db_assignments d @ rows))" using ids old(2) by blast
    show "\<forall>a \<in> set (db_assignments d). as_operation_id a \<noteq> oper" using old(3) fresh by auto
    show "distinct (map op_id (db_operations d'))" using old(1) fresh row by auto
    show "op_status w = (if rows = [] then OpSucceeded else OpPending) \<or> rows = [] \<and> \<not> live_status (op_status w)"
      if w: "w \<in> set (db_operations d')" "op_id w = oper" for w
    proof -
      have "w = row" using w fresh row(1) by (auto simp: image_iff)
      with row(3) r(1) show ?thesis by (auto simp: live_status_def)
    qed
  qed (use row fresh in auto)
qed

section \<open>Approval\<close>

lemma approve_loop_keys:
  assumes "approve_loop S env agents rs b = Inr b'"
  shows "\<forall>k \<in> fst ` set b'. k \<in> fst ` set b \<or> snd k \<in> snd ` set rs"
  using assms
proof (induction rs arbitrary: b)
  case (Cons p rs)
  obtain r layer where p: "p = (r, layer)" by force
  show ?case
  proof (cases "route_resource r env agents")
    case (Inl x)
    with Cons.prems p have "approve_loop S env agents rs b = Inr b'" by simp
    from Cons.IH [OF this] show ?thesis by auto
  next
    case (Inr agent)
    with Cons.prems p obtain v where
      "approve_loop S env agents rs (bt_push (agent, layer) (to_str S (strip_routing_hints v)) b) = Inr b'"
      by (auto simp: bindE_Inr_iff)
    from Cons.IH [OF this] show ?thesis by (auto simp: fst_bt_push p)
  qed
qed simp

lemma approve_steps:
  assumes "approve_operation E ulid oper approver actor reason d = Inr (d', n)"
  obtains row listed routing layers buckets d1 rec where
    "find_op oper d = Some row" "op_status row = OpPendingApproval"
    "traverse (routing_of_desired (ce_serde E)) (filter (\<lambda>x. ds_operation_id x = oper) (db_desired d)) = Inr listed"
    "topo_sort_by_depends_on (ce_serde E) listed = Inr routing"
    "compute_resource_layers (ce_serde E) routing = Inr layers"
    "approve_loop (ce_serde E) (op_environment row) (agent_snapshot d) (zip routing layers) [] = Inr buckets"
    "insert_approved E oper ulid 0 buckets d = Inr d1" "n = length buckets"
    "d' = audited E rec (d1\<lparr>db_operations := update_where (\<lambda>w. op_id w = oper \<and> op_status w = OpPendingApproval)
        (\<lambda>w. w\<lparr>op_status := (if n = 0 then OpSucceeded else OpPending),
               op_approved_by := Some approver, op_approved_at := Some (ce_now E),
               op_approval_reason := reason,
               op_finished_at := (if n = 0 then Some (ce_now E) else op_finished_at w)\<rparr>)
        (db_operations d1)\<rparr>)"
proof -
  note def = assms [unfolded approve_operation_def Let_def]
  from def obtain row where "ok_or (find_op oper d) NotFound = Inr row" by (rule bindE_InrE)
  then have 1: "find_op oper d = Some row" by simp
  note def = def [unfolded 1 ok_or_simps bindE_simps]
  from def have 2: "op_status row = OpPendingApproval" by (auto split: if_splits)
  then have ns: "\<not> op_status row \<noteq> OpPendingApproval" by simp
  note def = def [unfolded if_not_P [OF ns]]
  from def obtain listed where 3: "traverse (routing_of_desired (ce_serde E))
      (filter (\<lambda>x. ds_operation_id x = oper) (db_desired d)) = Inr listed" by (rule bindE_InrE)
  note def = def [unfolded 3 bindE_simps]
  from def obtain routing where 4: "topo_sort_by_depends_on (ce_serde E) listed = Inr routing" by (rule bindE_InrE)
  note def = def [unfolded 4 bindE_simps]
  from def obtain layers where 5: "compute_resource_layers (ce_serde E) routing = Inr layers" by (rule bindE_InrE)
  note def = def [unfolded 5 bindE_simps]
  from def obtain buckets where 6: "approve_loop (ce_serde E) (op_environment row) (agent_snapshot d)
      (zip routing layers) [] = Inr buckets" by (rule bindE_InrE)
  note def = def [unfolded 6 bindE_simps]
  from def obtain d1 where 7: "insert_approved E oper ulid 0 buckets d = Inr d1" by (rule bindE_InrE)
  note def = def [unfolded 7 bindE_simps]
  have "\<not> rows_affected (\<lambda>w. op_id w = oper \<and> op_status w = OpPendingApproval) (db_operations d1) \<noteq> 1"
    using def by (auto split: if_splits)
  note def = def [unfolded if_not_P [OF this]]
  then have n: "n = length buckets" by simp
  from def [folded n] show thesis
    unfolding sum.inject prod.inject by (elim conjE) (rule that [OF 1 2 3 4 5 6 7 n sym])
qed

lemma find_op_Some: "find_op oper d = Some w \<Longrightarrow> w \<in> set (db_operations d) \<and> op_id w = oper"
  by (auto simp: find_op_def find_Some_iff dest: nth_mem)

lemma inv_waiting_no_rows:
  assumes inv: "rollout_inv K d" and w: "w \<in> set (db_operations d)" "\<not> live_status (op_status w)"
  shows "\<forall>a \<in> set (db_assignments d). as_operation_id a \<noteq> op_id w"
proof (intro ballI notI)
  fix a assume "a \<in> set (db_assignments d)" "as_operation_id a = op_id w"
  then obtain v where v: "v \<in> set (db_operations d)" "op_id v = op_id w" "live_status (op_status v)"
    using inv unfolding rollout_inv_def by metis
  have "v = w" using operations_t.key_unique [OF _ v(1) w(1) v(2)] inv by (simp add: rollout_inv_def)
  with v w show False by simp
qed

lemma approve_inv:
  assumes inv: "rollout_inv K d" and a: "approve_operation E ulid oper approver actor reason d = Inr (d', n)"
  shows "rollout_inv K d'"
proof -
  obtain row listed routing layers buckets d1 rec where
    row: "find_op oper d = Some row" "op_status row = OpPendingApproval"
    and layers: "compute_resource_layers (ce_serde E) routing = Inr layers"
    and lp: "approve_loop (ce_serde E) (op_environment row) (agent_snapshot d) (zip routing layers) [] = Inr buckets"
    and ins: "insert_approved E oper ulid 0 buckets d = Inr d1" and n: "n = length buckets"
    and d': "d' = audited E rec (d1\<lparr>db_operations := update_where (\<lambda>w. op_id w = oper \<and> op_status w = OpPendingApproval)
        (\<lambda>w. w\<lparr>op_status := (if n = 0 then OpSucceeded else OpPending),
               op_approved_by := Some approver, op_approved_at := Some (ce_now E),
               op_approval_reason := reason,
               op_finished_at := (if n = 0 then Some (ce_now E) else op_finished_at w)\<rparr>)
        (db_operations d1)\<rparr>)" by (rule approve_steps [OF a])
  from insert_approved_Inr [OF ins] obtain rows where r: "d1 = d\<lparr>db_assignments := db_assignments d @ rows\<rparr>"
    "new_rows oper Map.empty (map fst buckets) rows"
    "distinct (map as_id (db_assignments d)) \<longrightarrow> distinct (map as_id (db_assignments d @ rows))" by blast
  have len: "n = length rows" using r(2) n by (auto simp: new_rows_def dest: list_all2_lengthD)
  note rw = find_op_Some [OF row(1)]
  have old: "distinct (map op_id (db_operations d))" "distinct (map as_id (db_assignments d))"
    using inv by (auto simp: rollout_inv_def rows_wf_def)
  have zs: "snd ` set (zip routing layers) = set layers"
    using compute_layers_steps(1) [OF layers] by (metis list.set_map map_snd_zip)
  have pos: "\<forall>k \<in> set (map fst buckets). 0 \<le> snd k"
    using approve_loop_keys [OF lp] compute_layers_nonneg [OF layers] zs by auto
  have uniq: "w = row" if "w \<in> set (db_operations d)" "op_id w = oper" for w
    using operations_t.key_unique [OF old(1)] rw that by metis
  let ?f = "\<lambda>w. if op_id w = oper \<and> op_status w = OpPendingApproval
    then w\<lparr>op_status := (if n = 0 then OpSucceeded else OpPending),
               op_approved_by := Some approver, op_approved_at := Some (ce_now E),
               op_approval_reason := reason,
               op_finished_at := (if n = 0 then Some (ce_now E) else op_finished_at w)\<rparr> else w"
  have ops: "db_operations d' = map ?f (db_operations d)" by (simp add: d' r(1) update_where_def)
  have fid: "op_id (?f w) = op_id w" for w by simp
  have fo: "op_id w \<noteq> oper \<Longrightarrow> ?f w = w" for w by simp
  show ?thesis
  proof (rule rollout_inv_add [OF inv r(2) split_ok_empty pos])
    show "distinct (map as_id (db_assignments d @ rows))" using r(3) old(2) by blast
    show "\<forall>a \<in> set (db_assignments d). as_operation_id a \<noteq> oper"
      using inv_waiting_no_rows [OF inv, of row] rw row(2) by (simp add: live_status_def)
    show "db_assignments d' = db_assignments d @ rows" by (simp add: d' r(1))
    have "map op_id (db_operations d') = map op_id (db_operations d)"
      unfolding ops map_map o_def fid ..
    then show "distinct (map op_id (db_operations d'))" using old(1) by simp
    show "w \<in> set (db_operations d') \<longleftrightarrow> w \<in> set (db_operations d)" if "op_id w \<noteq> oper" for w
    proof
      assume "w \<in> set (db_operations d')"
      then obtain v where v: "v \<in> set (db_operations d)" "w = ?f v" unfolding ops by auto
      have "op_id w = op_id v" unfolding v(2) by (rule fid)
      with that have "op_id v \<noteq> oper" by simp
      then have "w = v" unfolding v(2) by (rule fo)
      with v(1) show "w \<in> set (db_operations d)" by simp
    next
      assume w: "w \<in> set (db_operations d)"
      then have "?f w \<in> set (db_operations d')" unfolding ops set_map by (rule imageI)
      then show "w \<in> set (db_operations d')" unfolding fo [OF that] .
    qed
    have "?f row \<in> set (db_operations d')" unfolding ops set_map using rw by blast
    moreover have "op_id (?f row) = oper" using rw by simp
    ultimately show "\<exists>w \<in> set (db_operations d'). op_id w = oper" by blast
    show "op_status w = (if rows = [] then OpSucceeded else OpPending) \<or> rows = [] \<and> \<not> live_status (op_status w)"
      if w: "w \<in> set (db_operations d')" "op_id w = oper" for w
    proof -
      obtain v where v: "v \<in> set (db_operations d)" "w = ?f v" using w(1) unfolding ops by auto
      have "op_id w = op_id v" unfolding v(2) by (rule fid)
      with w(2) have "op_id v = oper" by simp
      with v(1) have "v = row" by (rule uniq)
      with v(2) rw row(2) len show ?thesis by simp
    qed
  qed
qed

section \<open>The machine of all rollout calls\<close>

datatype rollout_call =
    CreateOperation call_env string "nat \<Rightarrow> string" string string string "string option" "string option"
      "resource_for_routing list" "string list" bool "canary_spec option"
  | ApproveOperation call_env "nat \<Rightarrow> string" string string string "string option"
  | RejectOperation call_env string string string string
  | FetchAssignments call_env string
  | ClaimSsh call_env "string list"
  | RevertClaims call_env "string list"
  | CompleteAssignment call_env string string result_request "audit_record option"

fun rollout_step :: "rollout_call \<Rightarrow> db \<Rightarrow> db" where
  "rollout_step (CreateOperation E oper ulid env by actor src summary rs pol req canary) d =
     commit (create_operation E oper ulid env by actor src summary rs pol req canary) d"
| "rollout_step (ApproveOperation E ulid oper approver actor reason) d =
     commit (approve_operation E ulid oper approver actor reason) d"
| "rollout_step (RejectOperation E oper rejector actor reason) d =
     commit (reject_operation E oper rejector actor reason) d"
| "rollout_step (FetchAssignments E agent) d = commit (fetch_pending_assignments E agent) d"
| "rollout_step (ClaimSsh E targets) d = commit (claim_ssh_pending E targets) d"
| "rollout_step (RevertClaims E ids) d = commit (revert_assignment_claims E ids) d"
| "rollout_step (CompleteAssignment E agent aid result extra) d =
     commit (complete_assignment_with_extra_audit E agent aid result extra) d"

lemma rollout_step_inv:
  assumes "rollout_inv K d"
  shows "rollout_inv K (rollout_step c d)"
proof (cases c)
  case CreateOperation
  show ?thesis unfolding CreateOperation rollout_step.simps by (rule commit_inv [where I = "rollout_inv K", OF assms]) (erule create_inv [OF assms])
next
  case ApproveOperation
  show ?thesis unfolding ApproveOperation rollout_step.simps by (rule commit_inv [where I = "rollout_inv K", OF assms]) (erule approve_inv [OF assms])
next
  case RejectOperation
  show ?thesis unfolding RejectOperation rollout_step.simps by (rule commit_inv [where I = "rollout_inv K", OF assms]) (erule reject_inv [OF assms])
next
  case FetchAssignments
  show ?thesis unfolding FetchAssignments rollout_step.simps by (rule commit_inv [where I = "rollout_inv K", OF assms]) (erule fetch_inv [OF assms])
next
  case ClaimSsh
  show ?thesis unfolding ClaimSsh rollout_step.simps by (rule commit_inv [where I = "rollout_inv K", OF assms]) (erule claim_ssh_inv [OF assms])
next
  case RevertClaims
  show ?thesis unfolding RevertClaims rollout_step.simps by (rule commit_inv [where I = "rollout_inv K", OF assms]) (erule revert_inv [OF assms])
next
  case CompleteAssignment
  show ?thesis unfolding CompleteAssignment rollout_step.simps by (rule commit_inv [where I = "rollout_inv K", OF assms]) (erule complete_inv [OF assms])
qed

interpretation rollout: machine_invariant rollout_step "rollout_inv K"
  by unfold_locales (rule rollout_step_inv)

lemma rollout_inv_empty: "rollout_inv K empty_db"
  by (simp add: rollout_inv_def rows_wf_def rollout_ok_def empty_db_def rows_of_def phase_defs progress_def)

lemma rows_of_mem: "a \<in> set (rows_of oper rows) \<longleftrightarrow> a \<in> set rows \<and> as_operation_id a = oper"
  by (auto simp: rows_of_def of_op_def)

section \<open>Claims: exclusive within the lease, recoverable after it\<close>

lemma mark_all_frame [simp]: "db_assignments (fold (mark_running now) opers d) = db_assignments d"
  by (induction opers arbitrary: d) (simp_all add: mark_running_def)

lemma fetch_result:
  assumes "fetch_pending_assignments E agent d = Inr (d', out)"
  obtains cutoff where "lease_cutoff E = Inr cutoff"
    and "en_assignment_id ` set out = as_id ` {a \<in> set (db_assignments d). as_agent_id a = agent \<and> claimable cutoff a}"
    and "distinct (map as_id (filter (\<lambda>a. as_agent_id a = agent \<and> claimable cutoff a) (db_assignments d))) \<longrightarrow> distinct (map en_assignment_id out)"
    and "db_assignments d' = update_where (\<lambda>a. as_agent_id a = agent \<and> claimable cutoff a) (claim_row (ce_now E)) (db_assignments d)"
proof -
  obtain cutoff out0 where c: "lease_cutoff E = Inr cutoff"
    and tr: "traverse (envelope_of (ce_serde E)) (filter (\<lambda>a. as_agent_id a = agent \<and> claimable cutoff a) (db_assignments d)) = Inr out0"
    and out: "out = sort_key en_created_at out0"
    and d': "d' = fold (mark_running (ce_now E))
      (remdups (map as_operation_id (filter (\<lambda>a. as_agent_id a = agent \<and> claimable cutoff a) (db_assignments d))))
      (d\<lparr>db_assignments := update_where (\<lambda>a. as_agent_id a = agent \<and> claimable cutoff a) (claim_row (ce_now E)) (db_assignments d)\<rparr>)"
    using assms by (auto simp: fetch_pending_assignments_def bindE_Inr_iff Let_def)
  have e: "envelope_of S a = Inr e \<Longrightarrow> en_assignment_id e = as_id a" for S a e
    by (auto simp: envelope_of_def bindE_Inr_iff)
  have "list_all2 (\<lambda>a e. en_assignment_id e = as_id a)
      (filter (\<lambda>a. as_agent_id a = agent \<and> claimable cutoff a) (db_assignments d)) out0"
    using tr unfolding traverse_Inr_iff by (rule list_all2_mono) (rule e)
  then have "map en_assignment_id out0 = map as_id (filter (\<lambda>a. as_agent_id a = agent \<and> claimable cutoff a) (db_assignments d))"
    by (induction rule: list_all2_induct) auto
  note ids = this
  from arg_cong [OF ids, of set] have "en_assignment_id ` set out =
      as_id ` {a \<in> set (db_assignments d). as_agent_id a = agent \<and> claimable cutoff a}"
    by (simp add: out)
  moreover have "mset (map en_assignment_id out) = mset (map en_assignment_id out0)" by (simp add: out)
  then have "distinct (map as_id (filter (\<lambda>a. as_agent_id a = agent \<and> claimable cutoff a) (db_assignments d))) \<longrightarrow> distinct (map en_assignment_id out)"
    unfolding ids [symmetric] by (metis mset_eq_imp_distinct_iff)
  ultimately show thesis using c d' by (intro that [of cutoff]) simp_all
qed

lemma fetch_claims:
  assumes "rollout_inv K d" "fetch_pending_assignments E agent d = Inr (d', out)" "lease_cutoff E = Inr cutoff"
  shows "distinct (map en_assignment_id out)"
    and "en_assignment_id ` set out = as_id ` {a \<in> set (db_assignments d). as_agent_id a = agent \<and> claimable cutoff a}"
    and "db_assignments d' = map (\<lambda>a. if as_id a \<in> en_assignment_id ` set out then claim_row (ce_now E) a else a) (db_assignments d)"
proof -
  have dist: "distinct (map as_id (db_assignments d))" using assms(1) by (simp add: rollout_inv_def rows_wf_def)
  obtain c where "lease_cutoff E = Inr c"
    and out: "en_assignment_id ` set out = as_id ` {a \<in> set (db_assignments d). as_agent_id a = agent \<and> claimable c a}"
      "distinct (map as_id (filter (\<lambda>a. as_agent_id a = agent \<and> claimable c a) (db_assignments d))) \<longrightarrow> distinct (map en_assignment_id out)"
    and rows: "db_assignments d' = update_where (\<lambda>a. as_agent_id a = agent \<and> claimable c a) (claim_row (ce_now E)) (db_assignments d)"
    by (rule fetch_result [OF assms(2)])
  then have c: "c = cutoff" using assms(3) by simp
  show "distinct (map en_assignment_id out)" using out(2) distinct_map_filter [OF dist] by blast
  show o: "en_assignment_id ` set out = as_id ` {a \<in> set (db_assignments d). as_agent_id a = agent \<and> claimable cutoff a}"
    using out(1) by (simp add: c)
  have "as_agent_id a = agent \<and> claimable cutoff a \<longleftrightarrow> as_id a \<in> en_assignment_id ` set out" if "a \<in> set (db_assignments d)" for a
    unfolding o using that assignments_t.key_unique [OF dist that] by blast
  then show "db_assignments d' = map (\<lambda>a. if as_id a \<in> en_assignment_id ` set out then claim_row (ce_now E) a else a) (db_assignments d)"
    unfolding rows c update_where_def by simp
qed

text \<open>
  C23. A poll claims exactly what is due, and the claim is a lease. It hands out, each once, the rows of the
  agent that are pending, or that were fetched at a time before the cutoff of the poll; exactly these become
  fetched, with the time of the poll as their claim time, and every other row and column stays. At the
  agent's next poll a row handed out is handed out again exactly when the time of the claim lies before that
  poll's cutoff: within the lease there is no double dispatch, and a crashed agent gets its work back after it.
\<close>

theorem fetch_lease:
  assumes "rollout_inv K d" and "fetch_pending_assignments E1 agent d = Inr (d1, out1)" and "lease_cutoff E1 = Inr cutoff1"
    and "fetch_pending_assignments E2 agent d1 = Inr (d2, out2)" and "lease_cutoff E2 = Inr cutoff2"
  shows "distinct (map en_assignment_id out1)
    \<and> (\<forall>aid. aid \<in> en_assignment_id ` set out1 \<longleftrightarrow>
        (\<exists>a \<in> set (db_assignments d). as_id a = aid \<and> as_agent_id a = agent
          \<and> (as_status a = APending \<or> as_status a = AFetched \<and> (\<exists>t. as_fetched_at a = Some t \<and> t < cutoff1))))
    \<and> db_assignments d1 = map (\<lambda>a. if as_id a \<in> en_assignment_id ` set out1
        then a\<lparr>as_status := AFetched, as_fetched_at := Some (ce_now E1)\<rparr> else a) (db_assignments d)
    \<and> (\<forall>aid \<in> en_assignment_id ` set out1. aid \<in> en_assignment_id ` set out2 \<longleftrightarrow> ce_now E1 < cutoff2)"
proof (intro conjI ballI)
  note c1 = fetch_claims [OF assms(1,2,3)]
  note c2 = fetch_claims [OF fetch_inv [OF assms(1,2)] assms(4,5)]
  show "distinct (map en_assignment_id out1)" by (rule c1(1))
  show "\<forall>aid. aid \<in> en_assignment_id ` set out1 \<longleftrightarrow>
        (\<exists>a \<in> set (db_assignments d). as_id a = aid \<and> as_agent_id a = agent
          \<and> (as_status a = APending \<or> as_status a = AFetched \<and> (\<exists>t. as_fetched_at a = Some t \<and> t < cutoff1)))"
    unfolding c1(2) claimable_def by (auto split: option.splits)
  show rows: "db_assignments d1 = map (\<lambda>a. if as_id a \<in> en_assignment_id ` set out1
        then a\<lparr>as_status := AFetched, as_fetched_at := Some (ce_now E1)\<rparr> else a) (db_assignments d)"
    using c1(3) by (simp add: claim_row_def)
  fix aid assume aid: "aid \<in> en_assignment_id ` set out1"
  then obtain a where a: "a \<in> set (db_assignments d)" "as_id a = aid" "as_agent_id a = agent" unfolding c1(2) by auto
  let ?a = "a\<lparr>as_status := AFetched, as_fetched_at := Some (ce_now E1)\<rparr>"
  have in1: "?a \<in> set (db_assignments d1)" unfolding rows using a aid by (auto intro!: image_eqI [of _ _ a])
  have "distinct (map as_id (db_assignments d1))" using fetch_inv [OF assms(1,2)] by (simp add: rollout_inv_def rows_wf_def)
  then have "b = ?a" if "b \<in> set (db_assignments d1)" "as_id b = aid" for b
    using assignments_t.key_unique [OF _ that(1) in1] that(2) a(2) by simp
  moreover have "as_agent_id ?a = agent" "as_id ?a = aid" using a(2,3) by simp_all
  ultimately have "aid \<in> en_assignment_id ` set out2 \<longleftrightarrow> claimable cutoff2 ?a"
    unfolding c2(2) image_iff using in1 by blast
  then show "aid \<in> en_assignment_id ` set out2 \<longleftrightarrow> ce_now E1 < cutoff2" by (simp add: claimable_def)
qed

text \<open>A concrete database: one running operation with one pending assignment.\<close>

definition sample_env :: "string \<Rightarrow> string \<Rightarrow> call_env" where
  "sample_env now cutoff = \<lparr>ce_hash = sample_digest,
     ce_serde = \<lparr>from_str = (\<lambda>s. Some (JObj [(''resources'', JArr [])])), to_str = (\<lambda>j. ''{}'')\<rparr>,
     ce_now = now, ce_after = (\<lambda>_. Some cutoff), ce_audit_now = now, ce_lease = None,
     ce_fault = (\<lambda>_. None)\<rparr>"

definition sample_work :: db where
  "sample_work = empty_db\<lparr>db_operations := [new_operation_row (sample_env ''t0'' ''t0'') ''op1'' ''prod'' ''al'' None None [] False],
     db_assignments := [new_assignment ''s1'' ''a1'' ''op1'' ''p'' ''t0'' 0 None APending]\<rparr>"

lemma sample_rows_of: "rows_of oper (db_assignments sample_work) =
    (if oper = ''op1'' then db_assignments sample_work else [])"
  by (auto simp: sample_work_def rows_of_def of_op_def)

lemma sample_work_inv: "rollout_inv K sample_work"
proof -
  have "rolled_up_status ''op1'' (db_assignments sample_work) = None"
    unfolding rolled_up_status_eq sample_rows_of by (simp add: sample_work_def unfinished_def)
  then have "\<forall>w \<in> set (db_operations sample_work). op_id w \<in> K \<and> live_status (op_status w) \<longrightarrow> status_agrees (db_assignments sample_work) w"
    by (simp add: sample_work_def status_agrees_def new_operation_row_def)
  moreover have "rollout_ok K (db_assignments sample_work)"
    unfolding rollout_ok_def sample_rows_of
    by (simp add: sample_work_def phase_defs progress_def status_defs)
  ultimately show ?thesis
    by (simp add: rollout_inv_def rows_wf_def) (simp add: sample_work_def new_operation_row_def live_status_def)
qed

lemma sample_fetch:
  "fetch_pending_assignments (sample_env ''t5'' ''t4'') ''a1'' sample_work =
     Inr (mark_running ''t5'' ''op1'' (sample_work\<lparr>db_assignments := [claim_row ''t5'' (hd (db_assignments sample_work))]\<rparr>),
          [\<lparr>en_assignment_id = ''s1'', en_operation_id = ''op1'', en_kind = ''apply'', en_created_at = ''t0'',
            en_expires_at = None, en_payload = [], en_key_id = [], en_signature = []\<rparr>])"
  by (simp add: fetch_pending_assignments_def lease_cutoff_def sample_env_def sample_work_def claimable_def
      envelope_of_def parse_payload_def parse_json_def update_where_def new_assignment_def)

lemma sample_refetch:
  "fetch_pending_assignments (sample_env ''t6'' ''t4'') ''a1''
      (mark_running ''t5'' ''op1'' (sample_work\<lparr>db_assignments := [claim_row ''t5'' (hd (db_assignments sample_work))]\<rparr>)) =
     Inr (mark_running ''t5'' ''op1'' (sample_work\<lparr>db_assignments := [claim_row ''t5'' (hd (db_assignments sample_work))]\<rparr>), [])"
proof -
  have "\<not> ''t5'' < ''t4''" by code_simp
  then show ?thesis
    by (simp add: fetch_pending_assignments_def lease_cutoff_def sample_env_def sample_work_def claimable_def
        update_where_def new_assignment_def claim_row_def mark_running_def)
qed

theorem fetch_lease_witness:
  "\<exists>d1 out1 d2 out2. fetch_pending_assignments (sample_env ''t5'' ''t4'') ''a1'' sample_work = Inr (d1, out1)
     \<and> fetch_pending_assignments (sample_env ''t6'' ''t4'') ''a1'' d1 = Inr (d2, out2)
     \<and> ''s1'' \<in> en_assignment_id ` set out1 \<and> \<not> ''t5'' < ''t4'' \<and> ''s1'' \<notin> en_assignment_id ` set out2"
proof (intro exI conjI)
  have c: "lease_cutoff (sample_env now ''t4'') = Inr ''t4''" for now by (simp add: lease_cutoff_def sample_env_def)
  from fetch_lease [OF sample_work_inv [of UNIV] sample_fetch c sample_refetch c] show "\<not> ''t5'' < ''t4''"
    by (simp add: sample_env_def)
qed (rule sample_fetch, rule sample_refetch, simp_all)

section \<open>Completion reports\<close>

text \<open>A finished row is never touched by the advance step.\<close>

lemma finished_update: "x \<in> set rows \<Longrightarrow> \<not> P x \<Longrightarrow> x \<in> set (update_where P f rows)"
  by (auto simp: set_update_where intro!: image_eqI [of _ _ x])

lemma finished_canary_loop:
  "x \<in> set rows \<Longrightarrow> \<not> unfinished x \<Longrightarrow> x \<in> set (canary_loop oper now ls rows)"
proof (induction ls arbitrary: rows)
  case (Cons l ls)
  have st: "as_status x \<notin> {APendingCanary, APendingLayer, APending, AFetched}"
    using Cons.prems(2) by (auto simp: unfinished_def)
  show ?case
    unfolding canary_loop.simps Let_def
    using Cons.IH [OF Cons.prems] Cons.IH [OF finished_update [OF Cons.prems(1)] Cons.prems(2)]
      finished_update [OF Cons.prems(1)] st by simp
qed simp

lemma finished_advance:
  assumes "x \<in> set rows" "\<not> unfinished x"
  shows "x \<in> set (advance_phased_apply oper now rows)"
proof -
  have c: "x \<in> set (advance_canary oper now rows)"
    unfolding advance_canary_def using assms by (rule finished_canary_loop)
  have "as_status x \<noteq> APendingLayer" using assms(2) by (auto simp: unfinished_def)
  then show ?thesis
    unfolding advance_phased_apply_def release_layer_def Let_def
    using c finished_update [OF c] by (simp split: option.splits)
qed

lemma complete_accepts:
  "(\<exists>d'. complete_assignment_with_extra_audit E agent aid result extra d = Inr (d', ())) \<longleftrightarrow>
     (\<exists>a \<in> set (db_assignments d). as_id a = aid \<and> as_agent_id a = agent \<and> as_status a \<in> {APending, AFetched})"
proof -
  let ?f = "find (\<lambda>a. as_id a = aid \<and> as_agent_id a = agent \<and> as_status a \<in> {APending, AFetched}) (db_assignments d)"
  have "(\<exists>d'. complete_assignment_with_extra_audit E agent aid result extra d = Inr (d', ())) \<longleftrightarrow> ?f \<noteq> None"
    by (cases ?f) (simp_all add: complete_assignment_with_extra_audit_def Let_def)
  then show ?thesis by (auto simp: find_None_iff)
qed

lemma complete_refuses:
  assumes "\<not> (\<exists>a \<in> set (db_assignments d). as_id a = aid \<and> as_agent_id a = agent \<and> as_status a \<in> {APending, AFetched})"
  shows "complete_assignment_with_extra_audit E agent aid result extra d = Inl NotFound"
proof -
  have "find (\<lambda>a. as_id a = aid \<and> as_agent_id a = agent \<and> as_status a \<in> {APending, AFetched}) (db_assignments d) = None"
    using assms by (simp add: find_None_iff)
  then show ?thesis by (simp add: complete_assignment_with_extra_audit_def)
qed

text \<open>
  C24. A completion report counts once. It is accepted exactly when the assignment is the agent's
  own and is pending or fetched; after it the assignment carries the reported status, and any
  further report for the same assignment, from whichever agent, is refused with \<open>NotFound\<close>.
\<close>

theorem complete_once:
  assumes "rollout_inv K d"
  shows "((\<exists>d'. complete_assignment E agent aid result d = Inr (d', ())) \<longleftrightarrow>
           (\<exists>a \<in> set (db_assignments d). as_id a = aid \<and> as_agent_id a = agent \<and> as_status a \<in> {APending, AFetched}))
     \<and> (\<forall>d'. complete_assignment E agent aid result d = Inr (d', ()) \<longrightarrow>
           (\<exists>a \<in> set (db_assignments d'). as_id a = aid \<and> as_status a = result_assignment_status (rr_status result))
         \<and> (\<forall>E2 agent2 result2. complete_assignment E2 agent2 aid result2 d' = Inl NotFound))"
proof (intro conjI allI impI)
  show "(\<exists>d'. complete_assignment E agent aid result d = Inr (d', ())) \<longleftrightarrow>
      (\<exists>a \<in> set (db_assignments d). as_id a = aid \<and> as_agent_id a = agent \<and> as_status a \<in> {APending, AFetched})"
    unfolding complete_assignment_def by (rule complete_accepts)
next
  fix d' assume c: "complete_assignment E agent aid result d = Inr (d', ())"
  note c = c [unfolded complete_assignment_def]
  obtain x js where x: "x \<in> set (db_assignments d)" "as_id x = aid"
    and rows: "db_assignments d' = completed_rows (as_operation_id x) aid (ce_now E) js (rr_status result) (db_assignments d)"
    by (rule complete_result [OF c])
  let ?x = "complete_row (ce_now E) js (rr_status result) x"
  have "?x \<in> set (update_where (\<lambda>a. as_id a = aid) (complete_row (ce_now E) js (rr_status result)) (db_assignments d))"
    using x by (auto simp: set_update_where)
  then have x': "?x \<in> set (db_assignments d')"
    unfolding rows completed_rows_def by (rule finished_advance) (simp add: unfinished_def)
  moreover have i: "as_id ?x = aid" using x(2) row_ident_sel [OF complete_row_frame(1)] by metis
  ultimately show "\<exists>a \<in> set (db_assignments d'). as_id a = aid \<and> as_status a = result_assignment_status (rr_status result)"
    by (intro bexI [of _ ?x]) simp_all
  fix E2 agent2 result2
  have "distinct (map as_id (db_assignments d'))"
    using complete_inv [OF assms c] by (simp add: rollout_inv_def rows_wf_def)
  then have u: "a = ?x" if "a \<in> set (db_assignments d')" "as_id a = aid" for a
    using assignments_t.key_unique [OF _ that(1) x'] that(2) i by simp
  show "complete_assignment E2 agent2 aid result2 d' = Inl NotFound"
    unfolding complete_assignment_def
  proof (rule complete_refuses, rule notI, elim bexE conjE)
    fix a assume "a \<in> set (db_assignments d')" "as_id a = aid" "as_status a \<in> {APending, AFetched}"
    with u [of a] show False by simp
  qed
qed

theorem complete_once_witness:
  "\<exists>d'. complete_assignment (sample_env ''t6'' ''t4'') ''a1'' ''s1''
       \<lparr>rr_status = RSucceeded, rr_summary = None, rr_items = []\<rparr> sample_work = Inr (d', ())
     \<and> complete_assignment (sample_env ''t7'' ''t4'') ''a1'' ''s1''
       \<lparr>rr_status = RFailed, rr_summary = None, rr_items = []\<rparr> d' = Inl NotFound"
proof -
  let ?r = "\<lparr>rr_status = RSucceeded, rr_summary = None, rr_items = []\<rparr>"
  have "\<exists>a \<in> set (db_assignments sample_work). as_id a = ''s1'' \<and> as_agent_id a = ''a1'' \<and> as_status a \<in> {APending, AFetched}"
    by (simp add: sample_work_def)
  with complete_once [OF sample_work_inv, of "sample_env ''t6'' ''t4''" "''a1''" "''s1''" ?r]
  show ?thesis by blast
qed

section \<open>Submission and approval\<close>

text \<open>
  A submission in which every resource found an agent gets rows without a gap: its layers are
  an initial segment of the numbers. This is the premise under which the phased rollout is safe.
\<close>

theorem fully_routed_contiguous:
  assumes "rollout_inv K d"
    and "create_operation E oper ulid env by actor src summary resources pol req canary d = Inr (d', out)"
    and "co_unrouted out = []"
  shows "contiguous (rows_of oper (db_assignments d')) \<and> length (rows_of oper (db_assignments d')) = co_assignment_count out"
proof -
  obtain layers keys rows split where
    layers: "compute_resource_layers (ce_serde E) resources = Inr layers"
    and n: "if req then rows = [] else new_rows oper split keys rows"
    and keys: "co_unrouted out = [] \<longrightarrow> snd ` set keys = set layers"
    and cnt: "co_assignment_count out = length rows"
    and d': "db_assignments d' = db_assignments d @ rows"
    and fresh: "oper \<notin> op_id ` set (db_operations d)" by (rule create_result [OF assms(2)])
  have old: "rows_of oper (db_assignments d) = []"
  proof -
    have "as_operation_id a \<in> op_id ` set (db_operations d)" if "a \<in> set (db_assignments d)" for a
      using assms(1) that unfolding rollout_inv_def by (metis image_eqI)
    with fresh show ?thesis by (auto simp: rows_of_def of_op_def filter_empty_conv)
  qed
  have own: "\<forall>a \<in> set rows. as_operation_id a = oper"
  proof (cases req)
    case False
    then have "new_rows oper split keys rows" using n by simp
    then show ?thesis by (meson new_rows_mem)
  qed (use n in simp)
  then have rows: "rows_of oper (db_assignments d') = rows"
    unfolding d' rows_of_append old by (simp add: rows_of_def of_op_def)
  have "contiguous rows"
  proof (cases req)
    case True
    with n show ?thesis by (simp add: contiguous_def)
  next
    case False
    with n keys assms(3) layers show ?thesis by (intro new_rows_contiguous) auto
  qed
  with cnt rows show ?thesis by simp
qed

definition sample_submit :: "(db \<times> create_outcome) api_result" where
  "sample_submit = create_operation (sample_env ''t0'' ''t0'') ''op1'' (\<lambda>i. ''s'' @ show_nat i) ''prod'' ''al'' ''user:al''
     None None [sample_db] [] False None sample_fleet"

lemma sample_submit_ok: "\<exists>d' out. sample_submit = Inr (d', out) \<and> co_unrouted out = [] \<and> co_assignment_count out = 1"
proof -
  have "compute_resource_layers (ce_serde (sample_env ''t0'' ''t0'')) [sample_db] = Inr [0]"
    by (simp add: compute_resource_layers_def sample_env_def read_depends_on_def)
  moreover have "route_resource sample_db ''prod'' (agent_snapshot sample_fleet) = Inr ''a1''"
    by (simp add: route_resource_def sample_db_def agent_snapshot_def sample_fleet_def sample_agent_def)
  ultimately show ?thesis
    by (simp add: sample_submit_def create_operation_def insert_operation_def sample_fleet_def empty_db_def
        insert_desired_def dispatch_buckets_def bucket_payload_def parse_json_def insert_assignment_def
        compute_canary_split_def sample_agent_def) (simp add: sample_env_def)
qed

theorem fully_routed_witness:
  "\<exists>d' out. sample_submit = Inr (d', out) \<and> contiguous (rows_of ''op1'' (db_assignments d'))
     \<and> length (rows_of ''op1'' (db_assignments d')) = 1"
proof -
  obtain d' out where o: "sample_submit = Inr (d', out)" "co_unrouted out = []" "co_assignment_count out = 1"
    using sample_submit_ok by blast
  have "rollout_inv K sample_fleet"
    using rollout_inv_empty rollout_inv_cong [of sample_fleet empty_db] by (simp add: sample_fleet_def empty_db_def)
  from fully_routed_contiguous [OF this o(1) [unfolded sample_submit_def] o(2)] o show ?thesis by auto
qed

lemma find_op_key:
  "distinct (map op_id (db_operations d)) \<Longrightarrow> w \<in> set (db_operations d) \<Longrightarrow> find_op (op_id w) d = Some w"
  unfolding find_op_def by (rule operations_t.find_key)

text \<open>Approval and rejection act on an operation that waits for approval and on no other.\<close>

lemma decided_refused:
  assumes inv: "rollout_inv K d" and w: "find_op oper d = Some w" "op_status w \<noteq> OpPendingApproval"
  shows "\<exists>m. approve_operation E ulid oper approver actor reason d = Inl (Conflict m)"
    and "trim why \<noteq> [] \<Longrightarrow> \<exists>m. reject_operation E oper approver actor why d = Inl (Conflict m)"
proof -
  show "\<exists>m. approve_operation E ulid oper approver actor reason d = Inl (Conflict m)"
    using w by (simp add: approve_operation_def Let_def)
  have u: "v = w" if "v \<in> set (db_operations d)" "op_id v = oper" for v
    using operations_t.key_unique [of d v w] inv find_op_Some [OF w(1)] that by (simp add: rollout_inv_def)
  then have "rows_affected (\<lambda>v. op_id v = oper \<and> op_status v = OpPendingApproval) (db_operations d) = 0"
    using w(2) by (auto simp: rows_affected_zero)
  then show "trim why \<noteq> [] \<Longrightarrow> \<exists>m. reject_operation E oper approver actor why d = Inl (Conflict m)"
    by (simp add: reject_operation_def Let_def)
qed

lemma approve_decides:
  assumes inv: "rollout_inv K d" and a: "approve_operation E ulid oper approver actor reason d = Inr (d', n)"
  shows "\<exists>w. find_op oper d = Some w \<and> op_status w = OpPendingApproval"
    and "\<exists>w. find_op oper d' = Some w \<and> op_status w = (if n = 0 then OpSucceeded else OpPending)
           \<and> op_approved_by w = Some approver"
proof -
  obtain row d1 rec f buckets where row: "find_op oper d = Some row" "op_status row = OpPendingApproval"
    and ins: "insert_approved E oper ulid 0 buckets d = Inr d1"
    and d': "d' = audited E rec (d1\<lparr>db_operations := update_where (\<lambda>w. op_id w = oper \<and> op_status w = OpPendingApproval)
        (\<lambda>w. w\<lparr>op_status := (if n = 0 then OpSucceeded else OpPending),
               op_approved_by := Some approver, op_approved_at := Some (ce_now E),
               op_approval_reason := reason,
               op_finished_at := (if n = 0 then Some (ce_now E) else op_finished_at w)\<rparr>)
        (db_operations d1)\<rparr>)" by (rule approve_steps [OF a])
  show "\<exists>w. find_op oper d = Some w \<and> op_status w = OpPendingApproval" using row by blast
  have ops: "db_operations d1 = db_operations d" using insert_approved_Inr [OF ins] by auto
  let ?w = "row\<lparr>op_status := (if n = 0 then OpSucceeded else OpPending),
               op_approved_by := Some approver, op_approved_at := Some (ce_now E),
               op_approval_reason := reason,
               op_finished_at := (if n = 0 then Some (ce_now E) else op_finished_at row)\<rparr>"
  note rw = find_op_Some [OF row(1)]
  have "?w \<in> set (db_operations d')"
    unfolding d' using rw row(2) by (auto simp: ops set_update_where intro!: image_eqI [of _ _ row])
  moreover have "distinct (map op_id (db_operations d'))" using approve_inv [OF inv a] by (simp add: rollout_inv_def)
  ultimately have "find_op oper d' = Some ?w" using find_op_key [of d' ?w] rw by simp
  then show "\<exists>w. find_op oper d' = Some w \<and> op_status w = (if n = 0 then OpSucceeded else OpPending)
           \<and> op_approved_by w = Some approver" by (intro exI [of _ ?w]) simp
qed

lemma reject_decides:
  assumes inv: "rollout_inv K d" and r: "reject_operation E oper rejector actor why d = Inr (d', ())"
  shows "\<exists>w. find_op oper d = Some w \<and> op_status w = OpPendingApproval"
    and "\<exists>w. find_op oper d' = Some w \<and> op_status w = OpRejected \<and> op_rejection_reason w = Some why"
proof -
  let ?wait = "\<lambda>w. op_id w = oper \<and> op_status w = OpPendingApproval"
  let ?f = "\<lambda>w. w\<lparr>op_status := OpRejected, op_rejected_by := Some rejector, op_rejected_at := Some (ce_now E),
             op_rejection_reason := Some why, op_finished_at := Some (ce_now E)\<rparr>"
  have ops: "db_operations d' = update_where ?wait ?f (db_operations d)"
    and ne: "rows_affected ?wait (db_operations d) \<noteq> 0"
    using r by (auto simp: reject_operation_def Let_def split: if_splits)
  then obtain w where w: "w \<in> set (db_operations d)" "op_id w = oper" "op_status w = OpPendingApproval"
    unfolding rows_affected_zero by blast
  then have "find_op oper d = Some w" using find_op_key [of d w] inv by (simp add: rollout_inv_def)
  with w show "\<exists>w. find_op oper d = Some w \<and> op_status w = OpPendingApproval" by blast
  have "?f w \<in> set (db_operations d')"
    unfolding ops using w by (auto simp: set_update_where intro!: image_eqI [of _ _ w])
  moreover have "distinct (map op_id (db_operations d'))" using reject_inv [OF inv r] by (simp add: rollout_inv_def)
  ultimately have "find_op oper d' = Some (?f w)" using find_op_key [of d' "?f w"] w(2) by simp
  then show "\<exists>w. find_op oper d' = Some w \<and> op_status w = OpRejected \<and> op_rejection_reason w = Some why"
    by (intro exI [of _ "?f w"]) simp
qed

text \<open>
  An operation is decided once. Approval and rejection succeed only on an operation in
  \<open>pending_approval\<close>; approval records the approver and makes it pending (or finished, when it
  routes nothing), rejection records the reason; and afterwards every further approval or
  rejection is refused with a conflict.
\<close>

theorem approval_decided_once:
  assumes "rollout_inv K d"
    and "approve_operation E ulid oper who actor reason d = Inr (d', n)
         \<or> reject_operation E oper who actor why d = Inr (d', ())"
  shows "(\<exists>w. find_op oper d = Some w \<and> op_status w = OpPendingApproval)
    \<and> (\<exists>w. find_op oper d' = Some w \<and>
         (op_status w \<in> {OpSucceeded, OpPending} \<and> op_approved_by w = Some who
          \<or> op_status w = OpRejected \<and> op_rejection_reason w = Some why))
    \<and> (\<forall>E2 ulid2 who2 actor2 reason2. \<exists>m. approve_operation E2 ulid2 oper who2 actor2 reason2 d' = Inl (Conflict m))
    \<and> (\<forall>E2 who2 actor2 why2. trim why2 \<noteq> [] \<longrightarrow> (\<exists>m. reject_operation E2 oper who2 actor2 why2 d' = Inl (Conflict m)))"
proof -
  have inv': "rollout_inv K d'" using assms approve_inv reject_inv by blast
  have was: "\<exists>w. find_op oper d = Some w \<and> op_status w = OpPendingApproval"
    using assms(2) approve_decides(1) [OF assms(1)] reject_decides(1) [OF assms(1)] by blast
  obtain w where w: "find_op oper d' = Some w" and st: "op_status w \<in> {OpSucceeded, OpPending} \<and> op_approved_by w = Some who
          \<or> op_status w = OpRejected \<and> op_rejection_reason w = Some why"
    using assms(2)
  proof
    assume "approve_operation E ulid oper who actor reason d = Inr (d', n)"
    from approve_decides(2) [OF assms(1) this] show thesis by (auto intro: that split: if_splits)
  next
    assume "reject_operation E oper who actor why d = Inr (d', ())"
    from reject_decides(2) [OF assms(1) this] show thesis by (auto intro: that)
  qed
  then have "op_status w \<noteq> OpPendingApproval" by auto
  from decided_refused [OF inv' w this] was w st show ?thesis by blast
qed

text \<open>A concrete operation waiting for approval.\<close>

definition sample_waiting :: db where
  "sample_waiting = empty_db\<lparr>db_operations := [new_operation_row (sample_env ''t0'' ''t0'') ''op1'' ''prod'' ''al'' None None [] True]\<rparr>"

lemma sample_waiting_inv: "rollout_inv K sample_waiting"
  by (simp add: rollout_inv_def sample_waiting_def empty_db_def rows_wf_def rollout_ok_def rows_of_def
      new_operation_row_def live_status_def phase_defs progress_def)

theorem approval_decided_once_witness:
  "\<exists>d'. reject_operation (sample_env ''t1'' ''t0'') ''op1'' ''bo'' ''user:bo'' ''too risky'' sample_waiting = Inr (d', ())
     \<and> (\<exists>m. approve_operation (sample_env ''t2'' ''t0'') (\<lambda>i. ''s'') ''op1'' ''cy'' ''user:cy'' None d' = Inl (Conflict m))"
proof -
  have "\<exists>d'. reject_operation (sample_env ''t1'' ''t0'') ''op1'' ''bo'' ''user:bo'' ''too risky'' sample_waiting = Inr (d', ())"
  proof -
    have "plain_byte CHR ''t''" "plain_byte CHR ''y''" by code_simp+
    then have "trim ''too risky'' = ''too risky''" by (intro trim_plain) simp
    then show ?thesis by (simp add: reject_operation_def sample_waiting_def rows_affected_def new_operation_row_def)
  qed
  then obtain d' where d': "reject_operation (sample_env ''t1'' ''t0'') ''op1'' ''bo'' ''user:bo'' ''too risky'' sample_waiting = Inr (d', ())"
    by blast
  from approval_decided_once [OF sample_waiting_inv disjI2 [OF d']]
  show ?thesis using d' by blast
qed

end
