(* ===== verification/Control_Plane.thy ===== *)
theory Control_Plane
  imports Rollout Users Drift Retention
begin

text \<open>
  The control plane as one machine: every store call of the rollout, user, agent and drift
  components, the audit record the handlers write directly, and the pass of the retention loop, as one
  step on the one database. Each component's calls leave the tables of the others alone, so the invariants
  of the components hold together, and every call extends the audit chain. The retention pass is the
  exception: it deletes finished assignments and the beginning of the audit log. What the rows of an
  operation say together is an invariant as long as no pass deletes a row of that operation, and
  that the log verifies as long as no pass deletes an audit row.
\<close>

section \<open>What the components share\<close>

definition rollout_part :: "db \<Rightarrow> operation_row list \<times> assignment_row list" where
  "rollout_part d = (db_operations d, db_assignments d)"

definition people_part :: "db \<Rightarrow> user_row list \<times> token_row list" where
  "people_part d = (db_users d, db_tokens d)"

definition drift_part :: "db \<Rightarrow> drift_row list \<times> int" where
  "drift_part d = (db_drift d, db_drift_seq d)"

definition beside_rollout :: "db \<Rightarrow> agent_row list \<times> (user_row list \<times> token_row list) \<times> drift_row list \<times> int" where
  "beside_rollout d = (db_agents d, people_part d, drift_part d)"

definition beside_people :: "db \<Rightarrow> agent_row list \<times> (operation_row list \<times> assignment_row list) \<times> (drift_row list \<times> int) \<times> audit_log" where
  "beside_people d = (db_agents d, rollout_part d, drift_part d, db_audit d)"

definition beside_agents :: "db \<Rightarrow> (operation_row list \<times> assignment_row list) \<times> (user_row list \<times> token_row list) \<times> drift_row list \<times> int" where
  "beside_agents d = (rollout_part d, people_part d, drift_part d)"

definition beside_drift :: "db \<Rightarrow> agent_row list \<times> (operation_row list \<times> assignment_row list) \<times> user_row list \<times> token_row list" where
  "beside_drift d = (db_agents d, rollout_part d, people_part d)"

lemmas part_defs = rollout_part_def people_part_def drift_part_def beside_rollout_def beside_people_def beside_agents_def beside_drift_def

definition audit_extends :: "call_env \<Rightarrow> db \<Rightarrow> db \<Rightarrow> bool" where
  "audit_extends E d d' \<longleftrightarrow> (\<exists>recs. db_audit d' = fold (record_audit_on (ce_hash E) (ce_serde E) (ce_audit_now E)) recs (db_audit d))"

lemma audit_same: "db_audit d' = db_audit d \<Longrightarrow> audit_extends E d d'"
  unfolding audit_extends_def by (rule exI [of _ "[]"]) simp

lemma audit_same_drift: "audit_extends E d (d\<lparr>db_drift := x\<rparr>)"
  by (rule audit_same) simp

lemma audit_once: "db_audit d = db_audit d0 \<Longrightarrow> audit_extends E d0 (audited E rec d)"
  unfolding audit_extends_def by (rule exI [of _ "[rec]"]) (simp add: audited_def)

lemma audit_twice: "db_audit d = db_audit d0 \<Longrightarrow> audit_extends E d0 (audited E rec' (audited E rec d))"
  unfolding audit_extends_def by (rule exI [of _ "[rec, rec']"]) (simp add: audited_def)

lemma audit_extends_wf:
  assumes "audit_extends E d d'" "audit_wf (ce_hash E) (db_audit d)"
  shows "audit_wf (ce_hash E) (db_audit d')"
proof -
  obtain recs where r: "db_audit d' = fold (record_audit_on (ce_hash E) (ce_serde E) (ce_audit_now E)) recs (db_audit d)"
    using assms(1) by (auto simp: audit_extends_def)
  have "audit_wf (ce_hash E) log \<Longrightarrow> audit_wf (ce_hash E) (fold (record_audit_on (ce_hash E) (ce_serde E) (ce_audit_now E)) recs log)" for log
    by (induction recs arbitrary: log) (auto intro: audit_wf_record)
  with assms(2) show ?thesis unfolding r by blast
qed

section \<open>The frame of every call\<close>

lemma submit_loop_frame:
  "submit_loop oper env agents rs acc = Inr acc' \<Longrightarrow> beside_rollout (fst acc') = beside_rollout (fst acc) \<and> db_audit (fst acc') = db_audit (fst acc)"
proof (induction rs arbitrary: acc)
  case (Cons x rs)
  obtain r layer d b u where x: "x = (r, layer)" "acc = (d, b, u)" by (metis surj_pair)
  from Cons.prems x obtain d1 where d1: "insert_desired oper r d = Inr d1" by (auto elim: bindE_InrE)
  have f: "beside_rollout d1 = beside_rollout d \<and> db_audit d1 = db_audit d"
    using d1 by (auto simp: insert_desired_def part_defs split: if_splits)
  from Cons.prems x d1 Cons.IH f show ?case by (auto split: sum.splits)
qed simp

lemma dispatch_frame:
  assumes "dispatch_buckets E oper ulid canary req buckets d = Inr (d', n)"
  shows "beside_rollout d' = beside_rollout d \<and> db_audit d' = db_audit d"
  using assms by (auto simp: dispatch_buckets_def part_defs split: if_splits elim!: bindE_InrE dest!: insert_buckets_Inr)

lemma create_frame:
  assumes "create_operation E oper ulid env by actor src summary rs pol req canary d = Inr (d', out)"
  shows "beside_rollout d' = beside_rollout d \<and> audit_extends E d d'"
  using assms
proof (rule create_steps)
  fix d1 layers d2 buckets unrouted d4 n rec
  assume 1: "insert_operation (new_operation_row E oper env by src summary pol req) d = Inr d1"
    and 2: "submit_loop oper env (agent_snapshot d) (zip rs layers) (d1, [], []) = Inr (d2, buckets, unrouted)"
    and 3: "dispatch_buckets E oper ulid canary req buckets d2 = Inr (d4, n)" and d': "d' = audited E rec d4"
  have "beside_rollout d1 = beside_rollout d \<and> db_audit d1 = db_audit d"
    using 1 by (auto simp: insert_operation_def part_defs split: if_splits)
  with submit_loop_frame [OF 2] dispatch_frame [OF 3] have f: "beside_rollout d4 = beside_rollout d" "db_audit d4 = db_audit d"
    by simp_all
  then show ?thesis by (auto simp: d' part_defs intro: audit_once)
qed

lemma approve_frame:
  assumes "approve_operation E ulid oper approver actor reason d = Inr (d', n)"
  shows "beside_rollout d' = beside_rollout d \<and> audit_extends E d d'"
  using assms
proof (rule approve_steps)
  fix buckets d1 rec upd
  assume "insert_approved E oper ulid 0 buckets d = Inr d1" and d': "d' = audited E rec (d1\<lparr>db_operations := upd\<rparr>)"
  from insert_approved_Inr [OF this(1)] show ?thesis by (auto simp: d' part_defs intro: audit_once)
qed

lemma mark_all_other:
  "beside_rollout (fold (mark_running now) opers d) = beside_rollout d \<and> db_audit (fold (mark_running now) opers d) = db_audit d"
  by (induction opers arbitrary: d) (simp_all add: mark_running_def part_defs)

lemma complete_frame:
  assumes "complete_assignment_with_extra_audit E agent aid result extra d = Inr (d', u)"
  shows "beside_rollout d' = beside_rollout d \<and> audit_extends E d d'"
proof -
  have r: "beside_rollout (roll_up_operation oper now d) = beside_rollout d \<and> db_audit (roll_up_operation oper now d) = db_audit d" for oper now d
    by (simp add: roll_up_operation_def part_defs split: option.splits)
  have b: "beside_rollout (audited E rec d) = beside_rollout d" "beside_rollout (d\<lparr>db_assignments := x\<rparr>) = beside_rollout d" for rec d x
    by (simp_all add: part_defs)
  have "\<exists>rec oper x. d' = (case extra of None \<Rightarrow> audited E rec (roll_up_operation oper (ce_now E) (d\<lparr>db_assignments := x\<rparr>))
      | Some r \<Rightarrow> audited E r (audited E rec (roll_up_operation oper (ce_now E) (d\<lparr>db_assignments := x\<rparr>))))"
    using assms [unfolded complete_assignment_with_extra_audit_def Let_def] by (rule bindE_InrE) blast
  then show ?thesis by (cases extra) (auto simp: r b intro!: audit_once audit_twice)
qed

lemma fetch_frame:
  assumes "fetch_pending_assignments E agent d = Inr (d', out)"
  shows "beside_rollout d' = beside_rollout d \<and> db_audit d' = db_audit d"
  using assms unfolding fetch_pending_assignments_def Let_def
  by (auto elim!: bindE_InrE simp: mark_all_other) (simp_all add: part_defs)

lemma claim_ssh_frame:
  assumes "claim_ssh_pending E targets d = Inr (d', out)"
  shows "beside_rollout d' = beside_rollout d \<and> db_audit d' = db_audit d"
  using assms by (auto elim!: bindE_InrE simp: claim_ssh_pending_def mark_running_def part_defs split: if_splits option.splits)

fun rollout_env :: "rollout_call \<Rightarrow> call_env option" where
  "rollout_env (CreateOperation E oper ulid env by actor src summary rs pol req canary) = Some E"
| "rollout_env (ApproveOperation E ulid oper approver actor reason) = Some E"
| "rollout_env (RejectOperation E oper rejector actor reason) = Some E"
| "rollout_env (FetchAssignments E agent) = Some E"
| "rollout_env (ClaimSsh E targets) = Some E"
| "rollout_env (RevertClaims E ids) = None"
| "rollout_env (CompleteAssignment E agent aid result extra) = Some E"

abbreviation rollout_framed :: "call_env \<Rightarrow> db \<Rightarrow> db \<Rightarrow> bool" where
  "rollout_framed E d d' \<equiv> beside_rollout d' = beside_rollout d \<and> audit_extends E d d'"

lemma rollout_step_frame:
  "beside_rollout (rollout_step c d) = beside_rollout d
   \<and> (case rollout_env c of None \<Rightarrow> db_audit (rollout_step c d) = db_audit d | Some E \<Rightarrow> audit_extends E d (rollout_step c d))"
proof (cases c)
  case (CreateOperation E oper ulid env who actor src summary rs pol req canary)
  show ?thesis unfolding CreateOperation rollout_step.simps rollout_env.simps option.case
    by (rule commit_inv [where I = "rollout_framed E d"])
       (auto intro: audit_same dest: create_frame)
next
  case (ApproveOperation E ulid oper approver actor reason)
  show ?thesis unfolding ApproveOperation rollout_step.simps rollout_env.simps option.case
    by (rule commit_inv [where I = "rollout_framed E d"]) (auto intro: audit_same dest: approve_frame)
next
  case (RejectOperation E oper rejector actor reason)
  show ?thesis unfolding RejectOperation rollout_step.simps rollout_env.simps option.case
    by (rule commit_inv [where I = "rollout_framed E d"])
       (auto intro!: audit_once intro: audit_same simp: reject_operation_def Let_def part_defs split: if_splits)
next
  case (FetchAssignments E agent)
  show ?thesis unfolding FetchAssignments rollout_step.simps rollout_env.simps option.case
    by (rule commit_inv [where I = "rollout_framed E d"]) (auto intro!: audit_same dest: fetch_frame)
next
  case (ClaimSsh E targets)
  show ?thesis unfolding ClaimSsh rollout_step.simps rollout_env.simps option.case
    by (rule commit_inv [where I = "rollout_framed E d"]) (auto intro!: audit_same dest: claim_ssh_frame)
next
  case (RevertClaims E ids)
  then show ?thesis by (simp add: commit_def revert_assignment_claims_def part_defs split: option.splits)
next
  case (CompleteAssignment E agent aid result extra)
  show ?thesis unfolding CompleteAssignment rollout_step.simps rollout_env.simps option.case
    by (rule commit_inv [where I = "rollout_framed E d"]) (auto intro: audit_same dest: complete_frame)
qed

lemma user_step_frame: "beside_people (user_step c d) = beside_people d"
proof -
  have t: "insert_token row d = Inr d' \<Longrightarrow> beside_people d' = beside_people d" for row d d'
    by (auto simp: insert_token_def part_defs split: if_splits)
  show ?thesis
  proof (cases c)
    case (CreateUser E uid phc name pw roles)
    show ?thesis unfolding CreateUser user_step.simps
      by (rule commit_inv [where I = "\<lambda>d'. beside_people d' = beside_people d", OF refl])
         (auto simp: create_user_def insert_user_def part_defs split: if_splits option.splits elim!: bindE_InrE)
  next
    case (Login E verify tok name pw ttl)
    show ?thesis unfolding Login user_step.simps
      by (rule commit_inv [where I = "\<lambda>d'. beside_people d' = beside_people d", OF refl])
         (auto simp: login_defs split: if_splits option.splits elim!: bindE_InrE dest: t)
  next
    case (RefreshToken E tok old ttl)
    show ?thesis unfolding RefreshToken user_step.simps
    proof (rule commit_inv [where I = "\<lambda>d'. beside_people d' = beside_people d", OF refl])
      fix d' r assume "refresh_user_token E tok old ttl d = Inr (d', r)"
      then show "beside_people d' = beside_people d"
        by (cases r) (auto elim!: refresh_result dest!: t simp: part_defs)
    qed
  next
    case (RevokeToken E tok)
    then show ?thesis by (simp add: commit_def revoke_user_token_def part_defs)
  next
    case (PruneTokens E)
    then show ?thesis by (simp add: commit_def prune_expired_tokens_def part_defs)
  next
    case (UpdateRoles uid roles)
    show ?thesis unfolding UpdateRoles user_step.simps
      by (rule commit_inv [where I = "\<lambda>d'. beside_people d' = beside_people d", OF refl])
         (auto simp: update_user_roles_def Let_def part_defs split: if_splits elim!: bindE_InrE)
  next
    case (DisableUser E uid)
    show ?thesis unfolding DisableUser user_step.simps
      by (rule commit_inv [where I = "\<lambda>d'. beside_people d' = beside_people d", OF refl])
         (auto simp: disable_user_def Let_def part_defs split: if_splits elim!: bindE_InrE)
  next
    case (EnableUser uid)
    show ?thesis unfolding EnableUser user_step.simps
      by (rule commit_inv [where I = "\<lambda>d'. beside_people d' = beside_people d", OF refl])
         (auto simp: enable_user_def Let_def part_defs split: if_splits)
  next
    case (SetPassword phc uid pw)
    show ?thesis unfolding SetPassword user_step.simps
      by (rule commit_inv [where I = "\<lambda>d'. beside_people d' = beside_people d", OF refl])
         (auto simp: set_user_password_def Let_def part_defs split: if_splits elim!: bindE_InrE)
  qed
qed

fun agent_call_env :: "agent_call \<Rightarrow> call_env" where
  "agent_call_env (RegisterAgent E ulid token req ttl) = E"
| "agent_call_env (RotateAgentToken E token agent ttl) = E"
| "agent_call_env (Heartbeat E agent hb) = E"
| "agent_call_env (UpsertSshTarget E ulid name env) = E"
| "agent_call_env (RecordObservations E agent items) = E"

abbreviation agent_framed :: "call_env \<Rightarrow> db \<Rightarrow> db \<Rightarrow> bool" where
  "agent_framed E d d' \<equiv> beside_agents d' = beside_agents d \<and> audit_extends E d d'"

lemma insert_chunks_frame: "insert_chunks E agent cs d = Inr d' \<Longrightarrow> beside_agents d' = beside_agents d \<and> db_audit d' = db_audit d"
proof (induction cs arbitrary: d)
  case (Cons c cs)
  then obtain d1 where 1: "insert_observations E agent c d = Inr d1" "insert_chunks E agent cs d1 = Inr d'" by (auto elim!: bindE_InrE)
  have "beside_agents d1 = beside_agents d \<and> db_audit d1 = db_audit d"
    using 1(1) by (auto simp: insert_observations_def part_defs split: if_splits)
  with Cons.IH [OF 1(2)] show ?case by simp
qed simp

lemma agent_step_frame: "agent_framed (agent_call_env c) d (agent_step c d)"
proof (cases c)
  case (RegisterAgent E ulid token req ttl)
  show ?thesis unfolding RegisterAgent agent_step.simps agent_call_env.simps
    by (rule commit_inv [where I = "agent_framed E d"])
       (auto simp: register_agent_def insert_agent_Some part_defs split: if_splits option.splits elim!: bindE_InrE intro!: audit_once intro: audit_same)
next
  case (RotateAgentToken E token agent ttl)
  show ?thesis unfolding RotateAgentToken agent_step.simps agent_call_env.simps
    by (rule commit_inv [where I = "agent_framed E d"])
       (auto simp: rotate_agent_token_def part_defs split: if_splits elim!: bindE_InrE intro!: audit_once intro: audit_same)
next
  case (Heartbeat E agent hb)
  then show ?thesis by (auto simp: commit_def record_heartbeat_def part_defs intro: audit_same)
next
  case (UpsertSshTarget E ulid name env)
  show ?thesis unfolding UpsertSshTarget agent_step.simps agent_call_env.simps
    by (rule commit_inv [where I = "agent_framed E d"])
       (auto simp: upsert_ssh_target_def insert_agent_Some part_defs split: option.splits intro!: audit_same)
next
  case (RecordObservations E agent items)
  have "agent_framed E d d'" if "record_observations E agent items d = Inr (d', n)" for d' n
    using that insert_chunks_frame [of E agent "chunks batch_size items" d]
    by (auto simp: record_observations_def part_defs split: if_splits elim!: bindE_InrE intro: audit_same)
  then show ?thesis unfolding RecordObservations agent_step.simps agent_call_env.simps
    by (intro commit_inv [where I = "agent_framed E d"]) (auto intro: audit_same)
qed

fun drift_call_env :: "drift_call \<Rightarrow> call_env" where
  "drift_call_env (RecordDrift E agent items) = E"
| "drift_call_env (CloseDriftNotIn E agent current) = E"
| "drift_call_env (AcceptDrift E i actor reason) = E"
| "drift_call_env (AcceptDriftBulk E f actor reason) = E"
| "drift_call_env (IgnoreDrift E p i actor until) = E"
| "drift_call_env (IgnoreDriftBulk E p f actor until) = E"

abbreviation drift_framed :: "call_env \<Rightarrow> db \<Rightarrow> db \<Rightarrow> bool" where
  "drift_framed E d d' \<equiv> beside_drift d' = beside_drift d \<and> audit_extends E d d'"

lemma record_drift_frame: "record_drift_loop E agent items n d = Inr (d', m) \<Longrightarrow> beside_drift d' = beside_drift d \<and> db_audit d' = db_audit d"
proof (induction items arbitrary: n d)
  case (Cons item items)
  then obtain d1 where 1: "record_drift_item E agent item d = Inr d1" "record_drift_loop E agent items (n + 1) d1 = Inr (d', m)"
    by (auto elim!: bindE_InrE)
  have "beside_drift d1 = beside_drift d \<and> db_audit d1 = db_audit d"
    using 1(1) by (cases rule: record_drift_item_cases) (simp_all add: part_defs)
  with Cons.IH [OF 1(2)] show ?case by simp
qed simp

lemma drift_step_frame: "drift_framed (drift_call_env c) d (drift_step c d)"
proof (cases c)
  case (RecordDrift E agent items)
  show ?thesis unfolding RecordDrift drift_step.simps drift_call_env.simps
    by (rule commit_inv [where I = "drift_framed E d"])
       (auto simp: record_drift_def split: if_splits dest: record_drift_frame intro!: audit_same)
next
  case (CloseDriftNotIn E agent current)
  then show ?thesis by (auto simp: commit_def close_drift_not_in_def Let_def part_defs intro: audit_same)
next
  case (AcceptDrift E i actor reason)
  show ?thesis unfolding AcceptDrift drift_step.simps drift_call_env.simps
    by (rule commit_inv [where I = "drift_framed E d"])
       (auto simp: accept_drift_def Let_def part_defs split: if_splits intro!: audit_once intro: audit_same)
next
  case (AcceptDriftBulk E f actor reason)
  show ?thesis unfolding AcceptDriftBulk drift_step.simps drift_call_env.simps
    by (rule commit_inv [where I = "drift_framed E d"])
       (auto simp: accept_drift_bulk_def Let_def part_defs intro!: audit_once intro: audit_same audit_same_drift)
next
  case (IgnoreDrift E p i actor until)
  show ?thesis unfolding IgnoreDrift drift_step.simps drift_call_env.simps
    by (rule commit_inv [where I = "drift_framed E d"])
       (auto simp: ignore_drift_def Let_def part_defs split: if_splits elim!: bindE_InrE intro!: audit_once intro: audit_same)
next
  case (IgnoreDriftBulk E p f actor until)
  show ?thesis unfolding IgnoreDriftBulk drift_step.simps drift_call_env.simps
    by (rule commit_inv [where I = "drift_framed E d"])
       (auto simp: ignore_drift_bulk_def Let_def part_defs elim!: bindE_InrE intro!: audit_once intro: audit_same audit_same_drift)
qed

section \<open>The machine\<close>

datatype system_call =
    RolloutCall rollout_call
  | UserCall user_call
  | AgentCall agent_call
  | DriftCall drift_call
  | RecordAudit call_env audit_record
  | Prune call_env retention_config

fun system_step :: "system_call \<Rightarrow> db \<Rightarrow> db" where
  "system_step (RolloutCall c) d = rollout_step c d"
| "system_step (UserCall c) d = user_step c d"
| "system_step (AgentCall c) d = agent_step c d"
| "system_step (DriftCall c) d = drift_step c d"
| "system_step (RecordAudit E rec) d = commit (record_audit E rec) d"
| "system_step (Prune E cfg) d = snd (prune_once E cfg d)"

fun system_env :: "system_call \<Rightarrow> call_env option" where
  "system_env (RolloutCall c) = rollout_env c"
| "system_env (UserCall c) = None"
| "system_env (AgentCall c) = Some (agent_call_env c)"
| "system_env (DriftCall c) = Some (drift_call_env c)"
| "system_env (RecordAudit E rec) = Some E"
| "system_env (Prune E cfg) = None"

text \<open>All calls of a run use the same digest.\<close>

definition uses_digest :: "(string \<Rightarrow> string) \<Rightarrow> system_call \<Rightarrow> bool" where
  "uses_digest H c \<longleftrightarrow> (case system_env c of None \<Rightarrow> True | Some E \<Rightarrow> ce_hash E = H)"

text \<open>What a retention pass must not do for a property to survive it: delete a row of an operation, or
  delete a row of the audit log.\<close>

fun spares_rows :: "string set \<Rightarrow> system_call \<Rightarrow> db \<Rightarrow> bool" where
  "spares_rows K (Prune E cfg) d \<longleftrightarrow> (\<forall>a \<in> set (db_assignments d). as_operation_id a \<in> K \<longrightarrow> a \<in> set (db_assignments (snd (prune_once E cfg d))))"
| "spares_rows K _ d \<longleftrightarrow> True"

fun spares_log :: "system_call \<Rightarrow> db \<Rightarrow> bool" where
  "spares_log (Prune E cfg) d \<longleftrightarrow> (\<forall>r \<in> set (al_events (db_audit d)). r \<in> set (al_events (db_audit (snd (prune_once E cfg d)))))"
| "spares_log _ d \<longleftrightarrow> True"

definition system_inv :: "string set \<Rightarrow> db \<Rightarrow> bool" where
  "system_inv K d \<longleftrightarrow> rollout_inv K d \<and> users_inv d \<and> agents_inv d \<and> drift_inv d"

lemma inv_congs:
  "rollout_part d' = rollout_part d \<Longrightarrow> rollout_inv K d' = rollout_inv K d"
  "people_part d' = people_part d \<Longrightarrow> users_inv d' = users_inv d"
  "people_part d' = people_part d \<Longrightarrow> has_active_admin d' = has_active_admin d"
  "drift_part d' = drift_part d \<Longrightarrow> drift_inv d' = drift_inv d"
  "db_agents d' = db_agents d \<Longrightarrow> agents_inv d' = agents_inv d"
  by (simp_all add: part_defs rollout_inv_def users_inv_def has_active_admin_def drift_inv_def agents_inv_def)

lemma beside_simps:
  "beside_rollout d' = beside_rollout d \<longleftrightarrow> db_agents d' = db_agents d \<and> people_part d' = people_part d \<and> drift_part d' = drift_part d"
  "beside_people d' = beside_people d \<longleftrightarrow> db_agents d' = db_agents d \<and> rollout_part d' = rollout_part d \<and> drift_part d' = drift_part d \<and> db_audit d' = db_audit d"
  "beside_agents d' = beside_agents d \<longleftrightarrow> rollout_part d' = rollout_part d \<and> people_part d' = people_part d \<and> drift_part d' = drift_part d"
  "beside_drift d' = beside_drift d \<longleftrightarrow> db_agents d' = db_agents d \<and> rollout_part d' = rollout_part d \<and> people_part d' = people_part d"
  by (auto simp: beside_rollout_def beside_people_def beside_agents_def beside_drift_def)

lemma audited_parts: "rollout_part (audited E rec d) = rollout_part d" "people_part (audited E rec d) = people_part d"
  "drift_part (audited E rec d) = drift_part d"
  by (simp_all add: part_defs)

lemma record_audit_parts: "commit (record_audit E rec) d = d \<or> commit (record_audit E rec) d = audited E rec d"
  by (simp add: commit_def record_audit_def split: option.splits)

text \<open>A retention pass keeps the accounts, the agents and the drift in order whatever it deletes, and the
  rollout of every operation whose rows it spares.\<close>

lemma thinned_spared:
  assumes "thinned due rows rows'" "\<forall>x \<in> set rows. Q x \<longrightarrow> x \<in> set rows'"
  shows "filter Q rows' = filter Q rows"
proof -
  obtain g where "rows' = filter (\<lambda>r. \<not> g r) rows" using assms(1) by (auto simp: thinned_def)
  then show ?thesis using assms(2) by (auto intro!: filter_cong)
qed

lemma pass_rollout:
  assumes "rollout_inv K d" "pruned_from E cfg d d'" "\<forall>a \<in> set (db_assignments d). as_operation_id a \<in> K \<longrightarrow> a \<in> set (db_assignments d')"
  shows "rollout_inv K d'"
proof -
  have t: "\<exists>due. thinned due (db_assignments d) (db_assignments d')" using assms(2) unfolding pruned_from_def by blast
  then obtain due where t: "thinned due (db_assignments d) (db_assignments d')" by blast
  have ops: "db_operations d' = db_operations d" using assms(2) unfolding pruned_from_def by blast
  have own: "rows_of oper (db_assignments d') = rows_of oper (db_assignments d)" if "oper \<in> K" for oper
    unfolding rows_of_def by (rule thinned_spared [OF t]) (use assms(3) that in \<open>auto simp: of_op_def\<close>)
  have "rows_wf (db_assignments d')"
    using assms(1) thinned_facts(1,4) [OF t] unfolding rollout_inv_def rows_wf_def by blast
  moreover have "status_agrees (db_assignments d') w = status_agrees (db_assignments d) w" if "op_id w \<in> K" for w
    unfolding status_agrees_def rolled_up_rows_of [OF own [OF that]] ..
  moreover have "rollout_ok K (db_assignments d')" using assms(1) own by (simp add: rollout_inv_def rollout_ok_def)
  ultimately show ?thesis using assms(1) thinned_facts(1) [OF t] unfolding rollout_inv_def ops by blast
qed

lemma pass_others:
  assumes "pruned_from E cfg d d'"
  shows "users_inv d \<Longrightarrow> users_inv d'" "agents_inv d \<Longrightarrow> agents_inv d'" "drift_inv d \<Longrightarrow> drift_inv d'" "has_active_admin d \<Longrightarrow> has_active_admin d'"
proof -
  have same: "db_agents d' = db_agents d" "db_users d' = db_users d" "db_drift_seq d' = db_drift_seq d"
    using assms unfolding pruned_from_def by blast+
  obtain due where tok: "thinned due (db_tokens d) (db_tokens d')" using assms unfolding pruned_from_def by blast
  obtain due2 where dr: "thinned due2 (db_drift d) (db_drift d')" using assms unfolding pruned_from_def by blast
  show "users_inv d \<Longrightarrow> users_inv d'" using thinned_facts(1,4) [OF tok] unfolding users_inv_def same by blast
  show "agents_inv d \<Longrightarrow> agents_inv d'" "has_active_admin d \<Longrightarrow> has_active_admin d'" by (simp_all add: agents_inv_def has_active_admin_def same)
  obtain g where "db_drift d' = filter (\<lambda>r. \<not> g r) (db_drift d)" using dr by (auto simp: thinned_def)
  then have "filter drift_open (db_drift d') = filter (\<lambda>r. \<not> g r) (filter drift_open (db_drift d))" by (simp add: conj_commute)
  then show "drift_inv d \<Longrightarrow> drift_inv d'"
    using thinned_facts(1) [OF dr] thinned_facts(4) [OF dr, of drift_key] thinned_facts(4) [OF dr, of dr_id] distinct_map_filter [of open_key "filter drift_open (db_drift d)" "\<lambda>r. \<not> g r"]
    unfolding drift_inv_def drift_unique_def same by auto
qed

lemma system_step_inv:
  assumes "spares_rows K c d" "system_inv K d"
  shows "system_inv K (system_step c d)"
proof -
  note parts = assms(2) [unfolded system_inv_def]
  show ?thesis
  proof (cases c)
    case (RolloutCall r)
    then show ?thesis
      using parts rollout_step_frame [of r d] rollout.inv_step [of K d r] inv_congs [of "rollout_step r d" d]
      by (simp add: system_inv_def beside_simps)
  next
    case (UserCall u)
    then show ?thesis
      using parts user_step_frame [of u d] sessions.inv_step [of d u] inv_congs [of "user_step u d" d]
      by (simp add: system_inv_def beside_simps)
  next
    case (AgentCall a)
    then show ?thesis
      using parts agent_step_frame [of a d] agents.inv_step [of d a] inv_congs [of "agent_step a d" d]
      by (simp add: system_inv_def beside_simps)
  next
    case (DriftCall x)
    then show ?thesis
      using parts drift_step_frame [of x d] drifts.inv_step [of d x] inv_congs [of "drift_step x d" d]
      by (simp add: system_inv_def beside_simps)
  next
    case (RecordAudit E rec)
    then show ?thesis using parts record_audit_parts [of E rec d] inv_congs [of "audited E rec d" d] by (auto simp: system_inv_def audited_parts)
  next
    case (Prune E cfg)
    have p: "pruned_from E cfg d (snd (prune_once E cfg d))" by (rule prune_once_from [OF prod.collapse [symmetric]])
    with Prune parts assms(1) pass_rollout [OF _ p] pass_others [OF p] show ?thesis by (simp add: system_inv_def)
  qed
qed

interpretation system: guarded_machine system_step "spares_rows K" "system_inv K"
  by unfold_locales (rule system_step_inv)

lemma system_step_admin:
  assumes "has_active_admin d"
  shows "has_active_admin (system_step c d)"
proof (cases "(\<exists>u. c = UserCall u) \<or> (\<exists>E cfg. c = Prune E cfg)")
  case True
  with assms admins.inv_step pass_others(4) [OF prune_once_from [OF prod.collapse [symmetric]]] show ?thesis by auto
next
  case False
  then have "people_part (system_step c d) = people_part d"
    using rollout_step_frame [of _ d] agent_step_frame [of _ d] drift_step_frame [of _ d] record_audit_parts [of _ _ d]
    by (cases c) (auto simp: beside_simps audited_parts, metis audited_parts(2))
  with assms inv_congs(3) [of "system_step c d" d] show ?thesis by simp
qed

interpretation system_admins: machine_invariant system_step has_active_admin
  by unfold_locales (rule system_step_admin)

lemma pass_audit:
  assumes "pruned_from E cfg d d'" "\<forall>r \<in> set (al_events (db_audit d)). r \<in> set (al_events (db_audit d'))"
  shows "db_audit d' = db_audit d"
proof -
  obtain due where "thinned due (al_events (db_audit d)) (al_events (db_audit d'))" using assms(1) unfolding pruned_from_def by blast
  from thinned_spared [OF this, of "\<lambda>_. True"] assms show ?thesis by (simp add: pruned_from_def)
qed

lemma system_step_audit:
  assumes "uses_digest H c \<and> spares_log c d" "audit_wf H (db_audit d)"
  shows "audit_wf H (db_audit (system_step c d))"
proof -
  have "db_audit (system_step c d) = db_audit d \<or> (\<exists>E. system_env c = Some E \<and> audit_extends E d (system_step c d))"
  proof (cases c)
    case (RolloutCall r)
    then show ?thesis using rollout_step_frame [of r d] by (cases "rollout_env r") auto
  next
    case (UserCall u)
    then show ?thesis using user_step_frame [of u d] by (simp add: beside_simps)
  next
    case (AgentCall a)
    then show ?thesis using agent_step_frame [of a d] by simp
  next
    case (DriftCall x)
    then show ?thesis using drift_step_frame [of x d] by simp
  next
    case (RecordAudit E rec)
    then show ?thesis using audit_once [of d d E rec] record_audit_parts [of E rec d] by auto
  next
    case (Prune E cfg)
    with assms(1) pass_audit [OF prune_once_from [OF prod.collapse [symmetric]], of d E cfg] show ?thesis by simp
  qed
  then show ?thesis using assms audit_extends_wf by (fastforce simp: uses_digest_def)
qed

interpretation system_audit: guarded_machine system_step "\<lambda>c d. uses_digest H c \<and> spares_log c d" "\<lambda>d. audit_wf H (db_audit d)"
  by unfold_locales (rule system_step_audit)

lemma system_inv_empty: "system_inv K empty_db"
  by (simp add: system_inv_def rollout_inv_empty users_inv_def agents_inv_def drift_inv_def drift_unique_def) (simp add: empty_db_def)

end
