(* ===== verification/Desired.thy ===== *)
theory Desired
  imports Operations Core_Resource
begin

text \<open>
  The read side of operations (\<open>store.rs\<close>): what an agent should be watching, what an operation
  writes, the operation list and view, and the resources a rollback re-applies.
\<close>

section \<open>An agent's watch list\<close>

record desired_state_item =
  dsi_resource_id :: string
  dsi_operation_id :: string
  dsi_created_at :: string
  dsi_resource :: json

definition str_or_empty :: "json option \<Rightarrow> string" where
  "str_or_empty v = (case Option.bind v as_str of None \<Rightarrow> [] | Some s \<Rightarrow> s)"

text \<open>The id an assignment's resource has, when kind, name and environment are all present.\<close>

definition payload_resource_id :: "json \<Rightarrow> string option" where
  "payload_resource_id res =
     (let kind = str_or_empty (jget res ''kind'');
          name = str_or_empty (jpath res [''metadata'', ''name'']);
          env = str_or_empty (jpath res [''metadata'', ''environment''])
      in if kind = [] \<or> name = [] \<or> env = [] then None else Some (kind @ ''/'' @ env @ ''/'' @ name))"

definition payload_ids :: "serde \<Rightarrow> string \<Rightarrow> string list" where
  "payload_ids S payload_json =
     (case from_str S payload_json of
        None \<Rightarrow> []
      | Some v \<Rightarrow> (case Option.bind (jget v ''resources'') as_array of
                    None \<Rightarrow> []
                  | Some rs \<Rightarrow> List.map_filter payload_resource_id rs))"

definition watched_rows :: "string \<Rightarrow> db \<Rightarrow> assignment_row list" where
  "watched_rows agent_id d = filter (\<lambda>a. as_agent_id a = agent_id \<and> as_status a \<noteq> AFailed \<and> as_kind a = ''apply'') (db_assignments d)"

definition owned_pairs :: "serde \<Rightarrow> string \<Rightarrow> db \<Rightarrow> (string \<times> string) list" where
  "owned_pairs S agent_id d =
     concat (map (\<lambda>a. map (\<lambda>rid. (as_operation_id a, rid)) (payload_ids S (as_payload_json a))) (watched_rows agent_id d))"

text \<open>\<open>FROM desired_states ds JOIN operations o ON o.id = ds.operation_id\<close>\<close>

type_synonym desired_join = "desired_row \<times> operation_row"

definition desired_joined :: "db \<Rightarrow> desired_join list" where
  "desired_joined d = concat (map (\<lambda>r. map (\<lambda>w. (r, w)) (filter (\<lambda>w. op_id w = ds_operation_id r) (db_operations d))) (db_desired d))"

definition newer_key :: "desired_join \<Rightarrow> string \<times> int" where
  "newer_key x = (op_created_at (snd x), ds_id (fst x))"

definition join_rid :: "desired_join \<Rightarrow> string" where
  "join_rid x = ds_resource_id (fst x)"

text \<open>\<open>ORDER BY ds.resource_id, o.created_at DESC, ds.id DESC\<close>\<close>

definition newest_first :: "desired_join list \<Rightarrow> desired_join list" where
  "newest_first rows = sort_key join_rid (rev (sort_key newer_key rows))"

definition desired_item :: "serde \<Rightarrow> desired_join \<Rightarrow> desired_state_item api_result" where
  "desired_item S x =
     bindE (parse_json S (ds_spec_json (fst x))) (\<lambda>v.
       Inr \<lparr>dsi_resource_id = join_rid x, dsi_operation_id = ds_operation_id (fst x),
            dsi_created_at = op_created_at (snd x), dsi_resource = strip_routing_hints v\<rparr>)"

fun collapse :: "serde \<Rightarrow> (string \<times> string) list \<Rightarrow> string option \<Rightarrow> desired_join list \<Rightarrow> desired_state_item list api_result" where
  "collapse S owned last_seen [] = Inr []"
| "collapse S owned last_seen (x # xs) =
     (if (ds_operation_id (fst x), join_rid x) \<notin> set owned then collapse S owned last_seen xs
      else if last_seen = Some (join_rid x) then collapse S owned last_seen xs
      else bindE (desired_item S x) (\<lambda>item.
           bindE (collapse S owned (Some (join_rid x)) xs) (\<lambda>items. Inr (item # items))))"

definition list_desired_state_for_agent :: "serde \<Rightarrow> string \<Rightarrow> db \<Rightarrow> desired_state_item list api_result" where
  "list_desired_state_for_agent S agent_id d =
     (let owned = owned_pairs S agent_id d
      in if owned = [] then Inr []
         else collapse S owned None
                (newest_first (filter (\<lambda>x. ds_operation_id (fst x) \<in> fst ` set owned) (desired_joined d))))"

section \<open>An operation's resources\<close>

record operation_desired_item =
  odi_resource_id :: string
  odi_kind :: string
  odi_agent_id :: string
  odi_resource :: json

definition operation_item :: "serde \<Rightarrow> string \<Rightarrow> agent_info list \<Rightarrow> desired_row \<Rightarrow> operation_desired_item api_result" where
  "operation_item S environment agents r =
     bindE (routing_of_desired S r) (\<lambda>routing.
     bindE (parse_json S (ds_spec_json r)) (\<lambda>value.
       Inr \<lparr>odi_resource_id = ds_resource_id r, odi_kind = ds_kind r,
            odi_agent_id = (case route_resource routing environment agents of Inr a \<Rightarrow> a | Inl _ \<Rightarrow> []),
            odi_resource = strip_routing_hints value\<rparr>))"

definition list_desired_state_for_operation :: "serde \<Rightarrow> string \<Rightarrow> db \<Rightarrow> operation_desired_item list api_result" where
  "list_desired_state_for_operation S oper d =
     bindE (ok_or (find_op oper d) NotFound) (\<lambda>w.
       traverse (operation_item S (op_environment w) (agent_snapshot d))
         (sort_key ds_id (filter (\<lambda>r. ds_operation_id r = oper) (db_desired d))))"

section \<open>Listing and viewing\<close>

record operation_list_item =
  oli_id :: string
  oli_kind :: string
  oli_environment :: string
  oli_requested_by :: string
  oli_status :: operation_status
  oli_created_at :: string
  oli_started_at :: "string option"
  oli_finished_at :: "string option"

definition operation_list_item_of :: "operation_row \<Rightarrow> operation_list_item" where
  "operation_list_item_of w =
     \<lparr>oli_id = op_id w, oli_kind = op_kind w, oli_environment = op_environment w, oli_requested_by = op_requested_by w,
      oli_status = parse_operation_status (operation_status_text (op_status w)), oli_created_at = op_created_at w,
      oli_started_at = op_started_at w, oli_finished_at = op_finished_at w\<rparr>"

definition list_operations :: "string option \<Rightarrow> int \<Rightarrow> db \<Rightarrow> operation_list_item list" where
  "list_operations status limit d =
     (let n = nat (min (max limit 1) 1000);
          rows = (case status of None \<Rightarrow> db_operations d
                    | Some s \<Rightarrow> filter (\<lambda>w. operation_status_text (op_status w) = s) (db_operations d))
      in map operation_list_item_of (take n (rev (sort_key op_created_at rows))))"

record assignment_view =
  av_id :: string
  av_agent_id :: string
  av_status :: string
  av_created_at :: string
  av_fetched_at :: "string option"
  av_completed_at :: "string option"
  av_result :: "json option"

record operation_view =
  ov_id :: string
  ov_kind :: string
  ov_environment :: string
  ov_requested_by :: string
  ov_status :: operation_status
  ov_created_at :: string
  ov_started_at :: "string option"
  ov_finished_at :: "string option"
  ov_assignments :: "assignment_view list"
  ov_matched_policies :: "string list"
  ov_approved_by :: "string option"
  ov_approved_at :: "string option"
  ov_rejected_by :: "string option"
  ov_rejected_at :: "string option"
  ov_rejection_reason :: "string option"

definition assignment_view_of :: "serde \<Rightarrow> assignment_row \<Rightarrow> assignment_view" where
  "assignment_view_of S a =
     \<lparr>av_id = as_id a, av_agent_id = as_agent_id a, av_status = assignment_status_text (as_status a),
      av_created_at = as_created_at a, av_fetched_at = as_fetched_at a, av_completed_at = as_completed_at a,
      av_result = Option.bind (as_result_json a) (from_str S)\<rparr>"

definition get_operation :: "serde \<Rightarrow> string \<Rightarrow> db \<Rightarrow> operation_view api_result" where
  "get_operation S oper d =
     bindE (ok_or (find_op oper d) NotFound) (\<lambda>w.
       Inr \<lparr>ov_id = op_id w, ov_kind = op_kind w, ov_environment = op_environment w, ov_requested_by = op_requested_by w,
            ov_status = parse_operation_status (operation_status_text (op_status w)), ov_created_at = op_created_at w,
            ov_started_at = op_started_at w, ov_finished_at = op_finished_at w,
            ov_assignments = map (assignment_view_of S)
              (sort_key as_created_at (filter (\<lambda>a. as_operation_id a = oper) (db_assignments d))),
            ov_matched_policies = op_matched_policies w, ov_approved_by = op_approved_by w, ov_approved_at = op_approved_at w,
            ov_rejected_by = op_rejected_by w, ov_rejected_at = op_rejected_at w, ov_rejection_reason = op_rejection_reason w\<rparr>)"

section \<open>Rollback\<close>

definition prior_rows :: "string \<Rightarrow> string \<Rightarrow> string \<Rightarrow> db \<Rightarrow> desired_join list" where
  "prior_rows oper created rid d =
     filter (\<lambda>(r, w). ds_resource_id r = rid \<and> ds_operation_id r \<noteq> oper
               \<and> op_status w \<in> {OpSucceeded, OpPartiallyApplied} \<and> op_created_at w < created) (desired_joined d)"

definition latest_prior :: "string \<Rightarrow> string \<Rightarrow> string \<Rightarrow> db \<Rightarrow> desired_join option" where
  "latest_prior oper created rid d =
     (case rev (sort_key newer_key (prior_rows oper created rid d)) of [] \<Rightarrow> None | x # _ \<Rightarrow> Some x)"

fun rollback_loop :: "serde \<Rightarrow> string \<Rightarrow> string \<Rightarrow> db \<Rightarrow> string list \<Rightarrow> resource_for_routing list \<times> string list
    \<Rightarrow> (resource_for_routing list \<times> string list) api_result" where
  "rollback_loop S oper created d [] acc = Inr acc"
| "rollback_loop S oper created d (rid # rids) (reverted, orphaned) =
     (case latest_prior oper created rid d of
        None \<Rightarrow> rollback_loop S oper created d rids (reverted, orphaned @ [rid])
      | Some x \<Rightarrow>
          bindE (routing_of_desired S (fst x)) (\<lambda>routing.
            rollback_loop S oper created d rids (reverted @ [routing], orphaned)))"

definition prepare_rollback :: "serde \<Rightarrow> string \<Rightarrow> db \<Rightarrow> (resource_for_routing list \<times> string list \<times> string) api_result" where
  "prepare_rollback S oper d =
     bindE (ok_or (find_op oper d) NotFound) (\<lambda>w.
       if op_status w \<notin> {OpSucceeded, OpPartiallyApplied, OpFailed}
       then Inl (Conflict (Msg ''rollback only on terminal operations; current status: {other}''
                  [operation_status_text (op_status w)]))
       else
         bindE (rollback_loop S oper (op_created_at w) d
                  (map ds_resource_id (filter (\<lambda>r. ds_operation_id r = oper) (db_desired d))) ([], [])) (\<lambda>(reverted, orphaned).
           Inr (reverted, orphaned, op_environment w)))"

section \<open>The first row of every group\<close>

fun pick :: "('x \<Rightarrow> bool) \<Rightarrow> ('x \<Rightarrow> 'k) \<Rightarrow> 'k option \<Rightarrow> 'x list \<Rightarrow> 'x list" where
  "pick P key last_seen [] = []"
| "pick P key last_seen (x # xs) =
     (if \<not> P x \<or> last_seen = Some (key x) then pick P key last_seen xs else x # pick P key (Some (key x)) xs)"

lemma pick_subset: "x \<in> set (pick P key l xs) \<Longrightarrow> x \<in> set xs \<and> P x"
  by (induction xs arbitrary: l) (auto split: if_splits)

lemma pick_covers: "y \<in> set xs \<Longrightarrow> P y \<Longrightarrow> l \<noteq> Some (key y) \<Longrightarrow> \<exists>x \<in> set (pick P key l xs). key x = key y"
proof (induction xs arbitrary: l)
  case (Cons x xs)
  show ?case
  proof (cases "\<not> P x \<or> l = Some (key x)")
    case True
    with Cons.prems have "y \<in> set xs" by auto
    from Cons.IH [OF this Cons.prems(2,3)] True show ?thesis by auto
  next
    case False
    then show ?thesis using Cons by (cases "key x = key y") auto
  qed
qed simp

lemma pick_head:
  fixes key :: "'x \<Rightarrow> 'k::linorder"
  assumes "sorted (map key xs)" and "\<forall>k. l = Some k \<longrightarrow> (\<forall>x \<in> set xs. k \<le> key x)" and "x \<in> set (pick P key l xs)"
  shows "l \<noteq> Some (key x) \<and> (\<exists>ys. filter (\<lambda>y. key y = key x \<and> P y) xs = x # ys)"
  using assms
proof (induction xs arbitrary: l)
  case (Cons z zs)
  have ge: "\<forall>y \<in> set zs. key z \<le> key y" and zs: "sorted (map key zs)" using Cons.prems(1) by auto
  show ?case
  proof (cases "\<not> P z \<or> l = Some (key z)")
    case True
    then have "x \<in> set (pick P key l zs)" using Cons.prems(3) by simp
    with Cons.IH [OF zs, of l] Cons.prems(2) have "l \<noteq> Some (key x)" "\<exists>ys. filter (\<lambda>y. key y = key x \<and> P y) zs = x # ys"
      by auto
    with True show ?thesis by auto
  next
    case z: False
    show ?thesis
    proof (cases "x = z")
      case True
      with z show ?thesis by auto
    next
      case False
      then have x: "x \<in> set (pick P key (Some (key z)) zs)" using Cons.prems(3) z by simp
      have IH: "Some (key z) \<noteq> Some (key x)" "\<exists>ys. filter (\<lambda>y. key y = key x \<and> P y) zs = x # ys"
        using Cons.IH [OF zs, of "Some (key z)"] x ge by auto
      have "x \<in> set zs" using pick_subset [OF x] by blast
      then have "key z \<le> key x" using ge by blast
      then have "l \<noteq> Some (key x)" using IH(1) Cons.prems(2) by fastforce
      then show ?thesis using IH by simp
    qed
  qed
qed simp

lemma pick_distinct:
  fixes key :: "'x \<Rightarrow> 'k::linorder"
  shows "sorted (map key xs) \<Longrightarrow> \<forall>k. l = Some k \<longrightarrow> (\<forall>x \<in> set xs. k \<le> key x) \<Longrightarrow> distinct (map key (pick P key l xs))"
proof (induction xs arbitrary: l)
  case (Cons z zs)
  have ge: "\<forall>k. Some (key z) = Some k \<longrightarrow> (\<forall>y \<in> set zs. k \<le> key y)" and zs: "sorted (map key zs)" using Cons.prems(1) by auto
  have "key z \<notin> key ` set (pick P key (Some (key z)) zs)"
    using pick_head [OF zs ge] by fastforce
  with Cons.IH [OF zs ge] Cons.IH [OF zs, of l] Cons.prems(2) show ?case by auto
qed simp

section \<open>The watch list\<close>

lemma list_all2_witness:
  "list_all2 R xs ys \<Longrightarrow> x \<in> set xs \<Longrightarrow> \<exists>y \<in> set ys. R x y"
  "list_all2 R xs ys \<Longrightarrow> y \<in> set ys \<Longrightarrow> \<exists>x \<in> set xs. R x y"
  by (induction rule: list_all2_induct) auto

abbreviation owns :: "(string \<times> string) list \<Rightarrow> desired_join \<Rightarrow> bool" where
  "owns owned x \<equiv> (ds_operation_id (fst x), join_rid x) \<in> set owned"

lemma collapse_pick: "collapse S owned l xs = traverse (desired_item S) (pick (owns owned) join_rid l xs)"
  by (induction xs arbitrary: l) auto

lemma newest_first_group:
  "filter (\<lambda>y. join_rid y = k \<and> P y) (newest_first xs) = rev (filter (\<lambda>y. join_rid y = k \<and> P y) (sort_key newer_key xs))"
proof -
  have "filter (\<lambda>y. join_rid y = k \<and> P y) (newest_first xs) = filter P (filter (\<lambda>y. join_rid y = k) (newest_first xs))"
    by (simp add: conj_commute)
  also have "filter (\<lambda>y. join_rid y = k) (newest_first xs) = filter (\<lambda>y. join_rid y = k) (rev (sort_key newer_key xs))"
    unfolding newest_first_def by (rule sort_key_stable)
  finally show ?thesis by (simp add: rev_filter conj_commute)
qed

lemma pick_newest:
  assumes "x \<in> set (pick P join_rid None (newest_first xs))" and "y \<in> set xs" "P y" "join_rid y = join_rid x"
  shows "newer_key y \<le> newer_key x"
proof -
  have "sorted (map join_rid (newest_first xs))" by (simp add: newest_first_def)
  from pick_head [OF this _ assms(1)] obtain ys where
    "filter (\<lambda>y. join_rid y = join_rid x \<and> P y) (newest_first xs) = x # ys" by auto
  then have r: "filter (\<lambda>y. join_rid y = join_rid x \<and> P y) (sort_key newer_key xs) = rev ys @ [x]"
    unfolding newest_first_group by (simp add: rev_swap)
  have "sorted (map newer_key (rev ys @ [x]))" unfolding r [symmetric] by (rule sorted_filter) simp
  moreover have "y \<in> set (rev ys @ [x])" unfolding r [symmetric] using assms(2-) by simp
  ultimately show ?thesis by (auto simp: sorted_append)
qed

text \<open>
  An agent watches its own resources, at their newest. Every item of the list names a resource
  of an apply assignment of that agent which did not fail, so nothing routed to another agent leaks;
  each resource appears once; and every such resource with a stored specification appears, with the
  most recent one among the agent's own operations and without its routing hints.
\<close>

theorem watch_list_isolated_and_newest:
  assumes "list_desired_state_for_agent S agent d = Inr out"
  shows "(\<forall>i \<in> set out. \<exists>a \<in> set (db_assignments d). as_agent_id a = agent \<and> as_status a \<noteq> AFailed \<and> as_kind a = ''apply''
            \<and> as_operation_id a = dsi_operation_id i \<and> dsi_resource_id i \<in> set (payload_ids S (as_payload_json a)))
    \<and> distinct (map dsi_resource_id out)
    \<and> (\<forall>y \<in> set (desired_joined d). owns (owned_pairs S agent d) y \<longrightarrow>
         (\<exists>x \<in> set (desired_joined d). \<exists>i \<in> set out. desired_item S x = Inr i \<and> join_rid x = join_rid y \<and> newer_key y \<le> newer_key x))"
proof (cases "owned_pairs S agent d = []")
  case True
  with assms show ?thesis by (simp add: list_desired_state_for_agent_def)
next
  case False
  let ?owned = "owned_pairs S agent d"
  let ?rows = "filter (\<lambda>x. ds_operation_id (fst x) \<in> fst ` set ?owned) (desired_joined d)"
  let ?xs = "pick (owns ?owned) join_rid None (newest_first ?rows)"
  have sorted: "sorted (map join_rid (newest_first ?rows))" by (simp add: newest_first_def)
  have set: "set (newest_first ?rows) = set ?rows" by (simp add: newest_first_def)
  have all: "list_all2 (\<lambda>x i. desired_item S x = Inr i) ?xs out"
    using assms False by (simp add: list_desired_state_for_agent_def Let_def collapse_pick traverse_Inr_iff)
  have item: "dsi_resource_id i = join_rid x \<and> dsi_operation_id i = ds_operation_id (fst x)" if "desired_item S x = Inr i" for x i
    using that by (auto simp: desired_item_def elim!: bindE_InrE)
  have pair: "\<exists>x \<in> set ?xs. desired_item S x = Inr i" if "i \<in> set out" for i
    by (rule list_all2_witness(2) [OF all that])
  have hit: "\<exists>i \<in> set out. desired_item S x = Inr i" if "x \<in> set ?xs" for x
    by (rule list_all2_witness(1) [OF all that])
  have rids: "map dsi_resource_id out = map join_rid ?xs"
    using all by (induction rule: list_all2_induct) (auto dest: item)
  have 1: "\<exists>a \<in> set (db_assignments d). as_agent_id a = agent \<and> as_status a \<noteq> AFailed \<and> as_kind a = ''apply''
            \<and> as_operation_id a = dsi_operation_id i \<and> dsi_resource_id i \<in> set (payload_ids S (as_payload_json a))" if i: "i \<in> set out" for i
  proof -
    obtain x where x: "x \<in> set ?xs" "desired_item S x = Inr i" using pair [OF i] by blast
    then have "owns ?owned x" using pick_subset by fast
    with item [OF x(2)] show ?thesis by (auto simp: owned_pairs_def watched_rows_def)
  qed
  have 2: "\<exists>x \<in> set (desired_joined d). \<exists>i \<in> set out. desired_item S x = Inr i \<and> join_rid x = join_rid y \<and> newer_key y \<le> newer_key x"
    if y: "y \<in> set (desired_joined d)" "owns ?owned y" for y
  proof -
    have y': "y \<in> set ?rows" using y by (auto intro: rev_image_eqI)
    then obtain x where x: "x \<in> set ?xs" "join_rid x = join_rid y" using pick_covers [of y "newest_first ?rows" "owns ?owned" None join_rid] y set by auto
    have "newer_key y \<le> newer_key x" using pick_newest [OF x(1) y' y(2)] x(2) by simp
    moreover have "x \<in> set (desired_joined d)" using pick_subset [OF x(1)] set by auto
    ultimately show ?thesis using hit [OF x(1)] x(2) by blast
  qed
  have 3: "distinct (map dsi_resource_id out)" unfolding rids by (rule pick_distinct [OF sorted]) simp
  from 1 2 3 show ?thesis by blast
qed

section \<open>The rollback plan\<close>

lemma latest_prior_None: "latest_prior oper created rid d = None \<longleftrightarrow> prior_rows oper created rid d = []"
proof -
  have "sort_key newer_key xs = [] \<longleftrightarrow> xs = []" for xs by (metis length_0_conv length_sort)
  then show ?thesis unfolding latest_prior_def by (metis list.case_eq_if option.distinct(1) rev_is_Nil_conv)
qed

lemma latest_prior_Some:
  assumes "latest_prior oper created rid d = Some x"
  shows "x \<in> set (prior_rows oper created rid d)" and "\<forall>y \<in> set (prior_rows oper created rid d). newer_key y \<le> newer_key x"
proof -
  obtain ys where ys: "rev (sort_key newer_key (prior_rows oper created rid d)) = x # ys"
    using assms by (auto simp: latest_prior_def split: list.splits)
  then have s: "sort_key newer_key (prior_rows oper created rid d) = rev ys @ [x]" by (simp add: rev_swap)
  from arg_cong [OF s, of set] have set: "set (prior_rows oper created rid d) = set (rev ys @ [x])" by simp
  have "sorted (map newer_key (rev ys @ [x]))" unfolding s [symmetric] by simp
  then show "\<forall>y \<in> set (prior_rows oper created rid d). newer_key y \<le> newer_key x"
    unfolding set by (auto simp: sorted_append)
  show "x \<in> set (prior_rows oper created rid d)" unfolding set by simp
qed

definition restores :: "serde \<Rightarrow> string \<Rightarrow> string \<Rightarrow> db \<Rightarrow> resource_for_routing \<Rightarrow> bool" where
  "restores S oper created d r \<longleftrightarrow> (\<exists>x \<in> set (prior_rows oper created (rf_resource_id r) d). routing_of_desired S (fst x) = Inr r
     \<and> (\<forall>y \<in> set (prior_rows oper created (rf_resource_id r) d). newer_key y \<le> newer_key x))"

lemma rollback_loop_result:
  "rollback_loop S oper created d rids (rev0, orph0) = Inr (rev', orph') \<Longrightarrow>
     \<exists>rs. rev' = rev0 @ rs \<and> map rf_resource_id rs = filter (\<lambda>rid. prior_rows oper created rid d \<noteq> []) rids
        \<and> (\<forall>r \<in> set rs. restores S oper created d r)
        \<and> orph' = orph0 @ filter (\<lambda>rid. prior_rows oper created rid d = []) rids"
proof (induction rids arbitrary: rev0 orph0)
  case (Cons rid rids)
  show ?case
  proof (cases "latest_prior oper created rid d")
    case None
    with Cons.prems have "rollback_loop S oper created d rids (rev0, orph0 @ [rid]) = Inr (rev', orph')" by simp
    from Cons.IH [OF this] None show ?thesis by (auto simp: latest_prior_None)
  next
    case (Some x)
    from Cons.prems Some obtain r where r: "routing_of_desired S (fst x) = Inr r"
      and rest: "rollback_loop S oper created d rids (rev0 @ [r], orph0) = Inr (rev', orph')" by (auto elim!: bindE_InrE)
    have x: "x \<in> set (prior_rows oper created rid d)" "\<forall>y \<in> set (prior_rows oper created rid d). newer_key y \<le> newer_key x"
      using latest_prior_Some [OF Some] by blast+
    have "rf_resource_id r = rid" using r x(1) by (auto simp: routing_of_desired_def prior_rows_def elim!: bindE_InrE)
    then have "restores S oper created d r" using x r by (auto simp: restores_def)
    with Cons.IH [OF rest] Some x(1) \<open>rf_resource_id r = rid\<close> show ?thesis
      by (auto simp: latest_prior_None [symmetric])
  qed
qed simp

text \<open>
  C37. A rollback restores the last good state. It is planned only for an operation that has ended;
  the operation's resources are split, in order, into those with an earlier specification from an
  operation that succeeded at least in part and those without; the former are re-applied with the
  most recent such specification, the latter reported as orphaned.
\<close>

theorem rollback_restores_last_good:
  assumes "prepare_rollback S oper d = Inr (reverted, orphaned, env)"
  shows "\<exists>w \<in> set (db_operations d). op_id w = oper \<and> op_status w \<in> {OpSucceeded, OpPartiallyApplied, OpFailed} \<and> env = op_environment w
    \<and> map rf_resource_id reverted = filter (\<lambda>rid. prior_rows oper (op_created_at w) rid d \<noteq> [])
        (map ds_resource_id (filter (\<lambda>r. ds_operation_id r = oper) (db_desired d)))
    \<and> orphaned = filter (\<lambda>rid. prior_rows oper (op_created_at w) rid d = [])
        (map ds_resource_id (filter (\<lambda>r. ds_operation_id r = oper) (db_desired d)))
    \<and> (\<forall>r \<in> set reverted. restores S oper (op_created_at w) d r)"
proof -
  obtain w where w: "find_op oper d = Some w" "op_status w \<in> {OpSucceeded, OpPartiallyApplied, OpFailed}" "env = op_environment w"
    and loop: "rollback_loop S oper (op_created_at w) d (map ds_resource_id (filter (\<lambda>r. ds_operation_id r = oper) (db_desired d))) ([], [])
      = Inr (reverted, orphaned)"
    using assms by (auto simp: prepare_rollback_def ok_or_def split: option.splits if_splits elim!: bindE_InrE)
  have "w \<in> set (db_operations d)" "op_id w = oper" using w(1) by (auto simp: find_op_def find_Some_iff)
  with w rollback_loop_result [OF loop] show ?thesis by auto
qed

section \<open>Instances\<close>

definition history_serde :: serde where
  "history_serde = \<lparr>from_str = (\<lambda>s. if s = ''p'' then Some (JObj [(''resources'', JArr [JObj [(''kind'', JStr ''file''),
        (''metadata'', JObj [(''name'', JStr ''x''), (''environment'', JStr ''prod'')])]])]) else Some (JObj [(''v'', JStr s)])),
     to_str = (\<lambda>_. [])\<rparr>"

definition history_env :: "string \<Rightarrow> call_env" where
  "history_env now = \<lparr>ce_hash = (\<lambda>s. s), ce_serde = history_serde, ce_now = now, ce_after = (\<lambda>_. None), ce_audit_now = now, ce_lease = None,
     ce_fault = (\<lambda>_. None)\<rparr>"

text \<open>Two finished operations on \<open>file/prod/x\<close>; the second also wrote \<open>file/prod/y\<close>, on another agent.\<close>

definition sample_history :: db where
  "sample_history = empty_db\<lparr>
     db_operations := [new_operation_row (history_env ''t1'') ''op1'' ''prod'' ''al'' None None [] False\<lparr>op_status := OpSucceeded\<rparr>,
                       new_operation_row (history_env ''t2'') ''op2'' ''prod'' ''al'' None None [] False\<lparr>op_status := OpSucceeded\<rparr>],
     db_desired := [\<lparr>ds_id = 1, ds_operation_id = ''op1'', ds_resource_id = ''file/prod/x'', ds_kind = ''file'', ds_environment = ''prod'', ds_spec_json = ''s1'', ds_metadata_json = ''{}''\<rparr>,
       \<lparr>ds_id = 2, ds_operation_id = ''op2'', ds_resource_id = ''file/prod/x'', ds_kind = ''file'', ds_environment = ''prod'', ds_spec_json = ''s2'', ds_metadata_json = ''{}''\<rparr>,
       \<lparr>ds_id = 3, ds_operation_id = ''op2'', ds_resource_id = ''file/prod/y'', ds_kind = ''file'', ds_environment = ''prod'', ds_spec_json = ''s3'', ds_metadata_json = ''{}''\<rparr>],
     db_assignments := [new_assignment ''a'' ''a1'' ''op1'' ''p'' ''t1'' 0 None ASucceeded, new_assignment ''b'' ''a1'' ''op2'' ''p'' ''t2'' 0 None ASucceeded,
       new_assignment ''c'' ''a2'' ''op2'' ''q'' ''t2'' 0 None ASucceeded]\<rparr>"

lemma sample_watch:
  "list_desired_state_for_agent history_serde ''a1'' sample_history = Inr [\<lparr>dsi_resource_id = ''file/prod/x'', dsi_operation_id = ''op2'',
     dsi_created_at = ''t2'', dsi_resource = JObj [(''v'', JStr ''s2'')]\<rparr>]"
  by code_simp

theorem watch_list_witness:
  "distinct (map dsi_resource_id [\<lparr>dsi_resource_id = ''file/prod/x'', dsi_operation_id = ''op2'',
       dsi_created_at = ''t2'', dsi_resource = JObj [(''v'', JStr ''s2'')]\<rparr>])
   \<and> list_desired_state_for_agent history_serde ''a1'' sample_history = Inr [\<lparr>dsi_resource_id = ''file/prod/x'', dsi_operation_id = ''op2'',
       dsi_created_at = ''t2'', dsi_resource = JObj [(''v'', JStr ''s2'')]\<rparr>]"
  using watch_list_isolated_and_newest [OF sample_watch] sample_watch by blast

lemma sample_rollback:
  "prepare_rollback history_serde ''op2'' sample_history = Inr ([\<lparr>rf_resource_id = ''file/prod/x'', rf_kind = ''file'', rf_environment = ''prod'',
     rf_resource_json = ''s1'', rf_name = [], rf_host_selector = None\<rparr>], [''file/prod/y''], ''prod'')"
  by code_simp

theorem rollback_witness:
  "\<exists>w. w \<in> set (db_operations sample_history) \<and> op_id w = ''op2''
     \<and> restores history_serde ''op2'' (op_created_at w) sample_history \<lparr>rf_resource_id = ''file/prod/x'', rf_kind = ''file'',
         rf_environment = ''prod'', rf_resource_json = ''s1'', rf_name = [], rf_host_selector = None\<rparr>"
  using rollback_restores_last_good [OF sample_rollback] by (elim bexE conjE) (rule exI, intro conjI, assumption+, simp)

text \<open>
  The watch list is wider than what was dispatched: a row that was cancelled, or that still waits for
  its layer, is not \<open>failed\<close>, so its specification counts although the agent never received it.
\<close>

lemma watch_list_has_undispatched:
  "map dsi_operation_id (case list_desired_state_for_agent history_serde ''a1''
      (sample_history\<lparr>db_assignments := [new_assignment ''a'' ''a1'' ''op1'' ''p'' ''t1'' 0 None ASucceeded,
         new_assignment ''b'' ''a1'' ''op2'' ''p'' ''t2'' 1 None ACancelled]\<rparr>) of Inr out \<Rightarrow> out | Inl e \<Rightarrow> []) = [''op2'']"
  by code_simp

end
