(* ===== verification/Operation_Api.thy ===== *)
theory Operation_Api
  imports App_State Control_Plane Desired
begin

text \<open>
  The handlers of \<open>api/operations.rs\<close>: submission with its gates (role, rate limits, maintenance
  windows, secret references, expansion, dependency order, policies), approval, rejection, rollback,
  and the reads.
\<close>

section \<open>Routing entries from manifests\<close>

fun contains :: "string \<Rightarrow> string \<Rightarrow> bool" where
  "contains pat [] = is_prefix pat []"
| "contains pat (c # cs) = (is_prefix pat (c # cs) \<or> contains pat cs)"

fun json_contains_secret_ref :: "json \<Rightarrow> bool" where
  "json_contains_secret_ref (JStr s) = contains ''${secret://'' s"
| "json_contains_secret_ref (JArr xs) = list_ex json_contains_secret_ref xs"
| "json_contains_secret_ref (JObj m) = list_ex (\<lambda>kv. json_contains_secret_ref (snd kv)) m"
| "json_contains_secret_ref _ = False"

definition routing_environment :: "json \<Rightarrow> string \<Rightarrow> string api_result" where
  "routing_environment raw op_env =
     (case Option.bind (jpath raw [''metadata'', ''environment'']) as_str of
        None \<Rightarrow> Inr op_env
      | Some env \<Rightarrow>
          if env = op_env then Inr env
          else bad ''resource {} declares metadata.environment={env:?} but operation is for environment {op_env:?}''
                 [case Option.bind (jpath raw [''metadata'', ''name'']) as_str of Some n \<Rightarrow> n | None \<Rightarrow> ''<unknown>'', env, op_env])"

text \<open>The stored payload always carries the environment.\<close>

definition stamp_environment :: "string \<Rightarrow> json \<Rightarrow> json" where
  "stamp_environment env raw =
     (case raw of JObj m \<Rightarrow> JObj (in_member ''metadata'' (jset ''environment'' (JStr env)) m) | _ \<Rightarrow> raw)"

definition extract_routing :: "serde \<Rightarrow> json \<Rightarrow> string \<Rightarrow> resource_for_routing api_result" where
  "extract_routing J raw op_env =
     bindE (ok_or (Option.bind (jget raw ''kind'') as_str) (BadRequest (Msg ''resource missing kind'' []))) (\<lambda>kind.
     bindE (ok_or (Option.bind (jpath raw [''metadata'', ''name'']) as_str)
              (BadRequest (Msg ''resource missing metadata.name'' []))) (\<lambda>name.
     bindE (routing_environment raw op_env) (\<lambda>environment.
       Inr \<lparr>rf_resource_id = kind @ ''/'' @ environment @ ''/'' @ name, rf_kind = kind, rf_environment = environment,
            rf_resource_json = to_str J (stamp_environment environment raw), rf_name = name,
            rf_host_selector = host_selector_of raw\<rparr>)))"

section \<open>Submission\<close>

record submit_request =
  sb_environment :: string
  sb_requested_by :: string
  sb_source_commit :: "string option"
  sb_summary :: "string option"
  sb_resources :: "json list"
  sb_canary :: "canary_spec option"

record submit_response =
  sr_operation_id :: string
  sr_assignment_count :: nat
  sr_unrouted :: "(string \<times> err_msg) list"
  sr_resource_count :: nat
  sr_kinds :: "string list"

text \<open>The header is given as the text it holds when that is printable ASCII.\<close>

definition bypass_requested :: "string option \<Rightarrow> bool" where
  "bypass_requested header = (case header of Some v \<Rightarrow> trim v \<noteq> [] | None \<Rightarrow> False)"

definition bypass_record :: "identity \<Rightarrow> submit_request \<Rightarrow> audit_record" where
  "bypass_record identity req =
     audit_payload (jobject [(''environment'', JStr (sb_environment req)), (''requested_by'', JStr (sb_requested_by req))])
       (audit_severity ''warning'' (audit_new (audit_actor identity) ''operation.maintenance_bypass''))"

text \<open>A refusal of a check also bumps the counter of its kind.\<close>

definition blocking :: "(maintenance_metrics \<Rightarrow> maintenance_metrics) \<Rightarrow> maintenance_metrics \<times> unit api_result
    \<Rightarrow> maintenance_metrics \<times> unit api_result" where
  "blocking f = (\<lambda>(m, r). (case r of Inl e \<Rightarrow> f m | Inr _ \<Rightarrow> m, r))"

definition maintenance_gate :: "surroundings \<Rightarrow> identity \<Rightarrow> string option \<Rightarrow> submit_request \<Rightarrow> unit handler" where
  "maintenance_gate S identity header req =
     bindA (counted (\<lambda>m. m\<lparr>mm_checks := mm_checks m + 1\<rparr>)) (\<lambda>_.
       if bypass_requested header then
         (if \<not> has_role identity Admin then failing Forbidden
          else bindA (counted (\<lambda>m. m\<lparr>mm_bypassed := mm_bypassed m + 1\<rparr>)) (\<lambda>_.
               recorded (se_call S) (bypass_record identity req)))
       else
         bindA (metered (\<lambda>m. blocking (\<lambda>m. m\<lparr>mm_blocked_absolute := mm_blocked_absolute m + 1\<rparr>)
                  (check_windows (se_calendar S) (cf_maintenance_windows (se_config S)) (sb_environment req) (se_clock S) m))) (\<lambda>_.
         metered (\<lambda>m. blocking (\<lambda>m. m\<lparr>mm_blocked_recurring := mm_blocked_recurring m + 1\<rparr>)
                  (check_recurring (se_calendar S) (cf_recurring_maintenance_windows (se_config S)) (sb_environment req) (se_clock S) m))))"

definition secret_gate :: "surroundings \<Rightarrow> json list \<Rightarrow> unit api_result" where
  "secret_gate S resources =
     (if \<not> list_ex json_contains_secret_ref resources then Inr ()
      else (case se_registry S of
              None \<Rightarrow> bad ''secret reference present but no resolver is configured on the server'' []
            | Some reg \<Rightarrow> bindE (traverse (substitute_in_value (se_secrets S) reg) resources) (\<lambda>_. Inr ())))"

definition routed_resources :: "surroundings \<Rightarrow> submit_request \<Rightarrow> resource_for_routing list api_result" where
  "routed_resources S req =
     bindE (expand_resources (se_yaml S) (cf_modules (se_config' S)) (sb_resources req)) (\<lambda>expanded.
     bindE (traverse (\<lambda>raw. extract_routing (ce_serde (se_call' S)) raw (sb_environment req)) expanded) (\<lambda>routing.
       topo_sort_by_depends_on (ce_serde (se_call' S)) routing))"

definition matched_policies :: "surroundings \<Rightarrow> string \<Rightarrow> resource_for_routing list \<Rightarrow> policy list" where
  "matched_policies S env routing =
     evaluate (cf_policies (se_config' S)) \<lparr>fa_environment = env, fa_resources = map rf_kind routing\<rparr>"

definition policy_caps :: "policy list \<Rightarrow> (string \<times> nat) list" where
  "policy_caps ps = List.map_filter (\<lambda>p. map_option (Pair (po_name p)) (po_rate_limit_per_minute p)) ps"

definition response_of :: "create_outcome \<Rightarrow> resource_for_routing list \<Rightarrow> submit_response" where
  "response_of outcome routing =
     \<lparr>sr_operation_id = co_operation_id outcome, sr_assignment_count = co_assignment_count outcome,
      sr_unrouted = co_unrouted outcome, sr_resource_count = min (length routing) (2 ^ 32 - 1),
      sr_kinds = sort (remdups (map rf_kind routing))\<rparr>"

text \<open>From the policies on: their rate limits, then the operation.\<close>

definition submit_routed :: "surroundings \<Rightarrow> identity \<Rightarrow> submit_request \<Rightarrow> string \<Rightarrow> (nat \<Rightarrow> string) \<Rightarrow> resource_for_routing list
    \<Rightarrow> submit_response handler" where
  "submit_routed S identity req oper ulid routing =
     (let matched = matched_policies S (sb_environment req) routing;
          caps = policy_caps matched
      in bindA (if caps \<noteq> [] then limited (check_and_record_policies caps (se_instant' S)) else doing ()) (\<lambda>_.
         bindA (on_db (create_operation (se_call' S) oper ulid (sb_environment req) (sb_requested_by req) (audit_actor identity)
                  (sb_source_commit req) (sb_summary req) routing (map po_name matched) (list_ex po_requires_approval matched)
                  (sb_canary req))) (\<lambda>outcome.
           doing (response_of outcome routing))))"

text \<open>From the secret references on.\<close>

definition submit_open :: "surroundings \<Rightarrow> identity \<Rightarrow> submit_request \<Rightarrow> string \<Rightarrow> (nat \<Rightarrow> string) \<Rightarrow> submit_response handler" where
  "submit_open S identity req oper ulid =
     bindA (from_result (secret_gate S (sb_resources req))) (\<lambda>_.
     bindA (from_result (routed_resources S req)) (\<lambda>routing.
       submit_routed S identity req oper ulid routing))"

definition submit :: "surroundings \<Rightarrow> string \<Rightarrow> string option \<Rightarrow> submit_request \<Rightarrow> string \<Rightarrow> (nat \<Rightarrow> string)
    \<Rightarrow> submit_response handler" where
  "submit S token header req oper ulid =
     bindA (authorize S token Operator) (\<lambda>identity.
       if sb_environment req = [] then failing (BadRequest (Msg ''environment must not be empty'' []))
       else if sb_resources req = [] then failing (BadRequest (Msg ''resources must not be empty'' []))
       else
         bindA (limited (check_and_record (sb_environment req) (se_instant S))) (\<lambda>_.
         bindA (maintenance_gate S identity header req) (\<lambda>_.
           submit_open S identity req oper ulid)))"

section \<open>Approval and rejection\<close>

text \<open>The matched policies whose approver list does not name the caller; a name the configuration no
  longer has is skipped.\<close>

definition approver_violations :: "policy list \<Rightarrow> string \<Rightarrow> string list \<Rightarrow> string list" where
  "approver_violations policies caller names =
     filter (\<lambda>n. case find (\<lambda>p. po_name p = n) policies of
                   None \<Rightarrow> False
                 | Some p \<Rightarrow> po_approvers p \<noteq> [] \<and> caller \<notin> set (po_approvers p)) names"

definition approver_gate :: "surroundings \<Rightarrow> identity \<Rightarrow> string \<Rightarrow> db \<Rightarrow> unit api_result" where
  "approver_gate S identity oper d =
     (if has_role identity Admin then Inr ()
      else bindE (get_operation (ce_serde (se_call S)) oper d) (\<lambda>view.
             if approver_violations (cf_policies (se_config S)) (display_name identity) (ov_matched_policies view) \<noteq> []
             then Inl Forbidden else Inr ()))"

definition approve_op :: "surroundings \<Rightarrow> string \<Rightarrow> string \<Rightarrow> string option \<Rightarrow> (nat \<Rightarrow> string) \<Rightarrow> nat handler" where
  "approve_op S token oper reason ulid =
     bindA (authorize S token Approver) (\<lambda>identity.
     bindA (reading (approver_gate S identity oper)) (\<lambda>_.
       on_db (approve_operation (se_call' S) ulid oper (display_name identity) (audit_actor identity) reason)))"

definition reject_op :: "surroundings \<Rightarrow> string \<Rightarrow> string \<Rightarrow> string \<Rightarrow> unit handler" where
  "reject_op S token oper reason =
     bindA (authorize S token Approver) (\<lambda>identity.
       on_db (reject_operation (se_call' S) oper (display_name identity) (audit_actor identity) reason))"

section \<open>Reads\<close>

definition get_op :: "surroundings \<Rightarrow> string \<Rightarrow> string \<Rightarrow> operation_view handler" where
  "get_op S token oper = bindA (authorize S token Viewer) (\<lambda>_. reading (get_operation (ce_serde (se_call S)) oper))"

definition list_ops :: "surroundings \<Rightarrow> string \<Rightarrow> string option \<Rightarrow> int option \<Rightarrow> operation_list_item list handler" where
  "list_ops S token status limit =
     bindA (authorize S token Viewer) (\<lambda>_.
       reading (\<lambda>d. Inr (list_operations status (case limit of Some n \<Rightarrow> n | None \<Rightarrow> 50) d)))"

definition get_op_desired_state :: "surroundings \<Rightarrow> string \<Rightarrow> string \<Rightarrow> operation_desired_item list handler" where
  "get_op_desired_state S token oper =
     bindA (authorize S token Viewer) (\<lambda>_. reading (list_desired_state_for_operation (ce_serde (se_call S)) oper))"

section \<open>Rollback\<close>

record rollback_response =
  rb_new_operation_id :: string
  rb_assignment_count :: nat
  rb_resources_reverted :: nat
  rb_resources_orphaned :: "string list"

definition rollback_summary :: "string \<Rightarrow> string option \<Rightarrow> string" where
  "rollback_summary target reason =
     ''rollback of '' @ target @ (case reason of Some r \<Rightarrow> '': '' @ r | None \<Rightarrow> [])"

definition rollback_record :: "identity \<Rightarrow> string \<Rightarrow> string \<Rightarrow> string option \<Rightarrow> nat \<Rightarrow> string list \<Rightarrow> audit_record" where
  "rollback_record identity oper target reason n orphaned =
     audit_payload (jobject [(''target_operation_id'', JStr target), (''reason'', jopt reason), (''resources_reverted'', jnat n),
         (''resources_orphaned'', jstrs orphaned)])
       (audit_severity ''warning'' (audit_operation oper (audit_new (audit_actor identity) ''operation.rollback_initiated'')))"

definition rollback_op :: "surroundings \<Rightarrow> string \<Rightarrow> string \<Rightarrow> string \<Rightarrow> string option \<Rightarrow> canary_spec option \<Rightarrow> string \<Rightarrow> (nat \<Rightarrow> string)
    \<Rightarrow> rollback_response handler" where
  "rollback_op S token target requested_by reason canary oper ulid =
     bindA (authorize S token Operator) (\<lambda>identity.
     bindA (reading (prepare_rollback (ce_serde (se_call S)) target)) (\<lambda>(resources, orphaned, environment).
       if resources = []
       then failing (Conflict (Msg ''no resources have a prior desired state to revert to ({} orphaned)'' [show_nat (length orphaned)]))
       else
         bindA (from_result (topo_sort_by_depends_on (ce_serde (se_call S)) resources)) (\<lambda>sorted_resources.
           let matched = matched_policies S environment sorted_resources in
           bindA (on_db (create_operation (se_call S) oper ulid environment requested_by (audit_actor identity) None
                    (Some (rollback_summary target reason)) sorted_resources (map po_name matched)
                    (list_ex po_requires_approval matched) canary)) (\<lambda>outcome.
           bindA (recorded (se_call' S) (rollback_record identity (co_operation_id outcome) target reason
                    (length sorted_resources) orphaned)) (\<lambda>_.
             doing \<lparr>rb_new_operation_id = co_operation_id outcome, rb_assignment_count = co_assignment_count outcome,
                    rb_resources_reverted = min (length sorted_resources) (2 ^ 32 - 1),
                    rb_resources_orphaned = orphaned\<rparr>)))))"

section \<open>What a submission does to the database\<close>

definition created :: "surroundings \<Rightarrow> identity \<Rightarrow> submit_request \<Rightarrow> string \<Rightarrow> (nat \<Rightarrow> string) \<Rightarrow> resource_for_routing list
    \<Rightarrow> create_outcome tx" where
  "created S identity req oper ulid routing =
     create_operation (se_call' S) oper ulid (sb_environment req) (sb_requested_by req) (audit_actor identity)
       (sb_source_commit req) (sb_summary req) routing (map po_name (matched_policies S (sb_environment req) routing))
       (list_ex po_requires_approval (matched_policies S (sb_environment req) routing)) (sb_canary req)"

lemma submit_open_cases:
  assumes "submit_open S identity req oper ulid s = (r, s')"
  obtains (refused) e where "r = Inl e" "app_db s' = app_db s"
  | (accepted) routing outcome where "routed_resources S req = Inr routing" "r = Inr (response_of outcome routing)"
      "created S identity req oper ulid routing (app_db s) = Inr (app_db s', outcome)"
proof -
  from assms show thesis
    unfolding submit_open_def
  proof (cases rule: bindA_cases)
    case (passes x s1)
    then have s1: "s1 = s" by simp
    from passes(2) show thesis
    proof (cases rule: bindA_cases)
      case routed: (passes routing s2)
      then have rt: "routed_resources S req = Inr routing" "s2 = s" by (simp_all add: s1)
      let ?caps = "policy_caps (matched_policies S (sb_environment req) routing)"
      let ?limits = "if ?caps \<noteq> [] then limited (check_and_record_policies ?caps (se_instant' S)) else doing ()"
      have idle: "db_idle ?limits" by auto
      from routed(2) show thesis unfolding submit_routed_def Let_def rt(2)
      proof (cases rule: bindA_cases)
        case fails
        then show thesis using refused db_idleD [OF idle] by blast
      next
        case limits: (passes y s3)
        have db: "app_db s3 = app_db s" using db_idleD [OF idle limits(1)] .
        from limits(2) show thesis
        proof (cases rule: bindA_cases)
          case fails
          then show thesis using refused db by (auto simp: on_db_Inl)
        next
          case (passes outcome s4)
          then show thesis using accepted [OF rt(1), of outcome] db by (auto simp: on_db_Inr created_def)
        qed
      qed
    qed (use refused s1 in auto)
  qed (use refused in auto)
qed

lemma checks_passed:
  "check_windows C ws env now m = (m', Inr ()) \<Longrightarrow> \<forall>w \<in> set ws. \<not> fences C env now w"
  "check_recurring C rs env now m = (m', Inr ()) \<Longrightarrow> \<forall>w \<in> set rs. \<not> recurs C env now w"
  using check_windows_open [of C ws env now m] check_recurring_open [of C rs env now m] by simp_all

lemma gate_result:
  assumes "maintenance_gate S identity header req s = (r, s')"
  shows "r \<noteq> Inr () \<Longrightarrow> app_db s' = app_db s"
    and "r = Inr () \<Longrightarrow> \<not> bypass_requested header \<Longrightarrow> app_db s' = app_db s
      \<and> (\<forall>w \<in> set (cf_maintenance_windows (se_config S)). \<not> fences (se_calendar S) (sb_environment req) (se_clock S) w)
      \<and> (\<forall>w \<in> set (cf_recurring_maintenance_windows (se_config S)). \<not> recurs (se_calendar S) (sb_environment req) (se_clock S) w)"
    and "r = Inr () \<Longrightarrow> bypass_requested header \<Longrightarrow> has_role identity Admin
      \<and> app_db s' = audited (se_call S) (bypass_record identity req) (app_db s)"
  using assms
  by (auto simp: maintenance_gate_def bindA_def metered_def blocking_def split: prod.splits sum.splits if_splits dest!: checks_passed elim!: recorded_cases)

text \<open>A window in force for an environment, of either kind.\<close>

definition frozen :: "surroundings \<Rightarrow> string \<Rightarrow> bool" where
  "frozen S env \<longleftrightarrow>
     (\<exists>w \<in> set (cf_maintenance_windows (se_config S)). fences (se_calendar S) env (se_clock S) w)
   \<or> (\<exists>w \<in> set (cf_recurring_maintenance_windows (se_config S)). recurs (se_calendar S) env (se_clock S) w)"

lemma submit_cases:
  assumes "submit S token header req oper ulid s = (r, s')"
  obtains (refused) e where "r = Inl e" "app_db s' = app_db s"
  | (entered) identity s1 where "require_role (se_call S) (se_admin_token S) token Operator (app_db s) = Inr identity"
      "submit_open S identity req oper ulid s1 = (r, s')"
      "if bypass_requested header
       then has_role identity Admin \<and> app_db s1 = audited (se_call S) (bypass_record identity req) (app_db s)
       else \<not> frozen S (sb_environment req) \<and> app_db s1 = app_db s"
proof -
  from assms show thesis
    unfolding submit_def
  proof (cases rule: bindA_cases)
    case (passes identity s1)
    then have s1: "require_role (se_call S) (se_admin_token S) token Operator (app_db s) = Inr identity" "s1 = s"
      by (auto simp: authorize_def)
    show thesis
    proof (cases "sb_environment req = [] \<or> sb_resources req = []")
      case True
      then show thesis using passes(2) refused s1(2) by (auto split: if_splits)
    next
      case False
      with passes(2) s1(2) have "bindA (limited (check_and_record (sb_environment req) (se_instant S)))
          (\<lambda>_. bindA (maintenance_gate S identity header req) (\<lambda>_. submit_open S identity req oper ulid)) s = (r, s')" by simp
      then show thesis
      proof (cases rule: bindA_cases)
        case fails
        then show thesis using refused limited_db by metis
      next
        case limits: (passes x s2)
        have s2: "app_db s2 = app_db s" using limited_db [OF limits(1)] by simp
        from limits(2) show thesis
        proof (cases rule: bindA_cases)
          case (fails e)
          then show thesis using refused gate_result(1) [OF fails(1)] s2 by simp
        next
          case gate: (passes y s3)
          show thesis
            using gate_result(2,3) [OF gate(1)] s2 gate(2) by (intro entered [OF s1(1), of s3]) (auto simp: frozen_def)
        qed
      qed
    qed
  qed (use refused in \<open>auto simp: authorize_def\<close>)
qed

text \<open>
  C7. A change freeze holds. While a maintenance window of the environment is open, a submission is
  refused and changes nothing in the database, unless an administrator asks for the bypass; and then
  the database carries the audit record of the bypass before anything else the submission does, also
  when the submission is refused later.
\<close>

theorem freeze_blocks_submission:
  assumes "frozen S (sb_environment req)" "submit S token header req oper ulid s = (r, s')"
  shows "(\<exists>e. r = Inl e) \<and> app_db s' = app_db s
    \<or> bypass_requested header
      \<and> (\<exists>identity. require_role (se_call S) (se_admin_token S) token Operator (app_db s) = Inr identity \<and> has_role identity Admin
           \<and> (let d = audited (se_call S) (bypass_record identity req) (app_db s)
              in (\<exists>e. r = Inl e) \<and> app_db s' = d
                 \<or> (\<exists>routing outcome. created S identity req oper ulid routing d = Inr (app_db s', outcome))))"
  using assms(2)
proof (cases rule: submit_cases)
  case (entered identity s1)
  then have b: "bypass_requested header" "has_role identity Admin"
    and d: "app_db s1 = audited (se_call S) (bypass_record identity req) (app_db s)"
    using assms(1) by (simp_all split: if_splits)
  from entered(2) show ?thesis
  proof (cases rule: submit_open_cases)
    case (refused e)
    then show ?thesis using b d entered(1) by (auto simp: Let_def)
  next
    case (accepted routing outcome)
    then show ?thesis using b d entered(1) by (auto simp: Let_def)
  qed
qed simp

section \<open>What is stored\<close>

definition desired_of :: "string \<Rightarrow> resource_for_routing \<Rightarrow> desired_row \<Rightarrow> bool" where
  "desired_of oper r x \<longleftrightarrow> ds_operation_id x = oper \<and> ds_resource_id x = rf_resource_id r \<and> ds_kind x = rf_kind r
     \<and> ds_environment x = rf_environment r \<and> ds_spec_json x = rf_resource_json r"

lemma submit_loop_desired:
  "submit_loop oper env agents rs (d, b, u) = Inr (d', b', u') \<Longrightarrow>
     \<exists>news. db_desired d' = db_desired d @ news \<and> list_all2 (desired_of oper) (map fst rs) news"
proof (induction rs arbitrary: d b u)
  case (Cons p rs)
  obtain r layer where p: "p = (r, layer)" by force
  from Cons.prems p obtain d1 where d1: "insert_desired oper r d = Inr d1" by (auto elim: bindE_InrE)
  obtain b2 u2 where "submit_loop oper env agents rs (d1, b2, u2) = Inr (d', b', u')"
    using Cons.prems p d1 by (auto split: sum.splits)
  from Cons.IH [OF this] obtain news where n: "db_desired d' = db_desired d1 @ news" "list_all2 (desired_of oper) (map fst rs) news"
    by blast
  obtain x where "db_desired d1 = db_desired d @ [x]" "desired_of oper r x"
    using d1 by (auto simp: insert_desired_def desired_of_def split: if_splits)
  with n show ?case by (intro exI [of _ "x # news"]) (simp add: p)
qed simp

lemma create_desired:
  assumes "create_operation E oper ulid env requested_by actor src summary rs pol req canary d = Inr (d', out)"
  shows "\<exists>news. db_desired d' = db_desired d @ news \<and> list_all2 (desired_of oper) rs news"
  using assms
proof (rule create_steps)
  fix d1 layers d2 buckets unrouted d4 n rec
  assume 1: "insert_operation (new_operation_row E oper env requested_by src summary pol req) d = Inr d1"
    and l: "compute_resource_layers (ce_serde E) rs = Inr layers"
    and 2: "submit_loop oper env (agent_snapshot d) (zip rs layers) (d1, [], []) = Inr (d2, buckets, unrouted)"
    and 3: "dispatch_buckets E oper ulid canary req buckets d2 = Inr (d4, n)" and d': "d' = audited E rec d4"
  have "db_desired d1 = db_desired d" using 1 by (auto simp: insert_operation_def split: if_splits)
  moreover have "db_desired d4 = db_desired d2"
    using 3 by (auto simp: dispatch_buckets_def split: if_splits elim!: bindE_InrE dest!: insert_buckets_Inr)
  moreover have "map fst (zip rs layers) = rs" using compute_layers_steps(1) [OF l] by simp
  ultimately show ?thesis using submit_loop_desired [OF 2] by (simp add: d')
qed

lemma traverse_mem:
  assumes "traverse f xs = Inr ys" "y \<in> set ys"
  obtains x where "x \<in> set xs" "f x = Inr y"
proof -
  from assms obtain i where "i < length xs" "y = ys ! i" "f (xs ! i) = Inr (ys ! i)"
    by (auto simp: in_set_conv_nth traverse_Inr_iff list_all2_conv_all_nth)
  then show thesis using that [of "xs ! i"] by simp
qed

lemma map_of_jset: "map_of (jset k v m) = (map_of m)(k \<mapsto> v)"
  unfolding jset_def by (induction k v m rule: bt_insert.induct) (auto simp: fun_eq_iff)

lemma stamp_environment_get:
  "jpath raw [''metadata'', n] \<noteq> None \<Longrightarrow> jpath (stamp_environment env raw) [''metadata'', ''environment''] = Some (JStr env)"
  "k \<noteq> ''metadata'' \<Longrightarrow> jget (stamp_environment env raw) k = jget raw k"
  by (auto simp: jpath.simps stamp_environment_def in_member_def map_of_jset bind_eq_Some_conv split: json.splits option.splits)

definition canonical_entry :: "serde \<Rightarrow> string \<Rightarrow> resource_for_routing \<Rightarrow> bool" where
  "canonical_entry J env r \<longleftrightarrow> rf_environment r = env
     \<and> (\<exists>v. rf_resource_json r = to_str J v \<and> jpath v [''metadata'', ''environment''] = Some (JStr env)
          \<and> jget v ''kind'' = Some (JStr (rf_kind r)) \<and> rf_resource_id r = rf_kind r @ ''/'' @ env @ ''/'' @ rf_name r)"

lemma extract_canonical:
  assumes "extract_routing J raw env = Inr r"
  shows "canonical_entry J env r \<and> jget raw ''kind'' = Some (JStr (rf_kind r))"
proof -
  obtain kind name where k: "jget raw ''kind'' = Some (JStr kind)" and n: "jpath raw [''metadata'', ''name''] = Some (JStr name)"
    and r: "r = \<lparr>rf_resource_id = kind @ ''/'' @ env @ ''/'' @ name, rf_kind = kind, rf_environment = env,
            rf_resource_json = to_str J (stamp_environment env raw), rf_name = name, rf_host_selector = host_selector_of raw\<rparr>"
    using assms unfolding extract_routing_def routing_environment_def bad_def
    by (auto elim!: bindE_InrE simp: bind_eq_Some_conv as_str_Some_iff split: option.splits if_splits)
  show ?thesis
    using stamp_environment_get(1) [of raw "''name''" env] stamp_environment_get(2) [of "''kind''" env raw] k n
    by (auto simp: canonical_entry_def r intro!: exI [of _ "stamp_environment env raw"])
qed

lemma routed_canonical:
  assumes "routed_resources S req = Inr routing" "r \<in> set routing"
  shows "canonical_entry (ce_serde (se_call' S)) (sb_environment req) r
    \<and> \<not> is_composite_kind (cf_modules (se_config' S)) (rf_kind r)"
proof -
  obtain expanded unsorted where e: "expand_resources (se_yaml S) (cf_modules (se_config' S)) (sb_resources req) = Inr expanded"
    and u: "traverse (\<lambda>raw. extract_routing (ce_serde (se_call' S)) raw (sb_environment req)) expanded = Inr unsorted"
    and t: "topo_sort_by_depends_on (ce_serde (se_call' S)) unsorted = Inr routing"
    using assms(1) by (auto simp: routed_resources_def elim!: bindE_InrE)
  have "r \<in> set unsorted" using topo_sort_perm [OF t] assms(2) by (metis set_mset_mset)
  then obtain raw where raw: "raw \<in> set expanded" "extract_routing (ce_serde (se_call' S)) raw (sb_environment req) = Inr r"
    by (rule traverse_mem [OF u])
  from loop_leaves [OF e [unfolded expand_resources_def]] raw(1) extract_canonical [OF raw(2)] show ?thesis
    by (auto simp: expand_one_primitive)
qed

text \<open>The values behind the secret references decide whether a submission is accepted and nothing else.\<close>

lemma bindA_both:
  assumes "bindA m f s = (Inr x, s1)" "bindA m g s = (Inr y, s2)"
  obtains a t where "f a t = (Inr x, s1)" "g a t = (Inr y, s2)"
  using assms by (auto simp: bindA_def split: prod.splits sum.splits)

lemma submit_secret_blind:
  assumes "submit S token header req oper ulid s = (Inr resp, s1)"
    and "submit (S\<lparr>se_secrets := host, se_registry := reg\<rparr>) token header req oper ulid s = (Inr resp2, s2)"
  shows "resp2 = resp \<and> s2 = s1"
proof -
  let ?S = "S\<lparr>se_secrets := host, se_registry := reg\<rparr>"
  have same: "authorize ?S t r = authorize S t r" "maintenance_gate ?S i header req = maintenance_gate S i header req"
    "routed_resources ?S req = routed_resources S req" "submit_routed ?S = submit_routed S" "se_instant ?S = se_instant S" for t r i
    by (simp_all add: authorize_def maintenance_gate_def routed_resources_def submit_routed_def matched_policies_def fun_eq_iff Let_def)
  note defs = assms [unfolded submit_def same]
  obtain i t where it: "(if sb_environment req = [] then failing (BadRequest (Msg ''environment must not be empty'' []))
       else if sb_resources req = [] then failing (BadRequest (Msg ''resources must not be empty'' []))
       else bindA (limited (check_and_record (sb_environment req) (se_instant S))) (\<lambda>_.
         bindA (maintenance_gate S i header req) (\<lambda>_. submit_open S i req oper ulid))) t = (Inr resp, s1)"
    "(if sb_environment req = [] then failing (BadRequest (Msg ''environment must not be empty'' []))
       else if sb_resources req = [] then failing (BadRequest (Msg ''resources must not be empty'' []))
       else bindA (limited (check_and_record (sb_environment req) (se_instant S))) (\<lambda>_.
         bindA (maintenance_gate S i header req) (\<lambda>_. submit_open ?S i req oper ulid))) t = (Inr resp2, s2)"
    using bindA_both [OF defs] by blast
  then have "sb_environment req \<noteq> []" "sb_resources req \<noteq> []" by (auto split: if_splits)
  with it obtain t1 where "bindA (maintenance_gate S i header req) (\<lambda>_. submit_open S i req oper ulid) t1 = (Inr resp, s1)"
    "bindA (maintenance_gate S i header req) (\<lambda>_. submit_open ?S i req oper ulid) t1 = (Inr resp2, s2)"
    by (auto elim: bindA_both)
  then obtain t2 where "submit_open S i req oper ulid t2 = (Inr resp, s1)" "submit_open ?S i req oper ulid t2 = (Inr resp2, s2)"
    by (rule bindA_both)
  then show ?thesis
    unfolding submit_open_def same by (auto simp: bindA_def split: prod.splits sum.splits)
qed

text \<open>
  C9. Everything a submission stores belongs to its environment, and no secret is stored. Each new row of the
  desired state belongs to the new operation and to the environment of the request, which is also stamped into
  the stored payload, its id is made of its kind, that environment and its name, and its kind is
  primitive: no composite reaches an agent. The values of the secrets are not in it: whatever other values the
  secret store of the server held, and whatever resolvers were configured, the same submission, if accepted,
  would have left the same response and the same database.
\<close>

theorem submission_stores_canonical:
  assumes "submit S token header req oper ulid s = (Inr resp, s')"
  shows "(\<exists>news. db_desired (app_db s') = db_desired (app_db s) @ news \<and>
    (\<forall>x \<in> set news. ds_operation_id x = oper \<and> ds_environment x = sb_environment req
       \<and> \<not> is_composite_kind (cf_modules (se_config' S)) (ds_kind x)
       \<and> (\<exists>v name. ds_spec_json x = to_str (ce_serde (se_call' S)) v \<and> jget v ''kind'' = Some (JStr (ds_kind x))
            \<and> jpath v [''metadata'', ''environment''] = Some (JStr (sb_environment req))
            \<and> ds_resource_id x = ds_kind x @ ''/'' @ sb_environment req @ ''/'' @ name)))
    \<and> (\<forall>host reg resp2 s2. submit (S\<lparr>se_secrets := host, se_registry := reg\<rparr>) token header req oper ulid s = (Inr resp2, s2)
         \<longrightarrow> resp2 = resp \<and> app_db s2 = app_db s')"
proof (intro conjI allI impI)
  show "\<exists>news. db_desired (app_db s') = db_desired (app_db s) @ news \<and>
    (\<forall>x \<in> set news. ds_operation_id x = oper \<and> ds_environment x = sb_environment req
       \<and> \<not> is_composite_kind (cf_modules (se_config' S)) (ds_kind x)
       \<and> (\<exists>v name. ds_spec_json x = to_str (ce_serde (se_call' S)) v \<and> jget v ''kind'' = Some (JStr (ds_kind x))
            \<and> jpath v [''metadata'', ''environment''] = Some (JStr (sb_environment req))
            \<and> ds_resource_id x = ds_kind x @ ''/'' @ sb_environment req @ ''/'' @ name))"
    using assms
  proof (cases rule: submit_cases)
    case (entered identity s1)
    have d1: "db_desired (app_db s1) = db_desired (app_db s)" using entered(3) by (auto split: if_splits)
    from entered(2) show ?thesis
    proof (cases rule: submit_open_cases)
      case (accepted routing outcome)
      from create_desired [OF accepted(3) [unfolded created_def]] obtain news where
        n: "db_desired (app_db s') = db_desired (app_db s1) @ news" "list_all2 (desired_of oper) routing news" by blast
      have "\<exists>r \<in> set routing. desired_of oper r x" if "x \<in> set news" for x
        using n(2) that by (auto simp: list_all2_conv_all_nth in_set_conv_nth) (metis nth_mem)
      then show ?thesis
        using routed_canonical [OF accepted(1)] n(1) d1
        by (intro exI [of _ news] conjI ballI) (simp, fastforce simp: desired_of_def canonical_entry_def)+
    qed simp
  qed simp
next
  fix host reg resp2 s2
  assume "submit (S\<lparr>se_secrets := host, se_registry := reg\<rparr>) token header req oper ulid s = (Inr resp2, s2)"
  from submit_secret_blind [OF assms this] show "resp2 = resp" "app_db s2 = app_db s'" by simp_all
qed

section \<open>Approval\<close>

lemma create_waiting:
  assumes "create_operation E oper ulid env req_by actor src summary rs pol True canary d = Inr (d', out)"
  shows "db_assignments d' = db_assignments d \<and> co_assignment_count out = 0
    \<and> (\<exists>w. find_op oper d' = Some w \<and> op_status w = OpPendingApproval \<and> op_matched_policies w = pol)"
  using assms
proof (rule create_steps)
  fix d1 layers d2 buckets unrouted d4 n rec
  assume 1: "insert_operation (new_operation_row E oper env req_by src summary pol True) d = Inr d1"
    and 2: "submit_loop oper env (agent_snapshot d) (zip rs layers) (d1, [], []) = Inr (d2, buckets, unrouted)"
    and 3: "dispatch_buckets E oper ulid canary True buckets d2 = Inr (d4, n)" and d': "d' = audited E rec d4"
    and n: "co_assignment_count out = n"
  let ?w = "new_operation_row E oper env req_by src summary pol True"
  have w: "op_id ?w = oper" "op_status ?w = OpPendingApproval" "op_matched_policies ?w = pol" by (simp_all add: new_operation_row_def)
  have d1: "d1 = d\<lparr>db_operations := db_operations d @ [?w]\<rparr>" "oper \<notin> op_id ` set (db_operations d)"
    using 1 w(1) by (auto simp: insert_operation_def split: if_splits)
  then have "find (\<lambda>w. op_id w = oper) (db_operations d) = None" by (auto simp: find_None_iff)
  then have "find (\<lambda>w. op_id w = oper) (db_operations d @ [?w]) = Some ?w"
    using w(1) by (simp add: find_append)
  then show ?thesis
    using submit_loop_Inr [OF 2] 3 n d1(1) w by (simp add: dispatch_buckets_def d' find_op_def)
qed

text \<open>
  C8. The approval gate dispatches nothing. When a policy that requires approval matches the routed
  resources, a successful submission creates no assignment: the operation waits for approval and
  carries the names of the policies it matched. When none matches, the operation does not wait.
\<close>

theorem approval_gate:
  assumes "submit S token header req oper ulid s = (Inr resp, s')"
  shows "\<exists>routing. routed_resources S req = Inr routing \<and>
    (if \<exists>p \<in> set (matched_policies S (sb_environment req) routing). po_requires_approval p
     then db_assignments (app_db s') = db_assignments (app_db s) \<and> sr_assignment_count resp = 0
       \<and> (\<exists>w. find_op oper (app_db s') = Some w \<and> op_status w = OpPendingApproval
            \<and> op_matched_policies w = map po_name (matched_policies S (sb_environment req) routing))
     else \<exists>w \<in> set (db_operations (app_db s')). op_id w = oper \<and> op_status w \<in> {OpPending, OpSucceeded})"
  using assms
proof (cases rule: submit_cases)
  case (entered identity s1)
  have d1: "db_assignments (app_db s1) = db_assignments (app_db s)" using entered(3) by (auto split: if_splits)
  from entered(2) show ?thesis
  proof (cases rule: submit_open_cases)
    case (accepted routing outcome)
    let ?ps = "matched_policies S (sb_environment req) routing"
    have q: "list_ex po_requires_approval ?ps \<longleftrightarrow> (\<exists>p \<in> set ?ps. po_requires_approval p)" by (simp add: list_ex_iff)
    note c = accepted(3) [unfolded created_def]
    show ?thesis
    proof (cases "\<exists>p \<in> set ?ps. po_requires_approval p")
      case True
      with c q create_waiting d1 accepted(1,2) show ?thesis by (fastforce simp: response_of_def)
    next
      case False
      obtain row where "db_operations (app_db s') = db_operations (app_db s1) @ [row]" "op_id row = oper"
        "op_status row \<in> {OpPending, OpSucceeded}"
        by (rule create_result [OF c]) (use False q in \<open>auto split: if_splits\<close>)
      with False accepted(1) show ?thesis by auto
    qed
  qed simp
qed simp

definition may_approve :: "policy list \<Rightarrow> identity \<Rightarrow> operation_row \<Rightarrow> bool" where
  "may_approve policies identity w \<longleftrightarrow> has_role identity Admin
     \<or> (\<forall>name \<in> set (op_matched_policies w). \<forall>p. find (\<lambda>p. po_name p = name) policies = Some p \<longrightarrow>
          po_approvers p = [] \<or> display_name identity \<in> set (po_approvers p))"

lemma approver_gate_passes:
  assumes "approver_gate S identity oper d = Inr ()" "find_op oper d = Some w"
  shows "may_approve (cf_policies (se_config S)) identity w"
proof (cases "has_role identity Admin")
  case False
  with assms have "approver_violations (cf_policies (se_config S)) (display_name identity) (op_matched_policies w) = []"
    by (auto simp: approver_gate_def get_operation_def split: if_splits)
  then show ?thesis by (auto simp: may_approve_def approver_violations_def filter_empty_conv split: option.splits)
qed (simp add: may_approve_def)

text \<open>
  C25. Only a listed approver releases an operation. An approval succeeds only for a caller with the
  approver role and only on an operation that waits for approval; unless the caller is an
  administrator, every matched policy that is still configured and lists approvers lists the caller;
  and the operation then records the caller as its approver.
\<close>

theorem approvers_enforced:
  assumes "rollout_inv K (app_db s)" "approve_op S token oper reason ulid s = (Inr n, s')"
  shows "\<exists>identity w w'. require_role (se_call S) (se_admin_token S) token Approver (app_db s) = Inr identity
    \<and> has_role identity Approver \<and> find_op oper (app_db s) = Some w \<and> op_status w = OpPendingApproval
    \<and> may_approve (cf_policies (se_config S)) identity w
    \<and> find_op oper (app_db s') = Some w' \<and> op_approved_by w' = Some (display_name identity)"
proof -
  obtain identity where i: "require_role (se_call S) (se_admin_token S) token Approver (app_db s) = Inr identity"
    and g: "approver_gate S identity oper (app_db s) = Inr ()"
    and a: "approve_operation (se_call' S) ulid oper (display_name identity) (audit_actor identity) reason (app_db s) = Inr (app_db s', n)"
    using assms(2) by (auto simp: approve_op_def authorize_def on_db_Inr elim!: bindA_cases)
  have "has_role identity Approver" using i by (auto simp: require_role_def elim!: bindE_InrE split: if_splits)
  with i approver_gate_passes [OF g] approve_decides [OF assms(1) a] show ?thesis by auto
qed

text \<open>A matched policy that has left the configuration no longer restricts who approves.\<close>

lemma removed_policy_unenforced:
  assumes "\<forall>name \<in> set names. \<forall>p \<in> set policies. po_name p \<noteq> name"
  shows "approver_violations policies caller names = []"
  using assms by (auto simp: approver_violations_def filter_empty_conv find_None_iff split: option.splits dest!: find_Some_iff [THEN iffD1] nth_mem)

section \<open>Samples\<close>

definition sample_policy :: policy where
  "sample_policy = \<lparr>po_name = ''prod-gate'', po_match = \<lparr>pm_environment = Some ''prod'', pm_kind = None, pm_resource_count_min = None\<rparr>,
     po_requires_approval = True, po_approvers = [''bo''], po_rate_limit_per_minute = None\<rparr>"

definition sample_surroundings :: "maintenance_window list \<Rightarrow> surroundings" where
  "sample_surroundings ws = \<lparr>se_admin_token = Some ''adm'', se_config = sample_config\<lparr>cf_maintenance_windows := ws\<rparr>,
     se_config' = sample_config\<lparr>cf_policies := [sample_policy]\<rparr>, se_calendar = sample_calendar, se_clock = 0, se_parse_ip = (\<lambda>s. if s = [] then None else Some s),
     se_instant = 0, se_instant' = 0, se_yaml = (\<lambda>_. None), se_registry = None, se_secrets = sample_secret_host,
     se_call = sample_env ''t1'' ''t0'', se_call' = sample_env ''t1'' ''t0''\<rparr>"

definition sample_app :: "db \<Rightarrow> app" where
  "sample_app d = \<lparr>app_db = d, app_limiter = from_config \<lparr>rc_operations_per_minute = None, rc_agent_requests_per_minute = None,
       rc_login_per_minute_per_user = None, rc_login_per_minute_per_ip = None, rc_register_per_minute_per_ip = None\<rparr>,
     app_metrics = metrics_from_config sample_calendar [] []\<rparr>"

definition sample_manifest :: json where
  "sample_manifest = JObj [(''kind'', JStr ''file''), (''metadata'', JObj [(''name'', JStr ''motd'')]), (''spec'', JObj [])]"

definition sample_submission :: submit_request where
  "sample_submission = \<lparr>sb_environment = ''prod'', sb_requested_by = ''al'', sb_source_commit = None, sb_summary = None,
     sb_resources = [sample_manifest], sb_canary = None\<rparr>"

lemma sample_frozen: "frozen (sample_surroundings [sample_freeze]) (sb_environment sample_submission)"
  by (simp add: frozen_def sample_surroundings_def sample_config_def fences_def sample_freeze_def parse_window_def sample_calendar_def
      sample_submission_def seconds_def)

theorem freeze_blocks_submission_witness:
  "\<exists>e s'. submit (sample_surroundings [sample_freeze]) ''adm'' None sample_submission ''op1'' (\<lambda>i. []) (sample_app empty_db) = (Inl e, s')
     \<and> app_db s' = empty_db"
proof -
  obtain r s' where r: "submit (sample_surroundings [sample_freeze]) ''adm'' None sample_submission ''op1'' (\<lambda>i. []) (sample_app empty_db) = (r, s')"
    by fastforce
  from freeze_blocks_submission [OF sample_frozen r] r show ?thesis by (auto simp: bypass_requested_def sample_app_def)
qed

definition sample_entry :: resource_for_routing where
  "sample_entry = \<lparr>rf_resource_id = ''file/prod/motd'', rf_kind = ''file'', rf_environment = ''prod'', rf_resource_json = ''{}'',
     rf_name = ''motd'', rf_host_selector = None\<rparr>"

lemma sample_routed: "routed_resources (sample_surroundings ws) sample_submission = Inr [sample_entry]"
proof -
  let ?S = "sample_surroundings ws"
  have e: "expand_resources (\<lambda>_. None) [] [sample_manifest] = Inr [sample_manifest]" by code_simp
  have x: "extract_routing (ce_serde (sample_env ''t1'' ''t0'')) sample_manifest ''prod'' = Inr sample_entry"
    by (simp add: extract_routing_def routing_environment_def sample_manifest_def sample_env_def sample_entry_def jpath.simps
        host_selector_of_def)
  have t: "topo_sort_by_depends_on (ce_serde (sample_env ''t1'' ''t0'')) [sample_entry] = Inr [sample_entry]" by code_simp
  show ?thesis
    using e x t by (simp add: routed_resources_def sample_surroundings_def sample_config_def sample_submission_def)
qed

lemma sample_matched: "matched_policies (sample_surroundings ws) ''prod'' [sample_entry] = [sample_policy]"
  by (simp add: matched_policies_def sample_surroundings_def sample_config_def evaluate_def policy_matches_def sample_policy_def)

lemma submission_created:
  "\<exists>d' out. created (sample_surroundings ws) LegacyAdmin sample_submission ''op1'' ulid [sample_entry] sample_fleet = Inr (d', out)"
proof -
  have l: "compute_resource_layers (ce_serde (sample_env ''t1'' ''t0'')) [sample_entry] = Inr [0]"
    by (simp add: compute_resource_layers_def sample_env_def read_depends_on_def)
  have r: "route_resource sample_entry ''prod'' (agent_snapshot sample_fleet) = Inr ''a1''"
    by (simp add: route_resource_def sample_entry_def agent_snapshot_def sample_fleet_def sample_agent_def)
  have p: "po_requires_approval sample_policy" by (simp add: sample_policy_def)
  have s: "se_call' (sample_surroundings ws) = sample_env ''t1'' ''t0''" "sb_environment sample_submission = ''prod''"
    by (simp_all add: sample_surroundings_def sample_submission_def)
  show ?thesis
    using l r p
    by (simp add: created_def s sample_matched create_operation_def insert_operation_def sample_fleet_def empty_db_def
        insert_desired_def dispatch_buckets_def)
qed

lemma sample_accepted:
  "\<exists>resp s'. submit (sample_surroundings []) ''adm'' None sample_submission ''op1'' ulid (sample_app sample_fleet) = (Inr resp, s')"
proof -
  let ?S = "sample_surroundings []" and ?s = "sample_app sample_fleet"
  have auth: "authorize ?S ''adm'' Operator s = (Inr LegacyAdmin, s)" for s
    by (simp add: authorize_def require_role_def resolve_def sample_surroundings_def)
  have lim: "limited (check_and_record (sb_environment sample_submission) (se_instant ?S)) ?s = (Inr (), ?s)"
    by (simp add: limited_def check_and_record_def sample_app_def from_config_def norm_cap_def)
  obtain s1 where gate: "maintenance_gate ?S LegacyAdmin None sample_submission ?s = (Inr (), s1)" "app_db s1 = sample_fleet"
    by (simp add: maintenance_gate_def bindA_def metered_def blocking_def bypass_requested_def sample_surroundings_def sample_config_def
        sample_app_def)
  have ne: "sb_environment sample_submission = ''prod''" "sb_resources sample_submission = [sample_manifest]"
    by (simp_all add: sample_submission_def)
  have sec: "secret_gate ?S [sample_manifest] = Inr ()" by (simp add: secret_gate_def sample_manifest_def)
  obtain d' out where c: "created ?S LegacyAdmin sample_submission ''op1'' ulid [sample_entry] sample_fleet = Inr (d', out)"
    using submission_created by blast
  have caps: "policy_caps [sample_policy] = []" by (simp add: policy_caps_def map_filter_def sample_policy_def)
  have "submit_open ?S LegacyAdmin sample_submission ''op1'' ulid s1 = (Inr (response_of out [sample_entry]), s1\<lparr>app_db := d'\<rparr>)"
    using c gate(2) by (simp add: submit_open_def bindA_def sec ne sample_routed submit_routed_def sample_matched caps on_db_def created_def)
  then show ?thesis
    by (simp add: submit_def bindA_def auth lim [unfolded ne] ne gate(1))
qed

theorem submission_stores_canonical_witness:
  "\<exists>resp s' news. submit (sample_surroundings []) ''adm'' None sample_submission ''op1'' (\<lambda>i. []) (sample_app sample_fleet) = (Inr resp, s')
     \<and> db_desired (app_db s') = news \<and> (\<forall>x \<in> set news. ds_environment x = ''prod'')
     \<and> (\<forall>host resp2 s2. submit ((sample_surroundings [])\<lparr>se_secrets := host, se_registry := None\<rparr>) ''adm'' None sample_submission ''op1'' (\<lambda>i. []) (sample_app sample_fleet) = (Inr resp2, s2)
           \<longrightarrow> app_db s2 = app_db s')"
proof -
  obtain resp s' where r: "submit (sample_surroundings []) ''adm'' None sample_submission ''op1'' (\<lambda>i. []) (sample_app sample_fleet) = (Inr resp, s')"
    using sample_accepted by blast
  from submission_stores_canonical [OF r] r show ?thesis
    by (auto simp: sample_app_def sample_fleet_def empty_db_def sample_submission_def)
qed

theorem approval_gate_witness:
  "\<exists>resp s'. submit (sample_surroundings []) ''adm'' None sample_submission ''op1'' (\<lambda>i. []) (sample_app sample_fleet) = (Inr resp, s')
     \<and> db_assignments (app_db s') = [] \<and> (\<exists>w. find_op ''op1'' (app_db s') = Some w \<and> op_matched_policies w = [''prod-gate''])"
proof -
  obtain resp s' where r: "submit (sample_surroundings []) ''adm'' None sample_submission ''op1'' (\<lambda>i. []) (sample_app sample_fleet) = (Inr resp, s')"
    using sample_accepted by blast
  have p: "po_requires_approval sample_policy" "po_name sample_policy = ''prod-gate''" by (simp_all add: sample_policy_def)
  have e: "sb_environment sample_submission = ''prod''" by (simp add: sample_submission_def)
  from approval_gate [OF r] r p show ?thesis
    by (auto simp: sample_routed e sample_matched) (simp_all add: sample_app_def sample_fleet_def empty_db_def)
qed

theorem approvers_enforced_witness:
  "\<exists>n s' w. approve_op (sample_surroundings []) ''adm'' ''op1'' None (\<lambda>i. []) (sample_app sample_waiting) = (Inr n, s')
     \<and> find_op ''op1'' (app_db s') = Some w \<and> op_approved_by w = Some ''admin''"
proof -
  let ?S = "sample_surroundings []" and ?s = "sample_app sample_waiting"
  have auth: "authorize ?S ''adm'' Approver s = (Inr LegacyAdmin, s)" for s
    by (simp add: authorize_def require_role_def resolve_def sample_surroundings_def)
  have db: "app_db ?s = sample_waiting" by (simp add: sample_app_def)
  have "\<exists>n d. approve_operation (se_call' ?S) (\<lambda>i. []) ''op1'' ''admin'' ''admin'' None sample_waiting = Inr (d, n)"
    by (simp add: approve_operation_def sample_waiting_def find_op_def new_operation_row_def sample_surroundings_def empty_db_def
        topo_sort_by_depends_on_def compute_resource_layers_def rows_affected_def Let_def)
  then obtain n s' where r: "approve_op ?S ''adm'' ''op1'' None (\<lambda>i. []) ?s = (Inr n, s')"
    by (auto simp: approve_op_def bindA_def auth approver_gate_def on_db_def db)
  have inv: "rollout_inv UNIV (app_db ?s)" using sample_waiting_inv by (simp add: db)
  have "display_name identity = ''admin''" if "require_role (se_call ?S) (se_admin_token ?S) ''adm'' Approver (app_db ?s) = Inr identity" for identity
    using that by (simp add: require_role_def resolve_def sample_surroundings_def split: if_splits)
  with approvers_enforced [OF inv r] r show ?thesis by auto
qed

end
