(* ===== verification/Client_Ip.thy ===== *)
theory Client_Ip
  imports Text_Tools
begin

text \<open>
  Which address the per-client rate limits count (\<open>effective_client_ip\<close> and \<open>parse_xff_entry\<close> of
  \<open>api/mod.rs\<close>). An address is its canonical text; \<open>parse_ip\<close> is the parser of the standard library
  and returns that text. The values of the header lines \<open>X-Forwarded-For\<close> are given in their order;
  the code looks at the first line only.
\<close>

section \<open>The code\<close>

definition parse_xff_entry :: "(string \<Rightarrow> string option) \<Rightarrow> string \<Rightarrow> string option" where
  "parse_xff_entry parse_ip entry =
     parse_ip (if take 1 entry = ''['' then hd (split_on CHR '']'' (dropWhile (\<lambda>c. c = CHR ''['') entry))
               else if parse_ip entry \<noteq> None then entry
               else if count_list entry CHR '':'' = 1 then hd (split_on CHR '':'' entry)
               else entry)"

fun nearest_client :: "(string \<Rightarrow> string option) \<Rightarrow> string list \<Rightarrow> string \<Rightarrow> string list \<Rightarrow> string" where
  "nearest_client parse_ip trusted socket_ip [] = socket_ip"
| "nearest_client parse_ip trusted socket_ip (entry # entries) =
     (case parse_xff_entry parse_ip (trim entry) of
        None \<Rightarrow> nearest_client parse_ip trusted socket_ip entries
      | Some ip \<Rightarrow> if ip \<in> set trusted then nearest_client parse_ip trusted socket_ip entries else ip)"

definition effective_client_ip :: "(string \<Rightarrow> string option) \<Rightarrow> string list \<Rightarrow> string \<Rightarrow> string list \<Rightarrow> string" where
  "effective_client_ip parse_ip forwarded socket_ip trusted =
     (if trusted = [] \<or> socket_ip \<notin> set trusted then socket_ip
      else (case forwarded of
              [] \<Rightarrow> socket_ip
            | s # _ \<Rightarrow> nearest_client parse_ip trusted socket_ip (rev (split_on CHR '','' s))))"

section \<open>A client cannot choose its address\<close>

lemma split_on_nonempty [simp]: "split_on sep s \<noteq> []"
  by (induction s) (auto split: list.splits)

lemma split_on_append: "split_on sep (s @ sep # t) = split_on sep s @ split_on sep t"
  by (induction s) (auto split: list.splits)

lemma nearest_skips:
  assumes "\<forall>e \<in> set proxies. \<exists>ip \<in> set trusted. parse_xff_entry parse_ip (trim e) = Some ip"
  shows "nearest_client parse_ip trusted socket_ip (proxies @ entries) = nearest_client parse_ip trusted socket_ip entries"
  using assms by (induction proxies) auto

text \<open>
  A client behind trusted proxies cannot choose the address it is counted under. When the peer is no
  trusted proxy the header has no effect at all. When it is one, and the chain of trusted proxies
  appended to the header the address that the outermost of them saw and then each other, that address
  is the result whatever the client wrote before it.
\<close>

theorem client_ip_unspoofable:
  assumes "parse_xff_entry parse_ip (trim seen) = Some ip" "ip \<notin> set trusted" "CHR '','' \<notin> set seen"
    and "\<forall>hop \<in> set hops. CHR '','' \<notin> set hop \<and> (\<exists>p \<in> set trusted. parse_xff_entry parse_ip (trim hop) = Some p)"
  shows "effective_client_ip parse_ip ((spoofed @ '','' @ seen @ concat (map (\<lambda>hop. '','' @ hop) hops)) # lines) socket_ip trusted =
      (if socket_ip \<in> set trusted then ip else socket_ip)
    \<and> effective_client_ip parse_ip ((seen @ concat (map (\<lambda>hop. '','' @ hop) hops)) # lines) socket_ip trusted =
      (if socket_ip \<in> set trusted then ip else socket_ip)"
proof -
  have chain: "split_on CHR '','' (seen @ concat (map (\<lambda>hop. '','' @ hop) hops)) = seen # hops"
    using assms(3,4)
  proof (induction hops arbitrary: seen)
    case Nil
    then show ?case by (induction seen) auto
  next
    case (Cons hop hops)
    have "split_on CHR '','' seen = [seen]" using Cons.prems(1) by (induction seen) auto
    with Cons split_on_append [of "CHR '',''" seen "hop @ concat (map (\<lambda>hop. '','' @ hop) hops)"] show ?case by simp
  qed
  have skip: "nearest_client parse_ip trusted socket_ip (rev hops @ seen # before) = ip" for before
    using assms by (subst nearest_skips) auto
  show ?thesis
    using chain skip [of "rev (split_on CHR '','' spoofed)"] skip [of "[]"]
      split_on_append [of "CHR '',''" spoofed "seen @ concat (map (\<lambda>hop. '','' @ hop) hops)"]
    by (auto simp: effective_client_ip_def)
qed

theorem client_ip_unspoofable_witness:
  "effective_client_ip Some [''9.9.9.9, 1.2.3.4,10.0.0.1''] ''10.0.0.1'' [''10.0.0.1''] = ''1.2.3.4''"
proof -
  have t: "trim '' 1.2.3.4'' = ''1.2.3.4''" "trim ''10.0.0.1'' = ''10.0.0.1''" by code_simp+
  then have p: "parse_xff_entry Some (trim '' 1.2.3.4'') = Some ''1.2.3.4''"
    "\<forall>hop \<in> set [''10.0.0.1'']. CHR '','' \<notin> set hop \<and> (\<exists>p \<in> set [''10.0.0.1'']. parse_xff_entry Some (trim hop) = Some p)"
    by (simp_all add: parse_xff_entry_def)
  from client_ip_unspoofable [OF p(1) _ _ p(2), of "''9.9.9.9''" "[]" "''10.0.0.1''"] show ?thesis by simp
qed

end
