(* ===== verification/Signing.thy ===== *)
theory Signing
  imports Actions Text_Tools
begin

text \<open>
  Assignment signing (\<open>signing.rs\<close>, \<open>canonical_assignment_message\<close> of \<open>protocol.rs\<close>): the directory
  of signing keys with its pointer to the active one, loading, migration of the single-key layout,
  rotation, retirement, and the signature. Ed25519, Base64 and the hash are given; the random secret
  and the new key id are arguments. A file is replaced by a rename, so a write either happens or
  leaves the directory as it was; which call fails is the environment's choice.
\<close>

section \<open>Given functions\<close>

type_synonym secret_key = string

record crypto =
  cy_public :: "secret_key \<Rightarrow> string"
  cy_sign :: "secret_key \<Rightarrow> string \<Rightarrow> string"
  cy_verify :: "string \<Rightarrow> string \<Rightarrow> string \<Rightarrow> bool"
  cy_parse_public :: "string \<Rightarrow> bool"
  cy_encode :: "string \<Rightarrow> string"
  cy_decode :: "string \<Rightarrow> string option"
  cy_sha256_hex :: "string \<Rightarrow> string"

section \<open>The signed message\<close>

definition line :: "string \<Rightarrow> string" where
  "line s = s @ [CHR 0x0A]"

definition canonical_assignment_message :: "crypto \<Rightarrow> string \<Rightarrow> string \<Rightarrow> string \<Rightarrow> string \<Rightarrow> string \<Rightarrow> string \<Rightarrow> string" where
  "canonical_assignment_message Y agent_id assignment_id operation_id created_at expires_at payload_json =
     line ''iac-assignment-v2'' @ line agent_id @ line assignment_id @ line operation_id @ line created_at @ line expires_at
     @ line (cy_sha256_hex Y payload_json)"

section \<open>The key directory\<close>

record key_dir =
  kd_active :: "string option"
  kd_files :: "(string \<times> string) list"  \<comment> \<open>the \<open>.bin\<close> files by stem\<close>

record signer_disk =
  dk_keys :: "key_dir option"
  dk_legacy_secret :: "string option"
  dk_legacy_id :: "string option"

datatype signer_call = ReadActive | ListKeys | WriteKey | WriteActive | RemoveKey | MakeDir | ReadLegacy | RandomBytes

type_synonym signer_faults = "signer_call \<Rightarrow> string option"

record signer_state =
  ss_keys :: "(string \<times> secret_key) list"
  ss_active :: string

type_synonym 'a signer_result = "(string, 'a) result"

definition checked :: "signer_faults \<Rightarrow> signer_call \<Rightarrow> 'a signer_result \<Rightarrow> 'a signer_result" where
  "checked F c r = (case F c of Some e \<Rightarrow> Inl e | None \<Rightarrow> r)"

definition load_set :: "signer_faults \<Rightarrow> key_dir \<Rightarrow> signer_state signer_result" where
  "load_set F D =
     bindE (checked F ReadActive (ok_or (kd_active D) ''reading active'')) (\<lambda>text.
       if trim text = [] then Inl ''active is empty''
       else bindE (checked F ListKeys (Inr (kd_files D))) (\<lambda>files.
              if list_ex (\<lambda>f. length (snd f) \<noteq> 32) files then Inl ''key file has the wrong length''
              else if trim text \<notin> set (map fst files) then Inl ''active pointer but no matching key''
              else Inr \<lparr>ss_keys = files, ss_active = trim text\<rparr>))"

definition put_file :: "string \<Rightarrow> string \<Rightarrow> (string \<times> string) list \<Rightarrow> (string \<times> string) list" where
  "put_file k v files = (k, v) # filter (\<lambda>f. fst f \<noteq> k) files"

text \<open>The directory is always in place when these run.\<close>

type_synonym 'a key_act = "(key_dir, string, 'a) act"

definition write_key_file :: "signer_faults \<Rightarrow> string \<Rightarrow> string \<Rightarrow> unit key_act" where
  "write_key_file F key_id secret D =
     (case F WriteKey of Some e \<Rightarrow> (Inl e, D) | None \<Rightarrow> (Inr (), D\<lparr>kd_files := put_file key_id secret (kd_files D)\<rparr>))"

definition write_active_pointer :: "signer_faults \<Rightarrow> string \<Rightarrow> unit key_act" where
  "write_active_pointer F key_id D =
     (case F WriteActive of Some e \<Rightarrow> (Inl e, D) | None \<Rightarrow> (Inr (), D\<lparr>kd_active := Some key_id\<rparr>))"

definition generate_and_persist :: "signer_faults \<Rightarrow> string \<Rightarrow> string \<Rightarrow> string key_act" where
  "generate_and_persist F fresh_id secret =
     bindA (from_result (checked F RandomBytes (Inr ()))) (\<lambda>_.
     bindA (write_key_file F fresh_id secret) (\<lambda>_. doing fresh_id))"

definition remove_key :: "signer_faults \<Rightarrow> string \<Rightarrow> unit key_act" where
  "remove_key F key_id D =
     (if key_id \<notin> set (map fst (kd_files D)) then (Inr (), D)
      else case F RemoveKey of Some e \<Rightarrow> (Inl e, D)
           | None \<Rightarrow> (Inr (), D\<lparr>kd_files := filter (\<lambda>f. fst f \<noteq> key_id) (kd_files D)\<rparr>))"

definition loaded :: "signer_faults \<Rightarrow> signer_state key_act" where
  "loaded F D = (load_set F D, D)"

section \<open>Start-up\<close>

definition empty_dir :: key_dir where
  "empty_dir = \<lparr>kd_active = None, kd_files = []\<rparr>"

text \<open>A step on the key directory of the disk.\<close>

definition in_keys :: "'a key_act \<Rightarrow> (signer_disk, string, 'a) act" where
  "in_keys m K = (case m (case dk_keys K of Some D \<Rightarrow> D | None \<Rightarrow> empty_dir) of (r, D) \<Rightarrow> (r, K\<lparr>dk_keys := Some D\<rparr>))"

definition make_dir :: "signer_faults \<Rightarrow> (signer_disk, string, unit) act" where
  "make_dir F K = (case F MakeDir of Some e \<Rightarrow> (Inl e, K)
     | None \<Rightarrow> (Inr (), K\<lparr>dk_keys := Some (case dk_keys K of Some D \<Rightarrow> D | None \<Rightarrow> empty_dir)\<rparr>))"

definition load_or_create :: "signer_faults \<Rightarrow> string \<Rightarrow> string \<Rightarrow> (signer_disk, string, signer_state) act" where
  "load_or_create F fresh_id secret K =
     (case (dk_keys K, dk_legacy_secret K, dk_legacy_id K) of
        (Some _, _, _) \<Rightarrow> in_keys (loaded F) K
      | (None, Some bytes, Some id_text) \<Rightarrow>
          bindA (make_dir F) (\<lambda>_.
          bindA (from_result (checked F ReadLegacy (if length bytes = 32 then Inr () else Inl ''legacy key has the wrong length''))) (\<lambda>_.
          bindA (in_keys (write_key_file F (trim id_text) bytes)) (\<lambda>_.
          bindA (in_keys (write_active_pointer F (trim id_text))) (\<lambda>_.
            in_keys (loaded F))))) K
      | _ \<Rightarrow>
          bindA (make_dir F) (\<lambda>_.
          bindA (in_keys (generate_and_persist F fresh_id secret)) (\<lambda>key_id.
          bindA (in_keys (write_active_pointer F key_id)) (\<lambda>_.
            in_keys (loaded F)))) K)"

section \<open>The signer\<close>

definition active_entry :: "signer_state \<Rightarrow> secret_key signer_result" where
  "active_entry s = ok_or (map_of (ss_keys s) (ss_active s)) ''active key not in key set''"

definition public_key_b64 :: "crypto \<Rightarrow> signer_state \<Rightarrow> string signer_result" where
  "public_key_b64 Y s = bindE (active_entry s) (\<lambda>k. Inr (cy_encode Y (cy_public Y k)))"

text \<open>The accepted set, by key id.\<close>

definition pubkeys :: "crypto \<Rightarrow> signer_state \<Rightarrow> (string \<times> string) list" where
  "pubkeys Y s = sort_key fst (map (\<lambda>(i, k). (i, cy_encode Y (cy_public Y k))) (ss_keys s))"

definition sign_assignment :: "crypto \<Rightarrow> signer_state \<Rightarrow> string \<Rightarrow> string \<Rightarrow> string \<Rightarrow> string \<Rightarrow> string \<Rightarrow> string \<Rightarrow> string signer_result" where
  "sign_assignment Y s agent_id assignment_id operation_id created_at expires_at payload_json =
     bindE (active_entry s) (\<lambda>k.
       Inr (cy_encode Y (cy_sign Y k
              (canonical_assignment_message Y agent_id assignment_id operation_id created_at expires_at payload_json))))"

text \<open>Rotation and retirement act on the set in memory and the directory, one at a time.\<close>

type_synonym signer = "signer_state \<times> key_dir"

definition on_dir :: "'a key_act \<Rightarrow> (signer, string, 'a) act" where
  "on_dir m = (\<lambda>(s, D). case m D of (r, D') \<Rightarrow> (r, (s, D')))"

definition store_state :: "signer_state \<Rightarrow> (signer, string, unit) act" where
  "store_state s' = (\<lambda>(s, D). (Inr (), (s', D)))"

definition rotate :: "signer_faults \<Rightarrow> string \<Rightarrow> string \<Rightarrow> (signer, string, string) act" where
  "rotate F fresh_id secret =
     bindA (on_dir (generate_and_persist F fresh_id secret)) (\<lambda>new_id.
     bindA (on_dir (write_active_pointer F new_id)) (\<lambda>_.
     bindA (on_dir (loaded F)) (\<lambda>new_state.
     bindA (store_state new_state) (\<lambda>_. doing new_id))))"

definition retire :: "signer_faults \<Rightarrow> string \<Rightarrow> (signer, string, bool) act" where
  "retire F key_id = (\<lambda>(s, D).
     if ss_active s = key_id then (Inl ''cannot retire active key; rotate first'', (s, D))
     else if key_id \<notin> set (map fst (ss_keys s)) then (Inr False, (s, D))
     else bindA (on_dir (remove_key F key_id)) (\<lambda>_.
          bindA (on_dir (loaded F)) (\<lambda>new_state.
          bindA (store_state new_state) (\<lambda>_. doing True))) (s, D))"

section \<open>The active key is always there\<close>

text \<open>The set in memory has its active key, the directory its active file, and the two agree on the
  pointer unless a rotation was interrupted, in which case the pointer is a key the memory does not
  have, so it cannot be retired.\<close>

definition dir_ok :: "key_dir \<Rightarrow> bool" where
  "dir_ok D \<longleftrightarrow> (\<exists>a. kd_active D = Some a \<and> trim a = a \<and> a \<noteq> [] \<and> a \<in> fst ` set (kd_files D))
     \<and> (\<forall>f \<in> set (kd_files D). length (snd f) = 32)"

definition signer_inv :: "signer \<Rightarrow> bool" where
  "signer_inv sd \<longleftrightarrow> (case sd of (s, D) \<Rightarrow> dir_ok D \<and> ss_active s \<in> fst ` set (ss_keys s)
     \<and> (kd_active D = Some (ss_active s) \<or> (\<forall>a. kd_active D = Some a \<longrightarrow> a \<notin> fst ` set (ss_keys s))))"

lemma load_set_Inr:
  assumes "load_set F D = Inr s"
  shows "kd_active D \<noteq> None" "ss_keys s = kd_files D" "ss_active s = trim (the (kd_active D))"
    "ss_active s \<in> fst ` set (kd_files D)"
  using assms by (auto simp: load_set_def checked_def split: option.splits if_splits elim!: bindE_InrE) (metis fst_conv image_eqI)

lemma load_set_total: "dir_ok D \<Longrightarrow> F ReadActive = None \<Longrightarrow> F ListKeys = None \<Longrightarrow> \<exists>s. load_set F D = Inr s"
  by (auto simp: load_set_def checked_def dir_ok_def list_ex_iff) (metis fst_conv image_eqI)

lemma load_inv: "dir_ok D \<Longrightarrow> load_set F D = Inr s \<Longrightarrow> signer_inv (s, D)"
  using load_set_Inr [of F D s] by (auto simp: signer_inv_def dir_ok_def)

text \<open>What the environment supplies: a new id that is not in use and is a plain word, 32 random bytes.\<close>

definition fresh_key :: "string \<Rightarrow> string \<Rightarrow> signer \<Rightarrow> bool" where
  "fresh_key i secret sd \<longleftrightarrow> trim i = i \<and> i \<noteq> [] \<and> length secret = 32
     \<and> i \<notin> fst ` set (kd_files (snd sd)) \<and> i \<notin> fst ` set (ss_keys (fst sd))"

lemma generate_cases:
  assumes "generate_and_persist F i secret D = (r, D')"
  shows "(\<exists>e. r = Inl e) \<and> D' = D \<or> r = Inr i \<and> D' = D\<lparr>kd_files := put_file i secret (kd_files D)\<rparr>"
  using assms by (auto simp: generate_and_persist_def bindA_def write_key_file_def checked_def split: option.splits)

lemma put_file_dir:
  assumes "dir_ok D" "length secret = 32"
  shows "dir_ok (D\<lparr>kd_files := put_file i secret (kd_files D)\<rparr>)"
    and "trim i = i \<Longrightarrow> i \<noteq> [] \<Longrightarrow> dir_ok (D\<lparr>kd_files := put_file i secret (kd_files D), kd_active := Some i\<rparr>)"
  using assms by (force simp: dir_ok_def put_file_def)+

lemma rotate_inv:
  assumes "signer_inv sd" "fresh_key i secret sd" "rotate F i secret sd = (r, sd')"
  shows "signer_inv sd'"
proof -
  obtain s D where sd: "sd = (s, D)" by force
  have ok: "dir_ok D" and len: "length secret = 32" and i: "trim i = i" "i \<noteq> []" "i \<notin> fst ` set (ss_keys s)"
    using assms(1,2) by (simp_all add: sd signer_inv_def fresh_key_def)
  let ?D1 = "D\<lparr>kd_files := put_file i secret (kd_files D)\<rparr>" and ?D2 = "D\<lparr>kd_files := put_file i secret (kd_files D), kd_active := Some i\<rparr>"
  note d1 = put_file_dir(1) [OF ok len, of i] and d2 = put_file_dir(2) [OF ok len i(1,2)]
  have inv1: "signer_inv (s, ?D1)" using assms(1) d1 by (auto simp: sd signer_inv_def put_file_def)
  have inv2: "signer_inv (s, ?D2)" using assms(1) d2 i(3) by (auto simp: sd signer_inv_def put_file_def)
  from assms(3) show ?thesis
    using inv1 inv2 load_inv [OF d2, of F] assms(1)
    by (auto simp: sd rotate_def bindA_def on_dir_def store_state_def loaded_def write_active_pointer_def
        split: prod.splits sum.splits option.splits dest!: generate_cases)
qed

lemma retire_inv:
  assumes "signer_inv sd" "retire F key_id sd = (r, sd')"
  shows "signer_inv sd'"
proof -
  obtain s D where sd: "sd = (s, D)" by force
  show ?thesis
  proof (cases "ss_active s = key_id \<or> key_id \<notin> set (map fst (ss_keys s))")
    case True
    then show ?thesis using assms by (auto simp: sd retire_def split: if_splits)
  next
    case False
    let ?D = "D\<lparr>kd_files := filter (\<lambda>f. fst f \<noteq> key_id) (kd_files D)\<rparr>"
    have ne: "kd_active D \<noteq> Some key_id" using assms(1) False by (auto simp: sd signer_inv_def)
    have ok: "dir_ok D" using assms(1) by (simp add: sd signer_inv_def)
    have ok': "dir_ok ?D"
    proof -
      obtain a where a: "kd_active D = Some a" "trim a = a" "a \<noteq> []" "a \<in> fst ` set (kd_files D)" using ok by (auto simp: dir_ok_def)
      then have "a \<in> fst ` set (kd_files ?D)" using ne by auto
      then show ?thesis using a ok by (simp add: dir_ok_def)
    qed
    have inv: "signer_inv (s, ?D)" using assms(1) ok' by (simp add: sd signer_inv_def)
    have remove: "remove_key F key_id D = (r1, D1) \<Longrightarrow> D1 = D \<or> D1 = ?D" for r1 D1
      by (auto simp: remove_key_def split: if_splits option.splits)
    from assms(2) False have "bindA (on_dir (remove_key F key_id)) (\<lambda>_. bindA (on_dir (loaded F))
        (\<lambda>new_state. bindA (store_state new_state) (\<lambda>_. doing True))) (s, D) = (r, sd')" by (auto simp: sd retire_def)
    then obtain D1 where "D1 = D \<or> D1 = ?D" "sd' = (s, D1) \<or> (\<exists>s1. load_set F D1 = Inr s1 \<and> sd' = (s1, D1))"
      by (cases "remove_key F key_id D")
         (auto simp: bindA_def on_dir_def store_state_def loaded_def split: sum.splits dest!: remove)
    then show ?thesis using inv load_inv [OF ok, of F] load_inv [OF ok', of F] assms(1) by (auto simp: sd)
  qed
qed

text \<open>Any sequence of administrative calls, with any failures of the file system.\<close>

datatype signer_op = Rotate signer_faults string string | Retire signer_faults string

fun signer_step :: "signer_op \<Rightarrow> signer \<Rightarrow> signer" where
  "signer_step (Rotate F i secret) sd = (if fresh_key i secret sd then snd (rotate F i secret sd) else sd)"
| "signer_step (Retire F key_id) sd = snd (retire F key_id sd)"

interpretation signer_m: machine_invariant signer_step signer_inv
proof
  fix sd e assume "signer_inv sd"
  then show "signer_inv (signer_step e sd)"
    by (cases e) (simp_all add: rotate_inv [OF _ _ prod.collapse [symmetric]] retire_inv [OF _ prod.collapse [symmetric]])
qed

lemma active_entry_total: "ss_active s \<in> fst ` set (ss_keys s) \<Longrightarrow> \<exists>k. active_entry s = Inr k"
  by (cases "map_of (ss_keys s) (ss_active s)") (auto simp: active_entry_def map_of_eq_None_iff)

text \<open>
  C28. The signer can always sign and always restarts. From a consistent key directory, after any
  sequence of rotations and retirements of which any file operation may fail half way, the set in
  memory holds its active key, so signing never fails, and the directory's pointer names a key file
  of the directory, so the next start loads.
\<close>

theorem signer_never_stuck:
  assumes "dir_ok D" "load_set F D = Inr s"
    and "(s', D') = fold signer_step ops (s, D)"
  shows "(\<exists>signature. sign_assignment Y s' agent aid oper created expires payload = Inr signature)
    \<and> (\<exists>k. public_key_b64 Y s' = Inr k) \<and> (\<exists>s''. load_set (\<lambda>_. None) D' = Inr s'')"
proof -
  have "signer_inv (s', D')" using signer_m.inv_run [OF load_inv [OF assms(1,2)], of ops] assms(3) by simp
  then show ?thesis
    using active_entry_total [of s'] load_set_total [of D' "\<lambda>_. None"]
    by (auto simp: signer_inv_def sign_assignment_def public_key_b64_def)
qed

section \<open>What a signature covers\<close>

definition plain_line :: "string \<Rightarrow> bool" where
  "plain_line s \<longleftrightarrow> CHR 0x0A \<notin> set s"

lemma line_inject:
  "plain_line a \<Longrightarrow> plain_line b \<Longrightarrow> line a @ x = line b @ y \<longleftrightarrow> a = b \<and> x = y"
proof (induction a arbitrary: b)
  case Nil
  then show ?case by (cases b) (auto simp: line_def plain_line_def)
next
  case (Cons c a)
  then show ?case by (cases b) (auto simp: line_def plain_line_def)
qed

text \<open>
  The signed message determines what it is about. Two messages whose fields contain no line break
  are equal exactly when agent, assignment, operation, creation time, expiry and the digest of the
  payload all are: no signature for one assignment or one agent is a signature for another, and an
  expiry cannot be moved.
\<close>

theorem canonical_message_binding:
  assumes "list_all plain_line [a, i, p, c, e, cy_sha256_hex Y x]" "list_all plain_line [a', i', p', c', e', cy_sha256_hex Y x']"
  shows "canonical_assignment_message Y a i p c e x = canonical_assignment_message Y a' i' p' c' e' x' \<longleftrightarrow>
    a = a' \<and> i = i' \<and> p = p' \<and> c = c' \<and> e = e' \<and> cy_sha256_hex Y x = cy_sha256_hex Y x'"
  using assms line_inject [of "cy_sha256_hex Y x" "cy_sha256_hex Y x'" "[]" "[]"]
  by (simp add: canonical_assignment_message_def line_inject)

section \<open>Samples\<close>

text \<open>A toy signature scheme: the key is public and a signature is the key and the message.\<close>

definition sample_crypto :: crypto where
  "sample_crypto = \<lparr>cy_public = (\<lambda>k. k), cy_sign = (\<lambda>k m. k @ m), cy_verify = (\<lambda>k m s. s = k @ m), cy_parse_public = (\<lambda>k. True),
     cy_encode = (\<lambda>s. s), cy_decode = Some, cy_sha256_hex = (\<lambda>s. show_nat (length s))\<rparr>"

definition sample_key_dir :: key_dir where
  "sample_key_dir = \<lparr>kd_active = Some ''k1'', kd_files = [(''k1'', replicate 32 CHR ''a'')]\<rparr>"

lemma sample_load: "load_set (\<lambda>_. None) sample_key_dir = Inr \<lparr>ss_keys = kd_files sample_key_dir, ss_active = ''k1''\<rparr>"
  "dir_ok sample_key_dir"
proof -
  have "trim ''k1'' = ''k1''" by code_simp
  then show "load_set (\<lambda>_. None) sample_key_dir = Inr \<lparr>ss_keys = kd_files sample_key_dir, ss_active = ''k1''\<rparr>" "dir_ok sample_key_dir"
    by (simp_all add: load_set_def checked_def sample_key_dir_def dir_ok_def)
qed

theorem signer_never_stuck_witness:
  "\<exists>s' D'. (s', D') = fold signer_step [Rotate (\<lambda>_. None) ''k2'' (replicate 32 CHR ''b''), Retire (\<lambda>_. None) ''k1'']
       (\<lparr>ss_keys = kd_files sample_key_dir, ss_active = ''k1''\<rparr>, sample_key_dir)
     \<and> (\<exists>k. public_key_b64 sample_crypto s' = Inr k)"
proof -
  obtain s' D' where r: "(s', D') = fold signer_step [Rotate (\<lambda>_. None) ''k2'' (replicate 32 CHR ''b''), Retire (\<lambda>_. None) ''k1'']
       (\<lparr>ss_keys = kd_files sample_key_dir, ss_active = ''k1''\<rparr>, sample_key_dir)" by (metis surj_pair)
  from signer_never_stuck [OF sample_load(2,1) r, where Y = sample_crypto] r show ?thesis by blast
qed

theorem canonical_message_binding_witness:
  "canonical_assignment_message sample_crypto ''a'' ''s1'' ''op'' ''t0'' [] ''p'' \<noteq> canonical_assignment_message sample_crypto ''a'' ''s1'' ''op'' ''t0'' ''t9'' ''p''"
proof -
  have "show_nat 1 = ''1''" by code_simp
  then have "list_all plain_line [''a'', ''s1'', ''op'', ''t0'', e, cy_sha256_hex sample_crypto ''p'']" if "e = [] \<or> e = ''t9''" for e
    using that by (auto simp: plain_line_def sample_crypto_def)
  from canonical_message_binding [OF this this, of "[]" "''t9''"] show ?thesis by simp
qed

end
