(* ===== verification/Agent_Client.thy ===== *)
theory Agent_Client
  imports Signing Operations Agents
begin

text \<open>
  The agent's client of the control plane (\<open>iac-agent/src/remote.rs\<close>): the identity file and the pinned
  server keys, the verification of an assignment, the rotation of the token and the push of
  observations. A reply of the server is a value the surroundings choose; writing the identity file
  may fail and then leaves the file as it was.
\<close>

section \<open>Identity and key bundle\<close>

record server_pubkey =
  pk_key_id :: string
  pk_public_key :: string

record client_identity =
  ci_agent_id :: string
  ci_token :: string
  ci_server_url :: string
  ci_registered_at :: string
  ci_server_pubkeys :: "server_pubkey list"
  ci_server_key_id :: "string option"
  ci_server_public_key :: "string option"
  ci_token_expires_at :: "string option"

record key_bundle =
  kb_active_key_id :: string
  kb_keys :: "server_pubkey list"

type_synonym 'a client_result = "(string, 'a) result"

definition migrate_legacy_pubkey :: "client_identity \<Rightarrow> client_identity" where
  "migrate_legacy_pubkey i =
     (case (ci_server_pubkeys i, ci_server_key_id i, ci_server_public_key i) of
        ([], Some key, Some pk) \<Rightarrow> i\<lparr>ci_server_pubkeys := [\<lparr>pk_key_id = key, pk_public_key = pk\<rparr>]\<rparr>
      | _ \<Rightarrow> i)"

text \<open>\<open>fetch_signing_bundle\<close> on what the server answered.\<close>

definition fetch_signing_bundle :: "key_bundle client_result \<Rightarrow> key_bundle client_result" where
  "fetch_signing_bundle reply =
     bindE reply (\<lambda>b.
       if kb_keys b = [] then Inl ''server returned empty signing bundle''
       else if kb_active_key_id b \<notin> pk_key_id ` set (kb_keys b) then Inl ''server bundle is inconsistent''
       else Inr b)"

text \<open>The later of two entries with one key id wins, as in a hash map built from the list.\<close>

definition key_map :: "server_pubkey list \<Rightarrow> (string \<times> string) list" where
  "key_map ks = rev (map (\<lambda>k. (pk_key_id k, pk_public_key k)) ks)"

definition pin_bundle :: "key_bundle \<Rightarrow> client_identity \<Rightarrow> client_identity" where
  "pin_bundle b i = i\<lparr>ci_server_pubkeys := kb_keys b, ci_server_key_id := Some (kb_active_key_id b),
     ci_server_public_key := map_option pk_public_key (find (\<lambda>k. pk_key_id k = kb_active_key_id b) (kb_keys b))\<rparr>"

definition check_overlap :: "key_bundle \<Rightarrow> client_identity \<Rightarrow> unit client_result" where
  "check_overlap b i =
     (if pk_key_id ` set (kb_keys b) \<inter> pk_key_id ` set (ci_server_pubkeys i) = {} then Inl ''no overlap with pinned keys''
      else if list_ex (\<lambda>p. case map_of (key_map (kb_keys b)) (pk_key_id p) of Some pk \<Rightarrow> pk \<noteq> pk_public_key p | None \<Rightarrow> False)
                (ci_server_pubkeys i)
      then Inl ''pinned key diverged from server''
      else Inr ())"

text \<open>\<open>build_verifier_set\<close>: the bytes of every key, each 32 long and a valid point.\<close>

definition verifier_of :: "crypto \<Rightarrow> server_pubkey \<Rightarrow> (string \<times> string) client_result" where
  "verifier_of Y k =
     bindE (ok_or (cy_decode Y (pk_public_key k)) ''decoding pubkey'') (\<lambda>bytes.
       if length bytes \<noteq> 32 then Inl ''pubkey is not 32 bytes''
       else if \<not> cy_parse_public Y bytes then Inl ''constructing VerifyingKey''
       else Inr (pk_key_id k, bytes))"

definition build_verifier_set :: "crypto \<Rightarrow> client_identity \<Rightarrow> (string \<times> string) list client_result" where
  "build_verifier_set Y i = bindE (traverse (verifier_of Y) (ci_server_pubkeys i)) (\<lambda>ks. Inr (rev ks))"

section \<open>Connecting and refreshing\<close>

record client =
  cl_base_url :: string
  cl_identity :: client_identity
  cl_verifiers :: "(string \<times> string) list"

datatype identity_file = Missing | Unreadable string | Stored client_identity

definition persist_identity :: "string option \<Rightarrow> client_identity \<Rightarrow> (identity_file, string, unit) act" where
  "persist_identity fault i f = (case fault of Some e \<Rightarrow> (Inl e, f) | None \<Rightarrow> (Inr (), Stored i))"

text \<open>\<open>trim_end_matches('/')\<close>.\<close>

definition trim_end_slashes :: "string \<Rightarrow> string" where
  "trim_end_slashes s = rev (dropWhile (\<lambda>c. c = CHR ''/'') (rev s))"

definition new_identity :: "string \<Rightarrow> string \<Rightarrow> agent_credentials \<Rightarrow> client_identity" where
  "new_identity url now creds =
     \<lparr>ci_agent_id = cr_agent_id creds, ci_token = cr_token creds, ci_server_url = trim_end_slashes url, ci_registered_at = now,
      ci_server_pubkeys = [], ci_server_key_id = None, ci_server_public_key = None, ci_token_expires_at = cr_expires_at creds\<rparr>"

text \<open>\<open>enrolled\<close> is the server's answer to the registration, \<open>fault\<close> and \<open>fault'\<close> say whether the
  two writes of the identity file fail.\<close>

definition load_identity :: "string \<Rightarrow> string \<Rightarrow> agent_credentials client_result \<Rightarrow> string option
    \<Rightarrow> (identity_file, string, client_identity) act" where
  "load_identity url now enrolled fault f =
     (case f of
        Stored i \<Rightarrow> (Inr (migrate_legacy_pubkey i), f)
      | Unreadable e \<Rightarrow> (Inl e, f)
      | Missing \<Rightarrow>
          bindA (from_result enrolled) (\<lambda>creds.
          bindA (persist_identity fault (new_identity url now creds)) (\<lambda>_. doing (new_identity url now creds))) f)"

definition connect_with_tls :: "crypto \<Rightarrow> string \<Rightarrow> string \<Rightarrow> agent_credentials client_result \<Rightarrow> key_bundle client_result
    \<Rightarrow> string option \<Rightarrow> string option \<Rightarrow> (identity_file, string, client) act" where
  "connect_with_tls Y url now enrolled reply fault fault' =
     bindA (load_identity url now enrolled fault) (\<lambda>i.
     bindA (from_result (fetch_signing_bundle reply)) (\<lambda>b.
     bindA (from_result (if ci_server_pubkeys i = [] then Inr () else check_overlap b i)) (\<lambda>_.
     bindA (persist_identity fault' (pin_bundle b i)) (\<lambda>_.
     bindA (from_result (build_verifier_set Y (pin_bundle b i))) (\<lambda>vs.
       doing \<lparr>cl_base_url = trim_end_slashes url, cl_identity = pin_bundle b i, cl_verifiers = vs\<rparr>)))))"

definition refresh_signing_keys :: "crypto \<Rightarrow> key_bundle client_result \<Rightarrow> string option
    \<Rightarrow> (client \<times> identity_file, string, unit) act" where
  "refresh_signing_keys Y reply fault = (\<lambda>(c, f).
     case bindA (from_result (bindE (fetch_signing_bundle reply) (\<lambda>b. bindE (check_overlap b (cl_identity c)) (\<lambda>_. Inr b)))) (\<lambda>b.
          bindA (persist_identity fault (pin_bundle b (cl_identity c))) (\<lambda>_.
          bindA (from_result (build_verifier_set Y (pin_bundle b (cl_identity c)))) (\<lambda>vs.
            doing (c\<lparr>cl_identity := pin_bundle b (cl_identity c), cl_verifiers := vs\<rparr>)))) f of
       (Inr c', f') \<Rightarrow> (Inr (), (c', f'))
     | (Inl e, f') \<Rightarrow> (Inl e, (c, f')))"

section \<open>The token\<close>

definition token_seconds_until_expiry :: "(string \<Rightarrow> int option) \<Rightarrow> int \<Rightarrow> client \<Rightarrow> int option" where
  "token_seconds_until_expiry parse_secs now c =
     Option.bind (ci_token_expires_at (cl_identity c)) (\<lambda>text.
       map_option (\<lambda>exp. max (exp - now) 0) (parse_secs text))"

definition rotate_token :: "agent_credentials client_result \<Rightarrow> string option \<Rightarrow> (client \<times> identity_file, string, unit) act" where
  "rotate_token reply fault = (\<lambda>(c, f).
     case bindA (from_result reply) (\<lambda>creds.
          let i = (cl_identity c)\<lparr>ci_token := cr_token creds, ci_token_expires_at := cr_expires_at creds\<rparr>
          in bindA (persist_identity fault i) (\<lambda>_. doing i)) f of
       (Inr i, f') \<Rightarrow> (Inr (), (c\<lparr>cl_identity := i\<rparr>, f'))
     | (Inl e, f') \<Rightarrow> (Inl e, (c, f')))"

definition rotate_if_needed :: "(string \<Rightarrow> int option) \<Rightarrow> int \<Rightarrow> int \<Rightarrow> agent_credentials client_result \<Rightarrow> string option
    \<Rightarrow> (client \<times> identity_file, string, unit option) act" where
  "rotate_if_needed parse_secs now margin reply fault = (\<lambda>(c, f).
     case token_seconds_until_expiry parse_secs now c of
       None \<Rightarrow> (Inr None, (c, f))
     | Some remaining \<Rightarrow>
         if remaining > margin then (Inr None, (c, f))
         else bindA (rotate_token reply fault) (\<lambda>_. doing (Some ())) (c, f))"

section \<open>Verifying an assignment\<close>

definition future_grace_secs :: int where
  "future_grace_secs = 300"

text \<open>\<open>i64::saturating_sub\<close>, and the age limit of \<open>max_envelope_age_secs\<close> from the two variables of the process
  environment.\<close>

definition saturating_sub :: "int \<Rightarrow> int \<Rightarrow> int" where
  "saturating_sub a b = max (- (2 ^ 63)) (min (2 ^ 63 - 1) (a - b))"

definition max_envelope_age_secs :: "(string \<Rightarrow> string option) \<Rightarrow> 64 word option" where
  "max_envelope_age_secs var =
     (if var ''IAC_AGENT_DISABLE_AGE_CHECK'' = Some ''1'' then None
      else (case Option.bind (var ''IAC_AGENT_MAX_ENVELOPE_AGE_SECS'') (parse_unsigned 10 (2 ^ 64)) of
              Some n \<Rightarrow> Some (of_nat n)
            | None \<Rightarrow> Some 86400))"

definition check_envelope_freshness :: "(string \<Rightarrow> int option) \<Rightarrow> int \<Rightarrow> string \<Rightarrow> 64 word \<Rightarrow> int \<Rightarrow> unit client_result" where
  "check_envelope_freshness parse_secs now created_at max_age future_grace =
     (case parse_secs created_at of
        None \<Rightarrow> Inl ''envelope created_at unparseable''
      | Some created \<Rightarrow>
          let age = saturating_sub now created
          in if age > sint max_age then Inl ''envelope too old: replay rejected''
             else if age < - future_grace then Inl ''envelope from the future: replay rejected''
             else Inr ())"

definition check_expiry :: "(string \<Rightarrow> int option) \<Rightarrow> int \<Rightarrow> string option \<Rightarrow> unit client_result" where
  "check_expiry parse_secs now expires_at =
     (case expires_at of
        None \<Rightarrow> Inr ()
      | Some text \<Rightarrow> (case parse_secs text of
            None \<Rightarrow> Inl ''envelope expires_at unparseable''
          | Some exp \<Rightarrow> if saturating_sub now exp > future_grace_secs then Inl ''envelope expired'' else Inr ()))"

definition payload_json :: "serde \<Rightarrow> json list \<Rightarrow> string" where
  "payload_json J resources = to_str J (JObj [(''resources'', JArr resources)])"

record agent_host =
  ah_parse_secs :: "string \<Rightarrow> int option"
  ah_now :: int
  ah_var :: "string \<Rightarrow> string option"
  ah_serde :: serde

definition verify_envelope :: "crypto \<Rightarrow> agent_host \<Rightarrow> client \<Rightarrow> envelope \<Rightarrow> unit client_result" where
  "verify_envelope Y H c env =
     (if cl_verifiers c = [] then Inl ''agent has no pinned server pubkeys''
      else
        bindE (ok_or (map_of (cl_verifiers c) (en_key_id env)) ''envelope key_id not in pinned set'') (\<lambda>verifier.
        bindE (case max_envelope_age_secs (ah_var H) of
                 Some max_age \<Rightarrow> check_envelope_freshness (ah_parse_secs H) (ah_now H) (en_created_at env) max_age future_grace_secs
               | None \<Rightarrow> Inr ()) (\<lambda>_.
        bindE (check_expiry (ah_parse_secs H) (ah_now H) (en_expires_at env)) (\<lambda>_.
        let msg = canonical_assignment_message Y (ci_agent_id (cl_identity c)) (en_assignment_id env) (en_operation_id env)
              (en_created_at env) (case en_expires_at env of Some e \<Rightarrow> e | None \<Rightarrow> []) (payload_json (ah_serde H) (en_payload env))
        in bindE (ok_or (cy_decode Y (en_signature env)) ''decoding base64 signature'') (\<lambda>sig.
           if length sig \<noteq> 64 then Inl ''constructing Signature from bytes''
           else if cy_verify Y verifier msg sig then Inr () else Inl ''Ed25519 signature verification failed'')))))"

definition fetch_assignments :: "crypto \<Rightarrow> agent_host \<Rightarrow> client \<Rightarrow> envelope list client_result \<Rightarrow> envelope list client_result" where
  "fetch_assignments Y H c reply =
     bindE reply (\<lambda>items. bindE (traverse (verify_envelope Y H c) items) (\<lambda>_. Inr items))"

section \<open>Pushing observations\<close>

text \<open>What the server says to one request, as the push loop sees it.\<close>

datatype push_reply = Accepted | TooLarge | Refused string

definition observation_push_chunk :: nat where
  "observation_push_chunk = 500"

text \<open>The work stack, its top first. The reply to a request may depend on the requests before it; the
  trace holds the requests and their replies.\<close>

definition chunk_cost :: "'a list \<Rightarrow> nat" where
  "chunk_cost chunk = max 1 (2 * length chunk - 1)"

lemma split_cost: "1 < length chunk \<Longrightarrow>
  chunk_cost (take (length chunk div 2) chunk) + chunk_cost (drop (length chunk div 2) chunk) < chunk_cost chunk"
proof -
  assume n: "1 < length chunk"
  define m where "m = length chunk div 2"
  have "1 \<le> m" "m < length chunk" using n by (simp_all add: m_def)
  then show ?thesis unfolding chunk_cost_def length_take length_drop m_def [symmetric] by linarith
qed

function push_loop :: "(nat \<Rightarrow> 'a list \<Rightarrow> push_reply) \<Rightarrow> 'a list list \<Rightarrow> nat \<Rightarrow> ('a list \<times> push_reply) list
    \<Rightarrow> nat client_result \<times> ('a list \<times> push_reply) list" where
  "push_loop post [] sent trace = (Inr sent, trace)"
| "push_loop post (chunk # stack) sent trace =
     (case post (length trace) chunk of
        Accepted \<Rightarrow> push_loop post stack (min (sent + min (length chunk) (2 ^ 32 - 1)) (2 ^ 32 - 1)) (trace @ [(chunk, Accepted)])
      | TooLarge \<Rightarrow>
          if length chunk \<le> 1 then push_loop post stack sent (trace @ [(chunk, TooLarge)])
          else push_loop post (take (length chunk div 2) chunk # drop (length chunk div 2) chunk # stack) sent (trace @ [(chunk, TooLarge)])
      | Refused e \<Rightarrow> (Inl e, trace @ [(chunk, Refused e)]))"
  by pat_completeness auto

termination
proof (relation "measure (\<lambda>(post, stack, sent, trace). sum_list (map chunk_cost stack))", goal_cases)
  case (4 post chunk stack sent trace)
  then show ?case using split_cost [of chunk] by simp
qed (auto simp: chunk_cost_def)

definition push_observations :: "(nat \<Rightarrow> 'a list \<Rightarrow> push_reply) \<Rightarrow> 'a list \<Rightarrow> nat client_result \<times> ('a list \<times> push_reply) list" where
  "push_observations post items =
     (if items = [] then (Inr 0, []) else push_loop post (chunks observation_push_chunk items) 0 [])"

text \<open>The requests whose items are settled: stored by the server, or given up because a single item is too
  large.\<close>

definition settled :: "('a list \<times> push_reply) list \<Rightarrow> 'a list" where
  "settled trace = concat (map fst (filter (\<lambda>(chunk, reply). reply = Accepted \<or> reply = TooLarge \<and> length chunk \<le> 1) trace))"

definition stored :: "('a list \<times> push_reply) list \<Rightarrow> nat" where
  "stored trace = sum_list (map (length \<circ> fst) (filter (\<lambda>(chunk, reply). reply = Accepted) trace))"

lemma settled_simps [simp]:
  "settled [] = []" "settled (trace @ trace') = settled trace @ settled trace'"
  "settled ((chunk, reply) # trace) = (if reply = Accepted \<or> reply = TooLarge \<and> length chunk \<le> 1 then chunk else []) @ settled trace"
  by (simp_all add: settled_def)

lemma stored_simps [simp]:
  "stored [] = 0" "stored ((chunk, reply) # trace) = (if reply = Accepted then length chunk else 0) + stored trace"
  by (simp_all add: stored_def)

text \<open>What a run of the loop adds to the trace, given the stack and the count it starts from.\<close>

definition push_outcome :: "nat \<Rightarrow> 'a list list \<Rightarrow> nat \<Rightarrow> nat client_result \<Rightarrow> ('a list \<times> push_reply) list \<Rightarrow> bool" where
  "push_outcome b stack sent r new \<longleftrightarrow>
     length new \<le> sum_list (map chunk_cost stack) \<and> (\<forall>x \<in> set new. fst x \<noteq> [] \<and> length (fst x) \<le> b)
     \<and> (\<forall>n. r = Inr n \<longrightarrow> settled new = concat stack \<and> n = min (sent + stored new) (2 ^ 32 - 1))
     \<and> (\<forall>e. r = Inl e \<longrightarrow> (\<exists>before chunk rest. new = before @ [(chunk, Refused e)] \<and> concat stack = settled new @ chunk @ rest))"

lemma push_outcome_accepted:
  assumes "push_outcome b stack (min (sent + min (length chunk) (2 ^ 32 - 1)) (2 ^ 32 - 1)) r new" "chunk \<noteq> []" "length chunk \<le> b"
  shows "push_outcome b (chunk # stack) sent r ((chunk, Accepted) # new)"
proof -
  have "1 \<le> chunk_cost chunk" by (simp add: chunk_cost_def)
  moreover have "min (min (sent + min k N) N + x) N = min (sent + (k + x)) N" for k x N :: nat by simp
  ultimately show ?thesis using assms unfolding push_outcome_def by auto
qed

lemma push_outcome_dropped:
  assumes "push_outcome b stack sent r new" "chunk \<noteq> []" "length chunk \<le> b" "length chunk \<le> 1"
  shows "push_outcome b (chunk # stack) sent r ((chunk, TooLarge) # new)"
proof -
  have "1 \<le> chunk_cost chunk" by (simp add: chunk_cost_def)
  then show ?thesis using assms unfolding push_outcome_def by auto
qed

lemma push_outcome_halved:
  assumes "push_outcome b (take (length chunk div 2) chunk # drop (length chunk div 2) chunk # stack) sent r new"
    and "length chunk \<le> b" "\<not> length chunk \<le> 1"
  shows "push_outcome b (chunk # stack) sent r ((chunk, TooLarge) # new)"
proof -
  have "concat (take (length chunk div 2) chunk # drop (length chunk div 2) chunk # stack) = concat (chunk # stack)" by simp
  then show ?thesis
    using assms split_cost [of chunk] unfolding push_outcome_def by (auto simp del: concat.simps)
qed

lemma push_loop_trace:
  assumes "push_loop post stack sent trace = (r, trace')" "sent < 2 ^ 32" "\<forall>c \<in> set stack. c \<noteq> [] \<and> length c \<le> b"
  shows "\<exists>new. trace' = trace @ new \<and> push_outcome b stack sent r new"
  using assms
proof (induction post stack sent trace arbitrary: r trace' rule: push_loop.induct)
  case (1 post sent trace)
  then show ?case by (intro exI [of _ "[]"]) (auto simp: push_outcome_def)
next
  case (2 post chunk stack sent trace)
  have c: "chunk \<noteq> []" "length chunk \<le> b" "\<forall>c \<in> set stack. c \<noteq> [] \<and> length c \<le> b" using 2(6) by auto
  show ?case
  proof (cases "post (length trace) chunk")
    case Accepted
    let ?sent = "min (sent + min (length chunk) (2 ^ 32 - 1)) (2 ^ 32 - 1) :: nat"
    have run: "push_loop post stack ?sent (trace @ [(chunk, Accepted)]) = (r, trace')" using 2(4) Accepted by simp
    have "?sent < 2 ^ 32" by simp
    from 2(1) [OF Accepted run this c(3)] push_outcome_accepted [OF _ c(1,2)] show ?thesis by fastforce
  next
    case TooLarge
    show ?thesis
    proof (cases "length chunk \<le> 1")
      case True
      then have run: "push_loop post stack sent (trace @ [(chunk, TooLarge)]) = (r, trace')" using 2(4) TooLarge by simp
      from 2(2) [OF TooLarge True run 2(5) c(3)] push_outcome_dropped [OF _ c(1,2) True] show ?thesis by fastforce
    next
      case False
      let ?stack = "take (length chunk div 2) chunk # drop (length chunk div 2) chunk # stack"
      have run: "push_loop post ?stack sent (trace @ [(chunk, TooLarge)]) = (r, trace')" using 2(4) TooLarge False by simp
      have "\<forall>c \<in> set ?stack. c \<noteq> [] \<and> length c \<le> b" using c False by auto
      from 2(3) [OF TooLarge False run 2(5) this] push_outcome_halved [OF _ c(2) False] show ?thesis by fastforce
    qed
  next
    case (Refused e)
    have "1 \<le> chunk_cost chunk" by (simp add: chunk_cost_def)
    with Refused show ?thesis using 2(4) c by (intro exI [of _ "[(chunk, Refused e)]"]) (auto simp: push_outcome_def)
  qed
qed

lemma cost_bound: "\<forall>c \<in> set stack. c \<noteq> [] \<Longrightarrow> sum_list (map chunk_cost stack) \<le> 2 * length (concat stack)"
proof (induction stack)
  case (Cons c stack)
  then have "chunk_cost c \<le> 2 * length c" by (cases c) (auto simp: chunk_cost_def)
  with Cons show ?case by simp
qed simp

text \<open>
  C40. A push of observations ends and loses nothing silently. It takes at most twice as many requests as
  there are items, each with 1 to 500 items. When it succeeds, the requests the server stored and the
  single items it called too large are together exactly the items, in their order, and the result is
  the number stored; when a request is refused, the items before the refused request are settled.
\<close>

theorem push_settles_every_item:
  assumes "push_observations post items = (r, trace)"
  shows "length trace \<le> 2 * length items \<and> (\<forall>(chunk, reply) \<in> set trace. chunk \<noteq> [] \<and> length chunk \<le> 500)
    \<and> (\<forall>n. r = Inr n \<longrightarrow> settled trace = items \<and> n = min (stored trace) (2 ^ 32 - 1))
    \<and> (\<forall>e. r = Inl e \<longrightarrow> (\<exists>before chunk rest. trace = before @ [(chunk, Refused e)] \<and> items = settled trace @ chunk @ rest))"
proof (cases "items = []")
  case True
  then show ?thesis using assms by (auto simp: push_observations_def)
next
  case False
  let ?stack = "chunks observation_push_chunk items"
  have stack: "\<forall>c \<in> set ?stack. c \<noteq> [] \<and> length c \<le> 500" "concat ?stack = items"
    using chunks_bound [of _ 500 items] concat_chunks [of 500 items] by (auto simp: observation_push_chunk_def)
  have "push_loop post ?stack 0 [] = (r, trace)" using assms False by (simp add: push_observations_def)
  from push_loop_trace [OF this _ stack(1)] have "push_outcome 500 ?stack 0 r trace" by simp
  with stack cost_bound [of ?stack] show ?thesis by (auto simp: push_outcome_def)
qed

theorem push_settles_every_item_witness:
  "push_observations (\<lambda>n chunk. if length chunk > 1 \<or> chunk = [2] then TooLarge else Accepted) [1, 2, 3::nat] =
     (Inr 2, [([1, 2, 3], TooLarge), ([1], Accepted), ([2, 3], TooLarge), ([2], TooLarge), ([3], Accepted)])
   \<and> settled [([1, 2, 3::nat], TooLarge), ([1], Accepted), ([2, 3], TooLarge), ([2], TooLarge), ([3], Accepted)] = [1, 2, 3]"
proof -
  have run: "push_observations (\<lambda>n chunk. if length chunk > 1 \<or> chunk = [2] then TooLarge else Accepted) [1, 2, 3::nat] =
     (Inr 2, [([1, 2, 3], TooLarge), ([1], Accepted), ([2, 3], TooLarge), ([2], TooLarge), ([3], Accepted)])"
    by (simp add: push_observations_def observation_push_chunk_def chunks.simps)
  from push_settles_every_item [OF run] run show ?thesis by blast
qed

section \<open>The pinned keys\<close>

text \<open>What holds of a connected client and its identity file.\<close>

definition client_inv :: "crypto \<Rightarrow> string \<Rightarrow> client \<times> identity_file \<Rightarrow> bool" where
  "client_inv Y agent = (\<lambda>(c, f). build_verifier_set Y (cl_identity c) = Inr (cl_verifiers c) \<and> cl_verifiers c \<noteq> []
     \<and> ci_agent_id (cl_identity c) = agent \<and> (\<exists>i. f = Stored i \<and> ci_agent_id i = agent))"

datatype client_op =
    Refresh "key_bundle client_result" "string option"
  | RotateToken "string \<Rightarrow> int option" int int "agent_credentials client_result" "string option"

fun client_step :: "crypto \<Rightarrow> client_op \<Rightarrow> client \<times> identity_file \<Rightarrow> client \<times> identity_file" where
  "client_step Y (Refresh reply fault) s = snd (refresh_signing_keys Y reply fault s)"
| "client_step Y (RotateToken parse_secs now margin reply fault) s = snd (rotate_if_needed parse_secs now margin reply fault s)"

lemma fetch_signing_bundle_Inr:
  "fetch_signing_bundle reply = Inr b \<longleftrightarrow> reply = Inr b \<and> kb_keys b \<noteq> [] \<and> kb_active_key_id b \<in> pk_key_id ` set (kb_keys b)"
  by (auto simp: fetch_signing_bundle_def elim!: bindE_InrE split: if_splits)

lemma persist_cases:
  assumes "persist_identity fault i f = (r, f')"
  obtains (failed) e where "r = Inl e" "f' = f" | (written) "r = Inr ()" "f' = Stored i"
  using assms by (auto simp: persist_identity_def split: option.splits)

lemma pin_bundle_fields [simp]:
  "ci_agent_id (pin_bundle b i) = ci_agent_id i" "ci_server_pubkeys (pin_bundle b i) = kb_keys b"
  "ci_token (pin_bundle b i) = ci_token i"
  by (simp_all add: pin_bundle_def)

lemma build_nonempty: "build_verifier_set Y (pin_bundle b i) = Inr vs \<Longrightarrow> kb_keys b \<noteq> [] \<Longrightarrow> vs \<noteq> []"
  by (auto simp: build_verifier_set_def dest!: traverse_length elim!: bindE_InrE)

text \<open>A refresh either fails and leaves the client alone, or replaces the pins by the bundle.\<close>

lemma refresh_cases:
  assumes "refresh_signing_keys Y reply fault (c, f) = (r, (c', f'))"
  obtains (failed) e where "r = Inl e" "c' = c" "f' = f \<or> (\<exists>b. f' = Stored (pin_bundle b (cl_identity c)))"
  | (refreshed) b vs where "r = Inr ()" "fetch_signing_bundle reply = Inr b" "check_overlap b (cl_identity c) = Inr ()"
      "build_verifier_set Y (pin_bundle b (cl_identity c)) = Inr vs"
      "c' = c\<lparr>cl_identity := pin_bundle b (cl_identity c), cl_verifiers := vs\<rparr>" "f' = Stored (pin_bundle b (cl_identity c))"
proof (cases "bindE (fetch_signing_bundle reply) (\<lambda>b. bindE (check_overlap b (cl_identity c)) (\<lambda>_. Inr b))")
  case (Inl e)
  with assms show thesis by (intro failed [of e]) (simp_all add: refresh_signing_keys_def bindA_def)
next
  case (Inr b)
  then have b: "fetch_signing_bundle reply = Inr b" "check_overlap b (cl_identity c) = Inr ()" by (auto elim!: bindE_InrE)
  let ?i = "pin_bundle b (cl_identity c)"
  consider e where "fault = Some e" | e where "fault = None" "build_verifier_set Y ?i = Inl e"
    | vs where "fault = None" "build_verifier_set Y ?i = Inr vs"
    by (cases fault; cases "build_verifier_set Y ?i") auto
  then show thesis
  proof cases
    case 1
    with assms Inr show thesis by (intro failed [of e]) (simp_all add: refresh_signing_keys_def bindA_def persist_identity_def)
  next
    case 2
    with assms Inr have "r = Inl e" "c' = c" "f' = Stored ?i"
      by (auto simp: refresh_signing_keys_def bindA_def persist_identity_def)
    then show thesis by (intro failed) auto
  next
    case 3
    with assms Inr show thesis
      by (intro refreshed [OF _ b 3(2)]) (simp_all add: refresh_signing_keys_def bindA_def persist_identity_def)
  qed
qed

lemma rotate_token_cases:
  assumes "rotate_token reply fault (c, f) = (r, (c', f'))"
  obtains (failed) e where "r = Inl e" "c' = c" "f' = f"
  | (rotated) creds where "r = Inr ()" "reply = Inr creds" "f' = Stored (cl_identity c')"
      "c' = c\<lparr>cl_identity := (cl_identity c)\<lparr>ci_token := cr_token creds, ci_token_expires_at := cr_expires_at creds\<rparr>\<rparr>"
proof -
  consider e where "reply = Inl e" | creds e where "reply = Inr creds" "fault = Some e" | creds where "reply = Inr creds" "fault = None"
    by (cases reply; cases fault) auto
  then show thesis
  proof cases
    case 3
    with assms show thesis by (intro rotated [of creds]) (auto simp: rotate_token_def bindA_def persist_identity_def Let_def)
  qed (use assms in \<open>auto intro!: failed simp: rotate_token_def bindA_def persist_identity_def Let_def\<close>)
qed

lemma refresh_inv: "client_inv Y agent (c, f) \<Longrightarrow> refresh_signing_keys Y reply fault (c, f) = (r, (c', f')) \<Longrightarrow> client_inv Y agent (c', f')"
proof (erule refresh_cases, goal_cases)
  case (2 b vs)
  then show ?case using build_nonempty [of Y b "cl_identity c" vs] by (auto simp: client_inv_def fetch_signing_bundle_Inr)
qed (auto simp: client_inv_def)

lemma rotate_token_inv:
  "client_inv Y agent (c, f) \<Longrightarrow> rotate_token reply fault (c, f) = (r, (c', f')) \<Longrightarrow> client_inv Y agent (c', f')"
  by (erule rotate_token_cases) (auto simp: client_inv_def build_verifier_set_def)

lemma rotate_if_needed_inv:
  assumes "client_inv Y agent (c, f)" "rotate_if_needed parse_secs now margin reply fault (c, f) = (r, (c', f'))"
  shows "client_inv Y agent (c', f')"
proof (cases "token_seconds_until_expiry parse_secs now c")
  case (Some remaining)
  show ?thesis
  proof (cases "remaining > margin")
    case False
    then have "bindA (rotate_token reply fault) (\<lambda>_. doing (Some ())) (c, f) = (r, (c', f'))"
      using assms(2) Some by (simp add: rotate_if_needed_def)
    then show ?thesis
      by (cases rule: bindA_cases) (auto intro: rotate_token_inv [OF assms(1)])
  qed (use assms Some in \<open>auto simp: rotate_if_needed_def\<close>)
qed (use assms in \<open>auto simp: rotate_if_needed_def\<close>)

interpretation client_m: machine_invariant "client_step Y" "client_inv Y agent"
proof
  fix s e assume "client_inv Y agent s"
  moreover obtain c f where s: "s = (c, f)" by force
  ultimately have inv: "client_inv Y agent (c, f)" by simp
  show "client_inv Y agent (client_step Y e s)"
  proof (cases e)
    case (Refresh reply fault)
    obtain r c' f' where "refresh_signing_keys Y reply fault (c, f) = (r, (c', f'))" by (metis prod.exhaust)
    with refresh_inv [OF inv this] s Refresh show ?thesis by simp
  next
    case (RotateToken parse_secs now margin reply fault)
    obtain r c' f' where "rotate_if_needed parse_secs now margin reply fault (c, f) = (r, (c', f'))" by (metis prod.exhaust)
    with rotate_if_needed_inv [OF inv this] s RotateToken show ?thesis by simp
  qed
qed

lemma connect_inv:
  assumes "connect_with_tls Y url now enrolled reply fault fault' f = (Inr c, f')"
  shows "client_inv Y (ci_agent_id (cl_identity c)) (c, f')"
proof -
  from assms obtain i b vs where "fetch_signing_bundle reply = Inr b" "build_verifier_set Y (pin_bundle b i) = Inr vs"
    "c = \<lparr>cl_base_url = trim_end_slashes url, cl_identity = pin_bundle b i, cl_verifiers = vs\<rparr>" "f' = Stored (pin_bundle b i)"
    unfolding connect_with_tls_def by (auto elim!: bindA_cases persist_cases)
  then show ?thesis using build_nonempty [of Y b i vs] by (simp add: client_inv_def fetch_signing_bundle_Inr)
qed

text \<open>
  A connected agent stays able to verify and keeps its identity. After connecting and any sequence
  of key refreshes and token rotations, whatever the server answers and whichever write fails, the
  compiled keys are exactly those of the pinned set and there is at least one, and the agent id is the
  same in memory and in the identity file.
\<close>

theorem client_stays_pinned:
  assumes "connect_with_tls Y url now enrolled reply fault fault' f = (Inr c, f1)"
    and "(c', f') = fold (client_step Y) ops (c, f1)"
  shows "build_verifier_set Y (cl_identity c') = Inr (cl_verifiers c') \<and> cl_verifiers c' \<noteq> []
    \<and> ci_agent_id (cl_identity c') = ci_agent_id (cl_identity c)
    \<and> (\<exists>i. f' = Stored i \<and> ci_agent_id i = ci_agent_id (cl_identity c))"
  using client_m.inv_run [OF connect_inv [OF assms(1)], of ops] assms(2) by (simp add: client_inv_def split: prod.splits)

text \<open>A pinned id that the new set still has keeps its key. The overlap is not evidence of the server's
  identity, though: public keys are public, and a bundle made of the pinned ones and a foreign one is
  accepted.\<close>

lemma overlap_keeps_keys:
  assumes "check_overlap b i = Inr ()"
  shows "\<exists>p \<in> set (ci_server_pubkeys i). map_of (key_map (kb_keys b)) (pk_key_id p) = Some (pk_public_key p)"
    and "p \<in> set (ci_server_pubkeys i) \<Longrightarrow> map_of (key_map (kb_keys b)) (pk_key_id p) \<in> {None, Some (pk_public_key p)}"
proof -
  have *: "map_of (key_map (kb_keys b)) (pk_key_id p) \<in> {None, Some (pk_public_key p)}" if "p \<in> set (ci_server_pubkeys i)" for p
    using assms that by (auto simp: check_overlap_def list_ex_iff split: if_splits option.splits)
  then show "p \<in> set (ci_server_pubkeys i) \<Longrightarrow> map_of (key_map (kb_keys b)) (pk_key_id p) \<in> {None, Some (pk_public_key p)}" .
  from assms obtain p k where p: "p \<in> set (ci_server_pubkeys i)" "k \<in> set (kb_keys b)" "pk_key_id k = pk_key_id p"
    by (auto simp: check_overlap_def split: if_splits)
  from this have "map_of (key_map (kb_keys b)) (pk_key_id p) \<noteq> None"
    by (metis (mono_tags, lifting) fst_conv image_eqI key_map_def map_of_eq_None_iff list.set_map set_rev)
  with * [OF p(1)] p(1) show "\<exists>p \<in> set (ci_server_pubkeys i). map_of (key_map (kb_keys b)) (pk_key_id p) = Some (pk_public_key p)"
    by auto
qed

lemma foreign_key_admitted:
  assumes "distinct (map pk_key_id (ci_server_pubkeys i))" "ci_server_pubkeys i \<noteq> []" "pk_key_id foreign \<notin> pk_key_id ` set (ci_server_pubkeys i)"
  shows "check_overlap \<lparr>kb_active_key_id = pk_key_id foreign, kb_keys = ci_server_pubkeys i @ [foreign]\<rparr> i = Inr ()"
proof -
  have "map_of (key_map (ci_server_pubkeys i @ [foreign])) (pk_key_id p) = Some (pk_public_key p)" if "p \<in> set (ci_server_pubkeys i)" for p
  proof -
    have "distinct (map fst (rev (map (\<lambda>k. (pk_key_id k, pk_public_key k)) (ci_server_pubkeys i))))"
      using assms(1) by (simp add: rev_map [symmetric] comp_def)
    moreover have "pk_key_id p \<noteq> pk_key_id foreign" using that assms(3) by (metis imageI)
    ultimately show ?thesis using that by (auto simp: key_map_def intro!: map_of_is_SomeI)
  qed
  then show ?thesis using assms(2) by (auto simp: check_overlap_def list_ex_iff neq_Nil_conv)
qed

section \<open>What is accepted was issued\<close>

text \<open>Every line of the message ends in a line break, so a message has as many lines as the issued ones
  only when no field of it hides a break.\<close>

lemma message_breaks:
  "count_list (canonical_assignment_message Y a i p c e x) (CHR 0x0A) =
     7 + (count_list a (CHR 0x0A) + count_list i (CHR 0x0A) + count_list p (CHR 0x0A) + count_list c (CHR 0x0A)
          + count_list e (CHR 0x0A) + count_list (cy_sha256_hex Y x) (CHR 0x0A))"
  by (simp add: canonical_assignment_message_def line_def)

lemma plain_line_count: "plain_line s \<longleftrightarrow> count_list s (CHR 0x0A) = 0"
  by (simp add: plain_line_def count_list_0_iff)

lemma message_fields:
  assumes "canonical_assignment_message Y a i p c e x = canonical_assignment_message Y a' i' p' c' e' x'"
    and "list_all plain_line [a', i', p', c', e', cy_sha256_hex Y x']"
  shows "a = a' \<and> i = i' \<and> p = p' \<and> c = c' \<and> e = e' \<and> cy_sha256_hex Y x = cy_sha256_hex Y x'"
proof -
  have "list_all plain_line [a, i, p, c, e, cy_sha256_hex Y x]"
    using assms(2) arg_cong [OF assms(1), of "\<lambda>m. count_list m (CHR 0x0A)"] by (simp add: message_breaks plain_line_count)
  with assms line_inject [of "cy_sha256_hex Y x" "cy_sha256_hex Y x'" "[]" "[]"] show ?thesis
    by (simp add: canonical_assignment_message_def line_inject)
qed

text \<open>What was handed to the signer: agent, assignment, operation, creation, expiry and payload text.\<close>

type_synonym issue = "string \<times> string \<times> string \<times> string \<times> string \<times> string"

definition issue_message :: "crypto \<Rightarrow> issue \<Rightarrow> string" where
  "issue_message Y = (\<lambda>(a, i, p, c, e, x). canonical_assignment_message Y a i p c e x)"

definition issue_plain :: "crypto \<Rightarrow> issue \<Rightarrow> bool" where
  "issue_plain Y = (\<lambda>(a, i, p, c, e, x). list_all plain_line [a, i, p, c, e, cy_sha256_hex Y x])"

definition expiry_text :: "envelope \<Rightarrow> string" where
  "expiry_text env = (case en_expires_at env of Some e \<Rightarrow> e | None \<Rightarrow> [])"

definition envelope_message :: "crypto \<Rightarrow> serde \<Rightarrow> string \<Rightarrow> envelope \<Rightarrow> string" where
  "envelope_message Y J agent env = canonical_assignment_message Y agent (en_assignment_id env) (en_operation_id env)
     (en_created_at env) (expiry_text env) (payload_json J (en_payload env))"

text \<open>The two time checks of the verification, and the verification as a conjunction.\<close>

definition fresh_enough :: "agent_host \<Rightarrow> envelope \<Rightarrow> bool" where
  "fresh_enough H env \<longleftrightarrow>
     (\<forall>max_age. max_envelope_age_secs (ah_var H) = Some max_age \<longrightarrow>
        (\<exists>t. ah_parse_secs H (en_created_at env) = Some t \<and> saturating_sub (ah_now H) t \<le> sint max_age
             \<and> - future_grace_secs \<le> saturating_sub (ah_now H) t))
     \<and> (\<forall>text. en_expires_at env = Some text \<longrightarrow>
          (\<exists>t. ah_parse_secs H text = Some t \<and> saturating_sub (ah_now H) t \<le> future_grace_secs))"

lemma verify_envelope_iff:
  "verify_envelope Y H c env = Inr () \<longleftrightarrow>
     (\<exists>key sig. map_of (cl_verifiers c) (en_key_id env) = Some key \<and> fresh_enough H env
        \<and> cy_decode Y (en_signature env) = Some sig \<and> length sig = 64
        \<and> cy_verify Y key (envelope_message Y (ah_serde H) (ci_agent_id (cl_identity c)) env) sig)"
proof -
  have fresh: "(case max_envelope_age_secs (ah_var H) of
      Some max_age \<Rightarrow> check_envelope_freshness (ah_parse_secs H) (ah_now H) (en_created_at env) max_age future_grace_secs
    | None \<Rightarrow> Inr ()) = Inr () \<and> check_expiry (ah_parse_secs H) (ah_now H) (en_expires_at env) = Inr () \<longleftrightarrow> fresh_enough H env"
    by (auto simp: fresh_enough_def check_envelope_freshness_def check_expiry_def Let_def not_less split: option.splits)
  show ?thesis
    unfolding fresh [symmetric] verify_envelope_def envelope_message_def expiry_text_def
    by (auto simp: bindE_Inr_iff Let_def ok_or_Inr_iff split: if_splits)
qed

lemma saturating_bounds:
  "- future_grace_secs \<le> saturating_sub now t \<longleftrightarrow> t \<le> now + 300"
  "m < 2 ^ 63 - 1 \<Longrightarrow> - (2 ^ 63) \<le> m \<Longrightarrow> saturating_sub now t \<le> m \<longleftrightarrow> now - m \<le> t"
  by (auto simp: saturating_sub_def future_grace_secs_def max_def min_def)

text \<open>
  C4. What the agent executes was issued for it by the server, and recently. Take an envelope the agent
  accepts, and suppose that its signature is no forgery (if it verifies under a pinned key, its message is
  one the server signed) and that its payload does not collide under the digest with another issued
  payload. Then the server issued it for this very agent, with the same assignment, operation, creation time,
  expiry and payload, whatever bytes the envelope is made of; and it was created no longer ago than
  the age limit and at most five minutes in the future. The kind and the key id of an envelope are not signed.
\<close>

theorem accepted_was_issued:
  assumes "fetch_assignments Y H c reply = Inr items" "env \<in> set items"
    and genuine: "\<And>key sig. key \<in> snd ` set (cl_verifiers c) \<Longrightarrow> cy_decode Y (en_signature env) = Some sig
      \<Longrightarrow> cy_verify Y key (envelope_message Y (ah_serde H) (ci_agent_id (cl_identity c)) env) sig
      \<Longrightarrow> envelope_message Y (ah_serde H) (ci_agent_id (cl_identity c)) env \<in> issue_message Y ` issued"
    and collision: "\<And>a i p cr e x. (a, i, p, cr, e, x) \<in> issued
      \<Longrightarrow> cy_sha256_hex Y x = cy_sha256_hex Y (payload_json (ah_serde H) (en_payload env)) \<Longrightarrow> x = payload_json (ah_serde H) (en_payload env)"
    and plain: "\<forall>x \<in> issued. issue_plain Y x"
    and age: "max_envelope_age_secs (ah_var H) = Some max_age" "sint max_age < 2 ^ 63 - 1"
  shows "(ci_agent_id (cl_identity c), en_assignment_id env, en_operation_id env, en_created_at env, expiry_text env,
        payload_json (ah_serde H) (en_payload env)) \<in> issued
    \<and> (\<exists>t. ah_parse_secs H (en_created_at env) = Some t \<and> ah_now H - sint max_age \<le> t \<and> t \<le> ah_now H + 300)"
proof
  obtain us where us: "traverse (verify_envelope Y H c) items = Inr us"
    using assms(1) by (auto simp: fetch_assignments_def elim!: bindE_InrE)
  obtain n where n: "n < length items" "env = items ! n" using assms(2) by (auto simp: in_set_conv_nth)
  from traverse_nth [OF us n(1)] have "verify_envelope Y H c env = Inr ()" by (simp add: n(2))
  then obtain key sig where key: "map_of (cl_verifiers c) (en_key_id env) = Some key" and fresh: "fresh_enough H env"
    and sig: "cy_decode Y (en_signature env) = Some sig"
      "cy_verify Y key (envelope_message Y (ah_serde H) (ci_agent_id (cl_identity c)) env) sig"
    by (auto simp: verify_envelope_iff)
  have "key \<in> snd ` set (cl_verifiers c)" using map_of_SomeD [OF key] by (metis image_eqI snd_conv)
  from genuine [OF this sig] obtain x where x: "x \<in> issued" "envelope_message Y (ah_serde H) (ci_agent_id (cl_identity c)) env = issue_message Y x"
    by blast
  obtain a i p cr e payload where xs: "x = (a, i, p, cr, e, payload)" by (cases x) auto
  from x plain have "list_all plain_line [a, i, p, cr, e, cy_sha256_hex Y payload]" by (auto simp: xs issue_plain_def)
  from message_fields [OF x(2) [unfolded envelope_message_def xs issue_message_def prod.case] this] x(1) collision [OF x(1) [unfolded xs]]
  show "(ci_agent_id (cl_identity c), en_assignment_id env, en_operation_id env, en_created_at env, expiry_text env,
        payload_json (ah_serde H) (en_payload env)) \<in> issued"
    by (auto simp: xs)
  have "- (2 ^ 63) \<le> sint max_age" using sint_ge [of max_age] by simp
  with fresh age saturating_bounds show "\<exists>t. ah_parse_secs H (en_created_at env) = Some t \<and> ah_now H - sint max_age \<le> t \<and> t \<le> ah_now H + 300"
    by (auto simp: fresh_enough_def)
qed

section \<open>Samples\<close>

text \<open>A toy scheme with 32-byte keys and 64-byte signatures, in which the messages of a given list and no
  others verify.\<close>

definition toy_scheme :: "string list \<Rightarrow> crypto" where
  "toy_scheme msgs = \<lparr>cy_public = (\<lambda>k. k), cy_sign = (\<lambda>k m. replicate 64 CHR ''s''), cy_verify = (\<lambda>k m s. m \<in> set msgs), cy_parse_public = (\<lambda>k. True),
     cy_encode = (\<lambda>s. s), cy_decode = Some, cy_sha256_hex = (\<lambda>s. show_nat (length s))\<rparr>"

definition toy_key :: server_pubkey where
  "toy_key = \<lparr>pk_key_id = ''k1'', pk_public_key = replicate 32 CHR ''a''\<rparr>"

definition toy_bundle :: key_bundle where
  "toy_bundle = \<lparr>kb_active_key_id = ''k1'', kb_keys = [toy_key]\<rparr>"

definition toy_credentials :: agent_credentials where
  "toy_credentials = \<lparr>cr_agent_id = ''a1'', cr_token = ''t'', cr_expires_at = None\<rparr>"

definition toy_client :: client where
  "toy_client = \<lparr>cl_base_url = ''u'', cl_identity = pin_bundle toy_bundle (new_identity ''u'' ''now'' toy_credentials),
     cl_verifiers = [(''k1'', replicate 32 CHR ''a'')]\<rparr>"

lemmas toy_defs = toy_scheme_def toy_key_def toy_bundle_def toy_credentials_def toy_client_def

lemma toy_connect:
  "connect_with_tls (toy_scheme ms) ''u'' ''now'' (Inr toy_credentials) (Inr toy_bundle) None None Missing =
     (Inr toy_client, Stored (cl_identity toy_client))"
  by (simp add: connect_with_tls_def load_identity_def fetch_signing_bundle_def persist_identity_def new_identity_def pin_bundle_def
      build_verifier_set_def verifier_of_def bindA_def trim_end_slashes_def toy_defs)

theorem client_stays_pinned_witness:
  "\<exists>c' f'. (c', f') = fold (client_step (toy_scheme [])) [Refresh (Inr toy_bundle) (Some ''disk full''), Refresh (Inl ''offline'') None]
       (toy_client, Stored (cl_identity toy_client)) \<and> cl_verifiers c' \<noteq> [] \<and> ci_agent_id (cl_identity c') = ''a1''"
proof -
  obtain c' f' where run: "(c', f') = fold (client_step (toy_scheme [])) [Refresh (Inr toy_bundle) (Some ''disk full''), Refresh (Inl ''offline'') None]
       (toy_client, Stored (cl_identity toy_client))" by (metis surj_pair)
  from client_stays_pinned [OF toy_connect run] run show ?thesis
    by (auto simp: toy_client_def toy_bundle_def new_identity_def toy_credentials_def)
qed

definition toy_host :: agent_host where
  "toy_host = \<lparr>ah_parse_secs = (\<lambda>s. if s = ''t0'' then Some 100 else None), ah_now = 200, ah_var = (\<lambda>_. None),
     ah_serde = \<lparr>from_str = (\<lambda>_. None), to_str = (\<lambda>_. ''{}'')\<rparr>\<rparr>"

definition toy_issue :: issue where
  "toy_issue = (''a1'', ''s1'', ''op1'', ''t0'', [], ''{}'')"

definition toy_envelope :: envelope where
  "toy_envelope = \<lparr>en_assignment_id = ''s1'', en_operation_id = ''op1'', en_kind = ''apply'', en_created_at = ''t0'', en_expires_at = None,
     en_payload = [], en_key_id = ''k1'', en_signature = replicate 64 CHR ''s''\<rparr>"

definition toy_server :: crypto where
  "toy_server = toy_scheme [issue_message (toy_scheme []) toy_issue]"

lemma toy_issue_message: "issue_message toy_server toy_issue = issue_message (toy_scheme []) toy_issue"
  by (simp add: issue_message_def toy_issue_def canonical_assignment_message_def toy_server_def toy_scheme_def)

lemma toy_fetch: "fetch_assignments toy_server toy_host toy_client (Inr [toy_envelope]) = Inr [toy_envelope]"
proof -
  have "envelope_message toy_server (ah_serde toy_host) ''a1'' toy_envelope = issue_message (toy_scheme []) toy_issue"
    by (simp add: envelope_message_def issue_message_def toy_issue_def toy_envelope_def toy_host_def payload_json_def expiry_text_def
        canonical_assignment_message_def toy_server_def toy_scheme_def)
  then have "verify_envelope toy_server toy_host toy_client toy_envelope = Inr ()"
    unfolding verify_envelope_iff
    by (simp add: fresh_enough_def max_envelope_age_secs_def toy_host_def toy_envelope_def saturating_sub_def future_grace_secs_def
        toy_server_def toy_client_def toy_credentials_def new_identity_def) (simp add: toy_scheme_def)
  then show ?thesis by (simp add: fetch_assignments_def)
qed

text \<open>A scheme in which a signature is the key, the length of the message and its first bytes, and verifies for
  the message it was made of only.\<close>

definition keyed_scheme :: crypto where
  "keyed_scheme = (toy_scheme [])\<lparr>cy_sign := (\<lambda>k m. take 64 (k @ show_nat (length m) @ m)),
     cy_verify := (\<lambda>k m s. s = take 64 (k @ show_nat (length m) @ m))\<rparr>"

definition keyed_envelope :: envelope where
  "keyed_envelope = toy_envelope\<lparr>en_signature := cy_sign keyed_scheme (replicate 32 CHR ''a'') (issue_message keyed_scheme toy_issue)\<rparr>"

lemma keyed_message: "envelope_message keyed_scheme (ah_serde toy_host) ''a1'' keyed_envelope = issue_message keyed_scheme toy_issue"
  by (simp add: envelope_message_def issue_message_def toy_issue_def keyed_envelope_def toy_envelope_def toy_host_def payload_json_def
      expiry_text_def canonical_assignment_message_def keyed_scheme_def toy_scheme_def)

lemma keyed_fetch: "fetch_assignments keyed_scheme toy_host toy_client (Inr [keyed_envelope]) = Inr [keyed_envelope]"
proof -
  have len: "length (take 64 (replicate 32 CHR ''a'' @ show_nat (length m) @ m)) = 64" if "32 \<le> length m" for m :: string
    using that by (cases m) (auto simp: min_def)
  have "32 \<le> length (issue_message keyed_scheme toy_issue)" by code_simp
  with len keyed_message have "verify_envelope keyed_scheme toy_host toy_client keyed_envelope = Inr ()"
    unfolding verify_envelope_iff
    by (simp add: fresh_enough_def max_envelope_age_secs_def toy_client_def toy_credentials_def new_identity_def)
      (simp add: keyed_envelope_def keyed_scheme_def toy_scheme_def toy_host_def toy_envelope_def saturating_sub_def future_grace_secs_def)
  then show ?thesis by (simp add: fetch_assignments_def)
qed

theorem accepted_was_issued_witness:
  "fetch_assignments keyed_scheme toy_host toy_client (Inr [keyed_envelope]) = Inr [keyed_envelope]
    \<and> (''a1'', ''s1'', ''op1'', ''t0'', [], ''{}'') \<in> {toy_issue} \<and> (\<exists>t. ah_parse_secs toy_host ''t0'' = Some t \<and> t \<le> ah_now toy_host + 300)"
proof -
  have digit: "show_nat (Suc (Suc 0)) = ''2''" by code_simp
  have agent: "ci_agent_id (cl_identity toy_client) = ''a1''" by (simp add: toy_client_def toy_credentials_def new_identity_def)
  have pj: "payload_json (ah_serde toy_host) (en_payload keyed_envelope) = ''{}''"
    by (simp add: payload_json_def toy_host_def)
  have b: "\<forall>x \<in> {toy_issue}. issue_plain keyed_scheme x"
    by (simp add: issue_plain_def toy_issue_def keyed_scheme_def toy_scheme_def plain_line_def digit)
  have c: "max_envelope_age_secs (ah_var toy_host) = Some 86400" by (simp add: max_envelope_age_secs_def toy_host_def)
  from accepted_was_issued [OF keyed_fetch list.set_intros(1), of "{toy_issue}" 86400] b c keyed_fetch keyed_message show ?thesis
    by (simp add: agent pj) (auto simp: toy_issue_def keyed_envelope_def toy_envelope_def expiry_text_def)
qed

end
