(* ===== verification/Agent_Api.thy ===== *)
theory Agent_Api
  imports Operation_Api Client_Ip Agent_Client
begin

text \<open>
  The handlers agents call (\<open>api/agents.rs\<close>) and the key endpoints (\<open>api/signing.rs\<close>). A request of an
  agent is authenticated by its bearer token, then counted by the rate limiter. Assignments are claimed
  in the database, their secrets are resolved in memory, and the result is signed; when that fails the
  claims are taken back. The signer is read once for the signature and once for the key id of every
  envelope, so its readings are given as a sequence.
\<close>

section \<open>Registration, tokens and reports\<close>

definition agent_auth :: "surroundings \<Rightarrow> string \<Rightarrow> string \<Rightarrow> agent_record handler" where
  "agent_auth S agent_id token =
     reading (authenticate (ce_hash (se_call S)) (\<lambda>t. case ca_parse (se_calendar S) t of Inr x \<Rightarrow> Some x | Inl _ \<Rightarrow> None) (se_clock S) agent_id token)"

definition enrollment_gate :: "surroundings \<Rightarrow> string option \<Rightarrow> unit api_result" where
  "enrollment_gate S header =
     (case cf_agent_enrollment_token (se_config' S) of
        Some expected \<Rightarrow>
          if expected \<noteq> [] \<and> \<not> ct_eq (case header of Some h \<Rightarrow> h | None \<Rightarrow> []) expected then Inl Unauthorized else Inr ()
      | None \<Rightarrow> Inr ())"

definition register_handler :: "surroundings \<Rightarrow> string \<Rightarrow> string list \<Rightarrow> string option \<Rightarrow> register_request \<Rightarrow> string \<Rightarrow> string
    \<Rightarrow> agent_credentials handler" where
  "register_handler S socket_ip forwarded header req ulid fresh_token =
     (let client_ip = effective_client_ip (se_parse_ip S) forwarded socket_ip (cf_trusted_proxies (se_config S)) in
      bindA (limited (check_and_record_register client_ip (se_instant S))) (\<lambda>_.
      bindA (from_result (enrollment_gate S header)) (\<lambda>_.
        on_db (register_agent (se_call S) ulid fresh_token req (cf_agent_token_ttl_secs (se_config' S))))))"

definition rotate_token_handler :: "surroundings \<Rightarrow> string \<Rightarrow> string \<Rightarrow> string \<Rightarrow> agent_credentials handler" where
  "rotate_token_handler S agent_id token fresh_token =
     bindA (agent_auth S agent_id token) (\<lambda>_.
       on_db (rotate_agent_token (se_call' S) fresh_token agent_id (cf_agent_token_ttl_secs (se_config S))))"

definition heartbeat_handler :: "surroundings \<Rightarrow> string \<Rightarrow> string \<Rightarrow> heartbeat_request \<Rightarrow> unit handler" where
  "heartbeat_handler S agent_id token req =
     bindA (agent_auth S agent_id token) (\<lambda>_.
     bindA (limited (check_and_record_agent agent_id (se_instant S))) (\<lambda>_.
       on_db (record_heartbeat (se_call S) agent_id req)))"

text \<open>The guard of both reports: every item belongs to the environment of the agent.\<close>

definition same_environment :: "string \<Rightarrow> ('i \<Rightarrow> resource_id) \<Rightarrow> 'i list \<Rightarrow> agent_record \<Rightarrow> unit api_result" where
  "same_environment what rid items rec =
     (case find (\<lambda>item. ri_environment (rid item) \<noteq> ar_environment rec) items of
        Some item \<Rightarrow> Inl (BadRequest (Msg (what @ '' resource_id env {:?} does not match agent env {:?}'')
                            [ri_environment (rid item), ar_environment rec]))
      | None \<Rightarrow> Inr ())"

definition observations_handler :: "surroundings \<Rightarrow> string \<Rightarrow> string \<Rightarrow> observation_item list \<Rightarrow> nat handler" where
  "observations_handler S agent_id token items =
     bindA (agent_auth S agent_id token) (\<lambda>rec.
     bindA (limited (check_and_record_agent agent_id (se_instant S))) (\<lambda>_.
     bindA (from_result (same_environment ''observation'' oi_resource_id items rec)) (\<lambda>_.
       on_db (record_observations (se_call S) agent_id items))))"

definition drift_handler :: "surroundings \<Rightarrow> string \<Rightarrow> string \<Rightarrow> drift_item list \<Rightarrow> nat handler" where
  "drift_handler S agent_id token items =
     bindA (agent_auth S agent_id token) (\<lambda>rec.
     bindA (limited (check_and_record_agent agent_id (se_instant S))) (\<lambda>_.
     bindA (from_result (same_environment ''drift'' di_resource_id items rec)) (\<lambda>_.
     bindA (on_db (record_drift (se_call S) agent_id items)) (\<lambda>n.
     bindA (on_db (close_drift_not_in (se_call' S) agent_id (map (resource_id_to_string \<circ> di_resource_id) items))) (\<lambda>_.
       doing n)))))"

definition list_agents_handler :: "surroundings \<Rightarrow> string \<Rightarrow> agent_summary list handler" where
  "list_agents_handler S token = bindA (authorize S token Viewer) (\<lambda>_. reading (\<lambda>d. Inr (list_agents d)))"

section \<open>Assignments\<close>

definition secret_fields_annotation :: string where
  "secret_fields_annotation = ''iac.dev/secret-fields''"

fun join_with :: "string \<Rightarrow> string list \<Rightarrow> string" where
  "join_with sep [] = []"
| "join_with sep [s] = s"
| "join_with sep (s # ss) = s @ sep @ join_with sep ss"

definition tag_secret_fields :: "string list \<Rightarrow> json \<Rightarrow> json" where
  "tag_secret_fields ptrs resource =
     (if ptrs = [] then resource
      else
        let annotations = (case jpath resource [''metadata'', ''annotations''] of Some (JObj m) \<Rightarrow> m | _ \<Rightarrow> []);
            tagged = jset secret_fields_annotation (JStr (join_with '','' ptrs)) annotations
        in case resource of
             JObj m \<Rightarrow> (case map_of m ''metadata'' of
                 Some (JObj meta) \<Rightarrow> JObj (jset ''metadata'' (JObj (jset ''annotations'' (JObj tagged) meta)) m)
               | _ \<Rightarrow> resource)
           | _ \<Rightarrow> resource)"

definition resolve_resource :: "secret_host \<Rightarrow> secret_registry option \<Rightarrow> json \<Rightarrow> json api_result" where
  "resolve_resource H registry resource =
     (case registry of
        None \<Rightarrow> Inr resource
      | Some reg \<Rightarrow> bindE (substitute_with_pointers H reg resource) (\<lambda>(v, _, ptrs). Inr (tag_secret_fields ptrs v)))"

definition signing_failed :: "'a signer_result \<Rightarrow> 'a api_result" where
  "signing_failed r = (case r of Inl e \<Rightarrow> Inl (Internal (Msg ''signing failed: {e}'' [e])) | Inr x \<Rightarrow> Inr x)"

definition seal_envelope :: "surroundings \<Rightarrow> crypto \<Rightarrow> signer_state \<Rightarrow> signer_state \<Rightarrow> string \<Rightarrow> envelope \<Rightarrow> envelope api_result" where
  "seal_envelope S Y signer signer' agent_id env =
     bindE (traverse (resolve_resource (se_secrets S) (se_registry S)) (en_payload env)) (\<lambda>resources.
     bindE (signing_failed (sign_assignment Y signer agent_id (en_assignment_id env) (en_operation_id env) (en_created_at env)
              (expiry_text env) (payload_json (ce_serde (se_call S)) resources))) (\<lambda>signature.
       Inr (env\<lparr>en_payload := resources, en_signature := signature, en_key_id := ss_active signer'\<rparr>)))"

fun seal_all :: "surroundings \<Rightarrow> crypto \<Rightarrow> (nat \<Rightarrow> signer_state) \<Rightarrow> nat \<Rightarrow> string \<Rightarrow> envelope list \<Rightarrow> envelope list api_result" where
  "seal_all S Y signers n agent_id [] = Inr []"
| "seal_all S Y signers n agent_id (env # envs) =
     bindE (seal_envelope S Y (signers n) (signers (n + 1)) agent_id env) (\<lambda>sealed.
     bindE (seal_all S Y signers (n + 2) agent_id envs) (\<lambda>rest. Inr (sealed # rest)))"

definition list_assignments :: "surroundings \<Rightarrow> crypto \<Rightarrow> (nat \<Rightarrow> signer_state) \<Rightarrow> string \<Rightarrow> string \<Rightarrow> envelope list handler" where
  "list_assignments S Y signers agent_id token =
     bindA (agent_auth S agent_id token) (\<lambda>_.
     bindA (on_db (fetch_pending_assignments (se_call S) agent_id)) (\<lambda>items.
       case seal_all S Y signers 0 agent_id items of
         Inr sealed \<Rightarrow> doing sealed
       | Inl e \<Rightarrow> bindA (attempt (on_db (revert_assignment_claims (se_call S) (map en_assignment_id items)))) (\<lambda>_. failing e)))"

definition assignment_result :: "surroundings \<Rightarrow> string \<Rightarrow> string \<Rightarrow> string \<Rightarrow> result_request \<Rightarrow> unit handler" where
  "assignment_result S agent_id token assignment_id req =
     bindA (agent_auth S agent_id token) (\<lambda>_. on_db (complete_assignment (se_call S) agent_id assignment_id req))"

definition desired_state :: "surroundings \<Rightarrow> string \<Rightarrow> string \<Rightarrow> desired_state_item list handler" where
  "desired_state S agent_id token =
     bindA (agent_auth S agent_id token) (\<lambda>_. reading (list_desired_state_for_agent (ce_serde (se_call S)) agent_id))"

section \<open>The published keys\<close>

definition pubkey :: "crypto \<Rightarrow> signer_state \<Rightarrow> signer_state \<Rightarrow> server_pubkey api_result" where
  "pubkey Y signer signer' =
     (case public_key_b64 Y signer of
        Inl e \<Rightarrow> Inl (Internal (Msg ''signer state inconsistent: {e}'' [e]))
      | Inr k \<Rightarrow> Inr \<lparr>pk_key_id = ss_active signer', pk_public_key = k\<rparr>)"

definition pubkey_bundle :: "crypto \<Rightarrow> signer_state \<Rightarrow> signer_state \<Rightarrow> key_bundle" where
  "pubkey_bundle Y signer signer' =
     \<lparr>kb_active_key_id = ss_active signer, kb_keys = map (\<lambda>(i, k). \<lparr>pk_key_id = i, pk_public_key = k\<rparr>) (pubkeys Y signer')\<rparr>"

section \<open>Reports stay in the environment of the agent\<close>

lemma agent_auth_row:
  assumes "agent_auth S agent_id token s = (Inr rec, s')"
  shows "s' = s \<and> (\<exists>a \<in> set (db_agents (app_db s)). ag_id a = agent_id \<and> ag_environment a = ar_environment rec)"
  using assms by (auto simp: agent_auth_def authenticate_def find_Some_iff split: option.splits if_splits)

lemma db_idle_agent_auth [intro]: "db_idle (agent_auth S agent_id token)"
  unfolding agent_auth_def by (rule db_idle_reading)

lemma same_environment_Inr: "same_environment what rid items rec = Inr () \<longleftrightarrow> (\<forall>item \<in> set items. ri_environment (rid item) = ar_environment rec)"
  by (auto simp: same_environment_def find_None_iff find_Some_iff split: option.splits)

lemma observation_rows_agent: "x \<in> set (observation_rows E agent_id seq items) \<Longrightarrow> ob_agent_id x = agent_id"
  by (induction items arbitrary: seq) (auto simp: observation_of_def)

lemma record_observations_rows:
  assumes "record_observations E agent_id items d = Inr (d', n)"
  shows "\<exists>new. db_observations d' = db_observations d @ new \<and> length new = length items \<and> (\<forall>x \<in> set new. ob_agent_id x = agent_id)"
proof (cases "items = []")
  case False
  have len: "length (observation_rows E agent_id seq items) = length items" for seq by (induction items arbitrary: seq) auto
  have k: "concat (chunks batch_size items) = items" by (simp add: concat_chunks batch_size_def)
  have mem: "agent_id \<in> ag_id ` set (db_agents d)"
  proof (rule ccontr)
    assume no: "agent_id \<notin> ag_id ` set (db_agents d)"
    have "chunks batch_size items \<noteq> []" using k False by auto
    then obtain c cs where "chunks batch_size items = c # cs" by (meson neq_Nil_conv)
    with assms False no show False by (simp add: record_observations_def insert_observations_def)
  qed
  have "db_observations d' = db_observations d @ observation_rows E agent_id (db_observations_seq d) items"
    using assms False mem k insert_chunks_concat [OF mem, of E "chunks batch_size items"]
    by (auto simp: record_observations_def insert_observations_def)
  then show ?thesis using len observation_rows_agent by blast
qed (use assms in \<open>simp add: record_observations_def\<close>)

lemma report_cases:
  assumes "bindA (agent_auth S agent_id token) (\<lambda>rec. bindA (limited f) (\<lambda>_ :: unit.
      bindA (from_result (same_environment what rid items rec)) (\<lambda>_. h))) s = (r, s')"
  obtains (refused) e where "r = Inl e" "app_db s' = app_db s"
  | (passed) rec s1 where "agent_auth S agent_id token s = (Inr rec, s)" "same_environment what rid items rec = Inr ()"
      "app_db s1 = app_db s" "h s1 = (r, s')"
  using assms
proof (cases rule: bindA_cases)
  case (fails e)
  then show thesis using refused by (simp add: agent_auth_def)
next
  case (passes rec s0)
  then have s0: "s0 = s" by (simp add: agent_auth_def)
  from passes(2) show thesis
  proof (cases rule: bindA_cases)
    case (fails e)
    then show thesis using refused limited_db s0 by blast
  next
    case (passes u s1)
    then have "app_db s1 = app_db s" using limited_db s0 by blast
    with passes(2) show thesis
      using \<open>agent_auth S agent_id token s = (Inr rec, s0)\<close> s0 refused passed
      by (cases "same_environment what rid items rec") (auto simp: bindA_def)
  qed
qed

text \<open>A drift report touches no row of another agent.\<close>

lemma record_drift_others:
  "record_drift_loop E agent_id items n d = Inr (d', m) \<Longrightarrow>
     filter (\<lambda>r. dr_agent_id r \<noteq> agent_id) (db_drift d') = filter (\<lambda>r. dr_agent_id r \<noteq> agent_id) (db_drift d)"
proof (induction items arbitrary: n d)
  case (Cons item items)
  then obtain d1 where d1: "record_drift_item E agent_id item d = Inr d1" "record_drift_loop E agent_id items (n + 1) d1 = Inr (d', m)"
    by (auto elim!: bindE_InrE)
  from d1(1) have "filter (\<lambda>r. dr_agent_id r \<noteq> agent_id) (db_drift d1) = filter (\<lambda>r. dr_agent_id r \<noteq> agent_id) (db_drift d)"
    by (cases rule: record_drift_item_cases)
       (auto simp: new_drift_row_def drift_of_def refresh_row_def intro!: filter_update_where_other)
  with Cons.IH [OF d1(2)] show ?case by simp
qed simp

lemma observations_in_environment:
  assumes "observations_handler S agent_id token items s = (r, s')"
  shows "(\<exists>e. r = Inl e) \<and> app_db s' = app_db s
    \<or> (\<exists>a \<in> set (db_agents (app_db s)). ag_id a = agent_id \<and> (\<forall>i \<in> set items. ri_environment (oi_resource_id i) = ag_environment a))
      \<and> (\<exists>new. db_observations (app_db s') = db_observations (app_db s) @ new \<and> length new = length items \<and> (\<forall>x \<in> set new. ob_agent_id x = agent_id))"
  using assms [unfolded observations_handler_def]
proof (cases rule: report_cases)
  case (passed rec s1)
  then show ?thesis
  proof (cases r)
    case (Inr n)
    with passed have "record_observations (se_call S) agent_id items (app_db s) = Inr (app_db s', n)" by (auto simp: on_db_Inr)
    from record_observations_rows [OF this] agent_auth_row [OF passed(1)] passed(2) show ?thesis by (auto simp: same_environment_Inr)
  qed (auto simp: on_db_Inl)
qed auto

lemma drift_in_environment:
  assumes "drift_handler S agent_id token reports t = (q, t')"
  shows "(\<exists>e. q = Inl e) \<and> app_db t' = app_db t
    \<or> (\<exists>a \<in> set (db_agents (app_db t)). ag_id a = agent_id \<and> (\<forall>i \<in> set reports. ri_environment (di_resource_id i) = ag_environment a))
      \<and> filter (\<lambda>x. dr_agent_id x \<noteq> agent_id) (db_drift (app_db t')) = filter (\<lambda>x. dr_agent_id x \<noteq> agent_id) (db_drift (app_db t))"
  using assms [unfolded drift_handler_def]
proof (cases rule: report_cases)
  case (passed rec s1)
  from passed(4) show ?thesis
  proof (cases rule: bindA_cases)
    case (fails e)
    then show ?thesis using passed(3) by (auto simp: on_db_Inl)
  next
    case (passes n s2)
    then have d: "record_drift (se_call S) agent_id reports (app_db t) = Inr (app_db s2, n)" using passed(3) by (auto simp: on_db_Inr)
    have "filter (\<lambda>x. dr_agent_id x \<noteq> agent_id) (db_drift (app_db s2)) = filter (\<lambda>x. dr_agent_id x \<noteq> agent_id) (db_drift (app_db t))"
      using d record_drift_others by (auto simp: record_drift_def split: if_splits)
    moreover have "filter (\<lambda>x. dr_agent_id x \<noteq> agent_id) (db_drift (app_db t')) = filter (\<lambda>x. dr_agent_id x \<noteq> agent_id) (db_drift (app_db s2))"
      using passes(2) by (auto simp: on_db_def close_drift_not_in_def close_row_def Let_def bindA_def intro!: filter_update_where_other split: if_splits)
    ultimately show ?thesis using agent_auth_row [OF passed(1)] passed(2) by (auto simp: same_environment_Inr)
  qed
qed auto

text \<open>
  An agent reports only on its own environment. A report of observations or of drift is either
  refused, and then the database is unchanged, or every resource in it belongs to the environment the
  agent is registered for; the observations it stores are rows of this agent, one per item, and the
  drift rows of all other agents stay as they are.
\<close>

theorem reports_stay_in_environment:
  assumes "observations_handler S agent_id token items s = (r, s')" "drift_handler S agent_id token reports t = (q, t')"
  shows "((\<exists>e. r = Inl e) \<and> app_db s' = app_db s
      \<or> (\<exists>a \<in> set (db_agents (app_db s)). ag_id a = agent_id \<and> (\<forall>i \<in> set items. ri_environment (oi_resource_id i) = ag_environment a))
        \<and> (\<exists>new. db_observations (app_db s') = db_observations (app_db s) @ new \<and> length new = length items \<and> (\<forall>x \<in> set new. ob_agent_id x = agent_id)))
    \<and> ((\<exists>e. q = Inl e) \<and> app_db t' = app_db t
      \<or> (\<exists>a \<in> set (db_agents (app_db t)). ag_id a = agent_id \<and> (\<forall>i \<in> set reports. ri_environment (di_resource_id i) = ag_environment a))
        \<and> filter (\<lambda>x. dr_agent_id x \<noteq> agent_id) (db_drift (app_db t')) = filter (\<lambda>x. dr_agent_id x \<noteq> agent_id) (db_drift (app_db t)))"
  using observations_in_environment [OF assms(1)] drift_in_environment [OF assms(2)] by (rule conjI)

section \<open>Delivery\<close>

lemma mark_running_frame [simp]:
  "db_assignments (fold (mark_running now) opers d) = db_assignments d" "db_desired (fold (mark_running now) opers d) = db_desired d"
  "db_audit (fold (mark_running now) opers d) = db_audit d" "db_observations (fold (mark_running now) opers d) = db_observations d"
  "db_drift (fold (mark_running now) opers d) = db_drift d"
  by (induction opers arbitrary: d) (simp_all add: mark_running_def)

text \<open>What an agent or an operator can read of the manifests: payloads, desired states, observations, drift
  and the audit log.\<close>

definition manifest_view :: "db \<Rightarrow> (string \<times> string) list \<times> desired_row list \<times> observation_row list \<times> drift_row list \<times> _" where
  "manifest_view d = (map (\<lambda>a. (as_id a, as_payload_json a)) (db_assignments d), db_desired d, db_observations d, db_drift d, db_audit d)"

lemma update_where_view: "(\<And>a. g (f a) = g a) \<Longrightarrow> map g (update_where P f rows) = map g rows"
  by (simp add: update_where_def)

lemma fetch_view: "fetch_pending_assignments E agent_id d = Inr (d', items) \<Longrightarrow> manifest_view d' = manifest_view d"
  by (auto simp: fetch_pending_assignments_def manifest_view_def Let_def claim_row_def intro!: update_where_view elim!: bindE_InrE)

lemma revert_rows: "fold (\<lambda>i. update_where (\<lambda>a. as_id a = i \<and> as_status a = AFetched) revert_row) ids rows =
    update_where (\<lambda>a. as_id a \<in> set ids \<and> as_status a = AFetched) revert_row rows"
proof (induction ids arbitrary: rows)
  case (Cons i ids)
  then show ?case by (auto simp: update_where_def revert_row_def)
qed (simp add: update_where_def)

lemma revert_db_rows:
  "revert_assignment_claims E ids d = Inr (d', u) \<Longrightarrow>
     db_assignments d' = update_where (\<lambda>a. as_id a \<in> set ids \<and> as_status a = AFetched) revert_row (db_assignments d)"
  by (auto simp: revert_assignment_claims_def revert_rows update_where_none split: if_splits option.splits)

lemma revert_view: "revert_assignment_claims E ids d = Inr (d', u) \<Longrightarrow> manifest_view d' = manifest_view d"
  by (auto simp: revert_assignment_claims_def manifest_view_def revert_rows revert_row_def intro!: update_where_view split: if_splits option.splits)

lemma revert_total: "ce_fault E RevertRows = None \<Longrightarrow> \<exists>d'. revert_assignment_claims E ids d = Inr (d', ())"
  by (simp add: revert_assignment_claims_def)

lemma list_assignments_cases:
  assumes "list_assignments S Y signers agent_id token s = (r, s')"
  obtains (refused) e where "r = Inl e" "s' = s"
  | (delivered) items sealed where "r = Inr sealed" "fetch_pending_assignments (se_call S) agent_id (app_db s) = Inr (app_db s', items)"
      "seal_all S Y signers 0 agent_id items = Inr sealed"
  | (reverted) e items d where "r = Inl e" "fetch_pending_assignments (se_call S) agent_id (app_db s) = Inr (d, items)"
      "seal_all S Y signers 0 agent_id items = Inl e" "ce_fault (se_call S) RevertRows = None"
      "revert_assignment_claims (se_call S) (map en_assignment_id items) d = Inr (app_db s', ())"
  | (stranded) e f items where "r = Inl e" "fetch_pending_assignments (se_call S) agent_id (app_db s) = Inr (app_db s', items)"
      "seal_all S Y signers 0 agent_id items = Inl e" "ce_fault (se_call S) RevertRows = Some f"
proof (cases "agent_auth S agent_id token s")
  case (Pair a s0)
  then have s0: "s0 = s" by (simp add: agent_auth_def)
  show thesis
  proof (cases "\<exists>e. a = Inl e \<or> fetch_pending_assignments (se_call S) agent_id (app_db s) = Inl e")
    case True
    with assms Pair s0 have "\<exists>e. r = Inl e" "s' = s" by (auto simp: list_assignments_def bindA_def on_db_def split: sum.splits)
    with refused show thesis by blast
  next
    case False
    then obtain rec d items where *: "a = Inr rec" "fetch_pending_assignments (se_call S) agent_id (app_db s) = Inr (d, items)"
      by (metis old.sum.exhaust surj_pair)
    show thesis
    proof (cases "seal_all S Y signers 0 agent_id items")
      case (Inl e)
      then have ne: "items \<noteq> []" by auto
      show thesis
      proof (cases "ce_fault (se_call S) RevertRows")
        case None
        then obtain d' where "revert_assignment_claims (se_call S) (map en_assignment_id items) d = Inr (d', ())" using revert_total by blast
        with assms Pair s0 * Inl None show thesis
          by (intro reverted [OF _ *(2) Inl]) (auto simp: list_assignments_def bindA_def on_db_def attempt_def)
      next
        case (Some f)
        then have "revert_assignment_claims (se_call S) (map en_assignment_id items) d = Inl f" using ne by (simp add: revert_assignment_claims_def)
        with assms Pair s0 * Inl Some show thesis
          by (intro stranded [OF _ _ Inl]) (auto simp: list_assignments_def bindA_def on_db_def attempt_def)
      qed
    next
      case (Inr sealed)
      with assms Pair s0 * show thesis
        by (intro delivered [OF _ _ Inr]) (auto simp: list_assignments_def bindA_def on_db_def)
    qed
  qed
qed

text \<open>
  C12. Resolved secrets never reach the database. However a delivery ends, the stored payloads, the
  desired states, the observations, the drift rows and the audit log are what they were: only
  references are at rest, and the next fetch resolves them again.
\<close>

theorem delivery_stores_no_secret:
  "manifest_view (app_db (snd (list_assignments S Y signers agent_id token s))) = manifest_view (app_db s)"
proof -
  obtain r s' where run: "list_assignments S Y signers agent_id token s = (r, s')" by force
  then have "manifest_view (app_db s') = manifest_view (app_db s)"
    by (cases rule: list_assignments_cases) (auto dest!: fetch_view revert_view)
  with run show ?thesis by simp
qed

text \<open>Taking back the claims of a fetch undoes exactly these claims.\<close>

lemma claims_undone:
  assumes "rollout_inv K d" "fetch_pending_assignments E agent_id d = Inr (d1, items)"
    and "revert_assignment_claims E (map en_assignment_id items) d1 = Inr (d2, ())" "lease_cutoff E = Inr cutoff"
  shows "db_assignments d2 = update_where (\<lambda>a. as_agent_id a = agent_id \<and> claimable cutoff a) revert_row (db_assignments d)"
proof -
  let ?P = "\<lambda>a. as_agent_id a = agent_id \<and> claimable cutoff a"
  let ?ids = "en_assignment_id ` set items"
  have ids: "?ids = as_id ` {a \<in> set (db_assignments d). ?P a}" and d1: "db_assignments d1 = update_where ?P (claim_row (ce_now E)) (db_assignments d)"
    using fetch_result [OF assms(2)] assms(4) by (metis sum.inject(2))+
  have dist: "distinct (map as_id (db_assignments d))" using assms(1) by (simp add: rollout_inv_def rows_wf_def)
  have own: "?P a" if "a \<in> set (db_assignments d)" "as_id a \<in> ?ids" for a
    using that ids assignments_t.key_unique [OF dist that(1)] by auto
  have mem: "as_id a \<in> ?ids" if "a \<in> set (db_assignments d)" "?P a" for a using that ids by blast
  have "db_assignments d2 = update_where (\<lambda>a. as_id a \<in> ?ids \<and> as_status a = AFetched) revert_row (db_assignments d1)"
    using revert_db_rows [OF assms(3)] by simp
  also have "\<dots> = update_where ?P revert_row (db_assignments d)"
    unfolding d1 update_where_def map_map
  proof (rule map_cong [OF refl])
    fix a assume a: "a \<in> set (db_assignments d)"
    show "((\<lambda>x. if as_id x \<in> ?ids \<and> as_status x = AFetched then revert_row x else x) \<circ>
        (\<lambda>x. if ?P x then claim_row (ce_now E) x else x)) a = (if ?P a then revert_row a else a)"
    proof (cases "?P a")
      case True
      with mem [OF a] show ?thesis by (simp add: claim_row_def revert_row_def)
    next
      case False
      with own [OF a] show ?thesis by auto
    qed
  qed
  finally show ?thesis .
qed

text \<open>
  C13. A delivery that fails leaves nothing claimed. When resolving a secret or signing fails for any
  envelope of a fetch, every row the fetch claimed is pending again with no lease, so the next poll can
  claim it at once; when the request is refused earlier, nothing changes at all. Only when the statement that
  takes the claims back fails too, which the code ignores, the rows stay fetched, with the claim time of this
  poll, and are claimable again when their lease has run out.
\<close>

theorem failed_delivery_unclaims:
  assumes "rollout_inv K (app_db s)" "list_assignments S Y signers agent_id token s = (Inl e, s')"
  shows "s' = s \<or> (\<exists>cutoff. lease_cutoff (se_call S) = Inr cutoff \<and>
      (case ce_fault (se_call S) RevertRows of
        None \<Rightarrow>
          db_assignments (app_db s') = update_where (\<lambda>a. as_agent_id a = agent_id \<and> claimable cutoff a) revert_row (db_assignments (app_db s))
          \<and> (\<forall>a \<in> set (db_assignments (app_db s)). as_agent_id a = agent_id \<and> claimable cutoff a \<longrightarrow>
               (\<exists>b \<in> set (db_assignments (app_db s')). as_id b = as_id a \<and> as_payload_json b = as_payload_json a \<and> (\<forall>c. claimable c b)))
      | Some f \<Rightarrow>
          db_assignments (app_db s') = update_where (\<lambda>a. as_agent_id a = agent_id \<and> claimable cutoff a)
            (\<lambda>a. a\<lparr>as_status := AFetched, as_fetched_at := Some (ce_now (se_call S))\<rparr>) (db_assignments (app_db s))))"
  using assms(2)
proof (cases rule: list_assignments_cases)
  case (reverted e' items d)
  then obtain cutoff where cutoff: "lease_cutoff (se_call S) = Inr cutoff"
    by (auto simp: fetch_pending_assignments_def elim!: bindE_InrE)
  note rows = claims_undone [OF assms(1) reverted(2,5) cutoff]
  have "\<exists>b \<in> set (db_assignments (app_db s')). as_id b = as_id a \<and> as_payload_json b = as_payload_json a \<and> (\<forall>c. claimable c b)"
    if "a \<in> set (db_assignments (app_db s))" "as_agent_id a = agent_id \<and> claimable cutoff a" for a
    using that unfolding rows set_update_where by (intro bexI [of _ "revert_row a"]) (auto simp: revert_row_def claimable_def)
  with rows cutoff reverted(4) show ?thesis by auto
next
  case (stranded e' f items)
  obtain cutoff where "lease_cutoff (se_call S) = Inr cutoff"
    "db_assignments (app_db s') = update_where (\<lambda>a. as_agent_id a = agent_id \<and> claimable cutoff a) (claim_row (ce_now (se_call S))) (db_assignments (app_db s))"
    by (rule fetch_result [OF stranded(2)])
  moreover have "claim_row now = (\<lambda>a. a\<lparr>as_status := AFetched, as_fetched_at := Some now\<rparr>)" for now by (simp add: claim_row_def fun_eq_iff)
  ultimately show ?thesis using stranded(4) by auto
qed auto

section \<open>From the signer to the agent\<close>

text \<open>What the signature library promises, and a key set as \<open>load_set\<close> returns it.\<close>

definition crypto_ok :: "crypto \<Rightarrow> bool" where
  "crypto_ok Y \<longleftrightarrow> (\<forall>x. cy_decode Y (cy_encode Y x) = Some x)
     \<and> (\<forall>k m. length k = 32 \<longrightarrow> cy_verify Y (cy_public Y k) m (cy_sign Y k m) \<and> length (cy_sign Y k m) = 64)"

definition key_set_ok :: "signer_state \<Rightarrow> bool" where
  "key_set_ok sg \<longleftrightarrow> distinct (map fst (ss_keys sg)) \<and> (\<forall>k \<in> snd ` set (ss_keys sg). length k = 32)"

lemma seal_envelope_Inr:
  assumes "seal_envelope S Y signer signer' agent_id env = Inr sealed"
  obtains k where "active_entry signer = Inr k" "en_key_id sealed = ss_active signer'"
    "en_signature sealed = cy_encode Y (cy_sign Y k (envelope_message Y (ce_serde (se_call S)) agent_id sealed))"
  using assms
  by (auto simp: seal_envelope_def signing_failed_def sign_assignment_def envelope_message_def expiry_text_def
      elim!: bindE_InrE split: sum.splits)

lemma seal_all_Inr:
  "seal_all S Y signers n agent_id envs = Inr sealed \<Longrightarrow> x \<in> set sealed \<Longrightarrow>
     \<exists>m env. seal_envelope S Y (signers m) (signers (m + 1)) agent_id env = Inr x"
  by (induction envs arbitrary: n sealed) (auto elim!: bindE_InrE, blast)

lemma verifiers_of_pins:
  assumes "build_verifier_set Y i = Inr vs" "distinct (map pk_key_id (ci_server_pubkeys i))"
    and "p \<in> set (ci_server_pubkeys i)" "cy_decode Y (pk_public_key p) = Some bytes"
  shows "map_of vs (pk_key_id p) = Some bytes"
proof -
  obtain ks where ks: "traverse (verifier_of Y) (ci_server_pubkeys i) = Inr ks" "vs = rev ks"
    using assms(1) by (auto simp: build_verifier_set_def elim!: bindE_InrE)
  have v: "verifier_of Y q = Inr y \<Longrightarrow> fst y = pk_key_id q \<and> cy_decode Y (pk_public_key q) = Some (snd y)" for q y
    by (auto simp: verifier_of_def elim!: bindE_InrE split: if_splits)
  have "map fst ks = map pk_key_id (ci_server_pubkeys i)"
    using ks(1) v unfolding traverse_Inr_iff by (induction rule: list_all2_induct) auto
  then have d: "distinct (map fst vs)" using assms(2) ks(2) by (simp add: rev_map [symmetric])
  obtain n where n: "n < length (ci_server_pubkeys i)" "p = ci_server_pubkeys i ! n" using assms(3) by (auto simp: in_set_conv_nth)
  from v [OF traverse_nth [OF ks(1) n(1)]] n(2) assms(4) have "ks ! n = (pk_key_id p, bytes)" by (simp add: prod_eq_iff)
  moreover have "n < length ks" using n(1) traverse_length [OF ks(1)] by simp
  ultimately have "(pk_key_id p, bytes) \<in> set vs" using ks(2) by (auto simp: in_set_conv_nth intro!: exI [of _ n])
  with d show ?thesis by (rule map_of_is_SomeI)
qed

lemma bundle_keys:
  assumes "key_set_ok sg"
  shows "distinct (map pk_key_id (kb_keys (pubkey_bundle Y sg' sg)))"
    and "map_of (ss_keys sg) i = Some k \<Longrightarrow> \<lparr>pk_key_id = i, pk_public_key = cy_encode Y (cy_public Y k)\<rparr> \<in> set (kb_keys (pubkey_bundle Y sg' sg))"
proof -
  have ids: "map pk_key_id (kb_keys (pubkey_bundle Y sg' sg)) = map fst (pubkeys Y sg)"
    by (simp add: pubkey_bundle_def comp_def split_def)
  have "distinct (map fst (map (\<lambda>(i, k). (i, cy_encode Y (cy_public Y k))) (ss_keys sg)))"
    using assms by (simp add: key_set_ok_def comp_def split_def)
  moreover have "mset (map fst (sort_key fst xs)) = mset (map fst xs)" for xs :: "(string \<times> string) list" by simp
  ultimately have "distinct (map fst (pubkeys Y sg))"
    unfolding pubkeys_def by (metis mset_eq_imp_distinct_iff)
  with ids show "distinct (map pk_key_id (kb_keys (pubkey_bundle Y sg' sg)))" by simp
  assume "map_of (ss_keys sg) i = Some k"
  then have "(i, k) \<in> set (ss_keys sg)" by (rule map_of_SomeD)
  then show "\<lparr>pk_key_id = i, pk_public_key = cy_encode Y (cy_public Y k)\<rparr> \<in> set (kb_keys (pubkey_bundle Y sg' sg))"
    by (force simp: pubkey_bundle_def pubkeys_def image_iff)
qed

text \<open>
  C11. What the server delivers, the agent accepts. An agent that connected to the server while \<open>sg\<close> was
  its key set verifies every envelope the server then delivers to it under that key set, secrets
  resolved and annotations added, as long as the clocks agree on the freshness of the envelopes: the two
  sides build the same message, and the published keys contain the one that signs.
\<close>

theorem delivered_is_accepted:
  assumes "crypto_ok Y" "key_set_ok sg"
    and "connect_with_tls Y url now enrolled (Inr (pubkey_bundle Y sg sg)) fault fault' f = (Inr c, f')"
    and "list_assignments S Y (\<lambda>_. sg) (ci_agent_id (cl_identity c)) token s = (Inr items, s')"
    and "ah_serde H = ce_serde (se_call S)" "\<forall>env \<in> set items. fresh_enough H env"
  shows "fetch_assignments Y H c (Inr items) = Inr items"
proof -
  obtain i where c: "cl_identity c = pin_bundle (pubkey_bundle Y sg sg) i" "build_verifier_set Y (cl_identity c) = Inr (cl_verifiers c)"
    using assms(3) connect_inv [OF assms(3)] unfolding connect_with_tls_def
    by (auto simp: client_inv_def fetch_signing_bundle_Inr elim!: bindA_cases)
  have "verify_envelope Y H c env = Inr ()" if "env \<in> set items" for env
  proof -
    have "\<exists>env0. seal_envelope S Y sg sg (ci_agent_id (cl_identity c)) env0 = Inr env"
      using assms(4)
    proof (cases rule: list_assignments_cases)
      case (delivered fetched sealed)
      with seal_all_Inr [OF delivered(3)] that show ?thesis by auto
    qed auto
    then obtain env0 where "seal_envelope S Y sg sg (ci_agent_id (cl_identity c)) env0 = Inr env" ..
    then obtain k where k: "active_entry sg = Inr k" "en_key_id env = ss_active sg"
      "en_signature env = cy_encode Y (cy_sign Y k (envelope_message Y (ce_serde (se_call S)) (ci_agent_id (cl_identity c)) env))"
      by (rule seal_envelope_Inr)
    then have key: "map_of (ss_keys sg) (ss_active sg) = Some k" by (simp add: active_entry_def ok_or_Inr_iff)
    then have "length k = 32" using assms(2) map_of_SomeD [OF key] by (force simp: key_set_ok_def)
    moreover have "map_of (cl_verifiers c) (ss_active sg) = Some (cy_public Y k)"
      using verifiers_of_pins [OF c(2), of "\<lparr>pk_key_id = ss_active sg, pk_public_key = cy_encode Y (cy_public Y k)\<rparr>"]
        bundle_keys(1) [OF assms(2), of Y sg] bundle_keys(2) [OF assms(2) key, of Y sg] assms(1)
      by (simp add: c(1) crypto_ok_def)
    ultimately show ?thesis
      using k(2,3) assms(1,5,6) that by (auto simp: verify_envelope_iff crypto_ok_def)
  qed
  then have "traverse (verify_envelope Y H c) items = Inr (map (\<lambda>_. ()) items)"
    by (auto simp: traverse_Inr_iff list_all2_conv_all_nth)
  then show ?thesis by (simp add: fetch_assignments_def)
qed

text \<open>The two readings of the signer are not one: when a rotation comes between them, the envelope names the
  new key and carries a signature of the old one.\<close>

lemma rotation_between_readings:
  assumes "seal_envelope S Y signer signer' agent_id env = Inr sealed" "map_of vs (ss_active signer') = Some key"
    and "map_of (ss_keys signer) (ss_active signer) = Some k" "cy_decode Y (cy_encode Y (cy_sign Y k m)) = Some sig"
    and "m = envelope_message Y (ce_serde (se_call S)) agent_id sealed" "\<not> cy_verify Y key m sig"
    and "ci_agent_id (cl_identity c) = agent_id" "cl_verifiers c = vs" "ah_serde H = ce_serde (se_call S)"
  shows "verify_envelope Y H c sealed \<noteq> Inr ()"
  using assms by (auto simp: verify_envelope_iff active_entry_def ok_or_def elim!: seal_envelope_Inr)

section \<open>Samples\<close>

definition work_env :: call_env where
  "work_env = (sample_env ''t5'' ''t4'')\<lparr>ce_hash := (\<lambda>x. ''h'' @ x)\<rparr>"

definition work_surroundings :: surroundings where
  "work_surroundings = (sample_surroundings [])\<lparr>se_call := work_env\<rparr>"

definition work_app :: app where
  "work_app = sample_app (sample_work\<lparr>db_agents := [sample_agent]\<rparr>)"

definition toy_set :: signer_state where
  "toy_set = \<lparr>ss_keys = [(''k1'', replicate 32 CHR ''a'')], ss_active = ''k1''\<rparr>"

definition open_scheme :: crypto where
  "open_scheme = (toy_scheme [])\<lparr>cy_verify := (\<lambda>k m s. s = replicate 64 CHR ''s'')\<rparr>"

definition work_envelope :: envelope where
  "work_envelope = \<lparr>en_assignment_id = ''s1'', en_operation_id = ''op1'', en_kind = ''apply'', en_created_at = ''t0'',
     en_expires_at = None, en_payload = [], en_key_id = [], en_signature = []\<rparr>"

lemma work_auth: "agent_auth work_surroundings ''a1'' ''1'' work_app =
    (Inr \<lparr>ar_id = ''a1'', ar_name = ''vm1'', ar_environment = ''prod'', ar_token_hash = ''h1''\<rparr>, work_app)"
  by (simp add: agent_auth_def authenticate_def work_surroundings_def work_app_def work_env_def sample_app_def sample_agent_def token_live_def ct_eq_iff)

lemma work_fetch: "\<exists>d. fetch_pending_assignments (se_call work_surroundings) ''a1'' (app_db work_app) = Inr (d, [work_envelope])"
  by (simp add: work_surroundings_def work_app_def work_env_def sample_app_def work_envelope_def fetch_pending_assignments_def lease_cutoff_def
      sample_env_def sample_work_def claimable_def envelope_of_def parse_payload_def parse_json_def update_where_def new_assignment_def)

theorem reports_stay_in_environment_witness:
  "\<exists>e s'. observations_handler work_surroundings ''a1'' ''1''
       [\<lparr>oi_resource_id = \<lparr>ri_kind = ''file'', ri_environment = ''staging'', ri_name = ''x''\<rparr>, oi_observed_at = ''t4'', oi_present = True,
         oi_spec = JNull, oi_facts = JNull\<rparr>] work_app = (Inl e, s') \<and> app_db s' = app_db work_app"
proof -
  let ?items = "[\<lparr>oi_resource_id = \<lparr>ri_kind = ''file'', ri_environment = ''staging'', ri_name = ''x''\<rparr>, oi_observed_at = ''t4'', oi_present = True,
         oi_spec = JNull, oi_facts = JNull\<rparr>]"
  obtain r s' where r: "observations_handler work_surroundings ''a1'' ''1'' ?items work_app = (r, s')" by force
  obtain q t' where q: "drift_handler work_surroundings ''a1'' ''1'' [] work_app = (q, t')" by force
  have "db_agents (app_db work_app) = [sample_agent]" by (simp add: work_app_def sample_app_def)
  then have "\<not> (\<exists>a \<in> set (db_agents (app_db work_app)). ag_id a = ''a1'' \<and> (\<forall>i \<in> set ?items. ri_environment (oi_resource_id i) = ag_environment a))"
    by (simp add: sample_agent_def)
  with reports_stay_in_environment [OF r q] r show ?thesis by blast
qed

lemma work_inv: "rollout_inv K (app_db work_app)"
  using sample_work_inv rollout_inv_cong [of sample_work "app_db work_app"] by (simp add: work_app_def sample_app_def)

theorem failed_delivery_unclaims_witness:
  "\<exists>e s'. list_assignments work_surroundings open_scheme (\<lambda>_. \<lparr>ss_keys = [], ss_active = ''k1''\<rparr>) ''a1'' ''1'' work_app = (Inl e, s')
     \<and> (s' = work_app \<or> (\<exists>b \<in> set (db_assignments (app_db s')). as_id b = ''s1'' \<and> (\<forall>c. claimable c b)))"
proof -
  let ?run = "list_assignments work_surroundings open_scheme (\<lambda>_. \<lparr>ss_keys = [], ss_active = ''k1''\<rparr>) ''a1'' ''1'' work_app"
  have no_fault: "ce_fault (se_call work_surroundings) RevertRows = None"
    by (simp add: work_surroundings_def work_env_def sample_surroundings_def sample_env_def)
  obtain d where d: "fetch_pending_assignments (se_call work_surroundings) ''a1'' (app_db work_app) = Inr (d, [work_envelope])"
    using work_fetch by blast
  obtain e s' where r: "?run = (Inl e, s')"
    using d work_auth revert_total [of "se_call work_surroundings" "[''s1'']" d] no_fault
    by (auto simp: list_assignments_def bindA_def on_db_def seal_envelope_def sign_assignment_def active_entry_def signing_failed_def
        work_envelope_def attempt_def ok_or_def)
  obtain a where a: "a \<in> set (db_assignments (app_db work_app))" "as_id a = ''s1''" "as_agent_id a = ''a1'' \<and> claimable c a" for c
    by (simp add: work_app_def sample_app_def sample_work_def new_assignment_def claimable_def)
  from failed_delivery_unclaims [OF work_inv r] r a no_fault show ?thesis by (simp only: option.case) metis
qed

theorem delivered_is_accepted_witness:
  "\<exists>items s'. list_assignments work_surroundings open_scheme (\<lambda>_. toy_set) ''a1'' ''1'' work_app = (Inr items, s') \<and> items \<noteq> []
     \<and> fetch_assignments open_scheme (toy_host\<lparr>ah_serde := ce_serde work_env\<rparr>) toy_client (Inr items) = Inr items"
proof -
  have kb: "pubkey_bundle open_scheme toy_set toy_set = toy_bundle"
    by (simp add: pubkey_bundle_def pubkeys_def open_scheme_def toy_set_def toy_bundle_def toy_key_def toy_scheme_def)
  have c: "connect_with_tls open_scheme ''u'' ''now'' (Inr toy_credentials) (Inr (pubkey_bundle open_scheme toy_set toy_set)) None None Missing =
      (Inr toy_client, Stored (cl_identity toy_client))"
    unfolding kb by (simp add: connect_with_tls_def load_identity_def fetch_signing_bundle_def persist_identity_def new_identity_def
      pin_bundle_def build_verifier_set_def verifier_of_def bindA_def open_scheme_def trim_end_slashes_def toy_defs)
  have ok: "crypto_ok open_scheme" "key_set_ok toy_set"
    by (simp_all add: crypto_ok_def key_set_ok_def open_scheme_def toy_scheme_def toy_set_def)
  have aid: "ci_agent_id (cl_identity toy_client) = ''a1''" by (simp add: toy_client_def new_identity_def toy_credentials_def)
  obtain d where d: "fetch_pending_assignments (se_call work_surroundings) ''a1'' (app_db work_app) = Inr (d, [work_envelope])"
    using work_fetch by blast
  obtain env s' where r: "list_assignments work_surroundings open_scheme (\<lambda>_. toy_set) ''a1'' ''1'' work_app = (Inr [env], s')"
    and env: "en_created_at env = ''t0''" "en_expires_at env = None"
    using d work_auth
    by (auto simp: list_assignments_def bindA_def on_db_def seal_envelope_def sign_assignment_def active_entry_def signing_failed_def
        work_envelope_def toy_set_def ok_or_def)
  have "fresh_enough (toy_host\<lparr>ah_serde := ce_serde work_env\<rparr>) env"
    using env by (simp add: fresh_enough_def max_envelope_age_secs_def toy_host_def saturating_sub_def future_grace_secs_def)
  with delivered_is_accepted [OF ok c, unfolded aid, OF r, of "toy_host\<lparr>ah_serde := ce_serde work_env\<rparr>"] r show ?thesis
    by (auto simp: work_surroundings_def)
qed

end
