(* ===== verification/Agent_Core.thy ===== *)
theory Agent_Core
  imports Local_Store Capabilities Agent_Api
begin

text \<open>
  What the agent does with the things it receives (\<open>iac-agent/src/agent.rs\<close>): filtering by the
  capability rules, executing an assignment with the local executor, draining the fetched assignments with
  the replay check, the local apply and plan, the observe cycle, and the schedule of token rotation
  and key refresh. The texts of errors and the decoding of a manifest are given functions; the network is the
  replies the calls get.
\<close>

section \<open>The agent\<close>

record 'w agent =
  ag_host :: "'w host"
  ag_store :: local_store
  ag_capabilities :: "capabilities option"
  ag_sent :: "(string \<times> result_request) list"

record 'w agent_env =
  ax_registry :: "'w registry"
  ax_exec :: "string \<Rightarrow> 'w exec_env"
  ax_sql :: sqlite
  ax_decode :: "json \<Rightarrow> resource option"
  ax_show :: "core_error \<Rightarrow> string"
  ax_show_report :: "report \<Rightarrow> string"
  ax_debug :: "string \<Rightarrow> string"

definition deny_text :: "'w agent_env \<Rightarrow> deny_reason \<Rightarrow> string" where
  "deny_text E r = ''capability_denied['' @ dn_kind r @ '']: '' @ dn_resource_id r @ '' ('' @ dn_identifier r @ '': '' @
     (case dn_reason r of Cause t \<Rightarrow> t | KeyError e \<Rightarrow> ''could not extract capability key: '' @ ax_show E e) @ '')''"

fun split_checked :: "(resource \<Rightarrow> (deny_reason, unit) result) \<Rightarrow> resource list \<Rightarrow> resource list \<times> (resource \<times> deny_reason) list" where
  "split_checked check [] = ([], [])"
| "split_checked check (r # rs) =
     (let (allowed, denied) = split_checked check rs
      in case check r of Inr _ \<Rightarrow> (r # allowed, denied) | Inl reason \<Rightarrow> (allowed, (r, reason) # denied))"

definition enforce_capabilities :: "'w agent_env \<Rightarrow> capabilities option \<Rightarrow> resource list
    \<Rightarrow> resource list \<times> (resource \<times> deny_reason) list" where
  "enforce_capabilities E caps resources =
     (case caps of None \<Rightarrow> (resources, [])
      | Some C \<Rightarrow> split_checked (check_capabilities C (ax_registry E)) resources)"

section \<open>Assignments\<close>

fun result_status_of :: "exec_status \<Rightarrow> result_status" where
  "result_status_of ExSucceeded = RSucceeded"
| "result_status_of ExPartiallyApplied = RPartiallyApplied"
| "result_status_of _ = RFailed"

fun item_status_text :: "item_status \<Rightarrow> string" where
  "item_status_text ItemNoChange = ''no_change''"
| "item_status_text ItemSucceeded = ''succeeded''"
| "item_status_text ItemFailed = ''failed''"
| "item_status_text ItemSkipped = ''skipped''"

definition denied_report :: "'w agent_env \<Rightarrow> (resource \<times> deny_reason) list \<Rightarrow> result_request" where
  "denied_report E denied =
     \<lparr>rr_status = RFailed,
      rr_summary = Some (show_nat (length denied) @ '' resource(s) denied by agent capability policy''),
      rr_items = map (\<lambda>(_, reason). \<lparr>ir_resource_id = dn_resource_id reason, ir_status = ''capability_denied'',
                        ir_error = Some (deny_text E reason)\<rparr>) denied\<rparr>"

definition applied_report :: "'w agent_env \<Rightarrow> apply_result \<Rightarrow> result_request" where
  "applied_report E res =
     \<lparr>rr_status = result_status_of (eo_status (rt_operation res)),
      rr_summary = Some (''operation '' @ eo_id (rt_operation res)),
      rr_items = map (\<lambda>i. \<lparr>ir_resource_id = resource_id_to_string (it_resource_id i), ir_status = item_status_text (it_status i),
                        ir_error = map_option (ax_show_report E) (it_error i)\<rparr>) (rt_items res)\<rparr>"

definition decode_all :: "'w agent_env \<Rightarrow> json list \<Rightarrow> (string, resource list) result" where
  "decode_all E vs = traverse (\<lambda>v. ok_or (ax_decode E v) ''decoding assignment resources'') vs"

definition execute_assignment :: "'w agent_env \<Rightarrow> capabilities option \<Rightarrow> envelope \<Rightarrow> ('w host, string, result_request) act" where
  "execute_assignment E caps env =
     (if en_kind env \<noteq> ''apply'' then failing (''unsupported assignment kind '' @ ax_debug E (en_kind env))
      else bindA (from_result (decode_all E (en_payload env))) (\<lambda>resources.
        let (allowed, denied) = enforce_capabilities E caps resources
        in if denied \<noteq> [] then doing (denied_report E denied)
           else bindA (map_errA (ax_show E) (apply_resources (ax_exec E (en_assignment_id env)) (ax_registry E) allowed)) (\<lambda>res.
             doing (applied_report E res))))"

fun result_text :: "result_status \<Rightarrow> string" where
  "result_text RSucceeded = ''succeeded''"
| "result_text RPartiallyApplied = ''partially_applied''"
| "result_text RFailed = ''failed''"

definition prior_result :: "string \<Rightarrow> result_status" where
  "prior_result prior =
     (if prior = ''succeeded'' then RSucceeded else if prior = ''partially_applied'' then RPartiallyApplied else RFailed)"

definition replay_report :: "string \<Rightarrow> result_request" where
  "replay_report prior = \<lparr>rr_status = prior_result prior,
     rr_summary = Some (''replay-of-already-processed assignment ('' @ prior @ '')''), rr_items = []\<rparr>"

definition mark_and_report :: "'w agent_env \<Rightarrow> string \<Rightarrow> string \<Rightarrow> result_request \<Rightarrow> 'w agent \<Rightarrow> 'w agent" where
  "mark_and_report E aid status report a =
     a\<lparr>ag_store := snd (mark_assignment_processed (ax_sql E) aid status (ag_store a)),
       ag_sent := ag_sent a @ [(aid, report)]\<rparr>"

definition run_assignment :: "'w agent_env \<Rightarrow> envelope \<Rightarrow> 'w agent \<Rightarrow> nat \<times> 'w agent" where
  "run_assignment E env a =
     (case execute_assignment E (ag_capabilities a) env (ag_host a) of
        (Inr report, h) \<Rightarrow>
          (1, mark_and_report E (en_assignment_id env) (result_text (rr_status report)) report (a\<lparr>ag_host := h\<rparr>))
      | (Inl e, h) \<Rightarrow>
          (0, mark_and_report E (en_assignment_id env) ''failed''
                \<lparr>rr_status = RFailed, rr_summary = Some (''execution error: '' @ e), rr_items = []\<rparr> (a\<lparr>ag_host := h\<rparr>)))"

definition drain_one :: "'w agent_env \<Rightarrow> envelope \<Rightarrow> 'w agent \<Rightarrow> nat \<times> 'w agent" where
  "drain_one E env a =
     (case fst (assignment_already_processed (ax_sql E) (en_assignment_id env) (ag_store a)) of
        Inr (Some prior) \<Rightarrow> (0, a\<lparr>ag_sent := ag_sent a @ [(en_assignment_id env, replay_report prior)]\<rparr>)
      | _ \<Rightarrow> run_assignment E env a)"

fun drain_loop :: "'w agent_env \<Rightarrow> envelope list \<Rightarrow> 'w agent \<Rightarrow> nat \<times> 'w agent" where
  "drain_loop E [] a = (0, a)"
| "drain_loop E (env # envs) a =
     (let (m, a1) = drain_one E env a; (n, a2) = drain_loop E envs a1 in (m + n, a2))"

text \<open>The remote client, if there is one, with the reply the control plane gives to the fetch.\<close>

definition drain_assignments :: "'w agent_env \<Rightarrow> crypto \<Rightarrow> agent_host \<Rightarrow> client option \<Rightarrow> envelope list client_result \<Rightarrow> 'w agent \<Rightarrow> nat \<times> 'w agent" where
  "drain_assignments E Y H remote reply a =
     (case remote of None \<Rightarrow> (0, a)
      | Some c \<Rightarrow> (case fetch_assignments Y H c reply of Inl e \<Rightarrow> (0, a) | Inr envs \<Rightarrow> drain_loop E envs a))"

section \<open>Local runs\<close>

fun close_converged :: "sqlite \<Rightarrow> apply_item list \<Rightarrow> unit stored" where
  "close_converged Q [] = doing ()"
| "close_converged Q (i # is) =
     bindA (if it_status i = ItemNoChange \<or> it_status i = ItemSucceeded
            then bindA (close_open_drift_for Q (it_resource_id i) ''apply converged'') (\<lambda>_. doing ()) else doing ()) (\<lambda>_.
       close_converged Q is)"

definition apply_once :: "'w agent_env \<Rightarrow> (string, resource list) result \<Rightarrow> ('w agent, string, apply_result) act" where
  "apply_once E manifests = (\<lambda>a. case manifests of Inl e \<Rightarrow> (Inl e, a) | Inr resources \<Rightarrow>
     (let (allowed, denied) = enforce_capabilities E (ag_capabilities a) resources
      in case apply_resources (ax_exec E []) (ax_registry E) allowed (ag_host a) of
           (Inl e, h) \<Rightarrow> (Inl (ax_show E e), a\<lparr>ag_host := h\<rparr>)
         | (Inr res, h) \<Rightarrow> (case close_converged (ax_sql E) (rt_items res) (ag_store a) of
               (Inl e, s) \<Rightarrow> (Inl e, a\<lparr>ag_host := h, ag_store := s\<rparr>)
             | (Inr _, s) \<Rightarrow> (Inr res, a\<lparr>ag_host := h, ag_store := s\<rparr>))))"

definition plan_once :: "'w agent_env \<Rightarrow> (string, resource list) result \<Rightarrow> ('w agent, string, plan_result) act" where
  "plan_once E manifests = (\<lambda>a. case manifests of Inl e \<Rightarrow> (Inl e, a) | Inr resources \<Rightarrow>
     (let (allowed, denied) = enforce_capabilities E (ag_capabilities a) resources
      in case plan_resources (ax_exec E []) (ax_registry E) allowed (ag_host a) of
           (Inl e, h) \<Rightarrow> (Inl (ax_show E e), a\<lparr>ag_host := h\<rparr>)
         | (Inr res, h) \<Rightarrow> (Inr res, a\<lparr>ag_host := h\<rparr>)))"

section \<open>Observing\<close>

text \<open>Local manifests and the desired state of the server by id, the server's entry last; sorted by id.\<close>

definition observation_resources :: "'w agent_env \<Rightarrow> resource list \<Rightarrow> (string, json list) result option \<Rightarrow> resource list" where
  "observation_resources E local desired =
     (let server = (case desired of Some (Inr items) \<Rightarrow> List.map_filter (ax_decode E) items | _ \<Rightarrow> []);
          by_id = fold (\<lambda>(k, v). bt_insert k v) (map (\<lambda>r. (resource_id_to_string (resource_id_of r), r)) (local @ server)) []
      in map snd by_id)"

definition severity_for :: "diff \<Rightarrow> string" where
  "severity_for d = (if \<not> df_reversible d then ''critical'' else ''warning'')"

text \<open>The state of the cycle: the world, the store, the errors and the number of drifted resources.\<close>

record 'w cycle =
  cy_world :: 'w
  cy_store :: local_store
  cy_errors :: "string list"
  cy_drift :: nat

definition note_error :: "string \<Rightarrow> string \<Rightarrow> string \<Rightarrow> 'w cycle \<Rightarrow> 'w cycle" where
  "note_error rid what e c = c\<lparr>cy_errors := cy_errors c @ [rid @ '': '' @ what @ '': '' @ e]\<rparr>"

definition tried :: "string \<Rightarrow> string \<Rightarrow> 'a stored \<Rightarrow> 'w cycle \<Rightarrow> 'w cycle" where
  "tried rid what m c =
     (case m (cy_store c) of
        (Inr _, s) \<Rightarrow> c\<lparr>cy_store := s\<rparr>
      | (Inl e, s) \<Rightarrow> note_error rid what e (c\<lparr>cy_store := s\<rparr>))"

definition observe_one :: "'w agent_env \<Rightarrow> resource \<Rightarrow> 'w cycle \<Rightarrow> 'w cycle" where
  "observe_one E r c =
     (let i = resource_id_of r; rid = resource_id_to_string i in
      case require (ax_registry E) (rs_kind r) of
        Inl e \<Rightarrow> note_error rid ''unknown kind'' (ax_show E e) c
      | Inr P \<Rightarrow> (case pv_observe P r (cy_world c) of
            (Inl e, w) \<Rightarrow> note_error rid ''observe failed'' (ax_show E e) (c\<lparr>cy_world := w\<rparr>)
          | (Inr obs, w) \<Rightarrow>
              let c1 = tried rid ''record observation'' (record_observation (ax_sql E) i obs) (c\<lparr>cy_world := w\<rparr>)
              in case pv_diff P w r obs of
                   Inl e \<Rightarrow> note_error rid ''diff failed'' (ax_show E e) c1
                 | Inr d \<Rightarrow>
                     if is_change d
                     then tried rid ''open drift'' (open_drift_event (ax_sql E) i (severity_for d) d) (c1\<lparr>cy_drift := cy_drift c1 + 1\<rparr>)
                     else tried rid ''close drift'' (close_open_drift_for (ax_sql E) i ''drift cleared'') c1))"

record cycle_summary =
  cs_observed :: nat
  cs_drift_detected :: nat
  cs_errors :: "string list"

definition observe_resources_blocking :: "'w agent_env \<Rightarrow> string \<Rightarrow> string \<Rightarrow> resource list \<Rightarrow> ('w agent, string, cycle_summary) act" where
  "observe_resources_blocking E started finished resources = (\<lambda>a.
     let c = fold (observe_one E) resources \<lparr>cy_world = hs_world (ag_host a), cy_store = ag_store a, cy_errors = [], cy_drift = 0\<rparr>;
         (r, s) = record_run (ax_sql E) started (Some finished) (length resources) (cy_drift c)
                    (if cy_errors c = [] then None else Some (join_with ''; '' (cy_errors c))) (cy_store c);
         a' = a\<lparr>ag_host := (ag_host a)\<lparr>hs_world := cy_world c\<rparr>, ag_store := s\<rparr>
     in case r of Inl e \<Rightarrow> (Inl e, a')
        | Inr _ \<Rightarrow> (Inr \<lparr>cs_observed = length resources, cs_drift_detected = cy_drift c, cs_errors = cy_errors c\<rparr>, a'))"

section \<open>Schedules\<close>

definition maybe_rotate_token :: "(string \<Rightarrow> int option) \<Rightarrow> int \<Rightarrow> agent_credentials client_result \<Rightarrow> string option
    \<Rightarrow> (client \<times> identity_file, string, unit) act" where
  "maybe_rotate_token parse_secs now reply trouble = (\<lambda>(c, f).
     case token_seconds_until_expiry parse_secs now c of
       None \<Rightarrow> (Inr (), (c, f))
     | Some remaining \<Rightarrow>
         bindA (rotate_if_needed parse_secs now (max (remaining div 2) 3600) reply trouble) (\<lambda>_. doing ()) (c, f))"

definition key_refresh_interval_secs :: int where
  "key_refresh_interval_secs = 3600"

text \<open>The time of the last refresh, the client and its identity file.\<close>

definition maybe_refresh_signing_keys :: "crypto \<Rightarrow> int \<Rightarrow> key_bundle client_result \<Rightarrow> string option
    \<Rightarrow> int \<times> client option \<times> identity_file \<Rightarrow> int \<times> client option \<times> identity_file" where
  "maybe_refresh_signing_keys Y now reply trouble = (\<lambda>(last, remote, f).
     if last \<noteq> 0 \<and> saturating_sub now last < key_refresh_interval_secs then (last, remote, f)
     else case remote of None \<Rightarrow> (last, remote, f)
       | Some c \<Rightarrow> (case refresh_signing_keys Y reply trouble (c, f) of
             (Inr _, (c', f')) \<Rightarrow> (now, Some c', f')
           | (Inl _, (c', f')) \<Rightarrow> (last, Some c', f')))"

section \<open>Capabilities\<close>

lemma split_checked_fst: "fst (split_checked check rs) = filter (\<lambda>r. check r = Inr ()) rs"
  by (induction rs) (auto simp: split_def Let_def split: sum.splits)

lemma split_checked_snd: "map fst (snd (split_checked check rs)) = filter (\<lambda>r. check r \<noteq> Inr ()) rs"
  by (induction rs) (auto simp: split_def Let_def split: sum.splits)

lemma split_checked_idem: "split_checked check (filter (\<lambda>r. check r = Inr ()) rs) = (filter (\<lambda>r. check r = Inr ()) rs, [])"
  by (induction rs) auto

lemma split_checked_reason: "(r, reason) \<in> set (snd (split_checked check rs)) \<Longrightarrow> check r = Inl reason"
  by (induction rs) (auto simp: split_def Let_def split: sum.splits)

lemma denied_id: "check_capabilities C reg r = Inl reason \<Longrightarrow> dn_resource_id reason = resource_id_to_string (resource_id_of r)"
proof -
  have key: "traverse (check_key C rid kind) keys = Inl e \<Longrightarrow> dn_resource_id e = rid" for rid kind keys e
  proof (induction keys)
    case (Cons k keys)
    have "check_key C rid kind k = Inl e \<Longrightarrow> dn_resource_id e = rid"
      by (auto simp: check_key_def check_path_def check_name_def split: if_splits option.splits default_kind_policy.splits)
    with Cons show ?case by (auto simp: bindE_def split: sum.splits)
  qed simp
  assume "check_capabilities C reg r = Inl reason"
  then show ?thesis
    by (auto simp: check_capabilities_def Let_def bindE_def split: option.splits sum.splits if_splits default_kind_policy.splits dest: key)
qed

text \<open>
  C14. A denied resource never reaches a provider. When the rules deny a resource of an assignment, the
  whole assignment is refused: the host is exactly as before, the assignment is recorded, and the report says failed
  with one item for each denied resource. A local apply behaves as if the denied resources were not there.
\<close>

theorem capability_denial_inert:
  assumes "ag_capabilities a = Some C" "en_kind env = ''apply''" "decode_all E (en_payload env) = Inr resources"
    and "\<exists>r \<in> set resources. check_capabilities C (ax_registry E) r \<noteq> Inr ()"
  shows "\<exists>report. run_assignment E env a = (1, mark_and_report E (en_assignment_id env) ''failed'' report a)
      \<and> ag_host (snd (run_assignment E env a)) = ag_host a \<and> rr_status report = RFailed
      \<and> map ir_resource_id (rr_items report) =
          map (\<lambda>r. resource_id_to_string (resource_id_of r)) (filter (\<lambda>r. check_capabilities C (ax_registry E) r \<noteq> Inr ()) resources)
    \<and> apply_once E (Inr resources) a = apply_once E (Inr (filter (\<lambda>r. check_capabilities C (ax_registry E) r = Inr ()) resources)) a"
proof -
  let ?check = "check_capabilities C (ax_registry E)"
  obtain allowed denied where s: "split_checked ?check resources = (allowed, denied)" by force
  have d: "map fst denied = filter (\<lambda>r. ?check r \<noteq> Inr ()) resources" using split_checked_snd [of ?check resources] s by simp
  have "filter (\<lambda>r. ?check r \<noteq> Inr ()) resources \<noteq> []" unfolding filter_empty_conv using assms(4) by blast
  then have ne: "denied \<noteq> []" using d by force
  have "dn_resource_id (snd p) = resource_id_to_string (resource_id_of (fst p))" if "p \<in> set denied" for p
    using split_checked_reason [of "fst p" "snd p" ?check resources] denied_id that s by fastforce
  then have items: "map ir_resource_id (rr_items (denied_report E denied)) = map (\<lambda>r. resource_id_to_string (resource_id_of r)) (map fst denied)"
    by (simp add: denied_report_def split_def)
  have run: "run_assignment E env a = (1, mark_and_report E (en_assignment_id env) ''failed'' (denied_report E denied) a)"
    using assms(1-3) ne s
    by (simp add: run_assignment_def execute_assignment_def enforce_capabilities_def bindA_def denied_report_def)
  have "split_checked ?check (filter (\<lambda>r. ?check r = Inr ()) resources) = (allowed, [])"
    using split_checked_fst [of ?check resources] s by (simp add: split_checked_idem)
  then have "apply_once E (Inr resources) a = apply_once E (Inr (filter (\<lambda>r. ?check r = Inr ()) resources)) a"
    using assms(1) s by (simp add: apply_once_def enforce_capabilities_def)
  with run items d show ?thesis by (intro exI [of _ "denied_report E denied"]) (simp add: mark_and_report_def denied_report_def)
qed

section \<open>Replays\<close>

definition processed_ids :: "local_store \<Rightarrow> string set" where
  "processed_ids s = pc_assignment_id ` set (sq_processed s)"

lemma already_processed:
  assumes "sl_fault Q (SelectProcessed aid) = None" "aid \<in> processed_ids s"
  shows "\<exists>prior. assignment_already_processed Q aid s = (Inr (Some prior), s)"
proof -
  have "find (\<lambda>r. pc_assignment_id r = aid) (sq_processed s) \<noteq> None" using assms(2) by (auto simp: find_None_iff processed_ids_def)
  with assms(1) show ?thesis by (auto simp: assignment_already_processed_def query_def)
qed

lemma marked: "sl_fault Q (InsertProcessed aid) = None \<Longrightarrow>
  processed_ids (snd (mark_assignment_processed Q aid st s)) = insert aid (processed_ids s)"
  by (auto simp: mark_assignment_processed_def execute_def processed_ids_def)

lemma drain_one_marks:
  assumes "sl_fault (ax_sql E) (SelectProcessed (en_assignment_id env)) = None" "sl_fault (ax_sql E) (InsertProcessed (en_assignment_id env)) = None"
  shows "processed_ids (ag_store (snd (drain_one E env a))) = insert (en_assignment_id env) (processed_ids (ag_store a))"
proof (cases "en_assignment_id env \<in> processed_ids (ag_store a)")
  case True
  with already_processed [OF assms(1) True] show ?thesis by (auto simp: drain_one_def)
next
  case False
  then have "fst (assignment_already_processed (ax_sql E) (en_assignment_id env) (ag_store a)) = Inr None"
    using assms(1) by (force simp: assignment_already_processed_def query_def processed_ids_def find_None_iff)
  then show ?thesis
    using marked [OF assms(2)] by (auto simp: drain_one_def run_assignment_def mark_and_report_def split: prod.splits sum.splits)
qed

lemma drain_loop_marks:
  assumes "\<forall>aid. sl_fault (ax_sql E) (SelectProcessed aid) = None \<and> sl_fault (ax_sql E) (InsertProcessed aid) = None"
  shows "processed_ids (ag_store (snd (drain_loop E envs a))) = en_assignment_id ` set envs \<union> processed_ids (ag_store a)"
  using assms by (induction envs arbitrary: a) (auto simp: split_def Let_def drain_one_marks)

lemma drain_known:
  assumes "\<forall>aid. sl_fault (ax_sql E) (SelectProcessed aid) = None" "en_assignment_id ` set envs \<subseteq> processed_ids (ag_store a)"
  shows "\<exists>reports. drain_loop E envs a = (0, a\<lparr>ag_sent := ag_sent a @ reports\<rparr>) \<and> map fst reports = map en_assignment_id envs"
  using assms(2)
proof (induction envs arbitrary: a)
  case Nil
  then show ?case by (intro exI [of _ "[]"]) simp
next
  case (Cons env envs)
  obtain prior where p: "assignment_already_processed (ax_sql E) (en_assignment_id env) (ag_store a) = (Inr (Some prior), ag_store a)"
    using already_processed assms(1) Cons.prems by (metis image_subset_iff list.set_intros(1))
  let ?a = "a\<lparr>ag_sent := ag_sent a @ [(en_assignment_id env, replay_report prior)]\<rparr>"
  obtain reports where "drain_loop E envs ?a = (0, ?a\<lparr>ag_sent := ag_sent ?a @ reports\<rparr>)" "map fst reports = map en_assignment_id envs"
    using Cons.IH [of ?a] Cons.prems by auto
  with p show ?case by (intro exI [of _ "(en_assignment_id env, replay_report prior) # reports"]) (simp add: drain_one_def)
qed



section \<open>The observe cycle\<close>

text \<open>The open drift events as a map from resources to what is reported, and what a cycle finds.\<close>

definition open_events :: "local_store \<Rightarrow> string \<Rightarrow> (string \<times> diff) option" where
  "open_events s rid = map_option (\<lambda>x. (ld_severity x, ld_diff x)) (find (\<lambda>x. ld_open x \<and> ld_resource_id x = rid) (sq_drift s))"

definition inspect :: "'w agent_env \<Rightarrow> 'w \<Rightarrow> resource \<Rightarrow> diff option" where
  "inspect E w r =
     (case ax_registry E (rs_kind r) of None \<Rightarrow> None
      | Some P \<Rightarrow> (case fst (pv_observe P r w) of Inl e \<Rightarrow> None
          | Inr obs \<Rightarrow> (case pv_diff P w r obs of Inl e \<Rightarrow> None | Inr d \<Rightarrow> Some d)))"

definition found :: "diff \<Rightarrow> (string \<times> diff) option" where
  "found d = (if is_change d then Some (severity_for d, d) else None)"

lemma open_unique:
  assumes "store_inv s" "x \<in> set (sq_drift s)" "y \<in> set (sq_drift s)" "ld_open x" "ld_open y" "ld_resource_id x = ld_resource_id y"
  shows "x = y"
proof -
  have "inj_on ld_resource_id (set (filter ld_open (sq_drift s)))" using assms(1) unfolding store_inv_def distinct_map by blast
  with assms(2-) show ?thesis by (auto dest: inj_onD)
qed

lemma event_id_unique:
  assumes "store_inv s" "x \<in> set (sq_drift s)" "y \<in> set (sq_drift s)" "ld_id x = ld_id y"
  shows "x = y"
proof -
  have "inj_on ld_id (set (sq_drift s))" using assms(1) unfolding store_inv_def distinct_map by blast
  with assms(2-) show ?thesis by (auto dest: inj_onD)
qed

lemma open_events_Some:
  assumes "store_inv s"
  shows "open_events s rid = Some v \<longleftrightarrow> (\<exists>x \<in> set (sq_drift s). ld_open x \<and> ld_resource_id x = rid \<and> v = (ld_severity x, ld_diff x))"
proof (cases "find (\<lambda>x. ld_open x \<and> ld_resource_id x = rid) (sq_drift s)")
  case None
  then have "\<forall>x \<in> set (sq_drift s). \<not> (ld_open x \<and> ld_resource_id x = rid)" by (auto simp: find_None_iff)
  with None show ?thesis by (auto simp: open_events_def)
next
  case (Some x)
  then have "x \<in> set (sq_drift s)" "ld_open x" "ld_resource_id x = rid" by (auto simp: find_Some_iff)
  with Some open_unique [OF assms] show ?thesis by (auto simp: open_events_def)
qed

lemma option_eqI: "(\<And>v. x = Some v \<longleftrightarrow> y = Some v) \<Longrightarrow> x = y"
  by (cases x; cases y) auto

lemma keepsD: "keeps m \<Longrightarrow> store_inv s \<Longrightarrow> store_inv (snd (m s))"
  by (simp add: keeps_def)

lemma open_events_open:
  assumes "store_inv s" "\<forall>st. sl_fault Q st = None"
  shows "open_events (snd (open_drift_event Q i severity d s)) = (open_events s)(resource_id_to_string i \<mapsto> (severity, d))"
proof (rule ext, rule option_eqI)
  fix rid v
  let ?rid = "resource_id_to_string i" and ?s = "snd (open_drift_event Q i severity d s)"
  have inv': "store_inv ?s" by (rule keepsD [OF keeps_open_drift assms(1)])
  show "open_events ?s rid = Some v \<longleftrightarrow> ((open_events s)(?rid \<mapsto> (severity, d))) rid = Some v"
  proof (cases "newest_open ?rid (sq_drift s)")
    case None
    then have "sq_drift ?s = sq_drift s @ [\<lparr>ld_id = sq_drift_seq s + 1, ld_resource_id = ?rid, ld_kind = ri_kind i, ld_severity = severity, ld_diff = d,
        ld_detected_at = sl_now Q, ld_resolved_at = None, ld_resolution = None\<rparr>]"
      using assms(2) by (simp add: open_drift_event_def Let_def bindA_def query_def execute_def)
    with newest_open_None [OF None] show ?thesis
      unfolding open_events_Some [OF inv'] by (auto simp: open_events_Some [OF assms(1)] ld_open_def)
  next
    case (Some x)
    note x = newest_open_Some [OF Some]
    let ?f = "\<lambda>y. if ld_id y = ld_id x then y\<lparr>ld_diff := d, ld_severity := severity, ld_detected_at := sl_now Q\<rparr> else y"
    have rows: "sq_drift ?s = map ?f (sq_drift s)"
      using Some assms(2) by (simp add: open_drift_event_def Let_def bindA_def query_def execute_def)
    have f: "ld_open (?f y) = ld_open y" "ld_resource_id (?f y) = ld_resource_id y" 
      "(ld_severity (?f y), ld_diff (?f y)) = (if ld_id y = ld_id x then (severity, d) else (ld_severity y, ld_diff y))" for y :: local_drift
      by (simp_all add: ld_open_def)
    have same: "ld_id y = ld_id x \<longleftrightarrow> ld_resource_id y = ?rid" if "y \<in> set (sq_drift s)" "ld_open y" for y
      using event_id_unique [OF assms(1) that(1)] open_unique [OF assms(1) that(1)] that x by metis
    have "open_events ?s rid = Some v \<longleftrightarrow> (\<exists>y \<in> set (sq_drift s). ld_open y \<and> ld_resource_id y = rid
        \<and> v = (if ld_id y = ld_id x then (severity, d) else (ld_severity y, ld_diff y)))"
      unfolding open_events_Some [OF inv'] rows set_map bex_simps f ..
    also have "\<dots> \<longleftrightarrow> (\<exists>y \<in> set (sq_drift s). ld_open y \<and> ld_resource_id y = rid
        \<and> v = (if rid = ?rid then (severity, d) else (ld_severity y, ld_diff y)))"
      using same by (metis (no_types, lifting))
    also have "\<dots> \<longleftrightarrow> ((open_events s)(?rid \<mapsto> (severity, d))) rid = Some v"
      using x open_events_Some [OF assms(1), of rid v] by (cases "rid = ?rid") auto
    finally show ?thesis .
  qed
qed

lemma open_events_close:
  assumes "store_inv s" "\<forall>st. sl_fault Q st = None"
  shows "open_events (snd (close_open_drift_for Q i why s)) = (open_events s)(resource_id_to_string i := None)"
proof (rule ext, rule option_eqI)
  fix rid v
  let ?s = "snd (close_open_drift_for Q i why s)"
  have inv': "store_inv ?s" by (rule keepsD [OF keeps_close(1) assms(1)])
  have rows: "sq_drift ?s = map (\<lambda>x. if ld_resource_id x = resource_id_to_string i \<and> ld_open x
      then x\<lparr>ld_resolved_at := Some (sl_now Q), ld_resolution := Some why\<rparr> else x) (sq_drift s)"
    using assms(2) by (simp add: close_open_drift_for_def resolve_where_def bindA_def query_def execute_def)
  show "open_events ?s rid = Some v \<longleftrightarrow> ((open_events s)(resource_id_to_string i := None)) rid = Some v"
    unfolding open_events_Some [OF inv'] rows by (auto simp: open_events_Some [OF assms(1)] ld_open_def)
qed

lemma open_events_record:
  assumes "\<forall>st. sl_fault Q st = None"
  shows "open_events (snd (record_observation Q i obs s)) = open_events s"
  using assms by (simp add: fun_eq_iff open_events_def record_observation_def Let_def bindA_def execute_def)

lemma tried_simps [simp]: "cy_store (tried rid what m c) = snd (m (cy_store c))" "cy_world (tried rid what m c) = cy_world c"
    "cy_drift (tried rid what m c) = cy_drift c"
  by (auto simp: tried_def note_error_def split: prod.splits sum.splits)

lemma note_error_simps [simp]: "cy_store (note_error rid what e c) = cy_store c" "cy_world (note_error rid what e c) = cy_world c"
    "cy_drift (note_error rid what e c) = cy_drift c"
  by (simp_all add: note_error_def)

definition rid_of :: "resource \<Rightarrow> string" where
  "rid_of r = resource_id_to_string (resource_id_of r)"

definition updated :: "'w agent_env \<Rightarrow> 'w \<Rightarrow> resource \<Rightarrow> (string \<Rightarrow> (string \<times> diff) option) \<Rightarrow> string \<Rightarrow> (string \<times> diff) option" where
  "updated E w r view = (case inspect E w r of None \<Rightarrow> view | Some d \<Rightarrow> view(rid_of r := found d))"

definition drifted :: "'w agent_env \<Rightarrow> 'w \<Rightarrow> resource \<Rightarrow> bool" where
  "drifted E w r \<longleftrightarrow> (case inspect E w r of None \<Rightarrow> False | Some d \<Rightarrow> is_change d)"

lemma observe_one_effect:
  assumes pure: "\<forall>k P r w. ax_registry E k = Some P \<longrightarrow> snd (pv_observe P r w) = w"
    and quiet: "\<forall>st. sl_fault (ax_sql E) st = None" and inv: "store_inv (cy_store c)"
  shows "cy_world (observe_one E r c) = cy_world c \<and> store_inv (cy_store (observe_one E r c))
    \<and> open_events (cy_store (observe_one E r c)) = updated E (cy_world c) r (open_events (cy_store c))
    \<and> cy_drift (observe_one E r c) = cy_drift c + (if drifted E (cy_world c) r then 1 else 0)"
proof (cases "ax_registry E (rs_kind r)")
  case None
  with inv show ?thesis by (simp add: observe_one_def require_def updated_def inspect_def drifted_def Let_def ok_or_def)
next
  case (Some P)
  obtain res where obs: "pv_observe P r (cy_world c) = (res, cy_world c)" using pure Some by (metis prod.collapse)
  show ?thesis
  proof (cases res)
    case (Inl e)
    with Some obs inv show ?thesis
      by (simp add: observe_one_def require_def updated_def inspect_def drifted_def Let_def ok_or_def)
  next
    case (Inr ob)
    let ?i = "resource_id_of r"
    let ?s = "snd (record_observation (ax_sql E) ?i ob (cy_store c))"
    have inv1: "store_inv ?s" by (rule keepsD [OF keeps_record_observation inv])
    have ev: "open_events ?s = open_events (cy_store c)" by (rule open_events_record [OF quiet])
    show ?thesis
    proof (cases "pv_diff P (cy_world c) r ob")
      case (Inl e)
      with Some obs Inr inv1 ev show ?thesis
        by (simp add: observe_one_def require_def updated_def inspect_def drifted_def Let_def ok_or_def)
    next
      case (Inr d)
      have "store_inv (snd (open_drift_event (ax_sql E) ?i (severity_for d) d ?s))" "store_inv (snd (close_open_drift_for (ax_sql E) ?i ''drift cleared'' ?s))"
        using keepsD [OF keeps_open_drift inv1] keepsD [OF keeps_close(1) inv1] by blast+
      with Some obs \<open>res = Inr ob\<close> Inr open_events_open [OF inv1 quiet, of ?i "severity_for d" d] open_events_close [OF inv1 quiet, of ?i "''drift cleared''"] ev
      show ?thesis
        by (simp add: observe_one_def require_def updated_def inspect_def drifted_def Let_def ok_or_def found_def rid_of_def)
    qed
  qed
qed

lemma observe_fold_effect:
  assumes pure: "\<forall>k P r w. ax_registry E k = Some P \<longrightarrow> snd (pv_observe P r w) = w"
    and quiet: "\<forall>st. sl_fault (ax_sql E) st = None" and inv: "store_inv (cy_store c)"
  shows "cy_world (fold (observe_one E) rs c) = cy_world c \<and> store_inv (cy_store (fold (observe_one E) rs c))
    \<and> open_events (cy_store (fold (observe_one E) rs c)) = fold (updated E (cy_world c)) rs (open_events (cy_store c))
    \<and> cy_drift (fold (observe_one E) rs c) = cy_drift c + length (filter (drifted E (cy_world c)) rs)"
  using inv
proof (induction rs arbitrary: c)
  case (Cons r rs)
  note one = observe_one_effect [OF pure quiet Cons.prems, of r]
  from Cons.IH [of "observe_one E r c"] one show ?case by simp
qed simp

lemma fold_updated:
  assumes "distinct (map rid_of rs)"
  shows "fold (updated E w) rs view rid =
    (case map_of (map (\<lambda>r. (rid_of r, r)) rs) rid of
       Some r \<Rightarrow> (case inspect E w r of Some d \<Rightarrow> found d | None \<Rightarrow> view rid)
     | None \<Rightarrow> view rid)"
  using assms
proof (induction rs arbitrary: view)
  case (Cons r rs)
  show ?case
  proof (cases "rid = rid_of r")
    case True
    with Cons.prems have "map_of (map (\<lambda>r. (rid_of r, r)) rs) rid = None" by (auto simp: map_of_eq_None_iff)
    with Cons True show ?thesis by (auto simp: updated_def split: option.splits)
  next
    case False
    then have "updated E w r view rid = view rid" by (simp add: updated_def split: option.splits)
    with False Cons show ?thesis by (simp split: option.splits)
  qed
qed simp

lemma merged_keys: "\<forall>(k, r) \<in> set m. k = rid_of r \<Longrightarrow>
  \<forall>(k, r) \<in> set (fold (\<lambda>(k, v). bt_insert k v) (map (\<lambda>r. (rid_of r, r)) rs) m). k = rid_of r"
proof (induction rs arbitrary: m)
  case (Cons r rs)
  have "\<forall>(k, r) \<in> set (bt_insert (rid_of r) r m). k = rid_of r"
    using Cons.prems by (induction "rid_of r" r m rule: bt_insert.induct) auto
  from Cons.IH [OF this] show ?case by simp
qed simp

lemma observed_ids:
  "distinct (map rid_of (observation_resources E local desired))"
  "map_of (map (\<lambda>r. (rid_of r, r)) (observation_resources E local desired)) =
     map_of (rev (map (\<lambda>r. (rid_of r, r)) (local @ (case desired of Some (Inr items) \<Rightarrow> List.map_filter (ax_decode E) items | _ \<Rightarrow> []))))"
proof -
  let ?all = "local @ (case desired of Some (Inr items) \<Rightarrow> List.map_filter (ax_decode E) items | _ \<Rightarrow> [])"
  let ?m = "fold (\<lambda>(k, v). bt_insert k v) (map (\<lambda>r. (rid_of r, r)) ?all) []"
  have obs: "observation_resources E local desired = map snd ?m" by (simp add: observation_resources_def Let_def rid_of_def)
  have "map (\<lambda>r. (rid_of r, r)) (map snd ?m) = ?m"
    unfolding map_map using merged_keys [of "[]" ?all] by (intro map_idI) auto
  then have pairs: "map (\<lambda>r. (rid_of r, r)) (observation_resources E local desired) = ?m" unfolding obs .
  have "map rid_of (observation_resources E local desired) = map fst ?m" unfolding pairs [symmetric] by simp
  then show "distinct (map rid_of (observation_resources E local desired))"
    by (simp only: bt_wf_distinct [OF bt.fold_put_wf [OF bt_wf_Nil]])
  show "map_of (map (\<lambda>r. (rid_of r, r)) (observation_resources E local desired)) = map_of (rev (map (\<lambda>r. (rid_of r, r)) ?all))"
    unfolding pairs by (subst bt.look_fold_put) simp_all
qed

text \<open>
  C20. An observe cycle brings the open drift events in line with what the providers see. Every managed
  resource, the server's version of it before the local one, is looked at once. If its provider reports
  a difference, its open event carries that difference and its severity; if there is none, the event is closed; if
  it cannot be observed, and for every other resource, nothing changes. The cycle counts the differences.
  Providers must not change the world when they observe, and the statements must succeed.
\<close>

theorem observe_tracks_drift:
  assumes pure: "\<forall>k P r w. ax_registry E k = Some P \<longrightarrow> snd (pv_observe P r w) = w"
    and quiet: "\<forall>st. sl_fault (ax_sql E) st = None" and inv: "store_inv (ag_store a)"
    and run: "observe_resources_blocking E started finished (observation_resources E local desired) a = (res, a')"
  shows "hs_world (ag_host a') = hs_world (ag_host a) \<and> store_inv (ag_store a')
    \<and> (\<exists>summary. res = Inr summary
         \<and> cs_drift_detected summary = length (filter (drifted E (hs_world (ag_host a))) (observation_resources E local desired)))
    \<and> open_events (ag_store a') rid =
        (case map_of (rev (map (\<lambda>r. (rid_of r, r)) (local @ (case desired of Some (Inr items) \<Rightarrow> List.map_filter (ax_decode E) items | _ \<Rightarrow> [])))) rid of
           Some r \<Rightarrow> (case inspect E (hs_world (ag_host a)) r of Some d \<Rightarrow> found d | None \<Rightarrow> open_events (ag_store a) rid)
         | None \<Rightarrow> open_events (ag_store a) rid)"
proof -
  let ?rs = "observation_resources E local desired" and ?w = "hs_world (ag_host a)"
  let ?c = "fold (observe_one E) ?rs \<lparr>cy_world = ?w, cy_store = ag_store a, cy_errors = [], cy_drift = 0\<rparr>"
  have c: "cy_world ?c = ?w" "store_inv (cy_store ?c)" "open_events (cy_store ?c) = fold (updated E ?w) ?rs (open_events (ag_store a))"
      "cy_drift ?c = length (filter (drifted E ?w) ?rs)"
    using observe_fold_effect [OF pure quiet, of "\<lparr>cy_world = ?w, cy_store = ag_store a, cy_errors = [], cy_drift = 0\<rparr>" ?rs] inv by simp_all
  let ?err = "if cy_errors ?c = [] then None else Some (join_with ''; '' (cy_errors ?c))"
  let ?run = "record_run (ax_sql E) started (Some finished) (length ?rs) (cy_drift ?c) ?err (cy_store ?c)"
  have run': "fst ?run = Inr (sq_runs_seq (cy_store ?c) + 1)" "open_events (snd ?run) = open_events (cy_store ?c)"
    using quiet by (simp_all add: record_run_def bindA_def execute_def open_events_def fun_eq_iff)
  have "store_inv (snd ?run)" by (rule keepsD [OF keeps_run c(2)])
  moreover have "a' = a\<lparr>ag_host := (ag_host a)\<lparr>hs_world := cy_world ?c\<rparr>, ag_store := snd ?run\<rparr>"
    "res = Inr \<lparr>cs_observed = length ?rs, cs_drift_detected = cy_drift ?c, cs_errors = cy_errors ?c\<rparr>"
    using run run'(1) unfolding observe_resources_blocking_def Let_def split_def by simp_all
  ultimately show ?thesis
    using c run'(2) fold_updated [OF observed_ids(1), of E ?w E local desired "open_events (ag_store a)" rid] by (simp add: observed_ids(2))
qed

section \<open>Token rotation\<close>

text \<open>The margin of the automatic rotation is half of what remains, so only its floor of one hour counts.\<close>

lemma rotation_in_last_hour:
  assumes "token_seconds_until_expiry parse_secs now c = Some remaining"
  shows "maybe_rotate_token parse_secs now reply trouble (c, f) =
    (if remaining \<le> 3600 then bindA (rotate_token reply trouble) (\<lambda>_. doing ()) (c, f) else (Inr (), (c, f)))"
proof -
  have "0 \<le> remaining" using assms by (auto simp: token_seconds_until_expiry_def bind_eq_Some_conv)
  then have "max (remaining div 2) 3600 < remaining \<longleftrightarrow> 3600 < remaining" by auto
  then show ?thesis
    using assms by (auto simp: maybe_rotate_token_def rotate_if_needed_def bindA_def split: prod.splits sum.splits)
qed

section \<open>Samples\<close>

definition drifted_diff :: diff where
  "drifted_diff = no_change\<lparr>df_kind := Update, df_reversible := False\<rparr>"

definition agent_sample_env :: "unit agent_env" where
  "agent_sample_env = \<lparr>ax_registry = register (keyed_provider\<lparr>pv_diff := (\<lambda>w r obs. Inr drifted_diff)\<rparr>) Map.empty,
     ax_exec = (\<lambda>aid. \<lparr>xe_state_dir = [''state''], xe_actor = ''agent'', xe_digest = (\<lambda>s. s), xe_now = ''t5'', xe_op_id = aid,
       xe_step_id = (\<lambda>i k. show_nat k), xe_cp_id = (\<lambda>i k. show_nat k), xe_temp = (\<lambda>p. p), xe_faults = (\<lambda>c p. None), xe_remove_tree = (\<lambda>p w. w)\<rparr>),
     ax_sql = quiet, ax_decode = (\<lambda>v. case v of JStr n \<Rightarrow> Some (keyed_resource n) | _ \<Rightarrow> None),
     ax_show = (\<lambda>e. ''error''), ax_show_report = (\<lambda>r. ''failed''), ax_debug = (\<lambda>s. s)\<rparr>"

definition sample_caps :: capabilities where
  "sample_caps = (case compile_capabilities literal_globs sample_raw of Inr C \<Rightarrow> C | Inl e \<Rightarrow>
     \<lparr>cb_default_kind_policy = DenyKind, cb_files = \<lparr>pa_allow = None, pa_deny = None\<rparr>, cb_nginx_vhost = \<lparr>pa_allow = None, pa_deny = None\<rparr>,
      cb_systemd = \<lparr>na_allow = None\<rparr>, cb_docker = \<lparr>na_allow = None\<rparr>, cb_packages = \<lparr>na_allow = None\<rparr>, cb_cron = \<lparr>na_allow = None\<rparr>\<rparr>)"

definition agent_sample :: "unit agent" where
  "agent_sample = \<lparr>ag_host = \<lparr>hs_world = (), hs_applied = Map.empty, hs_ops = []\<rparr>, ag_store = empty_store,
     ag_capabilities = Some sample_caps, ag_sent = []\<rparr>"

definition mixed_work :: envelope where
  "mixed_work = toy_envelope\<lparr>en_payload := [JStr ''/a'', JStr ''/b'']\<rparr>"

lemmas agent_samples = agent_sample_env_def agent_sample_def mixed_work_def toy_envelope_def quiet_def

lemma sample_decodes: "decode_all agent_sample_env (en_payload mixed_work) = Inr [keyed_resource ''/a'', keyed_resource ''/b'']"
  by (simp add: decode_all_def agent_samples ok_or_def)

lemma sample_denies: "check_capabilities sample_caps (ax_registry agent_sample_env) (keyed_resource ''/b'') \<noteq> Inr ()"
  by (simp add: sample_caps_def compile_capabilities_def compile_paths_def compile_names_def build_set_def literal_globs_def sample_raw_def ok_or_def
      check_capabilities_def check_key_def check_path_def agent_sample_env_def register_def keyed_provider_def keyed_resource_def)

theorem capability_denial_inert_witness:
  "ag_host (snd (run_assignment agent_sample_env mixed_work agent_sample)) = ag_host agent_sample"
  using capability_denial_inert [of agent_sample sample_caps mixed_work agent_sample_env "[keyed_resource ''/a'', keyed_resource ''/b'']",
      OF _ _ sample_decodes] sample_denies
  by (auto simp: agent_sample_def mixed_work_def toy_envelope_def)


definition week_clock :: "string \<Rightarrow> int option" where
  "week_clock t = (if t = ''t1'' then Some 100 else if t = ''t2'' then Some 200 else if t = ''t4'' then Some 1000 else None)"

lemma week_order: "\<forall>s t x y. week_clock s = Some x \<longrightarrow> week_clock t = Some y \<longrightarrow> s < t \<longrightarrow> x \<le> y"
proof -
  have "\<not> ''t2'' < ''t1''" "\<not> ''t4'' < ''t1''" "\<not> ''t4'' < ''t2''" by code_simp+
  then show ?thesis by (auto simp: week_clock_def split: if_splits)
qed

definition processed_sample :: processed_row where
  "processed_sample = \<lparr>pc_assignment_id = ''s1'', pc_processed_at = ''t2'', pc_status = ''succeeded''\<rparr>"


theorem observe_tracks_drift_witness:
  "open_events (ag_store (snd (observe_resources_blocking agent_sample_env ''t1'' ''t2''
     (observation_resources agent_sample_env [keyed_resource ''/a''] (Some (Inr [JStr ''/a'']))) agent_sample))) (rid_of (keyed_resource ''/a'')) =
   Some (''critical'', drifted_diff)"
proof -
  obtain res a' where run: "observe_resources_blocking agent_sample_env ''t1'' ''t2''
      (observation_resources agent_sample_env [keyed_resource ''/a''] (Some (Inr [JStr ''/a'']))) agent_sample = (res, a')" by force
  have pure: "\<forall>k P r w. ax_registry agent_sample_env k = Some P \<longrightarrow> snd (pv_observe P r w) = w"
    by (auto simp: agent_sample_env_def register_def keyed_provider_def split: if_splits)
  have quiet': "\<forall>st. sl_fault (ax_sql agent_sample_env) st = None" by (simp add: agent_samples)
  have inv: "store_inv (ag_store agent_sample)" by (simp add: agent_sample_def empty_store_inv)
  have "inspect agent_sample_env w (keyed_resource ''/a'') = Some drifted_diff" for w
    by (simp add: inspect_def agent_sample_env_def register_def keyed_provider_def keyed_resource_def)
  moreover have "map_of (rev (map (\<lambda>r. (rid_of r, r)) ([keyed_resource ''/a''] @ List.map_filter (ax_decode agent_sample_env) [JStr ''/a''])))
      (rid_of (keyed_resource ''/a'')) = Some (keyed_resource ''/a'')"
    by (simp add: map_filter_simps agent_sample_env_def)
  ultimately have "open_events (ag_store a') (rid_of (keyed_resource ''/a'')) = found drifted_diff"
    using observe_tracks_drift [OF pure quiet' inv run, of "rid_of (keyed_resource ''/a'')"] by simp
  then show ?thesis unfolding run snd_conv by (simp add: found_def is_change_def severity_for_def drifted_diff_def)
qed

end
