(* ===== verification/Drift_Api.thy ===== *)
theory Drift_Api
  imports Operation_Api
begin

text \<open>
  The handlers of \<open>api/drift.rs\<close>: listing and reading drift, the operator's decisions on one event or
  on all that match a filter, and the revert, which submits the last desired state of the resource again.
\<close>

section \<open>Times to live\<close>

text \<open>\<open>saturating_mul\<close> on 64 bits and the cast to a signed number.\<close>

definition ttl_seconds :: "nat \<Rightarrow> nat \<Rightarrow> int" where
  "ttl_seconds n scale = sint (of_nat (min (n * scale) (2 ^ 64 - 1)) :: 64 word)"

definition unit_scale :: "char \<Rightarrow> nat option" where
  "unit_scale c = (if c = CHR ''s'' then Some 1 else if c = CHR ''m'' then Some 60
     else if c = CHR ''h'' then Some 3600 else if c = CHR ''d'' then Some 86400 else None)"

text \<open>\<open>parse_ts\<close> is the timestamp parser of the clock library, which gives the canonical text; a last
  character of several bytes is no unit, as none of its bytes is one.\<close>

definition parse_ttl_to_until :: "call_env \<Rightarrow> (string \<Rightarrow> string option) \<Rightarrow> string \<Rightarrow> (string, string) result" where
  "parse_ttl_to_until E parse_ts text0 =
     (let s = trim text0 in
      case parse_ts s of
        Some ts \<Rightarrow> Inr ts
      | None \<Rightarrow>
          if s = [] then Inl ''empty ttl''
          else case unit_scale (last s) of
            None \<Rightarrow> Inl ''unknown unit suffix; expected s/m/h/d''
          | Some scale \<Rightarrow> (case parse_unsigned 10 (2 ^ 64) (butlast s) of
                None \<Rightarrow> Inl ''non-numeric prefix''
              | Some n \<Rightarrow>
                  if span_seconds_max < \<bar>ttl_seconds n scale\<bar> then Inl ''parameter seconds is not in the required range''
                  else ok_or (ce_after E (ttl_seconds n scale)) ''adding a span to a timestamp overflowed''))"

section \<open>Handlers\<close>

definition list_drift :: "surroundings \<Rightarrow> string \<Rightarrow> string option \<Rightarrow> drift_summary list handler" where
  "list_drift S token agent_id =
     bindA (authorize S token Viewer) (\<lambda>_. reading (list_open_drift (se_call S) agent_id))"

definition get_drift_handler :: "surroundings \<Rightarrow> string \<Rightarrow> int \<Rightarrow> drift_summary handler" where
  "get_drift_handler S token drift_id =
     bindA (authorize S token Viewer) (\<lambda>_. reading (get_drift (se_call S) drift_id))"

definition accept_drift_handler :: "surroundings \<Rightarrow> string \<Rightarrow> int \<Rightarrow> string \<Rightarrow> unit handler" where
  "accept_drift_handler S token drift_id reason =
     bindA (authorize S token Operator) (\<lambda>identity.
       if trim reason = [] then failing (BadRequest (Msg ''reason must not be empty'' []))
       else on_db (accept_drift (se_call S) drift_id (audit_actor identity) reason))"

definition ignore_drift_handler :: "surroundings \<Rightarrow> (string \<Rightarrow> string option) \<Rightarrow> string \<Rightarrow> int \<Rightarrow> string \<Rightarrow> unit handler" where
  "ignore_drift_handler S parse_ts token drift_id until =
     bindA (authorize S token Operator) (\<lambda>identity.
       on_db (ignore_drift (se_call S) parse_ts drift_id (audit_actor identity) until))"

record drift_revert_response =
  rv_operation_id :: string
  rv_resource_id :: string

definition stored_resource :: "serde \<Rightarrow> string \<Rightarrow> db \<Rightarrow> (string \<times> resource_for_routing) api_result" where
  "stored_resource J rid d =
     bindE (ok_or (find_latest_resource_for_revert rid d)
              (BadRequest (Msg ''no desired-state row for resource {:?}; cannot revert without a known good spec'' [rid])))
       (\<lambda>(environment, resource_json).
     bindE (ok_or (from_str J resource_json) (Internal (Msg ''decoding stored resource_json: {e}'' []))) (\<lambda>raw.
     bindE (extract_routing J raw environment) (\<lambda>routed. Inr (environment, routed))))"

definition show_int :: "int \<Rightarrow> string" where
  "show_int i = (if i < 0 then CHR ''-'' # show_nat (nat (- i)) else show_nat (nat i))"

definition revert_summary :: "int \<Rightarrow> string \<Rightarrow> string" where
  "revert_summary drift_id rid = ''revert drift '' @ show_int drift_id @ '' for '' @ rid"

definition revert_drift :: "surroundings \<Rightarrow> string \<Rightarrow> int \<Rightarrow> string option \<Rightarrow> string \<Rightarrow> (nat \<Rightarrow> string) \<Rightarrow> drift_revert_response handler" where
  "revert_drift S token drift_id source_commit oper ulid =
     bindA (authorize S token Operator) (\<lambda>identity.
     bindA (reading (get_drift (se_call S) drift_id)) (\<lambda>drift.
       case dv_resolved_at drift of
         Some t \<Rightarrow> failing (BadRequest (Msg ''drift {drift_id} already resolved at {:?}'' [t]))
       | None \<Rightarrow>
           bindA (reading (stored_resource (ce_serde (se_call S)) (dv_resource_id drift))) (\<lambda>(environment, routed).
           bindA (on_db (create_operation (se_call' S) oper ulid environment (audit_actor identity) (audit_actor identity)
                    source_commit (Some (revert_summary drift_id (dv_resource_id drift))) [routed] [] False None)) (\<lambda>outcome.
             doing \<lparr>rv_operation_id = co_operation_id outcome, rv_resource_id = dv_resource_id drift\<rparr>))))"

definition accept_drift_bulk_handler :: "surroundings \<Rightarrow> string \<Rightarrow> drift_bulk_filter \<Rightarrow> string \<Rightarrow> nat handler" where
  "accept_drift_bulk_handler S token f reason =
     bindA (authorize S token Operator) (\<lambda>identity.
       if trim reason = [] then failing (BadRequest (Msg ''reason must not be empty'' []))
       else if bulk_filter_is_empty f
       then failing (BadRequest (Msg ''filter must specify at least one of agent_id, kind, or severity (refusing to wipe entire drift history)'' []))
       else on_db (accept_drift_bulk (se_call S) f (audit_actor identity) reason))"

definition ignore_drift_bulk_handler :: "surroundings \<Rightarrow> (string \<Rightarrow> string option) \<Rightarrow> string \<Rightarrow> drift_bulk_filter \<Rightarrow> string \<Rightarrow> nat handler" where
  "ignore_drift_bulk_handler S parse_ts token f ttl =
     bindA (authorize S token Operator) (\<lambda>identity.
       if bulk_filter_is_empty f
       then failing (BadRequest (Msg ''filter must specify at least one of agent_id, kind, or severity'' []))
       else case parse_ttl_to_until (se_call S) parse_ts ttl of
         Inl e \<Rightarrow> failing (BadRequest (Msg ''invalid ttl {:?}: {e}'' [ttl, e]))
       | Inr until \<Rightarrow> on_db (ignore_drift_bulk (se_call S) parse_ts f (audit_actor identity) until))"

section \<open>Times to live stay in bounds, mostly\<close>

lemma sint_of_small: "m < 2 ^ 63 \<Longrightarrow> sint (of_nat m :: 64 word) = int m"
proof -
  assume "m < 2 ^ 63"
  moreover have "sint (of_int (int m) :: 64 word) = signed_take_bit 63 (int m)" by (simp only: sint_sbintrunc') simp
  ultimately show ?thesis by (simp add: signed_take_bit_int_eq_self)
qed

lemma ttl_small: "n * scale < 2 ^ 63 \<Longrightarrow> ttl_seconds n scale = int (n * scale)"
  unfolding ttl_seconds_def by (subst sint_of_small) (auto simp: min_def)

text \<open>A product that saturates is the largest 64-bit number, which the cast turns into minus one: an
  event silenced for a very long time is not silenced at all.\<close>

lemma huge_ttl_in_past: "2 ^ 64 \<le> n * scale \<Longrightarrow> ttl_seconds n scale = - 1"
proof -
  assume "2 ^ 64 \<le> n * scale"
  then have "min (n * scale) (2 ^ 64 - 1) = 2 ^ 64 - 1" by simp
  then show ?thesis by (simp add: ttl_seconds_def)
qed

section \<open>What a request may change\<close>

datatype drift_request =
    ListDrift "string option"
  | GetDrift int
  | AcceptDrift int string
  | IgnoreDrift int string
  | RevertDrift int "string option" string "nat \<Rightarrow> string"
  | AcceptBulk drift_bulk_filter string
  | IgnoreBulk drift_bulk_filter string

definition silently :: "'a handler \<Rightarrow> unit handler" where
  "silently h = bindA h (\<lambda>_. doing ())"

fun serve_drift :: "surroundings \<Rightarrow> (string \<Rightarrow> string option) \<Rightarrow> string \<Rightarrow> drift_request \<Rightarrow> unit handler" where
  "serve_drift S parse_ts token (ListDrift agent_id) = silently (list_drift S token agent_id)"
| "serve_drift S parse_ts token (GetDrift i) = silently (get_drift_handler S token i)"
| "serve_drift S parse_ts token (AcceptDrift i reason) = accept_drift_handler S token i reason"
| "serve_drift S parse_ts token (IgnoreDrift i until) = ignore_drift_handler S parse_ts token i until"
| "serve_drift S parse_ts token (RevertDrift i src oper ulid) = silently (revert_drift S token i src oper ulid)"
| "serve_drift S parse_ts token (AcceptBulk f reason) = silently (accept_drift_bulk_handler S token f reason)"
| "serve_drift S parse_ts token (IgnoreBulk f ttl) = silently (ignore_drift_bulk_handler S parse_ts token f ttl)"

text \<open>The rows a request is about.\<close>

fun addressed :: "drift_request \<Rightarrow> drift_row \<Rightarrow> bool" where
  "addressed (AcceptDrift i reason) r \<longleftrightarrow> dr_id r = i \<and> drift_open r \<and> trim reason \<noteq> []"
| "addressed (IgnoreDrift i until) r \<longleftrightarrow> dr_id r = i \<and> drift_open r"
| "addressed (AcceptBulk f reason) r \<longleftrightarrow> bulk_matches f r \<and> \<not> bulk_filter_is_empty f \<and> trim reason \<noteq> []"
| "addressed (IgnoreBulk f ttl) r \<longleftrightarrow> bulk_matches f r \<and> \<not> bulk_filter_is_empty f"
| "addressed _ r \<longleftrightarrow> False"

definition only_rows :: "(drift_row \<Rightarrow> bool) \<Rightarrow> app \<Rightarrow> app \<Rightarrow> bool" where
  "only_rows P s s' \<longleftrightarrow> (\<exists>f. db_drift (app_db s') = map (\<lambda>r. if P r then f r else r) (db_drift (app_db s)))"

lemma only_rows_refl: "only_rows P s s"
  unfolding only_rows_def by (rule exI [of _ "\<lambda>r. r"]) simp

lemma only_rows_same: "db_drift (app_db s') = db_drift (app_db s) \<Longrightarrow> only_rows P s s'"
  unfolding only_rows_def by (rule exI [of _ "\<lambda>r. r"]) simp

lemma authorize_keeps: "authorize S token role s = (r, s') \<Longrightarrow> s' = s"
  by (auto simp: authorize_def)

lemma authorized_cases [consumes 1]:
  assumes "bindA (authorize S token role) h s = (r, s')"
  obtains (refused) "s' = s"
    | (entered) identity where "require_role (se_call S) (se_admin_token S) token role (app_db s) = Inr identity" "h identity s = (r, s')"
  using assms by (cases rule: bindA_cases) (auto simp: authorize_def)

lemma silently_cases [consumes 1]:
  assumes "silently h s = (r, s')"
  obtains q where "h s = (q, s')"
  using assms unfolding silently_def by (cases rule: bindA_cases) auto

lemma accept_bulk_rows:
  assumes "on_db (accept_drift_bulk E f actor reason) s = (r, s')"
  shows "only_rows (bulk_matches f) s s'"
  using assms unfolding only_rows_def
  by (auto simp: on_db_def accept_drift_bulk_def Let_def update_where_def intro!: exI [of _ "accept_row (ce_now E) (''accepted (bulk): '' @ reason)"])

lemma ignore_bulk_rows:
  assumes "on_db (ignore_drift_bulk E parse_ts f actor until) s = (r, s')"
  shows "only_rows (bulk_matches f) s s'"
proof (cases "parse_until parse_ts until")
  case (Inl e)
  with assms show ?thesis by (auto simp: on_db_def ignore_drift_bulk_def intro: only_rows_refl)
next
  case (Inr ts)
  with assms show ?thesis unfolding only_rows_def
    by (auto simp: on_db_def ignore_drift_bulk_def Let_def update_where_def intro!: exI [of _ "\<lambda>r. r\<lparr>dr_ignored_until := Some ts\<rparr>"])
qed

lemma accept_one_rows:
  assumes "on_db (accept_drift E i actor reason) s = (r, s')"
  shows "only_rows (\<lambda>r. dr_id r = i \<and> drift_open r) s s'"
proof (cases "rows_affected (\<lambda>r. dr_id r = i \<and> drift_open r) (db_drift (app_db s)) = 0")
  case True
  with assms show ?thesis by (auto simp: on_db_def accept_drift_def Let_def intro: only_rows_refl)
next
  case False
  with assms show ?thesis unfolding only_rows_def
    by (auto simp: on_db_def accept_drift_def Let_def update_where_def intro!: exI [of _ "accept_row (ce_now E) (''accepted: '' @ reason)"])
qed

lemma ignore_one_rows:
  assumes "on_db (ignore_drift E parse_ts i actor until) s = (r, s')"
  shows "only_rows (\<lambda>r. dr_id r = i \<and> drift_open r) s s'"
proof (cases "parse_until parse_ts until")
  case (Inl e)
  with assms show ?thesis by (auto simp: on_db_def ignore_drift_def intro: only_rows_refl)
next
  case ts: (Inr ts)
  show ?thesis
  proof (cases "rows_affected (\<lambda>r. dr_id r = i \<and> drift_open r) (db_drift (app_db s)) = 0")
    case True
    with ts assms show ?thesis by (auto simp: on_db_def ignore_drift_def Let_def intro: only_rows_refl)
  next
    case False
    with ts assms show ?thesis unfolding only_rows_def
      by (auto simp: on_db_def ignore_drift_def Let_def update_where_def intro!: exI [of _ "\<lambda>r. r\<lparr>dr_ignored_until := Some ts\<rparr>"])
  qed
qed

lemma revert_cases:
  assumes "revert_drift S token i src oper ulid s = (r, s')"
  obtains (refused) e where "r = Inl e" "s' = s"
  | (reverted) identity drift environment routed outcome where
      "require_role (se_call S) (se_admin_token S) token Operator (app_db s) = Inr identity"
      "get_drift (se_call S) i (app_db s) = Inr drift" "dv_resolved_at drift = None"
      "stored_resource (ce_serde (se_call S)) (dv_resource_id drift) (app_db s) = Inr (environment, routed)"
      "create_operation (se_call' S) oper ulid environment (audit_actor identity) (audit_actor identity) src
         (Some (revert_summary i (dv_resource_id drift))) [routed] [] False None (app_db s) = Inr (app_db s', outcome)"
      "r = Inr \<lparr>rv_operation_id = co_operation_id outcome, rv_resource_id = dv_resource_id drift\<rparr>"
  using assms unfolding revert_drift_def
proof (cases rule: bindA_cases)
  case (fails e)
  then show thesis using refused by (auto simp: authorize_def)
next
  case (passes identity s1)
  then have id: "require_role (se_call S) (se_admin_token S) token Operator (app_db s) = Inr identity" and s1: "s1 = s"
    by (auto simp: authorize_def)
  from passes(2) [unfolded s1] show thesis
  proof (cases rule: bindA_cases)
    case (fails e)
    then show thesis using refused by auto
  next
    case (passes drift s2)
    then have dr: "get_drift (se_call S) i (app_db s) = Inr drift" and s2: "s2 = s" by auto
    show thesis
    proof (cases "dv_resolved_at drift")
      case (Some t)
      with passes(2) s2 show thesis using refused by auto
    next
      case None
      show thesis
      proof (cases "stored_resource (ce_serde (se_call S)) (dv_resource_id drift) (app_db s)")
        case (Inl e)
        with passes(2) None s2 show thesis using refused by (auto simp: bindA_def)
      next
        case (Inr p)
        obtain environment routed where p: "p = (environment, routed)" by force
        with passes(2) None s2 Inr show thesis
          using refused reverted [OF id dr None] by (auto simp: bindA_def on_db_def split: sum.splits prod.splits)
      qed
    qed
  qed
qed

text \<open>
  C36. Requests about drift change only what they are about. Whatever the request and its outcome, no drift
  event appears or disappears; an event changes only if it is open, the request addresses it, and the
  caller is an operator; a bulk request without a filter, or an acceptance without a reason, addresses nothing.
\<close>

theorem drift_requests_scoped:
  assumes "serve_drift S parse_ts token req s = (r, s')"
  shows "length (db_drift (app_db s')) = length (db_drift (app_db s))
    \<and> (\<forall>k < length (db_drift (app_db s)). db_drift (app_db s') ! k \<noteq> db_drift (app_db s) ! k \<longrightarrow>
         drift_open (db_drift (app_db s) ! k) \<and> addressed req (db_drift (app_db s) ! k)
         \<and> (\<exists>identity. require_role (se_call S) (se_admin_token S) token Operator (app_db s) = Inr identity))"
proof -
  let ?auth = "\<exists>identity. require_role (se_call S) (se_admin_token S) token Operator (app_db s) = Inr identity"
  have sound: "addressed req x \<Longrightarrow> drift_open x" for x by (cases req) (auto simp: bulk_matches_def)
  have "only_rows (\<lambda>x. addressed req x \<and> ?auth) s s'"
  proof (cases req)
    case (ListDrift a)
    with assms show ?thesis by (auto simp: list_drift_def elim!: silently_cases authorized_cases intro: only_rows_refl)
  next
    case (GetDrift i)
    with assms show ?thesis by (auto simp: get_drift_handler_def elim!: silently_cases authorized_cases intro: only_rows_refl)
  next
    case (AcceptDrift i reason)
    with assms show ?thesis
      by (auto simp: accept_drift_handler_def elim!: authorized_cases intro: only_rows_refl dest!: accept_one_rows split: if_splits)
  next
    case (IgnoreDrift i until)
    with assms show ?thesis
      by (auto simp: ignore_drift_handler_def elim!: authorized_cases intro: only_rows_refl dest!: ignore_one_rows)
  next
    case (RevertDrift i src oper ulid)
    with assms obtain q where q: "revert_drift S token i src oper ulid s = (q, s')" by (auto elim: silently_cases)
    have "db_drift (app_db s') = db_drift (app_db s)"
      using q by (cases rule: revert_cases) (auto dest!: create_frame simp: part_defs)
    then show ?thesis by (rule only_rows_same)
  next
    case (AcceptBulk f reason)
    with assms show ?thesis
      by (auto simp: accept_drift_bulk_handler_def elim!: silently_cases authorized_cases intro: only_rows_refl dest!: accept_bulk_rows split: if_splits)
  next
    case (IgnoreBulk f ttl)
    with assms show ?thesis
      by (auto simp: ignore_drift_bulk_handler_def elim!: silently_cases authorized_cases intro: only_rows_refl dest!: ignore_bulk_rows
          split: if_splits sum.splits)
  qed
  then show ?thesis using sound by (auto simp: only_rows_def split: if_splits)
qed

lemma find_row: "find P xs = Some x \<Longrightarrow> x \<in> set xs \<and> P x"
  by (auto simp: find_Some_iff)

lemma newest_desired:
  assumes "find_latest_resource_for_revert rid d = Some (environment, stored)"
  shows "\<exists>row \<in> set (db_desired d). ds_resource_id row = rid \<and> ds_environment row = environment \<and> ds_spec_json row = stored
    \<and> (\<forall>y \<in> set (db_desired d). ds_resource_id y = rid \<longrightarrow> ds_id y \<le> ds_id row)"
proof -
  let ?xs = "sort_key ds_id (filter (\<lambda>r. ds_resource_id r = rid) (db_desired d))"
  obtain row rest where r: "rev ?xs = row # rest" "environment = ds_environment row" "stored = ds_spec_json row"
    using assms by (cases "rev ?xs") (simp_all add: find_latest_resource_for_revert_def)
  have xs: "?xs = rev rest @ [row]" using arg_cong [OF r(1), of rev] by (simp only: rev_rev_ident rev.simps)
  have "sorted (map ds_id ?xs)" by simp
  then have top: "\<forall>y \<in> set rest. ds_id y \<le> ds_id row" unfolding xs by (auto simp: sorted_append)
  have "set ?xs = {r \<in> set (db_desired d). ds_resource_id r = rid}" by simp
  then have "insert row (set rest) = {r \<in> set (db_desired d). ds_resource_id r = rid}" unfolding xs by auto
  then have mem: "\<And>y. y \<in> set (db_desired d) \<and> ds_resource_id y = rid \<longleftrightarrow> y = row \<or> y \<in> set rest" by (auto simp: set_eq_iff)
  have "\<forall>y \<in> set (db_desired d). ds_resource_id y = rid \<longrightarrow> ds_id y \<le> ds_id row" using mem top by (metis order_refl)
  with mem [of row] r(2,3) show ?thesis by auto
qed

text \<open>
  A revert submits the newest desired state of the drifted resource once more. The event is open and stays
  as it is; the operation carries the manifest that was stored last for this resource and environment, and it is
  dispatched at once, whatever policies require.
\<close>

theorem revert_reapplies_newest:
  assumes "revert_drift S token i src oper ulid s = (Inr resp, s')"
  shows "\<exists>event row raw routed x w.
      event \<in> set (db_drift (app_db s)) \<and> dr_id event = i \<and> drift_open event
    \<and> row \<in> set (db_desired (app_db s)) \<and> ds_resource_id row = dr_resource_id event
    \<and> (\<forall>y \<in> set (db_desired (app_db s)). ds_resource_id y = dr_resource_id event \<longrightarrow> ds_id y \<le> ds_id row)
    \<and> from_str (ce_serde (se_call S)) (ds_spec_json row) = Some raw
    \<and> extract_routing (ce_serde (se_call S)) raw (ds_environment row) = Inr routed
    \<and> db_desired (app_db s') = db_desired (app_db s) @ [x] \<and> desired_of oper routed x
    \<and> w \<in> set (db_operations (app_db s')) \<and> op_id w = oper \<and> op_status w \<in> {OpPending, OpSucceeded}
    \<and> db_drift (app_db s') = db_drift (app_db s)"
  using assms
proof (cases rule: revert_cases)
  case (reverted identity drift environment routed outcome)
  obtain event where e: "event \<in> set (db_drift (app_db s))" "dr_id event = i" "dr_resource_id event = dv_resource_id drift" "drift_open event"
    using reverted(2,3) unfolding get_drift_def row_to_drift_summary_def
    by (auto simp: ok_or_def dest!: find_row elim!: bindE_InrE split: option.splits)
  obtain stored raw where t: "find_latest_resource_for_revert (dr_resource_id event) (app_db s) = Some (environment, stored)"
      "from_str (ce_serde (se_call S)) stored = Some raw" "extract_routing (ce_serde (se_call S)) raw environment = Inr routed"
    using reverted(4) unfolding stored_resource_def e(3) by (auto simp: ok_or_def elim!: bindE_InrE split: option.splits)
  obtain x where x: "db_desired (app_db s') = db_desired (app_db s) @ [x]" "desired_of oper routed x"
    using create_desired [OF reverted(5)] by (auto simp: list_all2_Cons1)
  obtain w where ops: "db_operations (app_db s') = db_operations (app_db s) @ [w]" "op_id w = oper" "op_status w \<in> {OpPending, OpSucceeded}"
    by (rule create_result [OF reverted(5)]) (auto split: if_splits)
  then have w: "w \<in> set (db_operations (app_db s'))" "op_id w = oper" "op_status w \<in> {OpPending, OpSucceeded}" by simp_all
  have "db_drift (app_db s') = db_drift (app_db s)" using create_frame [OF reverted(5)] by (simp add: part_defs)
  with e t x w newest_desired [OF t(1)] show ?thesis by blast
qed simp

section \<open>Samples\<close>

definition drift_sample :: drift_row where
  "drift_sample = \<lparr>dr_id = 7, dr_agent_id = ''a1'', dr_resource_id = ''file/prod/motd'', dr_kind = ''file'', dr_severity = ''warning'',
     dr_diff_json = [], dr_detected_at = ''t1'', dr_received_at = ''t1'', dr_ignored_until = None, dr_resolved_at = None, dr_resolution = None\<rparr>"

theorem drift_requests_scoped_witness:
  "db_drift (app_db (snd (serve_drift (sample_surroundings []) Some ''adm'' (AcceptBulk \<lparr>bf_agent_id = None, bf_kind = None, bf_severity = None\<rparr> ''ok'')
     (sample_app (sample_fleet\<lparr>db_drift := [drift_sample]\<rparr>))))) = [drift_sample]"
proof -
  let ?s = "sample_app (sample_fleet\<lparr>db_drift := [drift_sample]\<rparr>)"
  let ?req = "AcceptBulk \<lparr>bf_agent_id = None, bf_kind = None, bf_severity = None\<rparr> ''ok''"
  obtain r s' where r: "serve_drift (sample_surroundings []) Some ''adm'' ?req ?s = (r, s')" by force
  have "\<not> addressed ?req x" for x by (simp add: bulk_filter_is_empty_def)
  with drift_requests_scoped [OF r] have "length (db_drift (app_db s')) = 1" "db_drift (app_db s') ! 0 = drift_sample"
    by (auto simp: sample_app_def)
  then show ?thesis unfolding r snd_conv by (cases "db_drift (app_db s')") auto
qed

definition stored_manifest :: json where
  "stored_manifest = JObj [(''kind'', JStr ''file''), (''metadata'', JObj [(''name'', JStr ''motd'')]), (''spec'', JObj [])]"

definition revert_serde :: serde where
  "revert_serde = \<lparr>from_str = (\<lambda>s. if s = ''d'' then Some (diff_to_json no_change) else Some stored_manifest), to_str = (\<lambda>_. ''{}'')\<rparr>"

definition revert_surroundings :: surroundings where
  "revert_surroundings = (sample_surroundings [])\<lparr>se_call := (sample_env ''t1'' ''t0'')\<lparr>ce_serde := revert_serde\<rparr>\<rparr>"

definition drifted_db :: db where
  "drifted_db = sample_fleet\<lparr>db_drift := [drift_sample\<lparr>dr_diff_json := ''d''\<rparr>], db_desired := [\<lparr>ds_id = 1, ds_operation_id = ''op0'',
     ds_resource_id = ''file/prod/motd'', ds_kind = ''file'', ds_environment = ''prod'', ds_spec_json = ''m'', ds_metadata_json = []\<rparr>],
     db_desired_seq := 1, db_operations := [new_operation_row (sample_env ''t0'' ''t0'') ''op0'' ''prod'' ''al'' None None [] False]\<rparr>"

lemma revert_created: "\<exists>d' out. create_operation (sample_env ''t1'' ''t0'') ''op1'' ulid ''prod'' ''admin'' ''admin'' None (Some (revert_summary 7 ''file/prod/motd''))
    [sample_entry] [] False None drifted_db = Inr (d', out)"
proof -
  have l: "compute_resource_layers (ce_serde (sample_env ''t1'' ''t0'')) [sample_entry] = Inr [0]"
    by (simp add: compute_resource_layers_def sample_env_def read_depends_on_def)
  have r: "route_resource sample_entry ''prod'' (agent_snapshot drifted_db) = Inr ''a1''"
    by (simp add: route_resource_def sample_entry_def agent_snapshot_def drifted_db_def sample_fleet_def sample_agent_def)
  have db: "op_id ` set (db_operations drifted_db) = {''op0''}" "db_assignments drifted_db = []" "ag_id ` set (db_agents drifted_db) = {''a1''}"
    by (simp_all add: drifted_db_def new_operation_row_def sample_fleet_def sample_agent_def empty_db_def)
  have new: "\<forall>x \<in> set (db_desired drifted_db). ds_operation_id x = ''op1'' \<longrightarrow> ds_resource_id x \<noteq> rf_resource_id sample_entry"
    by (simp add: drifted_db_def)
  obtain payload where p: "bucket_payload (ce_serde (sample_env ''t1'' ''t0'')) [sample_entry] = Inr payload"
    by (simp add: bucket_payload_def parse_json_def sample_env_def)
  show ?thesis
    using l r db(1-3) new p
    by (simp add: create_operation_def insert_operation_def insert_desired_def dispatch_buckets_def new_operation_row_def
        insert_assignment_def new_assignment_def)
qed

lemma sample_reverts: "\<exists>resp s'. revert_drift revert_surroundings ''adm'' 7 None ''op1'' (\<lambda>i. show_nat i) (sample_app drifted_db) = (Inr resp, s')"
proof -
  let ?S = revert_surroundings and ?s = "sample_app drifted_db"
  have auth: "authorize ?S ''adm'' Operator s = (Inr LegacyAdmin, s)" for s
    by (simp add: authorize_def require_role_def resolve_def revert_surroundings_def sample_surroundings_def)
  have x: "extract_routing revert_serde stored_manifest ''prod'' = Inr sample_entry"
    by (simp add: extract_routing_def routing_environment_def stored_manifest_def revert_serde_def sample_entry_def jpath.simps host_selector_of_def)
  have d: "diff_of (diff_to_json no_change) = Some no_change" by code_simp
  have st: "stored_resource revert_serde ''file/prod/motd'' drifted_db = Inr (''prod'', sample_entry)"
    using x by (simp add: stored_resource_def find_latest_resource_for_revert_def drifted_db_def revert_serde_def ok_or_def)
  have g: "\<exists>dv. get_drift (se_call ?S) 7 drifted_db = Inr dv \<and> dv_resolved_at dv = None \<and> dv_resource_id dv = ''file/prod/motd''"
    using d by (simp add: get_drift_def row_to_drift_summary_def drifted_db_def drift_sample_def revert_surroundings_def revert_serde_def ok_or_def)
  have call: "se_call' ?S = sample_env ''t1'' ''t0''" by (simp add: revert_surroundings_def sample_surroundings_def)
  obtain d' out where c: "create_operation (se_call' ?S) ''op1'' (\<lambda>i. show_nat i) ''prod'' ''admin'' ''admin'' None (Some (revert_summary 7 ''file/prod/motd''))
      [sample_entry] [] False None drifted_db = Inr (d', out)"
    using revert_created unfolding call by blast
  have db: "app_db ?s = drifted_db" "ce_serde (se_call ?S) = revert_serde" "audit_actor LegacyAdmin = ''admin''"
    by (simp_all add: sample_app_def revert_surroundings_def)
  from g obtain dv where "get_drift (se_call ?S) 7 drifted_db = Inr dv" "dv_resolved_at dv = None" "dv_resource_id dv = ''file/prod/motd''" by blast
  then show ?thesis using c st by (simp add: revert_drift_def bindA_def auth on_db_def db)
qed

theorem revert_reapplies_newest_witness:
  "\<exists>resp s' w. revert_drift revert_surroundings ''adm'' 7 None ''op1'' (\<lambda>i. show_nat i) (sample_app drifted_db) = (Inr resp, s')
     \<and> w \<in> set (db_operations (app_db s')) \<and> op_id w = ''op1'' \<and> op_status w \<in> {OpPending, OpSucceeded}"
proof -
  obtain resp s' where "revert_drift revert_surroundings ''adm'' 7 None ''op1'' (\<lambda>i. show_nat i) (sample_app drifted_db) = (Inr resp, s')"
    using sample_reverts by blast
  from revert_reapplies_newest [OF this] this show ?thesis by blast
qed

end
