(* ===== verification/User_Api.thy ===== *)
theory User_Api
  imports App_State Client_Ip
begin

text \<open>
  The handlers of people: login, logout and refresh (\<open>api/auth.rs\<close>) and the administration of users
  (\<open>api/users.rs\<close>). Argon2 is given: \<open>verify\<close> is \<open>verify_password\<close>, which has no error to answer with, and
  a freshly salted hash, or its failure, is an argument of the requests that store one. The sessions ignore
  a failure to write the audit log, the administration of users reports it.
\<close>

section \<open>Sessions\<close>

definition token_ttl_secs :: int where
  "token_ttl_secs = 24 * 60 * 60"

fun role_to_str :: "role \<Rightarrow> string" where
  "role_to_str Viewer = ''viewer''"
| "role_to_str Operator = ''operator''"
| "role_to_str Approver = ''approver''"
| "role_to_str Admin = ''admin''"

record login_response =
  lr_token :: string
  lr_expires_at :: string
  lr_roles :: "string list"

definition login_response_of :: "string \<times> string \<times> user_record \<Rightarrow> login_response" where
  "login_response_of = (\<lambda>(token, expires_at, user).
     \<lparr>lr_token = token, lr_expires_at = expires_at, lr_roles = map role_to_str (ur_roles user)\<rparr>)"

definition login_record :: "string \<Rightarrow> 'a api_result \<Rightarrow> audit_record" where
  "login_record username outcome =
     (case outcome of
        Inr _ \<Rightarrow> audit_severity ''info'' (audit_new (''user:'' @ username) ''auth.login_succeeded'')
      | Inl e \<Rightarrow> audit_payload (jobject [(''attempted_username'', JStr username)]) (audit_severity ''warning''
          (audit_new ''anonymous'' (if e = Unauthorized then ''auth.login_failed'' else ''auth.login_errored''))))"

definition login_handler :: "surroundings \<Rightarrow> (string \<Rightarrow> string \<Rightarrow> bool) \<Rightarrow> string \<Rightarrow> string list \<Rightarrow> string \<Rightarrow> string \<Rightarrow> string
    \<Rightarrow> login_response handler" where
  "login_handler S verify socket_ip forwarded username password new_token =
     (if username = [] \<or> password = [] then failing (BadRequest (Msg ''username and password must be non-empty'' []))
      else
        let client_ip = effective_client_ip (se_parse_ip S) forwarded socket_ip (cf_trusted_proxies (se_config S)) in
        bindA (limited (check_and_record_login username client_ip (se_instant S) (se_instant' S))) (\<lambda>_.
        bindA (attempt (on_db (login (se_call S) verify new_token username password token_ttl_secs))) (\<lambda>outcome.
        bindA (attempt (recorded (se_call' S) (login_record username outcome))) (\<lambda>_ :: unit api_result.
        bindA (from_result outcome) (\<lambda>x. doing (login_response_of x))))))"

definition logout :: "surroundings \<Rightarrow> string \<Rightarrow> unit handler" where
  "logout S token =
     bindA (attempt (reading (resolve (se_call S) (se_admin_token S) token))) (\<lambda>identity.
     bindA (on_db (revoke_user_token (se_call S) token)) (\<lambda>_.
       case identity of
         Inr who \<Rightarrow> bindA (attempt (recorded (se_call' S) (audit_severity ''info'' (audit_new (audit_actor who) ''auth.logout''))))
           (\<lambda>_ :: unit api_result. doing ())
       | Inl _ \<Rightarrow> doing ()))"

definition refresh :: "surroundings \<Rightarrow> string \<Rightarrow> string \<Rightarrow> login_response handler" where
  "refresh S token new_token =
     bindA (on_db (refresh_user_token (se_call S) new_token token token_ttl_secs)) (\<lambda>x.
     bindA (attempt (recorded (se_call' S) (audit_payload (jobject [(''user_id'', JStr (ur_id (snd (snd x))))])
              (audit_severity ''info'' (audit_new (''user:'' @ ur_username (snd (snd x))) ''auth.token_refreshed''))))) (\<lambda>_ :: unit api_result.
       doing (login_response_of x)))"

section \<open>Administration\<close>

definition parse_role :: "string \<Rightarrow> role api_result" where
  "parse_role r =
     (if r = ''viewer'' then Inr Viewer else if r = ''operator'' then Inr Operator
      else if r = ''approver'' then Inr Approver else if r = ''admin'' then Inr Admin
      else Inl (BadRequest (Msg ''unknown role {other:?}; valid: viewer | operator | approver | admin'' [r])))"

definition parse_roles :: "string list \<Rightarrow> role list api_result" where
  "parse_roles = traverse parse_role"

definition user_audit :: "identity \<Rightarrow> string \<Rightarrow> string \<Rightarrow> string \<Rightarrow> role list \<Rightarrow> audit_record" where
  "user_audit identity kind user_id username roles =
     audit_payload (jobject [(''user_id'', JStr user_id), (''username'', JStr username), (''roles'', JArr (map (\<lambda>r. JStr (role_to_str r)) roles))])
       (audit_new (audit_actor identity) kind)"

definition create_user_handler :: "surroundings \<Rightarrow> string \<Rightarrow> string \<Rightarrow> string option \<Rightarrow> string \<Rightarrow> string \<Rightarrow> string list \<Rightarrow> string handler" where
  "create_user_handler S token uid phc username password roles_strs =
     bindA (authorize S token Admin) (\<lambda>identity.
     bindA (from_result (parse_roles roles_strs)) (\<lambda>roles.
     bindA (on_db (create_user (se_call S) uid phc username password roles)) (\<lambda>user_id.
     bindA (recorded (se_call' S) (user_audit identity ''user.created'' user_id username roles)) (\<lambda>_.
       doing user_id))))"

record user_view =
  uv_id :: string
  uv_username :: string
  uv_roles :: "string list"
  uv_created_at :: string
  uv_disabled_at :: "string option"

definition list_users_handler :: "surroundings \<Rightarrow> string \<Rightarrow> user_view list handler" where
  "list_users_handler S token =
     bindA (authorize S token Admin) (\<lambda>_. reading (\<lambda>d. Inr (map (\<lambda>r. \<lparr>uv_id = ul_id r, uv_username = ul_username r,
       uv_roles = map role_to_str (ul_roles r), uv_created_at = ul_created_at r, uv_disabled_at = ul_disabled_at r\<rparr>) (list_users d))))"

record update_request =
  uq_roles :: "string list option"
  uq_disabled :: "bool option"
  uq_password :: "string option"

text \<open>The three changes run one after the other, each in a transaction of its own; the name of a change
  that was made is added to \<open>applied\<close>.\<close>

definition roles_change :: "surroundings \<Rightarrow> string \<Rightarrow> update_request \<Rightarrow> string list handler" where
  "roles_change S uid req =
     (case uq_roles req of None \<Rightarrow> doing []
      | Some strs \<Rightarrow> bindA (from_result (parse_roles strs)) (\<lambda>roles.
          bindA (on_db (update_user_roles uid roles)) (\<lambda>_. doing [''roles''])))"

definition disabled_change :: "surroundings \<Rightarrow> string \<Rightarrow> update_request \<Rightarrow> string list handler" where
  "disabled_change S uid req =
     (case uq_disabled req of None \<Rightarrow> doing []
      | Some True \<Rightarrow> bindA (on_db (disable_user (se_call S) uid)) (\<lambda>_. doing [''disabled''])
      | Some False \<Rightarrow> bindA (on_db (enable_user uid)) (\<lambda>_. doing [''enabled'']))"

definition password_change :: "string \<Rightarrow> string option \<Rightarrow> update_request \<Rightarrow> string list handler" where
  "password_change uid phc req =
     (case uq_password req of None \<Rightarrow> doing []
      | Some pw \<Rightarrow> bindA (on_db (set_user_password phc uid pw)) (\<lambda>_. doing [''password'']))"

definition update_record :: "identity \<Rightarrow> string \<Rightarrow> update_request \<Rightarrow> string list \<Rightarrow> audit_record" where
  "update_record identity uid req applied =
     audit_payload (jobject [(''user_id'', JStr uid), (''fields'', jstrs applied),
         (''roles'', case uq_roles req of None \<Rightarrow> JNull | Some rs \<Rightarrow> jstrs rs),
         (''disabled'', case uq_disabled req of None \<Rightarrow> JNull | Some b \<Rightarrow> JBool b),
         (''password_changed'', JBool (uq_password req \<noteq> None))])
       (audit_new (audit_actor identity) ''user.updated'')"

definition update_user :: "surroundings \<Rightarrow> string \<Rightarrow> string \<Rightarrow> string option \<Rightarrow> update_request \<Rightarrow> string list handler" where
  "update_user S token uid phc req =
     bindA (authorize S token Admin) (\<lambda>identity.
     bindA (roles_change S uid req) (\<lambda>a1.
     bindA (disabled_change S uid req) (\<lambda>a2.
     bindA (password_change uid phc req) (\<lambda>a3.
       if a1 @ a2 @ a3 = [] then failing (BadRequest (Msg ''request must set at least one of: roles, disabled, password'' []))
       else bindA (recorded (se_call' S) (update_record identity uid req (a1 @ a2 @ a3))) (\<lambda>_. doing (a1 @ a2 @ a3))))))"

definition disable_user_handler :: "surroundings \<Rightarrow> string \<Rightarrow> string \<Rightarrow> unit handler" where
  "disable_user_handler S token uid =
     bindA (authorize S token Admin) (\<lambda>identity.
     bindA (on_db (disable_user (se_call S) uid)) (\<lambda>_.
       recorded (se_call' S) (audit_payload (jobject [(''user_id'', JStr uid)]) (audit_new (audit_actor identity) ''user.disabled''))))"

section \<open>What a request keeps\<close>

definition preserves :: "(db \<Rightarrow> bool) \<Rightarrow> 'a handler \<Rightarrow> bool" where
  "preserves P h \<longleftrightarrow> (\<forall>s r s'. h s = (r, s') \<longrightarrow> P (app_db s) \<longrightarrow> P (app_db s'))"

named_theorems handler_rules \<open>what the steps of a handler preserve\<close>

lemma preserves_idle: "db_idle h \<Longrightarrow> preserves P h"
  by (auto simp: preserves_def db_idle_def)

lemma preserves_pure [handler_rules]: "preserves P (doing x)" "preserves P (failing e)" "preserves P (from_result y)" "preserves P (reading q)"
    "preserves P (limited l)" "preserves P (authorize S token role)"
  by (auto intro!: preserves_idle)

lemma preserves_bind [handler_rules]:
  assumes "preserves P m" "\<And>x. preserves P (f x)"
  shows "preserves P (bindA m f)"
  unfolding preserves_def
proof (intro allI impI)
  fix s r s' assume "bindA m f s = (r, s')" "P (app_db s)"
  then show "P (app_db s')" by (cases rule: bindA_cases) (use assms in \<open>auto simp: preserves_def\<close>)
qed

lemma preserves_attempt [handler_rules]: "preserves P h \<Longrightarrow> preserves P (attempt h)"
  by (auto simp: preserves_def)

lemma preserves_if [handler_rules]: "preserves P a \<Longrightarrow> preserves P b \<Longrightarrow> preserves P (if c then a else b)"
  by simp

lemma preserves_recorded: "(\<And>d. P d \<Longrightarrow> P (audited E rec d)) \<Longrightarrow> preserves P (recorded E rec)"
  by (auto simp: preserves_def elim!: recorded_cases)

lemma preserves_on_db: "(\<And>d d' x. P d \<Longrightarrow> t d = Inr (d', x) \<Longrightarrow> P d') \<Longrightarrow> preserves P (on_db t)"
  by (auto simp: preserves_def on_db_def split: sum.splits prod.splits)

text \<open>Everything the requests do to people and sessions is one of the calls of the store.\<close>

lemma preserves_calls:
  assumes "\<And>c d. P d \<Longrightarrow> P (user_step c d)" "\<And>E rec d. P d \<Longrightarrow> P (audited E rec d)"
  shows "preserves P (on_db (login E verify tok name pw ttl))" "preserves P (on_db (revoke_user_token E tok))"
    "preserves P (on_db (refresh_user_token E tok old ttl))" "preserves P (on_db (create_user E uid phc name pw roles))"
    "preserves P (on_db (update_user_roles uid roles))" "preserves P (on_db (disable_user E uid))"
    "preserves P (on_db (enable_user uid))" "preserves P (on_db (set_user_password phc uid pw))" "preserves P (recorded E rec)"
proof -
  have c: "t d = Inr (d', x) \<Longrightarrow> commit t d = d'" for t :: "'b tx" and d d' x by (simp add: commit_def)
  show "preserves P (on_db (login E verify tok name pw ttl))"
    by (rule preserves_on_db) (metis c assms(1) user_step.simps(2))
  show "preserves P (on_db (revoke_user_token E tok))"
    by (rule preserves_on_db) (metis c assms(1) user_step.simps(4))
  show "preserves P (on_db (refresh_user_token E tok old ttl))"
    by (rule preserves_on_db) (metis c assms(1) user_step.simps(3))
  show "preserves P (on_db (create_user E uid phc name pw roles))"
    by (rule preserves_on_db) (metis c assms(1) user_step.simps(1))
  show "preserves P (on_db (update_user_roles uid roles))"
    by (rule preserves_on_db) (metis c assms(1) user_step.simps(6))
  show "preserves P (on_db (disable_user E uid))"
    by (rule preserves_on_db) (metis c assms(1) user_step.simps(7))
  show "preserves P (on_db (enable_user uid))"
    by (rule preserves_on_db) (metis c assms(1) user_step.simps(8))
  show "preserves P (on_db (set_user_password phc uid pw))"
    by (rule preserves_on_db) (metis c assms(1) user_step.simps(9))
  show "preserves P (recorded E rec)" by (rule preserves_recorded) (rule assms(2))
qed

datatype people_request =
    LoginRequest "string \<Rightarrow> string \<Rightarrow> bool" string "string list" string string string
  | LogoutRequest string
  | RefreshRequest string string
  | CreateUserRequest string string "string option" string string "string list"
  | ListUsersRequest string
  | UpdateUserRequest string string "string option" update_request
  | DisableUserRequest string string

definition muted :: "'a handler \<Rightarrow> unit handler" where
  "muted h = bindA h (\<lambda>_. doing ())"

fun serve_people :: "surroundings \<Rightarrow> people_request \<Rightarrow> unit handler" where
  "serve_people S (LoginRequest verify ip fwd name pw tok) = muted (login_handler S verify ip fwd name pw tok)"
| "serve_people S (LogoutRequest token) = logout S token"
| "serve_people S (RefreshRequest token tok) = muted (refresh S token tok)"
| "serve_people S (CreateUserRequest token uid phc name pw roles) = muted (create_user_handler S token uid phc name pw roles)"
| "serve_people S (ListUsersRequest token) = muted (list_users_handler S token)"
| "serve_people S (UpdateUserRequest token uid phc req) = muted (update_user S token uid phc req)"
| "serve_people S (DisableUserRequest token uid) = disable_user_handler S token uid"

fun request_token :: "people_request \<Rightarrow> string option" where
  "request_token (CreateUserRequest token uid phc name pw roles) = Some token"
| "request_token (UpdateUserRequest token uid phc req) = Some token"
| "request_token (DisableUserRequest token uid) = Some token"
| "request_token _ = None"

lemma preserves_changes:
  assumes "\<And>c d. P d \<Longrightarrow> P (user_step c d)" "\<And>E rec d. P d \<Longrightarrow> P (audited E rec d)"
  shows "preserves P (roles_change S uid req)" "preserves P (disabled_change S uid req)" "preserves P (password_change uid phc req)"
  unfolding roles_change_def disabled_change_def password_change_def
  by (auto intro!: handler_rules preserves_calls [OF assms] split: option.splits bool.splits)

lemma serve_people_preserves:
  assumes "\<And>c d. P d \<Longrightarrow> P (user_step c d)" "\<And>E rec d. P d \<Longrightarrow> P (audited E rec d)"
  shows "preserves P (serve_people S req)"
  using preserves_calls [OF assms] preserves_changes [OF assms]
  by (cases req) (auto simp: muted_def login_handler_def logout_def refresh_def create_user_handler_def list_users_handler_def update_user_def
      disable_user_handler_def Let_def intro!: handler_rules split: sum.splits)

lemma has_admin_audited: "has_active_admin d \<Longrightarrow> has_active_admin (audited E rec d)"
  by (simp add: has_active_admin_def)

lemma users_inv_audited: "users_inv d \<Longrightarrow> users_inv (audited E rec d)"
  by (simp add: users_inv_def)

lemma sessions_keep_users:
  assumes "request_token req = None" "serve_people S req s = (r, s')"
  shows "db_users (app_db s') = db_users (app_db s)"
proof -
  have l: "preserves (\<lambda>d. db_users d = U) (on_db (login E verify tok name pw ttl))" for U E verify tok name pw ttl
    by (rule preserves_on_db) (auto dest: login_users)
  have f: "preserves (\<lambda>d. db_users d = U) (on_db (refresh_user_token E tok old ttl))" for U E tok old ttl
    by (rule preserves_on_db) (auto dest: refresh_users)
  have v: "preserves (\<lambda>d. db_users d = U) (on_db (revoke_user_token E tok))" for U E tok
    by (rule preserves_on_db) (auto simp: revoke_user_token_def)
  have a: "preserves (\<lambda>d. db_users d = U) (recorded E rec)" for U E rec by (rule preserves_recorded) simp
  have "preserves (\<lambda>d. db_users d = U) (serve_people S req)" for U
    using assms(1) l f v a
    by (cases req) (auto simp: muted_def login_handler_def logout_def refresh_def list_users_handler_def Let_def intro!: handler_rules split: sum.splits)
  with assms(2) show ?thesis by (auto simp: preserves_def)
qed

lemma admin_handler_refused:
  assumes "bindA (authorize S token Admin) h s = (r, s')" "app_db s' \<noteq> app_db s"
  shows "\<exists>identity. require_role (se_call S) (se_admin_token S) token Admin (app_db s) = Inr identity"
  using assms by (cases rule: bindA_cases) (auto simp: authorize_def)

lemma muted_idle: "muted h s = (r, s') \<Longrightarrow> \<exists>q. h s = (q, s')"
  unfolding muted_def by (cases rule: bindA_cases) auto

text \<open>
  C31. The requests of people keep the accounts in order. Whatever the request and its outcome, an active
  admin remains, user names and live sessions stay consistent, and the table of users changes only if the
  request carried the token of an admin.
\<close>

theorem people_requests_guarded:
  assumes "serve_people S req s = (r, s')"
  shows "(has_active_admin (app_db s) \<longrightarrow> has_active_admin (app_db s'))
    \<and> (users_inv (app_db s) \<longrightarrow> users_inv (app_db s'))
    \<and> (db_users (app_db s') \<noteq> db_users (app_db s) \<longrightarrow>
        (\<exists>token identity. request_token req = Some token
           \<and> require_role (se_call S) (se_admin_token S) token Admin (app_db s) = Inr identity))"
proof (intro conjI impI)
  show "has_active_admin (app_db s')" if "has_active_admin (app_db s)"
    using serve_people_preserves [where P = has_active_admin, OF user_call_admin has_admin_audited] assms that by (auto simp: preserves_def)
  show "users_inv (app_db s')" if "users_inv (app_db s)"
    using serve_people_preserves [where P = users_inv, OF user_call_inv users_inv_audited] assms that by (auto simp: preserves_def)
  assume changed: "db_users (app_db s') \<noteq> db_users (app_db s)"
  then obtain token where token: "request_token req = Some token" using sessions_keep_users [OF _ assms] by fastforce
  have "app_db s' \<noteq> app_db s" using changed by auto
  then have "\<exists>identity. require_role (se_call S) (se_admin_token S) token Admin (app_db s) = Inr identity"
    using token assms
    by (cases req) (auto simp: create_user_handler_def update_user_def disable_user_handler_def dest!: muted_idle intro: admin_handler_refused)
  with token show "\<exists>token identity. request_token req = Some token
      \<and> require_role (se_call S) (se_admin_token S) token Admin (app_db s) = Inr identity" by blast
qed

text \<open>
  C32. A login attempt leaves a trace. An attempt with an empty field, or one the rate limiter refuses, changes
  no table, checks no password and is not logged. Every other attempt appends one entry to the audit log that
  says how it ended, unless the write of that entry itself fails, which the handler ignores; a failed attempt
  changes nothing else, and a successful one names an enabled user whose password was verified and adds one
  session of that user.
\<close>

theorem login_leaves_trace:
  assumes "login_handler S verify ip fwd name pw tok s = (r, s')"
  shows "if name = [] \<or> pw = [] \<or> (\<exists>e. snd (check_and_record_login name (effective_client_ip (se_parse_ip S) fwd ip (cf_trusted_proxies (se_config S)))
             (se_instant S) (se_instant' S) (app_limiter s)) = Inl e)
    then app_db s' = app_db s \<and> (\<exists>e. r = Inl e)
    else \<exists>d rec. (case r of
        Inl e \<Rightarrow> d = app_db s \<and> rec = audit_payload (jobject [(''attempted_username'', JStr name)]) (audit_severity ''warning''
            (audit_new ''anonymous'' (if e = Unauthorized then ''auth.login_failed'' else ''auth.login_errored'')))
      | Inr resp \<Rightarrow> rec = audit_severity ''info'' (audit_new (''user:'' @ name) ''auth.login_succeeded'')
          \<and> (\<exists>u \<in> set (db_users (app_db s)). us_username u = name \<and> us_disabled_at u = None \<and> verify pw (us_password_hash u)
              \<and> d = (app_db s)\<lparr>db_tokens := db_tokens (app_db s) @ [\<lparr>ut_token_hash = ce_hash (se_call S) (lr_token resp), ut_user_id = us_id u,
                 ut_issued_at = ce_now (se_call S), ut_expires_at = lr_expires_at resp\<rparr>]\<rparr>))
      \<and> app_db s' = (if ce_fault (se_call' S) WriteAudit = None then audited (se_call' S) rec d else d)"
proof (cases "name = [] \<or> pw = []")
  case True
  with assms show ?thesis by (auto simp: login_handler_def)
next
  case False
  let ?client = "effective_client_ip (se_parse_ip S) fwd ip (cf_trusted_proxies (se_config S))"
  obtain L lr where L: "check_and_record_login name ?client (se_instant S) (se_instant' S) (app_limiter s) = (L, lr)" by force
  let ?t = "login (se_call S) verify tok name pw token_ttl_secs"
  let ?s = "s\<lparr>app_limiter := L\<rparr>"
  let ?log = "\<lambda>rec d. if ce_fault (se_call' S) WriteAudit = None then audited (se_call' S) rec d else d"
  note def = assms [unfolded login_handler_def Let_def if_not_P [OF False]]
  show ?thesis
  proof (cases lr)
    case (Inl e)
    with def L have "r = Inl e" "s' = ?s" by (auto simp: limited_def bindA_def)
    with L Inl show ?thesis by auto
  next
    case (Inr u0)
    have step: "bindA (attempt (on_db ?t)) (\<lambda>outcome. bindA (attempt (recorded (se_call' S) (login_record name outcome))) (\<lambda>_ :: unit api_result.
        bindA (from_result outcome) (\<lambda>x. doing (login_response_of x)))) ?s = (r, s')"
      using def L Inr by (simp add: limited_def bindA_def)
    show ?thesis
    proof (cases "?t (app_db s)")
      case (Inl e)
      with step have "r = Inl e" "app_db s' = ?log (login_record name (Inl e :: (string \<times> string \<times> user_record) api_result)) (app_db s)"
        by (auto simp: bindA_def attempt_def on_db_def recorded_apply split: option.splits)
      with False L \<open>lr = Inr u0\<close> show ?thesis by (auto simp: login_record_def)
    next
      case (Inr p)
      obtain d tk expires rec where p: "p = (d, tk, expires, rec)" by (metis surj_pair)
      obtain u where u: "u \<in> set (db_users (app_db s))" "us_username u = name" "us_disabled_at u = None" "verify pw (us_password_hash u)"
        "insert_token \<lparr>ut_token_hash = ce_hash (se_call S) tok, ut_user_id = us_id u, ut_issued_at = ce_now (se_call S), ut_expires_at = expires\<rparr> (app_db s) = Inr d"
        "tk = tok"
        by (rule login_result [OF Inr [unfolded p]])
      have "r = Inr (login_response_of (tk, expires, rec))" "app_db s' = ?log (login_record name (Inr (tk, expires, rec))) d"
        using step Inr p by (auto simp: bindA_def attempt_def on_db_def recorded_apply split: option.splits)
      moreover have "d = (app_db s)\<lparr>db_tokens := db_tokens (app_db s) @ [\<lparr>ut_token_hash = ce_hash (se_call S) tok, ut_user_id = us_id u,
                 ut_issued_at = ce_now (se_call S), ut_expires_at = expires\<rparr>]\<rparr>"
        using u(5) by (auto simp: insert_token_def split: if_splits)
      ultimately show ?thesis
        using False L \<open>lr = Inr u0\<close> u(1-4,6)
        by (auto simp: login_record_def login_response_of_def intro!: exI [of _ d] bexI [of _ u])
    qed
  qed
qed

text \<open>An update whose later part fails keeps its earlier part, without an entry in the audit log.\<close>

lemma partial_update_unaudited:
  assumes "require_role (se_call S) (se_admin_token S) token Admin (app_db s) = Inr identity"
    and "parse_roles strs = Inr roles" "update_user_roles uid roles (app_db s) = Inr (d, ())"
    and "uq_roles req = Some strs" "uq_disabled req = None" "uq_password req = Some []"
  shows "\<exists>e. update_user S token uid phc req s = (Inl e, s\<lparr>app_db := d\<rparr>) \<and> db_audit d = db_audit (app_db s)"
proof -
  have "db_audit d = db_audit (app_db s)" using assms(3) by (auto simp: update_user_roles_def bindE_Inr_iff split: if_splits)
  moreover have "update_user S token uid phc req s = (Inl (BadRequest (Msg ''password must not be empty'' [])), s\<lparr>app_db := d\<rparr>)"
    using assms by (simp add: update_user_def bindA_def authorize_def roles_change_def disabled_change_def password_change_def on_db_def set_user_password_def)
  ultimately show ?thesis by blast
qed

section \<open>Samples\<close>

definition people_surroundings :: surroundings where
  "people_surroundings = \<lparr>se_admin_token = Some ''adm'', se_config = sample_config, se_config' = sample_config, se_calendar = sample_calendar,
     se_clock = 0, se_parse_ip = Some, se_instant = 0, se_instant' = 0, se_yaml = (\<lambda>_. None), se_registry = None, se_secrets = sample_secret_host,
     se_call = user_env ''t1'', se_call' = user_env ''t1''\<rparr>"

definition people_app :: app where
  "people_app = \<lparr>app_db = sample_users, app_limiter = from_config \<lparr>rc_operations_per_minute = None, rc_agent_requests_per_minute = None,
       rc_login_per_minute_per_user = None, rc_login_per_minute_per_ip = None, rc_register_per_minute_per_ip = None\<rparr>,
     app_metrics = metrics_from_config sample_calendar [] []\<rparr>"

theorem people_requests_guarded_witness:
  "has_active_admin (app_db (snd (serve_people people_surroundings (DisableUserRequest ''adm'' ''u1'') people_app)))"
proof -
  obtain r s' where r: "serve_people people_surroundings (DisableUserRequest ''adm'' ''u1'') people_app = (r, s')" by force
  have "has_active_admin (app_db people_app)" using sample_users_inv(2) by (simp add: people_app_def)
  with people_requests_guarded [OF r] show ?thesis unfolding r by simp
qed

theorem login_leaves_trace_witness:
  "app_db (snd (login_handler people_surroundings (\<lambda>p h. False) ''10.0.0.1'' [] ''root'' ''guess'' ''tok'' people_app)) =
     audited (user_env ''t1'') (audit_payload (jobject [(''attempted_username'', JStr ''root'')]) (audit_severity ''warning''
       (audit_new ''anonymous'' ''auth.login_failed''))) sample_users"
proof -
  let ?l = "login_handler people_surroundings (\<lambda>p h. False) ''10.0.0.1'' [] ''root'' ''guess'' ''tok'' people_app"
  have lim: "check_and_record_login name ip t u (app_limiter people_app) = (app_limiter people_app, Inr ())" for name ip t u
    by (simp add: check_and_record_login_def people_app_def from_config_def norm_cap_def)
  have "login (user_env ''t1'') (\<lambda>p h. False) ''tok'' ''root'' ''guess'' token_ttl_secs sample_users = Inl Unauthorized"
    by (simp add: login_defs sample_users_def sample_root_def)
  moreover have fine: "ce_fault (user_env ''t1'') WriteAudit = None" by (simp add: user_env_def)
  ultimately have "fst ?l = Inl Unauthorized"
    by (simp add: login_handler_def Let_def bindA_def limited_def lim attempt_def on_db_def people_surroundings_def) (simp add: people_app_def)
  then obtain s' where s': "?l = (Inl Unauthorized, s')" by (metis prod.collapse)
  from login_leaves_trace [OF s'] show ?thesis
    unfolding s' by (simp add: lim people_surroundings_def fine) (simp add: people_app_def)
qed

end
