(* ===== verification/Sql_Placeholders.thy ===== *)
theory Sql_Placeholders
  imports Iac_Prelude
begin

text \<open>
  The translation of \<open>?\<close> placeholders into \<open>$1, $2, ...\<close> for Postgres (\<open>store.rs\<close>, \<open>Dialect\<close>,
  \<open>translate_placeholders_to_pg\<close>, \<open>sql\<close>). The abstract view of a statement is a list of tokens;
  the theorem says that exactly the placeholder tokens are rewritten, numbered from one in order.
\<close>

datatype dialect = Sqlite | Postgres

definition starts_with :: "string \<Rightarrow> string \<Rightarrow> bool" where
  "starts_with s p \<longleftrightarrow> is_prefix p s"

definition dialect_from_url :: "string \<Rightarrow> dialect api_result" where
  "dialect_from_url url =
     (if starts_with url ''sqlite:'' then Inr Sqlite
      else if starts_with url ''postgres:'' \<or> starts_with url ''postgresql:'' then Inr Postgres
      else Inl (Internal (Msg ''unsupported database_url scheme: {url:?} (expected sqlite:// or postgres://)'' [url])))"

text \<open>The three nested loops of the scanner as three functions; \<open>n\<close> counts the placeholders.\<close>

fun pg_text :: "nat \<Rightarrow> string \<Rightarrow> string" and pg_quoted :: "nat \<Rightarrow> string \<Rightarrow> string"
  and pg_comment :: "nat \<Rightarrow> string \<Rightarrow> string" where
  "pg_text n [] = []"
| "pg_text n (c # cs) =
     (if c = CHR 0x27 then c # pg_quoted n cs
      else if c = CHR ''-'' \<and> (case cs of [] \<Rightarrow> False | d # _ \<Rightarrow> d = CHR ''-'') then c # pg_comment n cs
      else if c = CHR ''?'' then CHR ''$'' # show_nat (n + 1) @ pg_text (n + 1) cs
      else c # pg_text n cs)"
| "pg_quoted n [] = []"
| "pg_quoted n (c # cs) =
     (if c = CHR 0x27
      then (case cs of
              d # ds \<Rightarrow> if d = CHR 0x27 then c # d # pg_quoted n ds else c # pg_text n (d # ds)
            | [] \<Rightarrow> [c])
      else c # pg_quoted n cs)"
| "pg_comment n [] = []"
| "pg_comment n (c # cs) = (if c = CHR 0x0A then c # pg_text n cs else c # pg_comment n cs)"

definition translate_placeholders_to_pg :: "string \<Rightarrow> string" where
  "translate_placeholders_to_pg s = pg_text 0 s"

definition sql :: "dialect \<Rightarrow> string \<Rightarrow> string" where
  "sql dial s = (case dial of Sqlite \<Rightarrow> s | Postgres \<Rightarrow> translate_placeholders_to_pg s)"

section \<open>Statements as tokens\<close>

text \<open>A quoted literal with its content unescaped, a line comment with its text, a placeholder, or
  a plain character.\<close>

datatype token = Quoted string | Comment string | Placeholder | Plain char

definition escape :: "string \<Rightarrow> string" where
  "escape s = concat (map (\<lambda>c. if c = CHR 0x27 then [c, c] else [c]) s)"

fun print_token :: "token \<Rightarrow> string" where
  "print_token (Quoted s) = [CHR 0x27] @ escape s @ [CHR 0x27]"
| "print_token (Comment s) = ''--'' @ s @ [CHR 0x0A]"
| "print_token Placeholder = ''?''"
| "print_token (Plain c) = [c]"

definition print_sql :: "token list \<Rightarrow> string" where
  "print_sql ts = concat (map print_token ts)"

fun print_pg :: "nat \<Rightarrow> token list \<Rightarrow> string" where
  "print_pg n [] = []"
| "print_pg n (Placeholder # ts) = CHR ''$'' # show_nat (n + 1) @ print_pg (n + 1) ts"
| "print_pg n (t # ts) = print_token t @ print_pg n ts"

fun token_wf :: "token \<Rightarrow> bool" where
  "token_wf (Comment s) = (CHR 0x0A \<notin> set s)"
| "token_wf (Plain c) = (c \<notin> {CHR 0x27, CHR ''-'', CHR ''?''})"
| "token_wf t = True"

text \<open>Two adjacent quoted literals would read as one with an escaped quote between them.\<close>

fun tokens_wf :: "token list \<Rightarrow> bool" where
  "tokens_wf [] = True"
| "tokens_wf (t # ts) = (token_wf t \<and> tokens_wf ts
     \<and> (case (t, ts) of (Quoted _, Quoted _ # _) \<Rightarrow> False | _ \<Rightarrow> True))"

lemma pg_quoted_escape:
  assumes "rest = [] \<or> hd rest \<noteq> CHR 0x27"
  shows "pg_quoted n (escape s @ CHR 0x27 # rest) = escape s @ CHR 0x27 # pg_text n rest"
proof (induction s)
  case Nil
  show ?case using assms by (cases rest) (auto simp: escape_def)
next
  case (Cons c s)
  then show ?case by (auto simp: escape_def)
qed

lemma pg_comment_line: "CHR 0x0A \<notin> set s \<Longrightarrow> pg_comment n (s @ CHR 0x0A # rest) = s @ CHR 0x0A # pg_text n rest"
  by (induction s) auto

lemma print_sql_no_quote:
  assumes "tokens_wf (Quoted s # ts)"
  shows "print_sql ts = [] \<or> hd (print_sql ts) \<noteq> CHR 0x27"
proof (cases ts)
  case (Cons t us)
  with assms show ?thesis by (cases t) (auto simp: print_sql_def)
qed (simp add: print_sql_def)

lemma pg_text_tokens: "tokens_wf ts \<Longrightarrow> pg_text n (print_sql ts) = print_pg n ts"
proof (induction ts arbitrary: n)
  case Nil
  show ?case by (simp add: print_sql_def)
next
  case (Cons t ts)
  have pr: "print_sql (x # ts) = print_token x @ print_sql ts" for x by (simp add: print_sql_def)
  have IH: "pg_text m (print_sql ts) = print_pg m ts" for m using Cons by (simp split: token.splits)
  show ?case
  proof (cases t)
    case (Quoted s)
    have "pg_quoted n (escape s @ CHR 0x27 # print_sql ts) = escape s @ CHR 0x27 # pg_text n (print_sql ts)"
      by (rule pg_quoted_escape) (use print_sql_no_quote Cons.prems Quoted in blast)
    then show ?thesis by (simp add: pr Quoted IH)
  next
    case (Comment s)
    have "CHR 0x0A \<notin> set s" using Cons.prems Comment by simp
    from pg_comment_line [OF this, of n "print_sql ts"] show ?thesis by (simp add: pr Comment IH)
  next
    case Placeholder
    then show ?thesis by (simp add: pr IH)
  next
    case (Plain c)
    with Cons.prems have "c \<noteq> CHR 0x27" "c \<noteq> CHR ''-''" "c \<noteq> CHR ''?''" by auto
    then show ?thesis by (simp add: pr Plain IH)
  qed
qed

text \<open>
  Placeholder translation rewrites the placeholders and nothing else: in a statement made of
  quoted literals (with escaped quotes), line comments, placeholders and other characters, the
  \<open>k\<close>-th placeholder becomes \<open>$k\<close> and every question mark inside a literal or a comment, like all
  other text, is copied. For SQLite the statement is unchanged.
\<close>

theorem placeholders_translated:
  assumes "tokens_wf ts"
  shows "sql Postgres (print_sql ts) = print_pg 0 ts \<and> sql Sqlite (print_sql ts) = print_sql ts"
  using pg_text_tokens [OF assms] by (simp add: sql_def translate_placeholders_to_pg_def)

theorem placeholders_translated_witness:
  "sql Postgres (print_sql [Placeholder, Quoted ''a?b'', Plain CHR '','', Placeholder]) = ''$1'' @ [CHR 0x27] @ ''a?b'' @ [CHR 0x27] @ '',$2''"
proof -
  have s: "show_nat 1 = ''1''" "show_nat 2 = ''2''" by code_simp+
  have "tokens_wf [Placeholder, Quoted ''a?b'', Plain CHR '','', Placeholder]" by simp
  from placeholders_translated [OF this] s show ?thesis by (simp add: escape_def numeral_2_eq_2 [symmetric])
qed

end
