(* ===== verification/File_System.thy ===== *)
theory File_System
  imports Provider_Api Text_Tools
begin

text \<open>
  The part of a POSIX file system that the \<open>file\<close> provider uses: nodes with content, mode and owner,
  and the system calls behind \<open>std::fs\<close> and \<open>rustix::fs\<close>, each with the error it reports. The kernel
  record holds what the host decides: which calls fail, the ids of the process, the mode of a file
  created with 0600, and the mode bits that survive a \<open>chown\<close>.

  Symbolic links are followed at the last component of a path only; a path that runs through one is
  reported as \<open>ENOTDIR\<close>. The component \<open>..\<close> is an ordinary name.
\<close>

section \<open>Nodes\<close>

datatype node = Regular (node_content: string) (node_mode: nat) (node_uid: nat) (node_gid: nat)
  | Directory | Symlink path | OtherNode

type_synonym fs = "path \<Rightarrow> node option"

datatype errno = ENOENT | EEXIST | ENOTDIR | EISDIR | ELOOP | EOTHER string

fun errno_text :: "errno \<Rightarrow> string" where
  "errno_text ENOENT = ''No such file or directory''"
| "errno_text EEXIST = ''File exists''"
| "errno_text ENOTDIR = ''Not a directory''"
| "errno_text EISDIR = ''Is a directory''"
| "errno_text ELOOP = ''Too many levels of symbolic links''"
| "errno_text (EOTHER e) = e"

record kernel =
  kn_faults :: faults
  kn_euid :: nat
  kn_egid :: nat
  kn_new_mode :: nat
  kn_chown_mode :: "nat \<Rightarrow> nat"

definition syscall :: "kernel \<Rightarrow> syscall \<Rightarrow> path \<Rightarrow> (fs, errno, 'a) act \<Rightarrow> (fs, errno, 'a) act" where
  "syscall K c p m = (\<lambda>f. case kn_faults K c p of Some e \<Rightarrow> (Inl (EOTHER e), f) | None \<Rightarrow> m f)"

text \<open>The first directory on the way to a path that is not one.\<close>

definition walk :: "fs \<Rightarrow> path \<Rightarrow> errno option" where
  "walk f p = (case find (\<lambda>i. f (take i p) \<noteq> Some Directory) [0..<length p] of
     None \<Rightarrow> None
   | Some i \<Rightarrow> Some (if f (take i p) = None then ENOENT else ENOTDIR))"

definition look :: "fs \<Rightarrow> path \<Rightarrow> (errno, node) result" where
  "look f p = (case walk f p of Some e \<Rightarrow> Inl e | None \<Rightarrow> ok_or (f p) ENOENT)"

fun resolve_link :: "nat \<Rightarrow> fs \<Rightarrow> path \<Rightarrow> (errno, path) result" where
  "resolve_link n f p =
     (case f p of Some (Symlink q) \<Rightarrow> if n = 0 then Inl ELOOP else resolve_link (n - 1) f q | _ \<Rightarrow> Inr p)"

declare resolve_link.simps [simp del]

definition max_links :: nat where
  "max_links = 40"

section \<open>System calls\<close>

definition lstat :: "kernel \<Rightarrow> path \<Rightarrow> (fs, errno, node) act" where
  "lstat K p = syscall K SysStat p (\<lambda>f. (look f p, f))"

text \<open>\<open>Path::exists\<close>: follows links, and an error reads as absent.\<close>

definition path_exists :: "kernel \<Rightarrow> fs \<Rightarrow> path \<Rightarrow> bool" where
  "path_exists K f p \<longleftrightarrow> kn_faults K SysStat p = None
     \<and> (case resolve_link max_links f p of Inl _ \<Rightarrow> False | Inr q \<Rightarrow> (case look f q of Inl _ \<Rightarrow> False | Inr _ \<Rightarrow> True))"

text \<open>\<open>create_dir_all\<close>: every missing directory on the way; what is in the way is an error.\<close>

fun mkdir_from :: "kernel \<Rightarrow> path \<Rightarrow> path \<Rightarrow> (fs, errno, unit) act" where
  "mkdir_from K pre [] = doing ()"
| "mkdir_from K pre (c # cs) = (\<lambda>f.
     let p = pre @ [c] in
     case f p of
       None \<Rightarrow> bindA (syscall K SysMkdir p (\<lambda>f. (Inr (), f(p \<mapsto> Directory)))) (\<lambda>_. mkdir_from K p cs) f
     | Some Directory \<Rightarrow> mkdir_from K p cs f
     | Some n \<Rightarrow>
         (case resolve_link max_links f p of
            Inl e \<Rightarrow> (Inl e, f)
          | Inr q \<Rightarrow> if cs = [] \<and> f q = Some Directory then (Inr (), f)
                      else (Inl (if cs = [] then EEXIST else ENOTDIR), f)))"

definition create_dir_all :: "kernel \<Rightarrow> path \<Rightarrow> (fs, errno, unit) act" where
  "create_dir_all K p = mkdir_from K [] p"

text \<open>\<open>open\<close> with \<open>O_DIRECTORY | O_NOFOLLOW\<close>.\<close>

definition open_directory :: "kernel \<Rightarrow> path \<Rightarrow> (fs, errno, unit) act" where
  "open_directory K p = syscall K SysOpen p (\<lambda>f.
     (case look f p of Inl e \<Rightarrow> Inl e | Inr Directory \<Rightarrow> Inr () | Inr _ \<Rightarrow> Inl ENOTDIR, f))"

text \<open>\<open>openat\<close> with \<open>O_CREAT | O_EXCL | O_NOFOLLOW\<close> and mode 0600.\<close>

definition create_excl :: "kernel \<Rightarrow> path \<Rightarrow> (fs, errno, unit) act" where
  "create_excl K p = syscall K SysCreate p (\<lambda>f.
     case look f p of
       Inl ENOENT \<Rightarrow> if walk f p = None
         then (Inr (), f(p \<mapsto> Regular [] (kn_new_mode K) (kn_euid K) (kn_egid K))) else (Inl ENOENT, f)
     | Inl e \<Rightarrow> (Inl e, f)
     | Inr _ \<Rightarrow> (Inl EEXIST, f))"

definition update_file :: "path \<Rightarrow> (node \<Rightarrow> node) \<Rightarrow> fs \<Rightarrow> fs" where
  "update_file p g f = (case f p of Some (Regular c m u k) \<Rightarrow> f(p \<mapsto> g (Regular c m u k)) | _ \<Rightarrow> f)"

text \<open>Writing through the descriptor of the file just created at \<open>p\<close>.\<close>

definition write_all :: "kernel \<Rightarrow> path \<Rightarrow> string \<Rightarrow> (fs, errno, unit) act" where
  "write_all K p content = syscall K SysWrite p (\<lambda>f.
     (Inr (), update_file p (\<lambda>n. Regular content (node_mode n) (node_uid n) (node_gid n)) f))"

definition chmod :: "kernel \<Rightarrow> path \<Rightarrow> nat \<Rightarrow> (fs, errno, unit) act" where
  "chmod K p mode = syscall K SysChmod p (\<lambda>f.
     (Inr (), update_file p (\<lambda>n. Regular (node_content n) (mode mod 4096) (node_uid n) (node_gid n)) f))"

definition chown :: "kernel \<Rightarrow> path \<Rightarrow> nat option \<Rightarrow> nat option \<Rightarrow> (fs, errno, unit) act" where
  "chown K p uid gid = syscall K SysChown p (\<lambda>f.
     (Inr (), update_file p (\<lambda>n. Regular (node_content n) (kn_chown_mode K (node_mode n))
        (case uid of Some u \<Rightarrow> u | None \<Rightarrow> node_uid n) (case gid of Some g \<Rightarrow> g | None \<Rightarrow> node_gid n)) f))"

definition rename :: "kernel \<Rightarrow> path \<Rightarrow> path \<Rightarrow> (fs, errno, unit) act" where
  "rename K p q = syscall K SysRename q (\<lambda>f.
     case look f p of
       Inl e \<Rightarrow> (Inl e, f)
     | Inr n \<Rightarrow>
         (case walk f q of
            Some e \<Rightarrow> (Inl e, f)
          | None \<Rightarrow> if f q = Some Directory then (Inl EISDIR, f) else (Inr (), (f(p := None))(q \<mapsto> n))))"

definition unlink :: "kernel \<Rightarrow> path \<Rightarrow> (fs, errno, unit) act" where
  "unlink K p = syscall K SysUnlink p (\<lambda>f.
     case look f p of
       Inl e \<Rightarrow> (Inl e, f)
     | Inr Directory \<Rightarrow> (Inl EISDIR, f)
     | Inr _ \<Rightarrow> (Inr (), f(p := None)))"

text \<open>\<open>fs::read\<close> and \<open>fs::copy\<close>, which follow links. A copy carries the permission bits over; a new file
  belongs to the process, an existing one keeps its owner.\<close>

definition read_file :: "kernel \<Rightarrow> path \<Rightarrow> fs \<Rightarrow> (errno, string) result" where
  "read_file K p f =
     (case kn_faults K SysRead p of Some e \<Rightarrow> Inl (EOTHER e) | None \<Rightarrow>
        bindE (resolve_link max_links f p) (\<lambda>q. bindE (look f q) (\<lambda>n.
          case n of Regular c m u g \<Rightarrow> Inr c | Directory \<Rightarrow> Inl EISDIR | Symlink _ \<Rightarrow> Inl ELOOP | OtherNode \<Rightarrow> Inr [])))"

definition copy_file :: "kernel \<Rightarrow> path \<Rightarrow> path \<Rightarrow> (fs, errno, unit) act" where
  "copy_file K p q = syscall K SysCopy q (\<lambda>f.
     case bindE (resolve_link max_links f p) (look f) of
       Inl e \<Rightarrow> (Inl e, f)
     | Inr (Regular c m u g) \<Rightarrow>
         (case resolve_link max_links f q of
            Inl e \<Rightarrow> (Inl e, f)
          | Inr d \<Rightarrow>
              (case walk f d of
                 Some e \<Rightarrow> (Inl e, f)
               | None \<Rightarrow>
                   (case f d of
                      None \<Rightarrow> (Inr (), f(d \<mapsto> Regular c m (kn_euid K) (kn_egid K)))
                    | Some (Regular _ _ u' g') \<Rightarrow> (Inr (), f(d \<mapsto> Regular c m u' g'))
                    | Some Directory \<Rightarrow> (Inl EISDIR, f)
                    | Some _ \<Rightarrow> (Inr (), f))))
     | Inr _ \<Rightarrow> (Inl (EOTHER ''the source path is neither a regular file nor a symlink to a regular file''), f))"

text \<open>\<open>remove_dir_all\<close>.\<close>

fun starts_with :: "path \<Rightarrow> path \<Rightarrow> bool" where
  "starts_with [] q = True"
| "starts_with (x # p) [] = False"
| "starts_with (x # p) (y # q) = (x = y \<and> starts_with p q)"

definition remove_tree :: "path \<Rightarrow> fs \<Rightarrow> fs" where
  "remove_tree p f = (\<lambda>q. if starts_with p q then None else f q)"

end
