(* ===== verification/Executor_Undo.thy ===== *)
theory Executor_Undo
  imports Executor
begin

text \<open>
  What the executor's rollback needs from the providers, as a locale, and what it gives in return:
  after an apply of any resources with any outcome, rolling the operation back restores the managed
  part of the world.

  \<open>view\<close> is the managed part, \<open>saved cp ws v w\<close> says that the checkpoint and its workspace hold what
  is needed to bring the part a step may touch back to \<open>v\<close>, and \<open>touches r v v'\<close> bounds what a step
  of the resource may change.
\<close>

definition workspace_at :: "path \<Rightarrow> ulid \<Rightarrow> string \<Rightarrow> ulid \<Rightarrow> path" where
  "workspace_at sd oper key stp = sd @ [''operations'', oper, ''checkpoints'', key, stp]"

lemma checkpoint_workspace_at: "checkpoint_workspace E oper key stp = workspace_at (xe_state_dir E) oper key stp"
  by (simp add: checkpoint_workspace_def operation_dir_def workspace_at_def)

lemma workspace_at_inj [simp]:
  "workspace_at sd o1 k1 s1 = workspace_at sd o2 k2 s2 \<longleftrightarrow> o1 = o2 \<and> k1 = k2 \<and> s1 = s2"
  by (simp add: workspace_at_def)

definition workspaces :: "path \<Rightarrow> path set" where
  "workspaces sd = {workspace_at sd oper key stp | oper key stp. True}"

lemma workspace_at_mem [simp, intro]: "workspace_at sd oper key stp \<in> workspaces sd"
  by (auto simp: workspaces_def)

definition cp_for :: "checkpoint \<Rightarrow> resource \<Rightarrow> json \<Rightarrow> bool" where
  "cp_for cp r data \<longleftrightarrow> cp_resource_id cp = resource_id_of r \<and> cp_resource_spec cp = Some (rs_spec r) \<and> cp_data cp = data"

lemma synthesize_simps [simp]:
  "rs_kind (synthesize_resource cp) = ri_kind (cp_resource_id cp)"
  "rs_spec (synthesize_resource cp) = (case cp_resource_spec cp of Some v \<Rightarrow> v | None \<Rightarrow> JNull)"
  "resource_id_of (synthesize_resource cp) = cp_resource_id cp"
  by (simp_all add: synthesize_resource_def resource_id_of_def)

text \<open>The checkpoints on disk, oldest first, and what an environment's ids must satisfy.\<close>

definition recorded :: "path \<Rightarrow> op_dir \<Rightarrow> (path \<times> checkpoint) list" where
  "recorded sd d = concat (map (\<lambda>s. case sd_file s of
     CpFile cp \<Rightarrow> [(workspace_at sd (od_id d) (sd_key s) (sd_step s), cp)] | _ \<Rightarrow> []) (od_steps d))"

definition ids_ordered :: "'w exec_env \<Rightarrow> bool" where
  "ids_ordered E \<longleftrightarrow> (\<forall>p q. case_prod (xe_step_id E) p = case_prod (xe_step_id E) q \<longrightarrow> p = q)
     \<and> (\<forall>p q. p < q \<longrightarrow> case_prod (xe_cp_id E) p < case_prod (xe_cp_id E) q)"

lemma find_update_op:
  "(\<And>d. od_id (f d) = od_id d) \<Longrightarrow>
     find (\<lambda>d. od_id d = oper) (hs_ops (update_op oper f h)) = map_option f (find (\<lambda>d. od_id d = oper) (hs_ops h))"
proof -
  assume f: "\<And>d. od_id (f d) = od_id d"
  have "find (\<lambda>d. od_id d = oper) (map (\<lambda>d. if od_id d = oper then f d else d) ds)
      = map_option f (find (\<lambda>d. od_id d = oper) ds)" for ds
    by (induction ds) (auto simp: f)
  then show ?thesis by (simp add: update_op_def)
qed

lemma update_op_world [simp]: "hs_world (update_op oper f h) = hs_world h"
  by (simp add: update_op_def)

lemma recorded_make:
  assumes "stp \<notin> sd_step ` set (od_steps d)"
  shows "od_steps (make_step_dir key stp d) = od_steps d @ [\<lparr>sd_key = key, sd_step = stp, sd_file = CpMissing\<rparr>]"
    and "recorded sd (make_step_dir key stp d) = recorded sd d"
    and "recorded sd (put_checkpoint key stp cp (make_step_dir key stp d)) = recorded sd d @ [(workspace_at sd (od_id d) key stp, cp)]"
    and "od_steps (put_checkpoint key stp cp (make_step_dir key stp d)) = od_steps d @ [\<lparr>sd_key = key, sd_step = stp, sd_file = CpFile cp\<rparr>]"
proof -
  have no: "\<not> list_ex (at_step key stp) (od_steps d)" using assms by (auto simp: list_ex_iff at_step_def)
  then show 1: "od_steps (make_step_dir key stp d) = od_steps d @ [\<lparr>sd_key = key, sd_step = stp, sd_file = CpMissing\<rparr>]"
    by (simp add: make_step_dir_def)
  show "recorded sd (make_step_dir key stp d) = recorded sd d"
    unfolding recorded_def make_step_dir_id 1 by simp
  have "map (\<lambda>s. if at_step key stp s then s\<lparr>sd_file := CpFile cp\<rparr> else s) (od_steps d) = od_steps d"
    using no by (intro map_idI) (auto simp: list_ex_iff)
  then show 2: "od_steps (put_checkpoint key stp cp (make_step_dir key stp d)) = od_steps d @ [\<lparr>sd_key = key, sd_step = stp, sd_file = CpFile cp\<rparr>]"
    by (simp add: put_checkpoint_def 1 at_step_def)
  show "recorded sd (put_checkpoint key stp cp (make_step_dir key stp d)) = recorded sd d @ [(workspace_at sd (od_id d) key stp, cp)]"
    unfolding recorded_def put_checkpoint_id make_step_dir_id 2 by simp
qed

lemma recorded_step:
  "(ws, cp) \<in> set (recorded sd d) \<Longrightarrow> \<exists>s \<in> set (od_steps d). ws = workspace_at sd (od_id d) (sd_key s) (sd_step s)"
  by (auto simp: recorded_def split: checkpoint_file.splits)

locale reversible_registry =
  fixes reg :: "'w registry"
    and sd :: path
    and remove_tree :: "path \<Rightarrow> 'w \<Rightarrow> 'w"
    and view :: "'w \<Rightarrow> 'v"
    and inv :: "'w \<Rightarrow> bool"
    and admissible :: "resource \<Rightarrow> bool"
    and saved :: "checkpoint \<Rightarrow> path \<Rightarrow> 'v \<Rightarrow> 'w \<Rightarrow> bool"
    and touches :: "resource \<Rightarrow> 'v \<Rightarrow> 'v \<Rightarrow> bool"
  assumes observe_pure: "reg (rs_kind r) = Some P \<Longrightarrow> inv w \<Longrightarrow> snd (pv_observe P r w) = w"
    and verify_pure: "reg (rs_kind r) = Some P \<Longrightarrow> inv w \<Longrightarrow> snd (pv_verify P r w) = w"
    and plan_ids: "reg (rs_kind r) = Some P \<Longrightarrow> pv_plan P ids r d = Inr steps \<Longrightarrow>
      map st_id steps = map ids [0..<length steps]"
    and synthesized: "cp_for cp r data \<Longrightarrow> touches (synthesize_resource cp) = touches r"
    and pre_apply_inv: "reg (rs_kind r) = Some P \<Longrightarrow> inv w \<Longrightarrow> admissible r \<Longrightarrow> ws \<in> workspaces sd \<Longrightarrow>
      pv_pre_apply P r s \<lparr>ac_operation_id = oper, ac_workspace = ws\<rparr> w = (pre, w') \<Longrightarrow> inv w' \<and> view w' = view w"
    and pre_apply_other: "reg (rs_kind r) = Some P \<Longrightarrow> inv w \<Longrightarrow> admissible r \<Longrightarrow> ws \<in> workspaces sd \<Longrightarrow>
      pv_pre_apply P r s \<lparr>ac_operation_id = oper, ac_workspace = ws\<rparr> w = (pre, w') \<Longrightarrow>
      ws' \<in> workspaces sd \<Longrightarrow> ws' \<noteq> ws \<Longrightarrow> saved cp ws' v w \<Longrightarrow> saved cp ws' v w'"
    and pre_apply_saves: "reg (rs_kind r) = Some P \<Longrightarrow> inv w \<Longrightarrow> admissible r \<Longrightarrow> ws \<in> workspaces sd \<Longrightarrow>
      pv_pre_apply P r s \<lparr>ac_operation_id = oper, ac_workspace = ws\<rparr> w = (Inr data, w') \<Longrightarrow>
      cp_for cp r data \<Longrightarrow> saved cp ws (view w) w'"
    and apply_touches: "reg (rs_kind r) = Some P \<Longrightarrow> inv w \<Longrightarrow> admissible r \<Longrightarrow> ws \<in> workspaces sd \<Longrightarrow>
      pv_apply P r s \<lparr>ac_operation_id = oper, ac_workspace = ws\<rparr> w = (res, w') \<Longrightarrow> inv w' \<and> touches r (view w) (view w')"
    and apply_keeps: "reg (rs_kind r) = Some P \<Longrightarrow> inv w \<Longrightarrow> admissible r \<Longrightarrow> ws \<in> workspaces sd \<Longrightarrow>
      pv_apply P r s \<lparr>ac_operation_id = oper, ac_workspace = ws\<rparr> w = (res, w') \<Longrightarrow>
      ws' \<in> workspaces sd \<Longrightarrow> saved cp ws' v w \<Longrightarrow> saved cp ws' v w'"
    and rollback_undoes: "reg (ri_kind (cp_resource_id cp)) = Some P \<Longrightarrow> inv w \<Longrightarrow> ws \<in> workspaces sd \<Longrightarrow>
      saved cp ws v w \<Longrightarrow> touches (synthesize_resource cp) v (view w) \<Longrightarrow>
      \<exists>w'. pv_rollback P (synthesize_resource cp) cp ws w = (Inr (), w') \<and> inv w' \<and> view w' = v
        \<and> (\<forall>cp' ws' v'. ws' \<in> workspaces sd \<longrightarrow> saved cp' ws' v' w \<longrightarrow> saved cp' ws' v' w')"
    and remove_other: "inv w \<Longrightarrow> remove_tree (sd @ [''operations'', o1]) w = w' \<Longrightarrow> inv w' \<and> view w' = view w"
    and remove_keeps: "inv w \<Longrightarrow> o1 \<noteq> o2 \<Longrightarrow> saved cp (workspace_at sd o2 key stp) v w \<Longrightarrow>
      saved cp (workspace_at sd o2 key stp) v (remove_tree (sd @ [''operations'', o1]) w)"
begin

text \<open>Checkpoints, newest first, that lead from the view \<open>u\<close> back to \<open>v0\<close>.\<close>

fun linked :: "'v \<Rightarrow> (path \<times> checkpoint) list \<Rightarrow> 'v \<Rightarrow> 'w \<Rightarrow> bool" where
  "linked v0 [] u w \<longleftrightarrow> u = v0"
| "linked v0 ((ws, cp) # cps) u w \<longleftrightarrow>
     ws \<in> workspaces sd \<and> reg (ri_kind (cp_resource_id cp)) \<noteq> None
     \<and> (\<exists>u'. saved cp ws u' w \<and> touches (synthesize_resource cp) u' u \<and> linked v0 cps u' w)"

lemma linked_keeps:
  assumes "linked v0 cps u w"
    and "\<And>cp ws v. (ws, cp) \<in> set cps \<Longrightarrow> saved cp ws v w \<Longrightarrow> saved cp ws v w'"
  shows "linked v0 cps u w'"
  using assms by (induction v0 cps u w rule: linked.induct) fastforce+

lemma linked_workspaces: "linked v0 cps u w \<Longrightarrow> (ws, cp) \<in> set cps \<Longrightarrow> ws \<in> workspaces sd"
  by (induction v0 cps u w rule: linked.induct) auto

lemma undo_linked:
  assumes "linked v0 cps (view w) w" and "inv w"
  shows "\<exists>w'. undo_all reg cps w = ([], w') \<and> inv w' \<and> view w' = v0"
  using assms
proof (induction cps arbitrary: w)
  case (Cons x cps)
  obtain ws cp where x: "x = (ws, cp)" by (cases x)
  from Cons.prems(1) obtain P u' where P: "reg (ri_kind (cp_resource_id cp)) = Some P" and ws: "ws \<in> workspaces sd"
    and u': "saved cp ws u' w" "touches (synthesize_resource cp) u' (view w)" "linked v0 cps u' w"
    by (auto simp: x)
  from rollback_undoes [OF P Cons.prems(2) ws u'(1,2)] obtain w1 where
    w1: "pv_rollback P (synthesize_resource cp) cp ws w = (Inr (), w1)" "inv w1" "view w1 = u'"
    "\<And>cp' ws' v'. ws' \<in> workspaces sd \<Longrightarrow> saved cp' ws' v' w \<Longrightarrow> saved cp' ws' v' w1" by blast
  have "linked v0 cps (view w1) w1"
    unfolding w1(3) by (rule linked_keeps [OF u'(3)]) (blast intro: w1(4) linked_workspaces [OF u'(3)])
  from Cons.IH [OF this w1(2)] show ?case
    by (auto simp: x require_def P w1(1))
qed simp

definition dir_ok :: "'w exec_env \<Rightarrow> 'v \<Rightarrow> nat \<times> nat \<Rightarrow> 'w \<Rightarrow> op_dir \<Rightarrow> bool" where
  "dir_ok E v0 q w d \<longleftrightarrow>
     (\<forall>s \<in> set (od_steps d). sd_file s \<noteq> CpInvalid \<and> (\<exists>p < q. sd_step s = case_prod (xe_step_id E) p))
     \<and> sorted_wrt (<) (map (cp_id \<circ> snd) (recorded sd d))
     \<and> (\<forall>x \<in> set (recorded sd d). \<exists>p < q. cp_id (snd x) = case_prod (xe_cp_id E) p)
     \<and> linked v0 (rev (recorded sd d)) (view w) w"

lemma dir_okD:
  assumes "dir_ok E v0 q w d"
  shows "s \<in> set (od_steps d) \<Longrightarrow> \<exists>p < q. sd_step s = case_prod (xe_step_id E) p"
    and "x \<in> set (recorded sd d) \<Longrightarrow> \<exists>p < q. cp_id (snd x) = case_prod (xe_cp_id E) p"
  using assms unfolding dir_ok_def by blast+

lemma dir_ok_mono: "dir_ok E v0 q w d \<Longrightarrow> q \<le> q' \<Longrightarrow> dir_ok E v0 q' w d"
  unfolding dir_ok_def by (meson order.strict_trans2)

lemma dir_ok_world:
  assumes "dir_ok E v0 q w d" and "view w' = view w"
    and "\<And>ws cp v. (ws, cp) \<in> set (recorded sd d) \<Longrightarrow> saved cp ws v w \<Longrightarrow> saved cp ws v w'"
  shows "dir_ok E v0 q w' d"
  using assms linked_keeps [of v0 "rev (recorded sd d)" "view w" w w'] by (auto simp: dir_ok_def)

lemma dir_ok_fresh:
  assumes "ids_ordered E" and "dir_ok E v0 (i, k) w d"
  shows "xe_step_id E i k \<notin> sd_step ` set (od_steps d)"
proof
  assume "xe_step_id E i k \<in> sd_step ` set (od_steps d)"
  then obtain s where "s \<in> set (od_steps d)" "sd_step s = xe_step_id E i k" by auto
  with dir_okD(1) [OF assms(2)] obtain p where "p < (i, k)" "case_prod (xe_step_id E) p = case_prod (xe_step_id E) (i, k)"
    by (metis case_prod_conv)
  with assms(1) show False unfolding ids_ordered_def by (metis less_irrefl)
qed

lemma dir_ok_make:
  assumes "ids_ordered E" and "dir_ok E v0 (i, k) w d"
  shows "dir_ok E v0 (i, Suc k) w (make_step_dir key (xe_step_id E i k) d)"
proof -
  have "(i, k) < (i, Suc k)" by simp
  then show ?thesis
    using assms(2) dir_ok_mono [OF assms(2), of "(i, Suc k)"] recorded_make(1,2) [OF dir_ok_fresh [OF assms]]
    by (auto simp: dir_ok_def)
qed

lemma dir_ok_put:
  assumes ids: "ids_ordered E" and d: "dir_ok E v0 (i, k) w d" and keeps: "linked v0 (rev (recorded sd d)) u w2"
    and ws: "reg (ri_kind (cp_resource_id cp)) \<noteq> None" "cp_id cp = xe_cp_id E i k"
    and cp: "saved cp (workspace_at sd (od_id d) key (xe_step_id E i k)) u w2" "touches (synthesize_resource cp) u (view w2)"
  shows "dir_ok E v0 (i, Suc k) w2 (put_checkpoint key (xe_step_id E i k) cp (make_step_dir key (xe_step_id E i k) d))"
proof -
  note r = recorded_make(3,4) [OF dir_ok_fresh [OF ids d]]
  have lt: "(i, k) < (i, Suc k)" by simp
  have "cp_id (snd x) < xe_cp_id E i k" if "x \<in> set (recorded sd d)" for x
  proof -
    from dir_okD(2) [OF d that] obtain p where "p < (i, k)" "cp_id (snd x) = case_prod (xe_cp_id E) p" by blast
    then show ?thesis using ids unfolding ids_ordered_def by (metis case_prod_conv)
  qed
  then have "sorted_wrt (<) (map (cp_id \<circ> snd) (recorded sd d @ [(workspace_at sd (od_id d) key (xe_step_id E i k), cp)]))"
    using d ws by (auto simp: dir_ok_def sorted_wrt_append)
  moreover have "\<exists>p<(i, Suc k). cp_id cp = case_prod (xe_cp_id E) p" "\<exists>p<(i, Suc k). xe_step_id E i k = case_prod (xe_step_id E) p"
    using lt ws by force+
  moreover have "dir_ok E v0 (i, Suc k) w d" by (rule dir_ok_mono [OF d]) simp
  ultimately show ?thesis
    using ws cp keeps unfolding dir_ok_def r by auto
qed

definition env_ok :: "'w exec_env \<Rightarrow> bool" where
  "env_ok E \<longleftrightarrow> ids_ordered E \<and> xe_state_dir E = sd \<and> xe_remove_tree E = remove_tree"

definition ready :: "'w exec_env \<Rightarrow> 'v \<Rightarrow> nat \<times> nat \<Rightarrow> 'w host \<Rightarrow> bool" where
  "ready E v0 q h \<longleftrightarrow> inv (hs_world h)
     \<and> (\<exists>d. find (\<lambda>d. od_id d = xe_op_id E) (hs_ops h) = Some d \<and> dir_ok E v0 q (hs_world h) d)"

lemma ready_mono: "ready E v0 q h \<Longrightarrow> q \<le> q' \<Longrightarrow> ready E v0 q' h"
  by (auto simp: ready_def simp del: less_eq_prod_simp intro: dir_ok_mono)

lemma sys_cases: "sys E c p f h = (res, h') \<Longrightarrow> res = Inr () \<and> h' = f h \<or> (\<exists>e. res = Inl e \<and> h' = h)"
  by (auto simp: sys_def split: option.splits)

lemma write_json_cases: "write_json E p f h = (res, h') \<Longrightarrow> res = Inr () \<and> h' = f h \<or> (\<exists>e. res = Inl e \<and> h' = h)"
  by (auto simp: write_json_def sys_def bindA_def split: option.splits)

lemma run_step_ready:
  assumes env: "env_ok E" and P: "reg (rs_kind r) = Some P" and adm: "admissible r" and stp: "st_id stp = xe_step_id E i k"
    and ready: "ready E v0 (i, k) h" and run: "run_step E P r (xe_op_id E) i k stp h = (res, h')"
  shows "ready E v0 (i, Suc k) h'"
proof -
  let ?oper = "xe_op_id E" and ?stp = "xe_step_id E i k"
  define key where "key = fs_key (xe_digest E) (resource_id_of r)"
  define ws where "ws = workspace_at sd ?oper key ?stp"
  define ctx where "ctx = \<lparr>ac_operation_id = ?oper, ac_workspace = ws\<rparr>"
  define s where "s = stp\<lparr>st_started_at := Some (xe_now E), st_status := SRunning\<rparr>"
  have ids: "ids_ordered E" and sd: "xe_state_dir E = sd" using env by (simp_all add: env_ok_def)
  have wsm: "ws \<in> workspaces sd" by (simp add: ws_def)
  obtain d where inv: "inv (hs_world h)" and d: "find (\<lambda>d. od_id d = ?oper) (hs_ops h) = Some d" "dir_ok E v0 (i, k) (hs_world h) d"
    using ready by (auto simp: ready_def)
  have oid: "od_id d = ?oper" using d(1) by (auto simp: find_Some_iff)
  have other: "ws' \<in> workspaces sd \<and> ws' \<noteq> ws" if "(ws', cp) \<in> set (recorded sd d)" for ws' cp
    using recorded_step [OF that] dir_ok_fresh [OF ids d(2)] by (auto simp: ws_def oid image_iff)
  note run = run [unfolded run_step_def Let_def stp checkpoint_workspace_at sd, folded key_def, folded ws_def, folded ctx_def, folded s_def]
  let ?h1 = "update_op ?oper (make_step_dir key ?stp) h"
  have f1: "find (\<lambda>d. od_id d = ?oper) (hs_ops ?h1) = Some (make_step_dir key ?stp d)"
    by (simp add: find_update_op d(1))
  from run show ?thesis
  proof (cases rule: bindA_cases)
    case (fails e)
    with sys_cases [OF fails(1)] ready_mono [OF ready, of "(i, Suc k)"] show ?thesis by simp
  next
    case (passes u h1)
    with sys_cases [OF passes(1)] have h1: "h1 = ?h1" by simp
    from passes(2) obtain pre w1 where pre: "pv_pre_apply P r s ctx (hs_world h) = (pre, w1)"
      and rest: "(case pre of Inl e \<Rightarrow> doing (\<lparr>sc_step = s\<lparr>st_status := SFailed, st_finished_at := Some (xe_now E)\<rparr>,
                     sc_result = result_failed (PreApplyFailed e)\<rparr>, Some (PreApplyFailed e))
         | Inr data \<Rightarrow>
             bindA (write_json E (ws @ [''checkpoint.json'']) (update_op ?oper (put_checkpoint key ?stp
                (checkpoint_with_spec (xe_cp_id E i k) (xe_now E) (resource_id_of r) ?oper data (rs_spec r))))) (\<lambda>_.
             bindA (attempt (in_world (pv_apply P r s ctx))) (\<lambda>res.
               doing (\<lparr>sc_step = s\<lparr>st_status := sr_status (case res of Inr x \<Rightarrow> x | Inl e \<Rightarrow> result_failed (ApplyFailed e)),
                          st_finished_at := Some (xe_now E)\<rparr>,
                       sc_result = (case res of Inr x \<Rightarrow> x | Inl e \<Rightarrow> result_failed (ApplyFailed e))\<rparr>,
                      if sr_status (case res of Inr x \<Rightarrow> x | Inl e \<Rightarrow> result_failed (ApplyFailed e)) = SFailed
                      then Some (case sr_error (case res of Inr x \<Rightarrow> x | Inl e \<Rightarrow> result_failed (ApplyFailed e)) of Some t \<Rightarrow> t | None \<Rightarrow> Reported (Msg [] []))
                      else None)))) (?h1\<lparr>hs_world := w1\<rparr>) = (res, h')"
      unfolding h1 by (cases rule: bindA_cases) (auto simp: in_world_def split: prod.splits)
    note law = P inv adm wsm pre [unfolded ctx_def]
    have w1: "inv w1" "view w1 = view (hs_world h)" using pre_apply_inv [OF law] by simp_all
    have d1: "dir_ok E v0 (i, k) w1 d"
      by (rule dir_ok_world [OF d(2) w1(2)]) (use pre_apply_other [OF law] other in blast)
    let ?h2 = "?h1\<lparr>hs_world := w1\<rparr>"
    have r2: "ready E v0 (i, Suc k) ?h2"
      using w1(1) f1 dir_ok_make [OF ids d1, of key] by (simp add: ready_def)
    show ?thesis
    proof (cases pre)
      case (Inl e)
      with rest r2 show ?thesis by simp
    next
      case (Inr data)
      define cp where "cp = checkpoint_with_spec (xe_cp_id E i k) (xe_now E) (resource_id_of r) ?oper data (rs_spec r)"
      have cpf: "cp_for cp r data" by (simp add: cp_def cp_for_def checkpoint_with_spec_def)
      let ?h3 = "update_op ?oper (put_checkpoint key ?stp cp) ?h2"
      from rest [unfolded Inr sum.case, folded cp_def] show ?thesis
      proof (cases rule: bindA_cases)
        case (fails e)
        with write_json_cases [OF fails(1)] r2 show ?thesis by simp
      next
        case (passes u h3)
        with write_json_cases [OF passes(1)] have h3: "h3 = ?h3" by simp
        from passes(2) obtain res1 w3 where ap: "pv_apply P r s ctx w1 = (res1, w3)" and h': "h' = ?h3\<lparr>hs_world := w3\<rparr>"
          unfolding h3 by (cases rule: bindA_cases) (auto simp: in_world_def split: prod.splits)
        note alaw = P w1(1) adm wsm ap [unfolded ctx_def]
        have w3: "inv w3" "touches r (view w1) (view w3)" using apply_touches [OF alaw] by simp_all
        have l1: "linked v0 (rev (recorded sd d)) (view w1) w1" using d1 by (simp add: dir_ok_def)
        have l3: "linked v0 (rev (recorded sd d)) (view w1) w3"
          by (rule linked_keeps [OF l1]) (use apply_keeps [OF alaw] other in auto)
        have sv: "saved cp ws (view w1) w3"
          using apply_keeps [OF alaw wsm] pre_apply_saves [OF law [unfolded Inr] cpf] w1(2) by simp
        have k3: "dir_ok E v0 (i, Suc k) w3 (put_checkpoint key ?stp cp (make_step_dir key ?stp d))"
        proof (rule dir_ok_put [OF ids d(2) l3])
          show "reg (ri_kind (cp_resource_id cp)) \<noteq> None"
            using P by (simp add: cp_def checkpoint_with_spec_def resource_id_of_def)
          show "cp_id cp = xe_cp_id E i k" by (simp add: cp_def checkpoint_with_spec_def)
          show "saved cp (workspace_at sd (od_id d) key ?stp) (view w1) w3" using sv by (simp add: oid ws_def)
          show "touches (synthesize_resource cp) (view w1) (view w3)" by (simp only: synthesized [OF cpf] w3(2))
        qed
        have "find (\<lambda>d. od_id d = ?oper) (hs_ops (?h3\<lparr>hs_world := w3\<rparr>)) = Some (put_checkpoint key ?stp cp (make_step_dir key ?stp d))"
          using find_update_op [of "put_checkpoint key ?stp cp" ?oper ?h2] f1 by simp
        with k3 w3(1) show ?thesis by (simp add: ready_def h')
      qed
    qed
  qed
qed

lemma run_steps_ready:
  assumes env: "env_ok E" and P: "reg (rs_kind r) = Some P" and adm: "admissible r"
  shows "map st_id steps = map (xe_step_id E i) [k..<k + length steps] \<Longrightarrow> ready E v0 (i, k) h \<Longrightarrow>
    run_steps E P r (xe_op_id E) i k steps h = (res, h') \<Longrightarrow> ready E v0 (i, k + length steps) h'"
proof (induction steps arbitrary: k h res h')
  case (Cons stp steps)
  from Cons.prems(1) have ids: "st_id stp = xe_step_id E i k" "map st_id steps = map (xe_step_id E i) [Suc k..<Suc k + length steps]"
    by (simp_all add: upt_rec)
  note one = run_step_ready [OF env P adm ids(1) Cons.prems(2)]
  have mono: "ready E v0 (i, Suc k) h'' \<Longrightarrow> ready E v0 (i, k + length (stp # steps)) h''" for h''
    by (erule ready_mono) simp
  from Cons.prems(3) [unfolded run_steps.simps] show ?case
  proof (cases rule: bindA_cases)
    case (fails e)
    then show ?thesis using mono one by blast
  next
    case (passes x h1)
    obtain rec failed where x: "x = (rec, failed)" by (cases x)
    have r1: "ready E v0 (i, Suc k) h1" using one passes(1) by blast
    show ?thesis
    proof (cases failed)
      case (Some e)
      with passes(2) mono [OF r1] show ?thesis by (simp add: x)
    next
      case None
      with passes(2) have "bindA (run_steps E P r (xe_op_id E) i (Suc k) steps) (\<lambda>(recs, err). doing (rec # recs, err)) h1 = (res, h')"
        by (simp add: x)
      then obtain res2 where "run_steps E P r (xe_op_id E) i (Suc k) steps h1 = (res2, h')"
        by (cases rule: bindA_cases) (auto split: prod.splits)
      from Cons.IH [OF ids(2) r1 this] show ?thesis by simp
    qed
  qed
qed simp

lemma ready_same:
  "ready E v0 q h \<Longrightarrow> hs_world h' = hs_world h \<Longrightarrow> hs_ops h' = hs_ops h \<Longrightarrow> ready E v0 q h'"
  by (simp add: ready_def)

lemma ready_update_op:
  assumes "ready E v0 q h" and f: "\<And>d. od_id (f d) = od_id d" "\<And>d. od_steps (f d) = od_steps d"
  shows "ready E v0 q (update_op (xe_op_id E) f h)"
proof -
  have "recorded sd (f d) = recorded sd d" for d unfolding recorded_def f ..
  then have "dir_ok E v0 q w (f d) = dir_ok E v0 q w d" for w d by (simp add: dir_ok_def f)
  with assms(1) find_update_op [of f "xe_op_id E" h] f(1) show ?thesis by (auto simp: ready_def)
qed

lemma apply_one_ready:
  assumes env: "env_ok E" and adm: "admissible r" and ready: "ready E v0 (i, 0) h"
    and run: "apply_one E reg (xe_op_id E) i r h = (res, h')"
  shows "ready E v0 (Suc i, 0) h'"
proof -
  have later: "ready E v0 (Suc i, 0) h''" if "ready E v0 (i, k) h''" for k h'' by (rule ready_mono [OF that]) simp
  have applied: "ready E v0 q h2" if "write_applied E r (xe_op_id E) h1 = (x, h2)" "ready E v0 q h1" for q h1 h2 x
    by (rule ready_same [OF that(2)])
       (rule frameD [OF frame_write_applied that(1), of hs_world] frameD [OF frame_write_applied that(1), of hs_ops], simp)+
  from run [unfolded apply_one_def] show ?thesis
  proof (cases rule: bindA_cases)
    case (fails e)
    with later [OF ready] show ?thesis by simp
  next
    case (passes P h1)
    then have P: "reg (rs_kind r) = Some P" "h1 = h" by (simp_all add: require_def)
    have inv: "inv (hs_world h)" using ready by (simp add: ready_def)
    have same: "snd (in_world (pv_observe P r) h1) = h"
      using observe_pure [OF P(1) inv] P(2) by (cases "pv_observe P r (hs_world h)") (simp add: in_world_def)
    from passes(2) show ?thesis
    proof (cases rule: bindA_cases)
      case (fails e)
      with same later [OF ready] show ?thesis by simp
    next
      case (passes obs h2)
      then have h2: "h2 = h" using same by simp
      from passes(2) show ?thesis
      proof (cases rule: bindA_cases)
        case (fails e)
        with h2 later [OF ready] show ?thesis by (simp add: diff_in_def)
      next
        case (passes d h3)
        then have h3: "h3 = h" using h2 by (simp add: diff_in_def)
        show ?thesis
        proof (cases "df_kind (mark_secret_changes r d) = NoChange")
          case True
          from passes(2) True have "bindA (write_applied E r (xe_op_id E)) (\<lambda>_. doing (apply_item_of r ItemNoChange [] None None)) h = (res, h')"
            by (simp add: h3)
          then obtain x where "write_applied E r (xe_op_id E) h = (x, h')" by (cases rule: bindA_cases) auto
          from later [OF applied [OF this ready]] show ?thesis .
        next
          case False
          note rest = passes(2) [unfolded Let_def if_not_P [OF False] h3]
          from rest show ?thesis
          proof (cases rule: bindA_cases)
            case (fails e)
            with later [OF ready] show ?thesis by simp
          next
            case (passes steps h4)
            then have st: "pv_plan P (xe_step_id E i) r (mark_secret_changes r d) = Inr steps" "h4 = h" by simp_all
            have ids: "map st_id steps = map (xe_step_id E i) [0..<0 + length steps]"
              using plan_ids [OF P(1) st(1)] by simp
            from passes(2) [unfolded st(2)] show ?thesis
            proof (cases rule: bindA_cases)
              case (fails e)
              from later [OF run_steps_ready [OF env P(1) adm ids ready fails(1)]] show ?thesis .
            next
              case (passes x h5)
              have r5: "ready E v0 (i, 0 + length steps) h5"
                by (rule run_steps_ready [OF env P(1) adm ids ready passes(1)])
              obtain recs last where x: "x = (recs, last)" by (cases x)
              show ?thesis
              proof (cases last)
                case (Some e)
                with passes(2) later [OF r5] show ?thesis by (simp add: x)
              next
                case None
                have inv5: "inv (hs_world h5)" using r5 by (simp add: ready_def)
                have same5: "snd (in_world (pv_verify P r) h5) = h5"
                  using verify_pure [OF P(1) inv5] by (cases "pv_verify P r (hs_world h5)") (simp add: in_world_def)
                from passes(2) [unfolded x prod.case None option.case] show ?thesis
                proof (cases rule: bindA_cases)
                  case (fails e)
                  with same5 later [OF r5] show ?thesis by simp
                next
                  case (passes v h6)
                  then have h6: "h6 = h5" using same5 by simp
                  from passes(2) [unfolded h6] obtain y where
                    "(if vs_matched (verify_summary_of v) then write_applied E r (xe_op_id E) else doing ()) h5 = (y, h')"
                    by (cases rule: bindA_cases) auto
                  then show ?thesis using later [OF r5] later [OF applied [OF _ r5]] by (auto split: if_splits)
                qed
              qed
            qed
          qed
        qed
      qed
    qed
  qed
qed

lemma apply_loop_ready:
  "env_ok E \<Longrightarrow> list_all admissible rs \<Longrightarrow> ready E v0 (i, 0) h \<Longrightarrow>
     apply_loop E reg (xe_op_id E) i rs h = (res, h') \<Longrightarrow> \<exists>q. ready E v0 q h'"
proof (induction rs arbitrary: i h res)
  case (Cons r rs)
  from Cons.prems(4) [unfolded apply_loop.simps] show ?case
  proof (cases rule: bindA_cases)
    case (fails e)
    with apply_one_ready [of E r v0 i h "Inl e" h'] Cons.prems show ?thesis by auto
  next
    case (passes x h1)
    with apply_one_ready [of E r v0 i h "Inr x" h1] Cons.prems have r1: "ready E v0 (Suc i, 0) h1" by simp
    from passes(2) obtain res2 where "apply_loop E reg (xe_op_id E) (Suc i) rs h1 = (res2, h')"
      by (cases rule: bindA_cases) auto
    with Cons.IH [of "Suc i" h1] r1 Cons.prems show ?thesis by auto
  qed
qed auto

lemma remove_trees:
  assumes "inv w" and "oper \<notin> od_id ` set gone" and "env_ok E"
  defines "w' \<equiv> fold (\<lambda>d. xe_remove_tree E (operation_dir E (od_id d))) gone w"
  shows "inv w' \<and> view w' = view w \<and>
    (\<forall>cp key stp v. saved cp (workspace_at sd oper key stp) v w \<longrightarrow> saved cp (workspace_at sd oper key stp) v w')"
  using assms(1,2) unfolding w'_def
proof (induction gone arbitrary: w)
  case (Cons d gone)
  have e: "xe_remove_tree E (operation_dir E (od_id d)) = remove_tree (sd @ [''operations'', od_id d])"
    using assms(3) by (simp add: env_ok_def operation_dir_def)
  have "od_id d \<noteq> oper" using Cons.prems(2) by auto
  with remove_keeps [OF Cons.prems(1) this] remove_other [OF Cons.prems(1) refl, of "od_id d"] Cons show ?case
    by (simp add: e)
qed simp

lemma gc_ready:
  assumes env: "env_ok E" and ready: "ready E v0 q h" and dist: "distinct (op_ids h)"
    and newest: "\<And>x. x \<in> set (op_ids h) \<Longrightarrow> x \<le> xe_op_id E" and keep: "0 < keep"
  shows "ready E v0 q (gc_operation_dirs E keep h)"
proof (cases "xe_faults E SysReadDir (xe_state_dir E @ [''operations'']) \<noteq> None \<or> length (hs_ops h) \<le> keep")
  case True
  with ready show ?thesis by (auto simp: gc_operation_dirs_def)
next
  case False
  let ?P = "\<lambda>d. od_id d = xe_op_id E"
  define old where "old = take (length (hs_ops h) - keep) (sort_key od_id (hs_ops h))"
  define gone where "gone = filter (\<lambda>d. xe_faults E SysRemoveTree (operation_dir E (od_id d)) = None) old"
  obtain d where d: "find ?P (hs_ops h) = Some d" "inv (hs_world h)" "dir_ok E v0 q (hs_world h) d"
    using ready by (auto simp: ready_def)
  have dm: "d \<in> set (hs_ops h)" "od_id d = xe_op_id E" using d(1) by (auto simp: find_Some_iff)
  have ds: "sorted (map od_id (sort_key od_id (hs_ops h)))" "distinct (map od_id (sort_key od_id (hs_ops h)))"
    using dist mset_eq_imp_distinct_iff [of "map od_id (sort_key od_id (hs_ops h))" "op_ids h"] by (simp_all add: op_ids_def)
  have no: "xe_op_id E \<notin> od_id ` set gone"
  proof
    assume "xe_op_id E \<in> od_id ` set gone"
    then obtain x where x: "x \<in> set old" "od_id x = xe_op_id E" by (auto simp: gone_def)
    have "length (hs_ops h) - keep < length (hs_ops h)" using False keep by linarith
    then have "drop (length (hs_ops h) - keep) (sort_key od_id (hs_ops h)) \<noteq> []" by simp
    then obtain y where y: "y \<in> set (drop (length (hs_ops h) - keep) (sort_key od_id (hs_ops h)))"
      by (meson last_in_set)
    from sorted_split [OF ds x(1) [unfolded old_def] y] x(2) have "xe_op_id E < od_id y" by simp
    moreover have "od_id y \<le> xe_op_id E"
      using set_drop_subset y by (intro newest) (fastforce simp: op_ids_def)
    ultimately show False by simp
  qed
  have gc: "gc_operation_dirs E keep h = h\<lparr>hs_ops := filter (\<lambda>d. od_id d \<notin> od_id ` set gone) (hs_ops h),
      hs_world := fold (\<lambda>d. xe_remove_tree E (operation_dir E (od_id d))) gone (hs_world h)\<rparr>"
    using False by (simp add: gc_operation_dirs_def Let_def gone_def old_def)
  have "find ?P (filter (\<lambda>d. od_id d \<notin> od_id ` set gone) ds) = find ?P ds" for ds :: "op_dir list"
    using no by (induction ds) auto
  moreover have "hs_ops (gc_operation_dirs E keep h) = filter (\<lambda>d. od_id d \<notin> od_id ` set gone) (hs_ops h)" by (simp add: gc)
  ultimately have f: "find ?P (hs_ops (gc_operation_dirs E keep h)) = Some d" using d(1) by (simp only:)
  note w = remove_trees [OF d(2) no env]
  have "dir_ok E v0 q (hs_world (gc_operation_dirs E keep h)) d"
    by (rule dir_ok_world [OF d(3)]) (use w recorded_step in \<open>fastforce simp: gc dm(2)\<close>)+
  with f w show ?thesis by (simp add: ready_def gc)
qed

lemma read_recorded:
  assumes "\<And>c p. xe_faults E c p = None" and "xe_state_dir E = sd" and "\<forall>s \<in> set ss. sd_file s \<noteq> CpInvalid"
  shows "read_checkpoints E oper ss = Inr (concat (map (\<lambda>s. case sd_file s of
     CpFile cp \<Rightarrow> [(workspace_at sd oper (sd_key s) (sd_step s), cp)] | _ \<Rightarrow> []) ss))"
  using assms(3)
proof (induction ss)
  case (Cons s ss)
  then show ?case
    by (cases "sd_file s") (simp_all add: fault_def assms(1,2) checkpoint_workspace_at)
qed simp

lemma newest_first_sorted:
  assumes "sorted_wrt (<) (map (cp_id \<circ> snd) cps)"
  shows "newest_checkpoint_first cps = rev cps"
proof -
  have i: "inj_on (\<lambda>(p, cp). cp_id cp) (set cps)"
    using assms by (simp add: strict_sorted_iff distinct_map comp_def split_def)
  have s: "sorted (map (\<lambda>(p, cp). cp_id cp) cps)"
    using assms by (simp add: strict_sorted_iff comp_def split_def)
  have "sort_key (\<lambda>(p, cp). cp_id cp) (rev cps) = cps"
    by (rule sort_key_inj_key_eq) (use i s in simp_all)
  then show ?thesis by (simp add: newest_checkpoint_first_def)
qed

lemma rollback_ready:
  assumes ready: "ready E v0 q h" and "xe_state_dir E' = sd" and "\<And>c p. xe_faults E' c p = None"
  shows "\<exists>h'. rollback_operation E' reg (xe_op_id E) h = (Inr (), h') \<and> view (hs_world h') = v0 \<and> inv (hs_world h')"
proof -
  obtain d where inv: "inv (hs_world h)" and d: "find (\<lambda>d. od_id d = xe_op_id E) (hs_ops h) = Some d" "dir_ok E v0 q (hs_world h) d"
    using ready by (auto simp: ready_def)
  have oid: "od_id d = xe_op_id E" using d(1) by (auto simp: find_Some_iff)
  have rd: "read_checkpoints E' (xe_op_id E) (od_steps d) = Inr (recorded sd d)"
    unfolding recorded_def oid by (rule read_recorded [OF assms(3,2)]) (use d(2) in \<open>simp add: dir_ok_def\<close>)
  have link: "linked v0 (rev (recorded sd d)) (view (hs_world h)) (hs_world h)"
    and ord: "sorted_wrt (<) (map (cp_id \<circ> snd) (recorded sd d))" using d(2) by (simp_all add: dir_ok_def)
  from undo_linked [OF link inv] obtain w where
    w: "undo_all reg (rev (recorded sd d)) (hs_world h) = ([], w)" "inv w" "view w = v0" by blast
  show ?thesis
  proof (cases "od_steps d = []")
    case True
    then have "view (hs_world h) = v0" using link by (simp add: recorded_def)
    then show ?thesis using inv by (simp add: rollback_operation_def d(1) True)
  next
    case False
    then show ?thesis
      by (simp add: rollback_operation_def d(1) fault_def assms(3) rd newest_first_sorted [OF ord] w)
  qed
qed

theorem apply_then_rollback:
  assumes env: "env_ok E" and adm: "list_all admissible rs" and inv: "inv (hs_world h)"
    and ids: "distinct (op_ids h)" "\<And>x. x \<in> set (op_ids h) \<Longrightarrow> x < xe_op_id E"
    and started: "xe_faults E SysMkdir (operation_dir E (xe_op_id E)) = None"
    and run: "apply_resources E reg rs h = (res, h')"
    and E': "xe_state_dir E' = sd" "\<And>c p. xe_faults E' c p = None"
  shows "\<exists>h''. rollback_operation E' reg (xe_op_id E) h' = (Inr (), h'') \<and> view (hs_world h'') = view (hs_world h)"
proof -
  let ?v0 = "view (hs_world h)" and ?h0 = "make_op_dir (xe_op_id E) h"
  have new: "xe_op_id E \<notin> od_id ` set (hs_ops h)" using ids(2) by (auto simp: op_ids_def)
  then have ops: "hs_ops ?h0 = hs_ops h @ [\<lparr>od_id = xe_op_id E, od_operation = None, od_result = None, od_steps = []\<rparr>]"
    and world: "hs_world ?h0 = hs_world h" by (simp_all add: make_op_dir_def)
  have opids: "op_ids ?h0 = op_ids h @ [xe_op_id E]" by (simp add: op_ids_def ops)
  let ?d0 = "\<lparr>od_id = xe_op_id E, od_operation = None, od_result = None, od_steps = []\<rparr>"
  have "find (\<lambda>d. od_id d = xe_op_id E) (ds @ [?d0]) = Some ?d0" if "xe_op_id E \<notin> od_id ` set ds" for ds
    using that by (induction ds) auto
  then have f0: "find (\<lambda>d. od_id d = xe_op_id E) (hs_ops ?h0) = Some ?d0" unfolding ops using new .
  have "dir_ok E ?v0 (0, 0) (hs_world h) ?d0" by (simp add: dir_ok_def recorded_def)
  with f0 inv have r0: "ready E ?v0 (0, 0) ?h0" unfolding ready_def world by blast
  have dist: "distinct (op_ids ?h0)" and le: "\<And>x. x \<in> set (op_ids ?h0) \<Longrightarrow> x \<le> xe_op_id E"
    using ids by (auto simp: opids less_imp_le)
  have "\<exists>q. ready E ?v0 q h'"
  proof -
    from run [unfolded apply_resources_def Let_def] show ?thesis
    proof (cases rule: bindA_cases)
      case (fails e)
      with started show ?thesis by (simp add: sys_def)
    next
      case (passes u h1)
      then have h1: "h1 = ?h0" using started by (simp add: sys_def)
      from passes(2) [unfolded h1] show ?thesis
      proof (cases rule: bindA_cases)
        case (fails e)
        from apply_loop_ready [OF env adm r0 fails(1)] show ?thesis .
      next
        case (passes items h2)
        from apply_loop_ready [OF env adm r0 passes(1)] obtain q where q: "ready E ?v0 q h2" ..
        have i2: "op_ids h2 = op_ids ?h0" by (rule frameD [OF frame_apply_loop passes(1)])
        from passes(2) show ?thesis
        proof (cases rule: bindA_cases)
          case (fails e)
          with write_json_cases [OF fails(1)] q show ?thesis by (auto simp del: split_paired_Ex)
        next
          case (passes u h3)
          with write_json_cases [OF passes(1)] have h3: "h3 = update_op (xe_op_id E) (\<lambda>d. d\<lparr>od_operation := Some
             ((new_operation (xe_op_id E) (xe_now E) ''apply'' (xe_actor E))\<lparr>eo_started_at := Some (xe_now E), eo_status := ExRunning,
               eo_finished_at := Some (xe_now E), eo_status := final_status items\<rparr>)\<rparr>) h2" by simp
          then have q3: "ready E ?v0 q h3" using ready_update_op [OF q] by simp
          have i3: "op_ids h3 = op_ids ?h0" using i2 by (simp add: h3)
          from passes(2) show ?thesis
          proof (cases rule: bindA_cases)
            case (fails e)
            with write_json_cases [OF fails(1)] q3 show ?thesis by (auto simp del: split_paired_Ex)
          next
            case (passes u h4)
            from write_json_cases [OF passes(1)] ready_update_op [OF q3] i3
            have q4: "ready E ?v0 q h4" and i4: "op_ids h4 = op_ids ?h0" by auto
            from passes(2) have "h' = gc_operation_dirs E operations_keep h4" by simp
            moreover have "ready E ?v0 q (gc_operation_dirs E operations_keep h4)"
              by (rule gc_ready [OF env q4]) (use dist le i4 in \<open>simp_all add: operations_keep_def\<close>)
            ultimately show ?thesis by blast
          qed
        qed
      qed
    qed
  qed
  with rollback_ready [OF _ E'] show ?thesis by blast
qed

end

end
