(* ===== verification/File_Provider.thy ===== *)
theory File_Provider
  imports File_System Executor_Undo
begin

text \<open>
  The \<open>file\<close> provider (\<open>iac-providers/src/file/mod.rs\<close>, \<open>spec.rs\<close>, \<open>ops.rs\<close>) over the file system of
  \<open>File_System\<close>: its specification, observe, diff, plan, backup, write, delete, verify and restore.
  The digest of a content, the clock and the names of temporary files come from the environment.
  A user name is resolved by reading \<open>/etc/passwd\<close> in the same file system.
\<close>

section \<open>Specification\<close>

datatype file_state = FilePresent | FileAbsent

record file_spec =
  fl_path :: string
  fl_state :: file_state
  fl_mode :: "string option"
  fl_owner :: "string option"
  fl_group :: "string option"
  fl_content :: "string option"

record file_env =
  fe_kernel :: kernel
  fe_digest :: "string \<Rightarrow> string"
  fe_ulid :: "path \<Rightarrow> ulid"
  fe_now :: string

text \<open>\<open>Path\<close>: the components of a path text; empty components and dots do not count.\<close>

definition is_absolute :: "string \<Rightarrow> bool" where
  "is_absolute s \<longleftrightarrow> s \<noteq> [] \<and> hd s = CHR ''/''"

definition components :: "string \<Rightarrow> path" where
  "components s = filter (\<lambda>c. c \<noteq> [] \<and> c \<noteq> ''.'') (split_on (CHR ''/'') s)"

definition fl_target :: "file_spec \<Rightarrow> path" where
  "fl_target spec = components (fl_path spec)"

definition parse_mode :: "string \<Rightarrow> nat option" where
  "parse_mode s = (let t = trim s; u = (if is_prefix ''0o'' t then drop 2 t else t) in parse_unsigned 8 (2 ^ 32) u)"

definition parsed_mode :: "file_spec \<Rightarrow> nat option" where
  "parsed_mode spec = Option.bind (fl_mode spec) parse_mode"

definition octal :: "nat \<Rightarrow> string" where
  "octal m = CHR ''0'' # show_radix 8 m"

definition validate_file_spec :: "file_spec \<Rightarrow> (err_msg, unit) result" where
  "validate_file_spec spec =
     (if \<not> is_absolute (fl_path spec) then Inl (Msg ''path must be absolute, got {}'' [fl_path spec])
      else if fl_state spec = FileAbsent \<and> fl_content spec \<noteq> None then Inl (Msg ''state=absent forbids content'' [])
      else if fl_state spec = FileAbsent \<and> (fl_mode spec \<noteq> None \<or> fl_owner spec \<noteq> None \<or> fl_group spec \<noteq> None)
        then Inl (Msg ''state=absent forbids mode/owner/group'' [])
      else (case fl_mode spec of
              None \<Rightarrow> Inr ()
            | Some m \<Rightarrow> if parse_mode m = None then Inl (Msg ''invalid mode {m:?}: {e}'' [m]) else Inr ()))"

text \<open>The derived deserializer: unknown fields are refused, an optional field may be missing or null.\<close>

definition opt_string :: "json option \<Rightarrow> string option option" where
  "opt_string v = (case v of None \<Rightarrow> Some None | Some JNull \<Rightarrow> Some None | Some (JStr s) \<Rightarrow> Some (Some s) | Some _ \<Rightarrow> None)"

definition file_state_of :: "json option \<Rightarrow> file_state option" where
  "file_state_of v = (case v of None \<Rightarrow> Some FilePresent
     | Some x \<Rightarrow> if x = JStr ''present'' then Some FilePresent else if x = JStr ''absent'' then Some FileAbsent else None)"

definition deserialize_file_spec :: "json \<Rightarrow> file_spec option" where
  "deserialize_file_spec v =
     (case v of JObj m \<Rightarrow>
        if set (map fst m) \<subseteq> {''path'', ''state'', ''mode'', ''owner'', ''group'', ''content''} then
          Option.bind (Option.bind (jget v ''path'') as_str) (\<lambda>p.
          Option.bind (file_state_of (jget v ''state'')) (\<lambda>st.
          Option.bind (opt_string (jget v ''mode'')) (\<lambda>md.
          Option.bind (opt_string (jget v ''owner'')) (\<lambda>ow.
          Option.bind (opt_string (jget v ''group'')) (\<lambda>gr.
          Option.bind (opt_string (jget v ''content'')) (\<lambda>ct.
            Some \<lparr>fl_path = p, fl_state = st, fl_mode = md, fl_owner = ow, fl_group = gr, fl_content = ct\<rparr>))))))
        else None
      | _ \<Rightarrow> None)"

definition file_spec_from_value :: "json \<Rightarrow> (err_msg, file_spec) result" where
  "file_spec_from_value v =
     (case deserialize_file_spec v of
        None \<Rightarrow> Inl (Msg ''{e}'' [])
      | Some spec \<Rightarrow> bindE (validate_file_spec spec) (\<lambda>_. Inr spec))"

definition parse_file_spec :: "resource \<Rightarrow> (core_error, file_spec) result" where
  "parse_file_spec r =
     (case file_spec_from_value (rs_spec r) of
        Inl (Msg t args) \<Rightarrow> Inl (ValidationError (resource_id_to_string (resource_id_of r)) (Msg (''invalid file spec: '' @ t) args))
      | Inr spec \<Rightarrow> Inr spec)"

section \<open>Users and groups\<close>

definition io_at :: "string \<Rightarrow> (fs, errno, 'a) act \<Rightarrow> (fs, 'a) io" where
  "io_at p m = map_errA (\<lambda>e. IoError p (errno_text e)) m"

text \<open>\<open>str::lines\<close>.\<close>

definition text_lines :: "string \<Rightarrow> string list" where
  "text_lines s =
     (let ls = split_on (CHR 0x0A) s;
          ls' = (if last ls = [] then butlast ls else ls)
      in map (\<lambda>l. if l \<noteq> [] \<and> last l = CHR 0x0D then butlast l else l) ls')"

definition nth_field :: "nat \<Rightarrow> string \<Rightarrow> string" where
  "nth_field i line = (let fs = split_on (CHR '':'') line in if i < length fs then fs ! i else [])"

definition lookup_id :: "file_env \<Rightarrow> path \<Rightarrow> string \<Rightarrow> fs \<Rightarrow> (string, nat) result" where
  "lookup_id E db name f =
     (case parse_unsigned 10 (2 ^ 32) name of
        Some n \<Rightarrow> Inr n
      | None \<Rightarrow>
          (case read_file (fe_kernel E) db f of
             Inl e \<Rightarrow> Inl (errno_text e)
           | Inr content \<Rightarrow>
               (case find (\<lambda>l. nth_field 0 l = name) (text_lines content) of
                  Some l \<Rightarrow> ok_or (parse_unsigned 10 (2 ^ 32) (nth_field 2 l)) (''bad id for '' @ name)
                | None \<Rightarrow> Inl (name @ '' not found in '' @ show_path db))))"

definition resolve_uid :: "file_env \<Rightarrow> string \<Rightarrow> fs \<Rightarrow> (string, nat) result" where
  "resolve_uid E = lookup_id E [''etc'', ''passwd'']"

definition resolve_gid :: "file_env \<Rightarrow> string \<Rightarrow> fs \<Rightarrow> (string, nat) result" where
  "resolve_gid E = lookup_id E [''etc'', ''group'']"

section \<open>Observe and diff\<close>

fun file_kind_label :: "node \<Rightarrow> string" where
  "file_kind_label (Regular c m u g) = ''regular''"
| "file_kind_label Directory = ''directory''"
| "file_kind_label (Symlink p) = ''symlink''"
| "file_kind_label OtherNode = ''other''"

definition observe_file :: "file_env \<Rightarrow> file_spec \<Rightarrow> fs \<Rightarrow> (core_error, observed_state) result" where
  "observe_file E spec f =
     (let p = fl_target spec in
      case fst (lstat (fe_kernel E) p f) of
        Inl ENOENT \<Rightarrow> Inr (observed_absent (fe_now E))
      | Inl e \<Rightarrow> Inl (IoError (fl_path spec) (errno_text e))
      | Inr (Regular c m u g) \<Rightarrow>
          (case read_file (fe_kernel E) p f of
             Inl e \<Rightarrow> Inl (IoError (fl_path spec) (errno_text e))
           | Inr content \<Rightarrow>
               let sha = fe_digest E content; size = jnat (length c) in
               Inr \<lparr>ob_present = True,
                    ob_spec = JObj [(''path'', JStr (fl_path spec)), (''state'', JStr ''present''), (''mode'', JStr (octal m)),
                      (''owner_uid'', jnat u), (''group_gid'', jnat g), (''content_sha256'', JStr sha), (''size'', size)],
                    ob_facts = [(''kind'', JStr ''regular''), (''content_sha256'', JStr sha), (''size'', size),
                      (''mode'', JStr (octal m)), (''uid'', jnat u), (''gid'', jnat g)],
                    ob_observed_at = fe_now E\<rparr>)
      | Inr n \<Rightarrow> Inr \<lparr>ob_present = True, ob_spec = JNull,
          ob_facts = [(''kind'', JStr (file_kind_label n)), (''present_but_not_regular'', JBool True)], ob_observed_at = fe_now E\<rparr>)"

definition state_change :: "string \<Rightarrow> string \<Rightarrow> field_change" where
  "state_change from to = \<lparr>fc_field = ''state'', fc_from = Some (JStr from), fc_to = Some (JStr to), fc_sensitive = False\<rparr>"

text \<open>The four comparisons, each yielding the changes and the reasons it adds.\<close>

type_synonym findings = "field_change list \<times> string list"

definition fact_text :: "observed_state \<Rightarrow> string \<Rightarrow> string" where
  "fact_text obs k = (case Option.bind (map_of (ob_facts obs) k) as_str of Some s \<Rightarrow> s | None \<Rightarrow> [])"

definition diff_content :: "file_env \<Rightarrow> file_spec \<Rightarrow> observed_state \<Rightarrow> findings" where
  "diff_content E spec obs =
     (case fl_content spec of
        None \<Rightarrow> ([], [])
      | Some want \<Rightarrow>
          let want_sha = fe_digest E want; have_sha = fact_text obs ''content_sha256'' in
          if want_sha = have_sha then ([], [])
          else ([\<lparr>fc_field = ''content_sha256'', fc_from = Some (JStr have_sha), fc_to = Some (JStr want_sha),
                  fc_sensitive = False\<rparr>], [''content sha256 differs'']))"

definition have_mode :: "observed_state \<Rightarrow> nat" where
  "have_mode obs = (case parse_mode (dropWhile (\<lambda>c. c = CHR ''0'') (fact_text obs ''mode'')) of Some m \<Rightarrow> m | None \<Rightarrow> 0)"

definition diff_mode :: "file_spec \<Rightarrow> observed_state \<Rightarrow> findings" where
  "diff_mode spec obs =
     (case parsed_mode spec of
        None \<Rightarrow> ([], [])
      | Some want \<Rightarrow>
          if want = have_mode obs then ([], [])
          else ([\<lparr>fc_field = ''mode'', fc_from = Some (JStr (octal (have_mode obs))), fc_to = Some (JStr (octal want)),
                  fc_sensitive = False\<rparr>],
                [''mode '' @ octal (have_mode obs) @ '' -> '' @ octal want]))"

definition have_id :: "observed_state \<Rightarrow> string \<Rightarrow> nat" where
  "have_id obs k = (case Option.bind (map_of (ob_facts obs) k) as_u64 of Some n \<Rightarrow> n mod 2 ^ 32 | None \<Rightarrow> 0)"

definition diff_id :: "string \<Rightarrow> string \<Rightarrow> (string \<Rightarrow> (string, nat) result) \<Rightarrow> string option \<Rightarrow> observed_state \<Rightarrow> findings" where
  "diff_id field key resolve name obs =
     (case name of
        None \<Rightarrow> ([], [])
      | Some owner \<Rightarrow>
          (case resolve owner of
             Inl e \<Rightarrow> ([], [''could not resolve '' @ field @ '' '' @ owner @ '': '' @ e])
           | Inr want \<Rightarrow>
               let have_now = have_id obs key in
               if want = have_now then ([], [])
               else ([\<lparr>fc_field = field, fc_from = Some (jnat have_now), fc_to = Some (JStr owner), fc_sensitive = False\<rparr>],
                     [field @ '' '' @ key @ '' '' @ show_radix 10 have_now @ '' -> '' @ show_radix 10 want])))"

definition diff_file :: "file_env \<Rightarrow> fs \<Rightarrow> file_spec \<Rightarrow> observed_state \<Rightarrow> diff" where
  "diff_file E f spec obs =
     (case (fl_state spec, ob_present obs) of
        (FileAbsent, False) \<Rightarrow> no_change
      | (FileAbsent, True) \<Rightarrow> \<lparr>df_kind = Update, df_changes = [state_change ''present'' ''absent''],
          df_reasons = [''file should be absent but exists''], df_reversible = True\<rparr>
      | (FilePresent, False) \<Rightarrow> \<lparr>df_kind = Create, df_changes = [state_change ''absent'' ''present''],
          df_reasons = [''file should be present but is missing''], df_reversible = True\<rparr>
      | (FilePresent, True) \<Rightarrow>
          let found = [diff_content E spec obs, diff_mode spec obs,
                       diff_id ''owner'' ''uid'' (\<lambda>n. resolve_uid E n f) (fl_owner spec) obs,
                       diff_id ''group'' ''gid'' (\<lambda>n. resolve_gid E n f) (fl_group spec) obs];
              changes = concat (map fst found)
          in if changes = [] then no_change
             else \<lparr>df_kind = Update, df_changes = changes, df_reasons = concat (map snd found), df_reversible = True\<rparr>)"

section \<open>Write and delete\<close>

definition temp_path_in :: "file_env \<Rightarrow> path \<Rightarrow> path" where
  "temp_path_in E p = butlast p @ [''.'' @ last p @ ''.iac.'' @ fe_ulid E p @ ''.tmp'']"

text \<open>What is already at the target, seen without following a link.\<close>

definition check_target :: "file_env \<Rightarrow> file_spec \<Rightarrow> (fs, unit) io" where
  "check_target E spec =
     bindA (attempt (lstat (fe_kernel E) (fl_target spec))) (\<lambda>st. case st of
         Inr (Symlink _) \<Rightarrow> failing (ProviderError ''file'' (Msg ''refusing to write through symlink at {}: remove the symlink first or change the manifest path. A symlink at this location often signals an attacker-planted redirect aimed at privilege escalation.'' [fl_path spec]))
       | Inr Directory \<Rightarrow> failing (ProviderError ''file'' (Msg ''{} is a directory, not a file, refusing to overwrite'' [fl_path spec]))
       | Inr _ \<Rightarrow> doing ()
       | Inl ENOENT \<Rightarrow> doing ()
       | Inl e \<Rightarrow> failing (IoError (fl_path spec) (errno_text e)))"

text \<open>The temporary file with its content, mode and owner, and the rename that publishes it.\<close>

definition publish_file :: "file_env \<Rightarrow> file_spec \<Rightarrow> string \<Rightarrow> nat option \<Rightarrow> nat option \<Rightarrow> nat option \<Rightarrow> (fs, unit) io" where
  "publish_file E spec content mode uid gid =
     (let K = fe_kernel E; p = fl_target spec; tmp = temp_path_in E p; at_tmp = show_path tmp in
      bindA (io_at at_tmp (create_excl K tmp)) (\<lambda>_.
      bindA (io_at at_tmp (write_all K tmp content)) (\<lambda>_.
      bindA (case mode of Some m \<Rightarrow> io_at at_tmp (chmod K tmp m) | None \<Rightarrow> doing ()) (\<lambda>_.
      bindA (if uid \<noteq> None \<or> gid \<noteq> None then io_at at_tmp (chown K tmp uid gid) else doing ()) (\<lambda>_.
        io_at (fl_path spec) (rename K tmp p))))))"

definition write_atomic :: "file_env \<Rightarrow> file_spec \<Rightarrow> string \<Rightarrow> nat option \<Rightarrow> nat option \<Rightarrow> nat option \<Rightarrow> (fs, unit) io" where
  "write_atomic E spec content mode uid gid =
     (let p = fl_target spec; parent = butlast p in
      if last p = ''..'' then failing (ProviderError ''file'' (Msg ''path has no file name: {}'' [fl_path spec]))
      else
        bindA (io_at (show_path parent) (open_directory (fe_kernel E) parent)) (\<lambda>_.
        bindA (check_target E spec) (\<lambda>_.
          publish_file E spec content mode uid gid)))"

definition resolved :: "string \<Rightarrow> (string \<Rightarrow> fs \<Rightarrow> (string, nat) result) \<Rightarrow> string option \<Rightarrow> (fs, nat option) io" where
  "resolved what resolve name = (\<lambda>f.
     case name of
       None \<Rightarrow> (Inr None, f)
     | Some n \<Rightarrow> (case resolve n f of
           Inl e \<Rightarrow> (Inl (ProviderError ''file'' (Msg (what @ '' resolution failed: {e}'') [e])), f)
         | Inr i \<Rightarrow> (Inr (Some i), f)))"

definition ensure_parent :: "file_env \<Rightarrow> path \<Rightarrow> (fs, unit) io" where
  "ensure_parent E parent = (\<lambda>f.
     if path_exists (fe_kernel E) f parent then (Inr (), f)
     else io_at (show_path parent) (create_dir_all (fe_kernel E) parent) f)"

definition write_file :: "file_env \<Rightarrow> file_spec \<Rightarrow> (fs, step_result) io" where
  "write_file E spec =
     (let p = fl_target spec; parent = butlast p in
      if p = [] then failing (ProviderError ''file'' (Msg ''path has no parent: {}'' [fl_path spec]))
      else
        bindA (ensure_parent E parent) (\<lambda>_.
          let content = (case fl_content spec of Some c \<Rightarrow> c | None \<Rightarrow> []) in
          bindA (resolved ''owner'' (resolve_uid E) (fl_owner spec)) (\<lambda>uid.
          bindA (resolved ''group'' (resolve_gid E) (fl_group spec)) (\<lambda>gid.
          bindA (write_atomic E spec content (parsed_mode spec) uid gid) (\<lambda>_.
            doing \<lparr>sr_status = SSucceeded,
                   sr_message = Reported (Msg ''wrote {} ({} bytes)'' [fl_path spec, show_radix 10 (length content)]),
                   sr_data = JObj [(''path'', JStr (fl_path spec)), (''content_sha256'', JStr (fe_digest E content)),
                     (''bytes'', jnat (length content))],
                   sr_error = None\<rparr>)))))"

definition delete_file :: "file_env \<Rightarrow> file_spec \<Rightarrow> (fs, step_result) io" where
  "delete_file E spec =
     bindA (attempt (unlink (fe_kernel E) (fl_target spec))) (\<lambda>res. case res of
       Inr _ \<Rightarrow> doing (result_ok (Msg ''deleted {}'' [fl_path spec]))
     | Inl ENOENT \<Rightarrow> doing (result_skipped (Msg ''{} already absent'' [fl_path spec]))
     | Inl e \<Rightarrow> failing (IoError (fl_path spec) (errno_text e)))"

section \<open>Backup and restore\<close>

definition backup_name :: string where
  "backup_name = ''backup.bin''"

definition backup_file :: "file_env \<Rightarrow> file_spec \<Rightarrow> path \<Rightarrow> (fs, json) io" where
  "backup_file E spec workspace =
     (let K = fe_kernel E; p = fl_target spec in
      bindA (io_at (show_path workspace) (create_dir_all K workspace)) (\<lambda>_.
      bindA (attempt (lstat K p)) (\<lambda>st. case st of
        Inl ENOENT \<Rightarrow> doing (JObj [(''existed'', JBool False), (''path'', JStr (fl_path spec))])
      | Inl e \<Rightarrow> failing (IoError (fl_path spec) (errno_text e))
      | Inr (Regular c m u g) \<Rightarrow>
          bindA (io_at (show_path (workspace @ [backup_name])) (copy_file K p (workspace @ [backup_name]))) (\<lambda>_.
            doing (JObj [(''existed'', JBool True), (''path'', JStr (fl_path spec)), (''backup'', JStr backup_name),
              (''mode'', JStr (octal m)), (''uid'', jnat u), (''gid'', jnat g), (''size'', jnat (length c))]))
      | Inr _ \<Rightarrow> failing (ProviderError ''file'' (Msg ''refusing to back up non-regular file {}'' [fl_path spec])))))"

definition as_bool :: "json \<Rightarrow> bool option" where
  "as_bool v = (case v of JBool b \<Rightarrow> Some b | _ \<Rightarrow> None)"

definition as_u32 :: "json \<Rightarrow> nat option" where
  "as_u32 v = Option.bind (as_u64 v) (\<lambda>n. if n < 2 ^ 32 then Some n else None)"

fun has_substring :: "string \<Rightarrow> string \<Rightarrow> bool" where
  "has_substring w [] = (w = [])"
| "has_substring w (c # cs) = (is_prefix w (c # cs) \<or> has_substring w cs)"

text \<open>Putting the saved file back. Errors of \<open>chmod\<close> and \<open>chown\<close> are ignored.\<close>

definition restore_saved :: "file_env \<Rightarrow> path \<Rightarrow> json \<Rightarrow> path \<Rightarrow> (fs, unit) io" where
  "restore_saved E p data backup =
     (let K = fe_kernel E; parent = butlast p; tmp = temp_path_in E p;
          mode = Option.bind (Option.bind (jget data ''mode'') as_str) (\<lambda>s. parse_mode (dropWhile (\<lambda>c. c = CHR ''0'') s));
          uid = Option.bind (jget data ''uid'') as_u32; gid = Option.bind (jget data ''gid'') as_u32
      in bindA (ensure_parent E parent) (\<lambda>_.
         bindA (io_at (show_path tmp) (copy_file K backup tmp)) (\<lambda>_.
         bindA (attempt (case mode of Some m \<Rightarrow> chmod K tmp m | None \<Rightarrow> doing ())) (\<lambda>_.
         bindA (attempt (if uid \<noteq> None \<or> gid \<noteq> None then chown K tmp uid gid else doing ())) (\<lambda>_.
           io_at (show_path p) (rename K tmp p))))))"

definition restore_checked :: "file_env \<Rightarrow> string \<Rightarrow> json \<Rightarrow> path \<Rightarrow> (fs, unit) io" where
  "restore_checked E target_path data workspace =
     (let K = fe_kernel E; p = components target_path;
          existed = (case Option.bind (jget data ''existed'') as_bool of Some b \<Rightarrow> b | None \<Rightarrow> False);
          name = (case Option.bind (jget data ''backup'') as_str of Some s \<Rightarrow> s | None \<Rightarrow> backup_name);
          backup = workspace @ components name
      in if \<not> existed then
           bindA (attempt (unlink K p)) (\<lambda>res. case res of
             Inr _ \<Rightarrow> doing ()
           | Inl ENOENT \<Rightarrow> doing ()
           | Inl e \<Rightarrow> failing (IoError target_path (errno_text e)))
         else if CHR ''/'' \<in> set name \<or> CHR 0x5C \<in> set name \<or> has_substring ''..'' name then
           failing (ProviderError ''file'' (Msg ''checkpoint backup name {backup_name:?} contains path separators'' [name]))
         else (\<lambda>f.
           if \<not> path_exists K f backup then
             (Inl (ProviderError ''file'' (Msg ''backup file {} not found'' [show_path backup])), f)
           else if p = [] then (Inl (ProviderError ''file'' (Msg ''path has no parent: {}'' [target_path])), f)
           else restore_saved E p data backup f))"

text \<open>A checkpoint that names another path than the resource is refused.\<close>

definition restore_file :: "file_env \<Rightarrow> string \<Rightarrow> json \<Rightarrow> path \<Rightarrow> (fs, unit) io" where
  "restore_file E target_path data workspace =
     (case Option.bind (jget data ''path'') as_str of
        Some stored \<Rightarrow>
          if components stored \<noteq> components target_path \<or> is_absolute stored \<noteq> is_absolute target_path
          then failing (ProviderError ''file'' (Msg ''checkpoint path mismatch: stored={stored_path:?} but resource path={:?} (refusing to restore, possible tampered checkpoint)'' [stored, target_path]))
          else restore_checked E target_path data workspace
      | None \<Rightarrow> restore_checked E target_path data workspace)"

section \<open>The provider\<close>

datatype file_action = FileWrite | FileDelete

fun file_action_text :: "file_action \<Rightarrow> string" where
  "file_action_text FileWrite = ''file.write''"
| "file_action_text FileDelete = ''file.delete''"

definition parse_file_action :: "string \<Rightarrow> (core_error, file_action) result" where
  "parse_file_action s =
     (if s = ''file.write'' then Inr FileWrite else if s = ''file.delete'' then Inr FileDelete
      else Inl (ProviderError ''FileAction'' (Msg ''unknown step action {other:?}'' [s])))"

definition file_observe :: "file_env \<Rightarrow> resource \<Rightarrow> (fs, observed_state) io" where
  "file_observe E r = (\<lambda>f. (bindE (parse_file_spec r) (\<lambda>spec. observe_file E spec f), f))"

definition file_diff :: "file_env \<Rightarrow> fs \<Rightarrow> resource \<Rightarrow> observed_state \<Rightarrow> (core_error, diff) result" where
  "file_diff E f r obs = bindE (parse_file_spec r) (\<lambda>spec. Inr (diff_file E f spec obs))"

definition planned_action :: "diff_kind \<Rightarrow> file_state \<Rightarrow> file_action option" where
  "planned_action k st = (case k of NoChange \<Rightarrow> None | Delete \<Rightarrow> Some FileDelete
     | _ \<Rightarrow> (case st of FilePresent \<Rightarrow> Some FileWrite | FileAbsent \<Rightarrow> Some FileDelete))"

definition file_plan :: "(nat \<Rightarrow> ulid) \<Rightarrow> resource \<Rightarrow> diff \<Rightarrow> (core_error, step list) result" where
  "file_plan ids r d =
     bindE (parse_file_spec r) (\<lambda>spec.
       case planned_action (df_kind d) (fl_state spec) of
         None \<Rightarrow> Inr []
       | Some act \<Rightarrow> Inr [new_step (ids 0) (file_action_text act)
           (Msg (case act of FileWrite \<Rightarrow> ''write {}'' | FileDelete \<Rightarrow> ''delete {}'') [fl_path spec])
           (JObj [(''path'', JStr (fl_path spec))])])"

definition file_pre_apply :: "file_env \<Rightarrow> resource \<Rightarrow> step \<Rightarrow> apply_context \<Rightarrow> (fs, json) io" where
  "file_pre_apply E r s ctx =
     bindA (from_result (parse_file_spec r)) (\<lambda>spec.
     bindA (from_result (parse_file_action (st_action s))) (\<lambda>_.
       backup_file E spec (ac_workspace ctx)))"

definition file_apply :: "file_env \<Rightarrow> resource \<Rightarrow> step \<Rightarrow> apply_context \<Rightarrow> (fs, step_result) io" where
  "file_apply E r s ctx =
     bindA (from_result (parse_file_spec r)) (\<lambda>spec.
     bindA (from_result (parse_file_action (st_action s))) (\<lambda>act.
       case act of FileWrite \<Rightarrow> write_file E spec | FileDelete \<Rightarrow> delete_file E spec))"

definition file_verify :: "file_env \<Rightarrow> resource \<Rightarrow> (fs, verify_outcome) io" where
  "file_verify E r = (\<lambda>f. (bindE (parse_file_spec r) (\<lambda>spec. bindE (observe_file E spec f) (\<lambda>obs.
     let d = diff_file E f spec obs in
     Inr (if is_change d
          then VMismatch (if df_changes d = []
                 then [\<lparr>fc_field = ''state'', fc_from = None, fc_to = None, fc_sensitive = False\<rparr>] else df_changes d)
          else VMatch))), f))"

definition file_rollback :: "file_env \<Rightarrow> resource \<Rightarrow> checkpoint \<Rightarrow> path \<Rightarrow> (fs, unit) io" where
  "file_rollback E r cp workspace =
     (let from_spec = (case parse_file_spec r of Inr spec \<Rightarrow> Some (fl_path spec) | Inl _ \<Rightarrow> None);
          from_checkpoint = Option.bind (jget (cp_data cp) ''path'') as_str
      in case (case from_spec of Some t \<Rightarrow> Some t | None \<Rightarrow> from_checkpoint) of
           None \<Rightarrow> failing (ProviderError ''file'' (Msg ''rollback: neither resource spec nor checkpoint carried a path'' []))
         | Some target \<Rightarrow> restore_file E target (cp_data cp) workspace)"

definition file_capability_keys :: "resource \<Rightarrow> (core_error, string list) result" where
  "file_capability_keys r = bindE (parse_file_spec r) (\<lambda>spec. Inr [fl_path spec])"

definition file_provider :: "file_env \<Rightarrow> fs provider" where
  "file_provider E = \<lparr>pv_kind = ''file'', pv_observe = file_observe E, pv_diff = file_diff E, pv_plan = file_plan,
     pv_pre_apply = file_pre_apply E, pv_apply = file_apply E, pv_verify = file_verify E,
     pv_rollback = file_rollback E, pv_capability_keys = file_capability_keys\<rparr>"

definition file_registry :: "file_env \<Rightarrow> fs registry" where
  "file_registry E = register (file_provider E) Map.empty"

end
