(* ===== verification/File_Undo.thy ===== *)
theory File_Undo
  imports File_Provider "HOL-Library.Sublist"
begin

text \<open>
  The \<open>file\<close> provider keeps the contract of \<open>Executor_Undo\<close>: what a step may change, what its backup
  holds, and that the restore brings it back, on a host whose system calls do not fail.

  The managed paths \<open>T\<close> are the targets of the resources; the managed part of the file system is
  everything outside the state directory except plain directories, which a rollback leaves behind.
\<close>

section \<open>Paths\<close>

lemma above_iff: "strict_prefix q p \<longleftrightarrow> (\<exists>i < length p. q = take i p)"
proof
  assume "strict_prefix q p"
  then show "\<exists>i < length p. q = take i p"
    by (intro exI [of _ "length q"]) (auto simp: prefix_length_less strict_prefix_def prefix_def)
qed (auto simp: strict_prefix_def take_is_prefix dest: arg_cong [of _ _ length])

lemma above_butlast: "p \<noteq> [] \<Longrightarrow> strict_prefix (butlast p) p"
  by (cases p rule: rev_cases) (auto simp: strict_prefix_def)

lemma above_snoc: "strict_prefix q (p @ [x]) \<longleftrightarrow> prefix q p"
  by (auto simp: strict_prefix_def)

lemma above_same_parent: "p \<noteq> [] \<Longrightarrow> p' \<noteq> [] \<Longrightarrow> butlast p' = butlast p \<Longrightarrow> strict_prefix q p' \<Longrightarrow> strict_prefix q p"
  by (cases p rule: rev_cases; cases p' rule: rev_cases) (auto simp: above_snoc)

lemma within_parent: "prefix sd (butlast p) \<Longrightarrow> prefix sd p"
  by (meson prefixeq_butlast prefix_order.order_trans)

definition closed_fs :: "fs \<Rightarrow> bool" where
  "closed_fs f \<longleftrightarrow> (\<forall>p q. f p \<noteq> None \<longrightarrow> strict_prefix q p \<longrightarrow> f q = Some Directory)"

lemma closed_fsD: "closed_fs f \<Longrightarrow> f p \<noteq> None \<Longrightarrow> strict_prefix q p \<Longrightarrow> f q = Some Directory"
  by (simp add: closed_fs_def)

lemma walk_None: "walk f p = None \<longleftrightarrow> (\<forall>q. strict_prefix q p \<longrightarrow> f q = Some Directory)"
proof -
  have "walk f p = None \<longleftrightarrow> find (\<lambda>i. f (take i p) \<noteq> Some Directory) [0..<length p] = None"
    by (simp add: walk_def split: option.split)
  then have "walk f p = None \<longleftrightarrow> (\<forall>i < length p. f (take i p) = Some Directory)"
    by (simp only: find_None_iff set_upt) auto
  then show ?thesis by (auto simp: above_iff)
qed

lemma walk_ENOENT:
  assumes "walk f p = Some e" and "\<And>q. strict_prefix q p \<Longrightarrow> f q = None \<or> f q = Some Directory"
  shows "e = ENOENT"
proof -
  from assms(1) obtain i where i: "find (\<lambda>i. f (take i p) \<noteq> Some Directory) [0..<length p] = Some i"
    and e: "e = (if f (take i p) = None then ENOENT else ENOTDIR)"
    by (auto simp: walk_def split: option.splits)
  from i have "i < length p" "f (take i p) \<noteq> Some Directory" by (auto simp: find_Some_iff)
  with assms(2) [of "take i p"] e show ?thesis by (auto simp: above_iff)
qed

lemma look_Inr: "look f p = Inr n \<longleftrightarrow> walk f p = None \<and> f p = Some n"
  by (auto simp: look_def split: option.splits)

lemma look_Inl: "look f p = Inl e \<longleftrightarrow> walk f p = Some e \<or> (walk f p = None \<and> f p = None \<and> e = ENOENT)"
  by (auto simp: look_def ok_or_def split: option.splits)

lemma look_closed: "closed_fs f \<Longrightarrow> f p = Some n \<Longrightarrow> look f p = Inr n"
  by (auto simp: look_Inr walk_None dest: closed_fsD)

lemma resolve_plain: "(\<And>q. f p \<noteq> Some (Symlink q)) \<Longrightarrow> resolve_link n f p = Inr p"
  by (subst resolve_link.simps) (simp split: option.splits node.splits)

section \<open>Directories\<close>

definition quiet :: "kernel \<Rightarrow> bool" where
  "quiet K \<longleftrightarrow> (\<forall>c p. kn_faults K c p = None)"

lemma syscall_quiet [simp]: "quiet K \<Longrightarrow> syscall K c p m = m"
  by (simp add: quiet_def syscall_def)

lemma closed_put:
  assumes "closed_fs f" and "\<And>q. strict_prefix q p \<Longrightarrow> f q = Some Directory" and "f p \<noteq> Some Directory \<or> n = Directory"
  shows "closed_fs (f(p \<mapsto> n))"
  unfolding closed_fs_def
proof (intro allI impI)
  fix r q assume r: "(f(p \<mapsto> n)) r \<noteq> None" and q: "strict_prefix q r"
  have "f q = Some Directory"
    using r q assms(1,2) by (cases "r = p") (auto simp: closed_fs_def)
  then show "(f(p \<mapsto> n)) q = Some Directory" using assms(3) by auto
qed

lemma closed_remove:
  assumes "closed_fs f" and "f p \<noteq> Some Directory"
  shows "closed_fs (f(p := None))"
  using assms by (auto simp: closed_fs_def)

definition only_dirs :: "path \<Rightarrow> fs \<Rightarrow> fs \<Rightarrow> bool" where
  "only_dirs p f f' \<longleftrightarrow> closed_fs f' \<and>
     (\<forall>q. f' q = f q \<or> f q = None \<and> f' q = Some Directory \<and> (strict_prefix q p \<or> q = p))"

lemma mkdir_from_dirs:
  assumes "quiet K"
  shows "closed_fs f \<Longrightarrow> (\<And>q. strict_prefix q (pre @ cs) \<Longrightarrow> length q \<le> length pre \<Longrightarrow> f q = Some Directory) \<Longrightarrow>
    mkdir_from K pre cs f = (res, f') \<Longrightarrow> only_dirs (pre @ cs) f f'"
proof (induction cs arbitrary: pre f)
  case Nil
  then show ?case by (simp add: only_dirs_def)
next
  case (Cons c cs)
  let ?p = "pre @ [c]"
  have pre: "f q = Some Directory" if "strict_prefix q ?p" for q
  proof (rule Cons.prems(2))
    from that have q: "prefix q pre" by (simp add: above_snoc)
    then show "length q \<le> length pre" by (rule prefix_length_le)
    show "strict_prefix q (pre @ c # cs)" using q by (auto simp: prefix_def strict_prefix_def)
  qed
  have upto: "q = ?p \<or> strict_prefix q ?p" if "strict_prefix q (?p @ cs)" "length q \<le> length ?p" for q
    using that prefix_length_prefix [of q "?p @ cs" ?p] by (auto simp: strict_prefix_def)
  show ?case
  proof (cases "f ?p")
    case None
    let ?f = "f(?p \<mapsto> Directory)"
    have cl: "closed_fs ?f" by (rule closed_put [OF Cons.prems(1) pre]) simp_all
    have run: "mkdir_from K ?p cs ?f = (res, f')"
      using Cons.prems(3) assms by (simp add: None bindA_def Let_def)
    have "?f q = Some Directory" if "strict_prefix q (?p @ cs)" "length q \<le> length ?p" for q
      using upto [OF that] pre by auto
    from Cons.IH [OF cl this run] have o: "only_dirs (?p @ cs) ?f f'" .
    have "strict_prefix ?p (?p @ cs) \<or> ?p = ?p @ cs" by (cases cs) (auto simp: strict_prefix_def)
    with o None show ?thesis unfolding only_dirs_def by (auto split: if_splits)
  next
    case (Some n)
    have dirs: "f q = Some Directory" if "n = Directory" "strict_prefix q (?p @ cs)" "length q \<le> length ?p" for q
      using upto [OF that(2,3)] pre Some that(1) by auto
    show ?thesis
    proof (cases "n = Directory")
      case True
      with Some Cons.prems(3) have "mkdir_from K ?p cs f = (res, f')" by simp
      from Cons.IH [OF Cons.prems(1) dirs [OF True] this] show ?thesis by simp
    next
      case False
      with Some Cons.prems(3) have "f' = f" by (cases n) (auto simp: Let_def split: sum.splits if_splits)
      with Cons.prems(1) show ?thesis by (simp add: only_dirs_def)
    qed
  qed
qed

lemma create_dir_all_dirs:
  assumes "quiet K" "closed_fs f" "f [] = Some Directory" "create_dir_all K p f = (res, f')"
  shows "only_dirs p f f'"
  using mkdir_from_dirs [OF assms(1,2), of "[]" p res f'] assms(3,4) by (simp add: create_dir_all_def)

section \<open>What writing and deleting change\<close>

lemma io_at_apply: "io_at p m f = (case m f of (Inl e, f') \<Rightarrow> (Inl (IoError p (errno_text e)), f') | (Inr x, f') \<Rightarrow> (Inr x, f'))"
  by (simp add: io_at_def map_errA_def)

definition final_node :: "file_env \<Rightarrow> string \<Rightarrow> nat option \<Rightarrow> nat option \<Rightarrow> nat option \<Rightarrow> node" where
  "final_node E content mode uid gid =
     (let K = fe_kernel E; m0 = (case mode of Some m \<Rightarrow> m mod 4096 | None \<Rightarrow> kn_new_mode K)
      in Regular content (if uid \<noteq> None \<or> gid \<noteq> None then kn_chown_mode K m0 else m0)
           (case uid of Some u \<Rightarrow> u | None \<Rightarrow> kn_euid K) (case gid of Some g \<Rightarrow> g | None \<Rightarrow> kn_egid K))"

lemma walk_child: "walk f (d @ [x]) = None \<longleftrightarrow> walk f d = None \<and> f d = Some Directory"
  by (auto simp: walk_None above_snoc) (auto simp: strict_prefix_def)

lemma update_file_tmp: "update_file p g (f(p \<mapsto> Regular c m u k)) = f(p \<mapsto> g (Regular c m u k))"
  by (simp add: update_file_def)

lemma rename_tmp:
  assumes "quiet K" "walk f (d @ [x]) = None" "f (d @ [x]) = None" "x \<noteq> y" "f (d @ [y]) \<noteq> Some Directory"
  shows "rename K (d @ [x]) (d @ [y]) (f(d @ [x] \<mapsto> n)) = (Inr (), f(d @ [y] \<mapsto> n))"
proof -
  let ?f = "f(d @ [x] \<mapsto> n)"
  have "?f q = f q" if "prefix q d" for q using that prefix_length_le by fastforce
  then have w: "walk ?f (d @ [z]) = None" for z
    using assms(2) by (auto simp: walk_None above_snoc)
  then have "look ?f (d @ [x]) = Inr n" by (simp add: look_Inr)
  moreover have "(?f(d @ [x] := None))(d @ [y] \<mapsto> n) = f(d @ [y] \<mapsto> n)"
    using assms(3) by (auto simp: fun_eq_iff)
  ultimately show ?thesis using assms w by (simp add: rename_def)
qed

lemma publish_effect:
  assumes q: "quiet (fe_kernel E)" and p: "fl_target spec = d @ [y]" and tmp: "temp_path_in E (d @ [y]) = d @ [x]" "x \<noteq> y" "f (d @ [x]) = None"
    and w: "walk f (d @ [y]) = None" and nd: "f (d @ [y]) \<noteq> Some Directory"
  shows "publish_file E spec content mode uid gid f = (Inr (), f(d @ [y] \<mapsto> final_node E content mode uid gid))"
proof -
  let ?K = "fe_kernel E" and ?f1 = "\<lambda>n. f(d @ [x] \<mapsto> n)"
  have wx: "walk f (d @ [x]) = None" using w by (simp add: walk_child)
  have c: "create_excl ?K (d @ [x]) f = (Inr (), ?f1 (Regular [] (kn_new_mode ?K) (kn_euid ?K) (kn_egid ?K)))"
    using q tmp(3) wx by (simp add: create_excl_def look_def)
  have wr: "write_all ?K (d @ [x]) s (?f1 (Regular c m u g)) = (Inr (), ?f1 (Regular s m u g))" for s c m u g
    using q by (simp add: write_all_def update_file_tmp)
  have cm: "chmod ?K (d @ [x]) k (?f1 (Regular c m u g)) = (Inr (), ?f1 (Regular c (k mod 4096) u g))" for k c m u g
    using q by (simp add: chmod_def update_file_tmp)
  have co: "chown ?K (d @ [x]) uid gid (?f1 (Regular c m u g)) = (Inr (), ?f1 (Regular c (kn_chown_mode ?K m)
      (case uid of Some u \<Rightarrow> u | None \<Rightarrow> u) (case gid of Some g \<Rightarrow> g | None \<Rightarrow> g)))" for uid gid c m u g
    using q by (cases uid; cases gid) (simp_all add: chown_def update_file_tmp)
  have rn: "rename ?K (d @ [x]) (d @ [y]) (?f1 n) = (Inr (), f(d @ [y] \<mapsto> n))" for n
    by (rule rename_tmp [OF q wx tmp(3,2) nd])
  have s1: "io_at a (create_excl ?K (d @ [x])) f = (Inr (), ?f1 (Regular [] (kn_new_mode ?K) (kn_euid ?K) (kn_egid ?K)))" for a
    by (simp add: io_at_apply c)
  have s2: "io_at a (write_all ?K (d @ [x]) s) (?f1 (Regular c m u g)) = (Inr (), ?f1 (Regular s m u g))" for a s c m u g
    by (simp add: io_at_apply wr)
  have s3: "(case mode of Some m \<Rightarrow> io_at a (chmod ?K (d @ [x]) m) | None \<Rightarrow> doing ()) (?f1 (Regular c m u g))
      = (Inr (), ?f1 (Regular c (case mode of Some k \<Rightarrow> k mod 4096 | None \<Rightarrow> m) u g))" for a c m u g
    by (cases mode) (simp_all add: io_at_apply cm)
  have s4: "(if uid \<noteq> None \<or> gid \<noteq> None then io_at a (chown ?K (d @ [x]) uid gid) else doing ()) (?f1 (Regular c m u g))
      = (Inr (), ?f1 (Regular c (if uid \<noteq> None \<or> gid \<noteq> None then kn_chown_mode ?K m else m)
          (case uid of Some u \<Rightarrow> u | None \<Rightarrow> u) (case gid of Some g \<Rightarrow> g | None \<Rightarrow> g)))" for a c m u g
    by (cases uid; cases gid) (simp_all add: io_at_apply co)
  have s5: "io_at a (rename ?K (d @ [x]) (d @ [y])) (?f1 n) = (Inr (), f(d @ [y] \<mapsto> n))" for a n
    by (simp add: io_at_apply rn)
  show ?thesis
    unfolding publish_file_def Let_def p tmp(1)
    by (rule bindA_Inr [THEN trans], rule s1, rule bindA_Inr [THEN trans], rule s2, rule bindA_Inr [THEN trans], rule s3,
        rule bindA_Inr [THEN trans], rule s4, rule s5 [THEN trans], simp add: final_node_def Let_def)
qed

lemma check_target_effect:
  assumes "quiet (fe_kernel E)" and "walk f (fl_target spec) = None"
  shows "check_target E spec f = (Inr (), f) \<and> f (fl_target spec) \<noteq> Some Directory \<and> (\<forall>t. f (fl_target spec) \<noteq> Some (Symlink t))
    \<or> (\<exists>e. check_target E spec f = (Inl e, f)) \<and> (f (fl_target spec) = Some Directory \<or> (\<exists>t. f (fl_target spec) = Some (Symlink t)))"
proof -
  have st: "lstat (fe_kernel E) (fl_target spec) f = (ok_or (f (fl_target spec)) ENOENT, f)"
    using assms by (simp add: lstat_def look_def)
  show ?thesis
  proof (cases "f (fl_target spec)")
    case None
    then show ?thesis by (simp add: check_target_def bindA_def attempt_def st)
  next
    case (Some n)
    then show ?thesis by (cases n) (simp_all add: check_target_def bindA_def attempt_def st)
  qed
qed

lemma write_atomic_effect:
  assumes q: "quiet (fe_kernel E)" and p: "fl_target spec = d @ [y]" and tmp: "temp_path_in E (d @ [y]) = d @ [x]" "x \<noteq> y" "f (d @ [x]) = None"
    and run: "write_atomic E spec content mode uid gid f = (res, f')"
  shows "f' = f \<and> (\<exists>e. res = Inl e) \<and> (walk f (d @ [y]) = None \<longrightarrow> y = ''..'' \<or> f (d @ [y]) = Some Directory \<or> (\<exists>t. f (d @ [y]) = Some (Symlink t))) \<or>
    res = Inr () \<and> f' = f(d @ [y] \<mapsto> final_node E content mode uid gid) \<and> walk f (d @ [y]) = None
      \<and> f (d @ [y]) \<noteq> Some Directory \<and> (\<forall>t. f (d @ [y]) \<noteq> Some (Symlink t))"
proof -
  let ?K = "fe_kernel E"
  note run = run [unfolded write_atomic_def Let_def p tmp(1)]
  have od: "open_directory ?K d f = (if walk f (d @ [y]) = None then Inr () else (case look f d of Inl e \<Rightarrow> Inl e | Inr _ \<Rightarrow> Inl ENOTDIR), f)"
  proof -
    have "look f d = Inr Directory \<longleftrightarrow> walk f (d @ [y]) = None" by (simp add: look_Inr walk_child)
    moreover have "open_directory ?K d f = (case look f d of Inl e \<Rightarrow> Inl e | Inr Directory \<Rightarrow> Inr () | Inr _ \<Rightarrow> Inl ENOTDIR, f)"
      using q by (simp add: open_directory_def)
    ultimately show ?thesis by (cases "look f d"; cases "projr (look f d)") auto
  qed
  consider (parent) "y = ''..''" | (no_dir) "y \<noteq> ''..''" "walk f (d @ [y]) \<noteq> None"
    | (ready) "y \<noteq> ''..''" "walk f (d @ [y]) = None" by blast
  then show ?thesis
  proof cases
    case parent
    then show ?thesis using run by auto
  next
    case no_dir
    then have "\<exists>e. io_at (show_path d) (open_directory ?K d) f = (Inl e, f)"
      by (auto simp: io_at_apply od split: sum.splits)
    then obtain e where "io_at (show_path d) (open_directory ?K d) f = (Inl e, f)" ..
    with run no_dir have "res = Inl e" "f' = f" by (simp_all add: bindA_Inl)
    then show ?thesis using no_dir by (intro disjI1) auto
  next
    case ready
    have "io_at (show_path d) (open_directory ?K d) f = (Inr (), f)" using ready by (simp add: io_at_apply od)
    with run ready have rest: "bindA (check_target E spec) (\<lambda>_. publish_file E spec content mode uid gid) f = (res, f')"
      by (simp add: bindA_Inr)
    from check_target_effect [OF q ready(2) [folded p], unfolded p] show ?thesis
    proof (elim disjE conjE exE)
      assume c: "check_target E spec f = (Inr (), f)" and n: "f (d @ [y]) \<noteq> Some Directory" "\<forall>t. f (d @ [y]) \<noteq> Some (Symlink t)"
      from c rest publish_effect [OF q p tmp ready(2) n(1)] show ?thesis using ready n by (simp add: bindA_def)
    qed (use rest in \<open>auto simp: bindA_Inl\<close>)
  qed
qed

section \<open>The invariant and what is saved\<close>

definition plain_mode :: "kernel \<Rightarrow> nat \<Rightarrow> bool" where
  "plain_mode K m \<longleftrightarrow> m < 4096 \<and> kn_chown_mode K m = m"

definition plain_node :: "kernel \<Rightarrow> node \<Rightarrow> bool" where
  "plain_node K n \<longleftrightarrow> (case n of Regular c m u g \<Rightarrow> plain_mode K m \<and> u < 2 ^ 32 \<and> g < 2 ^ 32 | _ \<Rightarrow> False)"

text \<open>A host that suits the managed paths: the targets lie outside the state directory, none is a
  directory on the way to another one or to the state directory, and no temporary name is on the way
  to any of them.\<close>

definition host_ok :: "file_env \<Rightarrow> path \<Rightarrow> path set \<Rightarrow> bool" where
  "host_ok E sd T \<longleftrightarrow> quiet (fe_kernel E) \<and> kn_euid (fe_kernel E) < 2 ^ 32 \<and> kn_egid (fe_kernel E) < 2 ^ 32
     \<and> plain_mode (fe_kernel E) (kn_new_mode (fe_kernel E))
     \<and> (\<forall>p \<in> T. p \<noteq> [] \<and> \<not> prefix sd p \<and> \<not> prefix p sd \<and> \<not> prefix (temp_path_in E p) sd
          \<and> (\<forall>q \<in> T. \<not> strict_prefix p q \<and> \<not> prefix (temp_path_in E p) q))"

definition fs_ok :: "file_env \<Rightarrow> path \<Rightarrow> path set \<Rightarrow> fs \<Rightarrow> bool" where
  "fs_ok E sd T f \<longleftrightarrow> host_ok E sd T \<and> closed_fs f \<and> f [] = Some Directory
     \<and> (\<forall>p \<in> T. f (temp_path_in E p) = None \<and> (\<forall>n. f p = Some n \<longrightarrow> (\<exists>c m u g. n = Regular c m u g) \<longrightarrow> plain_node (fe_kernel E) n))
     \<and> (\<forall>q n. prefix sd q \<longrightarrow> f q = Some n \<longrightarrow> n = Directory \<or> (\<exists>c m u g. n = Regular c m u g))"

definition file_admissible :: "file_env \<Rightarrow> path set \<Rightarrow> resource \<Rightarrow> bool" where
  "file_admissible E T r \<longleftrightarrow> (case parse_file_spec r of Inl _ \<Rightarrow> True
     | Inr spec \<Rightarrow> fl_target spec \<in> T
         \<and> (case parsed_mode spec of Some m \<Rightarrow> plain_mode (fe_kernel E) (m mod 4096) | None \<Rightarrow> True))"

definition managed_view :: "path \<Rightarrow> fs \<Rightarrow> fs" where
  "managed_view sd f = (\<lambda>q. if prefix sd q \<or> f q = Some Directory then None else f q)"

definition file_touches :: "resource \<Rightarrow> fs \<Rightarrow> fs \<Rightarrow> bool" where
  "file_touches r v v' \<longleftrightarrow> (case parse_file_spec r of Inl _ \<Rightarrow> v' = v | Inr spec \<Rightarrow> \<forall>q. q \<noteq> fl_target spec \<longrightarrow> v' q = v q)"

definition absent_backup :: "file_spec \<Rightarrow> json" where
  "absent_backup spec = JObj [(''existed'', JBool False), (''path'', JStr (fl_path spec))]"

definition present_backup :: "file_spec \<Rightarrow> string \<Rightarrow> nat \<Rightarrow> nat \<Rightarrow> nat \<Rightarrow> json" where
  "present_backup spec c m u g = JObj [(''existed'', JBool True), (''path'', JStr (fl_path spec)), (''backup'', JStr backup_name),
     (''mode'', JStr (octal m)), (''uid'', jnat u), (''gid'', jnat g), (''size'', jnat (length c))]"

definition file_saved :: "file_env \<Rightarrow> path set \<Rightarrow> checkpoint \<Rightarrow> path \<Rightarrow> fs \<Rightarrow> fs \<Rightarrow> bool" where
  "file_saved E T cp ws v f \<longleftrightarrow> (\<exists>spec. parse_file_spec (synthesize_resource cp) = Inr spec \<and> fl_target spec \<in> T
     \<and> f (fl_target spec) \<noteq> Some Directory \<and>
     (cp_data cp = absent_backup spec \<and> v (fl_target spec) = None
        \<and> (\<forall>q. strict_prefix q (fl_target spec) \<longrightarrow> f q = None \<or> f q = Some Directory)
      \<or> (\<exists>c m u g u' g'. cp_data cp = present_backup spec c m u g \<and> v (fl_target spec) = Some (Regular c m u g)
          \<and> plain_node (fe_kernel E) (Regular c m u g) \<and> f (ws @ [backup_name]) = Some (Regular c m u' g')
          \<and> f (butlast (fl_target spec)) = Some Directory)))"

text \<open>A change at one managed path, with the directories that had to be made on the way.\<close>

definition changes_at :: "file_env \<Rightarrow> path \<Rightarrow> fs \<Rightarrow> fs \<Rightarrow> bool" where
  "changes_at E p f f' \<longleftrightarrow> closed_fs f' \<and> f' [] = Some Directory
     \<and> (\<forall>q. q \<noteq> p \<longrightarrow> f' q = f q \<or> f q = None \<and> f' q = Some Directory \<and> strict_prefix q p)
     \<and> (f' p = f p \<or> f p \<noteq> Some Directory \<and> (case f' p of None \<Rightarrow> True | Some n \<Rightarrow> plain_node (fe_kernel E) n))"

lemma host_okD:
  assumes "host_ok E sd T" and "p \<in> T"
  shows "p \<noteq> []" "\<not> prefix sd p" "\<not> prefix p sd" "\<not> prefix (temp_path_in E p) sd"
    and "q \<in> T \<Longrightarrow> \<not> strict_prefix p q" "q \<in> T \<Longrightarrow> \<not> strict_prefix q p" "q \<in> T \<Longrightarrow> \<not> prefix (temp_path_in E q) p"
  using assms unfolding host_ok_def by blast+

lemma changes_elsewhere:
  assumes "changes_at E p f f'" and "q \<noteq> p" and "f q \<noteq> None \<or> \<not> strict_prefix q p"
  shows "f' q = f q"
  using assms unfolding changes_at_def by metis

lemma plain_node_cases: "plain_node K n \<Longrightarrow> \<exists>c m u g. n = Regular c m u g"
  by (cases n) (auto simp: plain_node_def)

lemma changes_fs_ok:
  assumes ok: "fs_ok E sd T f" and p: "p \<in> T" and ch: "changes_at E p f f'"
  shows "fs_ok E sd T f'"
proof -
  have h: "host_ok E sd T" using ok by (simp add: fs_ok_def)
  note hp = host_okD [OF h p]
  have temp: "f' (temp_path_in E q) = None" if q: "q \<in> T" for q
  proof -
    have "temp_path_in E q \<noteq> p" "\<not> strict_prefix (temp_path_in E q) p" using hp(7) [OF q] by (auto simp: strict_prefix_def)
    from changes_elsewhere [OF ch this(1)] this(2) show ?thesis using ok q by (simp add: fs_ok_def)
  qed
  have plain: "plain_node (fe_kernel E) n" if "q \<in> T" "f' q = Some n" "n = Regular c m u g" for q n c m u g
  proof (cases "q = p")
    case True
    with that ch ok p show ?thesis by (auto simp: changes_at_def fs_ok_def)
  next
    case False
    with changes_elsewhere [OF ch False] hp(6) [OF that(1)] that ok show ?thesis by (auto simp: fs_ok_def)
  qed
  have inside: "n = Directory \<or> (\<exists>c m u g. n = Regular c m u g)" if "prefix sd q" "f' q = Some n" for q n
  proof -
    have "q \<noteq> p" using that(1) hp(2) by auto
    with ch have "f' q = f q \<or> f' q = Some Directory" by (auto simp: changes_at_def)
    moreover have "f q = Some n \<Longrightarrow> n = Directory \<or> (\<exists>c m u g. n = Regular c m u g)"
      using ok that(1) unfolding fs_ok_def by blast
    ultimately show ?thesis using that(2) by (metis option.inject)
  qed
  show ?thesis using h ch temp plain inside by (simp add: fs_ok_def changes_at_def) blast
qed

lemma changes_view:
  assumes ok: "fs_ok E sd T f" and ch: "changes_at E p f f'" and q: "q \<noteq> p"
  shows "managed_view sd f' q = managed_view sd f q"
  using ch q by (auto simp: changes_at_def managed_view_def)

lemma changes_saved:
  assumes ok: "fs_ok E sd T f" and p: "p \<in> T" and ch: "changes_at E p f f'"
    and ws: "ws \<in> workspaces sd" and saved: "file_saved E T cp ws v f"
  shows "file_saved E T cp ws v f'"
proof -
  have h: "host_ok E sd T" using ok by (simp add: fs_ok_def)
  note hp = host_okD [OF h p]
  from saved obtain spec where s: "parse_file_spec (synthesize_resource cp) = Inr spec" and t: "fl_target spec \<in> T"
    and nd: "f (fl_target spec) \<noteq> Some Directory" and alt: "cp_data cp = absent_backup spec \<and> v (fl_target spec) = None
        \<and> (\<forall>q. strict_prefix q (fl_target spec) \<longrightarrow> f q = None \<or> f q = Some Directory)
      \<or> (\<exists>c m u g u' g'. cp_data cp = present_backup spec c m u g \<and> v (fl_target spec) = Some (Regular c m u g)
          \<and> plain_node (fe_kernel E) (Regular c m u g) \<and> f (ws @ [backup_name]) = Some (Regular c m u' g')
          \<and> f (butlast (fl_target spec)) = Some Directory)"
    unfolding file_saved_def by blast
  have bk: "ws @ [backup_name] \<noteq> p"
    using ws hp(2) by (auto simp: workspaces_def workspace_at_def)
  have par: "butlast (fl_target spec) \<noteq> p"
    using hp(5) [OF t] above_butlast [OF host_okD(1) [OF h t]] by auto
  have dir: "f' (fl_target spec) \<noteq> Some Directory" if "f (fl_target spec) \<noteq> Some Directory"
  proof (cases "fl_target spec = p")
    case True
    with ch that show ?thesis by (auto simp: changes_at_def plain_node_def split: option.splits)
  next
    case False
    with changes_elsewhere [OF ch False] hp(6) [OF t] that show ?thesis by auto
  qed
  have up: "f' q = None \<or> f' q = Some Directory" if "strict_prefix q (fl_target spec)" "f q = None \<or> f q = Some Directory" for q
  proof -
    have "q \<noteq> p" using hp(5) [OF t] that(1) by auto
    with ch that(2) show ?thesis by (auto simp: changes_at_def)
  qed
  have same: "f' q = f q" if "q \<noteq> p" "f q = Some n" for q n using changes_elsewhere [OF ch that(1)] that(2) by simp
  from alt show ?thesis
    unfolding file_saved_def using s t dir [OF nd] up same [OF bk] same [OF par] by (metis (no_types, lifting))
qed

section \<open>The steps of the provider\<close>

lemma lookup_id_bound: "lookup_id E db name f = Inr n \<Longrightarrow> n < 2 ^ 32"
  by (auto simp: lookup_id_def dest!: parse_unsigned_bound split: option.splits sum.splits)

lemma temp_path_child: "\<exists>x. temp_path_in E (d @ [y]) = d @ [x] \<and> x \<noteq> y"
  by (intro exI [of _ "''.'' @ y @ ''.iac.'' @ fe_ulid E (d @ [y]) @ ''.tmp''"])
     (auto simp: temp_path_in_def dest: arg_cong [of _ _ length])

lemma ensure_parent_effect:
  assumes "quiet (fe_kernel E)" "closed_fs f" "f [] = Some Directory" "ensure_parent E d f = (res, f')"
  shows "only_dirs d f f'"
  using assms create_dir_all_dirs [OF assms(1-3), of d]
  by (auto simp: ensure_parent_def io_at_apply only_dirs_def split: if_splits prod.splits sum.splits)

lemma only_dirs_parent:
  assumes "only_dirs (butlast p) f f'" and "p \<noteq> []" and "f [] = Some Directory"
  shows "changes_at E p f f'"
proof -
  have below: "strict_prefix q p" if "strict_prefix q (butlast p) \<or> q = butlast p" for q
    using that above_butlast [OF assms(2)] by (auto intro: prefix_order.less_trans)
  then have "f' p = f p" using assms(1) by (auto simp: only_dirs_def)
  then show ?thesis using assms(1,3) below unfolding only_dirs_def changes_at_def by (metis option.distinct(1))
qed

lemma changes_trans_put:
  assumes ch: "changes_at E p f f1" and w: "walk f1 p = None" and nd: "f p \<noteq> Some Directory" and n: "plain_node (fe_kernel E) n"
    and p: "p \<noteq> []"
  shows "changes_at E p f (f1(p \<mapsto> n))"
proof -
  have "f1 p \<noteq> Some Directory" using ch nd by (auto simp: changes_at_def plain_node_def split: option.splits)
  then have "closed_fs (f1(p \<mapsto> n))"
    by (intro closed_put) (use ch w in \<open>auto simp: changes_at_def walk_None\<close>)
  then show ?thesis using ch n nd p by (auto simp: changes_at_def)
qed

lemma changes_refl: "closed_fs f \<Longrightarrow> f [] = Some Directory \<Longrightarrow> changes_at E p f f"
  by (simp add: changes_at_def)

lemma final_node_plain:
  assumes "host_ok E sd T" and "case mode of Some m \<Rightarrow> plain_mode (fe_kernel E) (m mod 4096) | None \<Rightarrow> True"
    and "\<And>u. uid = Some u \<Longrightarrow> u < 2 ^ 32" and "\<And>g. gid = Some g \<Longrightarrow> g < 2 ^ 32"
  shows "plain_node (fe_kernel E) (final_node E content mode uid gid)"
  using assms by (auto simp: final_node_def Let_def plain_node_def host_ok_def plain_mode_def split: option.splits)

lemma write_file_changes:
  assumes ok: "fs_ok E sd T f" and p: "fl_target spec \<in> T"
    and mode: "case parsed_mode spec of Some m \<Rightarrow> plain_mode (fe_kernel E) (m mod 4096) | None \<Rightarrow> True"
    and run: "write_file E spec f = (res, f')"
  shows "changes_at E (fl_target spec) f f'"
proof -
  let ?p = "fl_target spec"
  have h: "host_ok E sd T" and cl: "closed_fs f" "f [] = Some Directory" using ok by (simp_all add: fs_ok_def)
  have q: "quiet (fe_kernel E)" using h by (simp add: host_ok_def)
  have ne: "?p \<noteq> []" using host_okD(1) [OF h p] .
  then obtain d y where dy: "?p = d @ [y]" by (metis append_butlast_last_id)
  obtain x where x: "temp_path_in E (d @ [y]) = d @ [x]" "x \<noteq> y" using temp_path_child by blast
  obtain r1 f1 where e: "ensure_parent E (butlast ?p) f = (r1, f1)" by force
  have ch1: "changes_at E ?p f f1"
    by (rule only_dirs_parent [OF ensure_parent_effect [OF q cl e] ne cl(2)])
  have ok1: "fs_ok E sd T f1" by (rule changes_fs_ok [OF ok p ch1])
  have t1: "f1 (d @ [x]) = None" using ok1 p by (auto simp: fs_ok_def dy x(1))
  from run [unfolded write_file_def Let_def if_not_P [OF ne]] show ?thesis
  proof (cases rule: bindA_cases)
    case (fails er)
    with e ch1 show ?thesis by simp
  next
    case (passes u f2)
    then have f2: "f2 = f1" using e by simp
    from passes(2) [unfolded f2] show ?thesis
    proof (cases rule: bindA_cases)
      case (fails er)
      then have "f' = f1" by (auto simp: resolved_def split: option.splits sum.splits)
      with ch1 show ?thesis by simp
    next
      case (passes uid f3)
      then have f3: "f3 = f1" and uid: "u = the uid \<Longrightarrow> uid \<noteq> None \<Longrightarrow> u < 2 ^ 32" for u
        by (auto simp: resolved_def resolve_uid_def dest: lookup_id_bound split: option.splits sum.splits)
      from passes(2) [unfolded f3] show ?thesis
      proof (cases rule: bindA_cases)
        case (fails er)
        then have "f' = f1" by (auto simp: resolved_def split: option.splits sum.splits)
        with ch1 show ?thesis by simp
      next
        case (passes gid f4)
        then have f4: "f4 = f1" and gid: "u = the gid \<Longrightarrow> gid \<noteq> None \<Longrightarrow> u < 2 ^ 32" for u
          by (auto simp: resolved_def resolve_gid_def dest: lookup_id_bound split: option.splits sum.splits)
        from passes(2) [unfolded f4] obtain r5 where
          w: "write_atomic E spec (case fl_content spec of Some c \<Rightarrow> c | None \<Rightarrow> []) (parsed_mode spec) uid gid f1 = (r5, f')"
          by (cases rule: bindA_cases) auto
        have pl: "plain_node (fe_kernel E) (final_node E c (parsed_mode spec) uid gid)" for c
          by (rule final_node_plain [OF h mode]) (use uid gid in auto)
        from write_atomic_effect [OF q dy x t1 w] show ?thesis
        proof (elim disjE conjE)
          assume f': "f' = f1(d @ [y] \<mapsto> final_node E (case fl_content spec of Some c \<Rightarrow> c | None \<Rightarrow> []) (parsed_mode spec) uid gid)"
            and wk: "walk f1 (d @ [y]) = None" and nd: "f1 (d @ [y]) \<noteq> Some Directory"
          have "f (d @ [y]) \<noteq> Some Directory" using nd ch1 by (auto simp: changes_at_def dy)
          with changes_trans_put [OF ch1 _ _ pl ne] wk show ?thesis by (simp add: dy f')
        qed (use ch1 in simp)
      qed
    qed
  qed
qed

lemma delete_file_changes:
  assumes ok: "fs_ok E sd T f" and p: "fl_target spec \<in> T" and run: "delete_file E spec f = (res, f')"
  shows "changes_at E (fl_target spec) f f'"
proof -
  have h: "host_ok E sd T" and cl: "closed_fs f" "f [] = Some Directory" using ok by (simp_all add: fs_ok_def)
  have q: "quiet (fe_kernel E)" using h by (simp add: host_ok_def)
  have "f' = f \<or> f (fl_target spec) \<noteq> Some Directory \<and> f' = f(fl_target spec := None)"
    using run q by (auto simp: delete_file_def bindA_def attempt_def unlink_def look_Inr split: sum.splits node.splits errno.splits prod.splits)
  then show ?thesis
    using cl host_okD(1) [OF h p] by (auto simp: changes_at_def intro: closed_remove)
qed

section \<open>Backups\<close>

lemma look_ENOENT:
  assumes "closed_fs f" and "look f p = Inl ENOENT"
  shows "f p = None" and "strict_prefix q p \<Longrightarrow> f q = None \<or> f q = Some Directory"
proof -
  show none: "f p = None"
  proof (rule ccontr)
    assume "f p \<noteq> None"
    then obtain n where "f p = Some n" by blast
    from look_closed [OF assms(1) this] assms(2) show False by simp
  qed
  assume q: "strict_prefix q p"
  show "f q = None \<or> f q = Some Directory"
  proof (cases "walk f p")
    case None
    with q show ?thesis by (simp add: walk_None)
  next
    case (Some e)
    then have e: "e = ENOENT" using assms(2) by (simp add: look_Inl)
    obtain i where i: "find (\<lambda>i. f (take i p) \<noteq> Some Directory) [0..<length p] = Some i"
      and "(if f (take i p) = None then ENOENT else ENOTDIR) = e"
      using Some by (auto simp: walk_def split: option.splits)
    with e have ni: "f (take i p) = None" by (auto split: if_splits)
    from i have lt: "i < length p" "\<forall>j < i. f (take j p) = Some Directory" by (auto simp: find_Some_iff)
    obtain j where j: "j < length p" "q = take j p" using q by (auto simp: above_iff)
    show ?thesis
    proof (cases "j < i")
      case True
      with lt j show ?thesis by simp
    next
      case False
      have "f q = None"
      proof (rule ccontr)
        assume nq: "f q \<noteq> None"
        have "prefix (take i p) q" using False j lt by (simp add: prefix_def) (metis append_take_drop_id min.absorb1 not_less take_take)
        then have "take i p = q \<or> strict_prefix (take i p) q" by (auto simp: strict_prefix_def)
        with nq ni closed_fsD [OF assms(1) nq] show False by auto
      qed
      then show ?thesis by simp
    qed
  qed
qed

lemma target_not_on_workspace:
  assumes "host_ok E sd T" "p \<in> T" "ws \<in> workspaces sd"
  shows "\<not> prefix p ws" and "\<not> prefix (temp_path_in E p) ws" and "\<not> prefix (temp_path_in E p) (ws @ [backup_name])" and "ws @ [backup_name] \<noteq> p"
proof -
  have s: "prefix sd ws" using assms(3) by (auto simp: workspaces_def workspace_at_def)
  note h = host_okD [OF assms(1,2)]
  have t: "\<not> prefix sd (temp_path_in E p)"
  proof
    assume a: "prefix sd (temp_path_in E p)"
    have "temp_path_in E p \<noteq> sd" using h(4) by auto
    with a have "prefix sd (butlast p)" by (auto simp: temp_path_in_def prefix_snoc)
    with within_parent h(2) show False by blast
  qed
  show "\<not> prefix p ws" using prefix_same_cases [OF s] h(2,3) by blast
  show "\<not> prefix (temp_path_in E p) ws" using prefix_same_cases [OF s] t h(4) by blast
  show "\<not> prefix (temp_path_in E p) (ws @ [backup_name])"
    using prefix_same_cases [of sd "ws @ [backup_name]"] s t h(4) by (meson prefix_order.order_trans prefixI prefix_append prefix_same_cases)
  show "ws @ [backup_name] \<noteq> p" using h(2) s by auto
qed

text \<open>What a backup adds: directories on the way to its workspace and one file in it.\<close>

definition stores_at :: "path \<Rightarrow> fs \<Rightarrow> fs \<Rightarrow> bool" where
  "stores_at ws f f' \<longleftrightarrow> closed_fs f' \<and> f' [] = Some Directory
     \<and> (\<forall>q. q \<noteq> ws @ [backup_name] \<longrightarrow> f' q = f q \<or> f q = None \<and> f' q = Some Directory \<and> prefix q ws)
     \<and> (f' (ws @ [backup_name]) = f (ws @ [backup_name]) \<or> (\<exists>c m u g. f' (ws @ [backup_name]) = Some (Regular c m u g)))"

lemma stores_same:
  assumes "stores_at ws f f'" and "q \<noteq> ws @ [backup_name]" and "f q \<noteq> None \<or> \<not> prefix q ws"
  shows "f' q = f q"
  using assms unfolding stores_at_def by metis

lemma stores_fs_ok:
  assumes ok: "fs_ok E sd T f" and ws: "ws \<in> workspaces sd" and st: "stores_at ws f f'"
  shows "fs_ok E sd T f'" and "managed_view sd f' = managed_view sd f"
proof -
  have h: "host_ok E sd T" using ok by (simp add: fs_ok_def)
  have s: "prefix sd ws" using ws by (auto simp: workspaces_def workspace_at_def)
  note nt = target_not_on_workspace [OF h _ ws]
  have tgt: "f' p = f p" if "p \<in> T" for p
    by (rule stores_same [OF st]) (use nt(1,4) [OF that] in auto)
  have tmp: "f' (temp_path_in E p) = f (temp_path_in E p)" if "p \<in> T" for p
    by (rule stores_same [OF st]) (use nt(2,3) [OF that] in auto)
  have inside: "n = Directory \<or> (\<exists>c m u g. n = Regular c m u g)" if "prefix sd q" "f' q = Some n" for q n
  proof -
    have "f q = Some n \<Longrightarrow> n = Directory \<or> (\<exists>c m u g. n = Regular c m u g)"
      using ok that(1) unfolding fs_ok_def by blast
    with st that(2) show ?thesis unfolding stores_at_def by (metis option.inject)
  qed
  show "fs_ok E sd T f'"
    using h st inside ok tgt tmp by (simp add: fs_ok_def stores_at_def)
  show "managed_view sd f' = managed_view sd f"
  proof
    fix q
    have "prefix sd q \<or> f' q = f q \<or> f q = None \<and> f' q = Some Directory"
      using st s unfolding stores_at_def by (metis prefix_order.order_trans prefixI)
    then show "managed_view sd f' q = managed_view sd f q" by (auto simp: managed_view_def)
  qed
qed

lemma stores_saved:
  assumes ok: "fs_ok E sd T f" and ws: "ws \<in> workspaces sd" and st: "stores_at ws f f'"
    and ws': "ws' \<in> workspaces sd" "ws' \<noteq> ws" and saved: "file_saved E T cp ws' v f"
  shows "file_saved E T cp ws' v f'"
proof -
  have h: "host_ok E sd T" using ok by (simp add: fs_ok_def)
  have sd: "prefix sd ws" using ws by (auto simp: workspaces_def workspace_at_def)
  from saved obtain spec where s: "parse_file_spec (synthesize_resource cp) = Inr spec" and t: "fl_target spec \<in> T"
    and nd: "f (fl_target spec) \<noteq> Some Directory" and alt: "cp_data cp = absent_backup spec \<and> v (fl_target spec) = None
        \<and> (\<forall>q. strict_prefix q (fl_target spec) \<longrightarrow> f q = None \<or> f q = Some Directory)
      \<or> (\<exists>c m u g u' g'. cp_data cp = present_backup spec c m u g \<and> v (fl_target spec) = Some (Regular c m u g)
          \<and> plain_node (fe_kernel E) (Regular c m u g) \<and> f (ws' @ [backup_name]) = Some (Regular c m u' g')
          \<and> f (butlast (fl_target spec)) = Some Directory)"
    unfolding file_saved_def by blast
  note nt = target_not_on_workspace [OF h t ws]
  have tgt: "f' (fl_target spec) = f (fl_target spec)" by (rule stores_same [OF st]) (use nt in auto)
  have nb: "q \<noteq> ws @ [backup_name]" if "strict_prefix q (fl_target spec)" for q
  proof
    assume "q = ws @ [backup_name]"
    then have "prefix sd (fl_target spec)" using that sd by (meson prefix_order.less_imp_le prefix_order.order_trans prefixI)
    with host_okD(2) [OF h t] show False by blast
  qed
  have up: "f' q = None \<or> f' q = Some Directory" if "strict_prefix q (fl_target spec)" "f q = None \<or> f q = Some Directory" for q
    using st nb [OF that(1)] that(2) unfolding stores_at_def by metis
  have par: "f' (butlast (fl_target spec)) = Some Directory" if "f (butlast (fl_target spec)) = Some Directory"
    using stores_same [OF st nb [OF above_butlast [OF host_okD(1) [OF h t]]]] that by simp
  have bk: "f' (ws' @ [backup_name]) = Some n" if "f (ws' @ [backup_name]) = Some n" for n
    using stores_same [OF st, of "ws' @ [backup_name]"] ws'(2) that by simp
  from alt show ?thesis
  proof (elim disjE conjE exE)
    assume "cp_data cp = absent_backup spec" "v (fl_target spec) = None"
      "\<forall>q. strict_prefix q (fl_target spec) \<longrightarrow> f q = None \<or> f q = Some Directory"
    then show ?thesis unfolding file_saved_def using s t nd tgt up by (intro exI [of _ spec]) simp
  next
    fix c m u g u' g' assume "cp_data cp = present_backup spec c m u g" "v (fl_target spec) = Some (Regular c m u g)"
      "plain_node (fe_kernel E) (Regular c m u g)" "f (ws' @ [backup_name]) = Some (Regular c m u' g')"
      "f (butlast (fl_target spec)) = Some Directory"
    then show ?thesis unfolding file_saved_def using s t nd tgt par bk by (intro exI [of _ spec]) auto
  qed
qed

lemma copy_new:
  assumes q: "quiet K" and src: "f p = Some (Regular c m u g)" "walk f p = None" and cl: "closed_fs f"
    and dst: "\<And>t. f q \<noteq> Some (Symlink t)" "f q \<noteq> Some OtherNode" and run: "copy_file K p q f = (res, f')"
  shows "(\<exists>e. res = Inl e) \<and> f' = f \<or> res = Inr () \<and> walk f q = None \<and> f q \<noteq> Some Directory \<and>
    (\<exists>u' g'. f' = f(q \<mapsto> Regular c m u' g') \<and> (f q = None \<longrightarrow> u' = kn_euid K \<and> g' = kn_egid K))"
proof -
  have "resolve_link max_links f p = Inr p" using src by (intro resolve_plain) simp
  moreover have "resolve_link max_links f q = Inr q" by (rule resolve_plain) (rule dst)
  moreover have "look f p = Inr (Regular c m u g)" using src by (simp add: look_Inr)
  ultimately have r: "copy_file K p q f = (case walk f q of Some e \<Rightarrow> (Inl e, f) | None \<Rightarrow>
      (case f q of None \<Rightarrow> (Inr (), f(q \<mapsto> Regular c m (kn_euid K) (kn_egid K)))
       | Some (Regular c0 m0 u' g') \<Rightarrow> (Inr (), f(q \<mapsto> Regular c m u' g'))
       | Some Directory \<Rightarrow> (Inl EISDIR, f) | Some _ \<Rightarrow> (Inr (), f)))"
    using q by (simp add: copy_file_def)
  show ?thesis
  proof (cases "f q")
    case None
    with run r show ?thesis by (auto split: option.splits)
  next
    case (Some n)
    with run r dst show ?thesis by (cases n) (auto split: option.splits)
  qed
qed

lemma backup_stores:
  assumes ok: "fs_ok E sd T f" and p: "fl_target spec \<in> T" and ws: "ws \<in> workspaces sd" and run: "backup_file E spec ws f = (res, f')"
  shows "stores_at ws f f'"
    and "res = Inr data \<Longrightarrow> data = absent_backup spec \<and> look f' (fl_target spec) = Inl ENOENT
      \<or> (\<exists>c m u g u' g'. data = present_backup spec c m u g \<and> f (fl_target spec) = Some (Regular c m u g)
            \<and> f' (ws @ [backup_name]) = Some (Regular c m u' g'))"
proof -
  let ?p = "fl_target spec" and ?b = "ws @ [backup_name]"
  have h: "host_ok E sd T" and cl: "closed_fs f" "f [] = Some Directory" using ok by (simp_all add: fs_ok_def)
  have q: "quiet (fe_kernel E)" using h by (simp add: host_ok_def)
  note nt = target_not_on_workspace [OF h p ws]
  have sd: "prefix sd ?b" using ws by (auto simp: workspaces_def workspace_at_def)
  obtain r1 f1 where c: "create_dir_all (fe_kernel E) ws f = (r1, f1)" by force
  have d1: "only_dirs ws f f1" by (rule create_dir_all_dirs [OF q cl c])
  have st1: "stores_at ws f f1"
  proof -
    have b: "\<not> strict_prefix ?b ws" "?b \<noteq> ws" by (auto dest: prefix_length_less)
    have d: "f1 r = f r \<or> f r = None \<and> f1 r = Some Directory \<and> (strict_prefix r ws \<or> r = ws)" for r
      using d1 by (simp add: only_dirs_def)
    have "f1 r = f r \<or> f r = None \<and> f1 r = Some Directory \<and> prefix r ws" for r using d [of r] by (auto simp: strict_prefix_def)
    moreover have "f1 [] = Some Directory" using d [of "[]"] cl(2) by auto
    moreover have "f1 ?b = f ?b" using d [of ?b] b by blast
    ultimately show ?thesis using d1 by (simp add: only_dirs_def stores_at_def)
  qed
  have ok1: "fs_ok E sd T f1" by (rule stores_fs_ok(1) [OF ok ws st1])
  have cl1: "closed_fs f1" using ok1 by (simp add: fs_ok_def)
  have fp: "f1 ?p = f ?p" by (rule stores_same [OF st1]) (use nt in auto)
  have nb: "f1 ?b \<noteq> Some (Symlink t)" "f1 ?b \<noteq> Some OtherNode" for t
    using ok1 sd unfolding fs_ok_def by blast+
  have st: "lstat (fe_kernel E) ?p f1 = (look f1 ?p, f1)" using q by (simp add: lstat_def)
  have both: "stores_at ws f f' \<and> (\<forall>data. res = Inr data \<longrightarrow> data = absent_backup spec \<and> look f' ?p = Inl ENOENT
      \<or> (\<exists>c m u g u' g'. data = present_backup spec c m u g \<and> f ?p = Some (Regular c m u g) \<and> f' ?b = Some (Regular c m u' g')))"
  proof (cases r1)
    case (Inl e)
    then have "res = Inl (IoError (show_path ws) (errno_text e))" "f' = f1"
      using run c by (auto simp: backup_file_def Let_def bindA_def io_at_apply)
    then show ?thesis using st1 by simp
  next
    case (Inr u)
    note run1 = run [unfolded backup_file_def Let_def]
    have b1: "bindA (io_at (show_path ws) (create_dir_all (fe_kernel E) ws)) k f = k () f1" for k :: "unit \<Rightarrow> (fs, json) io"
      by (simp add: bindA_def io_at_apply c Inr)
    have b2: "bindA (attempt (lstat (fe_kernel E) ?p)) k f1 = k (look f1 ?p) f1" for k :: "(errno, node) result \<Rightarrow> (fs, json) io"
      by (simp add: bindA_def attempt_def st)
    have rest: "(case look f1 ?p of
        Inl ENOENT \<Rightarrow> doing (absent_backup spec)
      | Inl e \<Rightarrow> failing (IoError (fl_path spec) (errno_text e))
      | Inr (Regular c m u g) \<Rightarrow> bindA (io_at (show_path ?b) (copy_file (fe_kernel E) ?p ?b)) (\<lambda>_. doing (present_backup spec c m u g))
      | Inr _ \<Rightarrow> failing (ProviderError ''file'' (Msg ''refusing to back up non-regular file {}'' [fl_path spec]))) f1 = (res, f')"
      using run1 unfolding b1 b2 absent_backup_def present_backup_def .
    show ?thesis
    proof (cases "look f1 ?p")
      case (Inl e)
      with rest st1 show ?thesis by (cases e) auto
    next
      case (Inr n)
      then have n: "f1 ?p = Some n" "walk f1 ?p = None" by (simp_all add: look_Inr)
      show ?thesis
      proof (cases "\<exists>c m u g. n = Regular c m u g")
        case False
        with rest Inr st1 show ?thesis by (cases n) auto
      next
        case True
        then obtain c m u g where reg: "n = Regular c m u g" by blast
        obtain r2 f2 where cp: "copy_file (fe_kernel E) ?p ?b f1 = (r2, f2)" by force
        have out: "res = (case r2 of Inl e \<Rightarrow> Inl (IoError (show_path ?b) (errno_text e)) | Inr _ \<Rightarrow> Inr (present_backup spec c m u g)) \<and> f' = f2"
          using rest by (auto simp: Inr reg bindA_def io_at_apply cp split: sum.splits)
        from copy_new [OF q n(1) [unfolded reg] n(2) cl1 nb cp] show ?thesis
        proof (elim disjE conjE exE)
          fix e assume "r2 = Inl e" "f2 = f1"
          with out st1 show ?thesis by simp
        next
          fix u' g' assume r2: "r2 = Inr ()" and w: "walk f1 ?b = None" and nd: "f1 ?b \<noteq> Some Directory"
            and f2: "f2 = f1(?b \<mapsto> Regular c m u' g')"
          have "closed_fs f2" unfolding f2 by (rule closed_put [OF cl1]) (use w nd in \<open>auto simp: walk_None\<close>)
          then have "stores_at ws f f2" using st1 unfolding stores_at_def f2 by auto
          moreover have "f ?p = Some (Regular c m u g)" using fp n(1) reg by simp
          ultimately show ?thesis using out r2 f2 by simp
        qed
      qed
    qed
  qed
  show "stores_at ws f f'" using both by blast
  show "res = Inr data \<Longrightarrow> data = absent_backup spec \<and> look f' ?p = Inl ENOENT
      \<or> (\<exists>c m u g u' g'. data = present_backup spec c m u g \<and> f ?p = Some (Regular c m u g) \<and> f' ?b = Some (Regular c m u' g'))"
    using both by blast
qed

section \<open>Restoring\<close>

lemma parse_octal:
  assumes "m < 2 ^ 32"
  shows "parse_mode (dropWhile (\<lambda>c. c = CHR ''0'') (octal m)) = (if m = 0 then None else Some m)"
proof (cases "m = 0")
  case True
  have "show_radix 8 0 = [char_of (48 + (0 :: nat))]" by (subst show_radix.simps) simp
  moreover have "char_of (48 + (0 :: nat)) = CHR ''0''" by (simp only: digit_char) simp
  ultimately have "dropWhile (\<lambda>c. c = CHR ''0'') (octal 0) = []" by (simp only: octal_def) simp
  moreover have "parse_mode [] = None" by (simp add: parse_mode_def parse_unsigned_def trim_plain)
  ultimately show ?thesis using True by (simp only: simp_thms if_True)
next
  case False
  note hd = show_radix_hd [of 8 m]
  have d: "dropWhile (\<lambda>c. c = CHR ''0'') (octal m) = show_radix 8 m"
    using hd False by (cases "show_radix 8 m") (auto simp: octal_def)
  have "plain_byte c" if "c \<in> set (show_radix 8 m)" for c
    using show_radix_digits [of 8 c m] that digit_plain by auto
  then have t: "trim (show_radix 8 m) = show_radix 8 m"
    using hd False by (intro trim_plain) auto
  have "\<not> is_prefix ''0o'' (show_radix 8 m)" using hd False by (cases "show_radix 8 m") auto
  moreover have "parse_unsigned 8 (2 ^ 32) (show_radix 8 m) = Some m"
    using hd False parse_show_radix [of 8 m "2 ^ 32"] assms
    by (cases "show_radix 8 m") (auto simp: parse_unsigned_def Let_def simp del: parse_digits.simps)
  ultimately show ?thesis using False by (simp add: parse_mode_def d t Let_def)
qed

lemma as_u32_jnat: "n < 2 ^ 32 \<Longrightarrow> as_u32 (jnat n) = Some n"
proof -
  assume n: "n < 2 ^ 32"
  have "show_radix 10 n \<noteq> []" by (subst show_radix.simps) simp
  then show ?thesis using n parse_show_radix [of 10 n "2 ^ 64"]
    by (simp add: as_u32_def as_u64_def jnat_def)
qed

lemma restore_present:
  assumes ok: "fs_ok E sd T f" and p: "fl_target spec \<in> T" and n: "plain_node (fe_kernel E) (Regular c m u g)"
    and bk: "f (ws @ [backup_name]) = Some (Regular c m u' g')" and par: "f (butlast (fl_target spec)) = Some Directory"
    and nd: "f (fl_target spec) \<noteq> Some Directory"
  shows "restore_file E (fl_path spec) (present_backup spec c m u g) ws f = (Inr (), f(fl_target spec \<mapsto> Regular c m u g))"
proof -
  let ?K = "fe_kernel E" and ?b = "ws @ [backup_name]"
  have h: "host_ok E sd T" and cl: "closed_fs f" using ok by (simp_all add: fs_ok_def)
  have q: "quiet ?K" using h by (simp add: host_ok_def)
  obtain d y where dy: "fl_target spec = d @ [y]" by (metis host_okD(1) [OF h p] append_butlast_last_id)
  obtain x where x: "temp_path_in E (d @ [y]) = d @ [x]" "x \<noteq> y" using temp_path_child by blast
  have tn: "f (d @ [x]) = None" using ok p by (auto simp: fs_ok_def dy x(1))
  have par': "f d = Some Directory" using par by (simp add: dy)
  have wd: "walk f d = None" using cl par' by (auto simp: walk_None dest: closed_fsD)
  then have wx: "walk f (d @ [x]) = None" using par' by (simp add: walk_child)
  have m: "m < 4096" "kn_chown_mode ?K m = m" "u < 2 ^ 32" "g < 2 ^ 32" using n by (simp_all add: plain_node_def plain_mode_def)
  let ?f1 = "\<lambda>n. f(d @ [x] \<mapsto> n)"
  have lb: "look f ?b = Inr (Regular c m u' g')" by (rule look_closed [OF cl bk])
  have rb: "resolve_link max_links f ?b = Inr ?b" by (rule resolve_plain) (simp add: bk)
  have rt: "resolve_link max_links f (d @ [x]) = Inr (d @ [x])" by (rule resolve_plain) (simp add: tn)
  have copy: "copy_file ?K ?b (d @ [x]) f = (Inr (), ?f1 (Regular c m (kn_euid ?K) (kn_egid ?K)))"
    using q by (simp add: copy_file_def rb lb rt wx tn)
  have pb: "path_exists ?K f ?b" using q rb lb by (simp add: path_exists_def quiet_def)
  have "resolve_link max_links f d = Inr d" by (rule resolve_plain) (simp add: par')
  then have "path_exists ?K f d" using q look_closed [OF cl par'] by (simp add: path_exists_def quiet_def)
  then have ens: "ensure_parent E d f = (Inr (), f)" by (simp add: ensure_parent_def)
  have cm: "(case (if m = 0 then None else Some m) of Some k \<Rightarrow> chmod ?K (d @ [x]) k | None \<Rightarrow> doing ()) (?f1 (Regular c m a b)) = (Inr (), ?f1 (Regular c m a b))" for a b
    using q m(1) by (simp add: chmod_def update_file_tmp)
  have co: "chown ?K (d @ [x]) (Some u) (Some g) (?f1 (Regular c m a b)) = (Inr (), ?f1 (Regular c m u g))" for a b
    using q m(2) by (simp add: chown_def update_file_tmp)
  have rn: "rename ?K (d @ [x]) (d @ [y]) (?f1 n) = (Inr (), f(d @ [y] \<mapsto> n))" for n
    by (rule rename_tmp [OF q wx tn x(2)]) (use nd in \<open>simp add: dy\<close>)
  have fields: "jget (present_backup spec c m u g) ''path'' = Some (JStr (fl_path spec))"
    "jget (present_backup spec c m u g) ''existed'' = Some (JBool True)"
    "jget (present_backup spec c m u g) ''backup'' = Some (JStr backup_name)"
    "jget (present_backup spec c m u g) ''mode'' = Some (JStr (octal m))"
    "jget (present_backup spec c m u g) ''uid'' = Some (jnat u)"
    "jget (present_backup spec c m u g) ''gid'' = Some (jnat g)"
    by (simp_all add: present_backup_def)
  have name: "components backup_name = [backup_name]" "CHR ''/'' \<notin> set backup_name" "CHR 0x5C \<notin> set backup_name" "\<not> has_substring ''..'' backup_name"
    by code_simp+
  have po: "parse_mode (dropWhile (\<lambda>c. c = CHR ''0'') (octal m)) = (if m = 0 then None else Some m)"
    by (rule parse_octal) (use m(1) in simp)
  have saved: "restore_saved E (d @ [y]) (present_backup spec c m u g) ?b f = (Inr (), f(d @ [y] \<mapsto> Regular c m u g))"
    unfolding restore_saved_def Let_def fields bind.simps option.simps as_str_simps po as_u32_jnat [OF m(3)] as_u32_jnat [OF m(4)] x(1) butlast_snoc
    by (simp add: bindA_def ens io_at_apply copy attempt_def cm co rn)
  have "restore_checked E (fl_path spec) (present_backup spec c m u g) ws f = (Inr (), f(d @ [y] \<mapsto> Regular c m u g))"
    using saved pb dy unfolding fl_target_def
    by (simp add: restore_checked_def fields as_bool_def name Let_def)
  then show ?thesis by (simp add: restore_file_def fields dy)
qed

lemma restore_absent:
  assumes ok: "fs_ok E sd T f" and nd: "f (fl_target spec) \<noteq> Some Directory"
    and up: "\<And>q. strict_prefix q (fl_target spec) \<Longrightarrow> f q = None \<or> f q = Some Directory"
  shows "restore_file E (fl_path spec) (absent_backup spec) ws f = (Inr (), f(fl_target spec := None))"
proof -
  let ?p = "fl_target spec"
  have q: "quiet (fe_kernel E)" using ok by (simp add: fs_ok_def host_ok_def)
  have fields: "jget (absent_backup spec) ''path'' = Some (JStr (fl_path spec))"
    "jget (absent_backup spec) ''existed'' = Some (JBool False)" by (simp_all add: absent_backup_def)
  have "unlink (fe_kernel E) ?p f = (Inr (), f(?p := None)) \<or> unlink (fe_kernel E) ?p f = (Inl ENOENT, f) \<and> f ?p = None"
  proof (cases "f ?p")
    case (Some n)
    then have "look f ?p = Inr n" using ok by (simp add: fs_ok_def look_closed)
    with Some nd q show ?thesis by (cases n) (simp_all add: unlink_def)
  next
    case None
    then have "look f ?p = Inl ENOENT" using walk_ENOENT [OF _ up] by (auto simp: look_def split: option.splits)
    with None q show ?thesis by (simp add: unlink_def)
  qed
  then have "restore_checked E (fl_path spec) (absent_backup spec) ws f = (Inr (), f(?p := None))"
    by (auto simp: restore_checked_def fields as_bool_def bindA_def attempt_def fl_target_def [symmetric] fun_upd_idem)
  then show ?thesis by (simp add: restore_file_def fields)
qed

section \<open>The contract\<close>

lemma starts_with_prefix: "starts_with p q \<longleftrightarrow> prefix p q"
  by (induction p q rule: starts_with.induct) auto

lemma remove_tree_ok:
  assumes ok: "fs_ok E sd T f"
  shows "fs_ok E sd T (remove_tree (sd @ [''operations'', o1]) f)"
    and "managed_view sd (remove_tree (sd @ [''operations'', o1]) f) = managed_view sd f"
proof -
  let ?t = "sd @ [''operations'', o1]" let ?f = "remove_tree ?t f"
  have sub: "?f q = Some n \<Longrightarrow> f q = Some n" for q n by (auto simp: remove_tree_def split: if_splits)
  have "?f q = Some Directory" if "?f p \<noteq> None" "strict_prefix q p" for p q
  proof -
    from that(1) have "\<not> prefix ?t p" "f p \<noteq> None" by (auto simp: remove_tree_def starts_with_prefix split: if_splits)
    then have "\<not> prefix ?t q" using that(2) by (meson prefix_order.less_imp_le prefix_order.order_trans)
    moreover have "f q = Some Directory" using ok that(2) \<open>f p \<noteq> None\<close> by (auto simp: fs_ok_def dest: closed_fsD)
    ultimately show ?thesis by (simp add: remove_tree_def starts_with_prefix)
  qed
  then have "closed_fs ?f" by (auto simp: closed_fs_def)
  moreover have "?f [] = Some Directory" using ok by (simp add: remove_tree_def starts_with_prefix fs_ok_def)
  moreover have "?f q = None" if "f q = None" for q using that by (simp add: remove_tree_def)
  ultimately show "fs_ok E sd T ?f" using ok sub unfolding fs_ok_def by (auto dest!: sub)
  show "managed_view sd ?f = managed_view sd f"
    by (auto simp: managed_view_def remove_tree_def starts_with_prefix fun_eq_iff dest: append_prefixD)
qed

lemma remove_tree_saved:
  assumes ok: "fs_ok E sd T f" and "o1 \<noteq> o2" and saved: "file_saved E T cp (workspace_at sd o2 key stp) v f"
  shows "file_saved E T cp (workspace_at sd o2 key stp) v (remove_tree (sd @ [''operations'', o1]) f)"
proof -
  let ?t = "sd @ [''operations'', o1]" let ?f = "remove_tree ?t f" and ?ws = "workspace_at sd o2 key stp"
  have h: "host_ok E sd T" using ok by (simp add: fs_ok_def)
  have bk: "?f (?ws @ [backup_name]) = f (?ws @ [backup_name])"
    using assms(2) by (simp add: remove_tree_def starts_with_prefix workspace_at_def)
  have par: "?f (butlast p) = f (butlast p)" if "p \<in> T" for p
  proof -
    have "\<not> prefix ?t (butlast p)" using host_okD(2) [OF h that] within_parent by (meson append_prefixD)
    then show ?thesis by (simp add: remove_tree_def starts_with_prefix)
  qed
  have "?f q = f q \<or> ?f q = None" for q by (simp add: remove_tree_def)
  then have up: "f q = None \<or> f q = Some Directory \<Longrightarrow> ?f q = None \<or> ?f q = Some Directory"
    and nd: "f q \<noteq> Some Directory \<Longrightarrow> ?f q \<noteq> Some Directory" for q by (metis option.distinct(1))+
  from saved obtain spec where s: "parse_file_spec (synthesize_resource cp) = Inr spec" and t: "fl_target spec \<in> T"
    and d: "f (fl_target spec) \<noteq> Some Directory" and alt: "cp_data cp = absent_backup spec \<and> v (fl_target spec) = None
        \<and> (\<forall>q. strict_prefix q (fl_target spec) \<longrightarrow> f q = None \<or> f q = Some Directory)
      \<or> (\<exists>c m u g u' g'. cp_data cp = present_backup spec c m u g \<and> v (fl_target spec) = Some (Regular c m u g)
          \<and> plain_node (fe_kernel E) (Regular c m u g) \<and> f (?ws @ [backup_name]) = Some (Regular c m u' g')
          \<and> f (butlast (fl_target spec)) = Some Directory)"
    unfolding file_saved_def by blast
  from alt show ?thesis
  proof (elim disjE conjE exE)
    assume "cp_data cp = absent_backup spec" "v (fl_target spec) = None"
      "\<forall>q. strict_prefix q (fl_target spec) \<longrightarrow> f q = None \<or> f q = Some Directory"
    then show ?thesis unfolding file_saved_def using s t nd [OF d] up by (intro exI [of _ spec]) simp
  next
    fix c m u g u' g' assume "cp_data cp = present_backup spec c m u g" "v (fl_target spec) = Some (Regular c m u g)"
      "plain_node (fe_kernel E) (Regular c m u g)" "f (?ws @ [backup_name]) = Some (Regular c m u' g')"
      "f (butlast (fl_target spec)) = Some Directory"
    then show ?thesis unfolding file_saved_def using s t nd [OF d] par [OF t] bk by (intro exI [of _ spec]) auto
  qed
qed

lemma file_registry_Some: "file_registry E k = Some P \<longleftrightarrow> k = ''file'' \<and> P = file_provider E"
  by (auto simp: file_registry_def register_def file_provider_def)

lemma parse_synthesized:
  assumes "cp_for cp r data"
  shows "parse_file_spec (synthesize_resource cp) = parse_file_spec r"
proof -
  have "rs_spec (synthesize_resource cp) = rs_spec r" "resource_id_of (synthesize_resource cp) = resource_id_of r"
    using assms by (simp_all add: cp_for_def)
  then show ?thesis unfolding parse_file_spec_def by (simp only:)
qed

lemma file_touches_changes:
  assumes "fs_ok E sd T f" "changes_at E (fl_target spec) f f'" "parse_file_spec r = Inr spec"
  shows "file_touches r (managed_view sd f) (managed_view sd f')"
  using changes_view [OF assms(1,2)] assms(3) by (simp add: file_touches_def)

lemma file_apply_changes:
  assumes ok: "fs_ok E sd T f" and adm: "file_admissible E T r" and run: "file_apply E r s ctx f = (res, f')"
  shows "f' = f \<and> (\<exists>e. res = Inl e) \<or> (\<exists>spec. parse_file_spec r = Inr spec \<and> fl_target spec \<in> T \<and> changes_at E (fl_target spec) f f')"
proof (cases "parse_file_spec r")
  case (Inl e)
  with run show ?thesis by (auto simp: file_apply_def bindA_def)
next
  case (Inr spec)
  with adm have t: "fl_target spec \<in> T" and m: "case parsed_mode spec of Some m \<Rightarrow> plain_mode (fe_kernel E) (m mod 4096) | None \<Rightarrow> True"
    by (simp_all add: file_admissible_def)
  from run Inr show ?thesis
    using write_file_changes [OF ok t m] delete_file_changes [OF ok t] t
    by (cases "parse_file_action (st_action s)"; cases "projr (parse_file_action (st_action s))") (auto simp: file_apply_def bindA_def)
qed

lemma file_rollback_undoes:
  assumes ok: "fs_ok E sd T f" and ws: "ws \<in> workspaces sd" and saved: "file_saved E T cp ws v f"
    and tch: "file_touches (synthesize_resource cp) v (managed_view sd f)"
  shows "\<exists>f'. file_rollback E (synthesize_resource cp) cp ws f = (Inr (), f') \<and> fs_ok E sd T f' \<and> managed_view sd f' = v
    \<and> (\<forall>cp' ws' v'. ws' \<in> workspaces sd \<longrightarrow> file_saved E T cp' ws' v' f \<longrightarrow> file_saved E T cp' ws' v' f')"
proof -
  have h: "host_ok E sd T" and cl: "closed_fs f" "f [] = Some Directory" using ok by (simp_all add: fs_ok_def)
  from saved obtain spec where s: "parse_file_spec (synthesize_resource cp) = Inr spec" and t: "fl_target spec \<in> T"
    and nd: "f (fl_target spec) \<noteq> Some Directory" and alt: "cp_data cp = absent_backup spec \<and> v (fl_target spec) = None
        \<and> (\<forall>q. strict_prefix q (fl_target spec) \<longrightarrow> f q = None \<or> f q = Some Directory)
      \<or> (\<exists>c m u g u' g'. cp_data cp = present_backup spec c m u g \<and> v (fl_target spec) = Some (Regular c m u g)
          \<and> plain_node (fe_kernel E) (Regular c m u g) \<and> f (ws @ [backup_name]) = Some (Regular c m u' g')
          \<and> f (butlast (fl_target spec)) = Some Directory)"
    unfolding file_saved_def by blast
  let ?p = "fl_target spec"
  note hp = host_okD [OF h t]
  have "\<exists>f'. restore_file E (fl_path spec) (cp_data cp) ws f = (Inr (), f') \<and> changes_at E ?p f f' \<and> managed_view sd f' ?p = v ?p"
    using alt
  proof (elim disjE conjE exE)
    assume a: "cp_data cp = absent_backup spec" "v ?p = None" "\<forall>q. strict_prefix q ?p \<longrightarrow> f q = None \<or> f q = Some Directory"
    have "changes_at E ?p f (f(?p := None))"
      using cl nd hp(1) closed_remove [OF cl(1) nd] by (simp add: changes_at_def)
    then show ?thesis using restore_absent [OF ok nd] a by (auto simp: managed_view_def)
  next
    fix c m u g u' g' assume a: "cp_data cp = present_backup spec c m u g" "v ?p = Some (Regular c m u g)"
      and n: "plain_node (fe_kernel E) (Regular c m u g)" and bk: "f (ws @ [backup_name]) = Some (Regular c m u' g')"
      and par: "f (butlast ?p) = Some Directory"
    have "walk f ?p = None"
      using hp(1) par cl(1) walk_child [of f "butlast ?p" "last ?p"] by (auto simp: walk_None dest: closed_fsD)
    from changes_trans_put [OF changes_refl [OF cl] this nd n hp(1)]
    show ?thesis using restore_present [OF ok t n bk par nd] a hp(2) by (auto simp: managed_view_def)
  qed
  then obtain f' where f': "restore_file E (fl_path spec) (cp_data cp) ws f = (Inr (), f')" "changes_at E ?p f f'" "managed_view sd f' ?p = v ?p"
    by blast
  have "managed_view sd f' q = v q" for q
  proof (cases "q = ?p")
    case False
    with changes_view [OF ok f'(2) False] tch show ?thesis by (simp add: file_touches_def s)
  qed (simp add: f'(3))
  moreover have "file_rollback E (synthesize_resource cp) cp ws f = (Inr (), f')" by (simp add: file_rollback_def s f'(1))
  moreover have "fs_ok E sd T f'" by (rule changes_fs_ok [OF ok t f'(2)])
  ultimately show ?thesis using changes_saved [OF ok t f'(2)] by blast
qed

lemma file_pre_apply_stores:
  assumes ok: "fs_ok E sd T f" and adm: "file_admissible E T r" and ws: "ws \<in> workspaces sd"
    and run: "file_pre_apply E r s \<lparr>ac_operation_id = oper, ac_workspace = ws\<rparr> f = (res, f')"
  shows "stores_at ws f f'" and "res = Inr data \<Longrightarrow> cp_for cp r data \<Longrightarrow> file_saved E T cp ws (managed_view sd f) f'"
proof -
  have h: "host_ok E sd T" and cl: "closed_fs f" "f [] = Some Directory" using ok by (simp_all add: fs_ok_def)
  have refl: "stores_at ws f f" using cl by (simp add: stores_at_def)
  have both: "stores_at ws f f' \<and> (res = Inr data \<longrightarrow> cp_for cp r data \<longrightarrow> file_saved E T cp ws (managed_view sd f) f')"
  proof (cases "parse_file_spec r")
    case (Inl e)
    with run refl show ?thesis by (auto simp: file_pre_apply_def bindA_def)
  next
    case (Inr spec)
    have t: "fl_target spec \<in> T" using adm Inr by (simp add: file_admissible_def)
    note hp = host_okD [OF h t]
    show ?thesis
    proof (cases "parse_file_action (st_action s)")
      case (Inl e)
      with run refl Inr show ?thesis by (auto simp: file_pre_apply_def bindA_def \<open>parse_file_spec r = Inr spec\<close>)
    next
      case (Inr act)
      with run \<open>parse_file_spec r = Inr spec\<close> have b: "backup_file E spec ws f = (res, f')"
        by (simp add: file_pre_apply_def bindA_def)
      note st = backup_stores(1) [OF ok t ws b]
      have cl': "closed_fs f'" using st by (simp add: stores_at_def)
      note nt = target_not_on_workspace [OF h t ws]
      have same: "f' (fl_target spec) = f (fl_target spec)" by (rule stores_same [OF st]) (use nt in auto)
      have "file_saved E T cp ws (managed_view sd f) f'" if d: "res = Inr data" and cp: "cp_for cp r data"
      proof -
        have sp: "parse_file_spec (synthesize_resource cp) = Inr spec" and cd: "cp_data cp = data"
          using parse_synthesized [OF cp] \<open>parse_file_spec r = Inr spec\<close> cp by (simp_all add: cp_for_def)
        from backup_stores(2) [OF ok t ws b d] show ?thesis
        proof (elim disjE conjE exE)
          assume a: "data = absent_backup spec" and l: "look f' (fl_target spec) = Inl ENOENT"
          note look_ENOENT [OF cl' l]
          then show ?thesis unfolding file_saved_def using sp t a cd same by (intro exI [of _ spec]) (auto simp: managed_view_def)
        next
          fix c m u g u' g' assume a: "data = present_backup spec c m u g" and fp: "f (fl_target spec) = Some (Regular c m u g)"
            and fb: "f' (ws @ [backup_name]) = Some (Regular c m u' g')"
          have "plain_node (fe_kernel E) (Regular c m u g)" using ok t fp by (auto simp: fs_ok_def)
          moreover have "f' (butlast (fl_target spec)) = Some Directory"
            by (rule closed_fsD [OF cl' _ above_butlast [OF hp(1)]]) (simp add: same fp)
          moreover have "managed_view sd f (fl_target spec) = Some (Regular c m u g)" using fp hp(2) by (simp add: managed_view_def)
          ultimately show ?thesis unfolding file_saved_def using sp t a cd same fp fb by (intro exI [of _ spec]) auto
        qed
      qed
      with st show ?thesis by blast
    qed
  qed
  show "stores_at ws f f'" using both by blast
  show "res = Inr data \<Longrightarrow> cp_for cp r data \<Longrightarrow> file_saved E T cp ws (managed_view sd f) f'" using both by blast
qed

interpretation files: reversible_registry "file_registry E" sd remove_tree "managed_view sd" "fs_ok E sd T"
  "file_admissible E T" "file_saved E T" file_touches
  for E sd T
proof (unfold_locales, unfold file_registry_Some, safe)
  fix r w show "snd (pv_observe (file_provider E) r w) = w" by (simp add: file_provider_def file_observe_def)
next
  fix r w show "snd (pv_verify (file_provider E) r w) = w" by (simp add: file_provider_def file_verify_def)
next
  fix r d steps and ids :: "nat \<Rightarrow> ulid" assume "pv_plan (file_provider E) ids r d = Inr steps"
  then show "map st_id steps = map ids [0..<length steps]"
    by (auto simp: file_provider_def file_plan_def bindE_Inr_iff new_step_def split: option.splits)
next
  fix cp r data assume "cp_for cp r data"
  from parse_synthesized [OF this] show "file_touches (synthesize_resource cp) = file_touches r"
    by (simp add: file_touches_def fun_eq_iff)
next
  fix r w ws s oper and pre :: "(core_error, json) result" and w'
  assume "fs_ok E sd T w" "file_admissible E T r" "ws \<in> workspaces sd"
    "pv_pre_apply (file_provider E) r s \<lparr>ac_operation_id = oper, ac_workspace = ws\<rparr> w = (pre, w')"
  then have "stores_at ws w w'" using file_pre_apply_stores(1) by (simp add: file_provider_def)
  from stores_fs_ok [OF \<open>fs_ok E sd T w\<close> \<open>ws \<in> workspaces sd\<close> this]
  show "fs_ok E sd T w'" "managed_view sd w' = managed_view sd w" by simp_all
  fix ws' cp v assume "ws' \<in> workspaces sd" "ws' \<noteq> ws" "file_saved E T cp ws' v w"
  then show "file_saved E T cp ws' v w'"
    by (rule stores_saved [OF \<open>fs_ok E sd T w\<close> \<open>ws \<in> workspaces sd\<close> \<open>stores_at ws w w'\<close>])
next
  fix r w ws s oper data w' cp
  assume "fs_ok E sd T w" "file_admissible E T r" "ws \<in> workspaces sd"
    "pv_pre_apply (file_provider E) r s \<lparr>ac_operation_id = oper, ac_workspace = ws\<rparr> w = (Inr data, w')" "cp_for cp r data"
  then show "file_saved E T cp ws (managed_view sd w) w'"
    using file_pre_apply_stores(2) [of E sd T w r ws s oper "Inr data" w' data cp] by (simp add: file_provider_def)
next
  fix r w ws s oper res w'
  assume ok: "fs_ok E sd T w" and "file_admissible E T r" "ws \<in> workspaces sd"
    "pv_apply (file_provider E) r s \<lparr>ac_operation_id = oper, ac_workspace = ws\<rparr> w = (res, w')"
  then have ch: "w' = w \<and> (\<exists>e. res = Inl e) \<or> (\<exists>spec. parse_file_spec r = Inr spec \<and> fl_target spec \<in> T \<and> changes_at E (fl_target spec) w w')"
    using file_apply_changes by (simp add: file_provider_def)
  then show "fs_ok E sd T w'" using ok changes_fs_ok by blast
  show "file_touches r (managed_view sd w) (managed_view sd w')"
    using ch file_touches_changes [OF ok] by (auto simp: file_touches_def split: sum.splits)
  fix ws' cp v assume "ws' \<in> workspaces sd" "file_saved E T cp ws' v w"
  then show "file_saved E T cp ws' v w'" using ch changes_saved [OF ok] by blast
next
  fix cp w ws v
  assume "fs_ok E sd T w" "ws \<in> workspaces sd" "file_saved E T cp ws v w" "file_touches (synthesize_resource cp) v (managed_view sd w)"
  from file_rollback_undoes [OF this]
  show "\<exists>w'. pv_rollback (file_provider E) (synthesize_resource cp) cp ws w = (Inr (), w') \<and> fs_ok E sd T w' \<and> managed_view sd w' = v
    \<and> (\<forall>cp' ws' v'. ws' \<in> workspaces sd \<longrightarrow> file_saved E T cp' ws' v' w \<longrightarrow> file_saved E T cp' ws' v' w')"
    by (simp add: file_provider_def)
qed (simp_all add: remove_tree_ok remove_tree_saved)

end
