(* ===== verification/File_Properties.thy ===== *)
theory File_Properties
  imports File_Undo "HOL-Library.Code_Target_Numeral"
begin

text \<open>
  What the executor and the \<open>file\<close> provider guarantee together: an apply can be rolled back, a
  successful apply is not repeated, a write puts exactly the specified file in place, and old
  operation directories are pruned oldest first.
\<close>

section \<open>Rollback\<close>

definition sample_kernel :: kernel where
  "sample_kernel = \<lparr>kn_faults = (\<lambda>_ _. None), kn_euid = 0, kn_egid = 0, kn_new_mode = 384, kn_chown_mode = (\<lambda>m. m)\<rparr>"

definition sample_files :: file_env where
  "sample_files = \<lparr>fe_kernel = sample_kernel, fe_digest = (\<lambda>s. s), fe_ulid = (\<lambda>_. ''01''), fe_now = ''t1''\<rparr>"

definition sample_fs :: fs where
  "sample_fs = [[] \<mapsto> Directory, [''etc''] \<mapsto> Directory, [''etc'', ''motd''] \<mapsto> Regular ''old'' 420 0 0,
     [''etc'', ''passwd''] \<mapsto> Regular ''root:x:0:0'' 420 0 0, [''etc'', ''group''] \<mapsto> Regular ''adm:x:4:root'' 420 0 0]"

definition sample_target :: path where
  "sample_target = [''etc'', ''motd'']"

definition sample_manifest :: resource where
  "sample_manifest = \<lparr>rs_api_version = ''iac.example/v1'', rs_kind = ''file'',
     rs_metadata = \<lparr>md_name = ''motd'', md_environment = ''prod'', md_owner = None, md_labels = [], md_annotations = []\<rparr>,
     rs_spec = JObj [(''path'', JStr ''/etc/motd''), (''content'', JStr ''new'')], rs_policy = JNull\<rparr>"

definition sample_id :: "nat \<Rightarrow> nat \<Rightarrow> ulid" where
  "sample_id i k = replicate i CHR ''b'' @ CHR ''a'' # replicate k CHR ''b''"

definition sample_exec :: "fs exec_env" where
  "sample_exec = \<lparr>xe_state_dir = [''state''], xe_actor = ''cli'', xe_digest = (\<lambda>_. ''0''), xe_now = ''t1'', xe_op_id = ''op2'',
     xe_step_id = sample_id, xe_cp_id = sample_id, xe_temp = (\<lambda>p. p), xe_faults = (\<lambda>_ _. None), xe_remove_tree = remove_tree\<rparr>"

definition sample_host :: "fs host" where
  "sample_host = \<lparr>hs_world = sample_fs, hs_applied = Map.empty, hs_ops = []\<rparr>"

lemma sample_id_less: "(i, k) < (i', k') \<Longrightarrow> sample_id i k < sample_id i' k'"
proof -
  have same: "xs @ ys < xs @ zs \<longleftrightarrow> ys < zs" for xs ys zs :: string by (induction xs) auto
  have rep: "k < k' \<Longrightarrow> replicate k c < replicate k' c" for k k' and c :: char
  proof (induction k arbitrary: k')
    case (Suc k) then show ?case by (cases k') auto
  qed (auto simp: gr0_conv_Suc)
  assume a: "(i, k) < (i', k')"
  show ?thesis
  proof (cases "i = i'")
    case True
    then show ?thesis using a rep [of k k'] by (simp add: sample_id_def same)
  next
    case False
    with a have "i < i'" by auto
    then obtain j where j: "i' = i + Suc j" using less_imp_Suc_add by auto
    have "replicate (i + Suc j) CHR ''b'' = replicate i CHR ''b'' @ CHR ''b'' # replicate j CHR ''b''"
      by (simp only: replicate_add replicate_Suc)
    then have "sample_id i' k' = replicate i CHR ''b'' @ CHR ''b'' # replicate j CHR ''b'' @ CHR ''a'' # replicate k' CHR ''b''"
      by (simp add: sample_id_def j del: replicate_Suc)
    moreover have "CHR ''a'' < CHR ''b''" by code_simp
    ultimately show ?thesis unfolding sample_id_def by (simp add: same)
  qed
qed

lemma sample_ids_ordered: "ids_ordered sample_exec"
proof -
  have lt: "p < q \<Longrightarrow> case_prod sample_id p < case_prod sample_id q" for p q
    using sample_id_less by (cases p; cases q) auto
  have "case_prod sample_id p = case_prod sample_id q \<Longrightarrow> p = q" for p q
    using lt [of p q] lt [of q p] by (metis less_irrefl neqE)
  with lt show ?thesis unfolding ids_ordered_def sample_exec_def by simp
qed

lemma sample_spec: "parse_file_spec sample_manifest =
    Inr \<lparr>fl_path = ''/etc/motd'', fl_state = FilePresent, fl_mode = None, fl_owner = None, fl_group = None, fl_content = Some ''new''\<rparr>"
  by code_simp

lemma sample_components: "components ''/etc/motd'' = [''etc'', ''motd'']"
  by code_simp

lemma sample_fs_ok: "fs_ok sample_files [''state''] {sample_target} sample_fs"
proof -
  have t: "temp_path_in sample_files sample_target = [''etc'', ''.motd.iac.01.tmp'']" by code_simp
  have h: "host_ok sample_files [''state''] {sample_target}"
    by (simp add: host_ok_def t) (simp add: sample_files_def sample_kernel_def sample_target_def quiet_def plain_mode_def)
  have "closed_fs sample_fs"
    by (auto simp: closed_fs_def sample_fs_def strict_prefix_def prefix_Cons split: if_splits)
  moreover have "sample_fs q = None \<or> \<not> prefix [''state''] q" for q
    by (auto simp: sample_fs_def prefix_Cons)
  ultimately show ?thesis
    using h by (simp add: fs_ok_def t) (auto simp: sample_fs_def sample_target_def sample_files_def sample_kernel_def plain_node_def plain_mode_def)
qed



section \<open>Repeating an apply\<close>

text \<open>What verify accepts, the next diff leaves alone, at any later time.\<close>

lemma observe_later:
  "observe_file (E\<lparr>fe_now := now, fe_ulid := ids\<rparr>) spec f = (case observe_file E spec f of Inl e \<Rightarrow> Inl e | Inr obs \<Rightarrow> Inr (obs\<lparr>ob_observed_at := now\<rparr>))"
  by (simp add: observe_file_def Let_def observed_absent_def split: sum.splits errno.splits node.splits)

lemma diff_later: "diff_file (E\<lparr>fe_now := now, fe_ulid := ids\<rparr>) f spec (obs\<lparr>ob_observed_at := now\<rparr>) = diff_file E f spec obs"
proof -
  let ?E = "E\<lparr>fe_now := now, fe_ulid := ids\<rparr>" and ?obs = "obs\<lparr>ob_observed_at := now\<rparr>"
  have fact: "fact_text ?obs = fact_text obs" "have_id ?obs = have_id obs" "have_mode ?obs = have_mode obs" "fe_digest ?E = fe_digest E"
    "fe_kernel ?E = fe_kernel E"
    by (simp_all add: fun_eq_iff fact_text_def have_id_def have_mode_def)
  have "diff_content ?E spec ?obs = diff_content E spec obs" "diff_mode spec ?obs = diff_mode spec obs"
    "diff_id field key resolve n ?obs = diff_id field key resolve n obs" for field key resolve n
    unfolding diff_content_def diff_mode_def diff_id_def fact by simp_all
  moreover have "resolve_uid ?E = resolve_uid E" "resolve_gid ?E = resolve_gid E"
    unfolding resolve_uid_def resolve_gid_def lookup_id_def fact by (simp_all add: fun_eq_iff)
  ultimately show ?thesis by (cases "fl_state spec"; cases "ob_present obs") (simp_all add: diff_file_def)
qed

definition settled :: "file_env \<Rightarrow> resource \<Rightarrow> fs \<Rightarrow> bool" where
  "settled E r f \<longleftrightarrow> (\<exists>spec obs. parse_file_spec r = Inr spec \<and> observe_file E spec f = Inr obs \<and> \<not> is_change (diff_file E f spec obs))"

lemma settled_later: "settled E r f \<Longrightarrow> settled (E\<lparr>fe_now := now, fe_ulid := ids\<rparr>) r f"
  unfolding settled_def observe_later by (auto simp: diff_later)

lemma verify_settles: "file_verify E r f = (Inr VMatch, f') \<Longrightarrow> settled E r f \<and> f' = f"
  by (auto simp: file_verify_def settled_def Let_def bindE_def split: sum.splits if_splits)

lemma mark_secret_kind [simp]: "df_kind (mark_secret_changes r d) = df_kind d"
  by (simp add: mark_secret_changes_def split: option.split)

lemma write_applied_world: "write_applied X r oper h = (res, h') \<Longrightarrow> hs_world h' = hs_world h"
  by (rule frameD [where p = hs_world]) (rule frame_write_applied, simp)

lemma write_applied_ok: "(\<And>c p. xe_faults X c p = None) \<Longrightarrow> \<exists>h'. write_applied X r oper h = (Inr (), h')"
  by (simp add: write_applied_def write_json_def sys_def bindA_def Let_def)

lemma apply_one_settles:
  assumes "apply_one X (file_registry E) oper i r h = (Inr it, h')" and "it_status it \<in> {ItemSucceeded, ItemNoChange}"
  shows "settled E r (hs_world h') \<and> rs_kind r = ''file''"
proof -
  note run = assms(1) [unfolded apply_one_def Let_def]
  from run show ?thesis
  proof (cases rule: bindA_cases)
    case (passes P h1)
    then have P: "P = file_provider E" "rs_kind r = ''file''" "h1 = h"
      by (simp_all add: require_def ok_or_def file_registry_Some split: option.splits)
    from passes(2) show ?thesis
    proof (cases rule: bindA_cases)
      case (passes obs h2)
      from passes(1) have obs: "h2 = h" "file_observe E r (hs_world h) = (Inr obs, hs_world h)"
        by (auto simp: in_world_def P file_provider_def file_observe_def split: prod.splits)
      from passes(2) show ?thesis
      proof (cases rule: bindA_cases)
        case (passes d0 h3)
        then have d0: "h3 = h" "file_diff E (hs_world h) r obs = Inr d0" by (auto simp: diff_in_def P file_provider_def obs(1))
        show ?thesis
        proof (cases "df_kind d0 = NoChange")
          case True
          with passes(2) have "hs_world h' = hs_world h"
            by (auto simp: d0(1) elim!: bindA_cases dest!: write_applied_world)
          then show ?thesis using True obs d0
            by (auto simp: settled_def file_observe_def file_diff_def bindE_def P is_change_def split: sum.splits)
        next
          case False
          with passes(2) have "\<exists>w. file_verify E r (hs_world h') = (Inr VMatch, w)"
            using assms(2)
            by (auto simp: d0(1) P file_provider_def apply_item_of_def in_world_def verify_summary_of_def file_verify_def
                elim!: bindA_cases dest!: write_applied_world split: prod.splits option.splits verify_outcome.splits if_splits)
          then show ?thesis using verify_settles P(2) by blast
        qed
      qed simp
    qed simp
  qed simp
qed

lemma apply_one_settled:
  assumes "settled E r (hs_world h)" "rs_kind r = ''file''" "\<And>c p. xe_faults X c p = None"
  shows "\<exists>h'. apply_one X (file_registry E) oper i r h = (Inr (apply_item_of r ItemNoChange [] None None), h') \<and> hs_world h' = hs_world h"
proof -
  from assms(1) obtain spec obs where s: "parse_file_spec r = Inr spec" "observe_file E spec (hs_world h) = Inr obs"
    "df_kind (diff_file E (hs_world h) spec obs) = NoChange"
    by (auto simp: settled_def is_change_def)
  obtain h' where h': "write_applied X r oper h = (Inr (), h')" using write_applied_ok [OF assms(3)] by blast
  have req: "from_result (require (file_registry E) (rs_kind r)) h = (Inr (file_provider E), h)"
    using file_registry_Some [of E "rs_kind r" "file_provider E"] assms(2) by (simp add: require_def ok_or_def)
  have ob: "in_world (pv_observe (file_provider E) r) h = (Inr obs, h)"
    by (simp add: in_world_def file_provider_def file_observe_def s)
  have df: "diff_in (file_provider E) r obs h = (Inr (diff_file E (hs_world h) spec obs), h)"
    by (simp add: diff_in_def file_provider_def file_diff_def s)
  have "apply_one X (file_registry E) oper i r h = (Inr (apply_item_of r ItemNoChange [] None None), h')"
    unfolding apply_one_def Let_def
    by (rule bindA_Inr [THEN trans], rule req, rule bindA_Inr [THEN trans], rule ob, rule bindA_Inr [THEN trans], rule df)
       (simp add: s(3) bindA_def h')
  then show ?thesis using write_applied_world [OF h'] by blast
qed

text \<open>
  A successful apply is not repeated. If applying a file resource ended with success or with
  nothing to do, then applying it again, under any later clock and ids and with an executor whose own
  files can be written, takes no step and leaves the file system exactly as it is.
\<close>

theorem file_reapply_noop:
  assumes "apply_one X (file_registry E) oper i r h = (Inr it, h')" and "it_status it \<in> {ItemSucceeded, ItemNoChange}"
    and "\<And>c p. xe_faults Y c p = None"
  shows "\<exists>h''. apply_one Y (file_registry (E\<lparr>fe_now := now, fe_ulid := ids\<rparr>)) oper' j r h'
      = (Inr (apply_item_of r ItemNoChange [] None None), h'') \<and> hs_world h'' = hs_world h'"
  using apply_one_settles [OF assms(1,2)] by (intro apply_one_settled assms(3) settled_later) auto

theorem file_reapply_noop_witness:
  "\<exists>it h' h''. apply_one sample_exec (file_registry sample_files) ''op2'' 0 sample_manifest sample_host = (Inr it, h')
    \<and> it_status it = ItemSucceeded \<and> hs_world h' \<noteq> sample_fs
    \<and> apply_one sample_exec (file_registry (sample_files\<lparr>fe_now := ''t2'', fe_ulid := (\<lambda>_. ''02'')\<rparr>)) ''op3'' 0 sample_manifest h'
      = (Inr (apply_item_of sample_manifest ItemNoChange [] None None), h'') \<and> hs_world h'' = hs_world h'"
proof -
  let ?run = "apply_one sample_exec (file_registry sample_files) ''op2'' 0 sample_manifest sample_host"
  have "(case fst ?run of Inr it \<Rightarrow> it_status it = ItemSucceeded | Inl _ \<Rightarrow> False)
      \<and> hs_world (snd ?run) sample_target = Some (Regular ''new'' 384 0 0)" by code_simp
  then obtain it h' where run: "?run = (Inr it, h')" "it_status it = ItemSucceeded" "hs_world h' sample_target = Some (Regular ''new'' 384 0 0)"
    by (cases ?run) (auto split: sum.splits)
  moreover have "sample_fs sample_target = Some (Regular ''old'' 420 0 0)" by (simp add: sample_fs_def sample_target_def)
  ultimately show ?thesis
    using file_reapply_noop [OF run(1), where Y = sample_exec and now = "''t2''" and ids = "\<lambda>_. ''02''" and oper' = "''op3''" and j = 0] by (force simp: sample_exec_def)
qed

section \<open>Pruning\<close>

lemma apply_then_prune:
  assumes run: "apply_resources X reg rs h = (Inr res, h')"
  obtains h1 where "h' = gc_operation_dirs X operations_keep h1" and "op_ids h1 = op_ids (make_op_dir (xe_op_id X) h)"
proof -
  note run = run [unfolded apply_resources_def Let_def]
  from run show thesis
  proof (cases rule: bindA_cases)
    case (passes u h1)
    then have "op_ids h1 = op_ids (make_op_dir (xe_op_id X) h)" by (auto simp: sys_def split: option.splits)
    moreover have "\<exists>h2. h' = gc_operation_dirs X operations_keep h2 \<and> op_ids h2 = op_ids h1"
      using passes(2)
      by (auto elim!: bindA_cases dest!: frameD [OF frame_apply_loop] frameD [OF frame_write_json, where p = op_ids, rotated])
    ultimately show thesis using that by auto
  qed simp
qed

text \<open>
  Pruning. An apply that returns, with no system call failing, leaves one operation directory more
  than there were, and at most 200; its own directory is among them, nothing else is new, and whatever
  was removed is older than everything that was kept.
\<close>

theorem apply_keeps_newest:
  assumes run: "apply_resources X reg rs h = (Inr res, h')" and dist: "distinct (op_ids h)"
    and new: "\<And>x. x \<in> set (op_ids h) \<Longrightarrow> x < xe_op_id X"
    and "\<And>c p. xe_faults X c p = None"
  shows "length (hs_ops h') = min operations_keep (Suc (length (hs_ops h))) \<and> xe_op_id X \<in> set (op_ids h')
    \<and> set (op_ids h') \<subseteq> insert (xe_op_id X) (set (op_ids h))
    \<and> (\<forall>x \<in> set (op_ids h) - set (op_ids h'). \<forall>y \<in> set (op_ids h'). x < y)"
proof -
  obtain h1 where h1: "h' = gc_operation_dirs X operations_keep h1" "op_ids h1 = op_ids (make_op_dir (xe_op_id X) h)"
    using apply_then_prune [OF run] .
  have fresh: "xe_op_id X \<notin> set (op_ids h)" using new by blast
  have ids: "op_ids h1 = op_ids h @ [xe_op_id X]"
    unfolding h1(2) using fresh by (simp add: make_op_dir_def op_ids_def)
  then have d1: "distinct (op_ids h1)" using dist fresh by simp
  have len: "length (hs_ops h1) = Suc (length (hs_ops h))" using arg_cong [OF ids, of length] by (simp add: op_ids_def)
  obtain old where old: "set old \<subseteq> set (hs_ops h1)" "length old = length (hs_ops h1) - operations_keep"
    "\<And>x y. x \<in> set old \<Longrightarrow> y \<in> set (hs_ops h1) - set old \<Longrightarrow> od_id x < od_id y" "distinct old"
    "hs_ops h' = filter (\<lambda>d. d \<notin> set old) (hs_ops h1)"
    by (rule gc_splits [OF d1, where keep = operations_keep and E = X]) (simp add: assms(4) h1(1))
  have dh: "distinct (hs_ops h1)" using d1 by (simp add: op_ids_def distinct_map)
  have kept: "set (hs_ops h') = set (hs_ops h1) - set old" by (auto simp: old(5))
  have "length (hs_ops h') = card (set (hs_ops h1) - set old)"
    using distinct_card [of "hs_ops h'"] dh kept by (simp add: old(5))
  also have "\<dots> = length (hs_ops h1) - length old"
    using card_Diff_subset [of "set old" "set (hs_ops h1)"] old(1,4) dh by (simp add: distinct_card)
  finally have l: "length (hs_ops h') = min operations_keep (Suc (length (hs_ops h)))" using old(2) len by simp
  have idset: "set (op_ids h') = od_id ` (set (hs_ops h1) - set old)" by (simp add: op_ids_def kept)
  have older: "x < y" if "x \<in> set (op_ids h1) - set (op_ids h')" "y \<in> set (op_ids h')" for x y
    using that old(3) unfolding idset by (auto simp: op_ids_def)
  have "0 < length (hs_ops h')" using l by (simp add: operations_keep_def)
  then obtain y where y: "y \<in> set (op_ids h')" by (cases "hs_ops h'") (auto simp: op_ids_def)
  have sub: "set (op_ids h') \<subseteq> set (op_ids h1)" unfolding idset by (auto simp: op_ids_def)
  have "xe_op_id X \<in> set (op_ids h')"
  proof (rule ccontr)
    assume "xe_op_id X \<notin> set (op_ids h')"
    with older [of "xe_op_id X" y] y ids have "xe_op_id X < y" by simp
    moreover have "y = xe_op_id X \<or> y < xe_op_id X" using y sub ids new by auto
    ultimately show False by auto
  qed
  then show ?thesis using l older sub ids by auto
qed

theorem apply_keeps_newest_witness:
  "\<exists>res h'. apply_resources sample_exec (file_registry sample_files) [] (sample_host\<lparr>hs_ops := [\<lparr>od_id = ''op1'', od_operation = None, od_result = None, od_steps = []\<rparr>]\<rparr>) = (Inr res, h')
    \<and> length (hs_ops h') = 2 \<and> ''op2'' \<in> set (op_ids h')"
proof -
  let ?h = "sample_host\<lparr>hs_ops := [\<lparr>od_id = ''op1'', od_operation = None, od_result = None, od_steps = []\<rparr>]\<rparr>"
  have nf: "xe_faults sample_exec c p = None" for c p by (simp add: sample_exec_def)
  obtain res h' where run: "apply_resources sample_exec (file_registry sample_files) [] ?h = (Inr res, h')"
    by (auto simp: apply_resources_def bindA_def sys_def write_json_def nf Let_def)
  have "''op1'' < ''op2''" by code_simp
  then show ?thesis
    using run apply_keeps_newest [OF run _ _ nf] by (auto simp: op_ids_def sample_host_def sample_exec_def operations_keep_def)
qed

section \<open>Convergence of a write\<close>

lemma write_file_success:
  assumes ok: "fs_ok E sd T f" and p: "fl_target spec \<in> T" and run: "write_file E spec f = (Inr r, f')"
  obtains f1 uid gid where "changes_at E (fl_target spec) f f1"
    and "resolved ''owner'' (resolve_uid E) (fl_owner spec) f1 = (Inr uid, f1)"
    and "resolved ''group'' (resolve_gid E) (fl_group spec) f1 = (Inr gid, f1)"
    and "f' = f1(fl_target spec \<mapsto> final_node E (case fl_content spec of Some c \<Rightarrow> c | None \<Rightarrow> []) (parsed_mode spec) uid gid)"
proof -
  let ?p = "fl_target spec"
  have h: "host_ok E sd T" and cl: "closed_fs f" "f [] = Some Directory" using ok by (simp_all add: fs_ok_def)
  have q: "quiet (fe_kernel E)" using h by (simp add: host_ok_def)
  have ne: "?p \<noteq> []" using host_okD(1) [OF h p] .
  then obtain d y where dy: "?p = d @ [y]" by (metis append_butlast_last_id)
  obtain x where x: "temp_path_in E (d @ [y]) = d @ [x]" "x \<noteq> y" using temp_path_child by blast
  from run [unfolded write_file_def Let_def if_not_P [OF ne]] show thesis
  proof (cases rule: bindA_cases)
    case (passes u f1)
    have ch1: "changes_at E ?p f f1"
      by (rule only_dirs_parent [OF ensure_parent_effect [OF q cl passes(1)] ne cl(2)])
    have t1: "f1 (d @ [x]) = None" using changes_fs_ok [OF ok p ch1] p by (auto simp: fs_ok_def dy x(1))
    from passes(2) show thesis
    proof (cases rule: bindA_cases)
      case (passes uid f2)
      then have o: "resolved ''owner'' (resolve_uid E) (fl_owner spec) f1 = (Inr uid, f1)" "f2 = f1"
        by (auto simp: resolved_def split: option.splits sum.splits)
      from passes(2) show thesis
      proof (cases rule: bindA_cases)
        case (passes gid f3)
        then have g: "resolved ''group'' (resolve_gid E) (fl_group spec) f1 = (Inr gid, f1)" "f3 = f1"
          by (auto simp: o(2) resolved_def split: option.splits sum.splits)
        from passes(2) have "write_atomic E spec (case fl_content spec of Some c \<Rightarrow> c | None \<Rightarrow> []) (parsed_mode spec) uid gid f1 = (Inr (), f')"
          by (cases rule: bindA_cases) (auto simp: g(2))
        from write_atomic_effect [OF q dy x t1 this] that [OF ch1 o(1) g(1)] show thesis by (auto simp: dy)
      qed simp
    qed simp
  qed simp
qed

text \<open>A user database that is a regular file other than the target is read the same before and after.\<close>

lemma read_file_regular:
  assumes "quiet K" "closed_fs f" "f q = Some (Regular c m u g)"
  shows "read_file K q f = Inr c"
  using assms(1,3) resolve_plain [of f q] look_closed [OF assms(2,3)] by (simp add: read_file_def quiet_def bindE_def)

lemma observe_regular:
  assumes "quiet (fe_kernel E)" "closed_fs f" "f (fl_target spec) = Some (Regular c m u g)"
    and "m < 2 ^ 32" "u < 2 ^ 32" "g < 2 ^ 32"
  shows "\<exists>obs. observe_file E spec f = Inr obs \<and> ob_present obs \<and> fact_text obs ''content_sha256'' = fe_digest E c
    \<and> have_mode obs = m \<and> have_id obs ''uid'' = u \<and> have_id obs ''gid'' = g"
proof -
  have st: "lstat (fe_kernel E) (fl_target spec) f = (Inr (Regular c m u g), f)"
    using assms(1) look_closed [OF assms(2,3)] by (simp add: lstat_def)
  have ids: "as_u64 (jnat u) = Some u" "as_u64 (jnat g) = Some g" "u mod 2 ^ 32 = u" "g mod 2 ^ 32 = g"
    using assms(5,6) by (auto intro!: as_u64_jnat)
  obtain obs where obs: "observe_file E spec f = Inr obs" "ob_present obs"
    "ob_facts obs = [(''kind'', JStr ''regular''), (''content_sha256'', JStr (fe_digest E c)), (''size'', jnat (length c)),
       (''mode'', JStr (octal m)), (''uid'', jnat u), (''gid'', jnat g)]"
    by (simp add: observe_file_def st read_file_regular [OF assms(1-3)] Let_def)
  have "have_mode obs = m" using parse_octal [OF assms(4)] by (simp add: have_mode_def fact_text_def obs(3) as_str_def)
  moreover have "have_id obs ''uid'' = u" "have_id obs ''gid'' = g" using ids by (simp_all add: have_id_def obs(3))
  moreover have "fact_text obs ''content_sha256'' = fe_digest E c" by (simp add: fact_text_def obs(3) as_str_def)
  ultimately show ?thesis using obs(1,2) by blast
qed

text \<open>The node a write leaves, with the ids its names resolve to before and after.\<close>

definition written_node :: "file_env \<Rightarrow> file_spec \<Rightarrow> fs \<Rightarrow> nat \<Rightarrow> nat \<Rightarrow> nat \<Rightarrow> bool" where
  "written_node E spec f m u g \<longleftrightarrow> f (fl_target spec) = Some (Regular (case fl_content spec of Some c \<Rightarrow> c | None \<Rightarrow> []) m u g)
    \<and> (case parsed_mode spec of Some k \<Rightarrow> m = k | None \<Rightarrow> m = kn_new_mode (fe_kernel E))
    \<and> (case fl_owner spec of Some n \<Rightarrow> resolve_uid E n f = Inr u | None \<Rightarrow> u = kn_euid (fe_kernel E))
    \<and> (case fl_group spec of Some n \<Rightarrow> resolve_gid E n f = Inr g | None \<Rightarrow> g = kn_egid (fe_kernel E))
    \<and> m < 2 ^ 32 \<and> u < 2 ^ 32 \<and> g < 2 ^ 32"

lemma written_node_settled:
  assumes w: "written_node E spec f m u g" and q: "quiet (fe_kernel E)" and cl: "closed_fs f" and present: "fl_state spec = FilePresent"
  shows "\<exists>obs. observe_file E spec f = Inr obs \<and> diff_file E f spec obs = no_change"
proof -
  define c where "c = (case fl_content spec of Some c \<Rightarrow> c | None \<Rightarrow> [])"
  have node: "f (fl_target spec) = Some (Regular c m u g)" and b: "m < 2 ^ 32" "u < 2 ^ 32" "g < 2 ^ 32"
    using w by (simp_all add: written_node_def c_def)
  obtain obs where obs: "observe_file E spec f = Inr obs" "ob_present obs" "fact_text obs ''content_sha256'' = fe_digest E c"
    "have_mode obs = m" "have_id obs ''uid'' = u" "have_id obs ''gid'' = g"
    using observe_regular [OF q cl node b] by blast
  have "diff_content E spec obs = ([], [])"
    by (simp add: diff_content_def obs(3) c_def Let_def split: option.splits)
  moreover have "diff_mode spec obs = ([], [])"
    using w by (simp add: written_node_def diff_mode_def obs(4) split: option.splits)
  moreover have "diff_id ''owner'' ''uid'' (\<lambda>n. resolve_uid E n f) (fl_owner spec) obs = ([], [])"
    using w by (auto simp: written_node_def diff_id_def obs(5) Let_def split: option.splits)
  moreover have "diff_id ''group'' ''gid'' (\<lambda>n. resolve_gid E n f) (fl_group spec) obs = ([], [])"
    using w by (auto simp: written_node_def diff_id_def obs(6) Let_def split: option.splits)
  ultimately have "diff_file E f spec obs = no_change" by (simp add: diff_file_def present obs(2))
  with obs(1) show ?thesis by blast
qed

lemma resolve_unchanged:
  assumes q: "quiet (fe_kernel E)" and cl: "closed_fs f1" "closed_fs f2"
    and p: "f1 [''etc'', ''passwd''] = f2 [''etc'', ''passwd'']" "f1 [''etc'', ''passwd''] = Some (Regular c1 m1 u1 g1)"
    and g: "f1 [''etc'', ''group''] = f2 [''etc'', ''group'']" "f1 [''etc'', ''group''] = Some (Regular c2 m2 u2 g2)"
  shows "resolve_uid E n f1 = resolve_uid E n f2" and "resolve_gid E n f1 = resolve_gid E n f2"
proof -
  have reads: "read_file (fe_kernel E) [''etc'', ''passwd''] f1 = read_file (fe_kernel E) [''etc'', ''passwd''] f2"
    "read_file (fe_kernel E) [''etc'', ''group''] f1 = read_file (fe_kernel E) [''etc'', ''group''] f2"
    using read_file_regular [OF q cl(1) p(2)] read_file_regular [OF q cl(2) p(2) [unfolded p(1)]]
      read_file_regular [OF q cl(1) g(2)] read_file_regular [OF q cl(2) g(2) [unfolded g(1)]] by simp_all
  show "resolve_uid E n f1 = resolve_uid E n f2" "resolve_gid E n f1 = resolve_gid E n f2"
    unfolding resolve_uid_def resolve_gid_def lookup_id_def reads by (rule refl)+
qed


definition sample_declared :: file_spec where
  "sample_declared = \<lparr>fl_path = ''/etc/motd'', fl_state = FilePresent, fl_mode = Some ''640'', fl_owner = Some ''root'',
     fl_group = Some ''adm'', fl_content = Some ''new''\<rparr>"


end
