(* ===== verification/Spec2Isabelle.thy ===== *)
theory Spec2Isabelle
  imports Agent_Core Drift_Api User_Api Sql_Placeholders File_Properties
begin

text \<open>
  Verification of the iac control plane.
\<close>

section \<open>Properties of the whole control plane\<close>

text \<open>A state the control plane reaches from the migrated, empty database by any calls in any order, the
  passes of the retention loop among them. \<open>whole oper calls\<close>: no pass of the run deleted an assignment of
  the operation; \<open>log_whole\<close>: none deleted a row of the audit log.\<close>

definition reached :: "system_call list \<Rightarrow> db" where
  "reached calls = fold system_step calls empty_db"

definition whole :: "string \<Rightarrow> system_call list \<Rightarrow> bool" where
  "whole oper calls \<longleftrightarrow> all_along system_step (spares_rows {oper}) calls empty_db"

definition log_whole :: "(string \<Rightarrow> string) \<Rightarrow> system_call list \<Rightarrow> bool" where
  "log_whole H calls \<longleftrightarrow> all_along system_step (\<lambda>c d. uses_digest H c \<and> spares_log c d) calls empty_db"

lemma reached_rollout: "whole oper calls \<Longrightarrow> rollout_inv {oper} (reached calls)"
  unfolding reached_def whole_def using system.guarded_run [OF _ system_inv_empty] by (auto simp: system_inv_def)





section \<open>Instances\<close>

text \<open>One SSH target, an operation with two resources of which the second depends on the first, and the
  report that the first succeeded.\<close>

definition system_env0 :: call_env where
  "system_env0 = (sample_env ''t0'' ''t0'')\<lparr>ce_serde := sample_serde\<rparr>"

definition sample_calls :: "system_call list" where
  "sample_calls =
     [AgentCall (UpsertSshTarget system_env0 ''a1'' ''vm1'' ''prod''),
      RolloutCall (CreateOperation system_env0 ''op1'' (\<lambda>i. ''s'' @ show_nat i) ''prod'' ''al'' ''user:al'' None None
        [sample_db, sample_web] [] False None),
      RolloutCall (CompleteAssignment system_env0 ''a1'' ''s0'' \<lparr>rr_status = RSucceeded, rr_summary = None, rr_items = []\<rparr> None)]"

definition created_rows :: "assignment_row list" where
  "created_rows = [new_assignment ''s0'' ''a1'' ''op1'' [] ''t0'' 0 None APending, new_assignment ''s1'' ''a1'' ''op1'' [] ''t0'' 1 None APendingLayer]"


lemma sample_layers: "compute_resource_layers sample_serde [sample_db, sample_web] = Inr [0, 1]"
  by code_simp


lemma sample_routes:
  "route_resource sample_db ''prod'' [(''a1'', ''vm1'', ''prod'')] = Inr ''a1''"
  "route_resource sample_web ''prod'' [(''a1'', ''vm1'', ''prod'')] = Inr ''a1''"
  "rf_resource_id sample_db \<noteq> rf_resource_id sample_web"
  by (simp_all add: route_resource_def sample_db_def sample_web_def)

lemma sample_payload: "bucket_payload sample_serde rs = Inr []" if "rs = [sample_db] \<or> rs = [sample_web]"
  using that by (auto simp: bucket_payload_def parse_json_def sample_serde_def sample_db_def sample_web_def)

lemma sample_ids: "show_nat 0 = ''0''" "show_nat (Suc 0) = ''1''"
  by code_simp+

lemma sample_created: "db_assignments (reached (take 2 sample_calls)) = created_rows"
  by (simp add: sample_calls_def reached_def commit_def upsert_ssh_target_def empty_db_def insert_agent_def new_agent_row_def
     create_operation_def insert_operation_def system_env0_def sample_env_def sample_layers
    insert_desired_def dispatch_buckets_def insert_assignment_def sample_routes sample_payload created_rows_def initial_assignment_status_def
        compute_canary_split_def agent_snapshot_def new_operation_row_def new_assignment_def sample_ids)

lemma sample_completed: "db_assignments (reached sample_calls) = advance_phased_apply ''op1'' ''t0''
    (update_where (\<lambda>a. as_id a = ''s0'') (complete_row ''t0'' [] RSucceeded) created_rows)"
proof -
  have r: "reached sample_calls = rollout_step (CompleteAssignment system_env0 ''a1'' ''s0'' \<lparr>rr_status = RSucceeded, rr_summary = None, rr_items = []\<rparr> None)
     (reached (take 2 sample_calls))" by (simp add: reached_def sample_calls_def)
  have ru: "db_assignments (roll_up_operation oper now d) = db_assignments d" for oper now d
    by (simp add: roll_up_operation_def split: option.splits)
  have f: "find (\<lambda>a. as_id a = ''s0'' \<and> as_agent_id a = ''a1'' \<and> as_status a \<in> {APending, AFetched}) created_rows = Some (hd created_rows)"
    by (simp add: created_rows_def)
  show ?thesis unfolding r rollout_step.simps commit_def complete_assignment_with_extra_audit_def sample_created f
    by (simp add: Let_def ru) (simp add: created_rows_def system_env0_def sample_env_def sample_serde_def)
qed

definition done_row :: assignment_row where
  "done_row = complete_row ''t0'' [] RSucceeded (new_assignment ''s0'' ''a1'' ''op1'' [] ''t0'' 0 None APending)"

definition released_row :: assignment_row where
  "released_row = new_assignment ''s1'' ''a1'' ''op1'' [] ''t0'' 1 None APending"

lemma sample_rows: "rows_of ''op1'' (db_assignments (reached sample_calls)) = [done_row, released_row]"
  unfolding sample_completed by code_simp

text \<open>The run goes on with a retention pass that deletes whatever ended before \<open>t0\<close>: it finds nothing to delete.\<close>

definition sample_run :: "system_call list" where
  "sample_run = sample_calls @ [Prune system_env0 default_retention]"

lemma sample_pass: "db_assignments (snd (prune_once system_env0 default_retention d)) = filter (\<lambda>a. \<not> terminal_row ''t0'' a) (db_assignments d)"
proof -
  have "cutoff_string system_env0 30 = ''t0''" by (simp add: cutoff_string_def span_seconds_max_def system_env0_def sample_env_def)
  moreover have "ce_fault system_env0 st = None" for st by (simp add: system_env0_def sample_env_def)
  ultimately show ?thesis
    using prune_once_complete [of system_env0 default_retention d] by (auto simp: default_retention_def)
qed

lemma sample_kept: "\<not> terminal_row ''t0'' done_row" "\<not> terminal_row ''t0'' released_row"
  by (simp_all add: terminal_row_def done_row_def released_row_def complete_row_def)

lemma run_rows: "rows_of ''op1'' (db_assignments (reached sample_run)) = [done_row, released_row]"
proof -
  have "rows_of ''op1'' (db_assignments (reached sample_run)) = filter (\<lambda>a. \<not> terminal_row ''t0'' a) (rows_of ''op1'' (db_assignments (reached sample_calls)))"
    by (simp add: sample_run_def reached_def sample_pass rows_of_def conj_commute)
  then show ?thesis by (simp add: sample_rows sample_kept)
qed

lemma run_whole: "whole ''op1'' sample_run"
proof -
  have spared: "spares_rows {''op1''} (Prune system_env0 default_retention) (reached sample_calls)"
  proof (simp add: sample_pass, intro ballI impI)
    fix a assume "a \<in> set (db_assignments (reached sample_calls))" "as_operation_id a = ''op1''"
    then have "a \<in> {done_row, released_row}" using sample_rows rows_of_mem [of a "''op1''" "db_assignments (reached sample_calls)"] by simp
    then show "\<not> terminal_row ''t0'' a" using sample_kept by auto
  qed
  then show ?thesis unfolding whole_def sample_run_def sample_calls_def reached_def by simp
qed

lemma sample_contiguous: "contiguous [done_row, released_row]"
  by (auto simp: contiguous_def done_row_def released_row_def complete_row_def)




text \<open>A pass over an empty log deletes nothing.\<close>

lemma sample_log_whole: "log_whole sample_digest (Prune system_env0 default_retention # sample_calls)"
  by (simp add: log_whole_def sample_calls_def uses_digest_def system_env0_def sample_env_def empty_db_def empty_log_def)


end
